(* ===== verification/Prelude.thy ===== *)
theory Prelude
  imports Main "HOL-Library.Word" "HOL-Library.AList" "HOL-Library.Multiset"
    "HOL-Library.Product_Lexorder"
begin

text \<open>
  Shared ground of the development: machine integers with the checked and
  saturating operations of the Rust standard library, the slice algorithms the
  sources call (\<open>binary_search\<close>, \<open>partition_point\<close>, \<open>dedup_by\<close>), hash maps as
  association lists with distinct keys, ordered maps as strictly sorted
  association lists, and the generic lemmas the components share.
\<close>

section \<open>Machine types\<close>

type_synonym u8 = "8 word"
type_synonym u32 = "32 word"
type_synonym u64 = "64 word"
type_synonym u128 = "128 word"
type_synonym bytes = "u8 list"

text \<open>Fixed-size byte arrays are read as one big-endian word, so that the
  lexicographic order of the array is the order of the word and the all-zero
  array is 0.\<close>

type_synonym hash256 = "256 word"
type_synonym node_id = "256 word"

text \<open>\<open>View\<close> and \<open>Height\<close> (\<open>lib.rs\<close>) are transparent wrappers of \<open>u64\<close>.\<close>

type_synonym view = u64
type_synonym height = u64

named_theorems word_bounds \<open>bounds and readings of machine words\<close>
named_theorems hm_simps \<open>lookup laws of the map models\<close>
named_theorems view_simps \<open>laws of views and heights\<close>

section \<open>Checked and saturating arithmetic\<close>

definition checked_add :: "'a::len word \<Rightarrow> 'a word \<Rightarrow> 'a word option" where
  "checked_add a b = (if unat a + unat b < 2 ^ LENGTH('a) then Some (a + b) else None)"

definition checked_sub :: "'a::len word \<Rightarrow> 'a word \<Rightarrow> 'a word option" where
  "checked_sub a b = (if b \<le> a then Some (a - b) else None)"

definition checked_mul :: "'a::len word \<Rightarrow> 'a word \<Rightarrow> 'a word option" where
  "checked_mul a b = (if unat a * unat b < 2 ^ LENGTH('a) then Some (a * b) else None)"

definition saturating_add :: "'a::len word \<Rightarrow> 'a word \<Rightarrow> 'a word" where
  "saturating_add a b = (if unat a + unat b < 2 ^ LENGTH('a) then a + b else - 1)"

definition saturating_sub :: "'a::len word \<Rightarrow> 'a word \<Rightarrow> 'a word" where
  "saturating_sub a b = (if b \<le> a then a - b else 0)"

definition saturating_mul :: "'a::len word \<Rightarrow> 'a word \<Rightarrow> 'a word" where
  "saturating_mul a b = (if unat a * unat b < 2 ^ LENGTH('a) then a * b else - 1)"

lemma word_less_not_le [simp]: "(a :: 'a::len word) < b \<Longrightarrow> \<not> b \<le> a"
  by simp

lemma unat_minus_one_max [word_bounds]: "unat (- 1 :: 'a::len word) = 2 ^ LENGTH('a) - 1"
  by (metis unsigned_minus_1_eq_mask mask_eq_exp_minus_1)

lemma unat_bound [word_bounds]: "unat (w :: 'a::len word) < 2 ^ LENGTH('a)"
  by (rule unsigned_less)

lemma unat_of_nat_small [word_bounds]: "n < 2 ^ LENGTH('a) \<Longrightarrow> unat (of_nat n :: 'a::len word) = n"
  by (simp add: unat_of_nat take_bit_nat_eq_self)

lemma unat_add_no_overflow [word_bounds]:
  fixes a b :: "'a::len word"
  shows "unat a + unat b < 2 ^ LENGTH('a) \<Longrightarrow> unat (a + b) = unat a + unat b"
  by (simp add: unat_word_ariths)

lemma unat_mul_no_overflow [word_bounds]:
  fixes a b :: "'a::len word"
  shows "unat a * unat b < 2 ^ LENGTH('a) \<Longrightarrow> unat (a * b) = unat a * unat b"
  by (simp add: unat_word_ariths)

lemma unat_ucast_widen [word_bounds]:
  fixes a :: "'a::len word"
  assumes "LENGTH('a) \<le> LENGTH('b::len)"
  shows "unat (ucast a :: 'b word) = unat a"
proof -
  have "unat a < 2 ^ LENGTH('a)" by (rule unsigned_less)
  also have "\<dots> \<le> 2 ^ LENGTH('b)" using assms by simp
  finally show ?thesis by (simp add: unsigned_ucast_eq take_bit_nat_eq_self)
qed

lemma unat_saturating_add [word_bounds]:
  fixes a b :: "'a::len word"
  shows "unat (saturating_add a b) = min (unat a + unat b) (2 ^ LENGTH('a) - 1)"
  by (auto simp: saturating_add_def unat_add_no_overflow unat_minus_one_max)

lemma unat_saturating_sub [word_bounds]:
  "unat (saturating_sub a b) = unat a - unat b"
  by (auto simp: saturating_sub_def unat_sub word_le_nat_alt)

lemma unat_saturating_mul [word_bounds]:
  fixes a b :: "'a::len word"
  shows "unat (saturating_mul a b) = min (unat a * unat b) (2 ^ LENGTH('a) - 1)"
  by (auto simp: saturating_mul_def unat_mul_no_overflow unat_minus_one_max)

lemma saturating_add_le [simp]: "a \<le> saturating_add a b"
proof -
  have "unat a \<le> 2 ^ LENGTH('a) - 1" using unsigned_less[of a] by (metis Suc_pred' less_Suc_eq_le zero_less_numeral zero_less_power One_nat_def diff_Suc_1 Suc_leI le_simps(2) zero_less_power)
  then show ?thesis by (simp add: word_le_nat_alt unat_saturating_add)
qed

lemma saturating_sub_le [simp]: "saturating_sub a b \<le> a"
  by (simp add: word_le_nat_alt unat_saturating_sub)

lemma checked_add_Some:
  "checked_add a b = Some c \<longleftrightarrow> unat a + unat b < 2 ^ LENGTH('a) \<and> c = a + (b :: 'a::len word)"
  by (auto simp: checked_add_def)

lemma checked_add_unat:
  "checked_add a b = Some (c :: 'a::len word) \<Longrightarrow> unat c = unat a + unat b"
  by (auto simp: checked_add_def unat_add_no_overflow split: if_splits)

lemma checked_mul_Some:
  "checked_mul a b = Some c \<longleftrightarrow> unat a * unat b < 2 ^ LENGTH('a) \<and> c = a * (b :: 'a::len word)"
  by (auto simp: checked_mul_def)

text \<open>The big-endian bytes of an \<open>n\<close>-byte array.\<close>

definition be_bytes :: "nat \<Rightarrow> 'a::len word \<Rightarrow> bytes" where
  "be_bytes n w = map (\<lambda>i. ucast (drop_bit (8 * (n - 1 - i)) w)) [0..<n]"

lemma length_be_bytes [simp]: "length (be_bytes n w) = n"
  by (simp add: be_bytes_def)

text \<open>A byte-string literal.\<close>

definition ascii :: "string \<Rightarrow> bytes" where
  "ascii s = map of_char s"

section \<open>Fallible loops\<close>

text \<open>A \<open>for\<close> loop whose body ends in \<open>?\<close>: the first error leaves the loop.\<close>

fun try_fold :: "('s \<Rightarrow> 'a \<Rightarrow> 'e + 's) \<Rightarrow> 's \<Rightarrow> 'a list \<Rightarrow> 'e + 's" where
  "try_fold f s [] = Inr s"
| "try_fold f s (x # xs) = (case f s x of Inl e \<Rightarrow> Inl e | Inr s' \<Rightarrow> try_fold f s' xs)"

lemma try_fold_append:
  "try_fold f s (xs @ ys) = (case try_fold f s xs of Inl e \<Rightarrow> Inl e | Inr s' \<Rightarrow> try_fold f s' ys)"
  by (induction xs arbitrary: s) (auto split: sum.splits)

lemma try_fold_invariant:
  assumes "try_fold f s xs = Inr s'" and "P s"
    and "\<And>s x s'. P s \<Longrightarrow> x \<in> set xs \<Longrightarrow> f s x = Inr s' \<Longrightarrow> P s'"
  shows "P s'"
  using assms
proof (induction xs arbitrary: s)
  case (Cons x xs)
  from Cons(2) obtain s1 where s1: "f s x = Inr s1" "try_fold f s1 xs = Inr s'"
    by (cases "f s x") simp_all
  have "P s1" by (rule Cons(4)[OF Cons(3) _ s1(1)]) simp
  then show ?case by (rule Cons(1)[OF s1(2)]) (rule Cons(4), auto)
qed simp

text \<open>Collecting an iterator of results: \<open>Result<Vec<_>, _>\<close>, first error first.\<close>

fun try_map :: "('a \<Rightarrow> 'e + 'b) \<Rightarrow> 'a list \<Rightarrow> 'e + 'b list" where
  "try_map f [] = Inr []"
| "try_map f (x # xs) =
     (case f x of Inl e \<Rightarrow> Inl e
      | Inr y \<Rightarrow> (case try_map f xs of Inl e \<Rightarrow> Inl e | Inr ys \<Rightarrow> Inr (y # ys)))"

lemma try_map_Inr_length: "try_map f xs = Inr ys \<Longrightarrow> length ys = length xs"
  by (induction xs arbitrary: ys) (auto split: sum.splits)

lemma try_map_Inr_nth:
  "try_map f xs = Inr ys \<Longrightarrow> i < length xs \<Longrightarrow> f (xs ! i) = Inr (ys ! i)"
  by (induction xs arbitrary: ys i) (auto split: sum.splits simp: nth_Cons')

section \<open>Slice search\<close>

text \<open>\<open>slice::binary_search_by\<close>: \<open>Inr\<close> is \<open>Ok\<close> (a matching index), \<open>Inl\<close> is
  \<open>Err\<close> (the insertion point).\<close>

function bsearch :: "('a::linorder) list \<Rightarrow> 'a \<Rightarrow> nat \<Rightarrow> nat \<Rightarrow> nat + nat" where
  "bsearch xs x lo hi =
     (if hi \<le> lo then Inl lo
      else let mid = lo + (hi - lo) div 2 in
        if xs ! mid = x then Inr mid
        else if xs ! mid < x then bsearch xs x (mid + 1) hi
        else bsearch xs x lo mid)"
  by pat_completeness auto
termination
  by (relation "measure (\<lambda>(xs, x, lo, hi). hi - lo)") auto

declare bsearch.simps [simp del]

definition binary_search :: "('a::linorder) list \<Rightarrow> 'a \<Rightarrow> nat + nat" where
  "binary_search xs x = bsearch xs x 0 (length xs)"

lemma bsearch_correct:
  assumes "sorted xs" and "hi \<le> length xs" and "lo \<le> hi"
    and "\<forall>i < lo. xs ! i < x" and "\<forall>i < length xs. hi \<le> i \<longrightarrow> x < xs ! i"
  shows "case bsearch xs x lo hi of
           Inr i \<Rightarrow> i < length xs \<and> xs ! i = x
         | Inl i \<Rightarrow> i \<le> length xs \<and> (\<forall>j < i. xs ! j < x)
                    \<and> (\<forall>j < length xs. i \<le> j \<longrightarrow> x < xs ! j)"
  using assms
proof (induction xs x lo hi rule: bsearch.induct)
  case (1 xs x lo hi)
  let ?mid = "lo + (hi - lo) div 2"
  show ?case
  proof (cases "hi \<le> lo")
    case True
    then show ?thesis using 1 by (subst bsearch.simps) auto
  next
    case False
    then have mid: "?mid < hi" "?mid < length xs" "lo \<le> ?mid" using 1 by auto
    consider (eq) "xs ! ?mid = x" | (lt) "xs ! ?mid < x" | (gt) "x < xs ! ?mid"
      using linorder_cases by blast
    then show ?thesis
    proof cases
      case eq
      then show ?thesis using False mid by (subst bsearch.simps) (simp add: Let_def)
    next
      case lt
      have "\<forall>i < ?mid + 1. xs ! i < x"
      proof (intro allI impI)
        fix i assume "i < ?mid + 1"
        then have "xs ! i \<le> xs ! ?mid" using 1(3) mid by (intro sorted_nth_mono) auto
        then show "xs ! i < x" using lt by simp
      qed
      moreover have "bsearch xs x lo hi = bsearch xs x (?mid + 1) hi"
        using False lt by (subst bsearch.simps) (auto simp: Let_def)
      ultimately show ?thesis using 1(1)[OF False refl] lt mid 1(3-7) by (simp add: less_imp_neq)
    next
      case gt
      then have ng: "\<not> xs ! ?mid < x" "xs ! ?mid \<noteq> x" by auto
      have "\<forall>i < length xs. ?mid \<le> i \<longrightarrow> x < xs ! i"
        using gt 1(3) by (meson less_le_trans sorted_nth_mono)
      moreover have "bsearch xs x lo hi = bsearch xs x lo ?mid"
        using False gt by (subst bsearch.simps) (auto simp: Let_def)
      ultimately show ?thesis using 1(2)[OF False refl ng(2) ng(1)] mid 1(3-7) by simp
    qed
  qed
qed

lemma binary_search_cases:
  assumes "sorted xs"
  obtains (found) i where "binary_search xs x = Inr i" "i < length xs" "xs ! i = x"
    | (absent) i where "binary_search xs x = Inl i" "i \<le> length xs"
        "\<forall>j < i. xs ! j < x" "\<forall>j < length xs. i \<le> j \<longrightarrow> x < xs ! j" "x \<notin> set xs"
proof -
  have c: "case bsearch xs x 0 (length xs) of
           Inr i \<Rightarrow> i < length xs \<and> xs ! i = x
         | Inl i \<Rightarrow> i \<le> length xs \<and> (\<forall>j < i. xs ! j < x)
                    \<and> (\<forall>j < length xs. i \<le> j \<longrightarrow> x < xs ! j)"
    by (rule bsearch_correct) (use assms in auto)
  show ?thesis
  proof (cases "bsearch xs x 0 (length xs)")
    case (Inr i)
    then show ?thesis using c found by (simp add: binary_search_def)
  next
    case (Inl i)
    then have "x \<notin> set xs" using c
      by (auto simp: in_set_conv_nth) (metis linorder_not_le order_less_irrefl)
    then show ?thesis using c Inl absent by (simp add: binary_search_def)
  qed
qed

lemma binary_search_found_iff:
  "sorted xs \<Longrightarrow> (\<exists>i. binary_search xs x = Inr i) \<longleftrightarrow> x \<in> set xs"
  by (rule binary_search_cases[of xs x]) auto

text \<open>\<open>slice::partition_point\<close>.\<close>

function ppoint :: "('a \<Rightarrow> bool) \<Rightarrow> 'a list \<Rightarrow> nat \<Rightarrow> nat \<Rightarrow> nat" where
  "ppoint P xs lo hi =
     (if hi \<le> lo then lo
      else let mid = lo + (hi - lo) div 2 in
        if P (xs ! mid) then ppoint P xs (mid + 1) hi else ppoint P xs lo mid)"
  by pat_completeness auto
termination
  by (relation "measure (\<lambda>(P, xs, lo, hi). hi - lo)") auto

declare ppoint.simps [simp del]

definition partition_point :: "('a \<Rightarrow> bool) \<Rightarrow> 'a list \<Rightarrow> nat" where
  "partition_point P xs = ppoint P xs 0 (length xs)"

lemma ppoint_correct:
  assumes "hi \<le> length xs" "lo \<le> hi" "k \<le> length xs" "lo \<le> k" "k \<le> hi"
    and "\<forall>i < length xs. P (xs ! i) \<longleftrightarrow> i < k"
  shows "ppoint P xs lo hi = k"
  using assms
proof (induction P xs lo hi rule: ppoint.induct)
  case (1 P xs lo hi)
  let ?mid = "lo + (hi - lo) div 2"
  show ?case
  proof (cases "hi \<le> lo")
    case True
    then show ?thesis using 1(3-) by (subst ppoint.simps) simp
  next
    case False
    then have mid: "?mid < hi" "?mid < length xs" "lo \<le> ?mid" using 1(3-) by auto
    show ?thesis
    proof (cases "P (xs ! ?mid)")
      case True
      then have "?mid + 1 \<le> k" using mid 1(8) by auto
      then have "ppoint P xs (?mid + 1) hi = k"
        using 1(1)[OF False refl True] mid 1(3-8) by simp
      then show ?thesis using False True by (subst ppoint.simps) (simp add: Let_def)
    next
      case F: False
      then have "k \<le> ?mid" using mid 1(8) by auto
      then have "ppoint P xs lo ?mid = k"
        using 1(2)[OF False refl F] mid 1(3-8) by simp
      then show ?thesis using False F by (subst ppoint.simps) (simp add: Let_def)
    qed
  qed
qed

text \<open>A list is partitioned by \<open>P\<close> when no element satisfying \<open>P\<close> follows one that
  does not; there the bisection computes the length of the satisfying prefix.\<close>

lemma partition_point_takeWhile:
  assumes "\<And>i j. i \<le> j \<Longrightarrow> j < length xs \<Longrightarrow> P (xs ! j) \<Longrightarrow> P (xs ! i)"
  shows "partition_point P xs = length (takeWhile P xs)"
proof -
  let ?k = "length (takeWhile P xs)"
  have "\<forall>i < length xs. P (xs ! i) \<longleftrightarrow> i < ?k"
  proof (intro allI impI iffI)
    fix i assume i: "i < length xs" "P (xs ! i)"
    show "i < ?k"
    proof (rule ccontr)
      assume "\<not> i < ?k"
      then have k: "?k \<le> i" "?k < length xs" using i by auto
      then have "P (xs ! ?k)" using assms i by blast
      then show False using k nth_length_takeWhile by blast
    qed
  next
    fix i assume "i < length xs" "i < ?k"
    then show "P (xs ! i)" by (metis nth_mem set_takeWhileD takeWhile_nth)
  qed
  then show ?thesis
    unfolding partition_point_def
    by (intro ppoint_correct) (auto simp: length_takeWhile_le)
qed

lemma partition_point_sorted:
  fixes f :: "'a \<Rightarrow> 'b::linorder"
  assumes "sorted (map f xs)"
  shows "partition_point (\<lambda>e. f e \<le> v) xs = length (takeWhile (\<lambda>e. f e \<le> v) xs)"
proof (rule partition_point_takeWhile)
  fix i j assume "i \<le> j" "j < length xs" "f (xs ! j) \<le> v"
  moreover from this have "f (xs ! i) \<le> f (xs ! j)"
    using sorted_nth_mono[OF assms, of i j] by simp
  ultimately show "f (xs ! i) \<le> v" by simp
qed

section \<open>Runs and duplicates\<close>

text \<open>\<open>Vec::dedup_by_key\<close>: of every run of equal keys the first element stays.\<close>

fun dedup_by :: "('a \<Rightarrow> 'k) \<Rightarrow> 'a list \<Rightarrow> 'a list" where
  "dedup_by f [] = []"
| "dedup_by f [x] = [x]"
| "dedup_by f (x # y # xs) =
     (if f x = f y then dedup_by f (x # xs) else x # dedup_by f (y # xs))"

lemma dedup_by_subset: "set (dedup_by f xs) \<subseteq> set xs"
  by (induction f xs rule: dedup_by.induct) auto

lemma dedup_by_keys [simp]: "f ` set (dedup_by f xs) = f ` set xs"
  by (induction f xs rule: dedup_by.induct) auto

lemma dedup_by_Nil_iff [simp]: "dedup_by f xs = [] \<longleftrightarrow> xs = []"
  by (induction f xs rule: dedup_by.induct) auto

lemma dedup_by_strict:
  fixes f :: "'a \<Rightarrow> 'b::linorder"
  shows "sorted (map f xs) \<Longrightarrow> sorted_wrt (<) (map f (dedup_by f xs))"
proof (induction f xs rule: dedup_by.induct)
  case (3 f x y xs)
  show ?case
  proof (cases "f x = f y")
    case True
    then show ?thesis using 3 by simp
  next
    case False
    have "\<forall>z \<in> set (dedup_by f (y # xs)). f x < f z"
    proof
      fix z assume "z \<in> set (dedup_by f (y # xs))"
      then have "z \<in> set (y # xs)" using dedup_by_subset[of f "y # xs"] by (rule rev_subsetD)
      then have "f y \<le> f z" using 3(3) by auto
      moreover have "f x < f y" using False 3(3) by (simp add: order.strict_iff_order)
      ultimately show "f x < f z" by simp
    qed
    moreover have "sorted_wrt (<) (map f (dedup_by f (y # xs)))"
      using 3(2)[OF False] 3(3) by simp
    ultimately show ?thesis using False by (simp del: dedup_by_keys)
  qed
qed simp_all

lemma dedup_by_map_of:
  fixes xs :: "('k::linorder \<times> 'v) list"
  shows "sorted (map fst xs) \<Longrightarrow> map_of (dedup_by fst xs) = map_of xs"
  by (induction "fst :: 'k \<times> 'v \<Rightarrow> 'k" xs rule: dedup_by.induct) (auto simp: fun_eq_iff)

lemma map_of_sort_key:
  fixes xs :: "('k::linorder \<times> 'v) list"
  shows "map_of (sort_key fst xs) = map_of xs"
proof
  fix k
  have head: "map_of ys k = (case filter (\<lambda>e. fst e = k) ys of [] \<Rightarrow> None | e # _ \<Rightarrow> Some (snd e))"
    for ys :: "('k \<times> 'v) list"
    by (induction ys) auto
  show "map_of (sort_key fst xs) k = map_of xs k"
    by (simp add: head sort_key_stable)
qed

section \<open>Hash maps\<close>

text \<open>A \<open>HashMap\<close> is an association list with distinct keys; its iteration order is
  unspecified in the source, and where that order matters it is an argument.\<close>

type_synonym ('k, 'v) hmap = "('k \<times> 'v) list"

abbreviation hm_get :: "('k, 'v) hmap \<Rightarrow> 'k \<Rightarrow> 'v option" where
  "hm_get m k \<equiv> map_of m k"

abbreviation hm_insert :: "'k \<Rightarrow> 'v \<Rightarrow> ('k, 'v) hmap \<Rightarrow> ('k, 'v) hmap" where
  "hm_insert k v m \<equiv> AList.update k v m"

abbreviation hm_remove :: "'k \<Rightarrow> ('k, 'v) hmap \<Rightarrow> ('k, 'v) hmap" where
  "hm_remove k m \<equiv> AList.delete k m"

definition hm_contains :: "('k, 'v) hmap \<Rightarrow> 'k \<Rightarrow> bool" where
  "hm_contains m k \<longleftrightarrow> map_of m k \<noteq> None"

definition hm_retain :: "('k \<Rightarrow> 'v \<Rightarrow> bool) \<Rightarrow> ('k, 'v) hmap \<Rightarrow> ('k, 'v) hmap" where
  "hm_retain P m = filter (\<lambda>(k, v). P k v) m"

definition hm_wf :: "('k, 'v) hmap \<Rightarrow> bool" where
  "hm_wf m \<longleftrightarrow> distinct (map fst m)"

lemma hm_wf_Nil [simp]: "hm_wf []"
  by (simp add: hm_wf_def)

lemma hm_wf_insert [simp]: "hm_wf m \<Longrightarrow> hm_wf (hm_insert k v m)"
  by (simp add: hm_wf_def distinct_update)

lemma hm_wf_remove [simp]: "hm_wf m \<Longrightarrow> hm_wf (hm_remove k m)"
  by (simp add: hm_wf_def distinct_delete)

lemma hm_wf_retain [simp]: "hm_wf m \<Longrightarrow> hm_wf (hm_retain P m)"
  by (simp add: hm_wf_def hm_retain_def distinct_map_filter)

lemma hm_get_insert [simp]: "hm_get (hm_insert k v m) k' = (if k' = k then Some v else hm_get m k')"
  by (simp add: update_conv')

lemma hm_get_remove [simp]: "hm_get (hm_remove k m) k' = (if k' = k then None else hm_get m k')"
  by (simp add: delete_conv')

lemma hm_get_retain:
  "hm_wf m \<Longrightarrow> hm_get (hm_retain P m) k =
     (case hm_get m k of None \<Rightarrow> None | Some v \<Rightarrow> if P k v then Some v else None)"
  by (induction m) (auto simp: hm_retain_def hm_wf_def map_of_eq_None_iff split: option.splits
      dest: map_of_SomeD)

lemma hm_contains_insert [simp]: "hm_contains (hm_insert k v m) k' \<longleftrightarrow> k' = k \<or> hm_contains m k'"
  by (simp add: hm_contains_def)

lemma hm_contains_iff: "hm_contains m k \<longleftrightarrow> k \<in> fst ` set m"
  by (simp add: hm_contains_def map_of_eq_None_iff)

lemma hm_insert_length: "length (hm_insert k v m) = (if hm_contains m k then length m else Suc (length m))"
  by (induction m) (auto simp: hm_contains_iff)

lemma hm_remove_length: "hm_wf m \<Longrightarrow> length (hm_remove k m) = (if hm_contains m k then length m - 1 else length m)"
proof (induction m)
  case (Cons e m)
  then show ?case
    by (cases e) (auto simp: hm_wf_def hm_contains_iff AList.delete_eq filter_id_conv
        dest: length_pos_if_in_set split: if_splits)
qed (simp add: hm_contains_def)

text \<open>The minimum of an iterator by a key, the first one on ties.\<close>

fun min_by_key :: "('a \<Rightarrow> 'b::linorder) \<Rightarrow> 'a list \<Rightarrow> 'a option" where
  "min_by_key f [] = None"
| "min_by_key f (x # xs) =
     (case min_by_key f xs of None \<Rightarrow> Some x | Some y \<Rightarrow> if f y < f x then Some y else Some x)"

lemma min_by_key_None [simp]: "min_by_key f xs = None \<longleftrightarrow> xs = []"
  by (cases xs) (auto split: option.splits)

lemma min_by_key_Some:
  "min_by_key f xs = Some x \<Longrightarrow> x \<in> set xs \<and> (\<forall>y \<in> set xs. f x \<le> f y)"
proof (induction xs arbitrary: x)
  case (Cons a xs)
  then show ?case
    by (cases "min_by_key f xs") (auto split: if_splits dest: order.strict_implies_order order_trans)
qed simp

text \<open>A \<open>BTreeSet\<close> collected from an iterator, in iteration order.\<close>

definition btree_set :: "'a::linorder list \<Rightarrow> 'a list" where
  "btree_set xs = sort (remdups xs)"

lemma set_btree_set [simp]: "set (btree_set xs) = set xs"
  by (simp add: btree_set_def)

lemma distinct_btree_set [simp]: "distinct (btree_set xs)"
  by (simp add: btree_set_def)

section \<open>Tagged payloads\<close>

text \<open>\<open>slice::strip_prefix\<close> and \<open>slice::starts_with\<close>.\<close>

fun strip_prefix :: "'a list \<Rightarrow> 'a list \<Rightarrow> 'a list option" where
  "strip_prefix [] xs = Some xs"
| "strip_prefix (p # ps) [] = None"
| "strip_prefix (p # ps) (x # xs) = (if p = x then strip_prefix ps xs else None)"

definition starts_with :: "'a list \<Rightarrow> 'a list \<Rightarrow> bool" where
  "starts_with xs p \<longleftrightarrow> strip_prefix p xs \<noteq> None"

lemma strip_prefix_Some: "strip_prefix p xs = Some ys \<longleftrightarrow> xs = p @ ys"
  by (induction p xs rule: strip_prefix.induct) auto

lemma strip_prefix_append [simp]: "strip_prefix p (p @ ys) = Some ys"
  by (simp add: strip_prefix_Some)

lemma starts_with_iff: "starts_with xs p \<longleftrightarrow> (\<exists>ys. xs = p @ ys)"
  by (auto simp: starts_with_def strip_prefix_Some)

text \<open>Consensus commands share one framing: a fixed tag followed by the postcard body.
  The codec of the body is outside the sources; what the code relies on is that
  it decodes what it encoded.\<close>

datatype decode_error = MissingTag | MalformedBody

definition tagged_encode :: "bytes \<Rightarrow> ('a \<Rightarrow> bytes) \<Rightarrow> 'a \<Rightarrow> bytes" where
  "tagged_encode tag pc x = tag @ pc x"

definition tagged_decode :: "bytes \<Rightarrow> (bytes \<Rightarrow> 'a option) \<Rightarrow> bytes \<Rightarrow> decode_error + 'a" where
  "tagged_decode tag unpc bs =
     (case strip_prefix tag bs of
        None \<Rightarrow> Inl MissingTag
      | Some body \<Rightarrow> (case unpc body of None \<Rightarrow> Inl MalformedBody | Some x \<Rightarrow> Inr x))"

text \<open>The law the code relies on of the body codec, a hypothesis where it is used.\<close>

definition body_codec :: "('a \<Rightarrow> bytes) \<Rightarrow> (bytes \<Rightarrow> 'a option) \<Rightarrow> bool" where
  "body_codec pc unpc \<longleftrightarrow> (\<forall>x. unpc (pc x) = Some x)"

lemma tagged_roundtrip: "body_codec pc unpc \<Longrightarrow> tagged_decode tag unpc (tagged_encode tag pc x) = Inr x"
  by (simp add: tagged_decode_def tagged_encode_def body_codec_def)

lemma tagged_starts [simp]: "starts_with (tagged_encode tag pc x) tag"
  by (simp add: starts_with_iff tagged_encode_def)

lemma tagged_other_tag:
  "length tag = length tag' \<Longrightarrow> starts_with (tagged_encode tag pc x) tag' \<longleftrightarrow> tag = tag'"
  by (auto simp: starts_with_iff tagged_encode_def)

lemma tagged_decode_Inr:
  "tagged_decode tag unpc bs = Inr x \<longleftrightarrow> (\<exists>body. bs = tag @ body \<and> unpc body = Some x)"
  by (auto simp: tagged_decode_def strip_prefix_Some split: option.splits)

lemma tagged_decode_starts: "tagged_decode tag unpc bs = Inr x \<Longrightarrow> starts_with bs tag"
  by (auto simp: tagged_decode_Inr starts_with_iff)

end
