(* ===== verification/View_History.thy ===== *)
theory View_History
  imports Prelude
begin

text \<open>
  The interface shared by every structure of the sources that maps a view to the
  value in force there: an append-only list of boundaries, each taking effect
  at its \<open>v_eff\<close>. Clients rely on three laws: an insertion succeeds exactly when
  its view exceeds the latest one, it keeps the invariant, and it changes the
  lookup from its view on and nowhere else. What the clients need is proved
  here once: replaying a list of boundaries, and that a later insertion never
  changes the value in force at an earlier view.
\<close>

text \<open>The value of the last pair whose view is at most \<open>w\<close>.\<close>

definition last_le :: "(view \<times> 'v) list \<Rightarrow> view \<Rightarrow> 'v option" where
  "last_le bs w =
     (let xs = filter (\<lambda>b. fst b \<le> w) bs in if xs = [] then None else Some (snd (last xs)))"

lemma last_le_Nil [simp]: "last_le [] w = None"
  by (simp add: last_le_def)

lemma last_le_Cons:
  "last_le ((v, x) # bs) w =
     (case last_le bs w of Some y \<Rightarrow> Some y | None \<Rightarrow> if v \<le> w then Some x else None)"
  by (simp add: last_le_def Let_def)

lemma last_le_append:
  "last_le (as @ bs) w = (case last_le bs w of Some y \<Rightarrow> Some y | None \<Rightarrow> last_le as w)"
  by (induction as) (auto simp: last_le_Cons split: option.splits)

lemma last_le_None_iff: "last_le bs w = None \<longleftrightarrow> (\<forall>b \<in> set bs. w < fst b)"
  by (induction bs) (auto simp: last_le_Cons not_le split: option.splits if_splits)

text \<open>On a list sorted by view, \<open>partition_point\<close> followed by an index step back is
  the last pair at or below the view.\<close>

lemma filter_le_takeWhile:
  fixes bs :: "('k::linorder \<times> 'v) list"
  shows "sorted (map fst bs) \<Longrightarrow> filter (\<lambda>b. fst b \<le> w) bs = takeWhile (\<lambda>b. fst b \<le> w) bs"
proof (induction bs)
  case (Cons b bs)
  show ?case
  proof (cases "fst b \<le> w")
    case False
    then have "\<forall>x \<in> set bs. \<not> fst x \<le> w" using Cons.prems by auto
    then show ?thesis using False by (simp add: filter_empty_conv)
  qed (use Cons in simp)
qed simp

lemma last_le_partition_point:
  assumes "sorted (map fst bs)"
  shows "last_le bs w =
    (let n = partition_point (\<lambda>b. fst b \<le> w) bs in if n = 0 then None else Some (snd (bs ! (n - 1))))"
proof -
  let ?t = "takeWhile (\<lambda>b. fst b \<le> w) bs"
  have n: "partition_point (\<lambda>b. fst b \<le> w) bs = length ?t"
    by (rule partition_point_sorted) (rule assms)
  show ?thesis
  proof (cases ?t rule: rev_cases)
    case Nil
    then show ?thesis by (simp add: last_le_def filter_le_takeWhile[OF assms] n)
  next
    case (snoc ys y)
    have "bs ! length ys = y"
      by (metis snoc append_eq_conv_conj length_append_singleton lessI nth_append_length
          nth_take takeWhile_eq_take)
    then show ?thesis using snoc
      by (simp add: last_le_def filter_le_takeWhile[OF assms] n)
  qed
qed

locale view_history =
  fixes inv :: "'h \<Rightarrow> bool"
    and latest :: "'h \<Rightarrow> view"
    and at_view :: "'h \<Rightarrow> view \<Rightarrow> 'r"
    and insert_at :: "'h \<Rightarrow> view \<Rightarrow> 'v \<Rightarrow> 'e + 'h"
    and val :: "'v \<Rightarrow> 'r"
  assumes insert_ok_iff: "inv h \<Longrightarrow> (\<exists>h'. insert_at h v x = Inr h') \<longleftrightarrow> latest h < v"
    and insert_inv: "inv h \<Longrightarrow> insert_at h v x = Inr h' \<Longrightarrow> inv h'"
    and insert_latest: "inv h \<Longrightarrow> insert_at h v x = Inr h' \<Longrightarrow> latest h' = v"
    and at_insert: "inv h \<Longrightarrow> insert_at h v x = Inr h' \<Longrightarrow>
          at_view h' w = (if v \<le> w then val x else at_view h w)"
begin

lemma at_stable:
  "inv h \<Longrightarrow> insert_at h v x = Inr h' \<Longrightarrow> w < v \<Longrightarrow> at_view h' w = at_view h w"
  using at_insert[of h v x h' w] by simp

lemma insert_increases: "inv h \<Longrightarrow> insert_at h v x = Inr h' \<Longrightarrow> latest h < v"
  using insert_ok_iff[of h v x] by (rule iffD1) auto

lemma at_or_below_latest:
  "inv h \<Longrightarrow> insert_at h v x = Inr h' \<Longrightarrow> w \<le> latest h \<Longrightarrow> at_view h' w = at_view h w"
  by (rule at_stable) (auto dest: insert_increases intro: le_less_trans)

lemma replay_inv:
  "inv h \<Longrightarrow> try_fold (\<lambda>h (v, x). insert_at h v x) h bs = Inr h' \<Longrightarrow> inv h'"
  by (rule try_fold_invariant[where P = inv]) (auto intro: insert_inv)

lemma replay_ok_iff:
  "inv h \<Longrightarrow> (\<exists>h'. try_fold (\<lambda>h (v, x). insert_at h v x) h bs = Inr h')
     \<longleftrightarrow> sorted_wrt (<) (latest h # map fst bs)"
proof (induction bs arbitrary: h)
  case (Cons b bs)
  obtain v x where b: "b = (v, x)" by (cases b)
  show ?case
  proof (cases "insert_at h v x")
    case (Inl e)
    then have "\<not> latest h < v" using insert_ok_iff[OF Cons.prems, of v x] by simp
    then show ?thesis using Inl b by simp
  next
    case (Inr h1)
    then have lt: "latest h < v" and i: "inv h1" and l: "latest h1 = v"
      using insert_ok_iff[OF Cons.prems, of v x] insert_inv[OF Cons.prems] insert_latest[OF Cons.prems]
      by auto
    show ?thesis using Cons.IH[OF i] Inr b lt l by auto
  qed
qed simp

lemma replay_at:
  "inv h \<Longrightarrow> try_fold (\<lambda>h (v, x). insert_at h v x) h bs = Inr h' \<Longrightarrow>
     at_view h' w = (case last_le bs w of None \<Rightarrow> at_view h w | Some x \<Rightarrow> val x)"
proof (induction bs arbitrary: h)
  case (Cons b bs)
  obtain v x where b: "b = (v, x)" by (cases b)
  from Cons.prems b obtain h1 where h1: "insert_at h v x = Inr h1"
    "try_fold (\<lambda>h (v, x). insert_at h v x) h1 bs = Inr h'"
    by (cases "insert_at h v x") auto
  then show ?case
    using Cons.IH[OF insert_inv[OF Cons.prems(1) h1(1)] h1(2)] at_insert[OF Cons.prems(1) h1(1)] b
    by (auto simp: last_le_Cons split: option.splits)
qed simp

end

end
