(* ===== verification/Consensus_Params.thy ===== *)
theory Consensus_Params
  imports View_History
begin

text \<open>
  Consensus parameters (\<open>consensus_params.rs\<close>): the update command and its
  validation, and the view-indexed parameter history with its persisted form.
\<close>

record consensus_params =
  min_block_interval_ms :: u64

record consensus_param_update =
  upd_min_block_interval_ms :: "u64 option"
  upd_v_eff :: view

definition PARAM_UPDATE_TAG :: bytes where
  "PARAM_UPDATE_TAG = [0x43, 0x50, 0x41, 0x52, 0x4D, 0x00]"

definition MIN_PARAM_V_EFF_DELAY :: view where
  "MIN_PARAM_V_EFF_DELAY = 2"

text \<open>\<open>Duration::from_millis\<close>, in nanoseconds.\<close>

definition min_block_interval :: "consensus_params \<Rightarrow> nat" where
  "min_block_interval p = unat (min_block_interval_ms p) * 1000000"

definition param_encode :: "(consensus_param_update \<Rightarrow> bytes) \<Rightarrow> consensus_param_update \<Rightarrow> bytes" where
  "param_encode pc u = tagged_encode PARAM_UPDATE_TAG pc u"

definition is_param_update_payload :: "bytes \<Rightarrow> bool" where
  "is_param_update_payload bs = starts_with bs PARAM_UPDATE_TAG"

definition param_decode ::
  "(bytes \<Rightarrow> consensus_param_update option) \<Rightarrow> bytes \<Rightarrow> decode_error + consensus_param_update" where
  "param_decode unpc bs = tagged_decode PARAM_UPDATE_TAG unpc bs"

definition param_is_empty :: "consensus_param_update \<Rightarrow> bool" where
  "param_is_empty u \<longleftrightarrow> upd_min_block_interval_ms u = None"

definition apply_to :: "consensus_param_update \<Rightarrow> consensus_params \<Rightarrow> consensus_params" where
  "apply_to u base =
     \<lparr> min_block_interval_ms =
         (case upd_min_block_interval_ms u of Some m \<Rightarrow> m | None \<Rightarrow> min_block_interval_ms base) \<rparr>"

datatype param_error =
    ParamChangesNothing
  | ParamFloorOverflow
  | ParamTooSoon view view
  | ParamBoundaryNotGreater view view
  | ParamBoundaryAtGenesis

definition validate_against :: "consensus_param_update \<Rightarrow> view \<Rightarrow> param_error + unit" where
  "validate_against u block_view =
     (if param_is_empty u then Inl ParamChangesNothing
      else (case checked_add block_view MIN_PARAM_V_EFF_DELAY of
              None \<Rightarrow> Inl ParamFloorOverflow
            | Some fl \<Rightarrow> if upd_v_eff u < fl then Inl (ParamTooSoon (upd_v_eff u) fl) else Inr ()))"

record consensus_param_history =
  ph_genesis :: consensus_params
  ph_boundaries :: "(view \<times> consensus_params) list"

record persisted_param_boundary =
  ppb_v_eff :: view
  ppb_params :: consensus_params

record persisted_consensus_param_history =
  pph_genesis :: consensus_params
  pph_boundaries :: "persisted_param_boundary list"

definition ph_new :: "consensus_params \<Rightarrow> consensus_param_history" where
  "ph_new g = \<lparr> ph_genesis = g, ph_boundaries = [] \<rparr>"

definition param_at :: "consensus_param_history \<Rightarrow> view \<Rightarrow> consensus_params" where
  "param_at h v =
     (case find (\<lambda>b. fst b \<le> v) (rev (ph_boundaries h)) of Some b \<Rightarrow> snd b | None \<Rightarrow> ph_genesis h)"

definition param_latest :: "consensus_param_history \<Rightarrow> consensus_params" where
  "param_latest h =
     (if ph_boundaries h = [] then ph_genesis h else snd (last (ph_boundaries h)))"

definition ph_insert_boundary ::
  "consensus_param_history \<Rightarrow> view \<Rightarrow> consensus_params \<Rightarrow> param_error + consensus_param_history" where
  "ph_insert_boundary h v_eff p =
     (if ph_boundaries h \<noteq> [] \<and> v_eff \<le> fst (last (ph_boundaries h))
      then Inl (ParamBoundaryNotGreater v_eff (fst (last (ph_boundaries h))))
      else if ph_boundaries h = [] \<and> v_eff = 0 then Inl ParamBoundaryAtGenesis
      else Inr (h\<lparr> ph_boundaries := ph_boundaries h @ [(v_eff, p)] \<rparr>))"

definition ph_to_persisted :: "consensus_param_history \<Rightarrow> persisted_consensus_param_history" where
  "ph_to_persisted h =
     \<lparr> pph_genesis = ph_genesis h,
       pph_boundaries = map (\<lambda>(v, p). \<lparr> ppb_v_eff = v, ppb_params = p \<rparr>) (ph_boundaries h) \<rparr>"

definition ph_from_persisted ::
  "persisted_consensus_param_history \<Rightarrow> param_error + consensus_param_history" where
  "ph_from_persisted p =
     try_fold (\<lambda>h b. ph_insert_boundary h (ppb_v_eff b) (ppb_params b))
       (ph_new (pph_genesis p)) (pph_boundaries p)"

section \<open>The history as a view-indexed history\<close>

definition ph_order :: "consensus_param_history \<Rightarrow> bool" where
  "ph_order h \<longleftrightarrow> sorted_wrt (<) (0 # map fst (ph_boundaries h))"

definition ph_latest_view :: "consensus_param_history \<Rightarrow> view" where
  "ph_latest_view h = last (0 # map fst (ph_boundaries h))"

lemma find_rev_last_le:
  "map_option snd (find (\<lambda>b. fst b \<le> v) (rev bs)) = last_le bs v"
  by (induction bs rule: rev_induct) (auto simp: last_le_append last_le_Cons)

lemma param_at_last_le:
  "param_at h v = (case last_le (ph_boundaries h) v of Some p \<Rightarrow> p | None \<Rightarrow> ph_genesis h)"
  by (simp add: param_at_def find_rev_last_le[symmetric] split: option.splits)

lemma ph_insert_Inr:
  "ph_insert_boundary h v p = Inr h' \<longleftrightarrow>
     ph_latest_view h < v \<and> h' = h\<lparr> ph_boundaries := ph_boundaries h @ [(v, p)] \<rparr>"
  by (auto simp: ph_insert_boundary_def ph_latest_view_def last_map not_le word_neq_0_conv)

lemma strict_sorted_last:
  fixes xs :: "'a::linorder list"
  shows "sorted_wrt (<) xs \<Longrightarrow> xs \<noteq> [] \<Longrightarrow> last xs < v \<Longrightarrow> \<forall>x \<in> set xs. x < v"
  by (induction xs rule: rev_induct) (auto simp: sorted_wrt_append)

lemma ph_order_insert:
  assumes "ph_order h" and "ph_insert_boundary h v p = Inr h'"
  shows "ph_order h'"
proof -
  have "\<forall>x \<in> set (0 # map fst (ph_boundaries h)). x < v"
    by (rule strict_sorted_last) (use assms in \<open>auto simp: ph_order_def ph_insert_Inr ph_latest_view_def\<close>)
  then show ?thesis using assms
    by (auto simp: ph_order_def ph_insert_Inr sorted_wrt_append)
qed

interpretation ph: view_history ph_order ph_latest_view param_at ph_insert_boundary id
proof unfold_locales
  fix h v p h' w
  assume h: "ph_order h"
  show "(\<exists>h'. ph_insert_boundary h v p = Inr h') \<longleftrightarrow> ph_latest_view h < v"
    by (simp add: ph_insert_Inr)
  assume ins: "ph_insert_boundary h v p = Inr h'"
  show "ph_order h'" using h ins by (rule ph_order_insert)
  show "ph_latest_view h' = v" using ins by (simp add: ph_insert_Inr ph_latest_view_def)
  show "param_at h' w = (if v \<le> w then id p else param_at h w)"
    using ins by (auto simp: ph_insert_Inr param_at_last_le last_le_append last_le_Cons
        split: option.splits)
qed

lemma ph_new_order: "ph_order (ph_new g)"
  by (simp add: ph_order_def ph_new_def)

lemma ph_from_persisted_fold:
  "ph_from_persisted p =
     try_fold (\<lambda>h (v, x). ph_insert_boundary h v x) (ph_new (pph_genesis p))
       (map (\<lambda>b. (ppb_v_eff b, ppb_params b)) (pph_boundaries p))"
proof -
  have "try_fold (\<lambda>h b. ph_insert_boundary h (ppb_v_eff b) (ppb_params b)) h bs =
    try_fold (\<lambda>h (v, x). ph_insert_boundary h v x) h (map (\<lambda>b. (ppb_v_eff b, ppb_params b)) bs)" for h bs
    by (induction bs arbitrary: h) (auto split: sum.splits)
  then show ?thesis by (simp add: ph_from_persisted_def)
qed

text \<open>Loading appends every boundary, so a strictly increasing list loads as it is.\<close>

lemma ph_replay_appends:
  "try_fold (\<lambda>h (v, x). ph_insert_boundary h v x) h bs = Inr h' \<Longrightarrow>
     h' = h\<lparr> ph_boundaries := ph_boundaries h @ bs \<rparr>"
proof (induction bs arbitrary: h)
  case (Cons b bs)
  obtain v x where b: "b = (v, x)" by (cases b)
  from Cons.prems b obtain h1 where h1: "ph_insert_boundary h v x = Inr h1"
    "try_fold (\<lambda>h (v, x). ph_insert_boundary h v x) h1 bs = Inr h'"
    by (cases "ph_insert_boundary h v x") auto
  then show ?case using Cons.IH[OF h1(2)] b by (simp add: ph_insert_Inr)
qed simp

lemma ph_persist_roundtrip:
  assumes "ph_order h"
  shows "ph_from_persisted (ph_to_persisted h) = Inr h"
proof -
  have bs: "map (\<lambda>b. (ppb_v_eff b, ppb_params b)) (pph_boundaries (ph_to_persisted h)) = ph_boundaries h"
    by (simp add: ph_to_persisted_def comp_def case_prod_beta)
  have "sorted_wrt (<) (ph_latest_view (ph_new (ph_genesis h)) # map fst (ph_boundaries h))"
    using assms by (simp add: ph_order_def ph_latest_view_def ph_new_def)
  then obtain h' where
    h': "try_fold (\<lambda>h (v, x). ph_insert_boundary h v x) (ph_new (ph_genesis h)) (ph_boundaries h) = Inr h'"
    using ph.replay_ok_iff[OF ph_new_order] by blast
  then have "h' = h" using ph_replay_appends[OF h'] by (simp add: ph_new_def)
  then show ?thesis using h' bs by (simp add: ph_from_persisted_fold ph_to_persisted_def)
qed

end
