(* ===== verification/Validator_Set.thy ===== *)
theory Validator_Set
  imports Prelude
begin

text \<open>
  The validator set (\<open>validator_set.rs\<close>): members sorted by identifier with a
  parallel vector of voting weights. The well-formedness invariant \<open>vs_wf\<close> is
  established by both constructors; under it the binary searches of
  \<open>index_of\<close> and \<open>contains\<close> agree with membership.
\<close>

type_synonym validator_id = node_id
type_synonym pubkey = node_id

record validator_set =
  members :: "validator_id list"
  weights :: "u64 list"

datatype weighted_set_error = ZeroWeight nat

definition vs_new :: "validator_id list \<Rightarrow> validator_set" where
  "vs_new ms =
     (let ms' = dedup_by id (sort ms) in
      \<lparr> members = ms', weights = replicate (length ms') 1 \<rparr>)"

text \<open>The first loop of \<open>with_weights\<close>: the input index of the first zero weight.\<close>

fun first_zero_weight :: "nat \<Rightarrow> (validator_id \<times> u64) list \<Rightarrow> nat option" where
  "first_zero_weight i [] = None"
| "first_zero_weight i ((_, w) # es) = (if w = 0 then Some i else first_zero_weight (i + 1) es)"

definition with_weights :: "(validator_id \<times> u64) list \<Rightarrow> weighted_set_error + validator_set" where
  "with_weights entries =
     (case first_zero_weight 0 entries of
        Some i \<Rightarrow> Inl (ZeroWeight i)
      | None \<Rightarrow>
          let es = dedup_by fst (sort_key fst entries) in
          Inr \<lparr> members = map fst es, weights = map snd es \<rparr>)"

definition vs_len :: "validator_set \<Rightarrow> nat" where
  "vs_len vs = length (members vs)"

definition vs_is_empty :: "validator_set \<Rightarrow> bool" where
  "vs_is_empty vs \<longleftrightarrow> members vs = []"

definition vs_get :: "validator_set \<Rightarrow> nat \<Rightarrow> validator_id option" where
  "vs_get vs i = (if i < length (members vs) then Some (members vs ! i) else None)"

definition index_of :: "validator_set \<Rightarrow> validator_id \<Rightarrow> nat option" where
  "index_of vs v = (case binary_search (members vs) v of Inr i \<Rightarrow> Some i | Inl _ \<Rightarrow> None)"

definition vs_contains :: "validator_set \<Rightarrow> validator_id \<Rightarrow> bool" where
  "vs_contains vs v = (case binary_search (members vs) v of Inr _ \<Rightarrow> True | Inl _ \<Rightarrow> False)"

text \<open>Indexing out of range panics: \<open>None\<close>.\<close>

definition weight_at :: "validator_set \<Rightarrow> nat \<Rightarrow> u64 option" where
  "weight_at vs i = (if i < length (weights vs) then Some (weights vs ! i) else None)"

definition weight_for :: "validator_set \<Rightarrow> validator_id \<Rightarrow> u64 option" where
  "weight_for vs v = (case index_of vs v of None \<Rightarrow> None | Some i \<Rightarrow> weight_at vs i)"

definition total_weight :: "validator_set \<Rightarrow> u128" where
  "total_weight vs = sum_list (map ucast (weights vs))"

definition iter_weighted :: "validator_set \<Rightarrow> (validator_id \<times> u64) list" where
  "iter_weighted vs = zip (members vs) (weights vs)"

definition vs_wf :: "validator_set \<Rightarrow> bool" where
  "vs_wf vs \<longleftrightarrow> sorted_wrt (<) (members vs) \<and> length (weights vs) = length (members vs)
     \<and> (\<forall>w \<in> set (weights vs). w \<noteq> 0)"

section \<open>Constructors\<close>

lemma first_zero_weight_None:
  "first_zero_weight i es = None \<longleftrightarrow> (\<forall>e \<in> set es. snd e \<noteq> 0)"
  by (induction i es rule: first_zero_weight.induct) auto

lemma first_zero_weight_Some:
  "first_zero_weight i es = Some k \<Longrightarrow>
     i \<le> k \<and> k - i < length es \<and> snd (es ! (k - i)) = 0 \<and> (\<forall>j < k - i. snd (es ! j) \<noteq> 0)"
proof (induction i es rule: first_zero_weight.induct)
  case (2 i v w es)
  then show ?case
    by (auto split: if_splits simp: nth_Cons' Suc_diff_le not_less_eq_eq)
qed simp

lemma vs_new_wf: "vs_wf (vs_new ms)"
proof -
  have "sorted_wrt (<) (map id (dedup_by id (sort ms)))"
    by (rule dedup_by_strict) simp
  then show ?thesis by (simp add: vs_wf_def vs_new_def Let_def)
qed

lemma vs_new_members: "set (members (vs_new ms)) = set ms"
  using dedup_by_keys[of id "sort ms"] by (simp add: vs_new_def Let_def)

lemma with_weights_wf:
  assumes "with_weights es = Inr vs"
  shows "vs_wf vs"
proof -
  let ?d = "dedup_by fst (sort_key fst es)"
  from assms have nz: "\<forall>e \<in> set es. snd e \<noteq> 0" and vs: "vs = \<lparr> members = map fst ?d, weights = map snd ?d \<rparr>"
    by (auto simp: with_weights_def Let_def first_zero_weight_None split: option.splits)
  have "sorted_wrt (<) (map fst ?d)" by (rule dedup_by_strict) simp
  moreover have "set ?d \<subseteq> set es" using dedup_by_subset[of fst "sort_key fst es"] by simp
  ultimately show ?thesis using nz vs by (auto simp: vs_wf_def)
qed

lemma with_weights_ok_iff:
  "(\<exists>vs. with_weights es = Inr vs) \<longleftrightarrow> (\<forall>e \<in> set es. snd e \<noteq> 0)"
proof -
  have "(\<exists>vs. with_weights es = Inr vs) \<longleftrightarrow> first_zero_weight 0 es = None"
    by (simp add: with_weights_def Let_def split: option.splits)
  then show ?thesis by (simp add: first_zero_weight_None)
qed

section \<open>Lookups\<close>

lemma vs_wf_sorted: "vs_wf vs \<Longrightarrow> sorted (members vs)"
  by (simp add: vs_wf_def strict_sorted_imp_sorted)

lemma vs_wf_distinct: "vs_wf vs \<Longrightarrow> distinct (members vs)"
  by (simp add: vs_wf_def strict_sorted_iff)

lemma index_of_Some_iff:
  assumes "vs_wf vs"
  shows "index_of vs v = Some i \<longleftrightarrow> i < vs_len vs \<and> members vs ! i = v"
  using vs_wf_sorted[OF assms]
proof (cases rule: binary_search_cases[of _ v])
  case (found j)
  then show ?thesis
    using vs_wf_distinct[OF assms] by (auto simp: index_of_def vs_len_def nth_eq_iff_index_eq)
next
  case (absent j)
  then show ?thesis by (auto simp: index_of_def vs_len_def)
qed

lemma index_of_None_iff: "vs_wf vs \<Longrightarrow> index_of vs v = None \<longleftrightarrow> v \<notin> set (members vs)"
  using index_of_Some_iff[of vs v]
  by (metis in_set_conv_nth not_None_eq vs_len_def)

lemma vs_contains_iff: "vs_wf vs \<Longrightarrow> vs_contains vs v \<longleftrightarrow> v \<in> set (members vs)"
  using binary_search_found_iff[OF vs_wf_sorted, of vs v]
  by (auto simp: vs_contains_def split: sum.splits)

lemma weight_for_map_of:
  assumes "vs_wf vs"
  shows "weight_for vs v = map_of (iter_weighted vs) v"
proof (cases "index_of vs v")
  case None
  then have "v \<notin> set (members vs)" using assms index_of_None_iff by blast
  then have "map_of (zip (members vs) (weights vs)) v = None"
    using assms by (simp add: vs_wf_def map_of_zip_is_None)
  then show ?thesis using None by (simp add: weight_for_def iter_weighted_def)
next
  case (Some i)
  then have i: "i < length (members vs)" "members vs ! i = v"
    using index_of_Some_iff[OF assms] by (auto simp: vs_len_def)
  moreover have "length (weights vs) = length (members vs)" using assms by (simp add: vs_wf_def)
  moreover have "distinct (members vs)" using vs_wf_distinct[OF assms] .
  ultimately have "map_of (zip (members vs) (weights vs)) v = Some (weights vs ! i)"
    by (metis map_of_zip_nth)
  then show ?thesis using Some i \<open>length (weights vs) = length (members vs)\<close>
    by (simp add: weight_for_def iter_weighted_def weight_at_def)
qed

lemma with_weights_lookup:
  assumes "with_weights es = Inr vs"
  shows "map_of (iter_weighted vs) = map_of es"
proof -
  have "iter_weighted vs = dedup_by fst (sort_key fst es)"
    using assms by (auto simp: with_weights_def Let_def iter_weighted_def zip_map_fst_snd split: option.splits)
  then show ?thesis by (simp add: dedup_by_map_of map_of_sort_key)
qed

section \<open>Total weight\<close>

lemma unat_sum_u128:
  fixes ws :: "u64 list"
  assumes "length ws < 2 ^ 64"
  shows "unat (sum_list (map ucast ws) :: u128) = sum_list (map unat ws)"
proof -
  have bound: "sum_list (map unat ws) \<le> length ws * (2 ^ 64 - 1)" for ws :: "u64 list"
  proof (induction ws)
    case (Cons w ws)
    have "unat w < 2 ^ LENGTH(64)" by (rule unsigned_less)
    then have "unat w \<le> 2 ^ 64 - 1" by simp
    then show ?case using Cons by simp
  qed simp
  have "length ws < 2 ^ 64 \<Longrightarrow> unat (sum_list (map ucast ws) :: u128) = sum_list (map unat ws)"
    for ws :: "u64 list"
  proof (induction ws)
    case (Cons w ws)
    have "unat w + sum_list (map unat ws) < 2 ^ 128"
    proof -
      have "unat w + sum_list (map unat ws) \<le> length (w # ws) * (2 ^ 64 - 1)"
        using bound[of "w # ws"] by simp
      also have "\<dots> < 2 ^ 64 * 2 ^ 64" using Cons.prems by (intro mult_strict_mono) auto
      finally show ?thesis by simp
    qed
    then show ?case using Cons by (simp add: unat_add_no_overflow unat_ucast_widen)
  qed simp
  then show ?thesis using assms by blast
qed

lemma unat_total_weight:
  "length (weights vs) < 2 ^ 64 \<Longrightarrow> unat (total_weight vs) = sum_list (map unat (weights vs))"
  by (simp add: total_weight_def unat_sum_u128)

end
