(* ===== verification/Validator_History.thy ===== *)
theory Validator_History
  imports Validator_Set View_History
begin

text \<open>
  The view-indexed history of validator sets (\<open>validator_history.rs\<close>) and its
  persisted form. \<open>set_at\<close> is total on the invariant, an inserted boundary
  leaves every earlier view unchanged, and a persisted history loads back as
  itself.
\<close>

record boundary =
  b_v_eff :: view
  b_set :: validator_set

record validator_set_history =
  vh_boundaries :: "boundary list"

record validator_set_at =
  vsa_view :: view
  vsa_set :: validator_set

record persisted_boundary =
  pb_v_eff :: view
  pb_members :: "node_id list"
  pb_weights :: "u64 list"

record persisted_validator_history =
  pvh_boundaries :: "persisted_boundary list"

text \<open>\<open>HistoryEmptyPanic\<close> is the failing \<open>expect\<close> on an empty boundary list.\<close>

datatype history_error =
    BoundaryNotGreater view view
  | PersistedEmpty
  | FirstBoundaryNotZero view
  | BoundaryLengthMismatch view nat nat
  | BoundaryWeightError view weighted_set_error
  | HistoryEmptyPanic

definition vh_from_genesis :: "validator_set \<Rightarrow> validator_set_history" where
  "vh_from_genesis g = \<lparr> vh_boundaries = [\<lparr> b_v_eff = 0, b_set = g \<rparr>] \<rparr>"

text \<open>Indexing the boundary vector panics when it is empty: \<open>None\<close>.\<close>

definition set_at :: "validator_set_history \<Rightarrow> view \<Rightarrow> validator_set_at option" where
  "set_at h v =
     (let bs = vh_boundaries h;
          idx = (case binary_search (map b_v_eff bs) v of Inr i \<Rightarrow> i | Inl i \<Rightarrow> i - 1) in
      if idx < length bs then Some \<lparr> vsa_view = v, vsa_set = b_set (bs ! idx) \<rparr> else None)"

definition for_view :: "validator_set_at \<Rightarrow> view \<Rightarrow> validator_set" where
  "for_view a v = vsa_set a"

definition vh_insert_boundary ::
  "validator_set_history \<Rightarrow> view \<Rightarrow> validator_set \<Rightarrow> history_error + validator_set_history" where
  "vh_insert_boundary h v_eff s =
     (case vh_boundaries h of
        [] \<Rightarrow> Inl HistoryEmptyPanic
      | bs \<Rightarrow> (let l = last bs in
          if v_eff \<le> b_v_eff l then Inl (BoundaryNotGreater v_eff (b_v_eff l))
          else Inr (h\<lparr> vh_boundaries := bs @ [\<lparr> b_v_eff = v_eff, b_set = s \<rparr>] \<rparr>)))"

definition current_set :: "validator_set_history \<Rightarrow> validator_set option" where
  "current_set h = (if vh_boundaries h = [] then None else Some (b_set (last (vh_boundaries h))))"

definition boundary_count :: "validator_set_history \<Rightarrow> nat" where
  "boundary_count h = length (vh_boundaries h)"

definition vh_iter :: "validator_set_history \<Rightarrow> (view \<times> validator_set) list" where
  "vh_iter h = map (\<lambda>b. (b_v_eff b, b_set b)) (vh_boundaries h)"

definition vh_to_persisted :: "validator_set_history \<Rightarrow> persisted_validator_history" where
  "vh_to_persisted h =
     \<lparr> pvh_boundaries =
         map (\<lambda>(v, s). \<lparr> pb_v_eff = v, pb_members = members s, pb_weights = weights s \<rparr>) (vh_iter h) \<rparr>"

definition boundary_to_set :: "persisted_boundary \<Rightarrow> history_error + validator_set" where
  "boundary_to_set b =
     (if length (pb_members b) \<noteq> length (pb_weights b)
      then Inl (BoundaryLengthMismatch (pb_v_eff b) (length (pb_members b)) (length (pb_weights b)))
      else (case with_weights (zip (pb_members b) (pb_weights b)) of
              Inl e \<Rightarrow> Inl (BoundaryWeightError (pb_v_eff b) e)
            | Inr s \<Rightarrow> Inr s))"

text \<open>The body of the loop of \<open>from_persisted\<close>.\<close>

definition vh_load_boundary ::
  "validator_set_history \<Rightarrow> persisted_boundary \<Rightarrow> history_error + validator_set_history" where
  "vh_load_boundary h b =
     (case boundary_to_set b of Inl e \<Rightarrow> Inl e | Inr s \<Rightarrow> vh_insert_boundary h (pb_v_eff b) s)"

definition vh_from_persisted ::
  "persisted_validator_history \<Rightarrow> history_error + validator_set_history" where
  "vh_from_persisted p =
     (case pvh_boundaries p of
        [] \<Rightarrow> Inl PersistedEmpty
      | g # bs \<Rightarrow>
          if pb_v_eff g \<noteq> 0 then Inl (FirstBoundaryNotZero (pb_v_eff g))
          else (case boundary_to_set g of
                  Inl e \<Rightarrow> Inl e
                | Inr s \<Rightarrow> try_fold vh_load_boundary (vh_from_genesis s) bs))"

text \<open>The set in force at a view, as the callers obtain it:
  \<open>history.set_at(v).for_view(v)\<close>.\<close>

definition set_for :: "validator_set_history \<Rightarrow> view \<Rightarrow> validator_set option" where
  "set_for h v = map_option (\<lambda>a. for_view a v) (set_at h v)"

section \<open>Invariant and lookup\<close>

definition vh_wf :: "validator_set_history \<Rightarrow> bool" where
  "vh_wf h \<longleftrightarrow> (\<exists>g bs. vh_boundaries h = g # bs \<and> b_v_eff g = 0)
     \<and> sorted_wrt (<) (map b_v_eff (vh_boundaries h))
     \<and> (\<forall>b \<in> set (vh_boundaries h). vs_wf (b_set b))"

definition vh_order :: "validator_set_history \<Rightarrow> bool" where
  "vh_order h \<longleftrightarrow> (\<exists>g bs. vh_boundaries h = g # bs \<and> b_v_eff g = 0)
     \<and> sorted_wrt (<) (map b_v_eff (vh_boundaries h))"

lemma vh_wf_order: "vh_wf h \<Longrightarrow> vh_order h"
  by (simp add: vh_wf_def vh_order_def)

lemma set_for_last_le:
  assumes "vh_order h"
  shows "set_for h v = last_le (vh_iter h) v"
proof -
  let ?bs = "vh_boundaries h" and ?ks = "map b_v_eff (vh_boundaries h)"
  from assms obtain g bs where g: "?bs = g # bs" "b_v_eff g = 0" and st: "sorted_wrt (<) ?ks"
    by (auto simp: vh_order_def)
  have sorted: "sorted ?ks" using st by (simp add: strict_sorted_imp_sorted)
  have keys: "map fst (vh_iter h) = ?ks" by (simp add: vh_iter_def)
  have nth_iter: "i < length ?bs \<Longrightarrow> vh_iter h ! i = (b_v_eff (?bs ! i), b_set (?bs ! i))" for i
    by (simp add: vh_iter_def)
  have val: "last_le (vh_iter h) v = Some (b_set (?bs ! i))"
    if "i < length ?bs" "?ks ! i \<le> v" "\<forall>j < length ?bs. i < j \<longrightarrow> v < ?ks ! j" for i
  proof -
    have "filter (\<lambda>b. fst b \<le> v) (vh_iter h) = take (Suc i) (vh_iter h)"
    proof -
      have "takeWhile (\<lambda>b. fst b \<le> v) (vh_iter h) = take (Suc i) (vh_iter h)"
      proof (rule takeWhile_eq_take_P_nth)
        fix j assume "j < Suc i" "j < length (vh_iter h)"
        then have "?ks ! j \<le> ?ks ! i" using that(1) sorted by (intro sorted_nth_mono) auto
        moreover have "fst (vh_iter h ! j) = ?ks ! j"
          using \<open>j < Suc i\<close> that(1) by (simp add: nth_iter)
        ultimately show "fst (vh_iter h ! j) \<le> v" using that(2) by simp
      next
        assume "Suc i < length (vh_iter h)"
        then have "v < ?ks ! Suc i" using that(3) by (simp add: vh_iter_def)
        then show "\<not> fst (vh_iter h ! Suc i) \<le> v"
          using \<open>Suc i < length (vh_iter h)\<close> by (simp add: nth_iter vh_iter_def)
      qed
      then show ?thesis using filter_le_takeWhile[of "vh_iter h" v] sorted keys by simp
    qed
    then have "filter (\<lambda>b. fst b \<le> v) (vh_iter h) = take i (vh_iter h) @ [vh_iter h ! i]"
      using that(1) by (simp add: take_Suc_conv_app_nth vh_iter_def)
    then show ?thesis using that(1) by (simp add: last_le_def nth_iter)
  qed
  from sorted show ?thesis
  proof (cases rule: binary_search_cases[of _ v])
    case (found i)
    then have "\<forall>j < length ?bs. i < j \<longrightarrow> v < ?ks ! j"
      using st by (metis length_map sorted_wrt_nth_less)
    then show ?thesis using found val[of i]
      by (simp add: set_for_def set_at_def for_view_def)
  next
    case (absent i)
    have "i \<noteq> 0"
    proof
      assume "i = 0"
      then have "v < ?ks ! 0" using absent(4) g by auto
      then show False using g by simp
    qed
    then have "i - 1 < length ?bs" "?ks ! (i - 1) \<le> v"
      "\<forall>j < length ?bs. i - 1 < j \<longrightarrow> v < ?ks ! j"
      using absent by (auto simp: less_imp_le)
    then show ?thesis using absent val[of "i - 1"]
      by (simp add: set_for_def set_at_def for_view_def)
  qed
qed

lemma set_for_total: "vh_order h \<Longrightarrow> \<exists>s. set_for h v = Some s"
  by (auto simp: set_for_last_le vh_order_def vh_iter_def last_le_Cons split: option.splits)

lemma set_for_member:
  assumes "set_for h v = Some s"
  shows "\<exists>b \<in> set (vh_boundaries h). b_set b = s"
  using assms by (auto simp: set_for_def set_at_def for_view_def Let_def split: if_splits)

lemma set_for_wf: "vh_wf h \<Longrightarrow> set_for h v = Some s \<Longrightarrow> vs_wf s"
  using set_for_member by (auto simp: vh_wf_def)

lemma vh_insert_Inr:
  "vh_order h \<Longrightarrow> vh_insert_boundary h v s = Inr h' \<longleftrightarrow>
     b_v_eff (last (vh_boundaries h)) < v
     \<and> h' = h\<lparr> vh_boundaries := vh_boundaries h @ [\<lparr> b_v_eff = v, b_set = s \<rparr>] \<rparr>"
  by (auto simp: vh_order_def vh_insert_boundary_def Let_def not_le split: if_splits)

lemma vh_order_insert:
  assumes "vh_order h" and "vh_insert_boundary h v s = Inr h'"
  shows "vh_order h'"
proof -
  have lt: "b_v_eff (last (vh_boundaries h)) < v"
    and h': "vh_boundaries h' = vh_boundaries h @ [\<lparr> b_v_eff = v, b_set = s \<rparr>]"
    using assms by (simp_all add: vh_insert_Inr)
  have ne: "map b_v_eff (vh_boundaries h) \<noteq> []" using assms by (auto simp: vh_order_def)
  have st: "sorted_wrt (<) (map b_v_eff (vh_boundaries h))" using assms by (simp add: vh_order_def)
  have "\<forall>x \<in> set (map b_v_eff (vh_boundaries h)). x \<le> last (map b_v_eff (vh_boundaries h))"
    using st ne by (metis in_set_conv_nth last_conv_nth less_Suc_eq_le Suc_pred length_greater_0_conv
        sorted_nth_mono strict_sorted_imp_sorted diff_less zero_less_one One_nat_def)
  then have "\<forall>x \<in> set (map b_v_eff (vh_boundaries h)). x < v"
    using lt ne by (auto simp: last_map)
  then show ?thesis using assms st by (auto simp: vh_order_def h' sorted_wrt_append)
qed

interpretation vh: view_history vh_order "\<lambda>h. b_v_eff (last (vh_boundaries h))" set_for
    vh_insert_boundary Some
proof unfold_locales
  fix h v s h' w
  assume h: "vh_order h"
  show "(\<exists>h'. vh_insert_boundary h v s = Inr h') \<longleftrightarrow> b_v_eff (last (vh_boundaries h)) < v"
    using h by (simp add: vh_insert_Inr)
  assume ins: "vh_insert_boundary h v s = Inr h'"
  show h': "vh_order h'" using h ins by (rule vh_order_insert)
  show "b_v_eff (last (vh_boundaries h')) = v" using h ins by (simp add: vh_insert_Inr)
  have "vh_iter h' = vh_iter h @ [(v, s)]" using h ins by (simp add: vh_insert_Inr vh_iter_def)
  then show "set_for h' w = (if v \<le> w then Some s else set_for h w)"
    by (simp add: set_for_last_le[OF h] set_for_last_le[OF h'] last_le_append last_le_Cons)
qed

section \<open>Preservation of the full invariant\<close>

lemma vh_from_genesis_wf: "vs_wf g \<Longrightarrow> vh_wf (vh_from_genesis g)"
  by (simp add: vh_wf_def vh_from_genesis_def)

lemma vh_insert_wf:
  assumes "vh_wf h" and "vs_wf s" and "vh_insert_boundary h v s = Inr h'"
  shows "vh_wf h'"
proof -
  have "vh_order h'" using assms vh_order_insert vh_wf_order by blast
  moreover have "\<forall>b \<in> set (vh_boundaries h'). vs_wf (b_set b)"
    using assms by (auto simp: vh_insert_Inr[OF vh_wf_order] vh_wf_def)
  ultimately show ?thesis by (simp add: vh_wf_def vh_order_def)
qed

lemma boundary_to_set_wf: "boundary_to_set b = Inr s \<Longrightarrow> vs_wf s"
  by (auto simp: boundary_to_set_def split: if_splits sum.splits dest: with_weights_wf)

lemma vh_from_persisted_wf:
  assumes "vh_from_persisted p = Inr h"
  shows "vh_wf h"
proof -
  obtain g bs s where "boundary_to_set g = Inr s"
    and f: "try_fold vh_load_boundary (vh_from_genesis s) bs = Inr h"
    using assms by (auto simp: vh_from_persisted_def split: list.splits if_splits sum.splits)
  then have "vh_wf (vh_from_genesis s)" by (simp add: boundary_to_set_wf vh_from_genesis_wf)
  with f show ?thesis
  proof (rule try_fold_invariant)
    fix h b h' assume "vh_wf h" "vh_load_boundary h b = Inr h'"
    then show "vh_wf h'"
      by (auto simp: vh_load_boundary_def split: sum.splits dest: boundary_to_set_wf intro: vh_insert_wf)
  qed
qed

section \<open>Persistence round trip\<close>

lemma dedup_by_strict_id:
  fixes xs :: "('k::linorder \<times> 'v) list"
  shows "sorted_wrt (<) (map fst xs) \<Longrightarrow> dedup_by fst xs = xs"
  by (induction "fst :: 'k \<times> 'v \<Rightarrow> 'k" xs rule: dedup_by.induct) auto

lemma with_weights_zip:
  assumes "vs_wf s"
  shows "with_weights (zip (members s) (weights s)) = Inr s"
proof -
  let ?z = "zip (members s) (weights s)"
  have len: "length (weights s) = length (members s)" and st: "sorted_wrt (<) (members s)"
    and nz: "\<forall>w \<in> set (weights s). w \<noteq> 0"
    using assms by (auto simp: vs_wf_def)
  have "first_zero_weight 0 ?z = None"
    using nz by (auto simp: first_zero_weight_None dest: set_zip_rightD)
  moreover have "sort_key fst ?z = ?z"
    using st len by (intro sort_key_id_if_sorted) (simp add: strict_sorted_imp_sorted)
  ultimately show ?thesis
    using st len by (simp add: with_weights_def dedup_by_strict_id)
qed

lemma vh_load_persisted_boundary:
  "vs_wf (b_set b) \<Longrightarrow>
   vh_load_boundary h \<lparr> pb_v_eff = b_v_eff b, pb_members = members (b_set b), pb_weights = weights (b_set b) \<rparr>
     = vh_insert_boundary h (b_v_eff b) (b_set b)"
  by (simp add: vh_load_boundary_def boundary_to_set_def with_weights_zip vs_wf_def[of "b_set b"])

lemma vh_load_all:
  "\<lbrakk>vh_boundaries h = g # hs; sorted_wrt (<) (map b_v_eff (vh_boundaries h @ bs));
    \<forall>b \<in> set bs. vs_wf (b_set b)\<rbrakk> \<Longrightarrow>
   try_fold vh_load_boundary h
     (map (\<lambda>b. \<lparr> pb_v_eff = b_v_eff b, pb_members = members (b_set b), pb_weights = weights (b_set b) \<rparr>) bs)
   = Inr (h\<lparr> vh_boundaries := vh_boundaries h @ bs \<rparr>)"
proof (induction bs arbitrary: h hs)
  case (Cons b bs)
  let ?h1 = "h\<lparr> vh_boundaries := vh_boundaries h @ [b] \<rparr>"
  have "b_v_eff (last (g # hs)) < b_v_eff b"
    using Cons.prems(1,2) by (auto simp: sorted_wrt_append)
  then have "vh_load_boundary h \<lparr> pb_v_eff = b_v_eff b, pb_members = members (b_set b), pb_weights = weights (b_set b) \<rparr> = Inr ?h1"
    using Cons.prems by (simp add: vh_load_persisted_boundary vh_insert_boundary_def Let_def)
  moreover have "try_fold vh_load_boundary ?h1
     (map (\<lambda>b. \<lparr> pb_v_eff = b_v_eff b, pb_members = members (b_set b), pb_weights = weights (b_set b) \<rparr>) bs)
     = Inr (?h1\<lparr> vh_boundaries := vh_boundaries ?h1 @ bs \<rparr>)"
    by (rule Cons.IH[of _ "hs @ [b]"]) (use Cons.prems in auto)
  ultimately show ?case by simp
qed simp

lemma vh_persist_roundtrip:
  assumes "vh_wf h"
  shows "vh_from_persisted (vh_to_persisted h) = Inr h"
proof -
  obtain g bs where g: "vh_boundaries h = g # bs" "b_v_eff g = 0"
    and wf: "\<forall>b \<in> set (g # bs). vs_wf (b_set b)" and st: "sorted_wrt (<) (map b_v_eff (g # bs))"
    using assms by (auto simp: vh_wf_def)
  have gen: "boundary_to_set \<lparr> pb_v_eff = b_v_eff g, pb_members = members (b_set g), pb_weights = weights (b_set g) \<rparr> = Inr (b_set g)"
    using wf by (simp add: boundary_to_set_def with_weights_zip vs_wf_def[of "b_set g"])
  have "vh_from_genesis (b_set g) = \<lparr> vh_boundaries = [g] \<rparr>"
    using g(2) by (simp add: vh_from_genesis_def)
  then have "try_fold vh_load_boundary (vh_from_genesis (b_set g))
     (map (\<lambda>b. \<lparr> pb_v_eff = b_v_eff b, pb_members = members (b_set b), pb_weights = weights (b_set b) \<rparr>) bs)
     = Inr h"
    using vh_load_all[of "vh_from_genesis (b_set g)" g "[]" bs] st wf g(1) by simp
  then show ?thesis
    using g gen by (simp add: vh_from_persisted_def vh_to_persisted_def vh_iter_def comp_def)
qed

end
