(* ===== verification/Sig_Scheme.thy ===== *)
theory Sig_Scheme
  imports Prelude
begin

unbundle bit_operations_syntax

text \<open>
  Signer bitmaps and the BLS aggregate scheme (\<open>boule-core/src/crypto/sig_scheme.rs\<close>).
  The bitmap is the byte vector of the source with its bit operations; its
  reading as a set of indices is \<open>bm_indices\<close>. The pairing library is a record of
  primitives the operations take as an argument. A result \<open>None\<close> is a panic.
\<close>

section \<open>Signer bitmaps\<close>

record signer_bitmap =
  bm_bits :: "u8 list"
  bm_len :: u32

definition div_ceil8 :: "nat \<Rightarrow> nat" where
  "div_ceil8 n = n div 8 + (if n mod 8 = 0 then 0 else 1)"

definition bm_new :: "nat \<Rightarrow> signer_bitmap option" where
  "bm_new n =
     (if n < 2 ^ 32 then Some \<lparr> bm_bits = replicate (div_ceil8 n) 0, bm_len = of_nat n \<rparr> else None)"

definition bm_length :: "signer_bitmap \<Rightarrow> nat" where
  "bm_length b = unat (bm_len b)"

definition bm_is_empty :: "signer_bitmap \<Rightarrow> bool" where
  "bm_is_empty b \<longleftrightarrow> bm_len b = 0"

definition bm_set :: "signer_bitmap \<Rightarrow> nat \<Rightarrow> signer_bitmap option" where
  "bm_set b i =
     (if i < bm_length b \<and> i div 8 < length (bm_bits b)
      then Some (b\<lparr> bm_bits := (bm_bits b)[i div 8 := bm_bits b ! (i div 8) OR push_bit (i mod 8) 1] \<rparr>)
      else None)"

definition bm_get :: "signer_bitmap \<Rightarrow> nat \<Rightarrow> bool option" where
  "bm_get b i =
     (if bm_length b \<le> i then Some False
      else if i div 8 < length (bm_bits b)
      then Some (drop_bit (i mod 8) (bm_bits b ! (i div 8)) AND 1 = 1)
      else None)"

text \<open>\<open>u8::count_ones\<close>.\<close>

definition count_ones :: "u8 \<Rightarrow> nat" where
  "count_ones x = length (filter (\<lambda>n. drop_bit n x AND 1 = 1) [0..<8])"

definition bm_count :: "signer_bitmap \<Rightarrow> nat" where
  "bm_count b = sum_list (map count_ones (bm_bits b))"

definition bm_byte_indices :: "nat \<Rightarrow> nat \<times> u8 \<Rightarrow> nat list" where
  "bm_byte_indices len = (\<lambda>(byte_idx, byte).
     map (\<lambda>n. byte_idx * 8 + n)
       (filter (\<lambda>n. byte_idx * 8 + n < len \<and> drop_bit n byte AND 1 = 1) [0..<8]))"

definition bm_iter_set :: "signer_bitmap \<Rightarrow> nat list" where
  "bm_iter_set b = concat (map (bm_byte_indices (bm_length b)) (enumerate 0 (bm_bits b)))"

definition bm_is_well_formed :: "signer_bitmap \<Rightarrow> bool" where
  "bm_is_well_formed b =
     (if length (bm_bits b) \<noteq> div_ceil8 (bm_length b) then False
      else if bm_length b mod 8 \<noteq> 0 then
        (let last_byte = (if bm_bits b = [] then 0 else last (bm_bits b));
             m = (ucast (push_bit (bm_length b mod 8) (1 :: 16 word) - 1) :: u8) in
         last_byte AND NOT m = 0)
      else True)"

text \<open>The set a bitmap denotes.\<close>

definition bm_indices :: "signer_bitmap \<Rightarrow> nat set" where
  "bm_indices b = {i. i < bm_length b \<and> i div 8 < length (bm_bits b) \<and> bit (bm_bits b ! (i div 8)) (i mod 8)}"

lemma drop_bit_and_one: "drop_bit n (x :: 'a::len word) AND 1 = 1 \<longleftrightarrow> bit x n"
  by (simp add: and_one_eq bit_iff_odd_drop_bit odd_iff_mod_2_eq_one)

lemma set_bm_byte_indices:
  "set (bm_byte_indices len (k, x)) = {i. i < len \<and> i div 8 = k \<and> bit x (i mod 8)}"
proof -
  have "i \<in> set (bm_byte_indices len (k, x)) \<longleftrightarrow> i < len \<and> i div 8 = k \<and> bit x (i mod 8)" for i
  proof -
    have "i \<in> set (bm_byte_indices len (k, x)) \<longleftrightarrow> (\<exists>n<8. i = k * 8 + n \<and> i < len \<and> bit x n)"
      by (auto simp: bm_byte_indices_def drop_bit_and_one)
    also have "\<dots> \<longleftrightarrow> i < len \<and> i div 8 = k \<and> bit x (i mod 8)"
      by (auto intro!: exI[of _ "i mod 8"])
    finally show ?thesis .
  qed
  then show ?thesis by blast
qed

lemma set_bm_iter_set: "set (bm_iter_set b) = bm_indices b"
proof -
  have "i \<in> set (bm_iter_set b) \<longleftrightarrow>
      (\<exists>k < length (bm_bits b). i \<in> set (bm_byte_indices (bm_length b) (k, bm_bits b ! k)))" for i
    by (force simp: bm_iter_set_def in_set_enumerate_eq)
  then show ?thesis by (auto simp: set_bm_byte_indices bm_indices_def)
qed

lemma bm_byte_indices_sorted: "sorted_wrt (<) (bm_byte_indices len e)"
  by (cases e) (auto simp: bm_byte_indices_def sorted_wrt_map intro!: sorted_wrt_filter)

lemma bm_iter_set_sorted: "sorted_wrt (<) (bm_iter_set b)"
proof -
  have "sorted_wrt (<) (concat (map (bm_byte_indices l) (enumerate k xs))) \<and>
        (\<forall>i \<in> set (concat (map (bm_byte_indices l) (enumerate k xs))). k * 8 \<le> i)" for l k xs
  proof (induction xs arbitrary: k)
    case (Cons x xs)
    have lo: "\<forall>i \<in> set (bm_byte_indices l (k, x)). k * 8 \<le> i \<and> i < Suc k * 8"
      by (auto simp: set_bm_byte_indices)
    have hi: "\<forall>i \<in> set (concat (map (bm_byte_indices l) (enumerate (Suc k) xs))). Suc k * 8 \<le> i"
      using Cons[of "Suc k"] by blast
    then have hi': "\<forall>i \<in> set (concat (map (bm_byte_indices l) (enumerate (Suc k) xs))). k * 8 \<le> i"
      by fastforce
    have "\<forall>i \<in> set (bm_byte_indices l (k, x)).
            \<forall>j \<in> set (concat (map (bm_byte_indices l) (enumerate (Suc k) xs))). i < j"
      using lo hi by (meson less_le_trans)
    then show ?case
      using Cons[of "Suc k"] lo hi' bm_byte_indices_sorted[of l "(k, x)"]
      by (auto simp: sorted_wrt_append)
  qed simp
  then show ?thesis by (simp add: bm_iter_set_def)
qed

lemma bm_iter_set_distinct: "distinct (bm_iter_set b)"
  using bm_iter_set_sorted strict_sorted_iff by blast

lemma bm_get_iff: "bm_get b i = Some True \<longleftrightarrow> i \<in> bm_indices b"
  by (auto simp: bm_get_def bm_indices_def drop_bit_and_one)

section \<open>Well-formed bitmaps\<close>

lemma bm_mask: "n \<le> 8 \<Longrightarrow> (ucast (2 ^ n - 1 :: 16 word) :: u8) = mask n"
proof -
  assume "n \<le> 8"
  have "2 ^ n - 1 = (mask n :: 16 word)" by (simp add: mask_eq_exp_minus_1)
  then show ?thesis using \<open>n \<le> 8\<close> by (simp add: ucast_mask_eq)
qed

lemma byte_bound: "k < l div 8 \<Longrightarrow> n < 8 \<Longrightarrow> k * 8 + n < (l :: nat)"
  by linarith

lemma bm_wf_bits:
  assumes "bm_is_well_formed b" and "k < length (bm_bits b)" and "n < 8" and "bit (bm_bits b ! k) n"
  shows "k * 8 + n < bm_length b"
proof (cases "bm_length b mod 8 = 0 \<or> k + 1 < length (bm_bits b)")
  case True
  have len: "length (bm_bits b) = div_ceil8 (bm_length b)"
    using assms(1) by (auto simp: bm_is_well_formed_def split: if_splits)
  show ?thesis
  proof (cases "bm_length b mod 8 = 0")
    case True
    then have "k < bm_length b div 8" using len assms(2) by (simp add: div_ceil8_def)
    then show ?thesis using assms(3) by (rule byte_bound)
  next
    case False
    then have "k < bm_length b div 8" using True len by (simp add: div_ceil8_def)
    then show ?thesis using assms(3) by (rule byte_bound)
  qed
next
  case False
  then have r: "bm_length b mod 8 \<noteq> 0" and k: "k = length (bm_bits b) - 1" using assms(2) by auto
  have len: "length (bm_bits b) = bm_length b div 8 + 1" and
    m: "last (bm_bits b) AND NOT (mask (bm_length b mod 8)) = 0"
    using assms(1) r by (auto simp: bm_is_well_formed_def div_ceil8_def Let_def bm_mask split: if_splits)
  have "last (bm_bits b) = bm_bits b ! k" using k len last_conv_nth[of "bm_bits b"] by fastforce
  then have "bit (bm_bits b ! k AND NOT (mask (bm_length b mod 8))) n = bit (0 :: u8) n"
    using m by simp
  then have "n < bm_length b mod 8"
    using assms(3,4) by (auto simp: bit_and_iff bit_not_iff bit_mask_iff)
  then have "bm_length b div 8 * 8 + n < bm_length b" using div_mult_mod_eq[of "bm_length b" 8] by linarith
  then show ?thesis using k len by simp
qed

lemma bm_count_iter_set:
  assumes "bm_is_well_formed b"
  shows "bm_count b = length (bm_iter_set b)"
proof -
  let ?l = "bm_length b"
  have byte: "length (bm_byte_indices ?l (k, bm_bits b ! k)) = count_ones (bm_bits b ! k)"
    if "k < length (bm_bits b)" for k
  proof -
    have "filter (\<lambda>n. k * 8 + n < ?l \<and> drop_bit n (bm_bits b ! k) AND 1 = 1) [0..<8]
        = filter (\<lambda>n. drop_bit n (bm_bits b ! k) AND 1 = 1) [0..<8]"
      using bm_wf_bits[OF assms that] by (intro filter_cong) (auto simp: drop_bit_and_one)
    then show ?thesis by (simp add: bm_byte_indices_def count_ones_def)
  qed
  have "map (\<lambda>e. length (bm_byte_indices ?l e)) (enumerate 0 (bm_bits b)) = map count_ones (bm_bits b)"
    by (rule nth_equalityI) (auto simp: nth_enumerate_eq byte)
  then show ?thesis by (simp add: bm_count_def bm_iter_set_def length_concat comp_def)
qed

lemma bm_new_wf:
  assumes "bm_new n = Some b"
  shows "bm_is_well_formed b" "bm_length b = n" "bm_indices b = {}"
proof -
  have b: "n < 2 ^ 32" "b = \<lparr> bm_bits = replicate (div_ceil8 n) 0, bm_len = of_nat n \<rparr>"
    using assms by (auto simp: bm_new_def split: if_splits)
  then show l: "bm_length b = n" by (simp add: bm_length_def unat_of_nat take_bit_nat_eq_self)
  then show "bm_is_well_formed b"
    using b by (auto simp: bm_is_well_formed_def Let_def)
  show "bm_indices b = {}" using b by (auto simp: bm_indices_def)
qed

lemma bm_wf_length: "bm_is_well_formed b \<Longrightarrow> length (bm_bits b) = div_ceil8 (bm_length b)"
  by (auto simp: bm_is_well_formed_def split: if_splits)

lemma bm_wf_index: "bm_is_well_formed b \<Longrightarrow> i < bm_length b \<Longrightarrow> i div 8 < length (bm_bits b)"
  by (auto simp: bm_wf_length div_ceil8_def less_Suc_eq_le div_le_mono)

lemma bm_get_total: "bm_is_well_formed b \<Longrightarrow> bm_get b i = Some (i \<in> bm_indices b)"
  using bm_wf_index[of b i] by (auto simp: bm_get_def bm_indices_def drop_bit_and_one)

lemma bm_wfI:
  assumes "length (bm_bits b) = div_ceil8 (bm_length b)"
    and "\<And>k n. k < length (bm_bits b) \<Longrightarrow> n < 8 \<Longrightarrow> bit (bm_bits b ! k) n \<Longrightarrow> k * 8 + n < bm_length b"
  shows "bm_is_well_formed b"
proof (cases "bm_length b mod 8 = 0")
  case True
  then show ?thesis using assms(1) by (simp add: bm_is_well_formed_def)
next
  case False
  let ?r = "bm_length b mod 8" and ?k = "length (bm_bits b) - 1"
  have len: "length (bm_bits b) = bm_length b div 8 + 1" using assms(1) False by (simp add: div_ceil8_def)
  then have ne: "bm_bits b \<noteq> []" by auto
  have "last (bm_bits b) AND NOT (mask ?r) = 0"
  proof (rule bit_word_eqI)
    fix n assume n: "n < LENGTH(8)"
    have "bit (last (bm_bits b)) n \<Longrightarrow> n < ?r"
    proof -
      assume "bit (last (bm_bits b)) n"
      then have "?k * 8 + n < bm_length b"
        using assms(2)[of ?k n] ne n by (simp add: last_conv_nth)
      then have "bm_length b div 8 * 8 + n < bm_length b" using len by simp
      then show "n < ?r" using div_mult_mod_eq[of "bm_length b" 8] by linarith
    qed
    then show "bit (last (bm_bits b) AND NOT (mask ?r)) n = bit (0 :: u8) n"
      using n by (auto simp: bit_and_iff bit_not_iff bit_mask_iff)
  qed
  then show ?thesis using assms(1) ne by (simp add: bm_is_well_formed_def bm_mask Let_def)
qed

text \<open>Setting a bit in range succeeds, keeps well-formedness and inserts one index.\<close>

lemma bm_set_insert:
  assumes "bm_is_well_formed b" and "i < bm_length b"
  obtains b' where "bm_set b i = Some b'" "bm_is_well_formed b'" "bm_length b' = bm_length b"
    "bm_indices b' = insert i (bm_indices b)"
proof -
  let ?k = "i div 8" and ?x = "bm_bits b ! (i div 8) OR push_bit (i mod 8) 1"
  let ?b = "b\<lparr> bm_bits := (bm_bits b)[?k := ?x] \<rparr>"
  have k: "?k < length (bm_bits b)" using assms by (rule bm_wf_index)
  have set: "bm_set b i = Some ?b" using k assms(2) by (simp add: bm_set_def)
  have len: "bm_length ?b = bm_length b" by (simp add: bm_length_def)
  have bit: "bit ((bm_bits b)[?k := ?x] ! j) n \<longleftrightarrow> bit (bm_bits b ! j) n \<or> (j = ?k \<and> n = i mod 8)"
    if "j < length (bm_bits b)" "n < 8" for j n
    using that k by (cases "j = ?k") (auto simp: bit_or_iff bit_exp_iff)
  have "bm_is_well_formed ?b"
  proof (rule bm_wfI)
    show "length (bm_bits ?b) = div_ceil8 (bm_length ?b)"
      using assms(1) len by (simp add: bm_wf_length)
  next
    fix j n assume j: "j < length (bm_bits ?b)" "n < 8" "bit (bm_bits ?b ! j) n"
    then have "bit (bm_bits b ! j) n \<or> (j = ?k \<and> n = i mod 8)" using bit[of j n] by simp
    then show "j * 8 + n < bm_length ?b"
      using bm_wf_bits[OF assms(1)] j assms(2) len by auto
  qed
  moreover have "bm_indices ?b = insert i (bm_indices b)"
  proof (rule set_eqI)
    fix j
    have "j div 8 = ?k \<and> j mod 8 = i mod 8 \<longleftrightarrow> j = i" by (metis div_mult_mod_eq)
    then show "j \<in> bm_indices ?b \<longleftrightarrow> j \<in> insert i (bm_indices b)"
      using bit[of "j div 8" "j mod 8"] k assms(2) len by (auto simp: bm_indices_def)
  qed
  ultimately show thesis using set len that by blast
qed

section \<open>The BLS aggregate scheme\<close>

type_synonym bls_sig = "768 word"
type_synonym bls_pk = "384 word"
type_synonym bls_sk = "256 word"
type_synonym chain_id = "256 word"

text \<open>What the sources call of the pairing library, with \<open>'g1\<close> its public keys and
  \<open>'g2\<close> its signatures. \<open>agg_add\<close> is the aggregate of two signatures, \<open>None\<close> where
  the library reports an error; its error codes are not distinguished.\<close>

record ('g1, 'g2) bls_prims =
  sig_from_bytes :: "bls_sig \<Rightarrow> 'g2 option"
  sig_to_bytes :: "'g2 \<Rightarrow> bls_sig"
  pk_from_bytes :: "bls_pk \<Rightarrow> 'g1 option"
  agg_add :: "'g2 \<Rightarrow> 'g2 \<Rightarrow> 'g2 option"
  sig_verify :: "'g2 \<Rightarrow> bytes \<Rightarrow> bytes \<Rightarrow> 'g1 \<Rightarrow> bool"
  fast_aggregate_verify :: "'g2 \<Rightarrow> bytes \<Rightarrow> bytes \<Rightarrow> 'g1 list \<Rightarrow> bool"

datatype aggregate_verify_error =
    LengthMismatch nat nat
  | Malformed string
  | InvalidAggregate

datatype bls_key_error = BlstError | PopPubkeyMismatch

record bls_pop =
  pop_pubkey :: bls_pk
  pop_sig :: bls_sig

definition BLS_EMPTY_AGGREGATE_SENTINEL :: bls_sig where
  "BLS_EMPTY_AGGREGATE_SENTINEL = 0"

definition BLS_DST :: bytes where
  "BLS_DST = ascii ''BOULE_HOTSTUFF_BLS_SIG_BLS12381G2_XMD:SHA-256_SSWU_RO_POP_''"

definition is_empty_aggregate :: "bls_sig \<Rightarrow> bool" where
  "is_empty_aggregate a \<longleftrightarrow> a = BLS_EMPTY_AGGREGATE_SENTINEL"

definition empty_aggregate :: bls_sig where
  "empty_aggregate = BLS_EMPTY_AGGREGATE_SENTINEL"

definition verify_partial ::
  "('g1, 'g2) bls_prims \<Rightarrow> bls_pk \<Rightarrow> bytes \<Rightarrow> bls_sig \<Rightarrow> bls_key_error + unit" where
  "verify_partial bp pk m partial =
     (case pk_from_bytes bp pk of
        None \<Rightarrow> Inl BlstError
      | Some p \<Rightarrow> (case sig_from_bytes bp partial of
          None \<Rightarrow> Inl BlstError
        | Some sg \<Rightarrow> if sig_verify bp sg m BLS_DST p then Inr () else Inl BlstError))"

definition pop_preimage :: "chain_id \<Rightarrow> bls_pk \<Rightarrow> bytes" where
  "pop_preimage c pk = be_bytes 32 c @ be_bytes 48 pk"

definition verify_pop ::
  "('g1, 'g2) bls_prims \<Rightarrow> bls_pop \<Rightarrow> bls_pk \<Rightarrow> chain_id \<Rightarrow> bls_key_error + unit" where
  "verify_pop bp pop expected c =
     (if pop_pubkey pop \<noteq> expected then Inl PopPubkeyMismatch
      else (case pk_from_bytes bp (pop_pubkey pop) of
        None \<Rightarrow> Inl BlstError
      | Some p \<Rightarrow> (case sig_from_bytes bp (pop_sig pop) of
          None \<Rightarrow> Inl BlstError
        | Some sg \<Rightarrow>
            if sig_verify bp sg (pop_preimage c (pop_pubkey pop)) BLS_DST p
            then Inr () else Inl BlstError)))"

definition add_partial ::
  "('g1, 'g2) bls_prims \<Rightarrow> bls_sig \<Rightarrow> signer_bitmap \<Rightarrow> nat \<Rightarrow> bls_sig \<Rightarrow> bls_sig option" where
  "add_partial bp agg signers_before idx partial =
     (case bm_get signers_before idx of
        None \<Rightarrow> None
      | Some True \<Rightarrow> Some agg
      | Some False \<Rightarrow> (case sig_from_bytes bp partial of
          None \<Rightarrow> None
        | Some new_sig \<Rightarrow>
            if agg = BLS_EMPTY_AGGREGATE_SENTINEL then Some (sig_to_bytes bp new_sig)
            else (case sig_from_bytes bp agg of
                None \<Rightarrow> None
              | Some current \<Rightarrow> map_option (sig_to_bytes bp) (agg_add bp current new_sig))))"

text \<open>The public keys selected by the bitmap, in index order; an index outside the
  key vector would panic, which the length check before excludes.\<close>

definition select_pk :: "('g1, 'g2) bls_prims \<Rightarrow> bls_pk list \<Rightarrow> nat \<Rightarrow> aggregate_verify_error + 'g1" where
  "select_pk bp pubkeys idx =
     (case pk_from_bytes bp (pubkeys ! idx) of None \<Rightarrow> Inl InvalidAggregate | Some p \<Rightarrow> Inr p)"

definition verify_aggregate ::
  "('g1, 'g2) bls_prims \<Rightarrow> bls_sig \<Rightarrow> signer_bitmap \<Rightarrow> bytes \<Rightarrow> bls_pk list
     \<Rightarrow> aggregate_verify_error + unit" where
  "verify_aggregate bp agg signers message pubkeys =
     (if bm_length signers \<noteq> length pubkeys
      then Inl (LengthMismatch (bm_length signers) (length pubkeys))
      else if bm_count signers = 0 then
        (if agg = BLS_EMPTY_AGGREGATE_SENTINEL then Inr ()
         else Inl (Malformed ''non-empty aggregate with no signers in bitmap''))
      else if agg = BLS_EMPTY_AGGREGATE_SENTINEL
      then Inl (Malformed ''empty aggregate with non-zero signer bitmap'')
      else (case sig_from_bytes bp agg of
          None \<Rightarrow> Inl InvalidAggregate
        | Some sg \<Rightarrow> (case try_map (select_pk bp pubkeys) (bm_iter_set signers) of
            Inl e \<Rightarrow> Inl e
          | Inr pks \<Rightarrow>
              if fast_aggregate_verify bp sg message BLS_DST pks then Inr ()
              else Inl InvalidAggregate)))"

lemma bm_iter_set_in_range: "i \<in> set (bm_iter_set b) \<Longrightarrow> i < bm_length b"
  by (simp add: set_bm_iter_set bm_indices_def)

lemma verify_aggregate_ok:
  assumes "verify_aggregate bp agg signers m pks = Inr ()" and "bm_count signers \<noteq> 0"
  obtains sg ks where "bm_length signers = length pks" "sig_from_bytes bp agg = Some sg"
    "try_map (select_pk bp pks) (bm_iter_set signers) = Inr ks"
    "fast_aggregate_verify bp sg m BLS_DST ks"
  using assms by (auto simp: verify_aggregate_def split: if_splits option.splits sum.splits)

end
