(* ===== verification/Signed_Msg.thy ===== *)
theory Signed_Msg
  imports Sig_Scheme
begin

text \<open>
  Signed envelopes (\<open>boule-core/src/crypto/signed.rs\<close>): the domain-separated
  signing preimage and the verification of an envelope. The payload codec and
  the Ed25519 check are arguments.
\<close>

record 'a signed =
  payload :: 'a
  signer :: node_id
  sig :: "512 word"

datatype signed_error = DomainTooLong | PayloadEncodeFailed | SignerMismatch | BadSignature

definition preimage :: "bytes \<Rightarrow> ('a \<Rightarrow> bytes option) \<Rightarrow> 'a \<Rightarrow> chain_id \<Rightarrow> signed_error + bytes" where
  "preimage domain pc p c =
     (if length domain > 2 ^ 32 - 1 then Inl DomainTooLong
      else (case pc p of
          None \<Rightarrow> Inl PayloadEncodeFailed
        | Some body \<Rightarrow>
            Inr (be_bytes 32 c @ be_bytes 4 (of_nat (length domain) :: u32) @ domain @ body)))"

definition signed_verify ::
  "(node_id \<Rightarrow> bytes \<Rightarrow> 512 word \<Rightarrow> bool) \<Rightarrow> bytes \<Rightarrow> ('a \<Rightarrow> bytes option) \<Rightarrow> 'a signed
     \<Rightarrow> node_id \<Rightarrow> chain_id \<Rightarrow> signed_error + unit" where
  "signed_verify ed domain pc s expected c =
     (if signer s \<noteq> expected then Inl SignerMismatch
      else (case preimage domain pc (payload s) c of
          Inl e \<Rightarrow> Inl e
        | Inr bs \<Rightarrow> if ed expected bs (sig s) then Inr () else Inl BadSignature))"

definition signed_sign ::
  "bytes \<Rightarrow> ('a \<Rightarrow> bytes option) \<Rightarrow> 'a \<Rightarrow> node_id \<Rightarrow> (bytes \<Rightarrow> 512 word) \<Rightarrow> chain_id
     \<Rightarrow> signed_error + 'a signed" where
  "signed_sign domain pc p me sign c =
     (case preimage domain pc p c of
        Inl e \<Rightarrow> Inl e
      | Inr bs \<Rightarrow> Inr \<lparr> payload = p, signer = me, sig = sign bs \<rparr>)"

section \<open>Bytes of a word determine it\<close>

lemma be_bytes_nth_bit:
  assumes "i < n" "j < 8"
  shows "bit (be_bytes n w ! i) j = bit w (8 * (n - 1 - i) + j)"
  using assms by (auto simp: be_bytes_def bit_ucast_iff bit_drop_bit_eq)

lemma be_bytes_inj:
  fixes w w' :: "'a::len word"
  assumes "be_bytes n w = be_bytes n w'" and "LENGTH('a) \<le> 8 * n"
  shows "w = w'"
proof (rule bit_word_eqI)
  fix k assume k: "k < LENGTH('a)"
  then have lt: "k div 8 < n" using assms(2) by (simp add: less_mult_imp_div_less mult.commute)
  let ?i = "n - 1 - k div 8"
  have i: "?i < n" "8 * (n - 1 - ?i) + k mod 8 = k" using lt by auto
  have "bit w k = bit (be_bytes n w ! ?i) (k mod 8)"
    using be_bytes_nth_bit[OF i(1), of "k mod 8" w] i(2) by simp
  also have "\<dots> = bit w' k"
    using be_bytes_nth_bit[OF i(1), of "k mod 8" w'] i(2) assms(1) by simp
  finally show "bit w k = bit w' k" .
qed

lemma preimage_Inr:
  "preimage d pc p c = Inr bs \<longleftrightarrow>
     length d < 2 ^ 32 \<and> (\<exists>body. pc p = Some body
       \<and> bs = be_bytes 32 c @ be_bytes 4 (of_nat (length d) :: u32) @ d @ body)"
  by (auto simp: preimage_def split: option.splits)

text \<open>C12: the signing preimage separates chains, message domains and payloads: two
  messages with the same preimage have the same chain, the same domain tag and
  the same encoded payload, whatever their types.\<close>

theorem preimage_injective:
  assumes "preimage d pc p c = Inr bs" and "preimage d' pc' p' c' = Inr bs"
  shows "c = c' \<and> d = d' \<and> pc p = pc' p'"
proof -
  obtain body body' where
    b: "pc p = Some body" "pc' p' = Some body'" "length d < 2 ^ 32" "length d' < 2 ^ 32" and
    e: "be_bytes 32 c @ be_bytes 4 (of_nat (length d) :: u32) @ d @ body
        = be_bytes 32 c' @ be_bytes 4 (of_nat (length d') :: u32) @ d' @ body'"
    using assms by (auto simp: preimage_Inr)
  from e have c: "be_bytes 32 c = be_bytes 32 c'" and
    l: "be_bytes 4 (of_nat (length d) :: u32) = be_bytes 4 (of_nat (length d') :: u32)" and
    r: "d @ body = d' @ body'"
    by simp_all
  have "(of_nat (length d) :: u32) = of_nat (length d')"
    using l by (rule be_bytes_inj) simp
  moreover have "unat (of_nat (length d) :: u32) = length d"
    by (rule unat_of_nat_small) (use b(3) in simp)
  moreover have "unat (of_nat (length d') :: u32) = length d'"
    by (rule unat_of_nat_small) (use b(4) in simp)
  ultimately have "length d = length d'" by metis
  then have "d = d'" "body = body'" using r by simp_all
  moreover have "c = c'" using c by (rule be_bytes_inj) simp
  ultimately show ?thesis using b by simp
qed

theorem preimage_injective_witness:
  "{(d, c). preimage d Some [1, 2] c = Inr (be_bytes 32 (5 :: chain_id) @ be_bytes 4 (1 :: u32) @ [7, 1, 2])} = {([7], 5)}"
proof -
  have p: "preimage [7] Some [1, 2] 5 = Inr (be_bytes 32 (5 :: chain_id) @ be_bytes 4 (1 :: u32) @ [7, 1, 2])"
    by (simp add: preimage_def)
  moreover have "d = [7] \<and> c = 5"
    if "preimage d Some [1, 2] c = Inr (be_bytes 32 (5 :: chain_id) @ be_bytes 4 (1 :: u32) @ [7, 1, 2])" for d c
    using preimage_injective[OF that p] by simp
  ultimately show ?thesis by fast
qed

end
