(* ===== verification/Block.thy ===== *)
theory Block
  imports Prelude
begin

text \<open>
  Blocks (\<open>replication/block.rs\<close>). Hashing and the postcard encodings of a header
  and of a command list are primitives of the record \<open>hash_prims\<close>.
\<close>

record block_header =
  parent_hash :: hash256
  hdr_height :: height
  hdr_view :: view
  proposer :: node_id
  state_commitment :: hash256
  commands_commitment :: hash256
  validator_history_commitment :: hash256
  committed_height :: height
  committed_state_root :: hash256
  timestamp :: u64

record block =
  header :: block_header
  commands :: "bytes list"

record hash_prims =
  sha256 :: "bytes \<Rightarrow> hash256"
  pc_header :: "block_header \<Rightarrow> bytes"
  pc_commands :: "bytes list \<Rightarrow> bytes"

definition header_hash :: "hash_prims \<Rightarrow> block_header \<Rightarrow> hash256" where
  "header_hash hp h = sha256 hp (pc_header hp h)"

definition block_hash_of :: "hash_prims \<Rightarrow> block \<Rightarrow> hash256" where
  "block_hash_of hp b = header_hash hp (header b)"

definition commands_commitment_of :: "hash_prims \<Rightarrow> bytes list \<Rightarrow> hash256" where
  "commands_commitment_of hp cs = sha256 hp (pc_commands hp cs)"

definition genesis_block :: "hash_prims \<Rightarrow> hash256 \<Rightarrow> hash256 \<Rightarrow> block" where
  "genesis_block hp sc vhc =
     \<lparr> header =
         \<lparr> parent_hash = 0, hdr_height = 0, hdr_view = 0, proposer = 0,
           state_commitment = sc, commands_commitment = commands_commitment_of hp [],
           validator_history_commitment = vhc, committed_height = 0,
           committed_state_root = sc, timestamp = 0 \<rparr>,
       commands = [] \<rparr>"

datatype structural_error =
    ParentHashMismatch hash256 hash256
  | ParentHeightOverflow height
  | HeightMismatch height height
  | ViewNotIncreasing view view
  | CommandsCommitmentMismatch hash256 hash256
  | TimestampDecreases u64 u64

definition validate_structural :: "hash_prims \<Rightarrow> block \<Rightarrow> block_header \<Rightarrow> structural_error + unit" where
  "validate_structural hp child parent =
     (if parent_hash (header child) \<noteq> header_hash hp parent
      then Inl (ParentHashMismatch (parent_hash (header child)) (header_hash hp parent))
      else (case checked_add (hdr_height parent) 1 of
          None \<Rightarrow> Inl (ParentHeightOverflow (hdr_height parent))
        | Some expected \<Rightarrow>
            if hdr_height (header child) \<noteq> expected
            then Inl (HeightMismatch expected (hdr_height (header child)))
            else if hdr_view (header child) \<le> hdr_view parent
            then Inl (ViewNotIncreasing (hdr_view parent) (hdr_view (header child)))
            else if commands_commitment (header child) \<noteq> commands_commitment_of hp (commands child)
            then Inl (CommandsCommitmentMismatch (commands_commitment (header child))
                        (commands_commitment_of hp (commands child)))
            else if timestamp (header child) < timestamp parent
            then Inl (TimestampDecreases (timestamp parent) (timestamp (header child)))
            else Inr ()))"

text \<open>The structural contract between a block and its parent: linked by hash, one
  higher, at a later view, with a matching command commitment and a timestamp
  that does not go back.\<close>

definition structural_child :: "hash_prims \<Rightarrow> block \<Rightarrow> block_header \<Rightarrow> bool" where
  "structural_child hp c p \<longleftrightarrow>
     parent_hash (header c) = header_hash hp p
     \<and> unat (hdr_height (header c)) = unat (hdr_height p) + 1
     \<and> hdr_view p < hdr_view (header c)
     \<and> commands_commitment (header c) = commands_commitment_of hp (commands c)
     \<and> timestamp p \<le> timestamp (header c)"

lemma validate_structural_iff:
  "validate_structural hp c p = Inr () \<longleftrightarrow> structural_child hp c p"
proof (cases "checked_add (hdr_height p) 1")
  case None
  then have "\<not> unat (hdr_height p) + 1 < 2 ^ 64"
    by (auto simp: checked_add_def split: if_splits)
  then have "unat (hdr_height (header c)) \<noteq> unat (hdr_height p) + 1"
    using unat_bound[of "hdr_height (header c)"] by auto
  then show ?thesis using None by (simp add: validate_structural_def structural_child_def)
next
  case (Some e)
  then have "unat e = unat (hdr_height p) + 1" using checked_add_unat by fastforce
  then have "hdr_height (header c) = e \<longleftrightarrow> unat (hdr_height (header c)) = unat (hdr_height p) + 1"
    by (metis word_unat_eq_iff)
  then show ?thesis using Some
    by (auto simp: validate_structural_def structural_child_def not_le not_less)
qed

end
