(* ===== verification/Qc.thy ===== *)
theory Qc
  imports Validator_Set Signed_Msg Block "HOL-Library.Monad_Syntax"
begin

text \<open>
  Quorum certificates and the consensus messages (\<open>hotstuff/qc.rs\<close>). The quorum
  test is the saturating 128-bit arithmetic of the source; \<open>has_quorum_iff\<close> shows
  that it decides "more than two thirds of the weight" exactly. The quorum
  systems contract is the locale \<open>weighted_quorums\<close>, interpreted on the model.
\<close>

datatype qc_signatures = BlsAggregatedSig bls_sig

record quorum_certificate =
  qc_view :: view
  qc_block_hash :: hash256
  qc_signers :: signer_bitmap
  qc_sigs :: qc_signatures

text \<open>\<open>VerifiedQc\<close> is a transparent wrapper; \<open>unchecked\<close>, \<open>inner\<close> and \<open>into_inner\<close>
  are identities.\<close>

type_synonym verified_qc = quorum_certificate

record proposal =
  p_block :: block
  p_justify :: quorum_certificate

record vote =
  v_view :: view
  v_block_hash :: hash256

record new_view =
  nv_high_qc :: quorum_certificate

record timeout_vote =
  tv_view :: view
  tv_high_qc :: "quorum_certificate option"

datatype consensus_msg = ProposalMsg proposal | VoteMsg vote | NewViewMsg new_view

section \<open>Thresholds\<close>

definition quorum_size :: "nat \<Rightarrow> nat" where
  "quorum_size n = (2 * n) div 3 + 1"

definition honesty_threshold :: "nat \<Rightarrow> nat" where
  "honesty_threshold n = n div 3 + 1"

definition quorum_weight_threshold :: "validator_set \<Rightarrow> u128" where
  "quorum_weight_threshold vs =
     (let total = total_weight vs in
      if total = 0 then 1 else saturating_mul 2 total div 3 + 1)"

definition honesty_weight_threshold :: "validator_set \<Rightarrow> u128" where
  "honesty_weight_threshold vs =
     (let total = total_weight vs in if total = 0 then 1 else total div 3 + 1)"

section \<open>Certificates\<close>

definition qc_new :: "view \<Rightarrow> hash256 \<Rightarrow> nat \<Rightarrow> quorum_certificate option" where
  "qc_new v h n =
     map_option (\<lambda>b. \<lparr> qc_view = v, qc_block_hash = h, qc_signers = b,
                        qc_sigs = BlsAggregatedSig empty_aggregate \<rparr>) (bm_new n)"

definition add_bls_partial ::
  "('g1, 'g2) bls_prims \<Rightarrow> quorum_certificate \<Rightarrow> nat \<Rightarrow> bls_sig \<Rightarrow> quorum_certificate option" where
  "add_bls_partial bp qc idx partial =
     (case qc_sigs qc of BlsAggregatedSig agg \<Rightarrow>
        do { signed \<leftarrow> bm_get (qc_signers qc) idx;
             if signed then Some qc
             else do { agg' \<leftarrow> add_partial bp agg (qc_signers qc) idx partial;
                       b \<leftarrow> bm_set (qc_signers qc) idx;
                       Some (qc\<lparr> qc_sigs := BlsAggregatedSig agg', qc_signers := b \<rparr>) } })"

definition verify_aggregate_bls ::
  "('g1, 'g2) bls_prims \<Rightarrow> quorum_certificate \<Rightarrow> bytes \<Rightarrow> bls_pk list \<Rightarrow> aggregate_verify_error + unit" where
  "verify_aggregate_bls bp qc m pks =
     (case qc_sigs qc of BlsAggregatedSig agg \<Rightarrow> verify_aggregate bp agg (qc_signers qc) m pks)"

definition signer_count :: "quorum_certificate \<Rightarrow> nat" where
  "signer_count qc = bm_count (qc_signers qc)"

definition signer_indices :: "quorum_certificate \<Rightarrow> nat list" where
  "signer_indices qc = bm_iter_set (qc_signers qc)"

text \<open>The accumulation loop of \<open>signer_weight\<close>; \<open>weight_at\<close> may panic.\<close>

fun signer_weight_loop :: "validator_set \<Rightarrow> u128 \<Rightarrow> nat list \<Rightarrow> u128 option" where
  "signer_weight_loop vs acc [] = Some acc"
| "signer_weight_loop vs acc (i # is) =
     (if vs_len vs \<le> i then signer_weight_loop vs acc is
      else (case weight_at vs i of
          None \<Rightarrow> None
        | Some w \<Rightarrow> signer_weight_loop vs (saturating_add acc (ucast w)) is))"

definition signer_weight :: "quorum_certificate \<Rightarrow> validator_set \<Rightarrow> u128 option" where
  "signer_weight qc vs = signer_weight_loop vs 0 (signer_indices qc)"

definition has_quorum :: "quorum_certificate \<Rightarrow> validator_set \<Rightarrow> bool option" where
  "has_quorum qc vs =
     map_option (\<lambda>s. saturating_mul 3 s > saturating_mul 2 (total_weight vs)) (signer_weight qc vs)"

definition qc_is_well_formed :: "quorum_certificate \<Rightarrow> validator_set \<Rightarrow> bool" where
  "qc_is_well_formed qc vs =
     (if bm_length (qc_signers qc) \<noteq> vs_len vs \<or> \<not> bm_is_well_formed (qc_signers qc) then False
      else (case qc_sigs qc of BlsAggregatedSig agg \<Rightarrow>
              (bm_count (qc_signers qc) = 0) = is_empty_aggregate agg))"

definition genesis_qc_bls :: "hash_prims \<Rightarrow> block \<Rightarrow> nat \<Rightarrow> quorum_certificate option" where
  "genesis_qc_bls hp g n = qc_new 0 (block_hash_of hp g) n"

definition genesis_qc :: "hash_prims \<Rightarrow> block \<Rightarrow> validator_set \<Rightarrow> quorum_certificate option" where
  "genesis_qc hp g vs = genesis_qc_bls hp g (vs_len vs)"

section \<open>Weights as natural numbers\<close>

definition idx_weight :: "validator_set \<Rightarrow> nat \<Rightarrow> nat" where
  "idx_weight vs i = (if i < length (weights vs) then unat (weights vs ! i) else 0)"

lemma sum_idx_weight:
  "length (weights vs) = n \<Longrightarrow> (\<Sum>i<n. idx_weight vs i) = sum_list (map unat (weights vs))"
  by (simp add: idx_weight_def sum_list_sum_nth atLeast0LessThan)

lemma idx_weight_le: "idx_weight vs i \<le> 2 ^ 64 - 1"
proof (cases "i < length (weights vs)")
  case True
  have "unat (weights vs ! i) < 2 ^ LENGTH(64)" by (rule unat_bound)
  then show ?thesis using True by (simp add: idx_weight_def)
qed (simp add: idx_weight_def)

lemma signer_weight_loop_exact:
  assumes "length (weights vs) = vs_len vs" and "distinct is" and "vs_len vs < 2 ^ 32"
    and "unat acc + sum_list (map (idx_weight vs) (filter (\<lambda>i. i < vs_len vs) is)) < 2 ^ 128"
  shows "\<exists>r. signer_weight_loop vs acc is = Some r \<and>
    unat r = unat acc + sum_list (map (idx_weight vs) (filter (\<lambda>i. i < vs_len vs) is))"
  using assms
proof (induction "is" arbitrary: acc)
  case (Cons i "is")
  show ?case
  proof (cases "i < vs_len vs")
    case False
    then show ?thesis using Cons by simp
  next
    case True
    let ?w = "weights vs ! i"
    have w: "weight_at vs i = Some ?w" "idx_weight vs i = unat ?w"
      using True Cons.prems(1) by (simp_all add: weight_at_def idx_weight_def)
    have "unat acc + unat ?w < 2 ^ LENGTH(128)"
      using Cons.prems(4) True w by simp
    then have "unat (saturating_add acc (ucast ?w)) = unat acc + unat ?w"
      by (simp add: unat_saturating_add unat_ucast_widen)
    then show ?thesis using Cons.IH[of "saturating_add acc (ucast ?w)"] Cons.prems True w by (simp add: add.assoc)
  qed
qed simp

lemma sum_weights_small:
  assumes "length (weights vs) = vs_len vs" and "vs_len vs < 2 ^ 32" and "S \<subseteq> {..<vs_len vs}"
  shows "(\<Sum>i\<in>S. idx_weight vs i) < 2 ^ 96"
proof -
  have "(\<Sum>i\<in>S. idx_weight vs i) \<le> card S * (2 ^ 64 - 1)"
    using sum_bounded_above[of S "idx_weight vs" "2 ^ 64 - 1"] idx_weight_le by simp
  also have "\<dots> \<le> vs_len vs * (2 ^ 64 - 1)"
    using assms(3) by (intro mult_right_mono) (metis card_lessThan card_mono finite_lessThan, simp)
  also have "\<dots> < 2 ^ 32 * 2 ^ 64" using assms(2) by (intro mult_strict_mono) auto
  finally show ?thesis by simp
qed

lemma signer_weight_exact:
  assumes "length (weights vs) = vs_len vs" and "vs_len vs < 2 ^ 32"
  shows "\<exists>r. signer_weight qc vs = Some r
    \<and> unat r = (\<Sum>i\<in>bm_indices (qc_signers qc) \<inter> {..<vs_len vs}. idx_weight vs i)"
proof -
  let ?is = "bm_iter_set (qc_signers qc)"
  have d: "distinct ?is" by (rule bm_iter_set_distinct)
  have sum: "sum_list (map (idx_weight vs) (filter (\<lambda>i. i < vs_len vs) ?is))
      = (\<Sum>i\<in>bm_indices (qc_signers qc) \<inter> {..<vs_len vs}. idx_weight vs i)"
    using d by (simp add: sum_list_distinct_conv_sum_set set_bm_iter_set[symmetric])
       (rule sum.cong, auto)
  have "(\<Sum>i\<in>bm_indices (qc_signers qc) \<inter> {..<vs_len vs}. idx_weight vs i) < 2 ^ 96"
    by (rule sum_weights_small) (use assms in auto)
  then have "unat (0 :: u128) + sum_list (map (idx_weight vs) (filter (\<lambda>i. i < vs_len vs) ?is)) < 2 ^ 128"
    using sum by simp
  from signer_weight_loop_exact[OF assms(1) d assms(2) this] show ?thesis
    by (simp add: signer_weight_def signer_indices_def sum)
qed

lemma unat_total:
  assumes "length (weights vs) = vs_len vs" and "vs_len vs < 2 ^ 32"
  shows "unat (total_weight vs) = (\<Sum>i<vs_len vs. idx_weight vs i)"
  using assms by (simp add: unat_total_weight sum_idx_weight)

definition set_weight :: "validator_set \<Rightarrow> nat set \<Rightarrow> nat" where
  "set_weight vs S = (\<Sum>i\<in>S \<inter> {..<vs_len vs}. idx_weight vs i)"

definition is_quorum :: "validator_set \<Rightarrow> nat set \<Rightarrow> bool" where
  "is_quorum vs S \<longleftrightarrow> 2 * set_weight vs {..<vs_len vs} < 3 * set_weight vs S"

lemma has_quorum_iff:
  assumes "length (weights vs) = vs_len vs" and "vs_len vs < 2 ^ 32"
  shows "has_quorum qc vs = Some (is_quorum vs (bm_indices (qc_signers qc)))"
proof -
  obtain r where r: "signer_weight qc vs = Some r"
    "unat r = set_weight vs (bm_indices (qc_signers qc))"
    using signer_weight_exact[OF assms] by (auto simp: set_weight_def)
  have t: "unat (total_weight vs) = set_weight vs {..<vs_len vs}"
    using unat_total[OF assms] by (simp add: set_weight_def)
  have bound: "set_weight vs S < 2 ^ 96" for S
    unfolding set_weight_def by (rule sum_weights_small) (use assms in auto)
  have "unat (saturating_mul 3 r) = 3 * unat r" "unat (saturating_mul 2 (total_weight vs)) = 2 * unat (total_weight vs)"
    using bound[of "bm_indices (qc_signers qc)"] bound[of "{..<vs_len vs}"]
    by (simp_all add: unat_saturating_mul r t)
  then show ?thesis using r t by (simp add: has_quorum_def is_quorum_def word_less_nat_alt)
qed

section \<open>Quorum systems\<close>

text \<open>What the protocol relies on: any two quorums overlap in more than a third of
  the weight, hence in a participant outside any coalition of at most a third.\<close>

locale weighted_quorums =
  fixes universe :: "'p set" and weight :: "'p \<Rightarrow> nat" and quorum :: "'p set \<Rightarrow> bool"
  assumes finite_universe: "finite universe"
    and quorum_weight: "quorum Q \<Longrightarrow> 2 * sum weight universe < 3 * sum weight (Q \<inter> universe)"
begin

lemma quorum_overlap:
  assumes "quorum A" and "quorum B"
  shows "sum weight universe < 3 * sum weight (A \<inter> B \<inter> universe)"
proof -
  let ?A = "A \<inter> universe" and ?B = "B \<inter> universe"
  have fin: "finite ?A" "finite ?B" using finite_universe by auto
  have "sum weight ?A + sum weight ?B = sum weight (?A \<union> ?B) + sum weight (?A \<inter> ?B)"
    using fin by (rule sum.union_inter[symmetric])
  moreover have "sum weight (?A \<union> ?B) \<le> sum weight universe"
    using finite_universe by (intro sum_mono2) auto
  moreover have "?A \<inter> ?B = A \<inter> B \<inter> universe" by blast
  ultimately show ?thesis using quorum_weight[OF assms(1)] quorum_weight[OF assms(2)] by simp
qed

lemma quorum_common_honest:
  assumes "quorum A" and "quorum B" and "3 * sum weight (F \<inter> universe) \<le> sum weight universe"
  shows "\<exists>p. p \<in> A \<and> p \<in> B \<and> p \<in> universe \<and> p \<notin> F"
proof (rule ccontr)
  assume "\<not> ?thesis"
  then have "A \<inter> B \<inter> universe \<subseteq> F \<inter> universe" by blast
  then have "sum weight (A \<inter> B \<inter> universe) \<le> sum weight (F \<inter> universe)"
    using finite_universe by (intro sum_mono2) auto
  then show False using quorum_overlap[OF assms(1,2)] assms(3) by simp
qed

end

interpretation vq: weighted_quorums "{..<vs_len vs}" "idx_weight vs" "is_quorum vs" for vs
  by unfold_locales (simp_all add: is_quorum_def set_weight_def)

section \<open>Forming a certificate\<close>

text \<open>The state of a vote accumulator: a bitmap of the right length whose aggregate
  is the sentinel exactly when nobody signed.\<close>

definition qc_acc :: "nat \<Rightarrow> quorum_certificate \<Rightarrow> bool" where
  "qc_acc n qc \<longleftrightarrow> bm_is_well_formed (qc_signers qc) \<and> bm_length (qc_signers qc) = n"

lemma qc_new_acc:
  assumes "qc_new v h n = Some qc"
  shows "qc_acc n qc" "bm_indices (qc_signers qc) = {}" "qc_view qc = v" "qc_block_hash qc = h"
  using assms bm_new_wf by (auto simp: qc_new_def qc_acc_def)

lemma qc_new_total: "n < 2 ^ 32 \<Longrightarrow> \<exists>qc. qc_new v h n = Some qc"
  by (simp add: qc_new_def bm_new_def)

lemma add_bls_partial_acc:
  assumes "qc_acc n qc" and "idx < n" and "add_bls_partial bp qc idx partial = Some qc'"
  shows "qc_acc n qc' \<and> bm_indices (qc_signers qc') = insert idx (bm_indices (qc_signers qc))
    \<and> qc_view qc' = qc_view qc \<and> qc_block_hash qc' = qc_block_hash qc"
proof -
  have wf: "bm_is_well_formed (qc_signers qc)" and len: "idx < bm_length (qc_signers qc)"
    using assms(1,2) by (auto simp: qc_acc_def)
  obtain b' where b': "bm_set (qc_signers qc) idx = Some b'" "bm_is_well_formed b'"
    "bm_length b' = bm_length (qc_signers qc)" "bm_indices b' = insert idx (bm_indices (qc_signers qc))"
    using bm_set_insert[OF wf len] .
  obtain agg where agg: "qc_sigs qc = BlsAggregatedSig agg" by (cases "qc_sigs qc")
  show ?thesis
  proof (cases "idx \<in> bm_indices (qc_signers qc)")
    case True
    then show ?thesis using assms agg bm_get_total[OF wf]
      by (auto simp: add_bls_partial_def insert_absorb)
  next
    case False
    then show ?thesis using assms agg bm_get_total[OF wf] b'
      by (auto simp: add_bls_partial_def qc_acc_def bind_eq_Some_conv)
  qed
qed

end
