(* ===== verification/Limits.thy ===== *)
theory Limits
  imports Prelude
begin

text \<open>
  Cache limits and eviction counters (\<open>limits.rs\<close>, with the defaults of
  \<open>boule-core/src/config.rs\<close>). The counters are relaxed atomics shared by the
  consensus core and its state; the model keeps one record of wrapping words.
\<close>

record cache_limits =
  vote_bucket_capacity :: nat
  parked_proposals_capacity :: nat
  lim_pending_blocks_capacity :: nat
  timeout_buckets_capacity :: nat
  block_sync_initial_backoff_views :: u64
  block_sync_max_backoff_views :: u64
  block_sync_per_peer_attempts :: u32
  block_sync_max_attempts :: u32

definition USIZE_MAX :: nat where
  "USIZE_MAX = 2 ^ 64 - 1"

definition unbounded_for_tests :: cache_limits where
  "unbounded_for_tests =
     \<lparr> vote_bucket_capacity = USIZE_MAX, parked_proposals_capacity = USIZE_MAX,
       lim_pending_blocks_capacity = USIZE_MAX, timeout_buckets_capacity = USIZE_MAX,
       block_sync_initial_backoff_views = 0, block_sync_max_backoff_views = 0,
       block_sync_per_peer_attempts = - 1, block_sync_max_attempts = - 1 \<rparr>"

definition production_defaults :: cache_limits where
  "production_defaults =
     \<lparr> vote_bucket_capacity = 1024, parked_proposals_capacity = 256,
       lim_pending_blocks_capacity = 1024, timeout_buckets_capacity = 1024,
       block_sync_initial_backoff_views = 1, block_sync_max_backoff_views = 8,
       block_sync_per_peer_attempts = 2, block_sync_max_attempts = 8 \<rparr>"

record eviction_counters =
  cnt_vote_bucket :: u64
  cnt_parked_proposals :: u64
  cnt_pending_blocks :: u64
  cnt_timeout_buckets :: u64
  cnt_block_sync_dropped :: u64

definition default_counters :: eviction_counters where
  "default_counters =
     \<lparr> cnt_vote_bucket = 0, cnt_parked_proposals = 0, cnt_pending_blocks = 0,
       cnt_timeout_buckets = 0, cnt_block_sync_dropped = 0 \<rparr>"

definition inc_vote_bucket :: "u64 \<Rightarrow> eviction_counters \<Rightarrow> eviction_counters" where
  "inc_vote_bucket n c = (if n > 0 then c\<lparr> cnt_vote_bucket := cnt_vote_bucket c + n \<rparr> else c)"

definition inc_parked_proposals :: "u64 \<Rightarrow> eviction_counters \<Rightarrow> eviction_counters" where
  "inc_parked_proposals n c =
     (if n > 0 then c\<lparr> cnt_parked_proposals := cnt_parked_proposals c + n \<rparr> else c)"

definition inc_pending_blocks :: "u64 \<Rightarrow> eviction_counters \<Rightarrow> eviction_counters" where
  "inc_pending_blocks n c =
     (if n > 0 then c\<lparr> cnt_pending_blocks := cnt_pending_blocks c + n \<rparr> else c)"

definition inc_timeout_buckets :: "u64 \<Rightarrow> eviction_counters \<Rightarrow> eviction_counters" where
  "inc_timeout_buckets n c =
     (if n > 0 then c\<lparr> cnt_timeout_buckets := cnt_timeout_buckets c + n \<rparr> else c)"

definition inc_block_sync_dropped :: "u64 \<Rightarrow> eviction_counters \<Rightarrow> eviction_counters" where
  "inc_block_sync_dropped n c =
     (if n > 0 then c\<lparr> cnt_block_sync_dropped := cnt_block_sync_dropped c + n \<rparr> else c)"

end
