(* ===== verification/Hotstuff_State.thy ===== *)
theory Hotstuff_State
  imports Validator_History Qc Limits
begin

text \<open>
  The replica state and the safety rules (\<open>hotstuff/state.rs\<close>,
  \<open>hotstuff/safety_rules.rs\<close>): the pending-block cache with its protected
  eviction, the ancestry test, the voting rule and the three-chain commit rule.
\<close>

record locked =
  l_view :: view
  l_height :: height
  l_block_hash :: hash256

record hotstuff_state =
  current_view :: view
  hs_locked :: "locked option"
  high_qc :: "verified_qc option"
  last_voted_view :: view
  hs_validator_set :: validator_set
  validator_history :: validator_set_history
  pending_blocks :: "(hash256, block) hmap"
  genesis_hash :: hash256
  pending_blocks_capacity :: nat
  hs_counters :: eviction_counters

definition PROTECTED_HIGH_QC_DEPTH :: nat where
  "PROTECTED_HIGH_QC_DEPTH = 4"

definition hs_new :: "hash_prims \<Rightarrow> validator_set \<Rightarrow> block \<Rightarrow> hotstuff_state" where
  "hs_new hp vs g =
     \<lparr> current_view = 0, hs_locked = None, high_qc = None, last_voted_view = 0,
       hs_validator_set = vs, validator_history = vh_from_genesis vs,
       pending_blocks = [(block_hash_of hp g, g)], genesis_hash = block_hash_of hp g,
       pending_blocks_capacity = USIZE_MAX, hs_counters = default_counters \<rparr>"

definition set_pending_blocks_limit :: "nat \<Rightarrow> eviction_counters \<Rightarrow> hotstuff_state \<Rightarrow> hotstuff_state" where
  "set_pending_blocks_limit cap c s = s\<lparr> pending_blocks_capacity := cap, hs_counters := c \<rparr>"

definition get_pending :: "hotstuff_state \<Rightarrow> hash256 \<Rightarrow> block option" where
  "get_pending s h = hm_get (pending_blocks s) h"

text \<open>The bounded walk of \<open>protected_block_hashes\<close>; the set is a list without
  repetitions.\<close>

fun protect_walk :: "(hash256, block) hmap \<Rightarrow> nat \<Rightarrow> hash256 \<Rightarrow> hash256 list \<Rightarrow> hash256 list" where
  "protect_walk pending 0 cursor out = out"
| "protect_walk pending (Suc n) cursor out =
     (if cursor \<in> set out then out
      else (case hm_get pending cursor of
          None \<Rightarrow> cursor # out
        | Some b \<Rightarrow> protect_walk pending n (parent_hash (header b)) (cursor # out)))"

definition protected_block_hashes :: "hotstuff_state \<Rightarrow> hash256 list" where
  "protected_block_hashes s =
     (case high_qc s of
        None \<Rightarrow> [genesis_hash s]
      | Some qc \<Rightarrow>
          protect_walk (pending_blocks s) PROTECTED_HIGH_QC_DEPTH (qc_block_hash qc) [genesis_hash s])"

definition evict_pending_to_fit_one :: "hotstuff_state \<Rightarrow> hotstuff_state" where
  "evict_pending_to_fit_one s =
     (if length (pending_blocks s) < pending_blocks_capacity s then s
      else let prot = protected_block_hashes s;
               candidates = map (\<lambda>(h, b). (h, hdr_height (header b)))
                              (filter (\<lambda>(h, b). h \<notin> set prot) (pending_blocks s)) in
        (case min_by_key (\<lambda>(h, ht). (ht, h)) candidates of
           None \<Rightarrow> s
         | Some (victim, _) \<Rightarrow>
             if hm_contains (pending_blocks s) victim
             then s\<lparr> pending_blocks := hm_remove victim (pending_blocks s),
                     hs_counters := inc_pending_blocks 1 (hs_counters s) \<rparr>
             else s))"

definition insert_pending :: "hash_prims \<Rightarrow> block \<Rightarrow> hotstuff_state \<Rightarrow> hotstuff_state" where
  "insert_pending hp b s =
     (let h = block_hash_of hp b;
          s' = (if hm_contains (pending_blocks s) h then s else evict_pending_to_fit_one s) in
      s'\<lparr> pending_blocks := hm_insert h b (pending_blocks s') \<rparr>)"

section \<open>Safety rules\<close>

function extends_loop :: "(hash256, block) hmap \<Rightarrow> hash256 \<Rightarrow> hash256 list \<Rightarrow> hash256 \<Rightarrow> bool" where
  "extends_loop pending anc seen current =
     (if current \<in> set seen then False
      else (case hm_get pending current of
          None \<Rightarrow> False
        | Some b \<Rightarrow>
            if parent_hash (header b) = anc then True
            else if parent_hash (header b) = 0 then False
            else extends_loop pending anc (current # seen) (parent_hash (header b))))"
  by pat_completeness auto
termination
proof (relation "measure (\<lambda>(pending, anc, seen, current).
    card (fst ` set pending - set seen))", goal_cases)
  case (2 pending anc seen current b)
  then have "current \<in> fst ` set pending - set seen"
    by (force dest: map_of_SomeD)
  then have "fst ` set pending - set (current # seen) \<subset> fst ` set pending - set seen" by auto
  then have "card (fst ` set pending - set (current # seen)) < card (fst ` set pending - set seen)"
    by (intro psubset_card_mono) auto
  then show ?case by (simp only: in_measure split_conv)
qed simp

declare extends_loop.simps [simp del]

definition extends_block :: "hash256 \<Rightarrow> hash256 \<Rightarrow> (hash256, block) hmap \<Rightarrow> bool" where
  "extends_block h anc pending = (if h = anc then True else extends_loop pending anc [] h)"

definition safe_to_vote :: "hash_prims \<Rightarrow> proposal \<Rightarrow> hotstuff_state \<Rightarrow> bool" where
  "safe_to_vote hp p s =
     (if hdr_view (header (p_block p)) \<le> last_voted_view s then False
      else (case hs_locked s of
          None \<Rightarrow> True
        | Some l \<Rightarrow>
            if extends_block (block_hash_of hp (p_block p)) (l_block_hash l) (pending_blocks s) then True
            else qc_view (p_justify p) > l_view l))"

definition should_update_high_qc :: "quorum_certificate \<Rightarrow> hotstuff_state \<Rightarrow> bool" where
  "should_update_high_qc qc s =
     (case high_qc s of None \<Rightarrow> True | Some existing \<Rightarrow> qc_view qc > qc_view existing)"

definition three_chain_commit :: "quorum_certificate \<Rightarrow> hotstuff_state \<Rightarrow> block option" where
  "three_chain_commit qc s =
     do { b3 \<leftarrow> hm_get (pending_blocks s) (qc_block_hash qc);
          if hdr_view (header b3) \<noteq> qc_view qc then None
          else do { b2 \<leftarrow> hm_get (pending_blocks s) (parent_hash (header b3));
            if hdr_view (header b2) + 1 \<noteq> hdr_view (header b3) then None
            else do { b1 \<leftarrow> hm_get (pending_blocks s) (parent_hash (header b2));
              if hdr_view (header b1) + 1 \<noteq> hdr_view (header b2) then None
              else Some b1 } } }"

section \<open>Ancestry\<close>

text \<open>The parent links of a block cache as a relation.\<close>

definition parent_rel :: "(hash256, block) hmap \<Rightarrow> (hash256 \<times> hash256) set" where
  "parent_rel pending = {(h, p). \<exists>b. hm_get pending h = Some b \<and> parent_hash (header b) = p}"

lemma parent_rel_fun: "(h, p) \<in> parent_rel m \<Longrightarrow> (h, q) \<in> parent_rel m \<Longrightarrow> p = q"
  by (auto simp: parent_rel_def)

lemma trancl_fun_step:
  assumes "(c, p) \<in> r" and "\<And>a b d. (a, b) \<in> r \<Longrightarrow> (a, d) \<in> r \<Longrightarrow> b = d"
  shows "(c, x) \<in> r\<^sup>+ \<longleftrightarrow> x = p \<or> (p, x) \<in> r\<^sup>+"
proof
  assume "(c, x) \<in> r\<^sup>+"
  then obtain z where z: "(c, z) \<in> r" "(z, x) \<in> r\<^sup>*" by (meson tranclD)
  then have "z = p" using assms by blast
  then show "x = p \<or> (p, x) \<in> r\<^sup>+" using z(2) by (auto simp: rtrancl_eq_or_trancl)
next
  assume "x = p \<or> (p, x) \<in> r\<^sup>+"
  then show "(c, x) \<in> r\<^sup>+" using assms(1) by (auto intro: trancl_into_trancl2)
qed

lemma trancl_closed:
  assumes "(x, y) \<in> r\<^sup>+" and "x \<in> S" and "r `` S \<subseteq> S"
  shows "y \<in> r `` S"
  using assms(1,2)
proof (induction rule: trancl_induct)
  case (step y z)
  then show ?case using assms(3) by blast
qed blast

lemma extends_loop_iff:
  assumes "hm_get pending 0 = None"
    and "parent_rel pending `` set seen \<subseteq> insert current (set seen)"
    and "anc \<notin> parent_rel pending `` set seen"
  shows "extends_loop pending anc seen current \<longleftrightarrow> (current, anc) \<in> (parent_rel pending)\<^sup>+"
  using assms
proof (induction pending anc seen current rule: extends_loop.induct)
  case (1 pending anc seen current)
  let ?R = "parent_rel pending"
  show ?case
  proof (cases "current \<in> set seen")
    case True
    then have "?R `` set seen \<subseteq> set seen" using 1(3) by blast
    then have "(current, anc) \<notin> ?R\<^sup>+" using trancl_closed[of current anc ?R "set seen"] True 1(4) by blast
    then show ?thesis using True by (subst extends_loop.simps) simp
  next
    case fresh: False
    show ?thesis
    proof (cases "hm_get pending current")
      case None
      then have "(current, anc) \<notin> ?R\<^sup>+" by (auto simp: parent_rel_def dest: tranclD)
      then show ?thesis using fresh None by (subst extends_loop.simps) simp
    next
      case (Some b)
      let ?p = "parent_hash (header b)"
      have edge: "(current, ?p) \<in> ?R" using Some by (auto simp: parent_rel_def)
      have only: "(current, x) \<in> ?R\<^sup>+ \<longleftrightarrow> x = ?p \<or> (?p, x) \<in> ?R\<^sup>+" for x
        using edge by (rule trancl_fun_step) (rule parent_rel_fun)
      consider "?p = anc" | "?p \<noteq> anc" "?p = 0" | "?p \<noteq> anc" "?p \<noteq> 0" by blast
      then show ?thesis
      proof cases
        case 1
        then show ?thesis using fresh Some edge by (subst extends_loop.simps) auto
      next
        case 2
        then have "(?p, anc) \<notin> ?R\<^sup>+" using \<open>hm_get pending 0 = None\<close>
          by (auto simp: parent_rel_def dest: tranclD)
        then show ?thesis using fresh Some 2 only by (subst extends_loop.simps) simp
      next
        case 3
        have "extends_loop pending anc (current # seen) ?p \<longleftrightarrow> (?p, anc) \<in> ?R\<^sup>+"
        proof (rule "1.IH"[OF fresh Some 3])
          have img: "?R `` set (current # seen) = insert ?p (?R `` set seen)"
            using Some by (auto simp: parent_rel_def)
          show "hm_get pending 0 = None" by (rule 1(2))
          show "?R `` set (current # seen) \<subseteq> insert ?p (set (current # seen))"
            unfolding img using 1(3) by auto
          show "anc \<notin> ?R `` set (current # seen)"
            unfolding img using 1(4) 3(1) by auto
        qed
        then show ?thesis using fresh Some 3 only by (subst extends_loop.simps) simp
      qed
    qed
  qed
qed

lemma extends_block_iff:
  assumes "hm_get pending 0 = None"
  shows "extends_block h anc pending \<longleftrightarrow> (h, anc) \<in> (parent_rel pending)\<^sup>*"
  using extends_loop_iff[OF assms, of "[]" h anc]
  by (auto simp: extends_block_def rtrancl_eq_or_trancl)

text \<open>Without any hypothesis on the zero hash, a positive answer is always an
  ancestry.\<close>

lemma extends_loop_sound:
  "extends_loop pending anc seen current \<Longrightarrow> (current, anc) \<in> (parent_rel pending)\<^sup>+"
proof (induction pending anc seen current rule: extends_loop.induct)
  case (1 pending anc seen current)
  from 1(2) obtain b where fresh: "current \<notin> set seen" and b: "hm_get pending current = Some b"
    by (subst (asm) extends_loop.simps) (auto split: if_splits option.splits)
  have edge: "(current, parent_hash (header b)) \<in> parent_rel pending"
    using b by (auto simp: parent_rel_def)
  show ?case
  proof (cases "parent_hash (header b) = anc")
    case True
    then show ?thesis using edge by auto
  next
    case False
    then have "parent_hash (header b) \<noteq> 0" "extends_loop pending anc (current # seen) (parent_hash (header b))"
      using 1(2) fresh b by (subst (asm) extends_loop.simps, simp split: if_splits)+
    then show ?thesis using 1(1)[OF fresh b False] edge by (meson trancl_into_trancl2)
  qed
qed

section \<open>Frame and capacity of the pending cache\<close>

lemma evict_pending_frame [simp]:
  "current_view (evict_pending_to_fit_one s) = current_view s"
  "hs_locked (evict_pending_to_fit_one s) = hs_locked s"
  "high_qc (evict_pending_to_fit_one s) = high_qc s"
  "last_voted_view (evict_pending_to_fit_one s) = last_voted_view s"
  "hs_validator_set (evict_pending_to_fit_one s) = hs_validator_set s"
  "validator_history (evict_pending_to_fit_one s) = validator_history s"
  "genesis_hash (evict_pending_to_fit_one s) = genesis_hash s"
  "pending_blocks_capacity (evict_pending_to_fit_one s) = pending_blocks_capacity s"
  by (simp_all add: evict_pending_to_fit_one_def Let_def split: option.splits prod.splits)

lemma insert_pending_frame [simp]:
  "current_view (insert_pending hp b s) = current_view s"
  "hs_locked (insert_pending hp b s) = hs_locked s"
  "high_qc (insert_pending hp b s) = high_qc s"
  "last_voted_view (insert_pending hp b s) = last_voted_view s"
  "hs_validator_set (insert_pending hp b s) = hs_validator_set s"
  "validator_history (insert_pending hp b s) = validator_history s"
  "genesis_hash (insert_pending hp b s) = genesis_hash s"
  "pending_blocks_capacity (insert_pending hp b s) = pending_blocks_capacity s"
  by (simp_all add: insert_pending_def Let_def)

lemma get_insert_pending_same [simp]:
  "hm_get (pending_blocks (insert_pending hp b s)) (block_hash_of hp b) = Some b"
  by (simp add: insert_pending_def Let_def)

lemma protect_walk_mono: "set out \<subseteq> set (protect_walk m n c out)"
  by (induction m n c out rule: protect_walk.induct) (auto split: option.splits)

lemma protect_walk_length: "length (protect_walk m n c out) \<le> length out + n"
  by (induction m n c out rule: protect_walk.induct) (auto split: option.splits)

lemma protected_length: "length (protected_block_hashes s) \<le> 5"
  using protect_walk_length[of "pending_blocks s" 4 _ "[genesis_hash s]"]
  by (auto simp: protected_block_hashes_def PROTECTED_HIGH_QC_DEPTH_def split: option.splits)

lemma genesis_protected: "genesis_hash s \<in> set (protected_block_hashes s)"
  using protect_walk_mono[of "[genesis_hash s]" "pending_blocks s" 4]
  by (auto simp: protected_block_hashes_def PROTECTED_HIGH_QC_DEPTH_def split: option.splits)

lemma high_qc_protected:
  "high_qc s = Some qc \<Longrightarrow> qc_block_hash qc \<in> set (protected_block_hashes s)"
  by (auto simp: protected_block_hashes_def PROTECTED_HIGH_QC_DEPTH_def numeral_eq_Suc
      split: option.splits dest: subsetD[OF protect_walk_mono, rotated])

text \<open>An eviction removes at most one entry, and never a protected one.\<close>

lemma evict_pending_cases:
  assumes "hm_wf (pending_blocks s)"
  obtains (room) "length (pending_blocks s) < pending_blocks_capacity s" "evict_pending_to_fit_one s = s"
    | (all_protected) "\<forall>h \<in> fst ` set (pending_blocks s). h \<in> set (protected_block_hashes s)"
        "evict_pending_to_fit_one s = s"
    | (evicted) victim where "victim \<notin> set (protected_block_hashes s)"
        "hm_contains (pending_blocks s) victim"
        "pending_blocks (evict_pending_to_fit_one s) = hm_remove victim (pending_blocks s)"
proof (cases "length (pending_blocks s) < pending_blocks_capacity s")
  case True
  then show ?thesis using room by (simp add: evict_pending_to_fit_one_def)
next
  case full: False
  let ?c = "map (\<lambda>(h, b). (h, hdr_height (header b)))
    (filter (\<lambda>(h, b). h \<notin> set (protected_block_hashes s)) (pending_blocks s))"
  show ?thesis
  proof (cases "min_by_key (\<lambda>(h, ht). (ht, h)) ?c")
    case None
    then have "\<forall>h \<in> fst ` set (pending_blocks s). h \<in> set (protected_block_hashes s)"
      by (auto simp: filter_empty_conv)
    moreover have "evict_pending_to_fit_one s = s"
      using full None by (simp add: evict_pending_to_fit_one_def Let_def)
    ultimately show ?thesis using all_protected by blast
  next
    case (Some e)
    obtain v ht where e: "e = (v, ht)" by (cases e)
    then have "(v, ht) \<in> set ?c" using min_by_key_Some[OF Some] by simp
    then have v: "v \<notin> set (protected_block_hashes s)" "hm_contains (pending_blocks s) v"
      by (force simp: hm_contains_iff)+
    moreover have "pending_blocks (evict_pending_to_fit_one s) = hm_remove v (pending_blocks s)"
      using full Some e v by (simp add: evict_pending_to_fit_one_def Let_def)
    ultimately show ?thesis using evicted by blast
  qed
qed

lemma insert_pending_wf:
  assumes "hm_wf (pending_blocks s)"
  shows "hm_wf (pending_blocks (insert_pending hp b s))"
  by (rule evict_pending_cases[OF assms]) (use assms in \<open>auto simp: insert_pending_def Let_def\<close>)

text \<open>The cache never outgrows its capacity, except that the protected blocks (the
  genesis and four blocks of the high-QC chain) and the new one always fit.\<close>

lemma insert_pending_bound:
  assumes wf: "hm_wf (pending_blocks s)"
    and len: "length (pending_blocks s) \<le> max (pending_blocks_capacity s) 6"
  shows "length (pending_blocks (insert_pending hp b s)) \<le> max (pending_blocks_capacity s) 6"
proof (cases "hm_contains (pending_blocks s) (block_hash_of hp b)")
  case True
  then show ?thesis using len by (simp add: insert_pending_def Let_def hm_insert_length)
next
  case new: False
  from wf show ?thesis
  proof (cases rule: evict_pending_cases[of s])
    case room
    then show ?thesis using new by (simp add: insert_pending_def Let_def hm_insert_length)
  next
    case all_protected
    have "length (pending_blocks s) = card (fst ` set (pending_blocks s))"
      using wf distinct_card[of "map fst (pending_blocks s)"] by (simp add: hm_wf_def)
    also have "\<dots> \<le> card (set (protected_block_hashes s))"
      using all_protected by (intro card_mono) auto
    also have "\<dots> \<le> 5" using card_length[of "protected_block_hashes s"] protected_length[of s] by simp
    finally show ?thesis using new all_protected by (simp add: insert_pending_def Let_def hm_insert_length)
  next
    case (evicted victim)
    have "length (pending_blocks s) \<noteq> 0" using evicted(2) by (auto simp: hm_contains_def)
    then have "length (pending_blocks (evict_pending_to_fit_one s)) + 1 = length (pending_blocks s)"
      using evicted hm_remove_length[OF wf, of victim] by simp
    then show ?thesis using new len by (auto simp: insert_pending_def Let_def hm_insert_length)
  qed
qed

lemma insert_pending_keeps:
  assumes "hm_wf (pending_blocks s)" and "h \<in> set (protected_block_hashes s)"
    and "hm_get (pending_blocks s) h = Some b'" and "h \<noteq> block_hash_of hp b"
  shows "hm_get (pending_blocks (insert_pending hp b s)) h = Some b'"
  using assms(1)
proof (cases rule: evict_pending_cases[of s])
  case (evicted victim)
  then have "h \<noteq> victim" using assms(2) by auto
  then show ?thesis using assms evicted by (simp add: insert_pending_def Let_def)
qed (use assms in \<open>simp_all add: insert_pending_def Let_def\<close>)

section \<open>The three-chain rule\<close>

lemma three_chain_commit_Some:
  "three_chain_commit qc s = Some b1 \<longleftrightarrow>
     (\<exists>b2 b3. hm_get (pending_blocks s) (qc_block_hash qc) = Some b3
        \<and> hm_get (pending_blocks s) (parent_hash (header b3)) = Some b2
        \<and> hm_get (pending_blocks s) (parent_hash (header b2)) = Some b1
        \<and> hdr_view (header b3) = qc_view qc
        \<and> hdr_view (header b3) = hdr_view (header b2) + 1
        \<and> hdr_view (header b2) = hdr_view (header b1) + 1)"
  by (auto simp: three_chain_commit_def split: Option.bind_splits if_splits)

end
