(* ===== verification/Step_Machine.thy ===== *)
theory Step_Machine
  imports Prelude
begin

text \<open>
  Event-driven components: a step takes an event and returns the actions to
  perform with the next state, or \<open>None\<close> when it panics. \<open>run\<close> feeds a sequence of
  events. The locale carries a step-wise progress relation to whole runs.
\<close>

type_synonym ('s, 'e, 'a) machine = "'s \<Rightarrow> 'e \<Rightarrow> ('a list \<times> 's) option"

fun run :: "('s, 'e, 'a) machine \<Rightarrow> 's \<Rightarrow> 'e list \<Rightarrow> ('a list \<times> 's) option" where
  "run f s [] = Some ([], s)"
| "run f s (e # es) =
     (case f s e of
        None \<Rightarrow> None
      | Some (as, s') \<Rightarrow> (case run f s' es of None \<Rightarrow> None | Some (bs, t) \<Rightarrow> Some (as @ bs, t)))"

text \<open>A machine that accepts only some events runs like the machine itself on those.\<close>

definition accepting :: "('e \<Rightarrow> bool) \<Rightarrow> ('s, 'e, 'a) machine \<Rightarrow> ('s, 'e, 'a) machine" where
  "accepting P f s e = (if P e then f s e else None)"

lemma run_accepting: "\<forall>e \<in> set es. P e \<Longrightarrow> run (accepting P f) s es = run f s es"
  by (induction es arbitrary: s) (auto simp: accepting_def split: option.split)

locale progress =
  fixes f :: "('s, 'e, 'a) machine"
    and inv :: "'s \<Rightarrow> bool"
    and prog :: "'s \<Rightarrow> 'a list \<Rightarrow> 's \<Rightarrow> bool"
  assumes step_prog: "inv s \<Longrightarrow> f s e = Some (as, s') \<Longrightarrow> inv s' \<and> prog s as s'"
    and prog_refl: "prog s [] s"
    and prog_trans: "prog s as t \<Longrightarrow> prog t bs u \<Longrightarrow> prog s (as @ bs) u"
begin

lemma run_prog: "inv s \<Longrightarrow> run f s es = Some (as, s') \<Longrightarrow> inv s' \<and> prog s as s'"
proof (induction es arbitrary: s as)
  case Nil
  then show ?case by (simp add: prog_refl)
next
  case (Cons e es)
  then obtain bs t cs where
    1: "f s e = Some (bs, t)" and 2: "run f t es = Some (cs, s')" and as: "as = bs @ cs"
    by (auto split: option.splits prod.splits)
  have t: "inv t \<and> prog s bs t" using Cons.prems(1) 1 by (rule step_prog)
  then have "inv s' \<and> prog t cs s'" using Cons.IH 2 by blast
  then show ?case using t as prog_trans by blast
qed

lemmas run_inv = run_prog[THEN conjunct1]
lemmas run_progress = run_prog[THEN conjunct2]

end

text \<open>A step that cannot panic on the invariant gives a run that cannot panic.\<close>

locale total_machine =
  fixes f :: "('s, 'e, 'a) machine"
    and inv :: "'s \<Rightarrow> bool"
    and ok_event :: "'e \<Rightarrow> bool"
  assumes step_total: "inv s \<Longrightarrow> ok_event e \<Longrightarrow> \<exists>as s'. f s e = Some (as, s') \<and> inv s'"
begin

lemma run_total: "inv s \<Longrightarrow> \<forall>e \<in> set es. ok_event e \<Longrightarrow> \<exists>as s'. run f s es = Some (as, s') \<and> inv s'"
proof (induction es arbitrary: s)
  case (Cons e es)
  then obtain as t where t: "f s e = Some (as, t)" "inv t" using step_total by force
  then obtain bs u where "run f t es = Some (bs, u)" "inv u" using Cons by force
  then show ?case using t by simp
qed simp

end

end
