(* ===== verification/Hotstuff_Step.thy ===== *)
theory Hotstuff_Step
  imports Hotstuff_State Step_Machine
begin

text \<open>
  The HotStuff core (\<open>hotstuff/step/*.rs\<close>): the event handlers, the vote
  accumulator, parked proposals, block-sync retries and proposing. Every
  operation takes the environment \<open>hs_env\<close> (hash primitives, BLS primitives and
  the iteration order of a hash map) and returns the actions with the next core;
  the operations that can panic return an option. The eviction counters, one
  shared object in the source, live in the state.
\<close>

section \<open>Data\<close>

record 'a verified =
  vrf_value :: 'a
  vrf_signer :: validator_id

record vote_variant =
  vv_signed :: "vote signed verified"
  vv_partial :: bls_sig

datatype event =
    ProposalReceived "proposal signed verified"
  | VoteReceived vote_variant
  | NewViewReceived "new_view signed verified"
  | PacemakerAdvance view

datatype state_update =
    VotedInView view
  | LockedUpdate locked
  | HighQcUpdate quorum_certificate
  | ProposedInView view

datatype block_sync_reason =
    UnknownParentOnProposal
  | StillParkedOnPacemakerAdvance
  | UnknownHighQcOnNewView
  | RetryTimerTick

datatype action =
    Broadcast consensus_msg
  | Persist state_update
  | Commit block
  | RequestBlock hash256 node_id height block_sync_reason
  | EquivocationEvidence validator_id view hash256 hash256
  | ProposalEquivocationEvidence validator_id view hash256 hash256
  | BuildProposal view quorum_certificate block

record inflight =
  bi_original_sender :: node_id
  bi_attempts :: u32
  bi_last_asked_view :: view
  bi_expected_height :: height

record hotstuff_core =
  self_id :: node_id
  state :: hotstuff_state
  vote_bucket :: "(view \<times> hash256, quorum_certificate) hmap"
  vote_dedupe :: "(view \<times> validator_id, hash256) hmap"
  proposal_dedupe :: "(view \<times> validator_id, hash256) hmap"
  parked_proposals :: "(hash256, proposal signed) hmap"
  block_sync_inflight :: "(hash256, inflight) hmap"
  proposed_in_view :: view
  limits :: cache_limits

record ('g1, 'g2) hs_env =
  env_hash :: hash_prims
  env_bls :: "('g1, 'g2) bls_prims"
  env_order :: "hash256 list \<Rightarrow> hash256 list"

section \<open>Construction and administration\<close>

definition with_limits ::
  "node_id \<Rightarrow> hotstuff_state \<Rightarrow> cache_limits \<Rightarrow> eviction_counters \<Rightarrow> hotstuff_core" where
  "with_limits me s lim c =
     \<lparr> self_id = me, state = set_pending_blocks_limit (lim_pending_blocks_capacity lim) c s,
       vote_bucket = [], vote_dedupe = [], proposal_dedupe = [], parked_proposals = [],
       block_sync_inflight = [], proposed_in_view = 0, limits = lim \<rparr>"

definition core_new :: "node_id \<Rightarrow> hotstuff_state \<Rightarrow> hotstuff_core" where
  "core_new me s = with_limits me s unbounded_for_tests default_counters"

definition with_proposed_in_view :: "hotstuff_core \<Rightarrow> view \<Rightarrow> hotstuff_core" where
  "with_proposed_in_view c v = c\<lparr> proposed_in_view := v \<rparr>"

definition insert_validator_boundary ::
  "hotstuff_core \<Rightarrow> view \<Rightarrow> validator_set \<Rightarrow> history_error + hotstuff_core" where
  "insert_validator_boundary c v_eff vs =
     (case vh_insert_boundary (validator_history (state c)) v_eff vs of
        Inl e \<Rightarrow> Inl e
      | Inr h \<Rightarrow>
          let s = (state c)\<lparr> validator_history := h \<rparr> in
          Inr (c\<lparr> state := (if v_eff \<le> current_view s then s\<lparr> hs_validator_set := vs \<rparr> else s) \<rparr>))"

definition insert_pending_block :: "hash_prims \<Rightarrow> hotstuff_core \<Rightarrow> block \<Rightarrow> hotstuff_core" where
  "insert_pending_block hp c b =
     c\<lparr> state := insert_pending hp b (state c),
        block_sync_inflight := hm_remove (block_hash_of hp b) (block_sync_inflight c) \<rparr>"

definition set_high_qc :: "hotstuff_core \<Rightarrow> verified_qc \<Rightarrow> hotstuff_core" where
  "set_high_qc c qc = c\<lparr> state := (state c)\<lparr> high_qc := Some qc \<rparr> \<rparr>"

definition adopt_snapshot ::
  "hash_prims \<Rightarrow> hotstuff_core \<Rightarrow> block \<Rightarrow> verified_qc \<Rightarrow> view \<Rightarrow> action list \<times> hotstuff_core" where
  "adopt_snapshot hp c b qc v =
     (let l = \<lparr> l_view = v, l_height = hdr_height (header b), l_block_hash = block_hash_of hp b \<rparr>;
          s = (insert_pending hp b (state c))\<lparr> hs_locked := Some l, high_qc := Some qc \<rparr>;
          s' = (if v > last_voted_view s then s\<lparr> last_voted_view := v \<rparr> else s) in
      ([Persist (VotedInView v), Persist (LockedUpdate l), Persist (HighQcUpdate qc)],
       c\<lparr> state := s' \<rparr>))"

section \<open>Free functions\<close>

text \<open>A modulus by an empty set panics: \<open>None\<close>.\<close>

definition round_robin_leader :: "validator_set \<Rightarrow> view \<Rightarrow> node_id option" where
  "round_robin_leader vs v =
     (if vs_len vs = 0 then None else vs_get vs (unat v mod vs_len vs))"

text \<open>\<open>checked_shl\<close> only fails for a shift of 64 or more, which the cap at 63
  excludes; bits shifted out are lost.\<close>

definition block_sync_backoff_views :: "u32 \<Rightarrow> u64 \<Rightarrow> u64 \<Rightarrow> u64" where
  "block_sync_backoff_views attempts initial mx =
     (if attempts = 0 \<or> initial = 0 then 0
      else let shift = min (attempts - 1) 63; raw = push_bit (unat shift) initial in min raw mx)"

definition pick_block_sync_peer ::
  "node_id \<Rightarrow> u32 \<Rightarrow> u32 \<Rightarrow> validator_set \<Rightarrow> node_id \<Rightarrow> node_id" where
  "pick_block_sync_peer original_sender attempts per_peer_attempts vs me =
     (let per_peer = max per_peer_attempts 1;
          next_attempt = saturating_add attempts 1;
          round = unat ((next_attempt - 1) div per_peer);
          len = vs_len vs in
      if round = 0 then original_sender
      else if len = 0 then original_sender
      else let sender_idx = (case index_of vs original_sender of Some i \<Rightarrow> i | None \<Rightarrow> 0);
               ring = filter (\<lambda>c. c \<noteq> me)
                        (map (\<lambda>off. members vs ! ((sender_idx + off) mod len)) [1..<len + 1]) in
        if ring = [] then original_sender else ring ! ((round - 1) mod length ring))"

section \<open>Eviction\<close>

definition upd_counters :: "(eviction_counters \<Rightarrow> eviction_counters) \<Rightarrow> hotstuff_core \<Rightarrow> hotstuff_core" where
  "upd_counters f c = c\<lparr> state := (state c)\<lparr> hs_counters := f (hs_counters (state c)) \<rparr> \<rparr>"

definition drop_parked_for_parent :: "hash256 \<Rightarrow> hotstuff_core \<Rightarrow> hotstuff_core" where
  "drop_parked_for_parent parent c =
     (let victims = map fst (filter (\<lambda>(_, sp). parent_hash (header (p_block (payload sp))) = parent)
                              (parked_proposals c));
          c1 = c\<lparr> parked_proposals := fold hm_remove victims (parked_proposals c) \<rparr>;
          c2 = (if victims \<noteq> [] then upd_counters (inc_block_sync_dropped (of_nat (length victims))) c1 else c1) in
      c2\<lparr> block_sync_inflight := hm_remove parent (block_sync_inflight c2) \<rparr>)"

definition evict_vote_buckets_below :: "view \<Rightarrow> hotstuff_core \<Rightarrow> hotstuff_core" where
  "evict_vote_buckets_below gc c =
     (let kept = hm_retain (\<lambda>(v, _) _. gc \<le> v) (vote_bucket c);
          dropped = (of_nat (length (vote_bucket c) - length kept) :: u64);
          c1 = c\<lparr> vote_bucket := kept \<rparr>;
          c2 = (if dropped > 0 then upd_counters (inc_vote_bucket dropped) c1 else c1) in
      c2\<lparr> vote_dedupe := hm_retain (\<lambda>(v, _) _. gc \<le> v) (vote_dedupe c2),
          proposal_dedupe := hm_retain (\<lambda>(v, _) _. gc \<le> v) (proposal_dedupe c2) \<rparr>)"

definition evict_vote_buckets_to_fit_one :: "hotstuff_core \<Rightarrow> hotstuff_core" where
  "evict_vote_buckets_to_fit_one c =
     (if length (vote_bucket c) < vote_bucket_capacity (limits c) then c
      else (case min_by_key (\<lambda>k. k) (map fst (vote_bucket c)) of
          None \<Rightarrow> c
        | Some victim \<Rightarrow>
            if hm_contains (vote_bucket c) victim
            then upd_counters (inc_vote_bucket 1)
                   (c\<lparr> vote_bucket := hm_remove victim (vote_bucket c) \<rparr>)
            else c))"

definition evict_parked_to_fit_one :: "hotstuff_core \<Rightarrow> hotstuff_core" where
  "evict_parked_to_fit_one c =
     (if length (parked_proposals c) < parked_proposals_capacity (limits c) then c
      else (case min_by_key (\<lambda>(h, v). (v, h))
                   (map (\<lambda>(h, sp). (h, hdr_view (header (p_block (payload sp))))) (parked_proposals c)) of
          None \<Rightarrow> c
        | Some (victim, _) \<Rightarrow>
            if hm_contains (parked_proposals c) victim
            then upd_counters (inc_parked_proposals 1)
                   (c\<lparr> parked_proposals := hm_remove victim (parked_proposals c) \<rparr>)
            else c))"

section \<open>Block synchronisation\<close>

definition has_any_block_sync_inflight :: "hotstuff_core \<Rightarrow> bool" where
  "has_any_block_sync_inflight c \<longleftrightarrow> block_sync_inflight c \<noteq> []"

text \<open>Record one more request for a parent and ask the peer the rotation picks.\<close>

definition ask_again ::
  "hash256 \<Rightarrow> inflight \<Rightarrow> block_sync_reason \<Rightarrow> hotstuff_core \<Rightarrow> action list \<times> hotstuff_core" where
  "ask_again parent snap reason c =
     (let peer = pick_block_sync_peer (bi_original_sender snap) (bi_attempts snap)
                   (block_sync_per_peer_attempts (limits c)) (hs_validator_set (state c)) (self_id c);
          e = snap\<lparr> bi_attempts := saturating_add (bi_attempts snap) 1,
                    bi_last_asked_view := current_view (state c) \<rparr> in
      ([RequestBlock parent peer (bi_expected_height snap) reason],
       c\<lparr> block_sync_inflight := hm_insert parent e (block_sync_inflight c) \<rparr>))"

definition try_emit_block_sync_retry ::
  "hash256 \<Rightarrow> node_id \<Rightarrow> height \<Rightarrow> block_sync_reason \<Rightarrow> hotstuff_core \<Rightarrow> action list \<times> hotstuff_core" where
  "try_emit_block_sync_retry parent sender expected reason c =
     (case hm_get (block_sync_inflight c) parent of
        None \<Rightarrow>
          ([RequestBlock parent sender expected reason],
           c\<lparr> block_sync_inflight := hm_insert parent
                \<lparr> bi_original_sender = sender, bi_attempts = 1,
                  bi_last_asked_view = current_view (state c), bi_expected_height = expected \<rparr>
                (block_sync_inflight c) \<rparr>)
      | Some snap \<Rightarrow>
          if block_sync_max_attempts (limits c) \<le> bi_attempts snap then ([], c)
          else let backoff = block_sync_backoff_views (bi_attempts snap)
                               (block_sync_initial_backoff_views (limits c))
                               (block_sync_max_backoff_views (limits c));
                   elapsed = saturating_sub (current_view (state c)) (bi_last_asked_view snap) in
            if elapsed < backoff then ([], c) else ask_again parent snap reason c)"

definition run_block_sync_retry_tick_for_parent ::
  "hash256 \<Rightarrow> hotstuff_core \<Rightarrow> action list \<times> hotstuff_core" where
  "run_block_sync_retry_tick_for_parent parent c =
     (case hm_get (block_sync_inflight c) parent of
        None \<Rightarrow> ([], c)
      | Some snap \<Rightarrow>
          if block_sync_max_attempts (limits c) \<le> bi_attempts snap
          then ([], drop_parked_for_parent parent c)
          else ask_again parent snap RetryTimerTick c)"

definition run_block_sync_retry_for_parent ::
  "hash256 \<Rightarrow> hotstuff_core \<Rightarrow> action list \<times> hotstuff_core" where
  "run_block_sync_retry_for_parent parent c =
     (case hm_get (block_sync_inflight c) parent of
        None \<Rightarrow> ([], c)
      | Some snap \<Rightarrow>
          if block_sync_max_attempts (limits c) \<le> bi_attempts snap
          then ([], drop_parked_for_parent parent c)
          else try_emit_block_sync_retry parent (bi_original_sender snap) (bi_expected_height snap)
                 StillParkedOnPacemakerAdvance c)"

text \<open>A loop that appends the actions of its body.\<close>

fun extend_each :: "('x \<Rightarrow> hotstuff_core \<Rightarrow> action list \<times> hotstuff_core) \<Rightarrow> 'x list
    \<Rightarrow> hotstuff_core \<Rightarrow> action list \<times> hotstuff_core" where
  "extend_each f [] c = ([], c)"
| "extend_each f (x # xs) c =
     (let (as, c1) = f x c; (bs, c2) = extend_each f xs c1 in (as @ bs, c2))"

definition step_block_sync_retry_tick :: "hotstuff_core \<Rightarrow> action list \<times> hotstuff_core" where
  "step_block_sync_retry_tick c =
     extend_each run_block_sync_retry_tick_for_parent (btree_set (map fst (block_sync_inflight c))) c"

section \<open>Proposing\<close>

definition build_proposal_at_view :: "view \<Rightarrow> hotstuff_core \<Rightarrow> action list" where
  "build_proposal_at_view v c =
     (if v \<le> proposed_in_view c then []
      else (case high_qc (state c) of
          None \<Rightarrow> []
        | Some qc \<Rightarrow> (case hm_get (pending_blocks (state c)) (qc_block_hash qc) of
            None \<Rightarrow> []
          | Some parent \<Rightarrow> [BuildProposal v qc parent])))"

definition become_leader :: "view \<Rightarrow> hotstuff_core \<Rightarrow> action list" where
  "become_leader v c = build_proposal_at_view v c"

definition proposal_built ::
  "view \<Rightarrow> block \<Rightarrow> quorum_certificate \<Rightarrow> hotstuff_core \<Rightarrow> action list \<times> hotstuff_core" where
  "proposal_built v b qc c =
     ([Persist (ProposedInView v), Broadcast (ProposalMsg \<lparr> p_block = b, p_justify = qc \<rparr>)],
      c\<lparr> proposed_in_view := v \<rparr>)"

definition try_propose_as_leader :: "view \<Rightarrow> hotstuff_core \<Rightarrow> action list option" where
  "try_propose_as_leader v c =
     do { vs_at \<leftarrow> set_at (validator_history (state c)) v;
          leader \<leftarrow> round_robin_leader (for_view vs_at v) v;
          Some (if leader \<noteq> self_id c then [] else build_proposal_at_view v c) }"

section \<open>Handlers\<close>

definition check_proposal_dedupe ::
  "view \<Rightarrow> validator_id \<Rightarrow> hash256 \<Rightarrow> hotstuff_core \<Rightarrow> action option \<times> hotstuff_core" where
  "check_proposal_dedupe v leader h c =
     (case hm_get (proposal_dedupe c) (v, leader) of
        None \<Rightarrow> (None, c\<lparr> proposal_dedupe := hm_insert (v, leader) h (proposal_dedupe c) \<rparr>)
      | Some a \<Rightarrow>
          if a = h then (None, c) else (Some (ProposalEquivocationEvidence leader v a h), c))"

text \<open>The branch of \<open>on_proposal_received\<close> whose parent is unknown.\<close>

definition park_proposal ::
  "hash_prims \<Rightarrow> proposal signed \<Rightarrow> hotstuff_core \<Rightarrow> action list \<times> hotstuff_core" where
  "park_proposal hp sp c =
     (let b = p_block (payload sp); child = block_hash_of hp b;
          c1 = (if hm_contains (parked_proposals c) child then c else evict_parked_to_fit_one c);
          c2 = c1\<lparr> parked_proposals := hm_insert child sp (parked_proposals c1) \<rparr> in
      try_emit_block_sync_retry (parent_hash (header b)) (signer sp)
        (saturating_sub (hdr_height (header b)) 1) UnknownParentOnProposal c2)"

text \<open>The voting part: the vote to broadcast, if any, with its persist actions.\<close>

definition vote_on_proposal ::
  "hash_prims \<Rightarrow> proposal \<Rightarrow> hotstuff_state \<Rightarrow> vote option \<times> action list \<times> hotstuff_state" where
  "vote_on_proposal hp p s =
     (if safe_to_vote hp p s then
        let v = hdr_view (header (p_block p));
            s1 = s\<lparr> last_voted_view := v \<rparr>;
            upd = should_update_high_qc (p_justify p) s1;
            s2 = (if upd then s1\<lparr> high_qc := Some (p_justify p) \<rparr> else s1);
            as = Persist (VotedInView v) # (if upd then [Persist (HighQcUpdate (p_justify p))] else []) in
        (Some \<lparr> v_view = v, v_block_hash = block_hash_of hp (p_block p) \<rparr>, as, s2)
      else (None, [], s))"

text \<open>The two-chain lock candidate: the grandparent of the proposed block.\<close>

definition two_chain_candidate :: "hash256 \<Rightarrow> hotstuff_state \<Rightarrow> locked option" where
  "two_chain_candidate parent s =
     (case hm_get (pending_blocks s) parent of
        None \<Rightarrow> None
      | Some b'' \<Rightarrow> (case hm_get (pending_blocks s) (parent_hash (header b'')) of
          None \<Rightarrow> None
        | Some b' \<Rightarrow> Some \<lparr> l_view = hdr_view (header b'), l_height = hdr_height (header b'),
                             l_block_hash = parent_hash (header b'') \<rparr>))"

definition update_lock :: "hash256 \<Rightarrow> hotstuff_state \<Rightarrow> action list \<times> hotstuff_state" where
  "update_lock parent s =
     (case two_chain_candidate parent s of
        None \<Rightarrow> ([], s)
      | Some cand \<Rightarrow>
          let cur = (case hs_locked s of Some l \<Rightarrow> l_height l | None \<Rightarrow> 0) in
          if l_height cand > cur
          then ([Persist (LockedUpdate cand)], s\<lparr> hs_locked := Some cand \<rparr>)
          else ([], s))"

definition commit_on_justify :: "quorum_certificate \<Rightarrow> hotstuff_state \<Rightarrow> action list \<times> hotstuff_state" where
  "commit_on_justify qc s =
     (case three_chain_commit qc s of
        None \<Rightarrow> ([], s)
      | Some b \<Rightarrow>
          ([Commit b],
           s\<lparr> pending_blocks :=
                hm_retain (\<lambda>_ x. hdr_height (header x) > hdr_height (header b)) (pending_blocks s) \<rparr>))"

definition on_proposal_received ::
  "hash_prims \<Rightarrow> proposal signed \<Rightarrow> hotstuff_core \<Rightarrow> action list \<times> hotstuff_core" where
  "on_proposal_received hp sp c =
     (let p = payload sp; parent = parent_hash (header (p_block p)) in
      if \<not> hm_contains (pending_blocks (state c)) parent then park_proposal hp sp c
      else
        let c1 = c\<lparr> block_sync_inflight := hm_remove (block_hash_of hp (p_block p)) (block_sync_inflight c) \<rparr>;
            s1 = insert_pending hp (p_block p) (state c1);
            (vote, as1, s2) = vote_on_proposal hp p s1;
            (as2, s3) = update_lock parent s2;
            as3 = (case vote of Some v \<Rightarrow> [Broadcast (VoteMsg v)] | None \<Rightarrow> []);
            (as4, s4) = commit_on_justify (p_justify p) s3 in
        (as1 @ as2 @ as3 @ as4, c1\<lparr> state := s4 \<rparr>))"

text \<open>Adding one vote to its bucket: the certificate before and after, and whether
  it reaches the quorum with this vote.\<close>

definition bucket_vote ::
  "('g1, 'g2) hs_env \<Rightarrow> vote \<Rightarrow> validator_set \<Rightarrow> nat \<Rightarrow> bls_sig \<Rightarrow> hotstuff_core
     \<Rightarrow> (bool \<times> quorum_certificate \<times> hotstuff_core) option" where
  "bucket_vote env v vs idx partial c =
     (let key = (v_view v, v_block_hash v);
          c1 = (if hm_contains (vote_bucket c) key then c else evict_vote_buckets_to_fit_one c) in
      do { qc \<leftarrow> (case hm_get (vote_bucket c1) key of
                    Some q \<Rightarrow> Some q
                  | None \<Rightarrow> qc_new (v_view v) (v_block_hash v) (vs_len vs));
           had \<leftarrow> has_quorum qc vs;
           qc' \<leftarrow> add_bls_partial (env_bls env) qc idx partial;
           now \<leftarrow> has_quorum qc' vs;
           Some (\<not> had \<and> now, qc', c1\<lparr> vote_bucket := hm_insert key qc' (vote_bucket c1) \<rparr>) })"

text \<open>The rest of \<open>on_vote_received\<close> once the vote is known not to conflict.\<close>

definition on_counted_vote ::
  "('g1, 'g2) hs_env \<Rightarrow> vote \<Rightarrow> validator_set \<Rightarrow> nat \<Rightarrow> bls_sig \<Rightarrow> view \<Rightarrow> hotstuff_core
     \<Rightarrow> (action list \<times> hotstuff_core) option" where
  "on_counted_vote env v vs idx partial next_view c =
     do { (formed, qc, c1) \<leftarrow> bucket_vote env v vs idx partial c;
          if \<not> formed then Some ([], c1)
          else
            let (as1, c2) =
                  (if should_update_high_qc qc (state c1)
                   then ([Persist (HighQcUpdate qc)], c1\<lparr> state := (state c1)\<lparr> high_qc := Some qc \<rparr> \<rparr>)
                   else ([], c1)) in
            do { as2 \<leftarrow> try_propose_as_leader next_view c2;
                 Some (as1 @ as2, c2) } }"

definition on_vote_received ::
  "('g1, 'g2) hs_env \<Rightarrow> vote_variant \<Rightarrow> hotstuff_core \<Rightarrow> (action list \<times> hotstuff_core) option" where
  "on_vote_received env vv c =
     (let v = payload (vrf_value (vv_signed vv));
          voter = vrf_signer (vv_signed vv);
          next_view = v_view v + 1 in
      do { vs_at \<leftarrow> set_at (validator_history (state c)) (v_view v);
           let vs = for_view vs_at (v_view v);
           case index_of vs voter of
             None \<Rightarrow> Some ([], c)
           | Some idx \<Rightarrow>
              (case hm_get (vote_dedupe c) (v_view v, voter) of
                 Some a \<Rightarrow>
                   if a \<noteq> v_block_hash v
                   then Some ([EquivocationEvidence voter (v_view v) a (v_block_hash v)], c)
                   else on_counted_vote env v vs idx (vv_partial vv) next_view c
               | None \<Rightarrow> on_counted_vote env v vs idx (vv_partial vv) next_view
                   (c\<lparr> vote_dedupe := hm_insert (v_view v, voter) (v_block_hash v) (vote_dedupe c) \<rparr>)) })"

definition on_new_view_received :: "new_view signed \<Rightarrow> hotstuff_core \<Rightarrow> action list \<times> hotstuff_core" where
  "on_new_view_received sn c =
     (let qc = nv_high_qc (payload sn) in
      if \<not> should_update_high_qc qc (state c) then ([], c)
      else
        let c1 = c\<lparr> state := (state c)\<lparr> high_qc := Some qc \<rparr> \<rparr>;
            (as, c2) = (if \<not> hm_contains (pending_blocks (state c1)) (qc_block_hash qc)
                        then try_emit_block_sync_retry (qc_block_hash qc) (signer sn) 0
                               UnknownHighQcOnNewView c1
                        else ([], c1)) in
        (Persist (HighQcUpdate qc) # as, c2))"

text \<open>The body of the loop over the parked proposals that became ready.\<close>

definition replay_parked :: "hash_prims \<Rightarrow> hash256 \<Rightarrow> hotstuff_core \<Rightarrow> action list \<times> hotstuff_core" where
  "replay_parked hp child c =
     (case hm_get (parked_proposals c) child of
        None \<Rightarrow> ([], c)
      | Some sp \<Rightarrow>
          on_proposal_received hp sp
            (c\<lparr> parked_proposals := hm_remove child (parked_proposals c),
                block_sync_inflight :=
                  hm_remove (parent_hash (header (p_block (payload sp)))) (block_sync_inflight c) \<rparr>))"

definition ready_parked :: "(hash256 list \<Rightarrow> hash256 list) \<Rightarrow> hotstuff_core \<Rightarrow> hash256 list" where
  "ready_parked order c =
     filter (\<lambda>h. case hm_get (parked_proposals c) h of
                   None \<Rightarrow> False
                 | Some sp \<Rightarrow> hm_contains (pending_blocks (state c)) (parent_hash (header (p_block (payload sp)))))
       (order (map fst (parked_proposals c)))"

definition parents_to_retry :: "hotstuff_core \<Rightarrow> hash256 list" where
  "parents_to_retry c =
     btree_set
       (map (\<lambda>(_, sp). parent_hash (header (p_block (payload sp)))) (parked_proposals c)
        @ (case high_qc (state c) of
             None \<Rightarrow> []
           | Some qc \<Rightarrow> if hm_contains (pending_blocks (state c)) (qc_block_hash qc) then []
                        else [qc_block_hash qc]))"

definition on_pacemaker_advance ::
  "('g1, 'g2) hs_env \<Rightarrow> view \<Rightarrow> hotstuff_core \<Rightarrow> (action list \<times> hotstuff_core) option" where
  "on_pacemaker_advance env v c =
     (let c1 = c\<lparr> state := (state c)\<lparr> current_view := v \<rparr> \<rparr> in
      do { active_at \<leftarrow> set_at (validator_history (state c1)) v;
           let active = for_view active_at v;
           let c2 = (if active \<noteq> hs_validator_set (state c1)
                     then c1\<lparr> state := (state c1)\<lparr> hs_validator_set := active \<rparr> \<rparr> else c1);
           let c3 = evict_vote_buckets_below v c2;
           let (as1, c4) = extend_each (replay_parked (env_hash env)) (ready_parked (env_order env) c3) c3;
           let (as2, c5) = extend_each run_block_sync_retry_for_parent (parents_to_retry c4) c4;
           let as3 = (case high_qc (state c5) of
                        None \<Rightarrow> []
                      | Some qc \<Rightarrow> [Broadcast (NewViewMsg \<lparr> nv_high_qc = qc \<rparr>)]);
           as4 \<leftarrow> try_propose_as_leader v c5;
           Some (as1 @ as2 @ as3 @ as4, c5) })"

definition on_proposal_event ::
  "hash_prims \<Rightarrow> proposal signed verified \<Rightarrow> hotstuff_core \<Rightarrow> action list \<times> hotstuff_core" where
  "on_proposal_event hp vp c =
     (let sp = vrf_value vp; b = p_block (payload sp);
          (ev, c1) = check_proposal_dedupe (hdr_view (header b)) (vrf_signer vp) (block_hash_of hp b) c;
          (as, c2) = on_proposal_received hp sp c1 in
      ((case ev of Some a \<Rightarrow> [a] | None \<Rightarrow> []) @ as, c2))"

definition step :: "('g1, 'g2) hs_env \<Rightarrow> hotstuff_core \<Rightarrow> event \<Rightarrow> (action list \<times> hotstuff_core) option" where
  "step env c e =
     (case e of
        ProposalReceived vp \<Rightarrow> Some (on_proposal_event (env_hash env) vp c)
      | VoteReceived vv \<Rightarrow> on_vote_received env vv c
      | NewViewReceived vn \<Rightarrow> Some (on_new_view_received (vrf_value vn) c)
      | PacemakerAdvance v \<Rightarrow> on_pacemaker_advance env v c)"

text \<open>\<open>replay\<close>: the actions of every event in turn.\<close>

fun replay :: "('g1, 'g2) hs_env \<Rightarrow> hotstuff_core \<Rightarrow> event list \<Rightarrow> action list list option" where
  "replay env c [] = Some []"
| "replay env c (e # es) =
     do { (as, c') \<leftarrow> step env c e; rest \<leftarrow> replay env c' es; Some (as # rest) }"

text \<open>The debug assertion of \<open>step\<close>: no lock is persisted after a vote has been
  broadcast in the same output.\<close>

fun lock_durable_before_vote :: "bool \<Rightarrow> action list \<Rightarrow> bool" where
  "lock_durable_before_vote seen [] = True"
| "lock_durable_before_vote seen (Broadcast (VoteMsg v) # as) = lock_durable_before_vote True as"
| "lock_durable_before_vote seen (Persist (LockedUpdate l) # as) =
     (\<not> seen \<and> lock_durable_before_vote seen as)"
| "lock_durable_before_vote seen (_ # as) = lock_durable_before_vote seen as"

text \<open>\<open>step\<close> above is the function of a release build. A build with debug assertions checks
  the order of lock and vote on the output and panics when it is wrong.\<close>

definition step_build ::
  "bool \<Rightarrow> ('g1, 'g2) hs_env \<Rightarrow> hotstuff_core \<Rightarrow> event \<Rightarrow> (action list \<times> hotstuff_core) option" where
  "step_build debug env c e =
     (case step env c e of
        None \<Rightarrow> None
      | Some (as, c') \<Rightarrow> if debug \<and> \<not> lock_durable_before_vote False as then None else Some (as, c'))"

end
