(* ===== verification/Instance.thy ===== *)
theory Instance
  imports Hotstuff_Step
begin

text \<open>
  A concrete instance of the parameters (hash, encodings, pairing library, map
  order) and of a four-validator network, on which the definitions evaluate.
  The properties with hypotheses are applied to it to show that their
  hypotheses can hold.
\<close>

definition demo_hash :: hash_prims where
  "demo_hash =
     \<lparr> sha256 = (\<lambda>bs. case bs of [] \<Rightarrow> 0 | b # _ \<Rightarrow> ucast b),
       pc_header = (\<lambda>h. [ucast (hdr_view h) + 1]),
       pc_commands = (\<lambda>cs. [of_nat (length cs)]) \<rparr>"

definition demo_bls :: "(bls_pk, bls_sig) bls_prims" where
  "demo_bls =
     \<lparr> sig_from_bytes = Some, sig_to_bytes = (\<lambda>g. g), pk_from_bytes = Some,
       agg_add = (\<lambda>a b. Some (a + b)),
       sig_verify = (\<lambda>sg m dst pk. sg = ucast pk),
       fast_aggregate_verify = (\<lambda>sg m dst pks. sg = sum_list (map ucast pks)) \<rparr>"

definition demo_env :: "(bls_pk, bls_sig) hs_env" where
  "demo_env = \<lparr> env_hash = demo_hash, env_bls = demo_bls, env_order = (\<lambda>xs. xs) \<rparr>"

definition demo_vs :: validator_set where
  "demo_vs = \<lparr> members = [10, 20, 30, 40], weights = [1, 1, 1, 1] \<rparr>"

definition demo_block :: "hash256 \<Rightarrow> height \<Rightarrow> view \<Rightarrow> block" where
  "demo_block parent h v =
     \<lparr> header =
         \<lparr> parent_hash = parent, hdr_height = h, hdr_view = v, proposer = 10,
           state_commitment = 0, commands_commitment = 0, validator_history_commitment = 0,
           committed_height = 0, committed_state_root = 0, timestamp = 0 \<rparr>,
       commands = [] \<rparr>"

definition demo_qc :: "view \<Rightarrow> hash256 \<Rightarrow> quorum_certificate" where
  "demo_qc v h =
     \<lparr> qc_view = v, qc_block_hash = h, qc_signers = \<lparr> bm_bits = [7], bm_len = 4 \<rparr>,
       qc_sigs = BlsAggregatedSig 60 \<rparr>"

definition demo_signed :: "hash256 \<Rightarrow> height \<Rightarrow> view \<Rightarrow> proposal signed" where
  "demo_signed parent h v =
     \<lparr> payload = \<lparr> p_block = demo_block parent h v, p_justify = demo_qc (v - 1) parent \<rparr>,
       signer = 10, sig = 0 \<rparr>"

definition demo_proposal :: "hash256 \<Rightarrow> height \<Rightarrow> view \<Rightarrow> event" where
  "demo_proposal parent h v =
     ProposalReceived \<lparr> vrf_value = demo_signed parent h v, vrf_signer = 10 \<rparr>"

definition demo_vote :: "view \<Rightarrow> hash256 \<Rightarrow> validator_id \<Rightarrow> event" where
  "demo_vote v h voter =
     VoteReceived
       \<lparr> vv_signed =
           \<lparr> vrf_value = \<lparr> payload = \<lparr> v_view = v, v_block_hash = h \<rparr>, signer = voter, sig = 0 \<rparr>,
             vrf_signer = voter \<rparr>,
         vv_partial = ucast voter \<rparr>"

definition demo_core :: hotstuff_core where
  "demo_core = core_new 20 (hs_new demo_hash demo_vs (demo_block 0 0 0))"

text \<open>The core after two proposals arrived before their ancestors: both are parked and
  both have their parent by now.\<close>

definition demo_parked_core :: hotstuff_core where
  "demo_parked_core = demo_core
     \<lparr> state := (state demo_core)
         \<lparr> high_qc := Some (demo_qc 0 1), last_voted_view := 1,
           pending_blocks := [(1, demo_block 0 0 0), (2, demo_block 1 1 1), (3, demo_block 2 2 2)] \<rparr>,
       proposal_dedupe := [((2, 10), 3), ((3, 10), 4), ((1, 10), 2)],
       parked_proposals := [(3, demo_signed 2 2 2), (4, demo_signed 3 3 3)] \<rparr>"

text \<open>The definitions to unfold when evaluating the instance.\<close>

lemmas demo_eval = demo_env_def demo_hash_def demo_bls_def demo_vs_def demo_block_def demo_qc_def
  demo_proposal_def demo_signed_def demo_vote_def demo_core_def core_new_def hs_new_def with_limits_def
  set_pending_blocks_limit_def unbounded_for_tests_def USIZE_MAX_def block_hash_of_def header_hash_def
  vh_from_genesis_def default_counters_def

lemmas step_eval = step_def on_proposal_event_def check_proposal_dedupe_def on_proposal_received_def
  park_proposal_def try_emit_block_sync_retry_def hm_contains_def insert_pending_def
  evict_pending_to_fit_one_def evict_parked_to_fit_one_def vote_on_proposal_def safe_to_vote_def
  should_update_high_qc_def update_lock_def two_chain_candidate_def commit_on_justify_def
  three_chain_commit_def hm_retain_def extends_block_def extends_loop.simps insert_pending_block_def

lemmas pacemaker_eval = on_pacemaker_advance_def set_at_def binary_search_def bsearch.simps for_view_def
  evict_vote_buckets_below_def ready_parked_def replay_parked_def parents_to_retry_def btree_set_def
  run_block_sync_retry_for_parent_def try_propose_as_leader_def round_robin_leader_def vs_len_def vs_get_def
  build_proposal_at_view_def upd_counters_def inc_vote_bucket_def

lemma bit_positions: "[0..<8] = [0, 1, 2, 3, 4, 5, 6, 7 :: nat]"
  by (simp add: upt_rec)

lemmas vote_eval = bit_positions Let_def on_vote_received_def on_counted_vote_def bucket_vote_def index_of_def
  evict_vote_buckets_to_fit_one_def qc_new_def bm_new_def div_ceil8_def empty_aggregate_def
  BLS_EMPTY_AGGREGATE_SENTINEL_def has_quorum_def signer_weight_def signer_indices_def bm_iter_set_def
  bm_byte_indices_def bm_length_def total_weight_def weight_at_def add_bls_partial_def bm_get_def
  add_partial_def bm_set_def saturating_add_def saturating_mul_def

end
