(* ===== verification/Hotstuff_Safety.thy ===== *)
theory Hotstuff_Safety
  imports Instance
begin

text \<open>
  Safety of a single replica: over any sequence of calls into the core, its votes
  strictly increase in view, every vote is made durable before it is
  broadcast, its lock and its high QC never go back, a lock is persisted before
  the vote of the same proposal leaves, and a committed block heads a
  three-chain of consecutive views.
\<close>

section \<open>Calls into the core\<close>

text \<open>The public mutating operations of \<open>HotStuffCore\<close>, as the node's event loop
  issues them. \<open>set_high_qc\<close> is not among them: the node calls it only in its builder, before
  the loop starts.\<close>

datatype core_call =
    HandleEvent event
  | RetryTick
  | BecomeLeader view
  | ProposalBuilt view block quorum_certificate
  | InsertPendingBlock block
  | InsertBoundary view validator_set
  | AdoptSnapshot block verified_qc view

definition core_exec ::
  "('g1, 'g2) hs_env \<Rightarrow> hotstuff_core \<Rightarrow> core_call \<Rightarrow> (action list \<times> hotstuff_core) option" where
  "core_exec env c call =
     (case call of
        HandleEvent e \<Rightarrow> step env c e
      | RetryTick \<Rightarrow> Some (step_block_sync_retry_tick c)
      | BecomeLeader v \<Rightarrow> Some (become_leader v c, c)
      | ProposalBuilt v b qc \<Rightarrow> Some (proposal_built v b qc c)
      | InsertPendingBlock b \<Rightarrow> Some ([], insert_pending_block (env_hash env) c b)
      | InsertBoundary v vs \<Rightarrow>
          (case insert_validator_boundary c v vs of Inl _ \<Rightarrow> Some ([], c) | Inr c' \<Rightarrow> Some ([], c'))
      | AdoptSnapshot b qc v \<Rightarrow> Some (adopt_snapshot (env_hash env) c b qc v))"

section \<open>Frames\<close>

definition same_state :: "hotstuff_core \<Rightarrow> hotstuff_core \<Rightarrow> bool" where
  "same_state c c' \<longleftrightarrow>
     (state c')\<lparr> hs_counters := default_counters \<rparr> = (state c)\<lparr> hs_counters := default_counters \<rparr>"

lemma same_state_fields:
  assumes "same_state c c'"
  shows "current_view (state c') = current_view (state c)"
    and "hs_locked (state c') = hs_locked (state c)"
    and "high_qc (state c') = high_qc (state c)"
    and "last_voted_view (state c') = last_voted_view (state c)"
    and "hs_validator_set (state c') = hs_validator_set (state c)"
    and "validator_history (state c') = validator_history (state c)"
    and "pending_blocks (state c') = pending_blocks (state c)"
    and "genesis_hash (state c') = genesis_hash (state c)"
    and "pending_blocks_capacity (state c') = pending_blocks_capacity (state c)"
  using assms by (cases "state c"; cases "state c'"; simp add: same_state_def)+

lemma same_state_refl [simp, intro]: "same_state c c"
  by (simp add: same_state_def)

lemma same_state_trans [trans]: "same_state a b \<Longrightarrow> same_state b c \<Longrightarrow> same_state a c"
  by (simp add: same_state_def)

lemma same_stateI: "state c' = state c \<Longrightarrow> same_state c c'"
  by (simp add: same_state_def)

lemma same_state_upd_counters: "same_state c (upd_counters f c)"
  by (simp add: same_state_def upd_counters_def)

fun is_request :: "action \<Rightarrow> bool" where
  "is_request (RequestBlock _ _ _ _) = True"
| "is_request _ = False"

text \<open>Operations that only issue block requests and leave the replica state alone.\<close>

definition sync_only :: "hotstuff_core \<Rightarrow> action list \<times> hotstuff_core \<Rightarrow> bool" where
  "sync_only c r \<longleftrightarrow> same_state c (snd r) \<and> list_all is_request (fst r)"

lemma sync_only_Nil [simp]: "sync_only c ([], c') \<longleftrightarrow> same_state c c'"
  by (simp add: sync_only_def)

lemma sync_only_ask_again: "sync_only c (ask_again parent snap r c)"
  by (simp add: sync_only_def ask_again_def Let_def same_state_def)

lemma sync_only_try_emit: "sync_only c (try_emit_block_sync_retry parent snd_id ht r c)"
  using sync_only_ask_again
  by (auto simp: try_emit_block_sync_retry_def Let_def sync_only_def same_state_def split: option.splits)

lemma same_state_drop_parked: "same_state c (drop_parked_for_parent parent c)"
  by (simp add: drop_parked_for_parent_def Let_def upd_counters_def same_state_def)

lemma sync_only_tick: "sync_only c (run_block_sync_retry_tick_for_parent parent c)"
  using sync_only_ask_again same_state_drop_parked
  by (simp add: run_block_sync_retry_tick_for_parent_def split: option.splits)

lemma sync_only_retry: "sync_only c (run_block_sync_retry_for_parent parent c)"
  using sync_only_try_emit same_state_drop_parked
  by (simp add: run_block_sync_retry_for_parent_def split: option.splits)

lemma sync_only_extend_each:
  assumes "\<And>x c. sync_only c (f x c)"
  shows "sync_only c (extend_each f xs c)"
proof (induction xs arbitrary: c)
  case (Cons x xs)
  have "sync_only c (f x c)" "sync_only (snd (f x c)) (extend_each f xs (snd (f x c)))"
    using assms Cons by blast+
  then show ?case
    by (auto simp: sync_only_def Let_def split: prod.splits intro: same_state_trans)
qed simp

lemma same_state_evict_parked: "same_state c (evict_parked_to_fit_one c)"
  by (auto simp: evict_parked_to_fit_one_def upd_counters_def same_state_def split: option.splits prod.splits)

lemma same_state_evict_buckets: "same_state c (evict_vote_buckets_to_fit_one c)"
  by (auto simp: evict_vote_buckets_to_fit_one_def upd_counters_def same_state_def split: option.splits)

lemma same_state_evict_below: "same_state c (evict_vote_buckets_below v c)"
  by (simp add: evict_vote_buckets_below_def Let_def upd_counters_def same_state_def)

lemma sync_only_park: "sync_only c (park_proposal hp sp c)"
proof -
  let ?c1 = "if hm_contains (parked_proposals c) (block_hash_of hp (p_block (payload sp))) then c
     else evict_parked_to_fit_one c"
  have "same_state c ?c1" using same_state_evict_parked by simp
  also have "same_state ?c1 (?c1\<lparr> parked_proposals := m \<rparr>)" for m by (simp add: same_state_def)
  finally show ?thesis
    using sync_only_try_emit same_state_trans unfolding park_proposal_def Let_def sync_only_def by blast
qed

lemma same_state_dedupe: "same_state c (snd (check_proposal_dedupe v l h c))"
  by (simp add: check_proposal_dedupe_def same_state_def split: option.splits)

section \<open>Votes\<close>

fun vote_in :: "action \<Rightarrow> vote option" where
  "vote_in (Broadcast (VoteMsg v)) = Some v"
| "vote_in _ = None"

definition votes_of :: "action list \<Rightarrow> vote list" where
  "votes_of as = List.map_filter vote_in as"

lemma votes_of_simps [simp]:
  "votes_of [] = []"
  "votes_of (a # as) = (case vote_in a of Some v \<Rightarrow> v # votes_of as | None \<Rightarrow> votes_of as)"
  "votes_of (as @ bs) = votes_of as @ votes_of bs"
  by (auto simp: votes_of_def map_filter_simps split: option.splits)
     (induction as; auto simp: map_filter_simps split: option.splits)

lemma votes_of_requests: "list_all is_request as \<Longrightarrow> votes_of as = []"
proof (induction as)
  case (Cons a as)
  then show ?case by (cases a) auto
qed simp

definition vote_prog :: "hotstuff_core \<Rightarrow> action list \<Rightarrow> hotstuff_core \<Rightarrow> bool" where
  "vote_prog c as c' \<longleftrightarrow>
     sorted_wrt (<) (last_voted_view (state c) # map v_view (votes_of as))
     \<and> (\<forall>v \<in> set (votes_of as). v_view v \<le> last_voted_view (state c'))
     \<and> last_voted_view (state c) \<le> last_voted_view (state c')"

lemma vote_prog_refl: "vote_prog c [] c"
  by (simp add: vote_prog_def)

lemma vote_prog_trans:
  assumes "vote_prog c as d" and "vote_prog d bs e"
  shows "vote_prog c (as @ bs) e"
  using assms unfolding vote_prog_def by (auto simp: sorted_wrt_append) (meson le_less_trans order_trans)+

lemma vote_prog_quiet:
  "last_voted_view (state c) \<le> last_voted_view (state c') \<Longrightarrow> votes_of as = [] \<Longrightarrow> vote_prog c as c'"
  by (simp add: vote_prog_def)

lemma vote_prog_sync: "sync_only c (as, c') \<Longrightarrow> vote_prog c as c'"
  by (rule vote_prog_quiet) (auto simp: sync_only_def same_state_fields votes_of_requests)

lemma vote_prog_extend_each:
  assumes "\<And>x c. vote_prog c (fst (f x c)) (snd (f x c))"
  shows "vote_prog c (fst (extend_each f xs c)) (snd (extend_each f xs c))"
proof (induction xs arbitrary: c)
  case (Cons x xs)
  show ?case using vote_prog_trans[OF assms Cons] by (simp add: case_prod_beta Let_def)
qed (simp add: vote_prog_refl)

lemma update_lock_frame:
  assumes "update_lock parent s = (as, s')"
  shows "votes_of as = []" "last_voted_view s' = last_voted_view s" "high_qc s' = high_qc s"
    "pending_blocks s' = pending_blocks s" "validator_history s' = validator_history s"
    "current_view s' = current_view s"
  using assms by (auto simp: update_lock_def Let_def split: option.splits if_splits)

lemma commit_on_justify_frame:
  assumes "commit_on_justify qc s = (as, s')"
  shows "votes_of as = []" "last_voted_view s' = last_voted_view s" "high_qc s' = high_qc s"
    "hs_locked s' = hs_locked s" "validator_history s' = validator_history s"
    "current_view s' = current_view s"
  using assms by (auto simp: commit_on_justify_def split: option.splits)

text \<open>The shape of \<open>on_proposal_received\<close>: parked, or processed in four phases.\<close>

lemma on_proposal_received_cases:
  obtains (parked) "\<not> hm_contains (pending_blocks (state c)) (parent_hash (header (p_block (payload sp))))"
      "on_proposal_received hp sp c = park_proposal hp sp c"
    | (processed) vote as1 s2 as2 s3 as4 s4 where
      "hm_contains (pending_blocks (state c)) (parent_hash (header (p_block (payload sp))))"
      "vote_on_proposal hp (payload sp) (insert_pending hp (p_block (payload sp)) (state c)) = (vote, as1, s2)"
      "update_lock (parent_hash (header (p_block (payload sp)))) s2 = (as2, s3)"
      "commit_on_justify (p_justify (payload sp)) s3 = (as4, s4)"
      "on_proposal_received hp sp c =
        (as1 @ as2 @ (case vote of Some v \<Rightarrow> [Broadcast (VoteMsg v)] | None \<Rightarrow> []) @ as4,
         c\<lparr> block_sync_inflight := hm_remove (block_hash_of hp (p_block (payload sp))) (block_sync_inflight c),
            state := s4 \<rparr>)"
proof (cases "hm_contains (pending_blocks (state c)) (parent_hash (header (p_block (payload sp))))")
  case False
  then show ?thesis using parked by (simp add: on_proposal_received_def Let_def)
next
  case True
  let ?p = "payload sp"
  obtain vote as1 s2 where
    1: "vote_on_proposal hp ?p (insert_pending hp (p_block ?p) (state c)) = (vote, as1, s2)"
    by (metis prod_cases3)
  obtain as2 s3 where 2: "update_lock (parent_hash (header (p_block ?p))) s2 = (as2, s3)"
    by (metis surj_pair)
  obtain as4 s4 where 3: "commit_on_justify (p_justify ?p) s3 = (as4, s4)" by (metis surj_pair)
  show ?thesis
    by (rule processed[OF True 1 2 3]) (use True 1 2 3 in \<open>simp add: on_proposal_received_def Let_def\<close>)
qed

lemma vote_on_proposal_cases:
  assumes "vote_on_proposal hp p s = (vote, as, s')"
  obtains (no_vote) "\<not> safe_to_vote hp p s" "vote = None" "as = []" "s' = s"
    | (voted) w qcs where "safe_to_vote hp p s"
      "vote = Some \<lparr> v_view = w, v_block_hash = block_hash_of hp (p_block p) \<rparr>"
      "w = hdr_view (header (p_block p))" "as = Persist (VotedInView w) # map (\<lambda>q. Persist (HighQcUpdate q)) qcs"
      "last_voted_view s' = w" "pending_blocks s' = pending_blocks s" "hs_locked s' = hs_locked s"
      "qcs = (if should_update_high_qc (p_justify p) s then [p_justify p] else [])"
      "high_qc s' = (if should_update_high_qc (p_justify p) s then Some (p_justify p) else high_qc s)"
      "validator_history s' = validator_history s" "current_view s' = current_view s"
proof (cases "safe_to_vote hp p s")
  case False
  then show ?thesis using no_vote assms by (simp add: vote_on_proposal_def)
next
  case True
  have "should_update_high_qc (p_justify p) (s\<lparr> last_voted_view := w \<rparr>) = should_update_high_qc (p_justify p) s" for w
    by (simp add: should_update_high_qc_def)
  then show ?thesis
    using assms True
      voted[of "hdr_view (header (p_block p))" "if should_update_high_qc (p_justify p) s then [p_justify p] else []"]
    by (auto simp: vote_on_proposal_def Let_def split: if_splits)
qed

lemma safe_to_vote_view: "safe_to_vote hp p s \<Longrightarrow> last_voted_view s < hdr_view (header (p_block p))"
  by (auto simp: safe_to_vote_def not_le split: if_splits)

lemma votes_of_persist [simp]: "votes_of (map (\<lambda>q. Persist (f q)) qs) = []"
  by (induction qs) auto

lemma vote_prog_proposal:
  "vote_prog c (fst (on_proposal_received hp sp c)) (snd (on_proposal_received hp sp c))"
proof (cases rule: on_proposal_received_cases[of c sp hp])
  case parked
  then show ?thesis using vote_prog_sync[of c] sync_only_park[of c hp sp] by simp
next
  case (processed vote as1 s2 as2 s3 as4 s4)
  have lv: "last_voted_view s4 = last_voted_view s2" "votes_of as2 = []" "votes_of as4 = []"
    using update_lock_frame[OF processed(3)] commit_on_justify_frame[OF processed(4)] by auto
  from processed(2) show ?thesis
  proof (cases rule: vote_on_proposal_cases)
    case no_vote
    then show ?thesis using processed(5) lv by (simp add: vote_prog_def)
  next
    case (voted w qcs)
    have "last_voted_view (state c) < w" using safe_to_vote_view[OF voted(1)] voted(3) by simp
    then show ?thesis using processed(5) lv voted(2,4,5) by (simp add: vote_prog_def)
  qed
qed

lemma vote_prog_replay_parked:
  "vote_prog c (fst (replay_parked hp h c)) (snd (replay_parked hp h c))"
proof (cases "hm_get (parked_proposals c) h")
  case (Some sp)
  then show ?thesis
    using vote_prog_proposal[of "c\<lparr> parked_proposals := hm_remove h (parked_proposals c),
        block_sync_inflight := hm_remove (parent_hash (header (p_block (payload sp)))) (block_sync_inflight c) \<rparr>" hp sp]
    by (simp add: replay_parked_def vote_prog_def)
qed (simp add: replay_parked_def vote_prog_refl)

lemma build_proposal_quiet: "votes_of (build_proposal_at_view v c) = []"
  by (simp add: build_proposal_at_view_def split: option.splits)

lemma try_propose_quiet: "try_propose_as_leader v c = Some as \<Longrightarrow> votes_of as = []"
  by (auto simp: try_propose_as_leader_def bind_eq_Some_conv build_proposal_quiet split: if_splits)

text \<open>Counting a vote changes at most the high QC of the replica state.\<close>

definition quorum_frame :: "hotstuff_core \<Rightarrow> hotstuff_core \<Rightarrow> bool" where
  "quorum_frame c c' \<longleftrightarrow>
     same_state (c\<lparr> state := (state c)\<lparr> high_qc := None \<rparr> \<rparr>) (c'\<lparr> state := (state c')\<lparr> high_qc := None \<rparr> \<rparr>)"

lemma quorum_frame_fields:
  assumes "quorum_frame c c'"
  shows "last_voted_view (state c') = last_voted_view (state c)"
    and "hs_locked (state c') = hs_locked (state c)"
    and "pending_blocks (state c') = pending_blocks (state c)"
    and "validator_history (state c') = validator_history (state c)"
    and "current_view (state c') = current_view (state c)"
  using same_state_fields[OF assms[unfolded quorum_frame_def]] by simp_all

lemma same_quorum_frame: "same_state c c' \<Longrightarrow> quorum_frame c c'"
  unfolding quorum_frame_def same_state_def by (cases "state c"; cases "state c'"; simp)

lemma bucket_vote_frame:
  assumes "bucket_vote env v vs idx partial c = Some (formed, qc, c')"
  shows "same_state c c'" "vote_dedupe c' = vote_dedupe c" "limits c' = limits c"
  using assms same_state_evict_buckets[of c]
  by (auto simp: bucket_vote_def Let_def bind_eq_Some_conv same_state_def upd_counters_def
      evict_vote_buckets_to_fit_one_def split: if_splits option.splits)

lemma on_counted_vote_cases:
  assumes "on_counted_vote env v vs idx partial nv c = Some (as, c')"
  obtains (waiting) qc where "bucket_vote env v vs idx partial c = Some (False, qc, c')" "as = []"
    | (formed) qc c1 as2 where "bucket_vote env v vs idx partial c = Some (True, qc, c1)"
      "try_propose_as_leader nv c' = Some as2"
      "as = (if should_update_high_qc qc (state c1) then [Persist (HighQcUpdate qc)] else []) @ as2"
      "c' = (if should_update_high_qc qc (state c1) then c1\<lparr> state := (state c1)\<lparr> high_qc := Some qc \<rparr> \<rparr> else c1)"
proof -
  obtain f qc c1 where b: "bucket_vote env v vs idx partial c = Some (f, qc, c1)"
    using assms by (auto simp: on_counted_vote_def bind_eq_Some_conv)
  show thesis
  proof (cases f)
    case False
    then show thesis using waiting b assms by (simp add: on_counted_vote_def)
  next
    case True
    let ?u = "should_update_high_qc qc (state c1)"
    let ?c2 = "if ?u then c1\<lparr> state := (state c1)\<lparr> high_qc := Some qc \<rparr> \<rparr> else c1"
    have "on_counted_vote env v vs idx partial nv c =
      do { as2 \<leftarrow> try_propose_as_leader nv ?c2;
           Some ((if ?u then [Persist (HighQcUpdate qc)] else []) @ as2, ?c2) }"
      using b True by (simp add: on_counted_vote_def)
    then have "do { as2 \<leftarrow> try_propose_as_leader nv ?c2;
           Some ((if ?u then [Persist (HighQcUpdate qc)] else []) @ as2, ?c2) } = Some (as, c')"
      using assms by metis
    then obtain as2 where as2: "try_propose_as_leader nv ?c2 = Some as2" "c' = ?c2"
      "as = (if ?u then [Persist (HighQcUpdate qc)] else []) @ as2"
      unfolding bind_eq_Some_conv by blast
    show thesis by (rule formed[of qc c1 as2]) (use b True as2 in simp_all)
  qed
qed

lemma on_counted_vote_frame:
  assumes "on_counted_vote env v vs idx partial nv c = Some (as, c')"
  shows "quorum_frame c c' \<and> votes_of as = []"
  using assms
proof (cases rule: on_counted_vote_cases)
  case (waiting qc)
  then show ?thesis using same_quorum_frame[OF bucket_vote_frame(1)[OF waiting(1)]] by simp
next
  case (formed qc c1 as2)
  have "quorum_frame c c1" using bucket_vote_frame[OF formed(1)] same_quorum_frame by blast
  then have "quorum_frame c c'" using formed(4) by (simp add: quorum_frame_def)
  then show ?thesis using formed(2,3) try_propose_quiet by simp
qed

lemma on_vote_received_cases:
  assumes "on_vote_received env vv c = Some (as, c')"
  obtains (stranger) "as = []" "c' = c"
    | (conflict) a where "c' = c"
      "hm_get (vote_dedupe c) (v_view (payload (vrf_value (vv_signed vv))), vrf_signer (vv_signed vv)) = Some a"
      "a \<noteq> v_block_hash (payload (vrf_value (vv_signed vv)))"
      "as = [EquivocationEvidence (vrf_signer (vv_signed vv)) (v_view (payload (vrf_value (vv_signed vv)))) a
              (v_block_hash (payload (vrf_value (vv_signed vv))))]"
    | (counted) v voter vs idx c0 where "v = payload (vrf_value (vv_signed vv))"
      "voter = vrf_signer (vv_signed vv)"
      "set_for (validator_history (state c)) (v_view v) = Some vs" "index_of vs voter = Some idx"
      "hm_get (vote_dedupe c) (v_view v, voter) \<in> {None, Some (v_block_hash v)}"
      "c0 = c\<lparr> vote_dedupe := hm_insert (v_view v, voter) (v_block_hash v) (vote_dedupe c) \<rparr>
        \<or> (c0 = c \<and> hm_get (vote_dedupe c) (v_view v, voter) = Some (v_block_hash v))"
      "on_counted_vote env v vs idx (vv_partial vv) (v_view v + 1) c0 = Some (as, c')"
proof -
  let ?v = "payload (vrf_value (vv_signed vv))" and ?w = "vrf_signer (vv_signed vv)"
  obtain a where a: "set_at (validator_history (state c)) (v_view ?v) = Some a"
    using assms by (auto simp: on_vote_received_def Let_def bind_eq_Some_conv)
  let ?vs = "for_view a (v_view ?v)"
  have vs: "set_for (validator_history (state c)) (v_view ?v) = Some ?vs" using a by (simp add: set_for_def)
  show thesis
  proof (cases "index_of ?vs ?w")
    case None
    then show thesis using stranger assms a by (simp add: on_vote_received_def Let_def)
  next
    case (Some idx)
    show thesis
    proof (cases "hm_get (vote_dedupe c) (v_view ?v, ?w)")
      case None
      then show thesis using counted[OF refl refl vs Some] assms a Some
        by (simp add: on_vote_received_def Let_def)
    next
      case (Some h)
      then show thesis
        using counted[OF refl refl vs \<open>index_of ?vs ?w = Some idx\<close>] conflict assms a \<open>index_of ?vs ?w = Some idx\<close>
        by (auto simp: on_vote_received_def Let_def split: if_splits)
    qed
  qed
qed

lemma on_vote_received_frame:
  assumes "on_vote_received env vv c = Some (as, c')"
  shows "quorum_frame c c' \<and> votes_of as = []"
  using assms
proof (cases rule: on_vote_received_cases)
  case (counted v voter vs idx c0)
  have "state c0 = state c" using counted(6) by auto
  then show ?thesis using on_counted_vote_frame[OF counted(7)]
    by (simp add: quorum_frame_def same_state_def)
qed (auto intro: same_quorum_frame)

lemma on_new_view_frame:
  assumes "on_new_view_received sn c = (as, c')"
  shows "quorum_frame c c' \<and> votes_of as = []"
proof (cases "should_update_high_qc (nv_high_qc (payload sn)) (state c)")
  case False
  then show ?thesis using assms by (auto simp: on_new_view_received_def same_quorum_frame)
next
  case True
  let ?qc = "nv_high_qc (payload sn)" and ?c1 = "c\<lparr> state := (state c)\<lparr> high_qc := Some (nv_high_qc (payload sn)) \<rparr> \<rparr>"
  obtain bs where bs: "sync_only ?c1 (bs, c')" "as = Persist (HighQcUpdate ?qc) # bs"
    using assms True sync_only_try_emit[of ?c1 "qc_block_hash ?qc" "signer sn" 0 UnknownHighQcOnNewView]
    by (auto simp: on_new_view_received_def Let_def split: if_splits prod.splits)
  have "quorum_frame ?c1 c'" using bs(1) same_quorum_frame by (simp add: sync_only_def)
  then have "quorum_frame c c'" by (simp add: quorum_frame_def same_state_def)
  then show ?thesis using bs votes_of_requests by (simp add: sync_only_def)
qed

text \<open>The shape of \<open>on_pacemaker_advance\<close>: enter the view, replay the ready proposals,
  then only synchronise, announce the high QC and possibly propose.\<close>

definition enter_view :: "view \<Rightarrow> validator_set \<Rightarrow> hotstuff_core \<Rightarrow> hotstuff_core" where
  "enter_view v active c =
     evict_vote_buckets_below v (c\<lparr> state := (state c)\<lparr> current_view := v, hs_validator_set := active \<rparr> \<rparr>)"

lemma on_pacemaker_advance_cases:
  assumes "on_pacemaker_advance env v c = Some (as, c')"
  obtains active as1 c4 as2 as3 as4 where
    "set_for (validator_history (state c)) v = Some active"
    "extend_each (replay_parked (env_hash env)) (ready_parked (env_order env) (enter_view v active c))
       (enter_view v active c) = (as1, c4)"
    "extend_each run_block_sync_retry_for_parent (parents_to_retry c4) c4 = (as2, c')"
    "sync_only c4 (as2, c')" "try_propose_as_leader v c' = Some as4" "as = as1 @ as2 @ as3 @ as4"
    "as3 = (case high_qc (state c') of None \<Rightarrow> [] | Some qc \<Rightarrow> [Broadcast (NewViewMsg \<lparr> nv_high_qc = qc \<rparr>)])"
proof -
  let ?c1 = "c\<lparr> state := (state c)\<lparr> current_view := v \<rparr> \<rparr>"
  obtain a where a: "set_at (validator_history (state c)) v = Some a"
    using assms by (auto simp: on_pacemaker_advance_def Let_def bind_eq_Some_conv)
  let ?act = "for_view a v"
  obtain as1 c4 where 1: "extend_each (replay_parked (env_hash env))
      (ready_parked (env_order env) (enter_view v ?act c)) (enter_view v ?act c) = (as1, c4)"
    by (metis surj_pair)
  obtain as2 c5 where 2: "extend_each run_block_sync_retry_for_parent (parents_to_retry c4) c4 = (as2, c5)"
    by (metis surj_pair)
  have sync: "sync_only c4 (as2, c5)" 
    using sync_only_extend_each[where f = run_block_sync_retry_for_parent, OF sync_only_retry,
        of c4 "parents_to_retry c4"] 2 by simp
  have vs: "set_for (validator_history (state c)) v = Some ?act" using a by (simp add: set_for_def)
  have "on_pacemaker_advance env v c =
    do { as4 \<leftarrow> try_propose_as_leader v c5;
         Some (as1 @ as2 @ (case high_qc (state c5) of None \<Rightarrow> []
            | Some qc \<Rightarrow> [Broadcast (NewViewMsg \<lparr> nv_high_qc = qc \<rparr>)]) @ as4, c5) }"
  proof (cases "?act = hs_validator_set (state c)")
    case True
    then have "enter_view v ?act c = evict_vote_buckets_below v ?c1"
      unfolding enter_view_def by (cases c; cases "state c"; simp)
    then show ?thesis using a 1 2 True by (simp add: on_pacemaker_advance_def Let_def)
  next
    case False
    then show ?thesis using a 1 2 by (simp add: on_pacemaker_advance_def Let_def enter_view_def)
  qed
  then obtain as4 where "try_propose_as_leader v c5 = Some as4" "c' = c5"
    "as = as1 @ as2 @ (case high_qc (state c5) of None \<Rightarrow> []
            | Some qc \<Rightarrow> [Broadcast (NewViewMsg \<lparr> nv_high_qc = qc \<rparr>)]) @ as4"
    using assms by (cases "try_propose_as_leader v c5") auto
  then show thesis using that[OF vs 1] 2 sync by blast
qed

lemma enter_view_frame:
  "last_voted_view (state (enter_view v a c)) = last_voted_view (state c)"
  "hs_locked (state (enter_view v a c)) = hs_locked (state c)"
  "high_qc (state (enter_view v a c)) = high_qc (state c)"
  "pending_blocks (state (enter_view v a c)) = pending_blocks (state c)"
  "validator_history (state (enter_view v a c)) = validator_history (state c)"
  "current_view (state (enter_view v a c)) = v"
  using same_state_fields[OF same_state_evict_below[of "c\<lparr> state := (state c)\<lparr> current_view := v, hs_validator_set := a \<rparr> \<rparr>" v]]
  by (simp_all add: enter_view_def)

lemma vote_prog_pacemaker:
  assumes "on_pacemaker_advance env v c = Some (as, c')"
  shows "vote_prog c as c'"
  using assms
proof (cases rule: on_pacemaker_advance_cases)
  case (1 active as1 c4 as2 as3 as4)
  have "vote_prog (enter_view v active c) as1 c4"
    using vote_prog_extend_each[where f = "replay_parked (env_hash env)", OF vote_prog_replay_parked,
        of "enter_view v active c" "ready_parked (env_order env) (enter_view v active c)"] 1(2) by simp
  then have "vote_prog c as1 c4" by (simp add: vote_prog_def enter_view_frame)
  moreover have "vote_prog c4 as2 c'" using 1(4) by (rule vote_prog_sync)
  moreover have "vote_prog c' (as3 @ as4) c'"
    using try_propose_quiet[OF 1(5)] 1(7) by (intro vote_prog_quiet) (auto split: option.splits)
  ultimately show ?thesis using 1(6) vote_prog_trans by blast
qed

lemma vote_prog_step:
  assumes "step env c e = Some (as, c')"
  shows "vote_prog c as c'"
proof (cases e)
  case (ProposalReceived vp)
  let ?c1 = "snd (check_proposal_dedupe (hdr_view (header (p_block (payload (vrf_value vp)))))
      (vrf_signer vp) (block_hash_of (env_hash env) (p_block (payload (vrf_value vp)))) c)"
  have "same_state c ?c1" by (rule same_state_dedupe)
  then have lv: "last_voted_view (state ?c1) = last_voted_view (state c)" by (rule same_state_fields)
  have as: "votes_of as = votes_of (fst (on_proposal_received (env_hash env) (vrf_value vp) ?c1))"
    "c' = snd (on_proposal_received (env_hash env) (vrf_value vp) ?c1)"
    using assms ProposalReceived
    by (auto simp: step_def on_proposal_event_def Let_def check_proposal_dedupe_def
        split: prod.splits option.splits if_splits)
  show ?thesis using vote_prog_proposal[of ?c1 "env_hash env" "vrf_value vp"] as lv
    by (simp add: vote_prog_def)
next
  case (VoteReceived vv)
  then have "quorum_frame c c' \<and> votes_of as = []"
    using assms on_vote_received_frame by (simp add: step_def)
  then show ?thesis using quorum_frame_fields by (intro vote_prog_quiet) auto
next
  case (NewViewReceived vn)
  then have "quorum_frame c c' \<and> votes_of as = []"
    using assms on_new_view_frame by (simp add: step_def)
  then show ?thesis using quorum_frame_fields by (intro vote_prog_quiet) auto
next
  case (PacemakerAdvance v)
  then show ?thesis using assms vote_prog_pacemaker by (simp add: step_def)
qed

lemma sync_only_step_tick: "sync_only c (step_block_sync_retry_tick c)"
  unfolding step_block_sync_retry_tick_def by (rule sync_only_extend_each) (rule sync_only_tick)

lemma call_quiet:
  assumes "core_exec env c call = Some (as, c')" and "\<And>e. call \<noteq> HandleEvent e"
  shows "votes_of as = []"
proof (cases call)
  case RetryTick
  then show ?thesis using assms(1) sync_only_step_tick[of c]
    by (simp add: core_exec_def sync_only_def votes_of_requests)
next
  case (BecomeLeader v)
  then show ?thesis using assms(1) by (auto simp: core_exec_def become_leader_def build_proposal_quiet)
qed (use assms in \<open>auto simp: core_exec_def proposal_built_def adopt_snapshot_def
    insert_validator_boundary_def Let_def split: sum.splits if_splits\<close>)

lemma vote_prog_exec:
  assumes "core_exec env c call = Some (as, c')"
  shows "vote_prog c as c'"
proof (cases call)
  case (HandleEvent e)
  then show ?thesis using assms vote_prog_step by (simp add: core_exec_def)
next
  case RetryTick
  then show ?thesis using assms sync_only_step_tick[of c] by (intro vote_prog_sync) (simp add: core_exec_def)
next
  case (BecomeLeader v)
  then show ?thesis using assms
    by (intro vote_prog_quiet) (auto simp: core_exec_def become_leader_def build_proposal_quiet)
next
  case (ProposalBuilt v b qc)
  then show ?thesis using assms by (intro vote_prog_quiet) (auto simp: core_exec_def proposal_built_def)
next
  case (InsertPendingBlock b)
  then show ?thesis using assms
    by (intro vote_prog_quiet) (auto simp: core_exec_def insert_pending_block_def)
next
  case (InsertBoundary v vs)
  then show ?thesis using assms
    by (intro vote_prog_quiet)
       (auto simp: core_exec_def insert_validator_boundary_def Let_def split: sum.splits if_splits)
next
  case (AdoptSnapshot b qc v)
  then show ?thesis using assms
    by (intro vote_prog_quiet) (auto simp: core_exec_def adopt_snapshot_def Let_def split: if_splits)
qed

interpretation votes: progress "core_exec env" "\<lambda>_. True" vote_prog for env
  by unfold_locales (auto intro: vote_prog_exec vote_prog_refl vote_prog_trans)

text \<open>Proposing and view changes cannot panic while the set in force is not empty.\<close>

lemma try_propose_total:
  assumes "set_for (validator_history (state c)) v = Some vs" and "vs_len vs \<noteq> 0"
  shows "\<exists>as. try_propose_as_leader v c = Some as"
proof -
  obtain a where "set_at (validator_history (state c)) v = Some a" "for_view a v = vs"
    using assms(1) by (auto simp: set_for_def)
  moreover have "unat v mod vs_len vs < length (members vs)" using assms(2) by (simp add: vs_len_def)
  ultimately show ?thesis using assms(2)
    by (simp add: try_propose_as_leader_def round_robin_leader_def vs_get_def)
qed

section \<open>Durability of votes\<close>

text \<open>Scanning an action list from the front: every broadcast vote must have had its
  view persisted before it.\<close>

fun votes_durable :: "view list \<Rightarrow> action list \<Rightarrow> bool" where
  "votes_durable ps [] = True"
| "votes_durable ps (Persist (VotedInView v) # as) = votes_durable (v # ps) as"
| "votes_durable ps (Broadcast (VoteMsg w) # as) = (v_view w \<in> set ps \<and> votes_durable ps as)"
| "votes_durable ps (_ # as) = votes_durable ps as"

lemma votes_durable_mono: "votes_durable ps as \<Longrightarrow> set ps \<subseteq> set qs \<Longrightarrow> votes_durable qs as"
proof (induction ps as arbitrary: qs rule: votes_durable.induct)
  case (2 ps v as)
  have "votes_durable (v # qs) as" by (rule "2.IH") (use "2.prems" in auto)
  then show ?case by simp
qed auto

lemma votes_durable_append:
  "votes_durable ps as \<Longrightarrow> votes_durable [] bs \<Longrightarrow> votes_durable ps (as @ bs)"
  by (induction ps as rule: votes_durable.induct) (auto intro: votes_durable_mono)

lemma votes_durable_no_votes: "votes_of as = [] \<Longrightarrow> votes_durable ps as"
proof (induction as arbitrary: ps)
  case (Cons a as)
  then show ?case
    by (cases "(ps, a # as)" rule: votes_durable.cases) (auto split: option.splits)
qed simp

lemma votes_durable_extend_each:
  assumes "\<And>x c. votes_durable [] (fst (f x c))"
  shows "votes_durable [] (fst (extend_each f xs c))"
proof (induction xs arbitrary: c)
  case (Cons x xs)
  show ?case using votes_durable_append[OF assms Cons] by (simp add: case_prod_beta Let_def)
qed simp

lemma votes_durable_proposal: "votes_durable [] (fst (on_proposal_received hp sp c))"
proof (cases rule: on_proposal_received_cases[of c sp hp])
  case parked
  then show ?thesis using sync_only_park[of c hp sp]
    by (simp add: sync_only_def votes_durable_no_votes votes_of_requests)
next
  case (processed vote as1 s2 as2 s3 as4 s4)
  have q: "votes_of as2 = []" "votes_of as4 = []"
    using update_lock_frame[OF processed(3)] commit_on_justify_frame[OF processed(4)] by auto
  from processed(2) show ?thesis
  proof (cases rule: vote_on_proposal_cases)
    case no_vote
    then show ?thesis using processed(5) q by (simp add: votes_durable_no_votes)
  next
    case (voted w qcs)
    have mid: "votes_durable [w] (bs @ Broadcast (VoteMsg x) # as4)"
      if "votes_of bs = []" "v_view x = w" for bs x
    proof -
      have "votes_durable ps (bs @ Broadcast (VoteMsg x) # as4)" if "w \<in> set ps" for ps
        using that \<open>votes_of bs = []\<close>
      proof (induction bs arbitrary: ps)
        case Nil
        then show ?case using \<open>v_view x = w\<close> q by (simp add: votes_durable_no_votes)
      next
        case (Cons b bs)
        then show ?case
          by (cases "(ps, b # bs)" rule: votes_durable.cases) (auto split: option.splits)
      qed
      then show ?thesis by simp
    qed
    show ?thesis using processed(5) voted(2,4) q mid[of "map (\<lambda>q. Persist (HighQcUpdate q)) qcs @ as2"]
      by simp
  qed
qed

lemma votes_durable_exec:
  assumes "core_exec env c call = Some (as, c')"
  shows "votes_durable [] as"
proof (cases "\<exists>e. call = HandleEvent e")
  case False
  then have "votes_of as = []" using assms call_quiet by blast
  then show ?thesis by (rule votes_durable_no_votes)
next
  case True
  then obtain e where e: "step env c e = Some (as, c')" using assms by (auto simp: core_exec_def)
  show ?thesis
  proof (cases e)
    case (ProposalReceived vp)
    then show ?thesis using e votes_durable_proposal[of "env_hash env" "vrf_value vp"]
      by (auto simp: step_def on_proposal_event_def Let_def check_proposal_dedupe_def
          split: prod.splits option.splits if_splits) (metis fst_conv)+
  next
    case (VoteReceived vv)
    then have "votes_of as = []" using e on_vote_received_frame[of env vv c] by (simp add: step_def)
    then show ?thesis by (rule votes_durable_no_votes)
  next
    case (NewViewReceived vn)
    then have "votes_of as = []" using e on_new_view_frame[of "vrf_value vn" c] by (simp add: step_def)
    then show ?thesis by (rule votes_durable_no_votes)
  next
    case (PacemakerAdvance v)
    then have "on_pacemaker_advance env v c = Some (as, c')" using e by (simp add: step_def)
    then show ?thesis
    proof (cases rule: on_pacemaker_advance_cases)
      case (1 active as1 c4 as2 as3 as4)
      have r: "votes_durable [] (fst (replay_parked (env_hash env) h d))" for h d
        by (simp add: replay_parked_def votes_durable_proposal split: option.splits)
      have "votes_durable [] as1"
        using votes_durable_extend_each[where f = "replay_parked (env_hash env)", OF r,
          of "ready_parked (env_order env) (enter_view v active c)" "enter_view v active c"] 1(2) by simp
      moreover have "votes_of (as2 @ as3 @ as4) = []"
        using 1(4,7) try_propose_quiet[OF 1(5)]
        by (auto simp: sync_only_def votes_of_requests split: option.splits)
      ultimately show ?thesis using 1(6) votes_durable_append votes_durable_no_votes by blast
    qed
  qed
qed

interpretation durable: progress "core_exec env" "\<lambda>_. True" "\<lambda>_ as _. votes_durable [] as" for env
  by unfold_locales (auto intro: votes_durable_exec votes_durable_append)

text \<open>C1: over any sequence of calls into the core (events, retry ticks, proposals
  built, synchronised blocks, validator boundaries, adopted snapshots), the views
  of the votes it broadcasts strictly increase, starting above the last voted
  view it had. In particular a replica votes at most once in a view.\<close>

theorem votes_strictly_increase:
  assumes "run (core_exec env) c calls = Some (as, c')"
  shows "sorted_wrt (<) (last_voted_view (state c) # map v_view (votes_of as))
    \<and> distinct (map v_view (votes_of as))
    \<and> last (last_voted_view (state c) # map v_view (votes_of as)) \<le> last_voted_view (state c')"
proof -
  have p: "vote_prog c as c'" using votes.run_progress[OF TrueI assms] .
  then have s: "sorted_wrt (<) (last_voted_view (state c) # map v_view (votes_of as))"
    by (simp add: vote_prog_def)
  then have "distinct (map v_view (votes_of as))" by (simp add: strict_sorted_iff)
  moreover have "last (last_voted_view (state c) # map v_view (votes_of as)) \<le> last_voted_view (state c')"
    using p by (cases "votes_of as" rule: rev_cases) (auto simp: vote_prog_def)
  ultimately show ?thesis using s by blast
qed

theorem votes_strictly_increase_witness:
  "\<exists>as c'. run (core_exec demo_env) demo_core
      [HandleEvent (demo_proposal 1 1 1), HandleEvent (demo_proposal 2 2 2)] = Some (as, c')
    \<and> map v_view (votes_of as) = [1, 2] \<and> sorted_wrt (<) (0 # map v_view (votes_of as))"
proof -
  have "map_option (\<lambda>(as, _). map v_view (votes_of as)) (run (core_exec demo_env) demo_core
      [HandleEvent (demo_proposal 1 1 1), HandleEvent (demo_proposal 2 2 2)]) = Some [1, 2]"
    by (simp add: demo_eval step_eval core_exec_def)
  then obtain as c' where r: "run (core_exec demo_env) demo_core
      [HandleEvent (demo_proposal 1 1 1), HandleEvent (demo_proposal 2 2 2)] = Some (as, c')"
    "map v_view (votes_of as) = [1, 2]" by auto
  moreover have "last_voted_view (state demo_core) = 0" by (simp add: demo_eval)
  ultimately show ?thesis using votes_strictly_increase[OF r(1)] by auto
qed

text \<open>C2: every vote a replica broadcasts, over any sequence of calls, comes after the
  durable record of its view in the same stream of actions, so that a restart
  never forgets a vote that left the node.\<close>

theorem votes_persisted_before_broadcast:
  assumes "run (core_exec env) c calls = Some (as, c')"
  shows "votes_durable [] as"
  using durable.run_progress[OF TrueI assms] .

theorem votes_persisted_before_broadcast_witness:
  "\<exists>as c'. run (core_exec demo_env) demo_core [HandleEvent (demo_proposal 1 1 1)] = Some (as, c')
    \<and> length (votes_of as) = 1 \<and> votes_durable [] as"
proof -
  have "map_option (\<lambda>(as, _). length (votes_of as))
      (run (core_exec demo_env) demo_core [HandleEvent (demo_proposal 1 1 1)]) = Some 1"
    by (simp add: demo_eval step_eval core_exec_def)
  then obtain as c' where r: "run (core_exec demo_env) demo_core [HandleEvent (demo_proposal 1 1 1)] = Some (as, c')"
    "length (votes_of as) = 1" by auto
  then show ?thesis using votes_persisted_before_broadcast[OF r(1)] by blast
qed

section \<open>Locks and high certificates never go back\<close>

definition lock_le :: "locked option \<Rightarrow> locked option \<Rightarrow> bool" where
  "lock_le l l' \<longleftrightarrow> (case l of None \<Rightarrow> True | Some a \<Rightarrow> (case l' of None \<Rightarrow> False | Some b \<Rightarrow> l_height a \<le> l_height b))"

definition qc_le :: "verified_qc option \<Rightarrow> verified_qc option \<Rightarrow> bool" where
  "qc_le q q' \<longleftrightarrow> (case q of None \<Rightarrow> True | Some a \<Rightarrow> (case q' of None \<Rightarrow> False | Some b \<Rightarrow> qc_view a \<le> qc_view b))"

definition mono_state :: "hotstuff_state \<Rightarrow> hotstuff_state \<Rightarrow> bool" where
  "mono_state s s' \<longleftrightarrow> lock_le (hs_locked s) (hs_locked s') \<and> qc_le (high_qc s) (high_qc s')
     \<and> last_voted_view s \<le> last_voted_view s' \<and> validator_history s' = validator_history s"

lemma lock_le_refl [simp]: "lock_le l l"
  by (simp add: lock_le_def split: option.splits)

lemma qc_le_refl [simp]: "qc_le q q"
  by (simp add: qc_le_def split: option.splits)

lemma mono_state_refl [simp]: "mono_state s s"
  by (simp add: mono_state_def)

lemma mono_state_trans: "mono_state s t \<Longrightarrow> mono_state t u \<Longrightarrow> mono_state s u"
  by (auto simp: mono_state_def lock_le_def qc_le_def split: option.splits)

lemma mono_state_same: "same_state c c' \<Longrightarrow> mono_state (state c) (state c')"
  using mono_state_refl[of "state c"] by (simp add: mono_state_def same_state_fields)

lemma mono_high_qc: "should_update_high_qc qc s \<Longrightarrow> qc_le (high_qc s) (Some qc)"
  by (auto simp: should_update_high_qc_def qc_le_def split: option.splits)

lemma mono_vote:
  assumes "vote_on_proposal hp p s = (vote, as, s')"
  shows "mono_state s s'"
  using assms
proof (cases rule: vote_on_proposal_cases)
  case (voted w qcs)
  have "last_voted_view s \<le> w" using safe_to_vote_view[OF voted(1)] voted(3) by simp
  then show ?thesis using voted mono_state_refl[of s] mono_high_qc[of "p_justify p" s]
    by (auto simp: mono_state_def)
qed simp

lemma mono_lock:
  assumes "update_lock parent s = (as, s')"
  shows "mono_state s s'"
  using assms mono_state_refl[of s]
  by (auto simp: update_lock_def Let_def mono_state_def lock_le_def split: option.splits if_splits)

lemma mono_commit:
  assumes "commit_on_justify qc s = (as, s')"
  shows "mono_state s s'"
  using commit_on_justify_frame[OF assms] mono_state_refl[of s] by (simp add: mono_state_def)

lemma mono_proposal: "mono_state (state c) (state (snd (on_proposal_received hp sp c)))"
proof (cases rule: on_proposal_received_cases[of c sp hp])
  case parked
  then show ?thesis using sync_only_park[of c hp sp] mono_state_same by (simp add: sync_only_def)
next
  case (processed vote as1 s2 as2 s3 as4 s4)
  have "mono_state (state c) (insert_pending hp (p_block (payload sp)) (state c))"
    using mono_state_refl[of "state c"] by (simp add: mono_state_def)
  then have "mono_state (state c) s4"
    using mono_vote[OF processed(2)] mono_lock[OF processed(3)] mono_commit[OF processed(4)]
      mono_state_trans by blast
  then show ?thesis using processed(5) by simp
qed

lemma mono_extend_each:
  assumes "\<And>x c. mono_state (state c) (state (snd (f x c)))"
  shows "mono_state (state c) (state (snd (extend_each f xs c)))"
proof (induction xs arbitrary: c)
  case (Cons x xs)
  show ?case using mono_state_trans[OF assms Cons] by (simp add: case_prod_beta Let_def)
qed simp

lemma mono_replay_parked: "mono_state (state c) (state (snd (replay_parked hp h c)))"
proof (cases "hm_get (parked_proposals c) h")
  case (Some sp)
  then show ?thesis
    using mono_proposal[of "c\<lparr> parked_proposals := hm_remove h (parked_proposals c),
        block_sync_inflight := hm_remove (parent_hash (header (p_block (payload sp)))) (block_sync_inflight c) \<rparr>" hp sp]
    by (simp add: replay_parked_def)
qed (simp add: replay_parked_def)

lemma mono_counted:
  assumes "on_counted_vote env v vs idx partial nv c = Some (as, c')"
  shows "mono_state (state c) (state c')"
  using assms
proof (cases rule: on_counted_vote_cases)
  case (waiting qc)
  then show ?thesis using bucket_vote_frame(1) mono_state_same by blast
next
  case (formed qc c1 as2)
  have "mono_state (state c) (state c1)" using bucket_vote_frame(1)[OF formed(1)] by (rule mono_state_same)
  moreover have "mono_state (state c1) (state c')"
    using formed(4) mono_high_qc[of qc "state c1"] mono_state_refl[of "state c1"]
    by (auto simp: mono_state_def)
  ultimately show ?thesis by (rule mono_state_trans)
qed

lemma mono_step:
  assumes "step env c e = Some (as, c')"
  shows "mono_state (state c) (state c')"
proof (cases e)
  case (ProposalReceived vp)
  let ?c1 = "snd (check_proposal_dedupe (hdr_view (header (p_block (payload (vrf_value vp)))))
      (vrf_signer vp) (block_hash_of (env_hash env) (p_block (payload (vrf_value vp)))) c)"
  have "c' = snd (on_proposal_received (env_hash env) (vrf_value vp) ?c1)"
    using assms ProposalReceived
    by (simp add: step_def on_proposal_event_def Let_def case_prod_beta)
  then have "mono_state (state ?c1) (state c')"
    using mono_proposal[of ?c1 "env_hash env" "vrf_value vp"] by simp
  with mono_state_same[OF same_state_dedupe] show ?thesis by (rule mono_state_trans)
next
  case (VoteReceived vv)
  then have "on_vote_received env vv c = Some (as, c')" using assms by (simp add: step_def)
  then show ?thesis
  proof (cases rule: on_vote_received_cases)
    case (counted v voter vs idx c0)
    then have "state c0 = state c" by auto
    then show ?thesis using mono_counted[OF counted(7)] by simp
  qed simp_all
next
  case (NewViewReceived vn)
  let ?qc = "nv_high_qc (payload (vrf_value vn))" and
    ?c1 = "c\<lparr> state := (state c)\<lparr> high_qc := Some (nv_high_qc (payload (vrf_value vn))) \<rparr> \<rparr>"
  show ?thesis
  proof (cases "should_update_high_qc ?qc (state c)")
    case False
    then show ?thesis using assms NewViewReceived by (simp add: step_def on_new_view_received_def)
  next
    case True
    have "same_state ?c1 c'"
      using assms NewViewReceived True
        sync_only_try_emit[of ?c1 "qc_block_hash ?qc" "signer (vrf_value vn)" 0 UnknownHighQcOnNewView]
      by (auto simp: step_def on_new_view_received_def Let_def sync_only_def split: if_splits prod.splits)
    then have "mono_state (state ?c1) (state c')" by (rule mono_state_same)
    moreover have "mono_state (state c) (state ?c1)"
      using mono_high_qc[OF True] mono_state_refl[of "state c"] by (simp add: mono_state_def)
    ultimately show ?thesis using mono_state_trans by blast
  qed
next
  case (PacemakerAdvance v)
  then have "on_pacemaker_advance env v c = Some (as, c')" using assms by (simp add: step_def)
  then show ?thesis
  proof (cases rule: on_pacemaker_advance_cases)
    case (1 active as1 c4 as2 as3 as4)
    have "mono_state (state c) (state (enter_view v active c))"
      using mono_state_refl[of "state c"] by (simp add: mono_state_def enter_view_frame)
    moreover have "mono_state (state (enter_view v active c)) (state c4)"
      using mono_extend_each[where f = "replay_parked (env_hash env)", OF mono_replay_parked,
          of "enter_view v active c" "ready_parked (env_order env) (enter_view v active c)"] 1(2) by simp
    moreover have "mono_state (state c4) (state c')"
      using 1(4) mono_state_same by (simp add: sync_only_def)
    ultimately show ?thesis using mono_state_trans by blast
  qed
qed

lemma pacemaker_total:
  assumes "set_for (validator_history (state c)) v = Some vs" and "vs_len vs \<noteq> 0"
  shows "\<exists>as c'. on_pacemaker_advance env v c = Some (as, c')"
proof -
  obtain a where a: "set_at (validator_history (state c)) v = Some a" "for_view a v = vs"
    using assms(1) by (auto simp: set_for_def)
  let ?P = "\<lambda>d. \<exists>as c'. (let (as1, c4) = extend_each (replay_parked (env_hash env)) (ready_parked (env_order env) d) d;
      (as2, c5) = extend_each run_block_sync_retry_for_parent (parents_to_retry c4) c4;
      as3 = (case high_qc (state c5) of None \<Rightarrow> [] | Some qc \<Rightarrow> [Broadcast (NewViewMsg \<lparr> nv_high_qc = qc \<rparr>)])
      in do { as4 \<leftarrow> try_propose_as_leader v c5; Some (as1 @ as2 @ as3 @ as4, c5) }) = Some (as, c')"
  have core: "?P d" if h: "validator_history (state d) = validator_history (state c)" for d
  proof -
    obtain as1 c4 where 1: "extend_each (replay_parked (env_hash env)) (ready_parked (env_order env) d) d = (as1, c4)"
      by (metis surj_pair)
    obtain as2 c5 where 2: "extend_each run_block_sync_retry_for_parent (parents_to_retry c4) c4 = (as2, c5)"
      by (metis surj_pair)
    have "validator_history (state c4) = validator_history (state d)"
      using mono_extend_each[where f = "replay_parked (env_hash env)", OF mono_replay_parked,
          of d "ready_parked (env_order env) d"] 1 by (simp add: mono_state_def)
    moreover have "same_state c4 c5"
      using sync_only_extend_each[where f = run_block_sync_retry_for_parent, OF sync_only_retry,
          of c4 "parents_to_retry c4"] 2 by (simp add: sync_only_def)
    ultimately have "set_for (validator_history (state c5)) v = Some vs"
      using assms(1) h by (simp add: same_state_fields)
    then obtain as4 where "try_propose_as_leader v c5 = Some as4" using try_propose_total assms(2) by blast
    then show ?thesis using 1 2 by simp
  qed
  have h: "validator_history (state (evict_vote_buckets_below v d)) = validator_history (state d)" for d
    using same_state_fields(6)[OF same_state_evict_below] .
  show ?thesis
    unfolding on_pacemaker_advance_def Let_def[of "c\<lparr> state := _ \<rparr>"]
    using core[of "evict_vote_buckets_below v (c\<lparr> state := (state c)\<lparr> current_view := v \<rparr> \<rparr>)"]
      core[of "evict_vote_buckets_below v (c\<lparr> state := (state c)\<lparr> current_view := v, hs_validator_set := vs \<rparr> \<rparr>)"]
    by (cases "vs = hs_validator_set (state c)") (simp_all add: a h Let_def)
qed

interpretation monotone: progress "step env" "\<lambda>_. True" "\<lambda>c _ c'. mono_state (state c) (state c')" for env
  by unfold_locales (auto intro: mono_step mono_state_trans)

text \<open>C8: over any sequence of events the last voted view, the height of the lock and
  the view of the high certificate never decrease, a lock or a high certificate
  once present stays present, and the validator history does not change.\<close>

theorem safety_state_monotone:
  assumes "run (step env) c es = Some (as, c')"
  shows "last_voted_view (state c) \<le> last_voted_view (state c')
    \<and> lock_le (hs_locked (state c)) (hs_locked (state c'))
    \<and> qc_le (high_qc (state c)) (high_qc (state c'))
    \<and> validator_history (state c') = validator_history (state c)"
  using monotone.run_progress[OF TrueI assms] by (simp add: mono_state_def)

theorem safety_state_monotone_witness:
  "\<exists>as c'. run (step demo_env) demo_core [demo_proposal 1 1 1, demo_proposal 2 2 2, demo_proposal 3 3 3] = Some (as, c')
    \<and> last_voted_view (state c') = 3 \<and> hs_locked (state c') \<noteq> None
    \<and> qc_le (high_qc (state demo_core)) (high_qc (state c'))"
proof -
  have "map_option (\<lambda>(_, c). (last_voted_view (state c), hs_locked (state c) \<noteq> None))
     (run (step demo_env) demo_core [demo_proposal 1 1 1, demo_proposal 2 2 2, demo_proposal 3 3 3])
     = Some (3, True)"
    by (simp add: demo_eval step_eval)
  then obtain as c' where r: "run (step demo_env) demo_core
      [demo_proposal 1 1 1, demo_proposal 2 2 2, demo_proposal 3 3 3] = Some (as, c')"
    "last_voted_view (state c') = 3" "hs_locked (state c') \<noteq> None" by auto
  then show ?thesis using safety_state_monotone[OF r(1)] by blast
qed

end
