(* ===== verification/Hotstuff_Rules.thy ===== *)
theory Hotstuff_Rules
  imports Hotstuff_Safety
begin

text \<open>
  What a single proposal can make a replica do: the voting rule behind every
  vote, the three-chain behind every commit, the order of the lock and of the
  vote in the output, and the bounds of the block cache.
\<close>

section \<open>The output of one proposal event\<close>

text \<open>The proposal handler of \<open>step\<close> is \<open>on_proposal_received\<close> on a core that differs in
  the equivocation table only.\<close>

lemma step_proposal:
  assumes "step env c (ProposalReceived vp) = Some (as, c')"
  obtains c1 ev bs where "same_state c c1" "on_proposal_received (env_hash env) (vrf_value vp) c1 = (bs, c')"
    "as = ev @ bs" "ev = [] \<or> (\<exists>l v a b. ev = [ProposalEquivocationEvidence l v a b])"
proof -
  let ?b = "p_block (payload (vrf_value vp))"
  obtain ev c1 where d: "check_proposal_dedupe (hdr_view (header ?b)) (vrf_signer vp) (block_hash_of (env_hash env) ?b) c = (ev, c1)"
    by (metis surj_pair)
  obtain bs c2 where o: "on_proposal_received (env_hash env) (vrf_value vp) c1 = (bs, c2)" by (metis surj_pair)
  have "same_state c c1" using same_state_dedupe d by (metis snd_conv)
  moreover have "as = (case ev of Some a \<Rightarrow> [a] | None \<Rightarrow> []) @ bs" "c' = c2"
    using assms d o by (auto simp: step_def on_proposal_event_def Let_def)
  moreover have "ev = None \<or> (\<exists>l v a b. ev = Some (ProposalEquivocationEvidence l v a b))"
    using d by (auto simp: check_proposal_dedupe_def split: option.splits if_splits)
  ultimately show thesis using that[of c1 bs "case ev of Some a \<Rightarrow> [a] | None \<Rightarrow> []"] o by auto
qed

lemma insert_pending_counters:
  "pending_blocks (insert_pending hp b (s\<lparr> hs_counters := x \<rparr>)) = pending_blocks (insert_pending hp b s)"
proof -
  have "protected_block_hashes (s\<lparr> hs_counters := x \<rparr>) = protected_block_hashes s"
    by (simp add: protected_block_hashes_def split: option.splits)
  then have "pending_blocks (evict_pending_to_fit_one (s\<lparr> hs_counters := x \<rparr>)) = pending_blocks (evict_pending_to_fit_one s)"
    unfolding evict_pending_to_fit_one_def Let_def
    by (simp split: option.split)
  then show ?thesis by (simp add: insert_pending_def Let_def)
qed

lemma same_state_insert_pending:
  assumes "same_state c c1"
  shows "pending_blocks (insert_pending hp b (state c1)) = pending_blocks (insert_pending hp b (state c))"
  using assms insert_pending_counters unfolding same_state_def by metis

lemma update_lock_acts:
  assumes "update_lock parent s = (as, s')"
  shows "as = [] \<or> (\<exists>l. as = [Persist (LockedUpdate l)])"
  using assms by (auto simp: update_lock_def Let_def split: option.splits if_splits)

lemma commit_on_justify_acts:
  assumes "commit_on_justify qc s = (as, s')"
  shows "as = [] \<or> (\<exists>b. as = [Commit b])"
  using assms by (auto simp: commit_on_justify_def split: option.splits)

lemma requests_only: "list_all is_request as \<Longrightarrow> a \<in> set as \<Longrightarrow> is_request a"
  by (simp add: list_all_iff)

lemma proposal_vote:
  assumes "on_proposal_received hp sp c = (as, c')" and "Broadcast (VoteMsg w) \<in> set as"
  shows "w = \<lparr> v_view = hdr_view (header (p_block (payload sp))), v_block_hash = block_hash_of hp (p_block (payload sp)) \<rparr>
    \<and> safe_to_vote hp (payload sp) (insert_pending hp (p_block (payload sp)) (state c))"
proof (cases rule: on_proposal_received_cases[of c sp hp])
  case parked
  then have "list_all is_request as"
    using assms(1) sync_only_park[of c hp sp] by (metis fst_conv sync_only_def)
  then show ?thesis using assms(2) requests_only by fastforce
next
  case (processed vote as1 s2 as2 s3 as4 s4)
  have n: "Broadcast (VoteMsg w) \<notin> set as2" "Broadcast (VoteMsg w) \<notin> set as4"
    using update_lock_acts[OF processed(3)] commit_on_justify_acts[OF processed(4)] by auto
  from processed(2) show ?thesis
  proof (cases rule: vote_on_proposal_cases)
    case no_vote
    then show ?thesis using assms processed(5) n by auto
  next
    case (voted v qcs)
    then show ?thesis using assms processed(5) n by auto
  qed
qed

lemma proposal_commit:
  assumes "on_proposal_received hp sp c = (as, c')" and "Commit b \<in> set as"
  shows "\<exists>s. pending_blocks s = pending_blocks (insert_pending hp (p_block (payload sp)) (state c))
    \<and> three_chain_commit (p_justify (payload sp)) s = Some b
    \<and> pending_blocks (state c') =
        hm_retain (\<lambda>_ x. hdr_height (header x) > hdr_height (header b)) (pending_blocks s)"
proof (cases rule: on_proposal_received_cases[of c sp hp])
  case parked
  then have "list_all is_request as"
    using assms(1) sync_only_park[of c hp sp] by (metis fst_conv sync_only_def)
  then show ?thesis using assms(2) requests_only by fastforce
next
  case (processed vote as1 s2 as2 s3 as4 s4)
  have "Commit b \<notin> set as1"
    using processed(2) by (cases rule: vote_on_proposal_cases) auto
  moreover have "Commit b \<notin> set as2" using update_lock_acts[OF processed(3)] by auto
  ultimately have "Commit b \<in> set as4"
    using assms processed(5) by (auto split: option.splits)
  then have c: "three_chain_commit (p_justify (payload sp)) s3 = Some b"
    "pending_blocks s4 = hm_retain (\<lambda>_ x. hdr_height (header x) > hdr_height (header b)) (pending_blocks s3)"
    using processed(4) by (auto simp: commit_on_justify_def split: option.splits)
  have "pending_blocks s2 = pending_blocks (insert_pending hp (p_block (payload sp)) (state c))"
    using processed(2) by (cases rule: vote_on_proposal_cases) auto
  then have "pending_blocks s3 = pending_blocks (insert_pending hp (p_block (payload sp)) (state c))"
    using update_lock_frame[OF processed(3)] by simp
  then show ?thesis using c assms(1) processed(5) by (intro exI[of _ s3]) auto
qed

section \<open>Locks before votes\<close>

lemma ldbv_no_votes: "votes_of as = [] \<Longrightarrow> lock_durable_before_vote False (as @ bs) = lock_durable_before_vote False bs"
proof (induction as)
  case (Cons a as)
  then show ?case
    by (cases "(False, a # as)" rule: lock_durable_before_vote.cases) (auto split: option.splits)
qed simp

definition lock_free :: "action list \<Rightarrow> bool" where
  "lock_free as \<longleftrightarrow> (\<forall>l. Persist (LockedUpdate l) \<notin> set as)"

lemma ldbv_lock_free: "lock_free as \<Longrightarrow> lock_durable_before_vote seen as"
proof (induction as arbitrary: seen)
  case (Cons a as)
  then show ?case
    by (cases "(seen, a # as)" rule: lock_durable_before_vote.cases) (auto simp: lock_free_def)
qed simp

lemma ldbv_quiet: "votes_of as = [] \<Longrightarrow> lock_durable_before_vote False as"
  using ldbv_no_votes[of as "[]"] by simp

lemma ldbv_proposal: "lock_durable_before_vote False (fst (on_proposal_received hp sp c))"
proof (cases rule: on_proposal_received_cases[of c sp hp])
  case parked
  then show ?thesis using sync_only_park[of c hp sp]
    by (simp add: sync_only_def ldbv_quiet votes_of_requests)
next
  case (processed vote as1 s2 as2 s3 as4 s4)
  let ?v = "case vote of Some v \<Rightarrow> [Broadcast (VoteMsg v)] | None \<Rightarrow> []"
  have "votes_of as1 = []" using processed(2) by (cases rule: vote_on_proposal_cases) auto
  then have "votes_of (as1 @ as2) = []" using update_lock_frame[OF processed(3)] by simp
  moreover have "lock_free (?v @ as4)"
    using commit_on_justify_acts[OF processed(4)] by (auto simp: lock_free_def split: option.splits)
  ultimately show ?thesis using processed(5) ldbv_no_votes[of "as1 @ as2" "?v @ as4"] ldbv_lock_free by simp
qed

lemma ldbv_prefix: "lock_durable_before_vote seen (as @ bs) \<Longrightarrow> lock_durable_before_vote seen as"
  by (induction seen as rule: lock_durable_before_vote.induct) auto

section \<open>Two parked proposals\<close>

definition demo_entered_core :: hotstuff_core where
  "demo_entered_core =
     demo_parked_core\<lparr> state := (state demo_parked_core)\<lparr> current_view := 4 \<rparr>, proposal_dedupe := [] \<rparr>"

lemma demo_parked_run:
  "\<exists>as. run (core_exec demo_env) demo_core
      [HandleEvent (demo_proposal 2 2 2), HandleEvent (demo_proposal 3 3 3),
       HandleEvent (demo_proposal 1 1 1), InsertPendingBlock (demo_block 2 2 2)] = Some (as, demo_parked_core)"
  by (simp add: demo_eval step_eval core_exec_def demo_parked_core_def)

lemma demo_entered: "enter_view 4 demo_vs demo_parked_core = demo_entered_core"
  by (simp add: demo_eval demo_parked_core_def demo_entered_core_def enter_view_def pacemaker_eval hm_retain_def)

lemma demo_ready: "ready_parked (\<lambda>xs. xs) demo_entered_core = [3, 4]"
  by (simp add: demo_eval demo_entered_core_def demo_parked_core_def ready_parked_def hm_contains_def)

lemma demo_replay_order:
  "\<not> lock_durable_before_vote False (fst (extend_each (replay_parked demo_hash) [3, 4] demo_entered_core))"
  by (simp add: demo_eval step_eval demo_entered_core_def demo_parked_core_def replay_parked_def)

section \<open>Properties\<close>

text \<open>C7: a vote in the output of a proposal event is for the proposed block, at its
  view, above the last voted view, and obeys the locking rule: no lock, or the
  block descends from the locked block in the cache that includes it, or its
  justification is from a later view than the lock.\<close>

theorem vote_obeys_rule:
  assumes "step env c (ProposalReceived vp) = Some (as, c')" and "Broadcast (VoteMsg w) \<in> set as"
  shows "let b = p_block (payload (vrf_value vp)); h = block_hash_of (env_hash env) b;
             pending = pending_blocks (insert_pending (env_hash env) b (state c)) in
    v_block_hash w = h \<and> v_view w = hdr_view (header b) \<and> last_voted_view (state c) < v_view w
    \<and> (case hs_locked (state c) of None \<Rightarrow> True
       | Some l \<Rightarrow> (h, l_block_hash l) \<in> (parent_rel pending)\<^sup>*
                  \<or> l_view l < qc_view (p_justify (payload (vrf_value vp))))"
  using assms(1)
proof (cases rule: step_proposal)
  case (1 c1 ev bs)
  let ?b = "p_block (payload (vrf_value vp))" and ?hp = "env_hash env"
  have "Broadcast (VoteMsg w) \<in> set bs" using assms(2) 1(3,4) by auto
  then have w: "w = \<lparr> v_view = hdr_view (header ?b), v_block_hash = block_hash_of ?hp ?b \<rparr>"
    and safe: "safe_to_vote ?hp (payload (vrf_value vp)) (insert_pending ?hp ?b (state c1))"
    using proposal_vote[OF 1(2)] by auto
  have anc: "extends_block h a m \<Longrightarrow> (h, a) \<in> (parent_rel m)\<^sup>*" for h a m
    using extends_loop_sound by (auto simp: extends_block_def trancl_into_rtrancl split: if_splits)
  show ?thesis
    using w safe anc same_state_insert_pending[OF 1(1), of ?hp ?b] same_state_fields[OF 1(1)]
    by (auto simp: safe_to_vote_def Let_def not_le split: if_splits option.splits)
qed

theorem vote_obeys_rule_witness:
  "\<exists>as c'. step demo_env demo_core (demo_proposal 1 1 1) = Some (as, c')
    \<and> Broadcast (VoteMsg \<lparr> v_view = 1, v_block_hash = 2 \<rparr>) \<in> set as \<and> last_voted_view (state demo_core) < 1"
proof -
  have "map_option (\<lambda>(as, _). Broadcast (VoteMsg \<lparr> v_view = 1, v_block_hash = 2 \<rparr>) \<in> set as)
      (step demo_env demo_core (demo_proposal 1 1 1)) = Some True"
    by (simp add: demo_eval step_eval)
  then obtain as c' where r: "step demo_env demo_core (demo_proposal 1 1 1) = Some (as, c')"
    "Broadcast (VoteMsg \<lparr> v_view = 1, v_block_hash = 2 \<rparr>) \<in> set as" by auto
  have "last_voted_view (state demo_core) < v_view \<lparr> v_view = 1, v_block_hash = 2 \<rparr>"
    using vote_obeys_rule[OF r(1)[unfolded demo_proposal_def] r(2)] unfolding Let_def by blast
  then show ?thesis using r by auto
qed

text \<open>C4: a block is committed by a proposal event only at the tail of a three-chain of
  cached blocks with consecutive views whose head the justification certifies,
  and afterwards only blocks above the committed height stay in the cache.\<close>

theorem commit_is_three_chain:
  assumes "step env c (ProposalReceived vp) = Some (as, c')" and "Commit b1 \<in> set as"
  shows "let b = p_block (payload (vrf_value vp)); qc = p_justify (payload (vrf_value vp));
             pending = pending_blocks (insert_pending (env_hash env) b (state c)) in
    (\<exists>b2 b3. hm_get pending (qc_block_hash qc) = Some b3
       \<and> hm_get pending (parent_hash (header b3)) = Some b2
       \<and> hm_get pending (parent_hash (header b2)) = Some b1
       \<and> hdr_view (header b3) = qc_view qc \<and> hdr_view (header b3) = hdr_view (header b2) + 1
       \<and> hdr_view (header b2) = hdr_view (header b1) + 1)
    \<and> (\<forall>(h, x) \<in> set (pending_blocks (state c')). hdr_height (header b1) < hdr_height (header x))"
  using assms(1)
proof (cases rule: step_proposal)
  case (1 c1 ev bs)
  have "Commit b1 \<in> set bs" using assms(2) 1(3,4) by auto
  from proposal_commit[OF 1(2) this] obtain s where
    s: "pending_blocks s = pending_blocks (insert_pending (env_hash env) (p_block (payload (vrf_value vp))) (state c))"
      "three_chain_commit (p_justify (payload (vrf_value vp))) s = Some b1"
      "pending_blocks (state c') = hm_retain (\<lambda>_ x. hdr_height (header x) > hdr_height (header b1)) (pending_blocks s)"
    using same_state_insert_pending[OF 1(1)] by auto
  have "\<forall>(h, x) \<in> set (pending_blocks (state c')). hdr_height (header b1) < hdr_height (header x)"
    using s(3) by (auto simp: hm_retain_def)
  then show ?thesis using s(1,2) unfolding Let_def three_chain_commit_Some by auto
qed

theorem commit_is_three_chain_witness:
  "\<exists>as c'. run (step demo_env) demo_core [demo_proposal 1 1 1, demo_proposal 2 2 2, demo_proposal 3 3 3] = Some (as, c')
    \<and> (\<exists>bs d. step demo_env c' (demo_proposal 4 4 4) = Some (bs, d) \<and> Commit (demo_block 1 1 1) \<in> set bs
       \<and> (\<forall>(h, x) \<in> set (pending_blocks (state d)). 1 < hdr_height (header x)))"
proof -
  let ?es = "[demo_proposal 1 1 1, demo_proposal 2 2 2, demo_proposal 3 3 3]"
  have "map_option (\<lambda>(_, c). map_option (\<lambda>(bs, _). Commit (demo_block 1 1 1) \<in> set bs)
      (step demo_env c (demo_proposal 4 4 4))) (run (step demo_env) demo_core ?es) = Some (Some True)"
    by (simp add: demo_eval step_eval)
  then obtain as c' bs d where r: "run (step demo_env) demo_core ?es = Some (as, c')"
    "step demo_env c' (demo_proposal 4 4 4) = Some (bs, d)" "Commit (demo_block 1 1 1) \<in> set bs" by auto
  have "\<forall>(h, x) \<in> set (pending_blocks (state d)). hdr_height (header (demo_block 1 1 1)) < hdr_height (header x)"
    using commit_is_three_chain[OF r(2)[unfolded demo_proposal_def] r(3)] unfolding Let_def by blast
  then show ?thesis using r by (auto simp: demo_block_def)
qed

text \<open>In the output of a proposal, vote or new-view event, no lock is persisted
  after a vote has been broadcast, so the lock is durable before the vote leaves
  the node; the assertion of \<open>step\<close> holds there.\<close>

theorem lock_before_vote:
  assumes "step env c e = Some (as, c')" and "\<And>v. e \<noteq> PacemakerAdvance v"
  shows "lock_durable_before_vote False as"
proof (cases e)
  case (ProposalReceived vp)
  with assms(1) have "step env c (ProposalReceived vp) = Some (as, c')" by simp
  then show ?thesis
  proof (cases rule: step_proposal)
    case (1 c1 ev bs)
    have "votes_of ev = []" using 1(4) by auto
    then show ?thesis using 1(2,3) ldbv_no_votes[of ev bs] ldbv_proposal[of "env_hash env" "vrf_value vp" c1] by simp
  qed
next
  case (VoteReceived vv)
  then have "votes_of as = []" using assms(1) on_vote_received_frame[of env vv c] by (simp add: step_def)
  then show ?thesis by (rule ldbv_quiet)
next
  case (NewViewReceived vn)
  then have "votes_of as = []" using assms(1) on_new_view_frame[of "vrf_value vn" c] by (simp add: step_def)
  then show ?thesis by (rule ldbv_quiet)
qed (use assms(2) in blast)

theorem lock_before_vote_witness:
  "\<exists>as c'. run (step demo_env) demo_core [demo_proposal 1 1 1, demo_proposal 2 2 2] = Some (as, c')
    \<and> (\<exists>bs d. step demo_env c' (demo_proposal 3 3 3) = Some (bs, d)
        \<and> \<not> lock_free bs \<and> votes_of bs \<noteq> [] \<and> lock_durable_before_vote False bs)"
proof -
  have "map_option (\<lambda>(_, c). map_option (\<lambda>(bs, _).
       (Persist (LockedUpdate \<lparr> l_view = 1, l_height = 1, l_block_hash = 2 \<rparr>) \<in> set bs, votes_of bs))
       (step demo_env c (demo_proposal 3 3 3)))
      (run (step demo_env) demo_core [demo_proposal 1 1 1, demo_proposal 2 2 2])
    = Some (Some (True, [\<lparr> v_view = 3, v_block_hash = 4 \<rparr>]))"
    by (simp add: demo_eval step_eval)
  then obtain as c' bs d where r: "run (step demo_env) demo_core [demo_proposal 1 1 1, demo_proposal 2 2 2] = Some (as, c')"
    "step demo_env c' (demo_proposal 3 3 3) = Some (bs, d)"
    and bs: "Persist (LockedUpdate \<lparr> l_view = 1, l_height = 1, l_block_hash = 2 \<rparr>) \<in> set bs"
      "votes_of bs = [\<lparr> v_view = 3, v_block_hash = 4 \<rparr>]" by auto
  have "lock_durable_before_vote False bs"
    by (rule lock_before_vote[OF r(2)]) (simp add: demo_proposal_def)
  moreover have "\<not> lock_free bs" "votes_of bs \<noteq> []" using bs by (auto simp: lock_free_def)
  ultimately show ?thesis using r by blast
qed

text \<open>The same assertion fails for a view change that replays two parked proposals:
  from the initial core, a run of admissible calls leads to a \<open>PacemakerAdvance\<close>
  whose output persists a lock after a vote has been broadcast.\<close>

theorem pacemaker_replay_breaks_lock_before_vote:
  "\<exists>as c' bs d. run (core_exec demo_env) demo_core
      [HandleEvent (demo_proposal 2 2 2), HandleEvent (demo_proposal 3 3 3),
       HandleEvent (demo_proposal 1 1 1), InsertPendingBlock (demo_block 2 2 2)] = Some (as, c')
    \<and> step demo_env c' (PacemakerAdvance 4) = Some (bs, d)
    \<and> \<not> lock_durable_before_vote False bs"
proof -
  have vs: "set_for (validator_history (state demo_parked_core)) 4 = Some demo_vs"
    by (simp add: demo_parked_core_def demo_eval pacemaker_eval set_for_def)
  then obtain bs d where bs: "on_pacemaker_advance demo_env 4 demo_parked_core = Some (bs, d)"
    using pacemaker_total[of demo_parked_core 4 demo_vs demo_env] by (auto simp: vs_len_def demo_vs_def)
  then have "\<not> lock_durable_before_vote False bs"
  proof (cases rule: on_pacemaker_advance_cases)
    case (1 active as1 c4 as2 as3 as4)
    have "active = demo_vs" using 1(1) vs by simp
    then have "extend_each (replay_parked demo_hash) [3, 4] demo_entered_core = (as1, c4)"
      using 1(2) demo_entered demo_ready by (simp add: demo_env_def)
    then have "\<not> lock_durable_before_vote False as1" using demo_replay_order by (metis fst_conv)
    then show ?thesis using 1(6) ldbv_prefix by blast
  qed
  then show ?thesis using bs demo_parked_run by (auto simp: step_def)
qed

text \<open>The ancestry test terminates on every block cache, cyclic ones included, and
  decides reachability along parent links, provided no block is cached under the
  all-zero hash (the parent field of the genesis block).\<close>

theorem extends_is_reachability:
  assumes "hm_get pending 0 = None"
  shows "extends_block h anc pending \<longleftrightarrow> (h, anc) \<in> (parent_rel pending)\<^sup>*"
  using assms by (rule extends_block_iff)

theorem extends_is_reachability_witness:
  "hm_get [(2, demo_block 1 1 1), (3, demo_block 2 2 2)] (0 :: hash256) = None
   \<and> extends_block 3 1 [(2, demo_block 1 1 1), (3, demo_block 2 2 2)]
   \<and> (3, 1) \<in> (parent_rel [(2, demo_block 1 1 1), (3, demo_block 2 2 2)])\<^sup>*"
proof -
  have "extends_block 3 1 [(2, demo_block 1 1 1), (3, demo_block 2 2 2)]"
    by (simp add: extends_block_def extends_loop.simps demo_block_def)
  then show ?thesis
    using extends_is_reachability[of "[(2, demo_block 1 1 1), (3, demo_block 2 2 2)]" 3 1] by simp
qed

text \<open>Inserting a block keeps the cache within the larger of its capacity and six
  entries, and never evicts the genesis block, the block of the high certificate
  or any other protected block.\<close>

theorem pending_cache_bounded:
  assumes "hm_wf (pending_blocks s)" and "length (pending_blocks s) \<le> max (pending_blocks_capacity s) 6"
  shows "length (pending_blocks (insert_pending hp b s)) \<le> max (pending_blocks_capacity s) 6
    \<and> hm_wf (pending_blocks (insert_pending hp b s))
    \<and> hm_get (pending_blocks (insert_pending hp b s)) (block_hash_of hp b) = Some b
    \<and> (\<forall>h \<in> set (protected_block_hashes s). h \<noteq> block_hash_of hp b \<longrightarrow>
         hm_contains (pending_blocks s) h \<longrightarrow>
         hm_get (pending_blocks (insert_pending hp b s)) h = hm_get (pending_blocks s) h)
    \<and> genesis_hash s \<in> set (protected_block_hashes s)
    \<and> (\<forall>qc. high_qc s = Some qc \<longrightarrow> qc_block_hash qc \<in> set (protected_block_hashes s))"
  using insert_pending_bound[OF assms] insert_pending_wf[OF assms(1)] insert_pending_keeps[OF assms(1)]
    genesis_protected high_qc_protected
  by (auto simp: hm_contains_def)

theorem pending_cache_bounded_witness:
  "hm_wf (pending_blocks (state demo_core))
   \<and> length (pending_blocks (insert_pending demo_hash (demo_block 1 1 1) (state demo_core)))
       \<le> max (pending_blocks_capacity (state demo_core)) 6"
proof -
  have 1: "hm_wf (pending_blocks (state demo_core))" by (simp add: demo_eval hm_wf_def)
  have 2: "length (pending_blocks (state demo_core)) \<le> max (pending_blocks_capacity (state demo_core)) 6"
    by (simp add: demo_eval)
  show ?thesis using 1 pending_cache_bounded[OF 1 2, of demo_hash "demo_block 1 1 1"] by blast
qed

end
