(* ===== verification/Hotstuff_Quorum.thy ===== *)
theory Hotstuff_Quorum
  imports Hotstuff_Rules
begin

text \<open>
  The vote accumulator: every bucket is a well-formed partial certificate whose
  signers are exactly validators recorded as having voted for that block in
  that view. From this invariant: certificates form at a true quorum only, a
  replica cannot assemble two conflicting quorums in one view, and the step
  function does not panic.
\<close>

section \<open>The invariant\<close>

definition hist_ok :: "validator_set_history \<Rightarrow> bool" where
  "hist_ok h \<longleftrightarrow> vh_wf h
     \<and> (\<forall>b \<in> set (vh_boundaries h). 0 < vs_len (b_set b) \<and> vs_len (b_set b) < 2 ^ 32)"

definition bucket_ok ::
  "('g1, 'g2) bls_prims \<Rightarrow> validator_set_history \<Rightarrow> (view \<times> validator_id, hash256) hmap
     \<Rightarrow> (view \<times> hash256) \<times> quorum_certificate \<Rightarrow> bool" where
  "bucket_ok bp h dd e = (case e of ((v, bh), qc) \<Rightarrow>
     (\<exists>vs agg. set_for h v = Some vs \<and> qc_acc (vs_len vs) qc \<and> qc_view qc = v \<and> qc_block_hash qc = bh
        \<and> qc_sigs qc = BlsAggregatedSig agg
        \<and> (agg = BLS_EMPTY_AGGREGATE_SENTINEL \<or> sig_from_bytes bp agg \<noteq> None)
        \<and> (\<forall>i \<in> bm_indices (qc_signers qc). hm_get dd (v, members vs ! i) = Some bh)))"

definition tally_inv :: "('g1, 'g2) hs_env \<Rightarrow> hotstuff_core \<Rightarrow> bool" where
  "tally_inv env c \<longleftrightarrow> hist_ok (validator_history (state c)) \<and> hm_wf (vote_bucket c) \<and> hm_wf (vote_dedupe c)
     \<and> (\<forall>e \<in> set (vote_bucket c). bucket_ok (env_bls env) (validator_history (state c)) (vote_dedupe c) e)"

text \<open>What the accumulator relies on from the pairing library: an encoded signature
  decodes to itself, and two decoded signatures always aggregate.\<close>

definition bls_ok :: "('g1, 'g2) bls_prims \<Rightarrow> bool" where
  "bls_ok bp \<longleftrightarrow> (\<forall>g. sig_from_bytes bp (sig_to_bytes bp g) = Some g) \<and> (\<forall>a b. agg_add bp a b \<noteq> None)"

lemma hist_ok_set:
  assumes "hist_ok h" and "set_for h v = Some vs"
  shows "vs_wf vs" "0 < vs_len vs" "vs_len vs < 2 ^ 32" "length (weights vs) = vs_len vs"
  using assms set_for_member[OF assms(2)] set_for_wf[of h v vs]
  by (auto simp: hist_ok_def vs_wf_def vs_len_def)

lemma hist_ok_total: "hist_ok h \<Longrightarrow> \<exists>vs. set_for h v = Some vs"
  by (simp add: hist_ok_def set_for_total vh_wf_order)

section \<open>Frames of the tally\<close>

definition same_tally :: "hotstuff_core \<Rightarrow> hotstuff_core \<Rightarrow> bool" where
  "same_tally c c' \<longleftrightarrow> vote_bucket c' = vote_bucket c \<and> vote_dedupe c' = vote_dedupe c"

lemma same_tally_refl [simp]: "same_tally c c"
  by (simp add: same_tally_def)

lemma same_tally_trans: "same_tally a b \<Longrightarrow> same_tally b c \<Longrightarrow> same_tally a c"
  by (simp add: same_tally_def)

lemma same_tally_ask_again: "same_tally c (snd (ask_again p s r c))"
  by (simp add: same_tally_def ask_again_def Let_def)

lemma same_tally_try_emit: "same_tally c (snd (try_emit_block_sync_retry p s h r c))"
  using same_tally_ask_again
  by (auto simp: try_emit_block_sync_retry_def Let_def same_tally_def split: option.splits)

lemma same_tally_drop: "same_tally c (drop_parked_for_parent p c)"
  by (simp add: same_tally_def drop_parked_for_parent_def Let_def upd_counters_def)

lemma same_tally_retry: "same_tally c (snd (run_block_sync_retry_for_parent p c))"
  using same_tally_try_emit same_tally_drop
  by (simp add: run_block_sync_retry_for_parent_def split: option.splits)

lemma same_tally_tick: "same_tally c (snd (run_block_sync_retry_tick_for_parent p c))"
  using same_tally_ask_again same_tally_drop
  by (simp add: run_block_sync_retry_tick_for_parent_def split: option.splits)

lemma same_tally_park: "same_tally c (snd (park_proposal hp sp c))"
proof -
  have "same_tally c (evict_parked_to_fit_one c)"
    by (auto simp: same_tally_def evict_parked_to_fit_one_def upd_counters_def split: option.splits prod.splits)
  then show ?thesis using same_tally_try_emit unfolding park_proposal_def Let_def same_tally_def by simp
qed

lemma same_tally_proposal: "same_tally c (snd (on_proposal_received hp sp c))"
  by (cases rule: on_proposal_received_cases[of c sp hp]) (simp_all add: same_tally_park, simp add: same_tally_def)

lemma same_tally_replay: "same_tally c (snd (replay_parked hp h c))"
proof (cases "hm_get (parked_proposals c) h")
  case (Some sp)
  then show ?thesis
    using same_tally_proposal[of "c\<lparr> parked_proposals := hm_remove h (parked_proposals c),
        block_sync_inflight := hm_remove (parent_hash (header (p_block (payload sp)))) (block_sync_inflight c) \<rparr>" hp sp]
    by (simp add: replay_parked_def same_tally_def)
qed (simp add: replay_parked_def)

lemma same_tally_extend_each:
  assumes "\<And>x c. same_tally c (snd (f x c))"
  shows "same_tally c (snd (extend_each f xs c))"
proof (induction xs arbitrary: c)
  case (Cons x xs)
  show ?case using same_tally_trans[OF assms Cons] by (simp add: case_prod_beta Let_def)
qed simp

lemma tally_inv_frame:
  "tally_inv env c \<Longrightarrow> same_tally c c' \<Longrightarrow> validator_history (state c') = validator_history (state c) \<Longrightarrow> tally_inv env c'"
  by (simp add: tally_inv_def same_tally_def)

section \<open>Preservation\<close>

lemma bucket_ok_dedupe:
  assumes "bucket_ok bp h dd e"
    and "\<And>w bh. (fst (fst e), w) \<in> dom (map_of dd) \<Longrightarrow> hm_get dd (fst (fst e), w) = Some bh
           \<Longrightarrow> hm_get dd' (fst (fst e), w) = Some bh"
  shows "bucket_ok bp h dd' e"
proof -
  obtain v bh qc where e: "e = ((v, bh), qc)" by (metis surj_pair)
  obtain vs agg where p: "set_for h v = Some vs" "qc_acc (vs_len vs) qc" "qc_view qc = v" "qc_block_hash qc = bh"
      "qc_sigs qc = BlsAggregatedSig agg" "agg = BLS_EMPTY_AGGREGATE_SENTINEL \<or> sig_from_bytes bp agg \<noteq> None"
      and dd: "\<forall>i \<in> bm_indices (qc_signers qc). hm_get dd (v, members vs ! i) = Some bh"
    using assms(1) e by (auto simp: bucket_ok_def)
  have "\<forall>i \<in> bm_indices (qc_signers qc). hm_get dd' (v, members vs ! i) = Some bh"
  proof
    fix i assume "i \<in> bm_indices (qc_signers qc)"
    then have "hm_get dd (v, members vs ! i) = Some bh" using dd by blast
    then show "hm_get dd' (v, members vs ! i) = Some bh" using assms(2)[of "members vs ! i" bh] e by auto
  qed
  then show ?thesis using p e by (auto simp: bucket_ok_def)
qed

lemma tally_inv_enter:
  assumes "tally_inv env c"
  shows "tally_inv env (enter_view v active c)"
proof -
  let ?c = "enter_view v active c"
  have vb: "vote_bucket ?c = hm_retain (\<lambda>(w, _) _. v \<le> w) (vote_bucket c)"
    and dd: "vote_dedupe ?c = hm_retain (\<lambda>(w, _) _. v \<le> w) (vote_dedupe c)"
    by (simp_all add: enter_view_def evict_vote_buckets_below_def Let_def upd_counters_def)
  have wf: "hm_wf (vote_bucket c)" "hm_wf (vote_dedupe c)" using assms by (simp_all add: tally_inv_def)
  have "bucket_ok (env_bls env) (validator_history (state c)) (vote_dedupe ?c) e"
    if "e \<in> set (vote_bucket ?c)" for e
  proof (rule bucket_ok_dedupe)
    have e: "e \<in> set (vote_bucket c)" "v \<le> fst (fst e)" using that vb by (auto simp: hm_retain_def)
    then show "bucket_ok (env_bls env) (validator_history (state c)) (vote_dedupe c) e"
      using assms by (simp add: tally_inv_def)
    fix w bh assume "hm_get (vote_dedupe c) (fst (fst e), w) = Some bh"
    then show "hm_get (vote_dedupe ?c) (fst (fst e), w) = Some bh"
      using e(2) wf(2) by (simp add: dd hm_get_retain)
  qed
  then show ?thesis using assms wf vb dd by (simp add: tally_inv_def enter_view_frame)
qed

text \<open>One counted vote.\<close>

lemma add_partial_total:
  assumes "bls_ok bp" and "bm_is_well_formed b" and "sig_from_bytes bp partial \<noteq> None"
    and "agg = BLS_EMPTY_AGGREGATE_SENTINEL \<or> sig_from_bytes bp agg \<noteq> None"
  shows "\<exists>agg'. add_partial bp agg b idx partial = Some agg'"
  using assms bm_get_total[OF assms(2), of idx]
  by (auto simp: add_partial_def bls_ok_def split: option.splits bool.splits)

lemma add_partial_decodes:
  assumes "bls_ok bp" and "add_partial bp agg b idx partial = Some agg'"
    and "agg = BLS_EMPTY_AGGREGATE_SENTINEL \<or> sig_from_bytes bp agg \<noteq> None"
  shows "agg' = BLS_EMPTY_AGGREGATE_SENTINEL \<or> sig_from_bytes bp agg' \<noteq> None"
  using assms by (auto simp: add_partial_def bls_ok_def split: option.splits bool.splits if_splits)

lemma add_bls_partial_total:
  assumes "bls_ok bp" and "qc_acc n qc" and "idx < n" and "sig_from_bytes bp partial \<noteq> None"
    and "qc_sigs qc = BlsAggregatedSig agg"
    and "agg = BLS_EMPTY_AGGREGATE_SENTINEL \<or> sig_from_bytes bp agg \<noteq> None"
  shows "\<exists>qc'. add_bls_partial bp qc idx partial = Some qc'"
proof -
  have wf: "bm_is_well_formed (qc_signers qc)" "idx < bm_length (qc_signers qc)"
    using assms(2,3) by (auto simp: qc_acc_def)
  obtain b' where "bm_set (qc_signers qc) idx = Some b'" using bm_set_insert[OF wf] by metis
  moreover obtain agg' where "add_partial bp agg (qc_signers qc) idx partial = Some agg'"
    using add_partial_total[OF assms(1) wf(1) assms(4,6)] by blast
  ultimately show ?thesis using bm_get_total[OF wf(1), of idx] assms(5) by (simp add: add_bls_partial_def)
qed

lemma add_bls_partial_sigs:
  assumes "bls_ok bp" and "add_bls_partial bp qc idx partial = Some qc'"
    and "qc_sigs qc = BlsAggregatedSig agg"
    and "agg = BLS_EMPTY_AGGREGATE_SENTINEL \<or> sig_from_bytes bp agg \<noteq> None"
  shows "\<exists>agg'. qc_sigs qc' = BlsAggregatedSig agg'
    \<and> (agg' = BLS_EMPTY_AGGREGATE_SENTINEL \<or> sig_from_bytes bp agg' \<noteq> None)"
  using assms add_partial_decodes[OF assms(1)]
  by (auto simp: add_bls_partial_def bind_eq_Some_conv split: if_splits)

text \<open>The accumulator a vote is added to, before and after making room.\<close>

definition bucket_room :: "vote \<Rightarrow> hotstuff_core \<Rightarrow> hotstuff_core" where
  "bucket_room v c =
     (if hm_contains (vote_bucket c) (v_view v, v_block_hash v) then c else evict_vote_buckets_to_fit_one c)"

lemma bucket_room_props:
  assumes "tally_inv env c"
  shows "tally_inv env (bucket_room v c)" "vote_dedupe (bucket_room v c) = vote_dedupe c"
    "validator_history (state (bucket_room v c)) = validator_history (state c)"
proof -
  show "vote_dedupe (bucket_room v c) = vote_dedupe c"
    "validator_history (state (bucket_room v c)) = validator_history (state c)"
    by (auto simp: bucket_room_def evict_vote_buckets_to_fit_one_def upd_counters_def split: option.splits)
  have "set (vote_bucket (bucket_room v c)) \<subseteq> set (vote_bucket c) \<and> hm_wf (vote_bucket (bucket_room v c))"
    using assms by (auto simp: bucket_room_def evict_vote_buckets_to_fit_one_def upd_counters_def tally_inv_def
        AList.delete_eq split: option.splits dest: hm_wf_remove)
  then show "tally_inv env (bucket_room v c)"
    using assms \<open>vote_dedupe (bucket_room v c) = vote_dedupe c\<close>
      \<open>validator_history (state (bucket_room v c)) = validator_history (state c)\<close>
    by (auto simp: tally_inv_def)
qed

lemma set_update_alist: "set (AList.update k x m) \<subseteq> insert (k, x) (set m)"
  by (induction m) auto

lemma bucket_vote_ok:
  assumes bls: "bls_ok (env_bls env)" and inv: "tally_inv env c"
    and vs: "set_for (validator_history (state c)) (v_view v) = Some vs" and idx: "idx < vs_len vs"
    and dd: "hm_get (vote_dedupe c) (v_view v, members vs ! idx) = Some (v_block_hash v)"
    and sig: "sig_from_bytes (env_bls env) partial \<noteq> None"
  obtains formed qc c' where "bucket_vote env v vs idx partial c = Some (formed, qc, c')"
    "tally_inv env c'" "vote_dedupe c' = vote_dedupe c"
    "bucket_ok (env_bls env) (validator_history (state c)) (vote_dedupe c) ((v_view v, v_block_hash v), qc)"
    "formed \<longrightarrow> is_quorum vs (bm_indices (qc_signers qc))"
proof -
  let ?bp = "env_bls env" and ?h = "validator_history (state c)" and ?key = "(v_view v, v_block_hash v)"
  let ?c1 = "bucket_room v c"
  note room = bucket_room_props[OF inv, of v]
  have ho: "hist_ok ?h" using inv by (simp add: tally_inv_def)
  note set_props = hist_ok_set[OF ho vs]
  obtain qc where qc: "(case hm_get (vote_bucket ?c1) ?key of Some q \<Rightarrow> Some q
      | None \<Rightarrow> qc_new (v_view v) (v_block_hash v) (vs_len vs)) = Some qc"
    and ok: "bucket_ok ?bp ?h (vote_dedupe c) (?key, qc)"
  proof (cases "hm_get (vote_bucket ?c1) ?key")
    case None
    obtain q where q: "qc_new (v_view v) (v_block_hash v) (vs_len vs) = Some q"
      using qc_new_total[OF set_props(3)] by blast
    moreover have "bucket_ok ?bp ?h (vote_dedupe c) (?key, q)"
      using qc_new_acc[OF q] q vs
      by (auto simp: bucket_ok_def qc_new_def empty_aggregate_def)
    ultimately show thesis using None that by simp
  next
    case (Some q)
    then have "(?key, q) \<in> set (vote_bucket ?c1)" by (rule map_of_SomeD)
    then have "bucket_ok ?bp ?h (vote_dedupe c) (?key, q)"
      using room by (simp add: tally_inv_def)
    then show thesis using Some that by simp
  qed
  obtain agg where acc: "qc_acc (vs_len vs) qc" "qc_view qc = v_view v" "qc_block_hash qc = v_block_hash v"
    "qc_sigs qc = BlsAggregatedSig agg" "agg = BLS_EMPTY_AGGREGATE_SENTINEL \<or> sig_from_bytes ?bp agg \<noteq> None"
    "\<forall>i \<in> bm_indices (qc_signers qc). hm_get (vote_dedupe c) (v_view v, members vs ! i) = Some (v_block_hash v)"
    using ok vs by (auto simp: bucket_ok_def)
  obtain qc' where add: "add_bls_partial ?bp qc idx partial = Some qc'"
    using add_bls_partial_total[OF bls acc(1) idx sig acc(4,5)] by blast
  note added = add_bls_partial_acc[OF acc(1) idx add]
  have ok': "bucket_ok ?bp ?h (vote_dedupe c) (?key, qc')"
    using added acc vs dd add_bls_partial_sigs[OF bls add acc(4,5)] by (auto simp: bucket_ok_def)
  let ?c' = "?c1\<lparr> vote_bucket := hm_insert ?key qc' (vote_bucket ?c1) \<rparr>"
  let ?f = "\<not> is_quorum vs (bm_indices (qc_signers qc)) \<and> is_quorum vs (bm_indices (qc_signers qc'))"
  have "bucket_vote env v vs idx partial c = Some (?f, qc', ?c')"
    using qc add has_quorum_iff[OF set_props(4,3)]
    by (simp add: bucket_vote_def Let_def bucket_room_def)
  moreover have "tally_inv env ?c'"
    using room ok' set_update_alist[of ?key qc' "vote_bucket ?c1"] by (auto simp: tally_inv_def)
  ultimately show thesis using that ok' room(2) by simp
qed

lemma tally_inv_high_qc: "tally_inv env c \<Longrightarrow> tally_inv env (c\<lparr> state := (state c)\<lparr> high_qc := q \<rparr> \<rparr>)"
  by (simp add: tally_inv_def)

lemma tally_inv_dedupe:
  assumes "tally_inv env c" and "hm_get (vote_dedupe c) k \<in> {None, Some bh}"
  shows "tally_inv env (c\<lparr> vote_dedupe := hm_insert k bh (vote_dedupe c) \<rparr>)"
proof -
  have "bucket_ok (env_bls env) (validator_history (state c)) (hm_insert k bh (vote_dedupe c)) e"
    if "e \<in> set (vote_bucket c)" for e
    by (rule bucket_ok_dedupe[of _ _ "vote_dedupe c"]) (use assms that in \<open>auto simp: tally_inv_def\<close>)
  then show ?thesis using assms(1) by (simp add: tally_inv_def)
qed

fun event_ok :: "('g1, 'g2) bls_prims \<Rightarrow> event \<Rightarrow> bool" where
  "event_ok bp (VoteReceived vv) = (sig_from_bytes bp (vv_partial vv) \<noteq> None)"
| "event_ok bp _ = True"

lemma on_counted_vote_ok:
  assumes bls: "bls_ok (env_bls env)" and inv: "tally_inv env c"
    and vs: "set_for (validator_history (state c)) (v_view v) = Some vs" and idx: "idx < vs_len vs"
    and dd: "hm_get (vote_dedupe c) (v_view v, members vs ! idx) = Some (v_block_hash v)"
    and sig: "sig_from_bytes (env_bls env) partial \<noteq> None"
  obtains as c' where "on_counted_vote env v vs idx partial nv c = Some (as, c')" "tally_inv env c'"
    "vote_dedupe c' = vote_dedupe c"
    "\<forall>qc. Persist (HighQcUpdate qc) \<in> set as \<longrightarrow> is_quorum vs (bm_indices (qc_signers qc))
       \<and> bucket_ok (env_bls env) (validator_history (state c)) (vote_dedupe c) ((v_view v, v_block_hash v), qc)"
proof -
  obtain formed qc c1 where b: "bucket_vote env v vs idx partial c = Some (formed, qc, c1)"
    "tally_inv env c1" "vote_dedupe c1 = vote_dedupe c"
    "bucket_ok (env_bls env) (validator_history (state c)) (vote_dedupe c) ((v_view v, v_block_hash v), qc)"
    "formed \<longrightarrow> is_quorum vs (bm_indices (qc_signers qc))"
    using bucket_vote_ok[OF assms] .
  have hist: "validator_history (state c1) = validator_history (state c)"
    using bucket_vote_frame(1)[OF b(1)] by (rule same_state_fields)
  show thesis
  proof (cases formed)
    case False
    then show thesis using b that[of "[]" c1] by (simp add: on_counted_vote_def)
  next
    case True
    let ?u = "should_update_high_qc qc (state c1)"
    let ?c2 = "if ?u then c1\<lparr> state := (state c1)\<lparr> high_qc := Some qc \<rparr> \<rparr> else c1"
    have inv2: "tally_inv env ?c2" using b(2) tally_inv_high_qc[OF b(2), of "Some qc"] by simp
    have ho: "hist_ok (validator_history (state ?c2))" using inv2 by (simp add: tally_inv_def)
    obtain vs' where "set_for (validator_history (state ?c2)) nv = Some vs'"
      using hist_ok_total[OF ho] by blast
    then obtain as2 where as2: "try_propose_as_leader nv ?c2 = Some as2"
      using try_propose_total hist_ok_set(2)[OF ho] by (metis less_not_refl)
    have np: "Persist (HighQcUpdate q) \<notin> set as2" for q
      using as2 by (auto simp: try_propose_as_leader_def bind_eq_Some_conv build_proposal_at_view_def
          split: if_splits option.splits)
    have eq: "on_counted_vote env v vs idx partial nv c =
        Some ((if ?u then [Persist (HighQcUpdate qc)] else []) @ as2, ?c2)"
      using b(1) True as2 by (simp add: on_counted_vote_def split: if_splits)
    show thesis
    proof (rule that[OF eq inv2])
      show "vote_dedupe ?c2 = vote_dedupe c" using b(3) by simp
      show "\<forall>q. Persist (HighQcUpdate q) \<in> set ((if ?u then [Persist (HighQcUpdate qc)] else []) @ as2) \<longrightarrow>
          is_quorum vs (bm_indices (qc_signers q))
          \<and> bucket_ok (env_bls env) (validator_history (state c)) (vote_dedupe c) ((v_view v, v_block_hash v), q)"
        using np b(4,5) True by auto
    qed
  qed
qed

text \<open>A vote event on the invariant: it returns, keeps the invariant, and any
  certificate it persists is a quorum of recorded votes.\<close>

lemma on_vote_received_ok:
  assumes bls: "bls_ok (env_bls env)" and inv: "tally_inv env c"
    and sig: "sig_from_bytes (env_bls env) (vv_partial vv) \<noteq> None"
  obtains as c' where "on_vote_received env vv c = Some (as, c')" "tally_inv env c'"
    "\<forall>qc. Persist (HighQcUpdate qc) \<in> set as \<longrightarrow>
       (\<exists>vs. set_for (validator_history (state c)) (v_view (payload (vrf_value (vv_signed vv)))) = Some vs
          \<and> is_quorum vs (bm_indices (qc_signers qc)))
       \<and> bucket_ok (env_bls env) (validator_history (state c)) (vote_dedupe c')
           ((v_view (payload (vrf_value (vv_signed vv))), v_block_hash (payload (vrf_value (vv_signed vv)))), qc)"
proof -
  let ?v = "payload (vrf_value (vv_signed vv))" and ?w = "vrf_signer (vv_signed vv)"
  have ho: "hist_ok (validator_history (state c))" using inv by (simp add: tally_inv_def)
  obtain vs where vs: "set_for (validator_history (state c)) (v_view ?v) = Some vs"
    using hist_ok_total[OF ho] by blast
  then obtain a where a: "set_at (validator_history (state c)) (v_view ?v) = Some a" "for_view a (v_view ?v) = vs"
    by (auto simp: set_for_def)
  show thesis
  proof (cases "index_of vs ?w")
    case None
    then show thesis using a inv that[of "[]" c] by (simp add: on_vote_received_def Let_def)
  next
    case (Some idx)
    then have idx: "idx < vs_len vs" "members vs ! idx = ?w"
      using index_of_Some_iff[OF hist_ok_set(1)[OF ho vs]] by auto
    define c0 where "c0 = (case hm_get (vote_dedupe c) (v_view ?v, ?w) of Some _ \<Rightarrow> c
      | None \<Rightarrow> c\<lparr> vote_dedupe := hm_insert (v_view ?v, ?w) (v_block_hash ?v) (vote_dedupe c) \<rparr>)"
    show thesis
    proof (cases "hm_get (vote_dedupe c) (v_view ?v, ?w) \<in> {None, Some (v_block_hash ?v)}")
      case False
      then obtain h where "hm_get (vote_dedupe c) (v_view ?v, ?w) = Some h" "h \<noteq> v_block_hash ?v" by auto
      then show thesis using a Some inv that[of "[EquivocationEvidence ?w (v_view ?v) h (v_block_hash ?v)]" c]
        by (simp add: on_vote_received_def Let_def)
    next
      case True
      have inv0: "tally_inv env c0" "state c0 = state c"
        using inv tally_inv_dedupe[OF inv True] by (auto simp: c0_def split: option.splits)
      have dd0: "hm_get (vote_dedupe c0) (v_view ?v, members vs ! idx) = Some (v_block_hash ?v)"
        using True idx by (auto simp: c0_def split: option.splits)
      have "on_vote_received env vv c = on_counted_vote env ?v vs idx (vv_partial vv) (v_view ?v + 1) c0"
        using a Some True by (auto simp: on_vote_received_def Let_def c0_def split: option.splits)
      moreover obtain as c' where "on_counted_vote env ?v vs idx (vv_partial vv) (v_view ?v + 1) c0 = Some (as, c')"
        "tally_inv env c'" "vote_dedupe c' = vote_dedupe c0"
        "\<forall>qc. Persist (HighQcUpdate qc) \<in> set as \<longrightarrow> is_quorum vs (bm_indices (qc_signers qc))
          \<and> bucket_ok (env_bls env) (validator_history (state c0)) (vote_dedupe c0) ((v_view ?v, v_block_hash ?v), qc)"
        using on_counted_vote_ok[OF bls inv0(1) _ idx(1) dd0 sig] vs inv0(2) by metis
      ultimately show thesis using that[of as c'] vs inv0(2) by auto
    qed
  qed
qed

section \<open>Whole runs\<close>

text \<open>Only votes and view changes touch the tally, and a view change only drops old views.\<close>

lemma step_tally_frame:
  assumes "step env c e = Some (as, c')"
  shows "case e of VoteReceived vv \<Rightarrow> True
    | PacemakerAdvance v \<Rightarrow> \<exists>active. same_tally (enter_view v active c) c'
    | _ \<Rightarrow> same_tally c c'"
proof (cases e)
  case (ProposalReceived vp)
  let ?c1 = "snd (check_proposal_dedupe (hdr_view (header (p_block (payload (vrf_value vp)))))
      (vrf_signer vp) (block_hash_of (env_hash env) (p_block (payload (vrf_value vp)))) c)"
  have "same_tally c ?c1" by (simp add: same_tally_def check_proposal_dedupe_def split: option.splits)
  moreover have "c' = snd (on_proposal_received (env_hash env) (vrf_value vp) ?c1)"
    using assms ProposalReceived by (simp add: step_def on_proposal_event_def Let_def case_prod_beta)
  ultimately show ?thesis using same_tally_trans same_tally_proposal ProposalReceived by fastforce
next
  case (NewViewReceived vn)
  let ?c1 = "c\<lparr> state := (state c)\<lparr> high_qc := Some (nv_high_qc (payload (vrf_value vn))) \<rparr> \<rparr>"
  have "same_tally c ?c1" by (simp add: same_tally_def)
  then have "same_tally c c'"
    using assms NewViewReceived same_tally_try_emit[of ?c1 "qc_block_hash (nv_high_qc (payload (vrf_value vn)))"
        "signer (vrf_value vn)" 0 UnknownHighQcOnNewView]
    by (auto simp: step_def on_new_view_received_def Let_def split: if_splits prod.splits intro: same_tally_trans)
  then show ?thesis using NewViewReceived by simp
next
  case (PacemakerAdvance v)
  then have "on_pacemaker_advance env v c = Some (as, c')" using assms by (simp add: step_def)
  then show ?thesis
  proof (cases rule: on_pacemaker_advance_cases)
    case (1 active as1 c4 as2 as3 as4)
    have "same_tally (enter_view v active c) c4"
      using same_tally_extend_each[where f = "replay_parked (env_hash env)", OF same_tally_replay,
          of "enter_view v active c" "ready_parked (env_order env) (enter_view v active c)"] 1(2) by simp
    moreover have "same_tally c4 c'"
      using same_tally_extend_each[where f = run_block_sync_retry_for_parent, OF same_tally_retry,
          of c4 "parents_to_retry c4"] 1(3) by simp
    ultimately show ?thesis using same_tally_trans PacemakerAdvance by fastforce
  qed
qed simp

lemma step_returns:
  assumes "bls_ok (env_bls env)" and "tally_inv env c" and "event_ok (env_bls env) e"
  shows "\<exists>as c'. step env c e = Some (as, c')"
proof (cases e)
  case (ProposalReceived vp)
  then show ?thesis by (cases "on_proposal_event (env_hash env) vp c") (simp add: step_def)
next
  case (VoteReceived vv)
  then show ?thesis using on_vote_received_ok[OF assms(1,2), of vv] assms(3) by (simp add: step_def) metis
next
  case (NewViewReceived vn)
  then show ?thesis by (cases "on_new_view_received (vrf_value vn) c") (simp add: step_def)
next
  case (PacemakerAdvance v)
  have ho: "hist_ok (validator_history (state c))" using assms(2) by (simp add: tally_inv_def)
  obtain vs where vs: "set_for (validator_history (state c)) v = Some vs" using hist_ok_total[OF ho] by blast
  then show ?thesis using pacemaker_total[OF vs, of env] hist_ok_set(2)[OF ho vs] PacemakerAdvance by (auto simp: step_def)
qed

lemma tally_inv_step:
  assumes "bls_ok (env_bls env)" and "tally_inv env c" and "event_ok (env_bls env) e"
  shows "\<exists>as c'. step env c e = Some (as, c') \<and> tally_inv env c'"
proof -
  obtain as c' where s: "step env c e = Some (as, c')" using step_returns[OF assms] by blast
  have hist: "validator_history (state c') = validator_history (state c)"
    using mono_step[OF s] by (simp add: mono_state_def)
  show ?thesis
  proof (cases e)
    case (VoteReceived vv)
    then show ?thesis using on_vote_received_ok[OF assms(1,2), of vv] assms(3) by (simp add: step_def) metis
  next
    case (PacemakerAdvance v)
    then obtain active where "same_tally (enter_view v active c) c'" using step_tally_frame[OF s] by auto
    then show ?thesis
      using s tally_inv_frame[OF tally_inv_enter[OF assms(2)]] hist by (simp add: enter_view_frame)
  qed (use s step_tally_frame[OF s] tally_inv_frame[OF assms(2)] hist in auto)
qed

text \<open>A recorded vote stays recorded until its view has passed.\<close>

lemma on_counted_vote_dedupe:
  "on_counted_vote env v vs idx partial nv c = Some (as, c') \<Longrightarrow> vote_dedupe c' = vote_dedupe c"
  by (elim on_counted_vote_cases) (auto dest: bucket_vote_frame(2))

lemma on_vote_received_dedupe:
  assumes "on_vote_received env vv c = Some (as, c')"
  shows "vote_dedupe c' = vote_dedupe c
    \<or> (\<exists>k h. hm_get (vote_dedupe c) k = None \<and> vote_dedupe c' = hm_insert k h (vote_dedupe c))"
proof -
  let ?v = "payload (vrf_value (vv_signed vv))" and ?w = "vrf_signer (vv_signed vv)"
  obtain a where a: "set_at (validator_history (state c)) (v_view ?v) = Some a"
    using assms by (auto simp: on_vote_received_def Let_def bind_eq_Some_conv)
  note r = assms[unfolded on_vote_received_def Let_def a bind.bind_lunit]
  show ?thesis
  proof (cases "index_of (for_view a (v_view ?v)) ?w")
    case None
    then show ?thesis using r by simp
  next
    case (Some idx)
    show ?thesis
    proof (cases "hm_get (vote_dedupe c) (v_view ?v, ?w)")
      case None
      then have "vote_dedupe c' = hm_insert (v_view ?v, ?w) (v_block_hash ?v) (vote_dedupe c)"
        using r Some on_counted_vote_dedupe by fastforce
      then show ?thesis using None by blast
    next
      case (Some h)
      then show ?thesis using r \<open>index_of (for_view a (v_view ?v)) ?w = Some idx\<close> on_counted_vote_dedupe
        by (auto split: if_splits)
    qed
  qed
qed

lemma step_keeps_recorded:
  assumes "step env c e = Some (as, c')" "hm_wf (vote_dedupe c)" "hm_get (vote_dedupe c) (v, i) = Some h"
    and "\<And>w. e = PacemakerAdvance w \<Longrightarrow> w \<le> v"
  shows "hm_wf (vote_dedupe c') \<and> hm_get (vote_dedupe c') (v, i) = Some h"
proof (cases e)
  case (VoteReceived vv)
  then show ?thesis using assms(1-3) on_vote_received_dedupe[of env vv c as c'] by (auto simp: step_def)
next
  case (PacemakerAdvance w)
  then obtain active where "same_tally (enter_view w active c) c'" using step_tally_frame[OF assms(1)] by auto
  then have "vote_dedupe c' = hm_retain (\<lambda>(u, _) _. w \<le> u) (vote_dedupe c)"
    by (simp add: same_tally_def enter_view_def evict_vote_buckets_below_def Let_def upd_counters_def)
  then show ?thesis using assms(2-4) PacemakerAdvance by (simp add: hm_get_retain)
qed (use step_tally_frame[OF assms(1)] assms(2,3) in \<open>auto simp: same_tally_def\<close>)

interpretation core: total_machine "step env" "\<lambda>c. bls_ok (env_bls env) \<and> tally_inv env c"
    "event_ok (env_bls env)" for env
  by unfold_locales (use tally_inv_step in blast)

lemma demo_bls_ok: "bls_ok (env_bls demo_env)"
  by (simp add: bls_ok_def demo_eval)

lemma demo_hist_ok: "hist_ok (validator_history (state demo_core))"
  by (simp add: hist_ok_def vh_wf_def vs_wf_def demo_eval vs_len_def)

lemma demo_tally_inv: "tally_inv demo_env demo_core"
  using demo_hist_ok by (simp add: tally_inv_def) (simp add: demo_eval)

lemma bucket_quorum_unique:
  assumes inv: "tally_inv env c"
    and q1: "((v, h1), qc1) \<in> set (vote_bucket c)" and q2: "((v, h2), qc2) \<in> set (vote_bucket c)"
    and vs: "set_for (validator_history (state c)) v = Some vs"
    and "is_quorum vs (bm_indices (qc_signers qc1))" and "is_quorum vs (bm_indices (qc_signers qc2))"
  shows "h1 = h2"
proof -
  have "\<exists>i. i \<in> bm_indices (qc_signers qc1) \<and> i \<in> bm_indices (qc_signers qc2) \<and> i \<in> {..<vs_len vs} \<and> i \<notin> {}"
    by (rule vq.quorum_common_honest) (use assms in auto)
  then obtain i where "i \<in> bm_indices (qc_signers qc1)" "i \<in> bm_indices (qc_signers qc2)" by blast
  moreover have "bucket_ok (env_bls env) (validator_history (state c)) (vote_dedupe c) ((v, h1), qc1)"
    "bucket_ok (env_bls env) (validator_history (state c)) (vote_dedupe c) ((v, h2), qc2)"
    using inv q1 q2 by (auto simp: tally_inv_def)
  ultimately show ?thesis using vs by (auto simp: bucket_ok_def)
qed






text \<open>C5: a certificate that a vote event adopts as high certificate is for the block
  and view of the vote, carries more than two thirds of the weight of the set in
  force at that view, and each of its signers is a member whose recorded vote in
  that view is for exactly that block.\<close>

theorem formed_qc_is_quorum:
  assumes "bls_ok (env_bls env)" and "tally_inv env c" and "event_ok (env_bls env) (VoteReceived vv)"
    and "step env c (VoteReceived vv) = Some (as, c')" and "Persist (HighQcUpdate qc) \<in> set as"
  shows "\<exists>vs. set_for (validator_history (state c)) (qc_view qc) = Some vs
    \<and> qc_view qc = v_view (payload (vrf_value (vv_signed vv)))
    \<and> qc_block_hash qc = v_block_hash (payload (vrf_value (vv_signed vv)))
    \<and> has_quorum qc vs = Some True
    \<and> 2 * set_weight vs {..<vs_len vs} < 3 * set_weight vs (bm_indices (qc_signers qc))
    \<and> (\<forall>i \<in> bm_indices (qc_signers qc). i < vs_len vs
         \<and> hm_get (vote_dedupe c') (qc_view qc, members vs ! i) = Some (qc_block_hash qc))"
proof -
  have sig: "sig_from_bytes (env_bls env) (vv_partial vv) \<noteq> None" using assms(3) by simp
  have ho: "hist_ok (validator_history (state c))" using assms(2) by (simp add: tally_inv_def)
  obtain as2 c2 where r: "on_vote_received env vv c = Some (as2, c2)" and
    q: "\<forall>qc. Persist (HighQcUpdate qc) \<in> set as2 \<longrightarrow>
       (\<exists>vs. set_for (validator_history (state c)) (v_view (payload (vrf_value (vv_signed vv)))) = Some vs
          \<and> is_quorum vs (bm_indices (qc_signers qc)))
       \<and> bucket_ok (env_bls env) (validator_history (state c)) (vote_dedupe c2)
           ((v_view (payload (vrf_value (vv_signed vv))), v_block_hash (payload (vrf_value (vv_signed vv)))), qc)"
    using on_vote_received_ok[OF assms(1,2) sig] by metis
  have eq: "as2 = as" "c2 = c'" using r assms(4) by (auto simp: step_def)
  obtain vs where vs: "set_for (validator_history (state c)) (v_view (payload (vrf_value (vv_signed vv)))) = Some vs"
    "is_quorum vs (bm_indices (qc_signers qc))" and
    ok: "bucket_ok (env_bls env) (validator_history (state c)) (vote_dedupe c')
       ((v_view (payload (vrf_value (vv_signed vv))), v_block_hash (payload (vrf_value (vv_signed vv)))), qc)"
    using q assms(5) eq by blast
  have "has_quorum qc vs = Some True"
    using has_quorum_iff[OF hist_ok_set(4,3)[OF ho vs(1)]] vs(2) by simp
  then show ?thesis using vs ok by (auto simp: bucket_ok_def is_quorum_def qc_acc_def bm_indices_def)
qed

lemma demo_three_votes:
  "map_option (\<lambda>(_, c). map_option (\<lambda>(as, _). Persist (HighQcUpdate (demo_qc 1 2)) \<in> set as)
      (step demo_env c (demo_vote 1 2 30)))
     (run (step demo_env) demo_core [demo_vote 1 2 10, demo_vote 1 2 20]) = Some (Some True)"
  by (simp add: demo_eval step_eval pacemaker_eval vote_eval)

theorem formed_qc_is_quorum_witness:
  "\<exists>as c bs d. run (step demo_env) demo_core [demo_vote 1 2 10, demo_vote 1 2 20] = Some (as, c)
    \<and> step demo_env c (demo_vote 1 2 30) = Some (bs, d) \<and> Persist (HighQcUpdate (demo_qc 1 2)) \<in> set bs
    \<and> (\<exists>vs. set_for (validator_history (state c)) 1 = Some vs \<and> has_quorum (demo_qc 1 2) vs = Some True)"
proof -
  obtain as c bs d where r: "run (step demo_env) demo_core [demo_vote 1 2 10, demo_vote 1 2 20] = Some (as, c)"
    "step demo_env c (demo_vote 1 2 30) = Some (bs, d)" "Persist (HighQcUpdate (demo_qc 1 2)) \<in> set bs"
    using demo_three_votes by auto
  have ev: "\<forall>e \<in> set [demo_vote 1 2 10, demo_vote 1 2 20]. event_ok (env_bls demo_env) e"
    by (simp add: demo_eval)
  have inv: "tally_inv demo_env c"
    using core.run_total[OF conjI[OF demo_bls_ok demo_tally_inv] ev] r(1) by auto
  have ok: "event_ok (env_bls demo_env) (demo_vote 1 2 30)" by (simp add: demo_eval)
  show ?thesis
    using formed_qc_is_quorum[OF demo_bls_ok inv ok[unfolded demo_vote_def] r(2)[unfolded demo_vote_def] r(3)] r
    by (auto simp: demo_qc_def)
qed

text \<open>C3: a replica never accumulates two conflicting quorums: after any sequence of
  events, two vote buckets of the same view that both hold a quorum of the set in
  force there are for the same block, whatever the voters do.\<close>

theorem no_conflicting_quorums:
  assumes "bls_ok (env_bls env)" and "tally_inv env c" and "\<forall>e \<in> set es. event_ok (env_bls env) e"
    and "run (step env) c es = Some (as, c')"
    and "((v, h1), qc1) \<in> set (vote_bucket c')" and "((v, h2), qc2) \<in> set (vote_bucket c')"
    and "set_for (validator_history (state c')) v = Some vs"
    and "has_quorum qc1 vs = Some True" and "has_quorum qc2 vs = Some True"
  shows "h1 = h2"
proof -
  have inv: "tally_inv env c'" using core.run_total[of env c es] assms(1-4) by auto
  then have ho: "hist_ok (validator_history (state c'))" by (simp add: tally_inv_def)
  show ?thesis
    by (rule bucket_quorum_unique[OF inv assms(5,6,7)])
       (use assms(8,9) has_quorum_iff[OF hist_ok_set(4,3)[OF ho assms(7)]] in auto)
qed

theorem no_conflicting_quorums_witness:
  "\<exists>as c'. run (step demo_env) demo_core [demo_vote 1 2 10, demo_vote 1 2 20, demo_vote 1 2 30] = Some (as, c')
    \<and> ((1, 2), demo_qc 1 2) \<in> set (vote_bucket c')
    \<and> (\<forall>h qc. ((1, h), qc) \<in> set (vote_bucket c') \<longrightarrow> has_quorum qc demo_vs = Some True \<longrightarrow> h = 2)"
proof -
  let ?es = "[demo_vote 1 2 10, demo_vote 1 2 20, demo_vote 1 2 30]"
  have "map_option (\<lambda>(_, c). ((1, 2), demo_qc 1 2) \<in> set (vote_bucket c)) (run (step demo_env) demo_core ?es) = Some True"
    by (simp add: demo_eval step_eval pacemaker_eval vote_eval)
  then obtain as c' where r: "run (step demo_env) demo_core ?es = Some (as, c')"
    "((1, 2), demo_qc 1 2) \<in> set (vote_bucket c')" by auto
  have ev: "\<forall>e \<in> set ?es. event_ok (env_bls demo_env) e" by (simp add: demo_eval)
  have "validator_history (state c') = validator_history (state demo_core)"
    using monotone.run_progress[OF TrueI r(1)] by (simp add: mono_state_def)
  then have vs: "set_for (validator_history (state c')) 1 = Some demo_vs"
    by (simp add: demo_eval pacemaker_eval set_for_def)
  have q: "has_quorum (demo_qc 1 2) demo_vs = Some True" by (simp add: demo_eval vote_eval vs_len_def)
  show ?thesis
    using no_conflicting_quorums[OF demo_bls_ok demo_tally_inv ev r(1) _ r(2) vs _ q] r by blast
qed

end
