(* ===== verification/Key_Timeline.thy ===== *)
theory Key_Timeline
  imports View_History
begin

text \<open>
  What the three key histories of the sources share: ordered maps (\<open>BTreeMap\<close>) as
  association lists in key order, and the timeline of one validator, a list of
  keys with the views they take effect at. The locale \<open>key_history\<close> is the contract of a
  history towards its clients: a rotation takes effect at its view for its
  validator and changes nothing else.
\<close>

section \<open>Ordered maps\<close>

type_synonym ('k, 'v) btree_map = "('k \<times> 'v) list"

abbreviation bt_get :: "('k, 'v) btree_map \<Rightarrow> 'k \<Rightarrow> 'v option" where
  "bt_get m k \<equiv> map_of m k"

fun bt_insert :: "'k::linorder \<Rightarrow> 'v \<Rightarrow> ('k, 'v) btree_map \<Rightarrow> ('k, 'v) btree_map" where
  "bt_insert k v [] = [(k, v)]"
| "bt_insert k v ((k', v') # m) =
     (if k < k' then (k, v) # (k', v') # m
      else if k = k' then (k, v) # m
      else (k', v') # bt_insert k v m)"

definition bt_remove :: "'k \<Rightarrow> ('k, 'v) btree_map \<Rightarrow> ('k, 'v) btree_map" where
  "bt_remove k m = filter (\<lambda>e. fst e \<noteq> k) m"

definition bt_contains :: "('k, 'v) btree_map \<Rightarrow> 'k \<Rightarrow> bool" where
  "bt_contains m k \<longleftrightarrow> bt_get m k \<noteq> None"

definition bt_wf :: "('k::linorder, 'v) btree_map \<Rightarrow> bool" where
  "bt_wf m \<longleftrightarrow> sorted_wrt (<) (map fst m)"

lemma bt_wf_Nil [simp]: "bt_wf []"
  by (simp add: bt_wf_def)

lemma bt_insert_keys: "set (map fst (bt_insert k v m)) = insert k (set (map fst m))"
  by (induction k v m rule: bt_insert.induct) auto

lemma bt_wf_insert [simp]: "bt_wf m \<Longrightarrow> bt_wf (bt_insert k v m)"
proof (induction k v m rule: bt_insert.induct)
  case (2 k v k' v' m)
  have "fst ` set (bt_insert k v m) = insert k (fst ` set m)" using bt_insert_keys[of k v m] by simp
  then have "\<forall>e \<in> set (bt_insert k v m). fst e = k \<or> fst e \<in> fst ` set m" by blast
  then have "\<forall>e \<in> set (bt_insert k v m). k' < fst e" if "k' < k" "bt_wf ((k', v') # m)"
    using that by (fastforce simp: bt_wf_def)
  then show ?case using 2 by (auto simp: bt_wf_def)
qed (simp add: bt_wf_def)

lemma bt_wf_remove [simp]: "bt_wf m \<Longrightarrow> bt_wf (bt_remove k m)"
  by (induction m) (auto simp: bt_wf_def bt_remove_def)

lemma bt_get_insert [simp]: "bt_wf m \<Longrightarrow> bt_get (bt_insert k v m) k' = (if k' = k then Some v else bt_get m k')"
proof (induction k v m rule: bt_insert.induct)
  case (2 k v a b m)
  have "bt_wf m" using 2 by (simp add: bt_wf_def)
  then show ?case using 2 by auto
qed simp

lemma bt_get_remove [simp]: "bt_get (bt_remove k m) k' = (if k' = k then None else bt_get m k')"
  by (induction m) (auto simp: bt_remove_def)

text \<open>Inserting the entries of an ordered map one by one rebuilds it.\<close>

lemma bt_insert_last: "\<forall>e \<in> set m. fst e < k \<Longrightarrow> bt_insert k v m = m @ [(k, v)]"
  by (induction k v m rule: bt_insert.induct) auto

lemma bt_insert_same: "bt_wf m \<Longrightarrow> bt_get m k = Some v \<Longrightarrow> bt_insert k v m = m"
proof (induction k v m rule: bt_insert.induct)
  case (2 k v a b m)
  have "bt_wf m" using 2 by (simp add: bt_wf_def)
  moreover have "k < a \<Longrightarrow> map_of m k \<noteq> Some v"
    using 2(2) by (auto simp: bt_wf_def dest!: map_of_SomeD)
  ultimately show ?case using 2 by (auto split: if_splits)
qed simp

lemma bt_wf_append_less: "bt_wf (xs @ (k, v) # ys) \<Longrightarrow> \<forall>e \<in> set xs. fst e < k"
  by (auto simp: bt_wf_def sorted_wrt_append)

lemma bt_wf_prefix: "bt_wf (xs @ ys) \<Longrightarrow> bt_wf xs"
  by (simp add: bt_wf_def sorted_wrt_append)

lemma bt_eqI:
  assumes "bt_wf m" "bt_wf n" "\<And>k. bt_get m k = bt_get n k"
  shows "m = n"
proof -
  have d: "distinct (map fst m)" "distinct (map fst n)"
    using assms(1,2) by (auto simp: bt_wf_def strict_sorted_iff)
  have "map_of m = map_of n" using assms(3) by (rule ext)
  then have s: "set m = set n" using map_of_inject_set[OF d] by simp
  have "sorted (map fst m)" "sorted (map fst n)" "inj_on fst (set m \<union> set n)"
    using assms(1,2) d s by (simp_all add: bt_wf_def strict_sorted_iff distinct_map)
  then show ?thesis using s d by (intro map_sorted_distinct_set_unique)
qed

section \<open>Timelines\<close>

text \<open>The entries of one validator, in order of effective view, and the lookup by
  \<open>partition_point\<close> of the three \<open>key_at\<close> functions.\<close>

type_synonym 'k timeline = "(view \<times> 'k) list"

definition timeline_at :: "'k timeline \<Rightarrow> view \<Rightarrow> 'k option" where
  "timeline_at es v =
     (let i = partition_point (\<lambda>e. fst e \<le> v) es in if i = 0 then None else Some (snd (es ! (i - 1))))"

definition timeline_ok :: "'k timeline \<Rightarrow> bool" where
  "timeline_ok es \<longleftrightarrow> es \<noteq> [] \<and> sorted_wrt (<) (map fst es)"

lemma timeline_at_last_le:
  assumes "sorted_wrt (<) (map fst es)"
  shows "timeline_at es v = last_le es v"
proof -
  have "sorted (map fst es)" using assms by (simp add: strict_sorted_iff)
  then show ?thesis by (simp add: timeline_at_def last_le_partition_point)
qed

lemma timeline_ok_push:
  "timeline_ok es \<Longrightarrow> fst (last es) < v \<Longrightarrow> timeline_ok (es @ [(v, k)])"
proof -
  assume a: "timeline_ok es" "fst (last es) < v"
  then obtain xs x where es: "es = xs @ [x]" by (metis rev_exhaust timeline_ok_def)
  have "\<forall>e \<in> set es. fst e < v"
    using a unfolding es timeline_ok_def by (auto simp: sorted_wrt_append)
  then show "timeline_ok (es @ [(v, k)])" using a(1) by (simp add: timeline_ok_def sorted_wrt_append)
qed

lemma timeline_at_push:
  assumes "timeline_ok es" "fst (last es) < v"
  shows "timeline_at (es @ [(v, k)]) w = (if v \<le> w then Some k else timeline_at es w)"
  using timeline_ok_push[OF assms] assms(1)
  by (simp add: timeline_ok_def timeline_at_last_le last_le_append last_le_Cons)

lemma timeline_at_pop:
  assumes "timeline_ok es" "w < fst (last es)"
  shows "timeline_at (butlast es) w = timeline_at es w"
proof -
  obtain xs v k where es: "es = xs @ [(v, k)]"
    using assms(1) by (metis rev_exhaust timeline_ok_def surj_pair)
  have "sorted_wrt (<) (map fst xs)" using assms(1) by (simp add: es timeline_ok_def sorted_wrt_append)
  then show ?thesis using assms
    by (simp add: es timeline_ok_def timeline_at_last_le last_le_append last_le_Cons)
qed

lemma timeline_ok_pop: "timeline_ok es \<Longrightarrow> butlast es \<noteq> [] \<Longrightarrow> timeline_ok (butlast es)"
  by (cases es rule: rev_cases) (auto simp: timeline_ok_def sorted_wrt_append)

section \<open>Maps of timelines\<close>

type_synonym 'k timelines = "(node_id, 'k timeline) btree_map"

definition tm_at :: "'k timelines \<Rightarrow> node_id \<Rightarrow> view \<Rightarrow> 'k option" where
  "tm_at m i v = (case bt_get m i of None \<Rightarrow> None | Some es \<Rightarrow> timeline_at es v)"

definition tm_latest :: "'k timelines \<Rightarrow> node_id \<Rightarrow> view option" where
  "tm_latest m i = (case bt_get m i of None \<Rightarrow> None | Some es \<Rightarrow> Some (fst (last es)))"

definition tm_wf :: "'k timelines \<Rightarrow> bool" where
  "tm_wf m \<longleftrightarrow> bt_wf m \<and> (\<forall>e \<in> set m. timeline_ok (snd e))"

lemma tm_wf_get: "tm_wf m \<Longrightarrow> bt_get m i = Some es \<Longrightarrow> timeline_ok es"
  by (auto simp: tm_wf_def dest!: map_of_SomeD)

lemma tm_wf_bt [simp]: "tm_wf m \<Longrightarrow> bt_wf m"
  by (simp add: tm_wf_def)

lemma tm_wf_Nil [simp]: "tm_wf []"
  by (simp add: tm_wf_def)

lemma set_bt_insert: "set (bt_insert k v m) \<subseteq> insert (k, v) (set m)"
  by (induction k v m rule: bt_insert.induct) auto

lemma tm_wf_insert: "tm_wf m \<Longrightarrow> timeline_ok es \<Longrightarrow> tm_wf (bt_insert i es m)"
  using set_bt_insert[of i es m] by (auto simp: tm_wf_def)

lemma timeline_ok_single [simp]: "timeline_ok [e]"
  by (simp add: timeline_ok_def)

lemma tm_at_single: "timeline_at [(v, k)] w = (if v \<le> w then Some k else None)"
  using timeline_at_last_le[of "[(v, k)]" w] by (simp add: last_le_Cons)

text \<open>Pushing a later entry on the timeline of one validator.\<close>

lemma tm_push:
  assumes "tm_wf m" "bt_get m i = Some es" "fst (last es) < v"
  shows "tm_wf (bt_insert i (es @ [(v, k)]) m)"
    and "tm_latest (bt_insert i (es @ [(v, k)]) m) j = (if j = i then Some v else tm_latest m j)"
    and "tm_at (bt_insert i (es @ [(v, k)]) m) j w = (if j = i \<and> v \<le> w then Some k else tm_at m j w)"
  using assms tm_wf_get[OF assms(1,2)]
  by (auto simp: tm_wf_insert timeline_ok_push tm_latest_def tm_at_def timeline_at_push)

section \<open>Persisted form\<close>

record 'k persisted_key_entry =
  pke_v_eff :: view
  pke_key :: 'k

record 'k persisted_key_validator =
  pkv_stable_id :: node_id
  pkv_entries :: "'k persisted_key_entry list"

record 'k persisted_key_history =
  pkh_validators :: "'k persisted_key_validator list"

datatype key_load_error =
    LoadNoEntries node_id
  | LoadNotIncreasing node_id view view
  | LoadStableIdMismatch node_id node_id
  | LoadKeyClaimedTwice node_id node_id node_id

definition tm_to_persisted :: "'k timelines \<Rightarrow> 'k persisted_key_history" where
  "tm_to_persisted m =
     \<lparr> pkh_validators =
         map (\<lambda>(i, es). \<lparr> pkv_stable_id = i,
                pkv_entries = map (\<lambda>(v, k). \<lparr> pke_v_eff = v, pke_key = k \<rparr>) es \<rparr>) m \<rparr>"

text \<open>The inner loop of the loaders: entries must strictly increase in view.\<close>

fun load_entries :: "node_id \<Rightarrow> view option \<Rightarrow> 'k persisted_key_entry list \<Rightarrow> key_load_error + 'k timeline" where
  "load_entries i last_v_eff [] = Inr []"
| "load_entries i last_v_eff (e # es) =
     (if (case last_v_eff of Some prev \<Rightarrow> pke_v_eff e \<le> prev | None \<Rightarrow> False)
      then Inl (LoadNotIncreasing i (pke_v_eff e) (the last_v_eff))
      else (case load_entries i (Some (pke_v_eff e)) es of
              Inl err \<Rightarrow> Inl err
            | Inr rest \<Rightarrow> Inr ((pke_v_eff e, pke_key e) # rest)))"

definition load_validator :: "'k timelines \<Rightarrow> 'k persisted_key_validator \<Rightarrow> key_load_error + 'k timelines" where
  "load_validator m v =
     (if pkv_entries v = [] then Inl (LoadNoEntries (pkv_stable_id v))
      else (case load_entries (pkv_stable_id v) None (pkv_entries v) of
              Inl err \<Rightarrow> Inl err
            | Inr es \<Rightarrow> Inr (bt_insert (pkv_stable_id v) es m)))"

lemma load_entries_ok:
  "sorted_wrt (<) (case prev of None \<Rightarrow> map fst es | Some p \<Rightarrow> p # map fst es) \<Longrightarrow>
   load_entries i prev (map (\<lambda>(v, k). \<lparr> pke_v_eff = v, pke_key = k \<rparr>) es) = Inr es"
proof (induction es arbitrary: prev)
  case (Cons e es)
  obtain v k where e: "e = (v, k)" by (cases e)
  have "sorted_wrt (<) (v # map fst es)" using Cons.prems e by (auto split: option.splits)
  then have "load_entries i (Some v) (map (\<lambda>(v, k). \<lparr> pke_v_eff = v, pke_key = k \<rparr>) es) = Inr es"
    using Cons.IH[of "Some v"] by simp
  then show ?case using Cons.prems e by (auto split: option.splits)
qed simp

lemma load_entries_sorted:
  "load_entries i prev ps = Inr es \<Longrightarrow>
   sorted_wrt (<) (case prev of None \<Rightarrow> map fst es | Some p \<Rightarrow> p # map fst es) \<and> length es = length ps"
proof (induction ps arbitrary: prev es)
  case (Cons e ps)
  from Cons.prems obtain rest where r: "load_entries i (Some (pke_v_eff e)) ps = Inr rest"
    "es = (pke_v_eff e, pke_key e) # rest" "\<not> (case prev of Some p \<Rightarrow> pke_v_eff e \<le> p | None \<Rightarrow> False)"
    by (auto split: if_splits sum.splits)
  have s: "sorted_wrt (<) (pke_v_eff e # map fst rest)" "length rest = length ps"
    using Cons.IH[OF r(1)] by simp_all
  show ?case
  proof (cases prev)
    case None
    then show ?thesis using s r(2) by simp
  next
    case (Some p)
    then have "p < pke_v_eff e" using r(3) by simp
    then show ?thesis using s r(2) Some by (auto dest: order.strict_trans)
  qed
qed (simp split: option.splits)

lemma tm_roundtrip_from:
  "tm_wf (acc @ m) \<Longrightarrow> try_fold load_validator acc (pkh_validators (tm_to_persisted m)) = Inr (acc @ m)"
proof (induction m arbitrary: acc)
  case (Cons e m)
  obtain i es where e: "e = (i, es)" by (cases e)
  have ok: "timeline_ok es" using Cons.prems e by (simp add: tm_wf_def)
  then have l: "load_entries i None (map (\<lambda>(v, k). \<lparr> pke_v_eff = v, pke_key = k \<rparr>) es) = Inr es"
    by (intro load_entries_ok) (simp add: timeline_ok_def)
  have "bt_insert i es acc = acc @ [(i, es)]"
    using Cons.prems e by (intro bt_insert_last bt_wf_append_less[of acc i es m]) (simp add: tm_wf_def)
  moreover have "es \<noteq> []" using ok by (simp add: timeline_ok_def)
  ultimately show ?case using Cons.IH[of "acc @ [(i, es)]"] Cons.prems e l
    by (simp add: tm_to_persisted_def load_validator_def)
qed (simp add: tm_to_persisted_def)

lemmas tm_roundtrip = tm_roundtrip_from[of "[]", simplified]

lemma load_validator_wf: "tm_wf m \<Longrightarrow> load_validator m v = Inr m' \<Longrightarrow> tm_wf m'"
proof -
  assume m: "tm_wf m" and l: "load_validator m v = Inr m'"
  then obtain es where es: "load_entries (pkv_stable_id v) None (pkv_entries v) = Inr es"
    "m' = bt_insert (pkv_stable_id v) es m" "pkv_entries v \<noteq> []"
    by (auto simp: load_validator_def split: if_splits sum.splits)
  then have "timeline_ok es" using load_entries_sorted[OF es(1)] by (auto simp: timeline_ok_def)
  then show ?thesis using m es(2) tm_wf_insert by blast
qed

lemma load_wf: "try_fold load_validator [] vs = Inr m \<Longrightarrow> tm_wf m"
  by (rule try_fold_invariant[where P = tm_wf]) (auto intro: load_validator_wf)

section \<open>Contract of a key history\<close>

locale key_history =
  fixes inv :: "'h \<Rightarrow> bool"
    and key_at :: "'h \<Rightarrow> node_id \<Rightarrow> view \<Rightarrow> 'k option"
    and latest :: "'h \<Rightarrow> node_id \<Rightarrow> view option"
    and rotate :: "'h \<Rightarrow> 'q \<Rightarrow> ('e + 'h) option"
    and target :: "'h \<Rightarrow> 'q \<Rightarrow> node_id"
    and eff :: "'q \<Rightarrow> view"
    and new_key :: "'q \<Rightarrow> 'k"
  assumes rotate_returns: "inv h \<Longrightarrow> rotate h q \<noteq> None"
    and rotate_inv: "inv h \<Longrightarrow> rotate h q = Some (Inr h') \<Longrightarrow> inv h'"
    and rotate_later: "inv h \<Longrightarrow> rotate h q = Some (Inr h') \<Longrightarrow>
          \<exists>l. latest h (target h q) = Some l \<and> l < eff q"
    and latest_rotate: "inv h \<Longrightarrow> rotate h q = Some (Inr h') \<Longrightarrow>
          latest h' i = (if i = target h q then Some (eff q) else latest h i)"
    and key_at_rotate: "inv h \<Longrightarrow> rotate h q = Some (Inr h') \<Longrightarrow>
          key_at h' i w = (if i = target h q \<and> eff q \<le> w then Some (new_key q) else key_at h i w)"
begin

text \<open>A history replayed from the requests that were accepted, rejected ones being
  skipped as the appliers of the sources do.\<close>

fun replay_rotations :: "'h \<Rightarrow> 'q list \<Rightarrow> 'h option" where
  "replay_rotations h [] = Some h"
| "replay_rotations h (q # qs) =
     (case rotate h q of
        None \<Rightarrow> None
      | Some (Inl e) \<Rightarrow> replay_rotations h qs
      | Some (Inr h') \<Rightarrow> replay_rotations h' qs)"

lemma rotate_stable:
  assumes "inv h" "rotate h q = Some (Inr h')" "i \<noteq> target h q \<or> w < eff q"
  shows "key_at h' i w = key_at h i w"
  using key_at_rotate[OF assms(1,2)] assms(3) by auto

lemma latest_le: "inv h \<Longrightarrow> rotate h q = Some (Inr h') \<Longrightarrow> latest h i = Some l \<Longrightarrow>
    \<exists>l'. latest h' i = Some l' \<and> l \<le> l'"
  using latest_rotate[of h q h' i] rotate_later[of h q h'] by (auto split: if_splits)

text \<open>Replaying never panics, and never changes a key at or below the latest entry
  of its validator.\<close>

lemma replay_keeps:
  "inv h \<Longrightarrow> \<exists>h'. replay_rotations h qs = Some h' \<and> inv h'
     \<and> (\<forall>i l w. latest h i = Some l \<longrightarrow> w \<le> l \<longrightarrow> key_at h' i w = key_at h i w)"
proof (induction qs arbitrary: h)
  case (Cons q qs)
  obtain r where r: "rotate h q = Some r" using rotate_returns[OF Cons.prems] by blast
  show ?case
  proof (cases r)
    case (Inl e)
    then show ?thesis using r Cons by simp
  next
    case (Inr h1)
    have 1: "rotate h q = Some (Inr h1)" using r Inr by simp
    obtain h' where h': "replay_rotations h1 qs = Some h'" "inv h'"
      "\<forall>i l w. latest h1 i = Some l \<longrightarrow> w \<le> l \<longrightarrow> key_at h' i w = key_at h1 i w"
      using Cons.IH[OF rotate_inv[OF Cons.prems 1]] by blast
    have "key_at h' i w = key_at h i w" if l: "latest h i = Some l" "w \<le> l" for i l w
    proof -
      obtain l' where l': "latest h1 i = Some l'" "l \<le> l'" using latest_le[OF Cons.prems 1 l(1)] by blast
      have "key_at h' i w = key_at h1 i w" using h'(3) l' l(2) by fastforce
      moreover have "i \<noteq> target h q \<or> w < eff q"
        using rotate_later[OF Cons.prems 1] l by (auto intro: le_less_trans)
      ultimately show ?thesis using rotate_stable[OF Cons.prems 1] by simp
    qed
    then show ?thesis using h' 1 by auto
  qed
qed simp

end

end
