(* ===== verification/Endpoint_Registry.thy ===== *)
theory Endpoint_Registry
  imports Key_Timeline Signed_Msg
begin

text \<open>
  The registry of network endpoints per validator (\<open>endpoint_registry.rs\<close>): signed
  commands with a sequence number replace, extend or shrink the list of one
  validator. \<open>er_apply\<close> returns the registry with the result, since the code
  creates the entry of the validator before its checks. A socket address is
  opaque to the registry and is kept as its text.
\<close>

type_synonym socket_addr = string

definition ENDPOINT_TAG :: bytes where
  "ENDPOINT_TAG = ascii ''ENDPT'' @ [0]"

record endpoint_entry =
  network_id :: node_id
  network_address :: socket_addr

datatype endpoint_op =
    EpSet "endpoint_entry list"
  | EpAdd "endpoint_entry list"
  | EpRemove "node_id list"

record endpoint_command =
  ec_validator :: node_id
  ec_seq :: u64
  ec_op :: endpoint_op

definition endpoint_command_domain :: bytes where
  "endpoint_command_domain = ascii ''boule.consensus.endpoint_command.v1''"

record signed_endpoint_command =
  sec_payload :: endpoint_command
  sec_sig :: "512 word"

datatype endpoint_verify_error = EpInvalidSignature | EpPreimage signed_error

datatype endpoint_apply_error =
    NonMonotonicSeq u64 u64
  | DuplicateNetworkId node_id
  | EndpointsTooLong nat nat

record validator_endpoints =
  ve_last_seq :: u64
  ve_entries :: "endpoint_entry list"

record endpoint_registry =
  er_by_validator :: "(node_id, validator_endpoints) btree_map"
  er_max_len :: nat

definition sign_endpoint_command ::
  "(endpoint_command \<Rightarrow> bytes option) \<Rightarrow> endpoint_command \<Rightarrow> (bytes \<Rightarrow> 512 word) \<Rightarrow> chain_id
     \<Rightarrow> signed_endpoint_command option" where
  "sign_endpoint_command pc p sign c =
     (case preimage endpoint_command_domain pc p c of
        Inl _ \<Rightarrow> None
      | Inr bs \<Rightarrow> Some \<lparr> sec_payload = p, sec_sig = sign bs \<rparr>)"

definition verify_endpoint_command ::
  "(node_id \<Rightarrow> bytes \<Rightarrow> 512 word \<Rightarrow> bool) \<Rightarrow> (endpoint_command \<Rightarrow> bytes option) \<Rightarrow> signed_endpoint_command
     \<Rightarrow> node_id \<Rightarrow> chain_id \<Rightarrow> endpoint_verify_error + unit" where
  "verify_endpoint_command ed pc s signing_pubkey c =
     (case preimage endpoint_command_domain pc (sec_payload s) c of
        Inl e \<Rightarrow> Inl (EpPreimage e)
      | Inr bs \<Rightarrow> if ed signing_pubkey bs (sec_sig s) then Inr () else Inl EpInvalidSignature)"

definition encode_endpoint_command :: "(signed_endpoint_command \<Rightarrow> bytes) \<Rightarrow> signed_endpoint_command \<Rightarrow> bytes" where
  "encode_endpoint_command pc s = tagged_encode ENDPOINT_TAG pc s"

definition is_endpoint_payload :: "bytes \<Rightarrow> bool" where
  "is_endpoint_payload bs = starts_with bs ENDPOINT_TAG"

definition decode_endpoint_command ::
  "(bytes \<Rightarrow> signed_endpoint_command option) \<Rightarrow> bytes \<Rightarrow> decode_error + signed_endpoint_command" where
  "decode_endpoint_command unpc bs = tagged_decode ENDPOINT_TAG unpc bs"

definition default_endpoints :: validator_endpoints where
  "default_endpoints = \<lparr> ve_last_seq = 0, ve_entries = [] \<rparr>"

definition er_new :: "nat \<Rightarrow> endpoint_registry" where
  "er_new max_len = \<lparr> er_by_validator = [], er_max_len = max_len \<rparr>"

definition set_max_len :: "nat \<Rightarrow> endpoint_registry \<Rightarrow> endpoint_registry" where
  "set_max_len n r = r\<lparr> er_max_len := n \<rparr>"

definition endpoints_of :: "endpoint_registry \<Rightarrow> node_id \<Rightarrow> endpoint_entry list" where
  "endpoints_of r v = (case bt_get (er_by_validator r) v of Some e \<Rightarrow> ve_entries e | None \<Rightarrow> [])"

definition last_seq :: "endpoint_registry \<Rightarrow> node_id \<Rightarrow> u64" where
  "last_seq r v = (case bt_get (er_by_validator r) v of Some e \<Rightarrow> ve_last_seq e | None \<Rightarrow> 0)"

definition forget :: "endpoint_registry \<Rightarrow> node_id \<Rightarrow> bool \<times> endpoint_registry" where
  "forget r v =
     (bt_contains (er_by_validator r) v, r\<lparr> er_by_validator := bt_remove v (er_by_validator r) \<rparr>)"

fun dedup_check_loop :: "node_id list \<Rightarrow> node_id list \<Rightarrow> endpoint_apply_error + unit" where
  "dedup_check_loop seen [] = Inr ()"
| "dedup_check_loop seen (i # is) =
     (if i \<in> set seen then Inl (DuplicateNetworkId i) else dedup_check_loop (i # seen) is)"

definition dedup_check :: "node_id list \<Rightarrow> endpoint_apply_error + unit" where
  "dedup_check ids = dedup_check_loop [] ids"

definition seed :: "endpoint_registry \<Rightarrow> node_id \<Rightarrow> endpoint_entry list \<Rightarrow> endpoint_apply_error + endpoint_registry" where
  "seed r v entries =
     (if entries = [] then Inr r
      else (case dedup_check (map network_id entries) of
              Inl e \<Rightarrow> Inl e
            | Inr _ \<Rightarrow>
                if length entries > er_max_len r then Inl (EndpointsTooLong (er_max_len r) (length entries))
                else Inr (r\<lparr> er_by_validator :=
                       bt_insert v \<lparr> ve_last_seq = 0, ve_entries = entries \<rparr> (er_by_validator r) \<rparr>)))"

text \<open>The loop of the \<open>Add\<close> operation.\<close>

fun add_endpoints :: "endpoint_entry list \<Rightarrow> endpoint_entry list \<Rightarrow> endpoint_apply_error + endpoint_entry list" where
  "add_endpoints nxt [] = Inr nxt"
| "add_endpoints nxt (e # es) =
     (if list_ex (\<lambda>x. network_id x = network_id e) nxt then Inl (DuplicateNetworkId (network_id e))
      else add_endpoints (nxt @ [e]) es)"

definition propose_endpoints :: "endpoint_entry list \<Rightarrow> endpoint_op \<Rightarrow> endpoint_apply_error + endpoint_entry list" where
  "propose_endpoints cur op =
     (case op of
        EpSet entries \<Rightarrow>
          (case dedup_check (map network_id entries) of Inl e \<Rightarrow> Inl e | Inr _ \<Rightarrow> Inr entries)
      | EpAdd entries \<Rightarrow>
          (case dedup_check (map network_id entries) of Inl e \<Rightarrow> Inl e | Inr _ \<Rightarrow> add_endpoints cur entries)
      | EpRemove ids \<Rightarrow> Inr (filter (\<lambda>e. network_id e \<notin> set ids) cur))"

definition er_apply ::
  "endpoint_registry \<Rightarrow> endpoint_command \<Rightarrow> endpoint_registry \<times> (endpoint_apply_error + unit)" where
  "er_apply r cmd =
     (let cur = (case bt_get (er_by_validator r) (ec_validator cmd) of Some e \<Rightarrow> e | None \<Rightarrow> default_endpoints);
          r1 = r\<lparr> er_by_validator := bt_insert (ec_validator cmd) cur (er_by_validator r) \<rparr> in
      if ec_seq cmd \<le> ve_last_seq cur then (r1, Inl (NonMonotonicSeq (ve_last_seq cur) (ec_seq cmd)))
      else (case propose_endpoints (ve_entries cur) (ec_op cmd) of
              Inl e \<Rightarrow> (r1, Inl e)
            | Inr proposed \<Rightarrow>
                if length proposed > er_max_len r
                then (r1, Inl (EndpointsTooLong (er_max_len r) (length proposed)))
                else (r1\<lparr> er_by_validator :=
                        bt_insert (ec_validator cmd) \<lparr> ve_last_seq = ec_seq cmd, ve_entries = proposed \<rparr>
                          (er_by_validator r1) \<rparr>, Inr ())))"

section \<open>Invariant\<close>

text \<open>No endpoint list names a network id twice or exceeds the bound.\<close>

definition er_wf :: "endpoint_registry \<Rightarrow> bool" where
  "er_wf r \<longleftrightarrow> bt_wf (er_by_validator r)
     \<and> (\<forall>v. distinct (map network_id (endpoints_of r v)) \<and> length (endpoints_of r v) \<le> er_max_len r)"

lemma dedup_check_loop_ok:
  "dedup_check_loop seen ids = Inr () \<longleftrightarrow> distinct ids \<and> set seen \<inter> set ids = {}"
  by (induction seen ids rule: dedup_check_loop.induct) auto

lemma dedup_check_ok: "dedup_check ids = Inr () \<longleftrightarrow> distinct ids"
  by (simp add: dedup_check_def dedup_check_loop_ok)

lemma add_endpoints_ok:
  "add_endpoints nxt es = Inr out \<Longrightarrow> distinct (map network_id nxt) \<Longrightarrow>
     out = nxt @ es \<and> distinct (map network_id out)"
proof (induction nxt es arbitrary: out rule: add_endpoints.induct)
  case (2 nxt e es)
  then have a: "\<not> list_ex (\<lambda>x. network_id x = network_id e) nxt" "add_endpoints (nxt @ [e]) es = Inr out"
    by (auto split: if_splits)
  then have "distinct (map network_id (nxt @ [e]))" using 2(3) by (auto simp: list_ex_iff)
  then have "out = (nxt @ [e]) @ es \<and> distinct (map network_id out)" by (rule 2(1)[OF a])
  then show ?case by (metis append.assoc append_Cons append_Nil)
qed simp

lemma propose_endpoints_distinct:
  "propose_endpoints cur op = Inr out \<Longrightarrow> distinct (map network_id cur) \<Longrightarrow> distinct (map network_id out)"
  by (auto simp: propose_endpoints_def dedup_check_ok dest: add_endpoints_ok
      split: endpoint_op.splits sum.splits intro: distinct_map_filter)

lemma er_wf_update:
  assumes "er_wf r" "distinct (map network_id es)" "length es \<le> er_max_len r"
  shows "er_wf (r\<lparr> er_by_validator := bt_insert v \<lparr> ve_last_seq = s, ve_entries = es \<rparr> (er_by_validator r) \<rparr>)"
  using assms by (auto simp: er_wf_def endpoints_of_def)

lemma er_touch:
  assumes "er_wf r" "cur = (case bt_get (er_by_validator r) v of Some e \<Rightarrow> e | None \<Rightarrow> default_endpoints)"
  shows "er_wf (r\<lparr> er_by_validator := bt_insert v cur (er_by_validator r) \<rparr>)"
    and "endpoints_of (r\<lparr> er_by_validator := bt_insert v cur (er_by_validator r) \<rparr>) w = endpoints_of r w"
    and "last_seq (r\<lparr> er_by_validator := bt_insert v cur (er_by_validator r) \<rparr>) w = last_seq r w"
    and "distinct (map network_id (ve_entries cur))" "ve_entries cur = endpoints_of r v" "ve_last_seq cur = last_seq r v"
proof -
  have wf: "bt_wf (er_by_validator r)" using assms(1) by (simp add: er_wf_def)
  show e: "endpoints_of (r\<lparr> er_by_validator := bt_insert v cur (er_by_validator r) \<rparr>) w = endpoints_of r w" for w
    using assms(2) wf by (auto simp: endpoints_of_def default_endpoints_def split: option.splits)
  show "last_seq (r\<lparr> er_by_validator := bt_insert v cur (er_by_validator r) \<rparr>) w = last_seq r w"
    using assms(2) wf by (auto simp: last_seq_def default_endpoints_def split: option.splits)
  show "er_wf (r\<lparr> er_by_validator := bt_insert v cur (er_by_validator r) \<rparr>)"
    using assms(1) wf by (simp add: er_wf_def e)
  show 1: "ve_entries cur = endpoints_of r v"
    using assms(2) by (auto simp: endpoints_of_def default_endpoints_def split: option.splits)
  show "distinct (map network_id (ve_entries cur))" using assms(1) 1 by (simp add: er_wf_def)
  show "ve_last_seq cur = last_seq r v"
    using assms(2) by (auto simp: last_seq_def default_endpoints_def split: option.splits)
qed

text \<open>C13: applying an endpoint command keeps the registry consistent (no duplicate
  network id, no list above the bound), accepts a command only with a sequence
  number above the last one it accepted for that validator, leaves every other
  validator alone, and on a rejection leaves every visible list and sequence
  number as it was. A replayed command is therefore always rejected.\<close>

theorem endpoint_apply_safe:
  assumes "er_wf r"
  shows "er_wf (fst (er_apply r cmd))
    \<and> (snd (er_apply r cmd) = Inr () \<longrightarrow>
         last_seq r (ec_validator cmd) < ec_seq cmd
         \<and> last_seq (fst (er_apply r cmd)) (ec_validator cmd) = ec_seq cmd
         \<and> propose_endpoints (endpoints_of r (ec_validator cmd)) (ec_op cmd)
             = Inr (endpoints_of (fst (er_apply r cmd)) (ec_validator cmd))
         \<and> (\<forall>w. w \<noteq> ec_validator cmd \<longrightarrow> endpoints_of (fst (er_apply r cmd)) w = endpoints_of r w
               \<and> last_seq (fst (er_apply r cmd)) w = last_seq r w))
    \<and> (snd (er_apply r cmd) \<noteq> Inr () \<longrightarrow>
         (\<forall>w. endpoints_of (fst (er_apply r cmd)) w = endpoints_of r w
            \<and> last_seq (fst (er_apply r cmd)) w = last_seq r w))"
proof -
  define cur where "cur = (case bt_get (er_by_validator r) (ec_validator cmd) of Some e \<Rightarrow> e | None \<Rightarrow> default_endpoints)"
  define r1 where "r1 = r\<lparr> er_by_validator := bt_insert (ec_validator cmd) cur (er_by_validator r) \<rparr>"
  note t = er_touch[OF assms cur_def]
  have r1: "er_wf r1" "\<And>w. endpoints_of r1 w = endpoints_of r w" "\<And>w. last_seq r1 w = last_seq r w"
    "er_max_len r1 = er_max_len r" "bt_wf (er_by_validator r1)"
    using t(1,2,3) by (simp_all add: r1_def er_wf_def)
  show ?thesis
  proof (cases "ec_seq cmd \<le> ve_last_seq cur")
    case True
    then show ?thesis using r1 by (simp add: er_apply_def Let_def flip: cur_def r1_def)
  next
    case seq: False
    show ?thesis
    proof (cases "propose_endpoints (ve_entries cur) (ec_op cmd)")
      case (Inl e)
      then show ?thesis using r1 seq by (simp add: er_apply_def Let_def flip: cur_def r1_def)
    next
      case (Inr proposed)
      let ?r2 = "r1\<lparr> er_by_validator := bt_insert (ec_validator cmd)
          \<lparr> ve_last_seq = ec_seq cmd, ve_entries = proposed \<rparr> (er_by_validator r1) \<rparr>"
      show ?thesis
      proof (cases "length proposed > er_max_len r")
        case True
        then show ?thesis using r1 seq Inr by (simp add: er_apply_def Let_def flip: cur_def r1_def)
      next
        case False
        have a: "er_apply r cmd = (?r2, Inr ())"
          using seq Inr False by (simp add: er_apply_def Let_def flip: cur_def r1_def)
        have "er_wf ?r2"
          using er_wf_update[OF r1(1), of proposed] propose_endpoints_distinct[OF Inr t(4)] False r1(4) by simp
        moreover have "endpoints_of ?r2 w = (if w = ec_validator cmd then proposed else endpoints_of r w)"
          "last_seq ?r2 w = (if w = ec_validator cmd then ec_seq cmd else last_seq r w)" for w
          using r1 by (simp_all add: endpoints_of_def last_seq_def)
        ultimately show ?thesis using a seq Inr t(5,6) by simp
      qed
    qed
  qed
qed

definition demo_endpoint :: endpoint_entry where
  "demo_endpoint = \<lparr> network_id = 7, network_address = ''a'' \<rparr>"

theorem endpoint_apply_safe_witness:
  "er_wf (er_new 4) \<and> last_seq (fst (er_apply (er_new 4)
      \<lparr> ec_validator = 1, ec_seq = 3, ec_op = EpSet [demo_endpoint] \<rparr>)) 1 = 3"
proof -
  have w: "er_wf (er_new 4)" by (simp add: er_wf_def er_new_def endpoints_of_def)
  have "snd (er_apply (er_new 4) \<lparr> ec_validator = 1, ec_seq = 3, ec_op = EpSet [demo_endpoint] \<rparr>) = Inr ()"
    by (simp add: er_apply_def er_new_def default_endpoints_def propose_endpoints_def dedup_check_def Let_def)
  then show ?thesis
    using w endpoint_apply_safe[OF w, of "\<lparr> ec_validator = 1, ec_seq = 3, ec_op = EpSet [demo_endpoint] \<rparr>"] by simp
qed

lemma seed_wf: "er_wf r \<Longrightarrow> seed r v es = Inr r' \<Longrightarrow> er_wf r'"
  by (auto simp: seed_def dedup_check_ok er_wf_update split: if_splits sum.splits)

lemma forget_wf: "er_wf r \<Longrightarrow> er_wf (snd (forget r v))"
  by (auto simp: er_wf_def forget_def endpoints_of_def split: option.splits)

end
