(* ===== verification/Validator_Rotation.thy ===== *)
theory Validator_Rotation
  imports Signed_Msg
begin

text \<open>
  Key-rotation commands (\<open>validator_rotation.rs\<close>): the payloads, their structural
  checks, the four doubly signed envelopes with their framing, signing and
  verification. The Ed25519 check, the pairing library and the postcard codec
  are the fields of \<open>rotation_env\<close>. The construction of envelopes from
  command-line requests is not modelled.
\<close>

definition ROTATION_TAG :: bytes where
  "ROTATION_TAG = ascii ''VKROT'' @ [0]"

definition ROTATION_CANCEL_TAG :: bytes where
  "ROTATION_CANCEL_TAG = ascii ''VKCAN'' @ [0]"

definition OPERATOR_ROTATION_TAG :: bytes where
  "OPERATOR_ROTATION_TAG = ascii ''VKOPR'' @ [0]"

definition OPERATOR_KEY_ROTATION_TAG :: bytes where
  "OPERATOR_KEY_ROTATION_TAG = ascii ''OKROT'' @ [0]"

definition V_EFF_MIN_DELAY :: view where
  "V_EFF_MIN_DELAY = 2"

type_synonym ed_sig = "512 word"

record validator_key_rotation =
  vkr_validator :: node_id
  vkr_new_pubkey :: node_id
  vkr_v_eff :: view
  vkr_new_bls_pubkey :: "bls_pk option"
  vkr_new_bls_pop :: "bls_pop option"

definition rotation_domain :: bytes where
  "rotation_domain = ascii ''boule.consensus.validator_rotation.v1''"

record dual_signed_rotation =
  dsr_payload :: validator_key_rotation
  dsr_sig_old :: ed_sig
  dsr_sig_new :: ed_sig

record operator_signed_rotation =
  osr_payload :: validator_key_rotation
  osr_sig_operator :: ed_sig
  osr_sig_new :: ed_sig

record operator_key_rotation =
  okr_validator :: node_id
  okr_new_operator_pubkey :: node_id
  okr_v_eff :: view

definition operator_key_rotation_domain :: bytes where
  "operator_key_rotation_domain = ascii ''boule.consensus.operator_key_rotation.v1''"

record dual_signed_operator_rotation =
  dso_payload :: operator_key_rotation
  dso_sig_old :: ed_sig
  dso_sig_new :: ed_sig

record validator_rotation_cancel =
  vrc_validator :: node_id
  vrc_cancelling_v_eff :: view

definition rotation_cancel_domain :: bytes where
  "rotation_cancel_domain = ascii ''boule.consensus.validator_rotation_cancel.v1''"

record dual_signed_rotation_cancel =
  dsc_payload :: validator_rotation_cancel
  dsc_sig_old :: ed_sig
  dsc_sig_new :: ed_sig

datatype rotation_structural_error =
    EffectiveViewTooSoon view view
  | NewKeyEqualsValidator
  | BlsFieldsInconsistentWithScheme bool bool
  | BlsPopVerificationFailed

datatype rotation_verify_error =
    InvalidOldSignature
  | InvalidNewSignature
  | PreimageError signed_error
  | InvalidOperatorSignature

text \<open>A \<open>Signer\<close> trait object.\<close>

record node_signer =
  sgn_node_id :: node_id
  sgn_sign :: "bytes \<Rightarrow> ed_sig"

datatype rotation_sign_error = NewSignerMismatch | SignPreimage signed_error

text \<open>The third-party code the commands rely on.\<close>

record ('g1, 'g2) rotation_env =
  re_ed :: "node_id \<Rightarrow> bytes \<Rightarrow> ed_sig \<Rightarrow> bool"
  re_bls :: "('g1, 'g2) bls_prims"
  re_pc_rotation :: "validator_key_rotation \<Rightarrow> bytes option"
  re_pc_operator_key :: "operator_key_rotation \<Rightarrow> bytes option"
  re_pc_cancel :: "validator_rotation_cancel \<Rightarrow> bytes option"
  re_un_rotation :: "bytes \<Rightarrow> dual_signed_rotation option"
  re_un_operator :: "bytes \<Rightarrow> operator_signed_rotation option"
  re_un_operator_key :: "bytes \<Rightarrow> dual_signed_operator_rotation option"
  re_un_cancel :: "bytes \<Rightarrow> dual_signed_rotation_cancel option"

section \<open>Payload checks\<close>

definition rotation_validate_structural ::
  "validator_key_rotation \<Rightarrow> view \<Rightarrow> rotation_structural_error + unit" where
  "rotation_validate_structural r current_view =
     (if vkr_v_eff r < saturating_add current_view V_EFF_MIN_DELAY
      then Inl (EffectiveViewTooSoon current_view (vkr_v_eff r))
      else if vkr_new_pubkey r = vkr_validator r then Inl NewKeyEqualsValidator
      else Inr ())"

definition validate_scheme_consistency ::
  "('g1, 'g2) bls_prims \<Rightarrow> validator_key_rotation \<Rightarrow> chain_id \<Rightarrow> rotation_structural_error + unit" where
  "validate_scheme_consistency bp r c =
     (case (vkr_new_bls_pubkey r, vkr_new_bls_pop r) of
        (Some pk, Some pop) \<Rightarrow>
          (case verify_pop bp pop pk c of
             Inl _ \<Rightarrow> Inl BlsPopVerificationFailed
           | Inr _ \<Rightarrow> Inr ())
      | (pk, pop) \<Rightarrow> Inl (BlsFieldsInconsistentWithScheme (pk \<noteq> None) (pop \<noteq> None)))"

section \<open>Envelopes\<close>

text \<open>The body shared by the four \<open>verify\<close> functions: two Ed25519 checks over one
  preimage, the first failure reported.\<close>

definition verify_pair ::
  "(node_id \<Rightarrow> bytes \<Rightarrow> ed_sig \<Rightarrow> bool) \<Rightarrow> signed_error + bytes \<Rightarrow> node_id \<Rightarrow> ed_sig \<Rightarrow> rotation_verify_error
     \<Rightarrow> node_id \<Rightarrow> ed_sig \<Rightarrow> rotation_verify_error + unit" where
  "verify_pair ed pre key1 sig1 err1 key2 sig2 =
     (case pre of
        Inl e \<Rightarrow> Inl (PreimageError e)
      | Inr bs \<Rightarrow>
          if \<not> ed key1 bs sig1 then Inl err1
          else if \<not> ed key2 bs sig2 then Inl InvalidNewSignature
          else Inr ())"

definition encode_rotation :: "(dual_signed_rotation \<Rightarrow> bytes) \<Rightarrow> dual_signed_rotation \<Rightarrow> bytes" where
  "encode_rotation pc e = tagged_encode ROTATION_TAG pc e"

definition is_rotation_payload :: "bytes \<Rightarrow> bool" where
  "is_rotation_payload bs = starts_with bs ROTATION_TAG"

definition decode_rotation :: "('g1, 'g2) rotation_env \<Rightarrow> bytes \<Rightarrow> decode_error + dual_signed_rotation" where
  "decode_rotation env bs = tagged_decode ROTATION_TAG (re_un_rotation env) bs"

definition sign_rotation ::
  "(validator_key_rotation \<Rightarrow> bytes option) \<Rightarrow> validator_key_rotation \<Rightarrow> node_signer \<Rightarrow> node_signer \<Rightarrow> chain_id
     \<Rightarrow> rotation_sign_error + dual_signed_rotation" where
  "sign_rotation pc p current new c =
     (if sgn_node_id new \<noteq> vkr_new_pubkey p then Inl NewSignerMismatch
      else (case preimage rotation_domain pc p c of
              Inl e \<Rightarrow> Inl (SignPreimage e)
            | Inr bs \<Rightarrow> Inr \<lparr> dsr_payload = p, dsr_sig_old = sgn_sign current bs, dsr_sig_new = sgn_sign new bs \<rparr>))"

definition verify_rotation ::
  "('g1, 'g2) rotation_env \<Rightarrow> dual_signed_rotation \<Rightarrow> node_id \<Rightarrow> chain_id \<Rightarrow> rotation_verify_error + unit" where
  "verify_rotation env e current_pubkey c =
     verify_pair (re_ed env) (preimage rotation_domain (re_pc_rotation env) (dsr_payload e) c)
       current_pubkey (dsr_sig_old e) InvalidOldSignature
       (vkr_new_pubkey (dsr_payload e)) (dsr_sig_new e)"

definition encode_operator_rotation :: "(operator_signed_rotation \<Rightarrow> bytes) \<Rightarrow> operator_signed_rotation \<Rightarrow> bytes" where
  "encode_operator_rotation pc e = tagged_encode OPERATOR_ROTATION_TAG pc e"

definition is_operator_rotation_payload :: "bytes \<Rightarrow> bool" where
  "is_operator_rotation_payload bs = starts_with bs OPERATOR_ROTATION_TAG"

definition decode_operator_rotation ::
  "('g1, 'g2) rotation_env \<Rightarrow> bytes \<Rightarrow> decode_error + operator_signed_rotation" where
  "decode_operator_rotation env bs = tagged_decode OPERATOR_ROTATION_TAG (re_un_operator env) bs"

definition sign_operator_rotation ::
  "(validator_key_rotation \<Rightarrow> bytes option) \<Rightarrow> validator_key_rotation \<Rightarrow> node_signer \<Rightarrow> node_signer \<Rightarrow> chain_id
     \<Rightarrow> rotation_sign_error + operator_signed_rotation" where
  "sign_operator_rotation pc p operator new c =
     (if sgn_node_id new \<noteq> vkr_new_pubkey p then Inl NewSignerMismatch
      else (case preimage rotation_domain pc p c of
              Inl e \<Rightarrow> Inl (SignPreimage e)
            | Inr bs \<Rightarrow> Inr \<lparr> osr_payload = p, osr_sig_operator = sgn_sign operator bs, osr_sig_new = sgn_sign new bs \<rparr>))"

definition verify_operator_rotation ::
  "('g1, 'g2) rotation_env \<Rightarrow> operator_signed_rotation \<Rightarrow> node_id \<Rightarrow> chain_id \<Rightarrow> rotation_verify_error + unit" where
  "verify_operator_rotation env e operator_pubkey c =
     verify_pair (re_ed env) (preimage rotation_domain (re_pc_rotation env) (osr_payload e) c)
       operator_pubkey (osr_sig_operator e) InvalidOperatorSignature
       (vkr_new_pubkey (osr_payload e)) (osr_sig_new e)"

definition encode_operator_key_rotation ::
  "(dual_signed_operator_rotation \<Rightarrow> bytes) \<Rightarrow> dual_signed_operator_rotation \<Rightarrow> bytes" where
  "encode_operator_key_rotation pc e = tagged_encode OPERATOR_KEY_ROTATION_TAG pc e"

definition is_operator_key_rotation_payload :: "bytes \<Rightarrow> bool" where
  "is_operator_key_rotation_payload bs = starts_with bs OPERATOR_KEY_ROTATION_TAG"

definition decode_operator_key_rotation ::
  "('g1, 'g2) rotation_env \<Rightarrow> bytes \<Rightarrow> decode_error + dual_signed_operator_rotation" where
  "decode_operator_key_rotation env bs = tagged_decode OPERATOR_KEY_ROTATION_TAG (re_un_operator_key env) bs"

definition sign_operator_key_rotation ::
  "(operator_key_rotation \<Rightarrow> bytes option) \<Rightarrow> operator_key_rotation \<Rightarrow> node_signer \<Rightarrow> node_signer \<Rightarrow> chain_id
     \<Rightarrow> rotation_sign_error + dual_signed_operator_rotation" where
  "sign_operator_key_rotation pc p old new c =
     (if sgn_node_id new \<noteq> okr_new_operator_pubkey p then Inl NewSignerMismatch
      else (case preimage operator_key_rotation_domain pc p c of
              Inl e \<Rightarrow> Inl (SignPreimage e)
            | Inr bs \<Rightarrow> Inr \<lparr> dso_payload = p, dso_sig_old = sgn_sign old bs, dso_sig_new = sgn_sign new bs \<rparr>))"

definition verify_operator_key_rotation ::
  "('g1, 'g2) rotation_env \<Rightarrow> dual_signed_operator_rotation \<Rightarrow> node_id \<Rightarrow> chain_id
     \<Rightarrow> rotation_verify_error + unit" where
  "verify_operator_key_rotation env e current_operator_pubkey c =
     verify_pair (re_ed env) (preimage operator_key_rotation_domain (re_pc_operator_key env) (dso_payload e) c)
       current_operator_pubkey (dso_sig_old e) InvalidOldSignature
       (okr_new_operator_pubkey (dso_payload e)) (dso_sig_new e)"

definition encode_rotation_cancel ::
  "(dual_signed_rotation_cancel \<Rightarrow> bytes) \<Rightarrow> dual_signed_rotation_cancel \<Rightarrow> bytes" where
  "encode_rotation_cancel pc e = tagged_encode ROTATION_CANCEL_TAG pc e"

definition is_cancel_payload :: "bytes \<Rightarrow> bool" where
  "is_cancel_payload bs = starts_with bs ROTATION_CANCEL_TAG"

definition decode_rotation_cancel ::
  "('g1, 'g2) rotation_env \<Rightarrow> bytes \<Rightarrow> decode_error + dual_signed_rotation_cancel" where
  "decode_rotation_cancel env bs = tagged_decode ROTATION_CANCEL_TAG (re_un_cancel env) bs"

definition sign_rotation_cancel ::
  "(validator_rotation_cancel \<Rightarrow> bytes option) \<Rightarrow> validator_rotation_cancel \<Rightarrow> node_signer \<Rightarrow> node_signer \<Rightarrow> chain_id
     \<Rightarrow> rotation_sign_error + dual_signed_rotation_cancel" where
  "sign_rotation_cancel pc p current new c =
     (case preimage rotation_cancel_domain pc p c of
        Inl e \<Rightarrow> Inl (SignPreimage e)
      | Inr bs \<Rightarrow> Inr \<lparr> dsc_payload = p, dsc_sig_old = sgn_sign current bs, dsc_sig_new = sgn_sign new bs \<rparr>)"

definition verify_rotation_cancel ::
  "('g1, 'g2) rotation_env \<Rightarrow> dual_signed_rotation_cancel \<Rightarrow> node_id \<Rightarrow> node_id \<Rightarrow> chain_id
     \<Rightarrow> rotation_verify_error + unit" where
  "verify_rotation_cancel env e current_pubkey pending_new_pubkey c =
     verify_pair (re_ed env) (preimage rotation_cancel_domain (re_pc_cancel env) (dsc_payload e) c)
       current_pubkey (dsc_sig_old e) InvalidOldSignature
       pending_new_pubkey (dsc_sig_new e)"

section \<open>Laws\<close>

lemma verify_pair_ok:
  "verify_pair ed pre k1 s1 e1 k2 s2 = Inr () \<longleftrightarrow> (\<exists>bs. pre = Inr bs \<and> ed k1 bs s1 \<and> ed k2 bs s2)"
  by (auto simp: verify_pair_def split: sum.splits)

text \<open>A signer that the check accepts for its own node id.\<close>

definition honest_signer :: "(node_id \<Rightarrow> bytes \<Rightarrow> ed_sig \<Rightarrow> bool) \<Rightarrow> node_signer \<Rightarrow> bool" where
  "honest_signer ed s \<longleftrightarrow> (\<forall>bs. ed (sgn_node_id s) bs (sgn_sign s bs))"

lemma sign_verify_rotation:
  assumes "honest_signer (re_ed env) current" "honest_signer (re_ed env) new"
    and "sign_rotation (re_pc_rotation env) p current new c = Inr e"
  shows "verify_rotation env e (sgn_node_id current) c = Inr ()"
  using assms
  by (auto simp: sign_rotation_def verify_rotation_def verify_pair_ok honest_signer_def split: if_splits sum.splits)

lemma rotation_tags_distinct:
  "distinct [ROTATION_TAG, ROTATION_CANCEL_TAG, OPERATOR_ROTATION_TAG, OPERATOR_KEY_ROTATION_TAG]"
  by (simp add: ROTATION_TAG_def ROTATION_CANCEL_TAG_def OPERATOR_ROTATION_TAG_def
      OPERATOR_KEY_ROTATION_TAG_def ascii_def of_char_def)

lemma rotation_tag_lengths:
  "length ROTATION_TAG = 6" "length ROTATION_CANCEL_TAG = 6"
  "length OPERATOR_ROTATION_TAG = 6" "length OPERATOR_KEY_ROTATION_TAG = 6"
  by (simp_all add: ROTATION_TAG_def ROTATION_CANCEL_TAG_def OPERATOR_ROTATION_TAG_def
      OPERATOR_KEY_ROTATION_TAG_def ascii_def)


end
