(* ===== verification/Reconfig.thy ===== *)
theory Reconfig
  imports Validator_Set Endpoint_Registry Validator_Rotation
begin

text \<open>
  Reconfiguration commands (\<open>reconfig.rs\<close>, \<open>reconfig_consent.rs\<close>): additions,
  removals and weight changes of validators, their framing, the operator's
  consent to an addition, and the validation that computes the next set. The
  reading of key files and the command-line builders are not modelled.
\<close>

definition RECONFIG_TAG :: bytes where
  "RECONFIG_TAG = ascii ''RECFG'' @ [0]"

definition MIN_VALIDATOR_FLOOR :: nat where
  "MIN_VALIDATOR_FLOOR = 4"

definition MIN_V_EFF_DELAY :: view where
  "MIN_V_EFF_DELAY = 4"

record validator_entry =
  ve_node_id :: node_id
  ve_addr :: socket_addr
  ve_bls_pop :: "bls_pop option"
  ve_weight :: u64
  ve_operator_pubkey :: "node_id option"
  ve_consent_sig :: "ed_sig option"
  ve_initial_endpoints :: "endpoint_entry list"

record weight_change =
  wc_node_id :: node_id
  wc_weight :: u64

record reconfig_command =
  rc_adds :: "validator_entry list"
  rc_removes :: "node_id list"
  rc_changes :: "weight_change list"
  rc_v_eff :: view

definition encode_reconfig :: "(reconfig_command \<Rightarrow> bytes) \<Rightarrow> reconfig_command \<Rightarrow> bytes" where
  "encode_reconfig pc c = tagged_encode RECONFIG_TAG pc c"

definition is_reconfig_payload :: "bytes \<Rightarrow> bool" where
  "is_reconfig_payload bs = starts_with bs RECONFIG_TAG"

definition decode_reconfig :: "(bytes \<Rightarrow> reconfig_command option) \<Rightarrow> bytes \<Rightarrow> decode_error + reconfig_command" where
  "decode_reconfig unpc bs = tagged_decode RECONFIG_TAG unpc bs"

definition build_add_validator_payload ::
  "(reconfig_command \<Rightarrow> bytes) \<Rightarrow> node_id \<Rightarrow> socket_addr \<Rightarrow> u64 \<Rightarrow> view \<Rightarrow> bytes" where
  "build_add_validator_payload pc node addr weight v_eff =
     encode_reconfig pc
       \<lparr> rc_adds = [\<lparr> ve_node_id = node, ve_addr = addr, ve_bls_pop = None, ve_weight = weight,
                     ve_operator_pubkey = None, ve_consent_sig = None, ve_initial_endpoints = [] \<rparr>],
         rc_removes = [], rc_changes = [], rc_v_eff = v_eff \<rparr>"

definition build_remove_validator_payload :: "(reconfig_command \<Rightarrow> bytes) \<Rightarrow> node_id \<Rightarrow> view \<Rightarrow> bytes" where
  "build_remove_validator_payload pc node v_eff =
     encode_reconfig pc \<lparr> rc_adds = [], rc_removes = [node], rc_changes = [], rc_v_eff = v_eff \<rparr>"

definition build_change_weight_payload :: "(reconfig_command \<Rightarrow> bytes) \<Rightarrow> node_id \<Rightarrow> u64 \<Rightarrow> view \<Rightarrow> bytes" where
  "build_change_weight_payload pc node weight v_eff =
     encode_reconfig pc \<lparr> rc_adds = [], rc_removes = [],
       rc_changes = [\<lparr> wc_node_id = node, wc_weight = weight \<rparr>], rc_v_eff = v_eff \<rparr>"

section \<open>Consent of the operator\<close>

record reconfig_add_consent =
  rac_node_id :: node_id
  rac_addr :: socket_addr
  rac_bls_pop :: "bls_pop option"
  rac_weight :: u64
  rac_operator_pubkey :: node_id
  rac_v_eff :: view
  rac_initial_endpoints :: "endpoint_entry list"

definition reconfig_consent_domain :: bytes where
  "reconfig_consent_domain = ascii ''boule.consensus.reconfig_add_consent.v1''"

datatype consent_verify_error = InvalidConsentSignature | ConsentPreimage signed_error

definition consent_for_entry :: "validator_entry \<Rightarrow> view \<Rightarrow> reconfig_add_consent option" where
  "consent_for_entry e v_eff =
     (case ve_operator_pubkey e of
        None \<Rightarrow> None
      | Some operator \<Rightarrow> Some \<lparr> rac_node_id = ve_node_id e, rac_addr = ve_addr e, rac_bls_pop = ve_bls_pop e,
          rac_weight = ve_weight e, rac_operator_pubkey = operator, rac_v_eff = v_eff,
          rac_initial_endpoints = ve_initial_endpoints e \<rparr>)"

definition consent_sign ::
  "(reconfig_add_consent \<Rightarrow> bytes option) \<Rightarrow> reconfig_add_consent \<Rightarrow> node_signer \<Rightarrow> chain_id \<Rightarrow> signed_error + ed_sig" where
  "consent_sign pc a operator c =
     (case preimage reconfig_consent_domain pc a c of Inl e \<Rightarrow> Inl e | Inr bs \<Rightarrow> Inr (sgn_sign operator bs))"

definition consent_verify ::
  "(node_id \<Rightarrow> bytes \<Rightarrow> ed_sig \<Rightarrow> bool) \<Rightarrow> (reconfig_add_consent \<Rightarrow> bytes option) \<Rightarrow> reconfig_add_consent
     \<Rightarrow> ed_sig \<Rightarrow> chain_id \<Rightarrow> consent_verify_error + unit" where
  "consent_verify ed pc a s c =
     (case preimage reconfig_consent_domain pc a c of
        Inl e \<Rightarrow> Inl (ConsentPreimage e)
      | Inr bs \<Rightarrow> if ed (rac_operator_pubkey a) bs s then Inr () else Inl InvalidConsentSignature)"

section \<open>Validation\<close>

datatype reconfig_error =
    DelayOverflow view view
  | VeffTooSoon view view view
  | AddZeroWeight node_id
  | ChangeZeroWeight node_id
  | DuplicateAdd node_id
  | DuplicateRemove node_id
  | DuplicateChange node_id
  | InAddsAndRemoves node_id
  | InAddsAndChanges node_id
  | InRemovesAndChanges node_id
  | RemoveNonMember node_id
  | AddExistingMember node_id
  | ChangeNonMember node_id
  | BadPop node_id bls_key_error
  | MissingPop node_id
  | MissingConsent node_id
  | BadConsent node_id consent_verify_error
  | BelowFloor nat nat

text \<open>The third-party code a reconfiguration relies on.\<close>

record ('g1, 'g2) reconfig_env =
  rv_ed :: "node_id \<Rightarrow> bytes \<Rightarrow> ed_sig \<Rightarrow> bool"
  rv_bls :: "('g1, 'g2) bls_prims"
  rv_pc_consent :: "reconfig_add_consent \<Rightarrow> bytes option"
  rv_un_reconfig :: "bytes \<Rightarrow> reconfig_command option"

text \<open>Inserting one by one into a fresh \<open>BTreeSet\<close> stops at the first repetition.\<close>

fun first_repeat :: "'a list \<Rightarrow> 'a list \<Rightarrow> 'a option" where
  "first_repeat seen [] = None"
| "first_repeat seen (x # xs) = (if x \<in> set seen then Some x else first_repeat (x # seen) xs)"

text \<open>The first failing check of a \<open>for\<close> loop.\<close>

definition first_error :: "('a \<Rightarrow> 'e option) \<Rightarrow> 'a list \<Rightarrow> 'e option" where
  "first_error f xs = (case List.map_filter f xs of [] \<Rightarrow> None | e # _ \<Rightarrow> Some e)"

definition pop_error :: "('g1, 'g2) reconfig_env \<Rightarrow> chain_id \<Rightarrow> validator_entry \<Rightarrow> reconfig_error option" where
  "pop_error env c e =
     (case ve_bls_pop e of
        Some pop \<Rightarrow> (case verify_pop (rv_bls env) pop (pop_pubkey pop) c of
            Inl err \<Rightarrow> Some (BadPop (ve_node_id e) err)
          | Inr _ \<Rightarrow> None)
      | None \<Rightarrow> Some (MissingPop (ve_node_id e)))"

definition consent_error ::
  "('g1, 'g2) reconfig_env \<Rightarrow> chain_id \<Rightarrow> view \<Rightarrow> validator_entry \<Rightarrow> reconfig_error option" where
  "consent_error env c v_eff e =
     (case consent_for_entry e v_eff of
        None \<Rightarrow> None
      | Some consent \<Rightarrow>
          (case ve_consent_sig e of
             None \<Rightarrow> Some (MissingConsent (ve_node_id e))
           | Some s \<Rightarrow> (case consent_verify (rv_ed env) (rv_pc_consent env) consent s c of
                 Inl err \<Rightarrow> Some (BadConsent (ve_node_id e) err)
               | Inr _ \<Rightarrow> None)))"

text \<open>The checks on identifiers (lines 160 to 241), in the order of the code.\<close>

definition reconfig_id_error :: "reconfig_command \<Rightarrow> validator_set \<Rightarrow> reconfig_error option" where
  "reconfig_id_error cmd current =
     (let adds = map ve_node_id (rc_adds cmd); removes = rc_removes cmd;
          changes = map wc_node_id (rc_changes cmd) in
      case find (\<lambda>e. ve_weight e = 0) (rc_adds cmd) of Some e \<Rightarrow> Some (AddZeroWeight (ve_node_id e)) | None \<Rightarrow>
     (case find (\<lambda>e. wc_weight e = 0) (rc_changes cmd) of Some e \<Rightarrow> Some (ChangeZeroWeight (wc_node_id e)) | None \<Rightarrow>
     (case first_repeat [] adds of Some n \<Rightarrow> Some (DuplicateAdd n) | None \<Rightarrow>
     (case first_repeat [] removes of Some n \<Rightarrow> Some (DuplicateRemove n) | None \<Rightarrow>
     (case first_repeat [] changes of Some n \<Rightarrow> Some (DuplicateChange n) | None \<Rightarrow>
     (case find (\<lambda>n. n \<in> set removes) (btree_set adds) of Some n \<Rightarrow> Some (InAddsAndRemoves n) | None \<Rightarrow>
     (case find (\<lambda>n. n \<in> set changes) (btree_set adds) of Some n \<Rightarrow> Some (InAddsAndChanges n) | None \<Rightarrow>
     (case find (\<lambda>n. n \<in> set changes) (btree_set removes) of Some n \<Rightarrow> Some (InRemovesAndChanges n) | None \<Rightarrow>
     (case find (\<lambda>n. \<not> vs_contains current n) (btree_set removes) of Some n \<Rightarrow> Some (RemoveNonMember n) | None \<Rightarrow>
     (case find (\<lambda>n. vs_contains current n) (btree_set adds) of Some n \<Rightarrow> Some (AddExistingMember n) | None \<Rightarrow>
     (case find (\<lambda>n. \<not> vs_contains current n) (btree_set changes) of Some n \<Rightarrow> Some (ChangeNonMember n) | None \<Rightarrow>
        None)))))))))))"

text \<open>A weight change of the first entry with its identifier.\<close>

fun change_weight :: "weight_change \<Rightarrow> (node_id \<times> u64) list \<Rightarrow> (node_id \<times> u64) list" where
  "change_weight ch [] = []"
| "change_weight ch ((n, w) # es) =
     (if n = wc_node_id ch then (n, wc_weight ch) # es else (n, w) # change_weight ch es)"

definition next_members :: "reconfig_command \<Rightarrow> validator_set \<Rightarrow> (node_id \<times> u64) list" where
  "next_members cmd current =
     (let kept = filter (\<lambda>e. fst e \<notin> set (rc_removes cmd)) (iter_weighted current);
          changed = fold change_weight (rc_changes cmd) kept;
          grown = changed @ map (\<lambda>e. (ve_node_id e, ve_weight e)) (rc_adds cmd) in
      dedup_by fst (sort_key fst grown))"

definition validate_against_with_delay_and_chain ::
  "('g1, 'g2) reconfig_env \<Rightarrow> reconfig_command \<Rightarrow> validator_set \<Rightarrow> view \<Rightarrow> view \<Rightarrow> chain_id
     \<Rightarrow> reconfig_error + (node_id \<times> u64) list" where
  "validate_against_with_delay_and_chain env cmd current current_view min_v_eff_delay c =
     (let effective_delay = max min_v_eff_delay MIN_V_EFF_DELAY in
      case checked_add current_view effective_delay of
        None \<Rightarrow> Inl (DelayOverflow current_view effective_delay)
      | Some min_v_eff \<Rightarrow>
          if rc_v_eff cmd < min_v_eff then Inl (VeffTooSoon (rc_v_eff cmd) current_view effective_delay)
          else (case reconfig_id_error cmd current of Some e \<Rightarrow> Inl e | None \<Rightarrow>
               (case first_error (pop_error env c) (rc_adds cmd) of Some e \<Rightarrow> Inl e | None \<Rightarrow>
               (case first_error (consent_error env c (rc_v_eff cmd)) (rc_adds cmd) of Some e \<Rightarrow> Inl e | None \<Rightarrow>
                  let nxt = next_members cmd current in
                  if length nxt < MIN_VALIDATOR_FLOOR then Inl (BelowFloor (length nxt) MIN_VALIDATOR_FLOOR)
                  else Inr nxt))))"

section \<open>The next set\<close>

lemma first_repeat_None: "first_repeat seen xs = None \<longleftrightarrow> distinct xs \<and> set seen \<inter> set xs = {}"
  by (induction seen xs rule: first_repeat.induct) auto

lemma first_error_None: "first_error f xs = None \<longleftrightarrow> (\<forall>x \<in> set xs. f x = None)"
  by (induction xs) (auto simp: first_error_def List.map_filter_def split: list.splits)

lemma check_chain_None:
  "(case x of Some n \<Rightarrow> Some (f n) | None \<Rightarrow> y) = None \<longleftrightarrow> x = None \<and> y = None"
  by (cases x) simp_all

lemma reconfig_id_error_None:
  assumes "vs_wf current"
  shows "reconfig_id_error cmd current = None \<longleftrightarrow>
    (\<forall>e \<in> set (rc_adds cmd). ve_weight e \<noteq> 0) \<and> (\<forall>e \<in> set (rc_changes cmd). wc_weight e \<noteq> 0)
    \<and> distinct (map ve_node_id (rc_adds cmd)) \<and> distinct (rc_removes cmd) \<and> distinct (map wc_node_id (rc_changes cmd))
    \<and> set (map ve_node_id (rc_adds cmd)) \<inter> set (members current) = {}
    \<and> set (rc_removes cmd) \<subseteq> set (members current)
    \<and> set (map wc_node_id (rc_changes cmd)) \<subseteq> set (members current) - set (rc_removes cmd)"
  unfolding reconfig_id_error_def Let_def check_chain_None find_None_iff first_repeat_None set_btree_set
    vs_contains_iff[OF assms]
  by (simp only: set_empty2 list.set Int_empty_left simp_thms) blast

text \<open>The weights of the next set as a function of the identifier.\<close>

definition next_weight :: "reconfig_command \<Rightarrow> validator_set \<Rightarrow> node_id \<Rightarrow> u64 option" where
  "next_weight cmd current n =
     (case map_of (map (\<lambda>e. (ve_node_id e, ve_weight e)) (rc_adds cmd)) n of
        Some w \<Rightarrow> Some w
      | None \<Rightarrow>
          if n \<in> set (rc_removes cmd) then None
          else (case map_of (map (\<lambda>c. (wc_node_id c, wc_weight c)) (rc_changes cmd)) n of
                  Some w \<Rightarrow> Some w
                | None \<Rightarrow> weight_for current n))"

lemma map_of_change_weight:
  "map_of (change_weight ch es) n =
     (if n = wc_node_id ch \<and> n \<in> fst ` set es then Some (wc_weight ch) else map_of es n)"
  by (induction ch es rule: change_weight.induct) force+

lemma fst_change_weight [simp]: "fst ` set (change_weight ch es) = fst ` set es"
  by (induction ch es rule: change_weight.induct) auto

lemma map_of_change_weights:
  "distinct (map wc_node_id chs) \<Longrightarrow> wc_node_id ` set chs \<subseteq> fst ` set es \<Longrightarrow>
   map_of (fold change_weight chs es) n =
     (case map_of (map (\<lambda>c. (wc_node_id c, wc_weight c)) chs) n of Some w \<Rightarrow> Some w | None \<Rightarrow> map_of es n)"
proof (induction chs arbitrary: es)
  case (Cons ch chs)
  have "map_of (map (\<lambda>c. (wc_node_id c, wc_weight c)) chs) (wc_node_id ch) = None"
    using Cons.prems(1) by (auto simp: map_of_eq_None_iff)
  then show ?case using Cons by (auto simp: map_of_change_weight split: option.splits)
qed simp

lemma fst_fold_change_weight [simp]: "fst ` set (fold change_weight chs es) = fst ` set es"
  by (induction chs arbitrary: es) auto

lemma map_of_filter_key: "map_of (filter (\<lambda>e. fst e \<notin> S) xs) n = (if n \<in> S then None else map_of xs n)"
  by (induction xs) auto

lemma iter_weighted_keys: "vs_wf vs \<Longrightarrow> fst ` set (iter_weighted vs) = set (members vs)"
  by (metis iter_weighted_def list.set_map map_fst_zip vs_wf_def)

lemma next_members_lookup:
  assumes wf: "vs_wf current" and ok: "reconfig_id_error cmd current = None"
  shows "map_of (next_members cmd current) n = next_weight cmd current n"
proof -
  let ?kept = "filter (\<lambda>e. fst e \<notin> set (rc_removes cmd)) (iter_weighted current)"
  let ?adds = "map (\<lambda>e. (ve_node_id e, ve_weight e)) (rc_adds cmd)"
  note k = ok[unfolded reconfig_id_error_None[OF wf]]
  have keys: "fst ` set ?kept = set (members current) - set (rc_removes cmd)"
    using iter_weighted_keys[OF wf] by force
  have "wc_node_id ` set (rc_changes cmd) \<subseteq> fst ` set ?kept" using k unfolding keys by simp
  then have ch: "map_of (fold change_weight (rc_changes cmd) ?kept) n =
      (case map_of (map (\<lambda>c. (wc_node_id c, wc_weight c)) (rc_changes cmd)) n of
         Some w \<Rightarrow> Some w | None \<Rightarrow> map_of ?kept n)"
    using k by (intro map_of_change_weights) simp_all
  have disj: "map_of (fold change_weight (rc_changes cmd) ?kept) n = None" if "map_of ?adds n = Some w" for w
  proof -
    have "n \<in> ve_node_id ` set (rc_adds cmd)" using that by (force dest: map_of_SomeD)
    then have "n \<notin> fst ` set (fold change_weight (rc_changes cmd) ?kept)" using k keys by auto
    then show ?thesis by (simp add: map_of_eq_None_iff)
  qed
  have "map_of (next_members cmd current) n =
      map_of (fold change_weight (rc_changes cmd) ?kept @ ?adds) n"
    by (simp add: next_members_def Let_def dedup_by_map_of map_of_sort_key)
  also have "\<dots> = (case map_of ?adds n of Some w \<Rightarrow> Some w | None \<Rightarrow>
      map_of (fold change_weight (rc_changes cmd) ?kept) n)"
    using disj by (auto simp: map_add_def split: option.splits)
  also have "\<dots> = next_weight cmd current n"
  proof -
    have "map_of (map (\<lambda>c. (wc_node_id c, wc_weight c)) (rc_changes cmd)) n = None" if "n \<in> set (rc_removes cmd)"
      using k that by (fastforce simp: map_of_eq_None_iff)
    then show ?thesis
      unfolding ch next_weight_def weight_for_map_of[OF wf] map_of_filter_key by (auto split: option.splits)
  qed
  finally show ?thesis .
qed

lemma next_members_nonzero:
  assumes wf: "vs_wf current" and ok: "reconfig_id_error cmd current = None"
  shows "\<forall>e \<in> set (next_members cmd current). snd e \<noteq> 0"
proof
  fix e assume e: "e \<in> set (next_members cmd current)"
  have "sorted_wrt (<) (map fst (next_members cmd current))"
    unfolding next_members_def Let_def by (rule dedup_by_strict) simp
  then have "map_of (next_members cmd current) (fst e) = Some (snd e)"
    using e by (intro map_of_is_SomeI) (auto simp: strict_sorted_iff)
  then have "next_weight cmd current (fst e) = Some (snd e)" using next_members_lookup[OF assms] by simp
  moreover have "w \<noteq> 0" if "weight_for current n = Some w" for n w
    using that wf unfolding weight_for_map_of[OF wf] iter_weighted_def
    by (auto dest!: map_of_SomeD set_zip_rightD simp: vs_wf_def)
  ultimately show "snd e \<noteq> 0" using ok unfolding reconfig_id_error_None[OF wf] next_weight_def
    by (auto split: option.splits if_splits dest!: map_of_SomeD)
qed

lemma validate_Inr:
  assumes "validate_against_with_delay_and_chain env cmd current v delay c = Inr nxt"
  shows "nxt = next_members cmd current" "reconfig_id_error cmd current = None"
    "MIN_VALIDATOR_FLOOR \<le> length nxt"
    "unat v + unat (max delay MIN_V_EFF_DELAY) \<le> unat (rc_v_eff cmd)"
    "\<forall>e \<in> set (rc_adds cmd). pop_error env c e = None \<and> consent_error env c (rc_v_eff cmd) e = None"
proof -
  obtain m where m: "checked_add v (max delay MIN_V_EFF_DELAY) = Some m" "\<not> rc_v_eff cmd < m"
    "reconfig_id_error cmd current = None" "first_error (pop_error env c) (rc_adds cmd) = None"
    "first_error (consent_error env c (rc_v_eff cmd)) (rc_adds cmd) = None"
    "nxt = next_members cmd current" "\<not> length nxt < MIN_VALIDATOR_FLOOR"
    using assms by (auto simp: validate_against_with_delay_and_chain_def Let_def split: option.splits if_splits)
  show "nxt = next_members cmd current" "reconfig_id_error cmd current = None" "MIN_VALIDATOR_FLOOR \<le> length nxt"
    using m by auto
  show "unat v + unat (max delay MIN_V_EFF_DELAY) \<le> unat (rc_v_eff cmd)"
    using checked_add_unat[OF m(1)] m(2) by (simp add: not_less word_le_nat_alt)
  show "\<forall>e \<in> set (rc_adds cmd). pop_error env c e = None \<and> consent_error env c (rc_v_eff cmd) e = None"
    using m(4,5) by (simp add: first_error_None)
qed

lemma validated_set:
  assumes "vs_wf current" and "validate_against_with_delay_and_chain env cmd current v delay c = Inr nxt"
  shows "\<exists>s. with_weights nxt = Inr s \<and> vs_wf s \<and> MIN_VALIDATOR_FLOOR \<le> vs_len s
    \<and> (\<forall>n. weight_for s n = next_weight cmd current n) \<and> unat v + 4 \<le> unat (rc_v_eff cmd)"
proof -
  note val = validate_Inr[OF assms(2)]
  obtain s where s: "with_weights nxt = Inr s"
    using next_members_nonzero[OF assms(1) val(2)] with_weights_ok_iff[of nxt] val(1) by blast
  have wf: "vs_wf s" using s by (rule with_weights_wf)
  have strict: "sorted_wrt (<) (map fst nxt)"
    unfolding val(1) next_members_def Let_def by (rule dedup_by_strict) simp
  have "set (members s) = fst ` set nxt"
  proof -
    have "members s = map fst (dedup_by fst (sort_key fst nxt))"
      using s by (auto simp: with_weights_def Let_def split: option.splits)
    then show ?thesis by simp
  qed
  moreover have "distinct (members s)" "distinct (map fst nxt)"
    using vs_wf_distinct[OF wf] strict by (auto simp: strict_sorted_iff)
  ultimately have "vs_len s = length nxt"
    by (metis distinct_card length_map list.set_map vs_len_def)
  moreover have "weight_for s n = next_weight cmd current n" for n
    using with_weights_lookup[OF s] weight_for_map_of[OF wf] next_members_lookup[OF assms(1) val(2)] val(1) by simp
  moreover have "4 \<le> unat (max delay MIN_V_EFF_DELAY)"
  proof -
    have "(4 :: view) \<le> max delay MIN_V_EFF_DELAY" by (simp add: MIN_V_EFF_DELAY_def)
    then have "unat (4 :: view) \<le> unat (max delay MIN_V_EFF_DELAY)" by (simp only: word_le_nat_alt)
    then show ?thesis by simp
  qed
  ultimately show ?thesis using s wf val(3,4) by auto
qed

text \<open>C14: a reconfiguration command that passes validation against a well-formed set
  always yields a well-formed next set with at least four members, taking effect
  at least four views after the current one; its weights are those of the
  command for added and changed validators, none for removed ones, and those of
  the current set for everybody else.\<close>

theorem reconfig_next_set:
  assumes "vs_wf current" and "validate_against_with_delay_and_chain env cmd current v delay c = Inr nxt"
  shows "\<exists>s. with_weights nxt = Inr s \<and> vs_wf s \<and> MIN_VALIDATOR_FLOOR \<le> vs_len s
    \<and> (\<forall>n. weight_for s n = next_weight cmd current n) \<and> unat v + 4 \<le> unat (rc_v_eff cmd)"
  using assms by (rule validated_set)

definition demo_reconfig_env :: "(bls_pk, bls_sig) reconfig_env" where
  "demo_reconfig_env =
     \<lparr> rv_ed = (\<lambda>_ _ _. True),
       rv_bls = \<lparr> sig_from_bytes = Some, sig_to_bytes = (\<lambda>g. g), pk_from_bytes = Some,
                 agg_add = (\<lambda>a b. Some (a + b)), sig_verify = (\<lambda>_ _ _ _. True),
                 fast_aggregate_verify = (\<lambda>_ _ _ _. True) \<rparr>,
       rv_pc_consent = (\<lambda>_. Some []), rv_un_reconfig = (\<lambda>_. None) \<rparr>"

definition demo_five :: validator_set where
  "demo_five = \<lparr> members = [10, 20, 30, 40, 50], weights = [1, 1, 1, 1, 1] \<rparr>"

definition demo_reconfig :: reconfig_command where
  "demo_reconfig = \<lparr> rc_adds = [], rc_removes = [50], rc_changes = [\<lparr> wc_node_id = 20, wc_weight = 7 \<rparr>], rc_v_eff = 10 \<rparr>"

theorem reconfig_next_set_witness:
  "\<exists>nxt s. validate_against_with_delay_and_chain demo_reconfig_env demo_reconfig demo_five 3 0 0 = Inr nxt
     \<and> with_weights nxt = Inr s \<and> weight_for s 20 = Some 7 \<and> weight_for s 50 = None"
proof -
  have wf: "vs_wf demo_five" by (simp add: vs_wf_def demo_five_def)
  have id: "reconfig_id_error demo_reconfig demo_five = None"
    unfolding reconfig_id_error_None[OF wf] by (simp add: demo_reconfig_def demo_five_def)
  have nxt: "next_members demo_reconfig demo_five = [(10, 1), (20, 7), (30, 1), (40, 1)]"
    by (simp add: next_members_def Let_def demo_reconfig_def demo_five_def iter_weighted_def)
  have v: "validate_against_with_delay_and_chain demo_reconfig_env demo_reconfig demo_five 3 0 0
      = Inr [(10, 1), (20, 7), (30, 1), (40, 1)]"
    unfolding validate_against_with_delay_and_chain_def id nxt
    by (simp add: Let_def checked_add_def MIN_V_EFF_DELAY_def first_error_def List.map_filter_def
        MIN_VALIDATOR_FLOOR_def demo_reconfig_def)
  show ?thesis using v reconfig_next_set[OF wf v]
    by (auto simp: next_weight_def demo_reconfig_def)
qed

end
