(* ===== verification/Validator_Key_History.thy ===== *)
theory Validator_Key_History
  imports Key_Timeline Validator_History Validator_Rotation
begin

text \<open>
  The history of consensus signing keys (\<open>validator_key_history.rs\<close>): per stable
  validator id a timeline of keys, and a reverse index from every key to the id
  that owns it. \<open>None\<close> is a panic. The contract \<open>key_history\<close> holds with the
  reverse index resolving the target of a rotation; cancelling a rotation
  restores the history when the cancelled key was new, and loses the owner of
  an older entry when it was not.
\<close>

type_synonym key_entry = "view \<times> node_id"
type_synonym persisted_validator_key_entry = "node_id persisted_key_entry"
type_synonym persisted_validator = "node_id persisted_key_validator"
type_synonym persisted_validator_key_history = "node_id persisted_key_history"

record validator_key_history =
  kh_by_stable_id :: "(node_id, key_entry list) btree_map"
  kh_pubkey_to_stable_id :: "(node_id, node_id) btree_map"

datatype key_history_error =
    KhStructural rotation_structural_error
  | KhUnknownValidator node_id
  | KhVeffNotStrictlyIncreasing view view
  | KhNewKeyCollides node_id node_id
  | KhNoPendingRotationToCancel node_id view

definition kh_default :: validator_key_history where
  "kh_default = \<lparr> kh_by_stable_id = [], kh_pubkey_to_stable_id = [] \<rparr>"

text \<open>A single-entry timeline for a fresh validator.\<close>

definition kh_enroll :: "validator_key_history \<Rightarrow> node_id \<Rightarrow> view \<Rightarrow> validator_key_history" where
  "kh_enroll h i v_eff =
     h\<lparr> kh_by_stable_id := bt_insert i [(v_eff, i)] (kh_by_stable_id h),
        kh_pubkey_to_stable_id := bt_insert i i (kh_pubkey_to_stable_id h) \<rparr>"

definition kh_new :: "validator_id list \<Rightarrow> validator_key_history" where
  "kh_new genesis_validators =
     fold (\<lambda>i h.
         if bt_contains (kh_by_stable_id h) i
         then h\<lparr> kh_pubkey_to_stable_id := bt_insert i i (kh_pubkey_to_stable_id h) \<rparr>
         else kh_enroll h i 0)
       genesis_validators kh_default"

definition from_set_history :: "validator_set_history \<Rightarrow> validator_key_history" where
  "from_set_history set_history =
     fold (\<lambda>(v_eff, s) h.
         fold (\<lambda>i h. if bt_contains (kh_by_stable_id h) i then h else kh_enroll h i v_eff) (members s) h)
       (vh_iter set_history) kh_default"

definition add_validator ::
  "validator_key_history \<Rightarrow> pubkey \<Rightarrow> view \<Rightarrow> key_history_error + validator_key_history" where
  "add_validator h pk v_eff =
     (case bt_get (kh_pubkey_to_stable_id h) pk of
        Some owner \<Rightarrow> Inl (KhNewKeyCollides pk owner)
      | None \<Rightarrow> Inr (kh_enroll h pk v_eff))"

definition validator_for :: "validator_key_history \<Rightarrow> pubkey \<Rightarrow> validator_id option" where
  "validator_for h pk = bt_get (kh_pubkey_to_stable_id h) pk"

definition kh_key_at :: "validator_key_history \<Rightarrow> validator_id \<Rightarrow> view \<Rightarrow> pubkey option" where
  "kh_key_at h validator v =
     (case bt_get (kh_by_stable_id h) validator of
        None \<Rightarrow> None
      | Some entries \<Rightarrow>
          let idx = partition_point (\<lambda>e. fst e \<le> v) entries in
          if idx = 0 then None else Some (snd (entries ! (idx - 1))))"

definition key_at_for_pubkey :: "validator_key_history \<Rightarrow> pubkey \<Rightarrow> view \<Rightarrow> pubkey option" where
  "key_at_for_pubkey h pk v =
     (case validator_for h pk of None \<Rightarrow> None | Some validator \<Rightarrow> kh_key_at h validator v)"

definition kh_current_key :: "validator_key_history \<Rightarrow> pubkey \<Rightarrow> pubkey option" where
  "kh_current_key h pk =
     (case bt_get (kh_pubkey_to_stable_id h) pk of
        None \<Rightarrow> None
      | Some stable_id \<Rightarrow>
          (case bt_get (kh_by_stable_id h) stable_id of
             None \<Rightarrow> None
           | Some entries \<Rightarrow> if entries = [] then None else Some (snd (last entries))))"

definition kh_validators :: "validator_key_history \<Rightarrow> validator_id list" where
  "kh_validators h = map fst (kh_by_stable_id h)"

definition kh_iter :: "validator_key_history \<Rightarrow> (validator_id \<times> (view \<times> node_id) list) list" where
  "kh_iter h = kh_by_stable_id h"

text \<open>The last part of \<open>apply_rotation\<close>: order check and push.\<close>

definition kh_push ::
  "validator_key_history \<Rightarrow> node_id \<Rightarrow> view \<Rightarrow> node_id \<Rightarrow> (key_history_error + validator_key_history) option" where
  "kh_push h stable_id v_eff new_pubkey =
     (case bt_get (kh_by_stable_id h) stable_id of
        None \<Rightarrow> None
      | Some entries \<Rightarrow>
          if entries = [] then None
          else if v_eff \<le> fst (last entries)
          then Some (Inl (KhVeffNotStrictlyIncreasing (fst (last entries)) v_eff))
          else Some (Inr (h\<lparr> kh_by_stable_id := bt_insert stable_id (entries @ [(v_eff, new_pubkey)]) (kh_by_stable_id h),
                             kh_pubkey_to_stable_id := bt_insert new_pubkey stable_id (kh_pubkey_to_stable_id h) \<rparr>)))"

definition kh_apply_rotation ::
  "validator_key_history \<Rightarrow> validator_key_rotation \<Rightarrow> view
     \<Rightarrow> (key_history_error + validator_key_history) option" where
  "kh_apply_rotation h r commit_view =
     (case rotation_validate_structural r commit_view of
        Inl e \<Rightarrow> Some (Inl (KhStructural e))
      | Inr _ \<Rightarrow>
          (case bt_get (kh_pubkey_to_stable_id h) (vkr_validator r) of
             None \<Rightarrow> Some (Inl (KhUnknownValidator (vkr_validator r)))
           | Some stable_id \<Rightarrow>
               (case bt_get (kh_pubkey_to_stable_id h) (vkr_new_pubkey r) of
                  Some owner \<Rightarrow>
                    if owner \<noteq> stable_id then Some (Inl (KhNewKeyCollides (vkr_new_pubkey r) owner))
                    else kh_push h stable_id (vkr_v_eff r) (vkr_new_pubkey r)
                | None \<Rightarrow> kh_push h stable_id (vkr_v_eff r) (vkr_new_pubkey r))))"

definition pending_rotation_new_key ::
  "validator_key_history \<Rightarrow> pubkey \<Rightarrow> view \<Rightarrow> view \<Rightarrow> pubkey option" where
  "pending_rotation_new_key h validator cancelling_v_eff commit_view =
     (case bt_get (kh_pubkey_to_stable_id h) validator of
        None \<Rightarrow> None
      | Some stable_id \<Rightarrow>
          (case bt_get (kh_by_stable_id h) stable_id of
             None \<Rightarrow> None
           | Some entries \<Rightarrow>
               if entries = [] then None
               else if fst (last entries) = cancelling_v_eff \<and> cancelling_v_eff > commit_view
               then Some (snd (last entries)) else None))"

definition kh_cancel_pending_rotation ::
  "validator_key_history \<Rightarrow> pubkey \<Rightarrow> view \<Rightarrow> view
     \<Rightarrow> (key_history_error + pubkey \<times> validator_key_history) option" where
  "kh_cancel_pending_rotation h validator cancelling_v_eff commit_view =
     (let no_pending = KhNoPendingRotationToCancel validator cancelling_v_eff in
      case bt_get (kh_pubkey_to_stable_id h) validator of
        None \<Rightarrow> Some (Inl no_pending)
      | Some stable_id \<Rightarrow>
          (case bt_get (kh_by_stable_id h) stable_id of
             None \<Rightarrow> None
           | Some entries \<Rightarrow>
               if entries = [] then None
               else if fst (last entries) \<noteq> cancelling_v_eff \<or> cancelling_v_eff \<le> commit_view
               then Some (Inl no_pending)
               else
                 let removed = snd (last entries) in
                 Some (Inr (removed,
                   h\<lparr> kh_by_stable_id := bt_insert stable_id (butlast entries) (kh_by_stable_id h),
                      kh_pubkey_to_stable_id := bt_remove removed (kh_pubkey_to_stable_id h) \<rparr>))))"

definition kh_to_persisted :: "validator_key_history \<Rightarrow> persisted_validator_key_history" where
  "kh_to_persisted h = tm_to_persisted (kh_by_stable_id h)"

text \<open>The inner loop of \<open>from_persisted\<close>: increasing views, and no key claimed by
  two validators; it fills the reverse index as it goes.\<close>

fun kh_load_entries ::
  "node_id \<Rightarrow> view option \<Rightarrow> (node_id, node_id) btree_map \<Rightarrow> persisted_validator_key_entry list
     \<Rightarrow> key_load_error + (key_entry list \<times> (node_id, node_id) btree_map)" where
  "kh_load_entries i last_v_eff idx [] = Inr ([], idx)"
| "kh_load_entries i last_v_eff idx (e # es) =
     (if (case last_v_eff of Some prev \<Rightarrow> pke_v_eff e \<le> prev | None \<Rightarrow> False)
      then Inl (LoadNotIncreasing i (pke_v_eff e) (the last_v_eff))
      else if (case bt_get idx (pke_key e) of Some owner \<Rightarrow> owner \<noteq> i | None \<Rightarrow> False)
      then Inl (LoadKeyClaimedTwice (pke_key e) (the (bt_get idx (pke_key e))) i)
      else (case kh_load_entries i (Some (pke_v_eff e)) (bt_insert (pke_key e) i idx) es of
              Inl err \<Rightarrow> Inl err
            | Inr (rest, idx') \<Rightarrow> Inr ((pke_v_eff e, pke_key e) # rest, idx')))"

definition kh_load_validator ::
  "validator_key_history \<Rightarrow> persisted_validator \<Rightarrow> key_load_error + validator_key_history" where
  "kh_load_validator h v =
     (case pkv_entries v of
        [] \<Rightarrow> Inl (LoadNoEntries (pkv_stable_id v))
      | e # es \<Rightarrow>
          if pke_key e \<noteq> pkv_stable_id v then Inl (LoadStableIdMismatch (pkv_stable_id v) (pke_key e))
          else (case kh_load_entries (pkv_stable_id v) None (kh_pubkey_to_stable_id h) (pkv_entries v) of
                  Inl err \<Rightarrow> Inl err
                | Inr (local_entries, idx) \<Rightarrow>
                    Inr (h\<lparr> kh_by_stable_id := bt_insert (pkv_stable_id v) local_entries (kh_by_stable_id h),
                            kh_pubkey_to_stable_id := idx \<rparr>)))"

definition kh_from_persisted :: "persisted_validator_key_history \<Rightarrow> key_load_error + validator_key_history" where
  "kh_from_persisted p = try_fold kh_load_validator kh_default (pkh_validators p)"

section \<open>Invariant\<close>

text \<open>The reverse index holds exactly the keys of the timelines, each timeline starts
  with the stable id itself, and views increase along it.\<close>

definition kh_wf :: "validator_key_history \<Rightarrow> bool" where
  "kh_wf h \<longleftrightarrow> tm_wf (kh_by_stable_id h) \<and> bt_wf (kh_pubkey_to_stable_id h)
     \<and> (\<forall>pk i. bt_get (kh_pubkey_to_stable_id h) pk = Some i \<longleftrightarrow>
          (\<exists>es. bt_get (kh_by_stable_id h) i = Some es \<and> pk \<in> snd ` set es))
     \<and> (\<forall>i es. bt_get (kh_by_stable_id h) i = Some es \<longrightarrow> snd (hd es) = i)"

lemma kh_key_at_tm: "kh_key_at h i v = tm_at (kh_by_stable_id h) i v"
  by (simp add: kh_key_at_def tm_at_def timeline_at_def split: option.split)

lemma kh_wf_default [simp]: "kh_wf kh_default"
  by (simp add: kh_wf_def kh_default_def)

lemma kh_wf_index:
  "kh_wf h \<Longrightarrow> bt_get (kh_pubkey_to_stable_id h) pk = Some i \<Longrightarrow>
     \<exists>es. bt_get (kh_by_stable_id h) i = Some es \<and> timeline_ok es \<and> pk \<in> snd ` set es"
  unfolding kh_wf_def by (metis tm_wf_get)

lemma kh_wf_self: "kh_wf h \<Longrightarrow> bt_get (kh_by_stable_id h) i = Some es \<Longrightarrow>
    bt_get (kh_pubkey_to_stable_id h) i = Some i"
proof -
  assume wf: "kh_wf h" and es: "bt_get (kh_by_stable_id h) i = Some es"
  then have "es \<noteq> []" "snd (hd es) = i"
    using tm_wf_get[of "kh_by_stable_id h" i es] by (auto simp: kh_wf_def timeline_ok_def)
  then have "i \<in> snd ` set es" using hd_in_set by (metis imageI)
  then show ?thesis using wf es unfolding kh_wf_def by blast
qed

lemma kh_enroll_wf:
  assumes "kh_wf h" "bt_get (kh_pubkey_to_stable_id h) i = None"
  shows "kh_wf (kh_enroll h i v)"
proof -
  have n: "bt_get (kh_by_stable_id h) i = None"
    using kh_wf_self[OF assms(1)] assms(2) by (cases "bt_get (kh_by_stable_id h) i") auto
  have wf: "bt_wf (kh_by_stable_id h)" "bt_wf (kh_pubkey_to_stable_id h)" "tm_wf (kh_by_stable_id h)"
    and ix: "\<And>pk j. bt_get (kh_pubkey_to_stable_id h) pk = Some j \<longleftrightarrow>
          (\<exists>es. bt_get (kh_by_stable_id h) j = Some es \<and> pk \<in> snd ` set es)"
    and hd: "\<And>j es. bt_get (kh_by_stable_id h) j = Some es \<Longrightarrow> snd (List.hd es) = j"
    using assms(1) by (simp_all add: kh_wf_def)
  have "(if pk = i then Some i else bt_get (kh_pubkey_to_stable_id h) pk) = Some j \<longleftrightarrow>
      (\<exists>es. (if j = i then Some [(v, i)] else bt_get (kh_by_stable_id h) j) = Some es \<and> pk \<in> snd ` set es)" for pk j
    using ix[of pk j] ix[of i j] ix[of pk i] assms(2) n by auto
  then show ?thesis using wf hd by (simp add: kh_wf_def kh_enroll_def tm_wf_insert)
qed

lemma kh_push_cases:
  assumes "kh_push h i v k = Some (Inr h')"
  obtains es where "bt_get (kh_by_stable_id h) i = Some es" "fst (last es) < v" "es \<noteq> []"
    "h' = h\<lparr> kh_by_stable_id := bt_insert i (es @ [(v, k)]) (kh_by_stable_id h),
             kh_pubkey_to_stable_id := bt_insert k i (kh_pubkey_to_stable_id h) \<rparr>"
  using assms by (auto simp: kh_push_def split: option.splits if_splits)

lemma kh_push_wf:
  assumes "kh_wf h" "kh_push h i v k = Some (Inr h')" "bt_get (kh_pubkey_to_stable_id h) k \<in> {None, Some i}"
  shows "kh_wf h'"
proof -
  obtain es where es: "bt_get (kh_by_stable_id h) i = Some es" "fst (last es) < v" "es \<noteq> []"
    "h' = h\<lparr> kh_by_stable_id := bt_insert i (es @ [(v, k)]) (kh_by_stable_id h),
             kh_pubkey_to_stable_id := bt_insert k i (kh_pubkey_to_stable_id h) \<rparr>"
    using assms(2) by (rule kh_push_cases)
  have wf: "bt_wf (kh_by_stable_id h)" "bt_wf (kh_pubkey_to_stable_id h)" "tm_wf (kh_by_stable_id h)"
    and ix: "\<And>pk j. bt_get (kh_pubkey_to_stable_id h) pk = Some j \<longleftrightarrow>
          (\<exists>es. bt_get (kh_by_stable_id h) j = Some es \<and> pk \<in> snd ` set es)"
    and hd: "\<And>j es. bt_get (kh_by_stable_id h) j = Some es \<Longrightarrow> snd (List.hd es) = j"
    using assms(1) by (simp_all add: kh_wf_def)
  have "(if pk = k then Some i else bt_get (kh_pubkey_to_stable_id h) pk) = Some j \<longleftrightarrow>
      (\<exists>fs. (if j = i then Some (es @ [(v, k)]) else bt_get (kh_by_stable_id h) j) = Some fs \<and> pk \<in> snd ` set fs)" for pk j
    using ix[of pk j] ix[of k j] assms(3) es(1) by auto
  then show ?thesis using wf hd es tm_push(1)[OF wf(3) es(1,2)] by (simp add: kh_wf_def)
qed

lemma kh_push_returns: "kh_wf h \<Longrightarrow> bt_get (kh_pubkey_to_stable_id h) pk = Some i \<Longrightarrow> kh_push h i v k \<noteq> None"
  using kh_wf_index[of h pk i] by (auto simp: kh_push_def timeline_ok_def)

lemma kh_rotate_cases:
  assumes "kh_apply_rotation h r c = Some (Inr h')"
  obtains i where "bt_get (kh_pubkey_to_stable_id h) (vkr_validator r) = Some i"
    "bt_get (kh_pubkey_to_stable_id h) (vkr_new_pubkey r) \<in> {None, Some i}"
    "kh_push h i (vkr_v_eff r) (vkr_new_pubkey r) = Some (Inr h')"
    "rotation_validate_structural r c = Inr ()"
  using assms by (auto simp: kh_apply_rotation_def split: sum.splits option.splits if_splits)

definition rotation_target :: "validator_key_history \<Rightarrow> validator_key_rotation \<Rightarrow> node_id" where
  "rotation_target h r = the (bt_get (kh_pubkey_to_stable_id h) (vkr_validator r))"

interpretation kh: key_history kh_wf kh_key_at "\<lambda>h. tm_latest (kh_by_stable_id h)"
    "\<lambda>h q. kh_apply_rotation h (fst q) (snd q)" "\<lambda>h q. rotation_target h (fst q)"
    "\<lambda>q. vkr_v_eff (fst q)" "\<lambda>q. vkr_new_pubkey (fst q)"
proof
  fix h and q :: "validator_key_rotation \<times> view"
  assume "kh_wf h"
  then show "kh_apply_rotation h (fst q) (snd q) \<noteq> None"
    using kh_push_returns[of h] unfolding kh_apply_rotation_def
    by (auto split: sum.splits option.splits simp del: not_None_eq)
next
  fix h h' and q :: "validator_key_rotation \<times> view" and j w
  assume wf: "kh_wf h" and r: "kh_apply_rotation h (fst q) (snd q) = Some (Inr h')"
  obtain i where i: "bt_get (kh_pubkey_to_stable_id h) (vkr_validator (fst q)) = Some i"
    "bt_get (kh_pubkey_to_stable_id h) (vkr_new_pubkey (fst q)) \<in> {None, Some i}"
    "kh_push h i (vkr_v_eff (fst q)) (vkr_new_pubkey (fst q)) = Some (Inr h')"
    using r by (rule kh_rotate_cases)
  obtain es where es: "bt_get (kh_by_stable_id h) i = Some es" "fst (last es) < vkr_v_eff (fst q)"
    "h' = h\<lparr> kh_by_stable_id := bt_insert i (es @ [(vkr_v_eff (fst q), vkr_new_pubkey (fst q))]) (kh_by_stable_id h),
             kh_pubkey_to_stable_id := bt_insert (vkr_new_pubkey (fst q)) i (kh_pubkey_to_stable_id h) \<rparr>"
    using i(3) by (rule kh_push_cases)
  have tm: "tm_wf (kh_by_stable_id h)" using wf by (simp add: kh_wf_def)
  note p = tm_push[OF tm es(1,2)]
  have t: "rotation_target h (fst q) = i" using i(1) by (simp add: rotation_target_def)
  show "kh_wf h'" using kh_push_wf[OF wf i(3,2)] .
  show "\<exists>l. tm_latest (kh_by_stable_id h) (rotation_target h (fst q)) = Some l \<and> l < vkr_v_eff (fst q)"
    using es t by (simp add: tm_latest_def)
  show "tm_latest (kh_by_stable_id h') j =
      (if j = rotation_target h (fst q) then Some (vkr_v_eff (fst q)) else tm_latest (kh_by_stable_id h) j)"
    using p(2) es(3) t by simp
  show "kh_key_at h' j w = (if j = rotation_target h (fst q) \<and> vkr_v_eff (fst q) \<le> w
      then Some (vkr_new_pubkey (fst q)) else kh_key_at h j w)"
    using p(3) es(3) t by (simp add: kh_key_at_tm)
qed

section \<open>Constructors\<close>

text \<open>A history without rotations: every key is its own stable id.\<close>

definition kh_unrotated :: "validator_key_history \<Rightarrow> bool" where
  "kh_unrotated h \<longleftrightarrow> kh_wf h \<and> (\<forall>pk i. bt_get (kh_pubkey_to_stable_id h) pk = Some i \<longrightarrow> pk = i)"

lemma kh_unrotated_default: "kh_unrotated kh_default"
  using kh_wf_default by (simp add: kh_unrotated_def) (simp add: kh_default_def)

lemma kh_unrotated_enroll:
  assumes "kh_unrotated h" "\<not> bt_contains (kh_by_stable_id h) i"
  shows "kh_unrotated (kh_enroll h i v)"
proof -
  have wf: "kh_wf h" and own: "\<And>pk j. bt_get (kh_pubkey_to_stable_id h) pk = Some j \<Longrightarrow> pk = j"
    using assms(1) by (auto simp: kh_unrotated_def)
  have "bt_get (kh_pubkey_to_stable_id h) i = None"
  proof (cases "bt_get (kh_pubkey_to_stable_id h) i")
    case (Some j)
    then have "i = j" by (rule own)
    then show ?thesis using kh_wf_index[OF wf Some] assms(2) by (auto simp: bt_contains_def)
  qed
  then have "kh_wf (kh_enroll h i v)" using kh_enroll_wf[OF wf] by blast
  moreover have "bt_wf (kh_pubkey_to_stable_id h)" using wf by (simp add: kh_wf_def)
  ultimately show ?thesis using own by (simp add: kh_unrotated_def kh_enroll_def)
qed

lemma kh_unrotated_reinsert:
  "kh_unrotated h \<Longrightarrow> bt_contains (kh_by_stable_id h) i \<Longrightarrow>
     h\<lparr> kh_pubkey_to_stable_id := bt_insert i i (kh_pubkey_to_stable_id h) \<rparr> = h"
  using kh_wf_self[of h i] bt_insert_same[of "kh_pubkey_to_stable_id h" i i]
  by (auto simp: kh_unrotated_def bt_contains_def kh_wf_def)

lemma kh_new_unrotated: "kh_unrotated (kh_new vs)"
proof -
  have "kh_unrotated h \<Longrightarrow> kh_unrotated (fold (\<lambda>i h.
         if bt_contains (kh_by_stable_id h) i
         then h\<lparr> kh_pubkey_to_stable_id := bt_insert i i (kh_pubkey_to_stable_id h) \<rparr>
         else kh_enroll h i 0) vs h)" for h
    by (induction vs arbitrary: h) (auto simp: kh_unrotated_reinsert kh_unrotated_enroll)
  then show ?thesis using kh_unrotated_default by (simp add: kh_new_def)
qed

lemma from_set_history_unrotated: "kh_unrotated (from_set_history sh)"
proof -
  have 1: "kh_unrotated h \<Longrightarrow> kh_unrotated (fold (\<lambda>i h. if bt_contains (kh_by_stable_id h) i then h
      else kh_enroll h i v) ms h)" for h v and ms :: "node_id list"
    by (induction ms arbitrary: h) (auto simp: kh_unrotated_enroll)
  have "kh_unrotated h \<Longrightarrow> kh_unrotated (fold (\<lambda>(v_eff, s) h. fold (\<lambda>i h. if bt_contains (kh_by_stable_id h) i
      then h else kh_enroll h i v_eff) (members s) h) bs h)" for h bs
    by (induction bs arbitrary: h) (auto simp: 1)
  then show ?thesis using kh_unrotated_default by (simp add: from_set_history_def)
qed

lemma add_validator_wf: "kh_wf h \<Longrightarrow> add_validator h pk v = Inr h' \<Longrightarrow> kh_wf h'"
  by (auto simp: add_validator_def kh_enroll_wf split: option.splits)

section \<open>Cancelling a pending rotation\<close>

lemma kh_cancel_undoes_rotation:
  assumes "kh_wf h" "kh_apply_rotation h r commit = Some (Inr h')"
    and "bt_get (kh_pubkey_to_stable_id h) (vkr_new_pubkey r) = None" and "commit' < vkr_v_eff r"
  shows "kh_cancel_pending_rotation h' (vkr_validator r) (vkr_v_eff r) commit'
    = Some (Inr (vkr_new_pubkey r, h))"
proof -
  obtain i where i: "bt_get (kh_pubkey_to_stable_id h) (vkr_validator r) = Some i"
    "kh_push h i (vkr_v_eff r) (vkr_new_pubkey r) = Some (Inr h')" "rotation_validate_structural r commit = Inr ()"
    using assms(2) by (rule kh_rotate_cases)
  obtain es where es: "bt_get (kh_by_stable_id h) i = Some es"
    "h' = h\<lparr> kh_by_stable_id := bt_insert i (es @ [(vkr_v_eff r, vkr_new_pubkey r)]) (kh_by_stable_id h),
             kh_pubkey_to_stable_id := bt_insert (vkr_new_pubkey r) i (kh_pubkey_to_stable_id h) \<rparr>"
    using i(2) by (rule kh_push_cases)
  have wf: "bt_wf (kh_by_stable_id h)" "bt_wf (kh_pubkey_to_stable_id h)"
    using assms(1) by (simp_all add: kh_wf_def)
  have a: "bt_insert i es (bt_insert i (es @ [(vkr_v_eff r, vkr_new_pubkey r)]) (kh_by_stable_id h)) = kh_by_stable_id h"
    by (rule bt_eqI) (use wf es(1) in auto)
  have b: "bt_remove (vkr_new_pubkey r) (bt_insert (vkr_new_pubkey r) i (kh_pubkey_to_stable_id h)) = kh_pubkey_to_stable_id h"
    by (rule bt_eqI) (use wf assms(3) in auto)
  show ?thesis using es i(1) assms(3,4) wf a b
    by (auto simp: kh_cancel_pending_rotation_def Let_def)
qed

text \<open>Rotating back to an older key and cancelling that rotation drops the older key
  from the reverse index although its entry stays: the validator can no longer
  be found by its own stable id, and the id can be enrolled again, which
  replaces the whole timeline.\<close>

lemma cancel_back_rotation_loses_owner:
  defines "h0 \<equiv> kh_new [1]"
  defines "to_b \<equiv> \<lparr> vkr_validator = 1, vkr_new_pubkey = 2, vkr_v_eff = 10, vkr_new_bls_pubkey = None, vkr_new_bls_pop = None \<rparr>"
  defines "to_a \<equiv> \<lparr> vkr_validator = 2, vkr_new_pubkey = 1, vkr_v_eff = 20, vkr_new_bls_pubkey = None, vkr_new_bls_pop = None \<rparr>"
  shows "\<exists>h1 h2 h3 h4. kh_apply_rotation h0 to_b 5 = Some (Inr h1)
    \<and> kh_apply_rotation h1 to_a 12 = Some (Inr h2)
    \<and> kh_cancel_pending_rotation h2 2 20 13 = Some (Inr (1, h3))
    \<and> kh_key_at h3 1 0 = Some 1 \<and> validator_for h3 1 = None
    \<and> add_validator h3 1 30 = Inr h4 \<and> kh_key_at h4 1 0 = None"
  by (simp add: assms kh_new_def kh_default_def kh_enroll_def bt_contains_def kh_apply_rotation_def
      rotation_validate_structural_def saturating_add_def V_EFF_MIN_DELAY_def kh_push_def
      kh_cancel_pending_rotation_def Let_def bt_remove_def kh_key_at_tm tm_at_def timeline_at_last_le
      last_le_def validator_for_def add_validator_def)

section \<open>Persisted form\<close>

lemma kh_load_entries_ok:
  "sorted_wrt (<) (case prev of None \<Rightarrow> map fst es | Some p \<Rightarrow> p # map fst es) \<Longrightarrow> bt_wf idx \<Longrightarrow>
   \<forall>e \<in> set es. bt_get idx (snd e) \<in> {None, Some i} \<Longrightarrow>
   \<exists>idx'. kh_load_entries i prev idx (map (\<lambda>(v, k). \<lparr> pke_v_eff = v, pke_key = k \<rparr>) es) = Inr (es, idx')
     \<and> bt_wf idx' \<and> (\<forall>pk. bt_get idx' pk = (if pk \<in> snd ` set es then Some i else bt_get idx pk))"
proof (induction es arbitrary: prev idx)
  case (Cons e es)
  obtain v k where e: "e = (v, k)" by (cases e)
  have s: "sorted_wrt (<) (v # map fst es)" using Cons.prems(1) e by (auto split: option.splits)
  have "\<forall>e \<in> set es. bt_get (bt_insert k i idx) (snd e) \<in> {None, Some i}"
    using Cons.prems(2,3) by auto
  then obtain idx' where i: "kh_load_entries i (Some v) (bt_insert k i idx)
      (map (\<lambda>(v, k). \<lparr> pke_v_eff = v, pke_key = k \<rparr>) es) = Inr (es, idx')" "bt_wf idx'"
      "\<forall>pk. bt_get idx' pk = (if pk \<in> snd ` set es then Some i else bt_get (bt_insert k i idx) pk)"
    using Cons.IH[of "Some v" "bt_insert k i idx"] s Cons.prems(2) by auto
  show ?case using i Cons.prems e by (auto split: option.splits)
qed (simp split: option.splits)

definition idx_ok :: "(node_id, key_entry list) btree_map \<Rightarrow> (node_id, node_id) btree_map \<Rightarrow> bool" where
  "idx_ok m idx \<longleftrightarrow> bt_wf idx \<and> (\<forall>pk i. bt_get idx pk = Some i \<longleftrightarrow>
     (\<exists>es. bt_get m i = Some es \<and> pk \<in> snd ` set es))"

lemma kh_roundtrip_from:
  assumes "tm_wf (acc @ m)" and "idx_ok (acc @ m) full" and "\<forall>i es. bt_get (acc @ m) i = Some es \<longrightarrow> snd (hd es) = i"
    and "idx_ok acc idx"
  shows "\<exists>h'. try_fold kh_load_validator \<lparr> kh_by_stable_id = acc, kh_pubkey_to_stable_id = idx \<rparr>
      (pkh_validators (tm_to_persisted m)) = Inr h' \<and> kh_by_stable_id h' = acc @ m \<and> idx_ok (acc @ m) (kh_pubkey_to_stable_id h')"
  using assms
proof (induction m arbitrary: acc idx)
  case (Cons e m)
  obtain i es where e: "e = (i, es)" by (cases e)
  have wf: "bt_wf (acc @ (i, es) # m)" and ok: "timeline_ok es" using Cons.prems(1) e by (auto simp: tm_wf_def)
  have d: "distinct (map fst (acc @ (i, es) # m))" using wf by (simp add: bt_wf_def strict_sorted_iff)
  have none: "bt_get acc i = None" using d by (auto simp: map_of_eq_None_iff)
  have get: "bt_get (acc @ (i, es) # m) i = Some es" using none by (simp add: map_add_def)
  have owner: "bt_get idx (snd x) \<in> {None, Some i}" if x: "x \<in> set es" for x
  proof (cases "bt_get idx (snd x)")
    case (Some j)
    then obtain fs where "bt_get acc j = Some fs" "snd x \<in> snd ` set fs"
      using Cons.prems(4) by (auto simp: idx_ok_def)
    then have "bt_get (acc @ e # m) j = Some fs" by (simp add: map_of_append)
    then have "bt_get full (snd x) = Some j" "bt_get full (snd x) = Some i"
      using \<open>snd x \<in> snd ` set fs\<close> Cons.prems(2) get e x unfolding idx_ok_def by (auto simp del: map_of_append)
    then show ?thesis using Some by simp
  qed simp
  have sorted: "sorted_wrt (<) (case None of None \<Rightarrow> map fst es | Some p \<Rightarrow> p # map fst es)"
    using ok by (simp add: timeline_ok_def)
  have bidx: "bt_wf idx" using Cons.prems(4) by (simp add: idx_ok_def)
  obtain idx' where l: "kh_load_entries i None idx (map (\<lambda>(v, k). \<lparr> pke_v_eff = v, pke_key = k \<rparr>) es) = Inr (es, idx')"
    "bt_wf idx'" "\<And>pk. bt_get idx' pk = (if pk \<in> snd ` set es then Some i else bt_get idx pk)"
    using kh_load_entries_ok[OF sorted bidx, of i] owner by blast
  have ins: "bt_insert i es acc = acc @ [(i, es)]"
    by (rule bt_insert_last) (rule bt_wf_append_less[OF wf])
  have ne: "es \<noteq> []" and hd: "snd (List.hd es) = i"
    using ok Cons.prems(3) get e by (auto simp: timeline_ok_def)
  then have step: "kh_load_validator \<lparr> kh_by_stable_id = acc, kh_pubkey_to_stable_id = idx \<rparr>
      \<lparr> pkv_stable_id = i, pkv_entries = map (\<lambda>(v, k). \<lparr> pke_v_eff = v, pke_key = k \<rparr>) es \<rparr>
      = Inr \<lparr> kh_by_stable_id = acc @ [(i, es)], kh_pubkey_to_stable_id = idx' \<rparr>"
    using l(1) ins by (cases es) (auto simp: kh_load_validator_def)
  have app: "bt_get (acc @ [(i, es)]) j = (if j = i then Some es else bt_get acc j)" for j
    using none by (auto simp: map_add_def split: option.split)
  have acc_idx: "bt_get idx pk = Some j \<longleftrightarrow> (\<exists>fs. bt_get acc j = Some fs \<and> pk \<in> snd ` set fs)" for pk j
    using Cons.prems(4) by (simp add: idx_ok_def)
  have "bt_get idx' pk = Some j \<longleftrightarrow> (\<exists>fs. bt_get (acc @ [(i, es)]) j = Some fs \<and> pk \<in> snd ` set fs)" for pk j
  proof (cases "pk \<in> snd ` set es")
    case True
    then have "bt_get idx pk \<in> {None, Some i}" using owner by auto
    then show ?thesis using True l(3)[of pk] acc_idx[of pk j] unfolding app by auto
  next
    case False
    then show ?thesis using l(3)[of pk] acc_idx[of pk j] none unfolding app by auto
  qed
  then have "idx_ok (acc @ [(i, es)]) idx'" using l(2) by (simp add: idx_ok_def)
  then show ?case using Cons.IH[of "acc @ [(i, es)]" idx'] Cons.prems(1-3) e step
    by (auto simp: tm_to_persisted_def)
qed (simp add: tm_to_persisted_def)

lemma kh_persist_roundtrip:
  assumes "kh_wf h"
  shows "kh_from_persisted (kh_to_persisted h) = Inr h"
proof -
  have ix: "idx_ok (kh_by_stable_id h) (kh_pubkey_to_stable_id h)"
    using assms by (simp add: kh_wf_def idx_ok_def)
  have hd: "\<forall>i es. bt_get (kh_by_stable_id h) i = Some es \<longrightarrow> snd (List.hd es) = i"
    using assms by (simp add: kh_wf_def)
  obtain h' where h': "try_fold kh_load_validator kh_default (pkh_validators (tm_to_persisted (kh_by_stable_id h))) = Inr h'"
    "kh_by_stable_id h' = kh_by_stable_id h" "idx_ok (kh_by_stable_id h) (kh_pubkey_to_stable_id h')"
    using kh_roundtrip_from[of "[]" "kh_by_stable_id h" "kh_pubkey_to_stable_id h" "[]"] assms ix hd
    by (auto simp: kh_wf_def idx_ok_def kh_default_def)
  have "kh_pubkey_to_stable_id h' = kh_pubkey_to_stable_id h"
  proof (rule bt_eqI)
    fix k
    have "bt_get (kh_pubkey_to_stable_id h') k = Some i \<longleftrightarrow> bt_get (kh_pubkey_to_stable_id h) k = Some i" for i
      using h'(3) ix by (simp add: idx_ok_def)
    then show "bt_get (kh_pubkey_to_stable_id h') k = bt_get (kh_pubkey_to_stable_id h) k"
      by (metis not_None_eq)
  qed (use h'(3) ix in \<open>simp_all add: idx_ok_def\<close>)
  then have "h' = h" using h'(2) by simp
  then show ?thesis using h'(1) by (simp add: kh_from_persisted_def kh_to_persisted_def)
qed

end
