(* ===== verification/Bls_Key_History.thy ===== *)
theory Bls_Key_History
  imports Key_Timeline Validator_Set Sig_Scheme
begin

text \<open>
  The history of BLS keys (\<open>bls_key_history.rs\<close>), by stable validator id. A result
  \<open>None\<close> is a panic (an \<open>expect\<close> on an empty list of entries), \<open>Some (Inl _)\<close> an
  error value.
\<close>

type_synonym bls_key_entry = "view \<times> bls_pk"
type_synonym persisted_bls_key_entry = "bls_pk persisted_key_entry"
type_synonym persisted_bls_validator = "bls_pk persisted_key_validator"
type_synonym persisted_bls_key_history = "bls_pk persisted_key_history"

record bls_key_history =
  bkh_by_stable_id :: "(node_id, bls_key_entry list) btree_map"

datatype bls_history_error =
    BlsAlreadyRegistered node_id
  | BlsUnknownValidator node_id
  | BlsVeffNotStrictlyIncreasing view view
  | BlsNoPendingRotationToCancel node_id view

datatype missing_bls_pubkey = MissingBlsPubkey node_id view

definition bkh_new :: bls_key_history where
  "bkh_new = \<lparr> bkh_by_stable_id = [] \<rparr>"

definition bkh_with_genesis :: "(node_id \<times> bls_pk) list \<Rightarrow> bls_key_history" where
  "bkh_with_genesis genesis =
     fold (\<lambda>(stable_id, pk) h. h\<lparr> bkh_by_stable_id := bt_insert stable_id [(0, pk)] (bkh_by_stable_id h) \<rparr>)
       genesis bkh_new"

definition bkh_register ::
  "bls_key_history \<Rightarrow> node_id \<Rightarrow> view \<Rightarrow> bls_pk \<Rightarrow> bls_history_error + bls_key_history" where
  "bkh_register h stable_id v_eff pk =
     (if bt_contains (bkh_by_stable_id h) stable_id then Inl (BlsAlreadyRegistered stable_id)
      else Inr (h\<lparr> bkh_by_stable_id := bt_insert stable_id [(v_eff, pk)] (bkh_by_stable_id h) \<rparr>))"

definition bkh_apply_rotation ::
  "bls_key_history \<Rightarrow> node_id \<Rightarrow> view \<Rightarrow> bls_pk \<Rightarrow> (bls_history_error + bls_key_history) option" where
  "bkh_apply_rotation h stable_id v_eff pk =
     (case bt_get (bkh_by_stable_id h) stable_id of
        None \<Rightarrow> Some (Inl (BlsUnknownValidator stable_id))
      | Some entries \<Rightarrow>
          if entries = [] then None
          else if v_eff \<le> fst (last entries)
          then Some (Inl (BlsVeffNotStrictlyIncreasing (fst (last entries)) v_eff))
          else Some (Inr (h\<lparr> bkh_by_stable_id :=
                 bt_insert stable_id (entries @ [(v_eff, pk)]) (bkh_by_stable_id h) \<rparr>)))"

definition bkh_cancel_pending_rotation ::
  "bls_key_history \<Rightarrow> node_id \<Rightarrow> view \<Rightarrow> view \<Rightarrow> (bls_history_error + bls_key_history) option" where
  "bkh_cancel_pending_rotation h stable_id cancelling_v_eff commit_view =
     (case bt_get (bkh_by_stable_id h) stable_id of
        None \<Rightarrow> Some (Inl (BlsUnknownValidator stable_id))
      | Some entries \<Rightarrow>
          if entries = [] then None
          else if fst (last entries) \<noteq> cancelling_v_eff \<or> cancelling_v_eff \<le> commit_view
          then Some (Inl (BlsNoPendingRotationToCancel stable_id cancelling_v_eff))
          else Some (Inr (h\<lparr> bkh_by_stable_id :=
                 bt_insert stable_id (butlast entries) (bkh_by_stable_id h) \<rparr>)))"

definition bkh_contains :: "bls_key_history \<Rightarrow> node_id \<Rightarrow> bool" where
  "bkh_contains h stable_id = bt_contains (bkh_by_stable_id h) stable_id"

definition bkh_key_at :: "bls_key_history \<Rightarrow> node_id \<Rightarrow> view \<Rightarrow> bls_pk option" where
  "bkh_key_at h stable_id v =
     (case bt_get (bkh_by_stable_id h) stable_id of
        None \<Rightarrow> None
      | Some entries \<Rightarrow>
          let i = partition_point (\<lambda>e. fst e \<le> v) entries in
          if i = 0 then None else Some (snd (entries ! (i - 1))))"

definition pubkeys_for_set ::
  "bls_key_history \<Rightarrow> validator_set \<Rightarrow> view \<Rightarrow> missing_bls_pubkey + bls_pk list" where
  "pubkeys_for_set h s v =
     try_map (\<lambda>stable_id. case bkh_key_at h stable_id v of
         Some pk \<Rightarrow> Inr pk
       | None \<Rightarrow> Inl (MissingBlsPubkey stable_id v)) (members s)"

definition bkh_current_key :: "bls_key_history \<Rightarrow> node_id \<Rightarrow> bls_pk option" where
  "bkh_current_key h stable_id =
     (case bt_get (bkh_by_stable_id h) stable_id of
        None \<Rightarrow> None
      | Some entries \<Rightarrow> if entries = [] then None else Some (snd (last entries)))"

definition bkh_len :: "bls_key_history \<Rightarrow> nat" where
  "bkh_len h = length (bkh_by_stable_id h)"

definition bkh_is_empty :: "bls_key_history \<Rightarrow> bool" where
  "bkh_is_empty h \<longleftrightarrow> bkh_by_stable_id h = []"

definition bkh_to_persisted :: "bls_key_history \<Rightarrow> persisted_bls_key_history" where
  "bkh_to_persisted h = tm_to_persisted (bkh_by_stable_id h)"

definition bkh_from_persisted :: "persisted_bls_key_history \<Rightarrow> key_load_error + bls_key_history" where
  "bkh_from_persisted p =
     (case try_fold load_validator [] (pkh_validators p) of
        Inl e \<Rightarrow> Inl e
      | Inr m \<Rightarrow> Inr \<lparr> bkh_by_stable_id = m \<rparr>)"

section \<open>Invariant and contract\<close>

definition bkh_wf :: "bls_key_history \<Rightarrow> bool" where
  "bkh_wf h \<longleftrightarrow> tm_wf (bkh_by_stable_id h)"

lemma bkh_key_at_tm: "bkh_key_at h i v = tm_at (bkh_by_stable_id h) i v"
  by (simp add: bkh_key_at_def tm_at_def timeline_at_def split: option.split)

lemma bkh_with_genesis_wf: "bkh_wf (bkh_with_genesis g)"
proof -
  have "bkh_wf h \<Longrightarrow> bkh_wf (fold (\<lambda>(stable_id, pk) h. h\<lparr> bkh_by_stable_id :=
      bt_insert stable_id [(0, pk)] (bkh_by_stable_id h) \<rparr>) g h)" for h
    by (induction g arbitrary: h) (auto simp: bkh_wf_def tm_wf_insert)
  then show ?thesis by (simp add: bkh_with_genesis_def bkh_new_def bkh_wf_def)
qed

lemma bkh_register_wf: "bkh_wf h \<Longrightarrow> bkh_register h i v k = Inr h' \<Longrightarrow> bkh_wf h'"
  by (auto simp: bkh_register_def bkh_wf_def tm_wf_insert split: if_splits)

lemma bkh_key_at_register:
  "bkh_wf h \<Longrightarrow> bkh_register h i v k = Inr h' \<Longrightarrow>
   bkh_key_at h' j w = (if j = i then if v \<le> w then Some k else None else bkh_key_at h j w)"
  by (auto simp: bkh_register_def bkh_wf_def bkh_key_at_tm tm_at_def tm_at_single split: if_splits)

lemma bkh_rotate_cases:
  assumes "bkh_apply_rotation h i v k = Some (Inr h')"
  obtains es where "bt_get (bkh_by_stable_id h) i = Some es" "fst (last es) < v"
    "h' = h\<lparr> bkh_by_stable_id := bt_insert i (es @ [(v, k)]) (bkh_by_stable_id h) \<rparr>"
  using assms by (auto simp: bkh_apply_rotation_def split: option.splits if_splits)

interpretation bkh: key_history bkh_wf bkh_key_at "\<lambda>h. tm_latest (bkh_by_stable_id h)"
    "\<lambda>h q. bkh_apply_rotation h (fst q) (fst (snd q)) (snd (snd q))"
    "\<lambda>h q. fst q" "\<lambda>q. fst (snd q)" "\<lambda>q. snd (snd q)"
proof
  fix h and q :: "node_id \<times> view \<times> bls_pk"
  assume "bkh_wf h"
  then show "bkh_apply_rotation h (fst q) (fst (snd q)) (snd (snd q)) \<noteq> None"
    by (auto simp: bkh_apply_rotation_def bkh_wf_def timeline_ok_def split: option.splits dest: tm_wf_get)
next
  fix h h' and q :: "node_id \<times> view \<times> bls_pk" and i w
  assume wf: "bkh_wf h" and r: "bkh_apply_rotation h (fst q) (fst (snd q)) (snd (snd q)) = Some (Inr h')"
  obtain a v k where q: "q = (a, v, k)" by (cases q)
  obtain es where es: "bt_get (bkh_by_stable_id h) a = Some es" "fst (last es) < v"
    "h' = h\<lparr> bkh_by_stable_id := bt_insert a (es @ [(v, k)]) (bkh_by_stable_id h) \<rparr>"
    using bkh_rotate_cases[of h a v k h'] r q by auto
  note p = tm_push[OF wf[unfolded bkh_wf_def] es(1,2)]
  show "bkh_wf h'" using p(1) es(3) by (simp add: bkh_wf_def)
  show "\<exists>l. tm_latest (bkh_by_stable_id h) (fst q) = Some l \<and> l < fst (snd q)"
    using es q by (simp add: tm_latest_def)
  show "tm_latest (bkh_by_stable_id h') i = (if i = fst q then Some (fst (snd q)) else tm_latest (bkh_by_stable_id h) i)"
    using p(2) es(3) q by simp
  show "bkh_key_at h' i w = (if i = fst q \<and> fst (snd q) \<le> w then Some (snd (snd q)) else bkh_key_at h i w)"
    using p(3) es(3) q by (simp add: bkh_key_at_tm)
qed

text \<open>Cancelling a rotation that is still pending restores the history before it.\<close>

lemma bkh_cancel_undoes_rotation:
  assumes "bkh_wf h" "bkh_apply_rotation h i v k = Some (Inr h')" "commit < v"
  shows "bkh_cancel_pending_rotation h' i v commit = Some (Inr h)"
proof -
  obtain es where es: "bt_get (bkh_by_stable_id h) i = Some es" "fst (last es) < v"
    "h' = h\<lparr> bkh_by_stable_id := bt_insert i (es @ [(v, k)]) (bkh_by_stable_id h) \<rparr>"
    using assms(2) by (rule bkh_rotate_cases)
  have wf: "bt_wf (bkh_by_stable_id h)" using assms(1) by (simp add: bkh_wf_def)
  have "bt_insert i es (bt_insert i (es @ [(v, k)]) (bkh_by_stable_id h)) = bkh_by_stable_id h"
    by (rule bt_eqI) (use wf es(1) in auto)
  then show ?thesis using es assms(3) wf by (auto simp: bkh_cancel_pending_rotation_def)
qed

lemma pubkeys_for_set_ok:
  assumes "\<forall>i \<in> set (members s). bkh_key_at h i v \<noteq> None"
  shows "pubkeys_for_set h s v = Inr (map (\<lambda>i. the (bkh_key_at h i v)) (members s))"
proof -
  have "try_map f xs = Inr (map (\<lambda>i. the (bkh_key_at h i v)) xs)"
    if "\<forall>i \<in> set xs. f i = Inr (the (bkh_key_at h i v))" for f :: "node_id \<Rightarrow> missing_bls_pubkey + bls_pk" and xs
    using that by (induction xs) auto
  then show ?thesis unfolding pubkeys_for_set_def by (rule) (use assms in \<open>auto split: option.splits\<close>)
qed

lemma bkh_persist_roundtrip: "bkh_wf h \<Longrightarrow> bkh_from_persisted (bkh_to_persisted h) = Inr h"
  by (simp add: bkh_from_persisted_def bkh_to_persisted_def bkh_wf_def tm_roundtrip)

lemma bkh_from_persisted_wf: "bkh_from_persisted p = Inr h \<Longrightarrow> bkh_wf h"
  by (auto simp: bkh_from_persisted_def bkh_wf_def load_wf split: sum.splits)

end
