(* ===== verification/Operator_Key_History.thy ===== *)
theory Operator_Key_History
  imports Key_Timeline Validator_Set
begin

text \<open>
  The history of operator keys (\<open>operator_key_history.rs\<close>), the recovery keys that
  authorise a rotation when the consensus key is lost. Conventions as in the
  other histories: \<open>None\<close> is a panic.
\<close>

type_synonym operator_key_entry = "view \<times> node_id"
type_synonym persisted_operator_key_entry = "node_id persisted_key_entry"
type_synonym persisted_operator_validator = "node_id persisted_key_validator"
type_synonym persisted_operator_key_history = "node_id persisted_key_history"

record operator_key_history =
  okh_by_stable_id :: "(node_id, operator_key_entry list) btree_map"

datatype operator_history_error =
    OpUnknownValidator node_id
  | OpVeffNotStrictlyIncreasing view view
  | OpAlreadyRegistered node_id

definition okh_new :: operator_key_history where
  "okh_new = \<lparr> okh_by_stable_id = [] \<rparr>"

definition okh_with_genesis :: "(validator_id \<times> node_id) list \<Rightarrow> operator_key_history" where
  "okh_with_genesis genesis =
     fold (\<lambda>(validator, pk) h.
         if bt_contains (okh_by_stable_id h) validator then h
         else h\<lparr> okh_by_stable_id := bt_insert validator [(0, pk)] (okh_by_stable_id h) \<rparr>)
       genesis okh_new"

definition okh_register ::
  "operator_key_history \<Rightarrow> validator_id \<Rightarrow> view \<Rightarrow> node_id \<Rightarrow> operator_history_error + operator_key_history" where
  "okh_register h validator v_eff pk =
     (if bt_contains (okh_by_stable_id h) validator then Inl (OpAlreadyRegistered validator)
      else Inr (h\<lparr> okh_by_stable_id := bt_insert validator [(v_eff, pk)] (okh_by_stable_id h) \<rparr>))"

definition okh_apply_rotation ::
  "operator_key_history \<Rightarrow> validator_id \<Rightarrow> view \<Rightarrow> node_id
    \<Rightarrow> (operator_history_error + operator_key_history) option" where
  "okh_apply_rotation h stable_id v_eff pk =
     (case bt_get (okh_by_stable_id h) stable_id of
        None \<Rightarrow> Some (Inl (OpUnknownValidator stable_id))
      | Some entries \<Rightarrow>
          if entries = [] then None
          else if v_eff \<le> fst (last entries)
          then Some (Inl (OpVeffNotStrictlyIncreasing (fst (last entries)) v_eff))
          else Some (Inr (h\<lparr> okh_by_stable_id :=
                 bt_insert stable_id (entries @ [(v_eff, pk)]) (okh_by_stable_id h) \<rparr>)))"

definition okh_contains :: "operator_key_history \<Rightarrow> validator_id \<Rightarrow> bool" where
  "okh_contains h validator = bt_contains (okh_by_stable_id h) validator"

definition okh_key_at :: "operator_key_history \<Rightarrow> validator_id \<Rightarrow> view \<Rightarrow> node_id option" where
  "okh_key_at h validator v =
     (case bt_get (okh_by_stable_id h) validator of
        None \<Rightarrow> None
      | Some entries \<Rightarrow>
          let i = partition_point (\<lambda>e. fst e \<le> v) entries in
          if i = 0 then None else Some (snd (entries ! (i - 1))))"

definition okh_current_key :: "operator_key_history \<Rightarrow> validator_id \<Rightarrow> node_id option" where
  "okh_current_key h validator =
     (case bt_get (okh_by_stable_id h) validator of
        None \<Rightarrow> None
      | Some entries \<Rightarrow> if entries = [] then None else Some (snd (last entries)))"

definition okh_len :: "operator_key_history \<Rightarrow> nat" where
  "okh_len h = length (okh_by_stable_id h)"

definition okh_is_empty :: "operator_key_history \<Rightarrow> bool" where
  "okh_is_empty h \<longleftrightarrow> okh_by_stable_id h = []"

definition okh_to_persisted :: "operator_key_history \<Rightarrow> persisted_operator_key_history" where
  "okh_to_persisted h = tm_to_persisted (okh_by_stable_id h)"

definition okh_from_persisted :: "persisted_operator_key_history \<Rightarrow> key_load_error + operator_key_history" where
  "okh_from_persisted p =
     (case try_fold load_validator [] (pkh_validators p) of
        Inl e \<Rightarrow> Inl e
      | Inr m \<Rightarrow> Inr \<lparr> okh_by_stable_id = m \<rparr>)"

section \<open>Invariant and contract\<close>

definition okh_wf :: "operator_key_history \<Rightarrow> bool" where
  "okh_wf h \<longleftrightarrow> tm_wf (okh_by_stable_id h)"

lemma okh_key_at_tm: "okh_key_at h i v = tm_at (okh_by_stable_id h) i v"
  by (simp add: okh_key_at_def tm_at_def timeline_at_def split: option.split)

lemma okh_register_wf: "okh_wf h \<Longrightarrow> okh_register h i v k = Inr h' \<Longrightarrow> okh_wf h'"
  by (auto simp: okh_register_def okh_wf_def tm_wf_insert split: if_splits)

lemma okh_with_genesis_wf: "okh_wf (okh_with_genesis g)"
proof -
  have "okh_wf h \<Longrightarrow> okh_wf (fold (\<lambda>(validator, pk) h.
      if bt_contains (okh_by_stable_id h) validator then h
      else h\<lparr> okh_by_stable_id := bt_insert validator [(0, pk)] (okh_by_stable_id h) \<rparr>) g h)" for h
    by (induction g arbitrary: h) (auto simp: okh_wf_def tm_wf_insert)
  then show ?thesis by (simp add: okh_with_genesis_def okh_new_def okh_wf_def)
qed

lemma okh_rotate_cases:
  assumes "okh_apply_rotation h i v k = Some (Inr h')"
  obtains es where "bt_get (okh_by_stable_id h) i = Some es" "fst (last es) < v"
    "h' = h\<lparr> okh_by_stable_id := bt_insert i (es @ [(v, k)]) (okh_by_stable_id h) \<rparr>"
  using assms by (auto simp: okh_apply_rotation_def split: option.splits if_splits)

interpretation okh: key_history okh_wf okh_key_at "\<lambda>h. tm_latest (okh_by_stable_id h)"
    "\<lambda>h q. okh_apply_rotation h (fst q) (fst (snd q)) (snd (snd q))"
    "\<lambda>h q. fst q" "\<lambda>q. fst (snd q)" "\<lambda>q. snd (snd q)"
proof
  fix h and q :: "validator_id \<times> view \<times> node_id"
  assume "okh_wf h"
  then show "okh_apply_rotation h (fst q) (fst (snd q)) (snd (snd q)) \<noteq> None"
    by (auto simp: okh_apply_rotation_def okh_wf_def timeline_ok_def split: option.splits dest: tm_wf_get)
next
  fix h h' and q :: "validator_id \<times> view \<times> node_id" and i w
  assume wf: "okh_wf h" and r: "okh_apply_rotation h (fst q) (fst (snd q)) (snd (snd q)) = Some (Inr h')"
  obtain a v k where q: "q = (a, v, k)" by (cases q)
  obtain es where es: "bt_get (okh_by_stable_id h) a = Some es" "fst (last es) < v"
    "h' = h\<lparr> okh_by_stable_id := bt_insert a (es @ [(v, k)]) (okh_by_stable_id h) \<rparr>"
    using okh_rotate_cases[of h a v k h'] r q by auto
  note p = tm_push[OF wf[unfolded okh_wf_def] es(1,2)]
  show "okh_wf h'" using p(1) es(3) by (simp add: okh_wf_def)
  show "\<exists>l. tm_latest (okh_by_stable_id h) (fst q) = Some l \<and> l < fst (snd q)"
    using es q by (simp add: tm_latest_def)
  show "tm_latest (okh_by_stable_id h') i = (if i = fst q then Some (fst (snd q)) else tm_latest (okh_by_stable_id h) i)"
    using p(2) es(3) q by simp
  show "okh_key_at h' i w = (if i = fst q \<and> fst (snd q) \<le> w then Some (snd (snd q)) else okh_key_at h i w)"
    using p(3) es(3) q by (simp add: okh_key_at_tm)
qed

lemma okh_persist_roundtrip: "okh_wf h \<Longrightarrow> okh_from_persisted (okh_to_persisted h) = Inr h"
  by (simp add: okh_from_persisted_def okh_to_persisted_def okh_wf_def tm_roundtrip)

lemma okh_from_persisted_wf: "okh_from_persisted p = Inr h \<Longrightarrow> okh_wf h"
  by (auto simp: okh_from_persisted_def okh_wf_def load_wf split: sum.splits)

end
