(* ===== verification/History_Commitment.thy ===== *)
theory History_Commitment
  imports Reconfig Validator_Key_History Bls_Key_History Operator_Key_History Block
begin

text \<open>
  The evolution of the validator histories along the chain
  (\<open>history_commitment.rs\<close>): the appliers of rotation, cancel and operator
  commands, the rebuild of all histories from the commands of a block, and the
  commitment to the histories that every block header carries. \<open>None\<close> is a panic.
\<close>

section \<open>Appliers of single commands\<close>

datatype rotation_cancel_error =
    CancelMalformed decode_error
  | CancelUnknownValidator
  | NoPendingRotation
  | CancelVerify rotation_verify_error
  | CancelHistory key_history_error

definition apply_rotation_cancel_command ::
  "('g1, 'g2) rotation_env \<Rightarrow> validator_key_history \<Rightarrow> bls_key_history option \<Rightarrow> bytes \<Rightarrow> chain_id \<Rightarrow> view
     \<Rightarrow> (rotation_cancel_error + bool \<times> validator_key_history \<times> bls_key_history option) option" where
  "apply_rotation_cancel_command env kh bls bs c commit_view =
     (if \<not> is_cancel_payload bs then Some (Inr (False, kh, bls))
      else (case decode_rotation_cancel env bs of
        Inl e \<Rightarrow> Some (Inl (CancelMalformed e))
      | Inr cancel \<Rightarrow>
          let validator_pk = vrc_validator (dsc_payload cancel);
              cancelling_v_eff = vrc_cancelling_v_eff (dsc_payload cancel) in
          (case pending_rotation_new_key kh validator_pk cancelling_v_eff commit_view of
             None \<Rightarrow> Some (Inl NoPendingRotation)
           | Some pending_new \<Rightarrow>
          (case validator_for kh validator_pk of
             None \<Rightarrow> Some (Inl CancelUnknownValidator)
           | Some stable_id \<Rightarrow>
          (case kh_key_at kh stable_id commit_view of
             None \<Rightarrow> Some (Inl CancelUnknownValidator)
           | Some current_key \<Rightarrow>
          (case verify_rotation_cancel env cancel current_key pending_new c of
             Inl e \<Rightarrow> Some (Inl (CancelVerify e))
           | Inr _ \<Rightarrow>
          (case kh_cancel_pending_rotation kh validator_pk cancelling_v_eff commit_view of
             None \<Rightarrow> None
           | Some (Inl e) \<Rightarrow> Some (Inl (CancelHistory e))
           | Some (Inr (_, kh')) \<Rightarrow>
               (case bls of
                  None \<Rightarrow> Some (Inr (True, kh', None))
                | Some b \<Rightarrow>
                    (case bkh_cancel_pending_rotation b stable_id cancelling_v_eff commit_view of
                       None \<Rightarrow> None
                     | Some (Inl _) \<Rightarrow> Some (Inr (True, kh', Some b))
                     | Some (Inr b') \<Rightarrow> Some (Inr (True, kh', Some b')))))))))))"

datatype operator_rotation_error =
    OpRotMalformed decode_error
  | OpRotUnknownValidator
  | OpRotNoOperatorKey
  | OpRotVerify rotation_verify_error
  | OpRotScheme rotation_structural_error
  | OpRotHistory key_history_error

text \<open>The BLS half of a rotation, its error ignored.\<close>

definition bls_rotate_ignoring ::
  "bls_key_history \<Rightarrow> node_id \<Rightarrow> view \<Rightarrow> bls_pk \<Rightarrow> bls_key_history option" where
  "bls_rotate_ignoring b stable_id v_eff pk =
     (case bkh_apply_rotation b stable_id v_eff pk of
        None \<Rightarrow> None
      | Some (Inl _) \<Rightarrow> Some b
      | Some (Inr b') \<Rightarrow> Some b')"

definition apply_operator_rotation_command ::
  "('g1, 'g2) rotation_env \<Rightarrow> validator_key_history \<Rightarrow> bls_key_history option \<Rightarrow> operator_key_history
     \<Rightarrow> bytes \<Rightarrow> chain_id \<Rightarrow> view
     \<Rightarrow> (operator_rotation_error + bool \<times> validator_key_history \<times> bls_key_history option) option" where
  "apply_operator_rotation_command env kh bls op bs c commit_view =
     (if \<not> is_operator_rotation_payload bs then Some (Inr (False, kh, bls))
      else (case decode_operator_rotation env bs of
        Inl e \<Rightarrow> Some (Inl (OpRotMalformed e))
      | Inr e \<Rightarrow>
          (case validator_for kh (vkr_validator (osr_payload e)) of
             None \<Rightarrow> Some (Inl OpRotUnknownValidator)
           | Some stable_id \<Rightarrow>
          (case okh_key_at op stable_id commit_view of
             None \<Rightarrow> Some (Inl OpRotNoOperatorKey)
           | Some operator_pk \<Rightarrow>
          (case verify_operator_rotation env e operator_pk c of
             Inl err \<Rightarrow> Some (Inl (OpRotVerify err))
           | Inr _ \<Rightarrow>
          (case validate_scheme_consistency (re_bls env) (osr_payload e) c of
             Inl err \<Rightarrow> Some (Inl (OpRotScheme err))
           | Inr _ \<Rightarrow>
          (case kh_apply_rotation kh (osr_payload e) commit_view of
             None \<Rightarrow> None
           | Some (Inl err) \<Rightarrow> Some (Inl (OpRotHistory err))
           | Some (Inr kh') \<Rightarrow>
               (case (bls, vkr_new_bls_pubkey (osr_payload e)) of
                  (Some b, Some pk) \<Rightarrow>
                    (case bls_rotate_ignoring b stable_id (vkr_v_eff (osr_payload e)) pk of
                       None \<Rightarrow> None
                     | Some b' \<Rightarrow> Some (Inr (True, kh', Some b')))
                | _ \<Rightarrow> Some (Inr (True, kh', bls))))))))))"

datatype operator_key_rotation_error =
    OpKeyMalformed decode_error
  | OpKeyNoOperatorKey
  | OpKeyVerify rotation_verify_error
  | OpKeyHistory operator_history_error

definition apply_operator_key_rotation_command ::
  "('g1, 'g2) rotation_env \<Rightarrow> operator_key_history \<Rightarrow> bytes \<Rightarrow> chain_id \<Rightarrow> view
     \<Rightarrow> (operator_key_rotation_error + bool \<times> operator_key_history) option" where
  "apply_operator_key_rotation_command env op bs c commit_view =
     (if \<not> is_operator_key_rotation_payload bs then Some (Inr (False, op))
      else (case decode_operator_key_rotation env bs of
        Inl e \<Rightarrow> Some (Inl (OpKeyMalformed e))
      | Inr e \<Rightarrow>
          (case okh_key_at op (okr_validator (dso_payload e)) commit_view of
             None \<Rightarrow> Some (Inl OpKeyNoOperatorKey)
           | Some current \<Rightarrow>
          (case verify_operator_key_rotation env e current c of
             Inl err \<Rightarrow> Some (Inl (OpKeyVerify err))
           | Inr _ \<Rightarrow>
          (case okh_apply_rotation op (okr_validator (dso_payload e)) (okr_v_eff (dso_payload e))
                  (okr_new_operator_pubkey (dso_payload e)) of
             None \<Rightarrow> None
           | Some (Inl err) \<Rightarrow> Some (Inl (OpKeyHistory err))
           | Some (Inr op') \<Rightarrow> Some (Inr (True, op')))))))"

section \<open>Rebuild from a block\<close>

text \<open>A loop whose body may panic.\<close>

fun fold_opt :: "('s \<Rightarrow> 'a \<Rightarrow> 's option) \<Rightarrow> 's \<Rightarrow> 'a list \<Rightarrow> 's option" where
  "fold_opt f s [] = Some s"
| "fold_opt f s (x # xs) = (case f s x of None \<Rightarrow> None | Some s' \<Rightarrow> fold_opt f s' xs)"

text \<open>The body of the first loop of \<open>apply_rotation_commands_to_histories\<close>.\<close>

definition rebuild_rotation ::
  "('g1, 'g2) rotation_env \<Rightarrow> chain_id \<Rightarrow> view \<Rightarrow> validator_key_history \<times> bls_key_history option \<Rightarrow> bytes
     \<Rightarrow> (validator_key_history \<times> bls_key_history option) option" where
  "rebuild_rotation env c block_view = (\<lambda>(kh, bls) bs.
     (if \<not> is_rotation_payload bs then Some (kh, bls)
      else (case decode_rotation env bs of
        Inl _ \<Rightarrow> Some (kh, bls)
      | Inr e \<Rightarrow>
          let validator_pk = vkr_validator (dsr_payload e) in
          (case kh_current_key kh validator_pk of
             None \<Rightarrow> Some (kh, bls)
           | Some current_key \<Rightarrow>
          (case verify_rotation env e current_key c of
             Inl _ \<Rightarrow> Some (kh, bls)
           | Inr _ \<Rightarrow>
          (case validate_scheme_consistency (re_bls env) (dsr_payload e) c of
             Inl _ \<Rightarrow> Some (kh, bls)
           | Inr _ \<Rightarrow>
              let stable_id = validator_for kh validator_pk in
              (case kh_apply_rotation kh (dsr_payload e) block_view of
                 None \<Rightarrow> None
               | Some (Inl _) \<Rightarrow> Some (kh, bls)
               | Some (Inr kh') \<Rightarrow>
                   (case (vkr_new_bls_pubkey (dsr_payload e), bls, stable_id) of
                      (Some pk, Some b, Some i) \<Rightarrow>
                        (case bls_rotate_ignoring b i (vkr_v_eff (dsr_payload e)) pk of
                           None \<Rightarrow> None
                         | Some b' \<Rightarrow> Some (kh', Some b'))
                    | _ \<Rightarrow> Some (kh', bls)))))))))"

definition rebuild_cancel ::
  "('g1, 'g2) rotation_env \<Rightarrow> chain_id \<Rightarrow> view \<Rightarrow> validator_key_history \<times> bls_key_history option \<Rightarrow> bytes
     \<Rightarrow> (validator_key_history \<times> bls_key_history option) option" where
  "rebuild_cancel env c block_view = (\<lambda>(kh, bls) bs.
     (case apply_rotation_cancel_command env kh bls bs c block_view of
        None \<Rightarrow> None
      | Some (Inl _) \<Rightarrow> Some (kh, bls)
      | Some (Inr (_, kh', bls')) \<Rightarrow> Some (kh', bls')))"

definition rebuild_operator_rotation ::
  "('g1, 'g2) rotation_env \<Rightarrow> operator_key_history \<Rightarrow> chain_id \<Rightarrow> view
     \<Rightarrow> validator_key_history \<times> bls_key_history option \<Rightarrow> bytes
     \<Rightarrow> (validator_key_history \<times> bls_key_history option) option" where
  "rebuild_operator_rotation env op c block_view = (\<lambda>(kh, bls) bs.
     (case apply_operator_rotation_command env kh bls op bs c block_view of
        None \<Rightarrow> None
      | Some (Inl _) \<Rightarrow> Some (kh, bls)
      | Some (Inr (_, kh', bls')) \<Rightarrow> Some (kh', bls')))"

definition rebuild_operator_key ::
  "('g1, 'g2) rotation_env \<Rightarrow> chain_id \<Rightarrow> view \<Rightarrow> operator_key_history \<Rightarrow> bytes \<Rightarrow> operator_key_history option" where
  "rebuild_operator_key env c block_view op bs =
     (case apply_operator_key_rotation_command env op bs c block_view of
        None \<Rightarrow> None
      | Some (Inl _) \<Rightarrow> Some op
      | Some (Inr (_, op')) \<Rightarrow> Some op')"

definition apply_rotation_commands_to_histories ::
  "('g1, 'g2) rotation_env \<Rightarrow> block \<Rightarrow> validator_key_history \<Rightarrow> bls_key_history option
     \<Rightarrow> operator_key_history option \<Rightarrow> chain_id
     \<Rightarrow> (validator_key_history \<times> bls_key_history option \<times> operator_key_history option) option" where
  "apply_rotation_commands_to_histories env b kh bls op c =
     (let v = hdr_view (header b); cmds = commands b in
      case fold_opt (rebuild_rotation env c v) (kh, bls) cmds of None \<Rightarrow> None | Some s1 \<Rightarrow>
     (case fold_opt (rebuild_cancel env c v) s1 cmds of None \<Rightarrow> None | Some s2 \<Rightarrow>
     (case (case op of None \<Rightarrow> Some s2 | Some o' \<Rightarrow> fold_opt (rebuild_operator_rotation env o' c v) s2 cmds) of
        None \<Rightarrow> None
      | Some (kh', bls') \<Rightarrow>
          (case op of
             None \<Rightarrow> Some (kh', bls', None)
           | Some o' \<Rightarrow>
               (case fold_opt (rebuild_operator_key env c v) o' cmds of
                  None \<Rightarrow> None
                | Some o'' \<Rightarrow> Some (kh', bls', Some o''))))))"

text \<open>The state threaded through \<open>apply_reconfig_commands_to_set_history\<close>.\<close>

record histories =
  hs_set :: validator_set_history
  hs_key :: validator_key_history
  hs_operator :: "operator_key_history option"
  hs_bls :: "bls_key_history option"

definition enroll_members :: "view \<Rightarrow> validator_id list \<Rightarrow> validator_key_history \<Rightarrow> validator_key_history" where
  "enroll_members v_eff new_members kh =
     fold (\<lambda>m kh. if m \<in> set (kh_validators kh) then kh
         else (case add_validator kh m v_eff of Inl _ \<Rightarrow> kh | Inr kh' \<Rightarrow> kh'))
       new_members kh"

definition register_operators ::
  "reconfig_command \<Rightarrow> validator_id list \<Rightarrow> operator_key_history \<Rightarrow> operator_key_history" where
  "register_operators cmd new_members op =
     fold (\<lambda>e op. case ve_operator_pubkey e of
           None \<Rightarrow> op
         | Some pk \<Rightarrow>
             if ve_node_id e \<in> set new_members \<and> \<not> okh_contains op (ve_node_id e)
             then (case okh_register op (ve_node_id e) (rc_v_eff cmd) pk of Inl _ \<Rightarrow> op | Inr op' \<Rightarrow> op')
             else op)
       (rc_adds cmd) op"

definition register_bls :: "reconfig_command \<Rightarrow> validator_id list \<Rightarrow> bls_key_history \<Rightarrow> bls_key_history" where
  "register_bls cmd new_members b =
     fold (\<lambda>e b. case ve_bls_pop e of
           None \<Rightarrow> b
         | Some pop \<Rightarrow>
             if ve_node_id e \<in> set new_members \<and> \<not> bkh_contains b (ve_node_id e)
             then (case bkh_register b (ve_node_id e) (rc_v_eff cmd) (pop_pubkey pop) of Inl _ \<Rightarrow> b | Inr b' \<Rightarrow> b')
             else b)
       (rc_adds cmd) b"

text \<open>The first part of the loop body: the next set, or \<open>None\<close> where the body
  continues with the next command. The outer \<open>option\<close> is a panic.\<close>

definition reconfig_target ::
  "('g1, 'g2) reconfig_env \<Rightarrow> view \<Rightarrow> chain_id \<Rightarrow> view \<Rightarrow> validator_set_history \<Rightarrow> bytes
     \<Rightarrow> (reconfig_command \<times> validator_set) option option" where
  "reconfig_target env min_v_eff_delay c block_view sh bs =
     (if \<not> is_reconfig_payload bs then Some None
      else (case decode_reconfig (rv_un_reconfig env) bs of
        Inl _ \<Rightarrow> Some None
      | Inr cmd \<Rightarrow>
          (case set_at sh block_view of
             None \<Rightarrow> None
           | Some a \<Rightarrow>
          (case validate_against_with_delay_and_chain env cmd (for_view a block_view) block_view min_v_eff_delay c of
             Inl _ \<Rightarrow> Some None
           | Inr nxt \<Rightarrow>
               if list_ex (\<lambda>b. fst b \<noteq> 0 \<and> fst b > block_view) (vh_iter sh) then Some None
               else (case with_weights nxt of
                       Inl _ \<Rightarrow> Some None
                     | Inr new_set \<Rightarrow> Some (Some (cmd, new_set)))))))"

definition rebuild_reconfig ::
  "('g1, 'g2) reconfig_env \<Rightarrow> view \<Rightarrow> chain_id \<Rightarrow> view \<Rightarrow> histories \<Rightarrow> bytes \<Rightarrow> histories option" where
  "rebuild_reconfig env min_v_eff_delay c block_view h bs =
     (case reconfig_target env min_v_eff_delay c block_view (hs_set h) bs of
        None \<Rightarrow> None
      | Some None \<Rightarrow> Some h
      | Some (Some (cmd, new_set)) \<Rightarrow>
          (case vh_insert_boundary (hs_set h) (rc_v_eff cmd) new_set of
             Inl _ \<Rightarrow> Some h
           | Inr sh' \<Rightarrow>
               Some (h\<lparr> hs_set := sh',
                        hs_key := enroll_members (rc_v_eff cmd) (members new_set) (hs_key h),
                        hs_operator := map_option (register_operators cmd (members new_set)) (hs_operator h),
                        hs_bls := map_option (register_bls cmd (members new_set)) (hs_bls h) \<rparr>)))"

definition apply_reconfig_commands_to_set_history ::
  "('g1, 'g2) reconfig_env \<Rightarrow> block \<Rightarrow> histories \<Rightarrow> view \<Rightarrow> chain_id \<Rightarrow> histories option" where
  "apply_reconfig_commands_to_set_history env b h min_v_eff_delay c =
     fold_opt (rebuild_reconfig env min_v_eff_delay c (hdr_view (header b))) h (commands b)"

section \<open>Commitment\<close>

text \<open>The encoders of the persisted forms, third-party code.\<close>

record commit_env =
  ce_sha256 :: "bytes \<Rightarrow> hash256"
  ce_set :: "persisted_validator_history \<Rightarrow> bytes"
  ce_key :: "persisted_validator_key_history \<Rightarrow> bytes"
  ce_bls :: "persisted_bls_key_history \<Rightarrow> bytes"
  ce_op :: "persisted_operator_key_history \<Rightarrow> bytes"

definition DOMAIN_V1 :: bytes where
  "DOMAIN_V1 = ascii ''boule.history_commitment.v1''"

definition DOMAIN_V2 :: bytes where
  "DOMAIN_V2 = ascii ''boule.history_commitment.v2''"

definition feed_section :: "bytes \<Rightarrow> bytes" where
  "feed_section bs = be_bytes 8 (of_nat (length bs) :: u64) @ bs"

text \<open>The bytes fed to the hash for the sets, keys and BLS keys.\<close>

definition base_sections ::
  "commit_env \<Rightarrow> validator_set_history \<Rightarrow> validator_key_history \<Rightarrow> bls_key_history option \<Rightarrow> bytes" where
  "base_sections ce sh kh bls =
     feed_section (ce_set ce (vh_to_persisted sh))
     @ feed_section (ce_key ce (kh_to_persisted kh))
     @ (case bls of
          Some b \<Rightarrow> [1] @ feed_section (ce_bls ce (bkh_to_persisted b))
        | None \<Rightarrow> [0])"

definition validator_history_commitment_v1 ::
  "commit_env \<Rightarrow> validator_set_history \<Rightarrow> validator_key_history \<Rightarrow> bls_key_history option \<Rightarrow> hash256" where
  "validator_history_commitment_v1 ce sh kh bls = ce_sha256 ce (DOMAIN_V1 @ base_sections ce sh kh bls)"

definition commitment_preimage_v2 ::
  "commit_env \<Rightarrow> validator_set_history \<Rightarrow> validator_key_history \<Rightarrow> bls_key_history option
     \<Rightarrow> operator_key_history option \<Rightarrow> bytes" where
  "commitment_preimage_v2 ce sh kh bls op =
     DOMAIN_V2 @ base_sections ce sh kh bls
     @ feed_section (ce_op ce (case op of Some o' \<Rightarrow> okh_to_persisted o' | None \<Rightarrow> \<lparr> pkh_validators = [] \<rparr>))"

definition validator_history_commitment_v2 ::
  "commit_env \<Rightarrow> validator_set_history \<Rightarrow> validator_key_history \<Rightarrow> bls_key_history option
     \<Rightarrow> operator_key_history option \<Rightarrow> hash256" where
  "validator_history_commitment_v2 ce sh kh bls op = ce_sha256 ce (commitment_preimage_v2 ce sh kh bls op)"

definition compute_post_block_commitment ::
  "('g1, 'g2) reconfig_env \<Rightarrow> ('g1, 'g2) rotation_env \<Rightarrow> commit_env \<Rightarrow> block \<Rightarrow> histories \<Rightarrow> chain_id \<Rightarrow> view
     \<Rightarrow> hash256 option" where
  "compute_post_block_commitment renv env ce b h c min_v_eff_delay =
     (case apply_reconfig_commands_to_set_history renv b h min_v_eff_delay c of
        None \<Rightarrow> None
      | Some h1 \<Rightarrow>
          (case apply_rotation_commands_to_histories env b (hs_key h1) (hs_bls h1) (hs_operator h1) c of
             None \<Rightarrow> None
           | Some (kh, bls, op) \<Rightarrow> Some (validator_history_commitment_v2 ce (hs_set h1) kh bls op)))"

section \<open>Binding\<close>

lemma feed_section_inj:
  assumes "feed_section a @ x = feed_section b @ y" "length a < 2 ^ 64" "length b < 2 ^ 64"
  shows "a = b \<and> x = y"
proof -
  have e: "be_bytes 8 (of_nat (length a) :: u64) = be_bytes 8 (of_nat (length b) :: u64)" "a @ x = b @ y"
    using assms(1) by (simp_all add: feed_section_def be_bytes_def)
  have "(of_nat (length a) :: u64) = of_nat (length b)" using e(1) by (rule be_bytes_inj) simp
  moreover have "unat (of_nat (length a) :: u64) = length a" "unat (of_nat (length b) :: u64) = length b"
    using assms(2,3) by (simp_all add: unat_of_nat_small)
  ultimately have "length a = length b" by metis
  then show ?thesis using e(2) by simp
qed

text \<open>What the binding argument asks of an encoder on two values: different values have
  different encodings, and the encodings fit the 64-bit length prefix.\<close>

definition distinguishes :: "('a \<Rightarrow> bytes) \<Rightarrow> 'a \<Rightarrow> 'a \<Rightarrow> bool" where
  "distinguishes pc a b \<longleftrightarrow> (pc a = pc b \<longrightarrow> a = b) \<and> length (pc a) < 2 ^ 64 \<and> length (pc b) < 2 ^ 64"

lemma feed_distinguishes:
  "feed_section (pc a) @ x = feed_section (pc b) @ y \<Longrightarrow> distinguishes pc a b \<Longrightarrow> a = b \<and> x = y"
  using feed_section_inj[of "pc a" x "pc b" y] by (simp add: distinguishes_def)

definition persisted_op :: "operator_key_history option \<Rightarrow> persisted_operator_key_history" where
  "persisted_op op = (case op of Some o' \<Rightarrow> okh_to_persisted o' | None \<Rightarrow> \<lparr> pkh_validators = [] \<rparr>)"

definition encoders_distinguish :: "commit_env \<Rightarrow> histories \<Rightarrow> histories \<Rightarrow> bool" where
  "encoders_distinguish ce h h' \<longleftrightarrow>
     distinguishes (ce_set ce) (vh_to_persisted (hs_set h)) (vh_to_persisted (hs_set h'))
   \<and> distinguishes (ce_key ce) (kh_to_persisted (hs_key h)) (kh_to_persisted (hs_key h'))
   \<and> (\<forall>b b'. hs_bls h = Some b \<longrightarrow> hs_bls h' = Some b' \<longrightarrow>
        distinguishes (ce_bls ce) (bkh_to_persisted b) (bkh_to_persisted b'))
   \<and> distinguishes (ce_op ce) (persisted_op (hs_operator h)) (persisted_op (hs_operator h'))"

definition commitment_of :: "commit_env \<Rightarrow> histories \<Rightarrow> hash256" where
  "commitment_of ce h = validator_history_commitment_v2 ce (hs_set h) (hs_key h) (hs_bls h) (hs_operator h)"

abbreviation preimage_of :: "commit_env \<Rightarrow> histories \<Rightarrow> bytes" where
  "preimage_of ce h \<equiv> commitment_preimage_v2 ce (hs_set h) (hs_key h) (hs_bls h) (hs_operator h)"

text \<open>Two given inputs collide. (That some inputs do holds of every hash function, so the
  theorems name the inputs.)\<close>

definition collides :: "(bytes \<Rightarrow> hash256) \<Rightarrow> bytes \<Rightarrow> bytes \<Rightarrow> bool" where
  "collides sha x y \<longleftrightarrow> x \<noteq> y \<and> sha x = sha y"

lemma commitment_preimage_inj:
  assumes "encoders_distinguish ce h h'" and "preimage_of ce h = preimage_of ce h'"
  shows "vh_to_persisted (hs_set h) = vh_to_persisted (hs_set h')" "kh_to_persisted (hs_key h) = kh_to_persisted (hs_key h')"
    "map_option bkh_to_persisted (hs_bls h) = map_option bkh_to_persisted (hs_bls h')"
    "persisted_op (hs_operator h) = persisted_op (hs_operator h')"
proof -
  let ?o = "\<lambda>h. feed_section (ce_op ce (persisted_op (hs_operator h)))"
  let ?t = "\<lambda>h. (case hs_bls h of Some b \<Rightarrow> [1] @ feed_section (ce_bls ce (bkh_to_persisted b)) | None \<Rightarrow> [0]) @ ?o h"
  have e: "feed_section (ce_set ce (vh_to_persisted (hs_set h))) @ (feed_section (ce_key ce (kh_to_persisted (hs_key h))) @ ?t h)
      = feed_section (ce_set ce (vh_to_persisted (hs_set h'))) @ (feed_section (ce_key ce (kh_to_persisted (hs_key h'))) @ ?t h')"
    using assms(2) by (simp add: commitment_preimage_v2_def base_sections_def flip: persisted_op_def)
  have d: "distinguishes (ce_set ce) (vh_to_persisted (hs_set h)) (vh_to_persisted (hs_set h'))"
    "distinguishes (ce_key ce) (kh_to_persisted (hs_key h)) (kh_to_persisted (hs_key h'))"
    "distinguishes (ce_op ce) (persisted_op (hs_operator h)) (persisted_op (hs_operator h'))"
    and db: "\<And>b b'. hs_bls h = Some b \<Longrightarrow> hs_bls h' = Some b' \<Longrightarrow>
        distinguishes (ce_bls ce) (bkh_to_persisted b) (bkh_to_persisted b')"
    using assms(1) by (simp_all add: encoders_distinguish_def)
  note 1 = feed_distinguishes[OF e d(1)]
  note 2 = feed_distinguishes[OF conjunct2[OF 1] d(2)]
  show "vh_to_persisted (hs_set h) = vh_to_persisted (hs_set h')" "kh_to_persisted (hs_key h) = kh_to_persisted (hs_key h')"
    using 1 2 by simp_all
  have t: "map_option bkh_to_persisted (hs_bls h) = map_option bkh_to_persisted (hs_bls h') \<and> ?o h @ [] = ?o h' @ []"
  proof (cases "hs_bls h")
    case None
    then show ?thesis using conjunct2[OF 2] by (cases "hs_bls h'") simp_all
  next
    case (Some b)
    then obtain b' where b': "hs_bls h' = Some b'" using conjunct2[OF 2] by (cases "hs_bls h'") simp_all
    have "feed_section (ce_bls ce (bkh_to_persisted b)) @ ?o h = feed_section (ce_bls ce (bkh_to_persisted b')) @ ?o h'"
      using conjunct2[OF 2] Some b' by simp
    from feed_distinguishes[OF this db[OF Some b']] show ?thesis using Some b' by simp
  qed
  then show "map_option bkh_to_persisted (hs_bls h) = map_option bkh_to_persisted (hs_bls h')" by simp
  show "persisted_op (hs_operator h) = persisted_op (hs_operator h')"
    using feed_distinguishes[OF conjunct2[OF t] d(3)] by simp
qed

definition histories_wf :: "histories \<Rightarrow> bool" where
  "histories_wf h \<longleftrightarrow> vh_wf (hs_set h) \<and> kh_wf (hs_key h)
     \<and> (case hs_bls h of None \<Rightarrow> True | Some b \<Rightarrow> bkh_wf b)
     \<and> (case hs_operator h of None \<Rightarrow> True | Some o' \<Rightarrow> okh_wf o')"

lemma roundtrip_inj:
  assumes "f (g a) = (Inr a :: 'e + 'a)" "f (g b) = Inr b" "g a = g b"
  shows "a = b"
proof -
  have "(Inr a :: 'e + 'a) = Inr b" using assms(1,2) unfolding assms(3) by (rule trans[OF sym])
  then show ?thesis by simp
qed

text \<open>C15: the commitment in a block header binds the validator histories: two
  well-formed sets of histories with the same commitment are the same histories, unless
  the two byte strings that the node feeds to SHA-256 for them collide. (An absent operator history commits
  like an empty one, so both sides have one here.)\<close>

theorem history_commitment_binding:
  assumes "histories_wf h" "histories_wf h'" and "encoders_distinguish ce h h'"
    and "hs_operator h = Some op" "hs_operator h' = Some op'"
    and "commitment_of ce h = commitment_of ce h'"
  shows "h = h' \<or> collides (ce_sha256 ce)
      (commitment_preimage_v2 ce (hs_set h) (hs_key h) (hs_bls h) (hs_operator h))
      (commitment_preimage_v2 ce (hs_set h') (hs_key h') (hs_bls h') (hs_operator h'))"
proof (cases "preimage_of ce h = preimage_of ce h'")
  case True
  note p = commitment_preimage_inj[OF assms(3) True]
  have w: "vh_wf (hs_set h)" "vh_wf (hs_set h')" "kh_wf (hs_key h)" "kh_wf (hs_key h')" "okh_wf op" "okh_wf op'"
    using assms(1,2,4,5) by (simp_all add: histories_wf_def)
  have 1: "hs_set h = hs_set h'"
    using vh_persist_roundtrip[OF w(1)] vh_persist_roundtrip[OF w(2)] p(1) by (rule roundtrip_inj)
  have 2: "hs_key h = hs_key h'"
    using kh_persist_roundtrip[OF w(3)] kh_persist_roundtrip[OF w(4)] p(2) by (rule roundtrip_inj)
  have "okh_to_persisted op = okh_to_persisted op'" using p(4) assms(4,5) by (simp add: persisted_op_def)
  with okh_persist_roundtrip[OF w(5)] okh_persist_roundtrip[OF w(6)] have 3: "op = op'" by (rule roundtrip_inj)
  have 4: "hs_bls h = hs_bls h'"
  proof (cases "hs_bls h")
    case (Some b)
    then obtain b' where b': "hs_bls h' = Some b'" "bkh_to_persisted b = bkh_to_persisted b'"
      using p(3) by (cases "hs_bls h'") simp_all
    have wb: "bkh_wf b" "bkh_wf b'" using assms(1,2) Some b'(1) by (simp_all add: histories_wf_def)
    have "b = b'" using bkh_persist_roundtrip[OF wb(1)] bkh_persist_roundtrip[OF wb(2)] b'(2) by (rule roundtrip_inj)
    then show ?thesis using Some b'(1) by simp
  qed (use p(3) in simp)
  show ?thesis using 1 2 3 4 assms(4,5) by (cases h; cases h') simp
next
  case False
  then show ?thesis using assms(6) by (simp add: collides_def commitment_of_def validator_history_commitment_v2_def)
qed

definition demo_commit :: commit_env where
  "demo_commit = \<lparr> ce_sha256 = (\<lambda>_. 0), ce_set = (\<lambda>_. [1]), ce_key = (\<lambda>_. [2]), ce_bls = (\<lambda>_. [3]), ce_op = (\<lambda>_. [4]) \<rparr>"

definition demo_histories :: histories where
  "demo_histories =
     \<lparr> hs_set = vh_from_genesis (vs_new [10, 20, 30, 40]), hs_key = kh_new [10, 20, 30, 40],
       hs_operator = Some (okh_with_genesis [(10, 11)]), hs_bls = Some (bkh_with_genesis [(10, 12)]) \<rparr>"

lemma demo_histories_wf: "histories_wf demo_histories"
  using kh_new_unrotated[of "[10, 20, 30, 40]"] vs_new_wf[of "[10, 20, 30, 40]"]
  by (simp add: histories_wf_def demo_histories_def okh_with_genesis_wf bkh_with_genesis_wf kh_unrotated_def
      vh_wf_def vh_from_genesis_def vh_order_def)

text \<open>With a constant hash, the preimages of the histories with and without BLS keys collide.\<close>

theorem history_commitment_binding_witness:
  "histories_wf demo_histories \<and> demo_histories \<noteq> demo_histories\<lparr> hs_bls := None \<rparr>
   \<and> commitment_of demo_commit demo_histories = commitment_of demo_commit (demo_histories\<lparr> hs_bls := None \<rparr>)
   \<and> collides (ce_sha256 demo_commit)
       (commitment_preimage_v2 demo_commit (hs_set demo_histories) (hs_key demo_histories) (hs_bls demo_histories)
         (hs_operator demo_histories))
       (commitment_preimage_v2 demo_commit (hs_set demo_histories) (hs_key demo_histories) None (hs_operator demo_histories))"
proof -
  let ?h' = "demo_histories\<lparr> hs_bls := None \<rparr>"
  have wf': "histories_wf ?h'" using demo_histories_wf by (simp add: histories_wf_def)
  have e: "encoders_distinguish demo_commit demo_histories ?h'"
    by (simp add: encoders_distinguish_def distinguishes_def demo_commit_def demo_histories_def persisted_op_def)
  have o': "hs_operator demo_histories = Some (okh_with_genesis [(10, 11)])" "hs_operator ?h' = Some (okh_with_genesis [(10, 11)])"
    by (simp_all add: demo_histories_def)
  have c: "commitment_of demo_commit demo_histories = commitment_of demo_commit ?h'"
    by (simp add: commitment_of_def validator_history_commitment_v2_def demo_commit_def)
  have "demo_histories \<noteq> ?h'" by (simp add: demo_histories_def)
  then show ?thesis using demo_histories_wf c history_commitment_binding[OF demo_histories_wf wf' e o' c] by simp
qed

end
