(* ===== verification/Leader.thy ===== *)
theory Leader
  imports Validator_History Step_Machine
begin

text \<open>
  Leader selection (\<open>pacemaker/leader.rs\<close>): round robin and the weighted
  accumulator with its per-regime cache. A selector is a state that answers
  \<open>leader_for_view\<close> (\<open>None\<close> is a panic) and may update its cache; the interface
  \<open>leader_selection\<close> says that the answers depend on the view only.
\<close>

section \<open>Selectors\<close>

definition rr_leader_for_view :: "validator_set_history \<Rightarrow> view \<Rightarrow> (node_id \<times> validator_set_history) option" where
  "rr_leader_for_view h v =
     (case set_at h v of
        None \<Rightarrow> None
      | Some a \<Rightarrow>
          let vs = for_view a v in
          if vs_len vs = 0 then None
          else map_option (\<lambda>m. (m, h)) (vs_get vs (unat v mod vs_len vs)))"

definition rr_new :: "validator_set_history \<Rightarrow> validator_set_history option" where
  "rr_new h = (if \<forall>b \<in> set (vh_iter h). \<not> vs_is_empty (snd b) then Some h else None)"

record regime_frontier =
  rf_last_view :: "view option"
  rf_priorities :: "int list"

record weighted_selector =
  ws_history :: validator_set_history
  ws_state :: "(view, regime_frontier) hmap"

definition ws_new :: "validator_set_history \<Rightarrow> weighted_selector option" where
  "ws_new h =
     (if \<forall>b \<in> set (vh_iter h). \<not> vs_is_empty (snd b)
      then Some \<lparr> ws_history = h, ws_state = [] \<rparr> else None)"

text \<open>The loop of \<open>regime_start_for\<close>.\<close>

fun regime_start_loop :: "view \<Rightarrow> view \<Rightarrow> (view \<times> 'a) list \<Rightarrow> view" where
  "regime_start_loop v start [] = start"
| "regime_start_loop v start ((v_eff, _) # bs) =
     (if v_eff \<le> v then regime_start_loop v v_eff bs else start)"

definition regime_start_for :: "validator_set_history \<Rightarrow> view \<Rightarrow> view" where
  "regime_start_for h v = regime_start_loop v 0 (vh_iter h)"

text \<open>Saturating 128-bit signed arithmetic, and the reading of an unsigned word as a
  signed one by an \<open>as\<close> cast.\<close>

definition sat_i128 :: "int \<Rightarrow> int" where
  "sat_i128 x = max (- (2 ^ 127)) (min (2 ^ 127 - 1) x)"

fun best_loop :: "nat \<Rightarrow> nat \<Rightarrow> int \<Rightarrow> int list \<Rightarrow> nat" where
  "best_loop i best_idx best_priority [] = best_idx"
| "best_loop i best_idx best_priority (p # ps) =
     (if p > best_priority then best_loop (i + 1) i p ps else best_loop (i + 1) best_idx best_priority ps)"

definition accumulator_step :: "int list \<Rightarrow> validator_set \<Rightarrow> (nat \<times> int list) option" where
  "accumulator_step priorities vs =
     (let total = sint (total_weight vs);
          ps = map (\<lambda>(p, w). sat_i128 (p + uint w)) (zip priorities (weights vs))
               @ drop (length (weights vs)) priorities in
      case ps of
        [] \<Rightarrow> None
      | p0 # rest \<Rightarrow>
          let best = best_loop 1 0 p0 rest in
          Some (best, ps[best := sat_i128 (ps ! best - total)]))"

text \<open>A loop of \<open>n\<close> accumulator steps; the last chosen index, 0 before the first.\<close>

fun accumulate :: "nat \<Rightarrow> validator_set \<Rightarrow> nat \<Rightarrow> int list \<Rightarrow> (nat \<times> int list) option" where
  "accumulate 0 vs idx ps = Some (idx, ps)"
| "accumulate (Suc n) vs idx ps =
     (case accumulator_step ps vs of None \<Rightarrow> None | Some (i, ps') \<Rightarrow> accumulate n vs i ps')"

text \<open>The number of iterations of \<open>a..=b\<close>.\<close>

definition range_incl :: "view \<Rightarrow> view \<Rightarrow> nat" where
  "range_incl a b = (if a \<le> b then unat b - unat a + 1 else 0)"

definition ws_leader_for_view :: "weighted_selector \<Rightarrow> view \<Rightarrow> (node_id \<times> weighted_selector) option" where
  "ws_leader_for_view s v =
     (case set_at (ws_history s) v of
        None \<Rightarrow> None
      | Some a \<Rightarrow>
          let vs = for_view a v;
              start = regime_start_for (ws_history s) v;
              zeros = replicate (vs_len vs) 0;
              fr = (case hm_get (ws_state s) start of
                      Some f \<Rightarrow> f
                    | None \<Rightarrow> \<lparr> rf_last_view = None, rf_priorities = zeros \<rparr>);
              s1 = s\<lparr> ws_state := hm_insert start fr (ws_state s) \<rparr>;
              needs_recompute = (case rf_last_view fr of Some l \<Rightarrow> v \<le> l | None \<Rightarrow> False) in
          if needs_recompute then
            (case accumulate (range_incl start v) vs 0 zeros of
               None \<Rightarrow> None
             | Some (idx, _) \<Rightarrow> map_option (\<lambda>m. (m, s1)) (vs_get vs idx))
          else
            let start_view = (case rf_last_view fr of Some l \<Rightarrow> l + 1 | None \<Rightarrow> start) in
            (case accumulate (range_incl start_view v) vs 0 (rf_priorities fr) of
               None \<Rightarrow> None
             | Some (idx, ps) \<Rightarrow>
                 map_option (\<lambda>m. (m, s1\<lparr> ws_state :=
                     hm_insert start \<lparr> rf_last_view = Some v, rf_priorities = ps \<rparr> (ws_state s1) \<rparr>))
                   (vs_get vs idx)))"

section \<open>The interface\<close>

text \<open>A client of a selector only sees the answers; the law is that they are a
  function of the view, whatever was asked before.\<close>

locale leader_selection =
  fixes sel_inv :: "'s \<Rightarrow> bool"
    and select :: "'s \<Rightarrow> view \<Rightarrow> (node_id \<times> 's) option"
    and leader :: "'s \<Rightarrow> view \<Rightarrow> node_id"
  assumes select_ok: "sel_inv s \<Longrightarrow> \<exists>s'. select s v = Some (leader s v, s') \<and> sel_inv s'
      \<and> (\<forall>w. leader s' w = leader s w)"
begin

lemma select_cases:
  assumes "sel_inv s"
  obtains s' where "select s v = Some (leader s v, s')" "sel_inv s'" "\<And>w. leader s' w = leader s w"
  using select_ok[OF assms, of v] by blast

text \<open>Asking about other views first does not change an answer.\<close>

lemma select_stable:
  assumes "sel_inv s" and "select s v = Some (m, s')" and "select s' w = Some (m', s'')"
  shows "m' = leader s w"
  using select_ok[OF assms(1), of v] select_ok[of s' w] assms(2,3) by auto

end

section \<open>Round robin\<close>

definition sets_nonempty :: "validator_set_history \<Rightarrow> bool" where
  "sets_nonempty h \<longleftrightarrow> vh_order h \<and> (\<forall>b \<in> set (vh_boundaries h). members (b_set b) \<noteq> [])"

definition rr_leader :: "validator_set_history \<Rightarrow> view \<Rightarrow> node_id" where
  "rr_leader h v = (case set_for h v of Some vs \<Rightarrow> members vs ! (unat v mod vs_len vs) | None \<Rightarrow> 0)"

lemma sets_nonempty_set:
  assumes "sets_nonempty h"
  obtains vs a where "set_for h v = Some vs" "set_at h v = Some a" "for_view a v = vs" "0 < vs_len vs"
proof -
  have "vh_order h" using assms by (simp add: sets_nonempty_def)
  then obtain vs where vs: "set_for h v = Some vs" using set_for_total by blast
  then obtain a where "set_at h v = Some a" "for_view a v = vs" by (auto simp: set_for_def)
  moreover have "0 < vs_len vs" using assms set_for_member[OF vs] by (auto simp: sets_nonempty_def vs_len_def)
  ultimately show thesis using that vs by blast
qed

interpretation rr: leader_selection sets_nonempty rr_leader_for_view rr_leader
proof unfold_locales
  fix h v assume h: "sets_nonempty h"
  obtain vs a where vs: "set_for h v = Some vs" "set_at h v = Some a" "for_view a v = vs" "0 < vs_len vs"
    using sets_nonempty_set[OF h] .
  have "unat v mod vs_len vs < length (members vs)" using vs(4) by (simp add: vs_len_def)
  then show "\<exists>s'. rr_leader_for_view h v = Some (rr_leader h v, s') \<and> sets_nonempty s' \<and> (\<forall>w. rr_leader s' w = rr_leader h w)"
    using vs h by (simp add: rr_leader_for_view_def rr_leader_def vs_get_def)
qed

section \<open>The weighted accumulator\<close>

lemma best_loop_bound: "best_idx < i \<Longrightarrow> best_loop i best_idx bp ps < i + length ps"
  by (induction i best_idx bp ps rule: best_loop.induct) (auto simp: less_Suc_eq)

lemma accumulator_step_Some:
  assumes "length ps = vs_len vs" and "length (weights vs) = vs_len vs" and "0 < vs_len vs"
  obtains i ps' where "accumulator_step ps vs = Some (i, ps')" "i < vs_len vs" "length ps' = vs_len vs"
proof -
  let ?ps = "map (\<lambda>(p, w). sat_i128 (p + uint w)) (zip ps (weights vs)) @ drop (length (weights vs)) ps"
  have len: "length ?ps = vs_len vs" using assms by simp
  then obtain p0 rest where c: "?ps = p0 # rest" using assms(3) by (cases ?ps) auto
  have "length rest + 1 = vs_len vs" using len c by (metis Suc_eq_plus1 length_Cons)
  moreover have "best_loop 1 0 p0 rest < 1 + length rest" by (rule best_loop_bound) simp
  ultimately have "best_loop 1 0 p0 rest < vs_len vs" by simp
  moreover have "accumulator_step ps vs =
      Some (best_loop 1 0 p0 rest, ?ps[best_loop 1 0 p0 rest := sat_i128 (?ps ! best_loop 1 0 p0 rest - sint (total_weight vs))])"
    by (simp only: accumulator_step_def Let_def c list.case)
  ultimately show thesis using that len by (metis length_list_update)
qed

lemma accumulate_Some:
  assumes "length (weights vs) = vs_len vs" and "0 < vs_len vs"
  shows "length ps = vs_len vs \<Longrightarrow> idx < vs_len vs \<Longrightarrow>
    \<exists>i ps'. accumulate n vs idx ps = Some (i, ps') \<and> i < vs_len vs \<and> length ps' = vs_len vs"
proof (induction n arbitrary: idx ps)
  case (Suc n)
  obtain i ps' where "accumulator_step ps vs = Some (i, ps')" "i < vs_len vs" "length ps' = vs_len vs"
    using accumulator_step_Some[OF Suc.prems(1) assms] .
  then show ?case using Suc.IH by simp
qed simp

lemma accumulate_add:
  "accumulate (m + n) vs idx ps =
     (case accumulate m vs idx ps of None \<Rightarrow> None | Some (i, ps') \<Rightarrow> accumulate n vs i ps')"
  by (induction m arbitrary: idx ps) (auto split: option.splits)

lemma accumulate_idx: "0 < n \<Longrightarrow> accumulate n vs idx ps = accumulate n vs idx' ps"
  by (cases n) auto

text \<open>The reference: the schedule recomputed from the start of the regime.\<close>

definition regime_schedule :: "validator_set_history \<Rightarrow> view \<Rightarrow> (nat \<times> int list) option" where
  "regime_schedule h v =
     (case set_for h v of
        None \<Rightarrow> None
      | Some vs \<Rightarrow> accumulate (range_incl (regime_start_for h v) v) vs 0 (replicate (vs_len vs) 0))"

definition weighted_leader :: "validator_set_history \<Rightarrow> view \<Rightarrow> node_id" where
  "weighted_leader h v =
     (case (set_for h v, regime_schedule h v) of
        (Some vs, Some (i, _)) \<Rightarrow> members vs ! i
      | _ \<Rightarrow> 0)"

section \<open>Regimes\<close>

lemma regime_start_loop_last_le:
  assumes "sorted_wrt (<) (map fst bs)"
  shows "regime_start_loop v start bs = (case last_le (map (\<lambda>b. (fst b, fst b)) bs) v of Some s \<Rightarrow> s | None \<Rightarrow> start)"
  using assms
proof (induction v start bs rule: regime_start_loop.induct)
  case (2 v start v_eff x bs)
  show ?case
  proof (cases "v_eff \<le> v")
    case True
    then show ?thesis using 2 by (auto simp: last_le_Cons split: option.splits)
  next
    case False
    have "last_le (map (\<lambda>b. (fst b, fst b)) bs) v = None"
      using 2(2) False by (auto simp: last_le_None_iff)
    then show ?thesis using False by (simp add: last_le_Cons)
  qed
qed simp

lemma last_le_keys_None:
  "last_le (map (\<lambda>b. (fst b, fst b)) bs) v = None \<longleftrightarrow> last_le bs v = None"
  by (simp add: last_le_None_iff)

lemma last_le_self: "last_le (map (\<lambda>b. (fst b, fst b)) bs) v = Some k \<Longrightarrow>
    k \<le> v \<and> (\<forall>w. k \<le> w \<longrightarrow> w \<le> v \<longrightarrow> last_le (map (\<lambda>b. (fst b, fst b)) bs) w = Some k
       \<and> last_le bs w = last_le bs v)"
proof (induction bs)
  case (Cons b bs)
  obtain v0 x where b: "b = (v0, x)" by (cases b)
  show ?case
  proof (cases "last_le (map (\<lambda>b. (fst b, fst b)) bs) v")
    case (Some j)
    then have jk: "last_le (map (\<lambda>b. (fst b, fst b)) bs) v = Some k" using Cons.prems b by (simp add: last_le_Cons)
    have ih: "k \<le> v \<and> (\<forall>w. k \<le> w \<longrightarrow> w \<le> v \<longrightarrow> last_le (map (\<lambda>b. (fst b, fst b)) bs) w = Some k
       \<and> last_le bs w = last_le bs v)" by (rule Cons.IH[OF jk])
    obtain y where y: "last_le bs v = Some y" using Some last_le_keys_None[of bs v] by auto
    have w: "last_le (map (\<lambda>b. (fst b, fst b)) bs) w = Some k \<and> last_le bs w = Some y" if "k \<le> w" "w \<le> v" for w
      using conjunct2[OF ih, rule_format, OF that] unfolding y .
    show ?thesis using conjunct1[OF ih] w y b by (simp add: last_le_Cons)
  next
    case None
    then have k: "v0 \<le> v" "k = v0" using Cons.prems b by (auto simp: last_le_Cons split: if_splits)
    have n: "\<forall>e \<in> set bs. v < fst e" using None by (auto simp: last_le_None_iff)
    then have "last_le (map (\<lambda>b. (fst b, fst b)) bs) w = None \<and> last_le bs w = None" if "w \<le> v" for w
      using that by (auto simp: last_le_None_iff intro: le_less_trans)
    then show ?thesis using k b by (auto simp: last_le_Cons)
  qed
qed simp

lemma regime_start_props:
  assumes "vh_order h"
  shows "regime_start_for h v \<le> v"
    and "regime_start_for h v \<le> w \<Longrightarrow> w \<le> v \<Longrightarrow> regime_start_for h w = regime_start_for h v"
    and "regime_start_for h v \<le> w \<Longrightarrow> w \<le> v \<Longrightarrow> set_for h w = set_for h v"
proof -
  have st: "sorted_wrt (<) (map fst (vh_iter h))"
    using assms by (simp add: vh_order_def vh_iter_def comp_def)
  obtain s where "last_le (vh_iter h) v = Some s"
    using set_for_total[OF assms, of v] set_for_last_le[OF assms] by auto
  then obtain k where k: "last_le (map (\<lambda>b. (fst b, fst b)) (vh_iter h)) v = Some k"
    using last_le_keys_None[of "vh_iter h" v] by auto
  have start: "regime_start_for h v = k"
    using regime_start_loop_last_le[OF st] k by (simp add: regime_start_for_def)
  show "regime_start_for h v \<le> v" using last_le_self[OF k] start by simp
  assume w: "regime_start_for h v \<le> w" "w \<le> v"
  then have "last_le (map (\<lambda>b. (fst b, fst b)) (vh_iter h)) w = Some k \<and> last_le (vh_iter h) w = last_le (vh_iter h) v"
    using last_le_self[OF k] start by blast
  then show "regime_start_for h w = regime_start_for h v" "set_for h w = set_for h v"
    using regime_start_loop_last_le[OF st] start set_for_last_le[OF assms]
    by (simp_all add: regime_start_for_def)
qed

section \<open>The cache agrees with the recomputation\<close>

definition ws_sets_ok :: "validator_set_history \<Rightarrow> bool" where
  "ws_sets_ok h \<longleftrightarrow> sets_nonempty h
     \<and> (\<forall>b \<in> set (vh_boundaries h). length (weights (b_set b)) = vs_len (b_set b))"

definition frontier_ok :: "validator_set_history \<Rightarrow> view \<Rightarrow> regime_frontier \<Rightarrow> bool" where
  "frontier_ok h start fr \<longleftrightarrow>
     (\<exists>vs. set_for h start = Some vs \<and>
        (case rf_last_view fr of
           None \<Rightarrow> rf_priorities fr = replicate (vs_len vs) 0
         | Some l \<Rightarrow> start \<le> l \<and>
             (\<exists>i. accumulate (range_incl start l) vs 0 (replicate (vs_len vs) 0) = Some (i, rf_priorities fr))))"

definition ws_inv :: "weighted_selector \<Rightarrow> bool" where
  "ws_inv s \<longleftrightarrow> ws_sets_ok (ws_history s)
     \<and> (\<forall>start fr. hm_get (ws_state s) start = Some fr \<longrightarrow> frontier_ok (ws_history s) start fr)"

lemma ws_set:
  assumes "ws_sets_ok h"
  obtains vs a where "set_for h v = Some vs" "set_at h v = Some a" "for_view a v = vs" "0 < vs_len vs"
    "length (weights vs) = vs_len vs"
proof -
  have "sets_nonempty h" using assms by (simp add: ws_sets_ok_def)
  then obtain vs a where vs: "set_for h v = Some vs" "set_at h v = Some a" "for_view a v = vs" "0 < vs_len vs"
    by (rule sets_nonempty_set)
  moreover have "length (weights vs) = vs_len vs"
    using assms set_for_member[OF vs(1)] by (auto simp: ws_sets_ok_def)
  ultimately show thesis using that by blast
qed

lemma range_incl_split:
  assumes "a \<le> l" and "l < v"
  shows "range_incl a v = range_incl a l + range_incl (l + 1) v" "0 < range_incl (l + 1) v"
proof -
  have "unat l + 1 < 2 ^ LENGTH(64)" using assms(2) unat_bound[of v] by (simp add: word_less_nat_alt)
  then have l1: "unat (l + 1) = unat l + 1" using unat_add_no_overflow[of l 1] by simp
  have "a \<le> v" "l + 1 \<le> v" using assms l1 by (auto simp: word_le_nat_alt word_less_nat_alt)
  then show "range_incl a v = range_incl a l + range_incl (l + 1) v" "0 < range_incl (l + 1) v"
    using assms l1 by (auto simp: range_incl_def word_le_nat_alt word_less_nat_alt)
qed

lemma ws_schedule:
  assumes "ws_sets_ok h" and "set_for h v = Some vs"
  obtains i ps where "accumulate (range_incl (regime_start_for h v) v) vs 0 (replicate (vs_len vs) 0) = Some (i, ps)"
    "i < vs_len vs" "weighted_leader h v = members vs ! i"
proof -
  have p: "0 < vs_len vs" "length (weights vs) = vs_len vs"
    using ws_set[OF assms(1), of v] assms(2) by (metis option.inject)+
  then obtain i ps where "accumulate (range_incl (regime_start_for h v) v) vs 0 (replicate (vs_len vs) 0) = Some (i, ps)"
    "i < vs_len vs" 
    using accumulate_Some[OF p(2,1), of "replicate (vs_len vs) 0" 0 "range_incl (regime_start_for h v) v"] by auto
  then show thesis using that assms(2) by (simp add: weighted_leader_def regime_schedule_def)
qed

text \<open>Continuing from a correct frontier gives the schedule of the regime.\<close>

lemma frontier_advance:
  assumes "frontier_ok h start fr" and "set_for h start = Some vs" and "start \<le> v"
    and "case rf_last_view fr of Some l \<Rightarrow> \<not> v \<le> l | None \<Rightarrow> True"
  shows "accumulate (range_incl (case rf_last_view fr of Some l \<Rightarrow> l + 1 | None \<Rightarrow> start) v) vs 0 (rf_priorities fr)
     = accumulate (range_incl start v) vs 0 (replicate (vs_len vs) 0)"
proof (cases "rf_last_view fr")
  case None
  then show ?thesis using assms by (simp add: frontier_ok_def)
next
  case (Some l)
  then obtain i where l: "start \<le> l" "accumulate (range_incl start l) vs 0 (replicate (vs_len vs) 0) = Some (i, rf_priorities fr)"
    using assms(1,2) by (auto simp: frontier_ok_def)
  have lt: "l < v" using assms(4) Some by simp
  show ?thesis
    using l Some range_incl_split[OF l(1) lt] accumulate_idx[of "range_incl (l + 1) v" vs 0 "rf_priorities fr" i]
    by (simp add: accumulate_add)
qed

interpretation ws: leader_selection ws_inv ws_leader_for_view "\<lambda>s. weighted_leader (ws_history s)"
proof unfold_locales
  fix s v assume inv: "ws_inv s"
  let ?h = "ws_history s" and ?start = "regime_start_for (ws_history s) v"
  have ok: "ws_sets_ok ?h" using inv by (simp add: ws_inv_def)
  then have ord: "vh_order ?h" by (simp add: ws_sets_ok_def sets_nonempty_def)
  obtain vs a where vs: "set_for ?h v = Some vs" "set_at ?h v = Some a" "for_view a v = vs" "0 < vs_len vs"
    "length (weights vs) = vs_len vs" using ws_set[OF ok] .
  have st: "?start \<le> v" by (rule regime_start_props(1)[OF ord])
  have sf: "set_for ?h ?start = Some vs"
    using regime_start_props(3)[OF ord order_refl st] vs(1) by simp
  obtain i ps where sched: "accumulate (range_incl ?start v) vs 0 (replicate (vs_len vs) 0) = Some (i, ps)"
    "i < vs_len vs" "weighted_leader ?h v = members vs ! i" using ws_schedule[OF ok vs(1)] .
  define fr where "fr = (case hm_get (ws_state s) ?start of Some f \<Rightarrow> f
     | None \<Rightarrow> \<lparr> rf_last_view = None, rf_priorities = replicate (vs_len vs) 0 \<rparr>)"
  have fr: "frontier_ok ?h ?start fr"
  proof (cases "hm_get (ws_state s) ?start")
    case None
    then show ?thesis using sf by (simp add: fr_def frontier_ok_def)
  next
    case (Some f)
    then show ?thesis using inv by (simp add: fr_def ws_inv_def)
  qed
  let ?s1 = "s\<lparr> ws_state := hm_insert ?start fr (ws_state s) \<rparr>"
  let ?s2 = "?s1\<lparr> ws_state := hm_insert ?start \<lparr> rf_last_view = Some v, rf_priorities = ps \<rparr> (ws_state ?s1) \<rparr>"
  have inv1: "ws_inv ?s1" using inv fr by (simp add: ws_inv_def)
  have "frontier_ok ?h ?start \<lparr> rf_last_view = Some v, rf_priorities = ps \<rparr>"
    using st sf sched(1) by (auto simp: frontier_ok_def)
  then have inv2: "ws_inv ?s2" using inv1 by (simp add: ws_inv_def)
  have get: "vs_get vs i = Some (members vs ! i)" using sched(2) by (simp add: vs_get_def vs_len_def)
  show "\<exists>s'. ws_leader_for_view s v = Some (weighted_leader (ws_history s) v, s') \<and> ws_inv s'
      \<and> (\<forall>w. weighted_leader (ws_history s') w = weighted_leader (ws_history s) w)"
  proof (cases "case rf_last_view fr of Some l \<Rightarrow> v \<le> l | None \<Rightarrow> False")
    case True
    have "ws_leader_for_view s v = Some (members vs ! i, ?s1)"
      unfolding ws_leader_for_view_def vs(2) option.case Let_def vs(3) fr_def[symmetric]
      using True sched(1) get by simp
    then show ?thesis using inv1 sched(3) by auto
  next
    case False
    have "accumulate (range_incl (case rf_last_view fr of Some l \<Rightarrow> l + 1 | None \<Rightarrow> ?start) v) vs 0 (rf_priorities fr)
       = Some (i, ps)"
      using frontier_advance[OF fr sf st] False sched(1) by (simp split: option.splits)
    then have "ws_leader_for_view s v = Some (members vs ! i, ?s2)"
      unfolding ws_leader_for_view_def vs(2) option.case Let_def vs(3) fr_def[symmetric]
      using False get by simp
    then show ?thesis using inv2 sched(3) by auto
  qed
qed

section \<open>Fairness of the accumulator\<close>

text \<open>How often each index is chosen in \<open>n\<close> steps.\<close>

fun chosen :: "nat \<Rightarrow> validator_set \<Rightarrow> int list \<Rightarrow> nat list" where
  "chosen 0 vs ps = []"
| "chosen (Suc n) vs ps =
     (case accumulator_step ps vs of None \<Rightarrow> [] | Some (i, ps') \<Rightarrow> i # chosen n vs ps')"

lemma best_loop_max:
  "best_idx < i \<Longrightarrow> length pre = i \<Longrightarrow> pre ! best_idx = bp \<Longrightarrow> \<forall>j < i. pre ! j \<le> bp \<Longrightarrow>
   \<forall>j < length (pre @ ps). (pre @ ps) ! j \<le> (pre @ ps) ! best_loop i best_idx bp ps"
proof (induction i best_idx bp ps arbitrary: pre rule: best_loop.induct)
  case (2 i best_idx bp p ps)
  show ?case
  proof (cases "p > bp")
    case True
    have "\<forall>j < length ((pre @ [p]) @ ps). ((pre @ [p]) @ ps) ! j \<le> ((pre @ [p]) @ ps) ! best_loop (i + 1) i p ps"
      by (rule "2.IH"(1)[OF True]) (use 2 True in \<open>auto simp: nth_append less_Suc_eq\<close>)
    then show ?thesis using True by simp
  next
    case False
    have "\<forall>j < length ((pre @ [p]) @ ps). ((pre @ [p]) @ ps) ! j \<le> ((pre @ [p]) @ ps) ! best_loop (i + 1) best_idx bp ps"
      by (rule "2.IH"(2)[OF False]) (use 2 False in \<open>auto simp: nth_append less_Suc_eq\<close>)
    then show ?thesis using False by simp
  qed
qed auto

definition int_weight :: "validator_set \<Rightarrow> nat \<Rightarrow> int" where
  "int_weight vs i = uint (weights vs ! i)"

definition int_total :: "validator_set \<Rightarrow> int" where
  "int_total vs = (\<Sum>i < vs_len vs. int_weight vs i)"

text \<open>Sets for which the 128-bit priorities cannot saturate.\<close>

definition acc_sized :: "validator_set \<Rightarrow> bool" where
  "acc_sized vs \<longleftrightarrow> vs_wf vs \<and> 0 < vs_len vs \<and> vs_len vs < 2 ^ 31"

lemma int_weight_bounds:
  assumes "acc_sized vs" and "i < vs_len vs"
  shows "0 < int_weight vs i" "int_weight vs i < 2 ^ 64"
proof -
  have "weights vs ! i \<in> set (weights vs)" using assms by (simp add: acc_sized_def vs_wf_def vs_len_def)
  then have "weights vs ! i \<noteq> 0" using assms(1) by (auto simp: acc_sized_def vs_wf_def)
  then show "0 < int_weight vs i" unfolding int_weight_def
    by (metis uint_0_iff unsigned_greater_eq order_le_less)
  have "uint (weights vs ! i) < 2 ^ LENGTH(64)" by (rule uint_bounded)
  then show "int_weight vs i < 2 ^ 64" by (simp add: int_weight_def)
qed

lemma int_total_bounds:
  assumes "acc_sized vs"
  shows "0 < int_total vs" "int_total vs \<le> int (vs_len vs) * 2 ^ 64" "int_total vs < 2 ^ 95"
    "i < vs_len vs \<Longrightarrow> int_weight vs i \<le> int_total vs"
proof -
  have n: "0 < vs_len vs" "vs_len vs < 2 ^ 31" using assms by (auto simp: acc_sized_def)
  show "0 < int_total vs" unfolding int_total_def
    by (rule sum_pos) (use n int_weight_bounds[OF assms] in auto)
  have "int_total vs \<le> (\<Sum>i < vs_len vs. 2 ^ 64)" unfolding int_total_def
    by (rule sum_mono) (use int_weight_bounds[OF assms] in \<open>auto intro: less_imp_le\<close>)
  then show t: "int_total vs \<le> int (vs_len vs) * 2 ^ 64" by simp
  have "int (vs_len vs) * 2 ^ 64 < 2 ^ 31 * 2 ^ 64" using n by simp
  then show "int_total vs < 2 ^ 95" using t by simp
  show "i < vs_len vs \<Longrightarrow> int_weight vs i \<le> int_total vs" unfolding int_total_def
    by (rule member_le_sum) (use int_weight_bounds[OF assms] in \<open>auto intro: less_imp_le\<close>)
qed

lemma sint_total_weight:
  assumes "acc_sized vs"
  shows "sint (total_weight vs) = int_total vs"
proof -
  have len: "length (weights vs) = vs_len vs" "vs_len vs < 2 ^ 31"
    using assms by (auto simp: acc_sized_def vs_wf_def vs_len_def)
  have "unat (total_weight vs) = sum_list (map unat (weights vs))"
    by (rule unat_total_weight) (use len in simp)
  also have "\<dots> = (\<Sum>i < vs_len vs. unat (weights vs ! i))"
    using len by (simp add: sum_list_sum_nth atLeast0LessThan)
  finally have "int (unat (total_weight vs)) = int (\<Sum>i < vs_len vs. unat (weights vs ! i))" by simp
  then have u: "uint (total_weight vs) = int_total vs"
    by (simp add: int_total_def int_weight_def)
  have "signed_take_bit (LENGTH(128) - Suc 0) (uint (total_weight vs)) = uint (total_weight vs)"
    using int_total_bounds[OF assms] by (intro signed_take_bit_int_eq_self) (simp_all add: u)
  then show ?thesis using u by (simp add: sint_uint)
qed

text \<open>The invariant of the accumulator: priorities sum to zero and no one owes a whole
  round.\<close>

definition acc_balanced :: "validator_set \<Rightarrow> int list \<Rightarrow> bool" where
  "acc_balanced vs ps \<longleftrightarrow> length ps = vs_len vs \<and> (\<Sum>i < vs_len vs. ps ! i) = 0
     \<and> (\<forall>i < vs_len vs. - int_total vs < ps ! i)"

lemma acc_balanced_upper:
  assumes "acc_balanced vs ps" and "i < vs_len vs" and "0 < int_total vs"
  shows "ps ! i \<le> int (vs_len vs - 1) * int_total vs"
proof -
  have "(\<Sum>j < vs_len vs. ps ! j) = ps ! i + (\<Sum>j \<in> {..<vs_len vs} - {i}. ps ! j)"
    using assms(2) by (intro sum.remove) auto
  moreover have "(\<Sum>j \<in> {..<vs_len vs} - {i}. - int_total vs) \<le> (\<Sum>j \<in> {..<vs_len vs} - {i}. ps ! j)"
    by (rule sum_mono) (use assms(1) in \<open>auto simp: acc_balanced_def intro: less_imp_le\<close>)
  moreover have "card ({..<vs_len vs} - {i}) = vs_len vs - 1" using assms(2) by simp
  ultimately show ?thesis using assms(1) by (simp add: acc_balanced_def)
qed

lemma accumulator_step_exact:
  assumes sized: "acc_sized vs" and bal: "acc_balanced vs ps"
  obtains b where "b < vs_len vs"
    "accumulator_step ps vs = Some (b, map (\<lambda>i. ps ! i + int_weight vs i - (if i = b then int_total vs else 0)) [0..<vs_len vs])"
    "acc_balanced vs (map (\<lambda>i. ps ! i + int_weight vs i - (if i = b then int_total vs else 0)) [0..<vs_len vs])"
proof -
  let ?n = "vs_len vs" and ?W = "int_total vs"
  let ?q = "map (\<lambda>i. ps ! i + int_weight vs i) [0..<?n]"
  have n: "0 < ?n" "?n < 2 ^ 31" and len: "length (weights vs) = ?n" "length ps = ?n"
    using sized bal by (auto simp: acc_sized_def vs_wf_def vs_len_def acc_balanced_def)
  note W = int_total_bounds[OF sized]
  have small: "int (?n - 1) * ?W + ?W \<le> 2 ^ 126"
  proof -
    have "int (?n - 1) * ?W + ?W = int ?n * ?W" using n(1) by (simp add: of_nat_diff left_diff_distrib)
    also have "\<dots> \<le> 2 ^ 31 * 2 ^ 95" using n(2) W(1,3) by (intro mult_mono) auto
    finally show ?thesis by simp
  qed
  have q_bounds: "- (2 ^ 126) \<le> ?q ! i" "?q ! i \<le> 2 ^ 126" "- ?W < ?q ! i" if "i < ?n" for i
    using acc_balanced_upper[OF bal that W(1)] int_weight_bounds[OF sized that] W(3) W(4)[OF that] small that bal
    by (auto simp: acc_balanced_def)
  have ps1: "map (\<lambda>(p, w). sat_i128 (p + uint w)) (zip ps (weights vs)) @ drop (length (weights vs)) ps = ?q"
  proof (rule nth_equalityI)
    fix i assume "i < length (map (\<lambda>(p, w). sat_i128 (p + uint w)) (zip ps (weights vs)) @ drop (length (weights vs)) ps)"
    then have i: "i < ?n" using len by simp
    then have "sat_i128 (ps ! i + int_weight vs i) = ps ! i + int_weight vs i"
      using q_bounds[OF i] by (simp add: sat_i128_def)
    then show "(map (\<lambda>(p, w). sat_i128 (p + uint w)) (zip ps (weights vs)) @ drop (length (weights vs)) ps) ! i = ?q ! i"
      using i len by (simp add: nth_append int_weight_def)
  qed (use len in simp)
  obtain p0 rest where c: "?q = p0 # rest" using n(1) by (cases ?q) auto
  let ?b = "best_loop 1 0 p0 rest"
  have "length rest + 1 = ?n" using c by (metis Suc_eq_plus1 diff_zero length_Cons length_map length_upt)
  moreover have "?b < 1 + length rest" by (rule best_loop_bound) simp
  ultimately have b: "?b < ?n" by simp
  have "\<forall>j < length ([p0] @ rest). ([p0] @ rest) ! j \<le> ([p0] @ rest) ! ?b"
    by (rule best_loop_max) auto
  then have max: "?q ! j \<le> ?q ! ?b" if "j < ?n" for j
    using that c by (metis append_Cons append_Nil diff_zero length_map length_upt)
  have sum_q: "(\<Sum>j < ?n. ?q ! j) = ?W"
    using bal by (simp add: sum.distrib acc_balanced_def int_total_def)
  have pos: "0 < ?q ! ?b"
  proof (rule ccontr)
    assume "\<not> ?thesis"
    then have "(\<Sum>j < ?n. ?q ! j) \<le> (\<Sum>j < ?n. 0)" using max by (intro sum_mono) (meson lessThan_iff not_less order_trans)
    then show False using sum_q W(1) by simp
  qed
  have sat: "sat_i128 (?q ! ?b - sint (total_weight vs)) = ?q ! ?b - ?W"
    using sint_total_weight[OF sized] q_bounds[OF b] pos W(3) by (simp add: sat_i128_def)
  let ?r = "map (\<lambda>i. ps ! i + int_weight vs i - (if i = ?b then ?W else 0)) [0..<?n]"
  have upd: "?q[?b := ?q ! ?b - ?W] = ?r"
    by (rule nth_equalityI) (use b in \<open>auto simp: nth_list_update\<close>)
  have "accumulator_step ps vs = Some (?b, ?q[?b := sat_i128 (?q ! ?b - sint (total_weight vs))])"
    unfolding accumulator_step_def Let_def ps1 by (simp only: c list.case)
  then have 1: "accumulator_step ps vs = Some (?b, ?r)" using sat upd by simp
  have "(\<Sum>j < ?n. ?r ! j) = (\<Sum>j < ?n. ?q ! j) - (\<Sum>j < ?n. if j = ?b then ?W else 0)"
    by (simp add: sum_subtractf)
  also have "\<dots> = 0" using sum_q b by simp
  finally have "(\<Sum>j < ?n. ?r ! j) = 0" .
  moreover have "- ?W < ?r ! j" if "j < ?n" for j
    using q_bounds(3)[OF that] pos that b W(1) by (cases "j = ?b") auto
  ultimately have "acc_balanced vs ?r" by (simp add: acc_balanced_def)
  then show thesis using that[OF b 1] by blast
qed

lemma chosen_counts:
  assumes "acc_sized vs"
  shows "acc_balanced vs ps \<Longrightarrow> length (chosen n vs ps) = n \<and>
    (\<exists>i ps'. accumulate n vs idx ps = Some (i, ps') \<and> acc_balanced vs ps' \<and>
      (\<forall>j < vs_len vs. ps' ! j = ps ! j + int n * int_weight vs j - int (count_list (chosen n vs ps) j) * int_total vs))"
proof (induction n arbitrary: ps idx)
  case (Suc n)
  obtain b where b: "b < vs_len vs"
    "accumulator_step ps vs = Some (b, map (\<lambda>i. ps ! i + int_weight vs i - (if i = b then int_total vs else 0)) [0..<vs_len vs])"
    "acc_balanced vs (map (\<lambda>i. ps ! i + int_weight vs i - (if i = b then int_total vs else 0)) [0..<vs_len vs])"
    using accumulator_step_exact[OF assms Suc.prems] .
  obtain i ps' where ih: "accumulate n vs b (map (\<lambda>i. ps ! i + int_weight vs i - (if i = b then int_total vs else 0)) [0..<vs_len vs]) = Some (i, ps')"
    "acc_balanced vs ps'" and
    vals: "\<forall>j < vs_len vs. ps' ! j = (ps ! j + int_weight vs j - (if j = b then int_total vs else 0)) + int n * int_weight vs j
        - int (count_list (chosen n vs (map (\<lambda>i. ps ! i + int_weight vs i - (if i = b then int_total vs else 0)) [0..<vs_len vs])) j) * int_total vs"
    using Suc.IH[OF b(3), of b] by auto
  show ?case using b ih vals Suc.IH[OF b(3), of b] by (auto simp: algebra_simps)
qed simp

text \<open>C10: the weighted selector answers every query with the leader of the schedule
  recomputed from the start of the regime, whatever views were asked before and
  in whatever order; the cache of frontiers never changes an answer.\<close>

theorem weighted_selector_cache_transparent:
  assumes "ws_inv s"
  shows "\<exists>s'. run (\<lambda>s v. map_option (\<lambda>(m, s'). ([m], s')) (ws_leader_for_view s v)) s vs
      = Some (map (weighted_leader (ws_history s)) vs, s') \<and> ws_inv s'"
  using assms
proof (induction vs arbitrary: s)
  case (Cons v vs)
  obtain t where t: "ws_leader_for_view s v = Some (weighted_leader (ws_history s) v, t)" "ws_inv t"
    "\<And>w. weighted_leader (ws_history t) w = weighted_leader (ws_history s) w"
    using ws.select_cases[OF Cons.prems, of v] by blast
  then show ?case using Cons.IH[OF t(2)] by auto
qed simp

definition demo_history :: validator_set_history where
  "demo_history = vh_from_genesis \<lparr> members = [10, 20], weights = [1, 2] \<rparr>"

lemma demo_selector_inv: "ws_inv \<lparr> ws_history = demo_history, ws_state = [] \<rparr>"
  by (simp add: ws_inv_def ws_sets_ok_def sets_nonempty_def vh_order_def demo_history_def vh_from_genesis_def vs_len_def)

lemmas leader_eval = ws_leader_for_view_def demo_history_def vh_from_genesis_def set_at_def
  binary_search_def bsearch.simps for_view_def regime_start_for_def vh_iter_def vs_len_def range_incl_def
  accumulator_step_def total_weight_def sat_i128_def vs_get_def Let_def

theorem weighted_selector_cache_transparent_witness:
  "ws_inv \<lparr> ws_history = demo_history, ws_state = [] \<rparr>
   \<and> (\<exists>s'. run (\<lambda>s v. map_option (\<lambda>(m, s'). ([m], s')) (ws_leader_for_view s v))
      \<lparr> ws_history = demo_history, ws_state = [] \<rparr> [2, 0, 1]
        = Some (map (weighted_leader demo_history) [2, 0, 1], s'))"
  using demo_selector_inv weighted_selector_cache_transparent[OF demo_selector_inv, of "[2, 0, 1]"] by auto

text \<open>C11: over the first \<open>n\<close> views of a regime the accumulator serves every validator in
  proportion to its weight: the number of views it leads exceeds its exact share
  \<open>n * w / W\<close> by less than one and falls short of it by less than the number of
  validators.\<close>

theorem accumulator_proportional:
  assumes "acc_sized vs" and "i < vs_len vs"
  shows "length (chosen n vs (replicate (vs_len vs) 0)) = n
    \<and> int (count_list (chosen n vs (replicate (vs_len vs) 0)) i) * int_total vs
        < int n * int_weight vs i + int_total vs
    \<and> int n * int_weight vs i
        \<le> (int (count_list (chosen n vs (replicate (vs_len vs) 0)) i) + int (vs_len vs - 1)) * int_total vs"
proof -
  have bal: "acc_balanced vs (replicate (vs_len vs) 0)"
    using int_total_bounds(1)[OF assms(1)] by (simp add: acc_balanced_def)
  obtain ps' where p: "acc_balanced vs ps'" and
    v: "ps' ! i = int n * int_weight vs i - int (count_list (chosen n vs (replicate (vs_len vs) 0)) i) * int_total vs"
    using chosen_counts[OF assms(1) bal, of n] assms(2) by force
  have "- int_total vs < ps' ! i" using p assms(2) by (simp add: acc_balanced_def)
  moreover have "ps' ! i \<le> int (vs_len vs - 1) * int_total vs"
    using acc_balanced_upper[OF p assms(2) int_total_bounds(1)[OF assms(1)]] .
  ultimately show ?thesis using v chosen_counts[OF assms(1) bal, of n] by (simp add: algebra_simps)
qed

lemma demo_set_weights:
  "int_total \<lparr> members = [10, 20], weights = [1, 2] \<rparr> = 3"
  "int_weight \<lparr> members = [10, 20], weights = [1, 2] \<rparr> 1 = 2"
  "vs_len \<lparr> members = [10, 20], weights = [1, 2] \<rparr> = 2"
proof -
  have two: "{..<2} = {0::nat, 1}" by auto
  show "int_total \<lparr> members = [10, 20], weights = [1, 2] \<rparr> = 3"
    "int_weight \<lparr> members = [10, 20], weights = [1, 2] \<rparr> 1 = 2"
    "vs_len \<lparr> members = [10, 20], weights = [1, 2] \<rparr> = 2"
    by (simp_all add: int_total_def int_weight_def vs_len_def two)
qed

theorem accumulator_proportional_witness:
  "acc_sized \<lparr> members = [10, 20], weights = [1, 2] \<rparr>
   \<and> int (count_list (chosen 6 \<lparr> members = [10, 20], weights = [1, 2] \<rparr> (replicate 2 0)) 1) * 3 < 6 * 2 + 3"
proof -
  let ?vs = "\<lparr> members = [10, 20], weights = [1, 2] \<rparr> :: validator_set"
  have s: "acc_sized ?vs" by (simp add: acc_sized_def vs_wf_def vs_len_def)
  have "1 < vs_len ?vs" by (simp add: vs_len_def)
  from accumulator_proportional[OF s this, of 6] show ?thesis using s unfolding demo_set_weights by simp
qed

end
