(* ===== verification/Pacemaker.thy ===== *)
theory Pacemaker
  imports Leader
begin

text \<open>
  The pacemaker (\<open>pacemaker/mod.rs\<close>) and its timeout policy
  (\<open>pacemaker/timeout.rs\<close>). The two trait objects it holds, the leader selector and
  the policy, are the arguments \<open>select\<close> and \<open>timeout\<close> of the step function; the
  locale \<open>pacing\<close> states what the pacemaker relies on and is interpreted on the
  weighted selector and the exponential backoff the node installs. A duration is
  its number of nanoseconds.
\<close>

section \<open>Timeout policy\<close>

type_synonym duration = nat

definition duration_max :: duration where
  "duration_max = 2 ^ 64 * 10 ^ 9 - 1"

definition duration_checked_mul :: "duration \<Rightarrow> u32 \<Rightarrow> duration option" where
  "duration_checked_mul d k = (if d * unat k \<le> duration_max then Some (d * unat k) else None)"

record exponential_backoff =
  eb_base :: duration
  eb_max :: duration

definition backoff_factor :: "u32 \<Rightarrow> u32" where
  "backoff_factor consecutive_failures =
     (let shift = min consecutive_failures 32;
          f = push_bit (unat shift) (1 :: u64)
      in if unat f < 2 ^ 32 then ucast f else - 1)"

definition eb_timeout :: "exponential_backoff \<Rightarrow> u32 \<Rightarrow> duration" where
  "eb_timeout eb consecutive_failures =
     min (case duration_checked_mul (eb_base eb) (backoff_factor consecutive_failures) of
            Some d \<Rightarrow> d
          | None \<Rightarrow> eb_max eb) (eb_max eb)"

section \<open>State machine\<close>

datatype honesty_threshold_evidence = HonestyThresholdEvidence

definition from_bucket :: "nat \<Rightarrow> nat \<Rightarrow> honesty_threshold_evidence option" where
  "from_bucket bucket_size honesty_threshold =
     (if bucket_size \<ge> honesty_threshold then Some HonestyThresholdEvidence else None)"

definition from_bucket_weight :: "u128 \<Rightarrow> u128 \<Rightarrow> honesty_threshold_evidence option" where
  "from_bucket_weight bucket_weight honesty_threshold =
     (if bucket_weight \<ge> honesty_threshold then Some HonestyThresholdEvidence else None)"

datatype pm_event =
    OnQc view
  | OnTimeoutCert view
  | OnTimeout view
  | OnProposalReceived view
  | OnRoundSync view honesty_threshold_evidence

datatype advance_cause = CauseQc | CauseTc | CauseRoundSync

datatype pm_action =
    AdvanceToView view advance_cause
  | BecomeLeader view
  | SendTimeout view
  | ResetTimer duration

record 's pacemaker =
  pm_self_id :: node_id
  pm_current_view :: view
  pm_high_qc_view :: view
  pm_consecutive_failures :: u32
  pm_selector :: 's

definition pm_new :: "node_id \<Rightarrow> 's \<Rightarrow> 's pacemaker" where
  "pm_new self_id selector =
     \<lparr> pm_self_id = self_id, pm_current_view = 0, pm_high_qc_view = 0,
       pm_consecutive_failures = 0, pm_selector = selector \<rparr>"

definition set_selector :: "'s \<Rightarrow> 's pacemaker \<Rightarrow> 's pacemaker" where
  "set_selector selector p = p\<lparr> pm_selector := selector \<rparr>"

definition advance_to ::
  "('s \<Rightarrow> view \<Rightarrow> (node_id \<times> 's) option) \<Rightarrow> (u32 \<Rightarrow> duration) \<Rightarrow> 's pacemaker \<Rightarrow> view \<Rightarrow> advance_cause
    \<Rightarrow> (pm_action list \<times> 's pacemaker) option" where
  "advance_to select timeout p new_view cause =
     (case select (pm_selector p) new_view of
        None \<Rightarrow> None
      | Some (leader, sel) \<Rightarrow>
          Some ([AdvanceToView new_view cause]
                  @ (if leader = pm_self_id p then [BecomeLeader new_view] else [])
                  @ [ResetTimer (timeout 0)],
                p\<lparr> pm_current_view := new_view, pm_consecutive_failures := 0, pm_selector := sel \<rparr>))"

definition pm_step ::
  "('s \<Rightarrow> view \<Rightarrow> (node_id \<times> 's) option) \<Rightarrow> (u32 \<Rightarrow> duration) \<Rightarrow> 's pacemaker \<Rightarrow> pm_event
    \<Rightarrow> (pm_action list \<times> 's pacemaker) option" where
  "pm_step select timeout p e =
     (case e of
        OnQc v \<Rightarrow>
          if v < pm_current_view p then Some ([], p)
          else
            let p1 = (if v > pm_high_qc_view p then p\<lparr> pm_high_qc_view := v \<rparr> else p)
            in advance_to select timeout p1 (v + 1) CauseQc
      | OnTimeoutCert v \<Rightarrow>
          if v < pm_current_view p then Some ([], p)
          else advance_to select timeout p (v + 1) CauseTc
      | OnTimeout v \<Rightarrow>
          if v \<noteq> pm_current_view p then Some ([], p)
          else
            let p1 = p\<lparr> pm_consecutive_failures := saturating_add (pm_consecutive_failures p) 1 \<rparr>
            in Some ([SendTimeout v, ResetTimer (timeout (pm_consecutive_failures p1))], p1)
      | OnProposalReceived v \<Rightarrow>
          if v \<noteq> pm_current_view p then Some ([], p)
          else Some ([ResetTimer (timeout (pm_consecutive_failures p))], p)
      | OnRoundSync v evidence \<Rightarrow>
          if v \<le> pm_current_view p then Some ([], p)
          else advance_to select timeout p v CauseRoundSync)"

section \<open>Interfaces\<close>

text \<open>What a client relies on of a timeout policy: a floor, a ceiling, and no
  shorter timeout after more failures.\<close>

locale timeout_policy =
  fixes timeout :: "u32 \<Rightarrow> duration" and floor ceiling :: duration
  assumes timeout_floor: "floor \<le> timeout f"
    and timeout_ceiling: "timeout f \<le> ceiling"
    and timeout_mono: "f \<le> g \<Longrightarrow> timeout f \<le> timeout g"

text \<open>The views entered and the views led, read off the actions.\<close>

fun entered :: "pm_action list \<Rightarrow> view list" where
  "entered [] = []"
| "entered (AdvanceToView v c # as) = v # entered as"
| "entered (_ # as) = entered as"

fun led :: "pm_action list \<Rightarrow> view list" where
  "led [] = []"
| "led (BecomeLeader v # as) = v # led as"
| "led (_ # as) = led as"

lemma entered_append [simp]: "entered (as @ bs) = entered as @ entered bs"
  by (induction as rule: entered.induct) simp_all

lemma led_append [simp]: "led (as @ bs) = led as @ led bs"
  by (induction as rule: led.induct) simp_all

definition timer_durations :: "pm_action list \<Rightarrow> duration set" where
  "timer_durations as = {d. ResetTimer d \<in> set as}"

definition view_of :: "pm_event \<Rightarrow> view" where
  "view_of e = (case e of OnQc v \<Rightarrow> v | OnTimeoutCert v \<Rightarrow> v | OnTimeout v \<Rightarrow> v
     | OnProposalReceived v \<Rightarrow> v | OnRoundSync v _ \<Rightarrow> v)"

lemma unat_succ: "v \<noteq> - 1 \<Longrightarrow> unat (v + 1 :: 'a::len word) = unat v + 1"
  by (metis Suc_eq_plus1 add.commute add_eq_0_iff unatSuc)

lemma ascending_chain:
  fixes a :: "'a::linorder"
  shows "sorted_wrt (<) (a # xs) \<Longrightarrow> sorted_wrt (<) (last (a # xs) # ys) \<Longrightarrow> sorted_wrt (<) (a # xs @ ys)"
proof (induction xs arbitrary: a)
  case (Cons x xs)
  have "sorted_wrt (<) (x # xs @ ys)" by (rule Cons.IH) (use Cons.prems in simp_all)
  moreover have "a < x" using Cons.prems(1) by simp
  ultimately show ?case by (auto dest: order.strict_trans)
qed simp

lemma view_succ_greater: "v \<noteq> - 1 \<Longrightarrow> w \<le> v \<Longrightarrow> w < v + (1 :: view)"
  by (simp add: word_less_nat_alt word_le_nat_alt unat_succ)

section \<open>Laws of the exponential backoff\<close>

lemma unat_backoff_factor: "unat (backoff_factor f) = min (2 ^ unat f) (2 ^ 32 - 1)"
proof -
  have p: "unat (push_bit n (1 :: u64)) = 2 ^ n" if "n < 64" for n
    using that by (simp only: unsigned_push_bit_eq) (simp add: take_bit_nat_eq_self)
  have m: "unat (min f 32) = min (unat f) 32" by (simp add: min_def word_le_nat_alt)
  show ?thesis
  proof (cases "unat f < 32")
    case True
    then have "(2::nat) ^ unat f < 2 ^ 32" by (intro power_strict_increasing) auto
    then show ?thesis using True m p[of "unat f"] by (simp add: backoff_factor_def Let_def unsigned_ucast_eq take_bit_nat_eq_self)
  next
    case False
    then have "(2::nat) ^ 32 \<le> 2 ^ unat f" by (intro power_increasing) auto
    then show ?thesis using False m p[of 32] by (simp add: backoff_factor_def Let_def unat_minus_one_max)
  qed
qed

lemma eb_timeout_eq:
  assumes "eb_max eb \<le> duration_max"
  shows "eb_timeout eb f = min (eb_base eb * min (2 ^ unat f) (2 ^ 32 - 1)) (eb_max eb)"
  using assms by (simp add: eb_timeout_def duration_checked_mul_def unat_backoff_factor)

lemma backoff_scaled_mono:
  "f \<le> g \<Longrightarrow> eb_base eb * unat (backoff_factor f) \<le> eb_base eb * unat (backoff_factor g)"
  unfolding unat_backoff_factor
  by (intro mult_le_mono2 min.mono power_increasing) (simp_all add: word_le_nat_alt)

lemma capped_mono:
  "(x :: nat) \<le> y \<Longrightarrow> min (case if x \<le> d then Some x else None of Some a \<Rightarrow> a | None \<Rightarrow> m) m
     \<le> min (case if y \<le> d then Some y else None of Some a \<Rightarrow> a | None \<Rightarrow> m) m"
  by auto

lemma eb_timeout_mono: "f \<le> g \<Longrightarrow> eb_timeout eb f \<le> eb_timeout eb g"
  unfolding eb_timeout_def duration_checked_mul_def
  by (intro capped_mono backoff_scaled_mono)

lemma eb_timeout_floor: "min (eb_base eb) (eb_max eb) \<le> eb_timeout eb f"
proof -
  have "eb_base eb * 1 \<le> eb_base eb * unat (backoff_factor f)"
    unfolding unat_backoff_factor by (intro mult_le_mono2) simp
  then have "min (eb_base eb) (eb_max eb) \<le> eb_base eb * unat (backoff_factor f)"
    by (metis min.coboundedI1 mult.right_neutral)
  then show ?thesis by (simp add: eb_timeout_def duration_checked_mul_def)
qed

interpretation eb: timeout_policy "eb_timeout eb" "min (eb_base eb) (eb_max eb)" "eb_max eb" for eb
  by unfold_locales (simp_all add: eb_timeout_floor eb_timeout_mono, simp add: eb_timeout_def)

section \<open>What the pacemaker promises over any selector and policy\<close>

locale pacing =
  leader_selection sel_inv select leader + timeout_policy timeout floor ceiling
  for sel_inv :: "'s \<Rightarrow> bool" and select leader timeout floor ceiling
begin

text \<open>One call: the view never falls, a view is entered only upwards, leadership is
  announced exactly for the entered views the selector gives this node, and every timer is
  within the policy's bounds.\<close>

definition paced :: "'s pacemaker \<Rightarrow> pm_action list \<Rightarrow> 's pacemaker \<Rightarrow> bool" where
  "paced p as p' \<longleftrightarrow>
     pm_self_id p' = pm_self_id p
   \<and> (\<forall>w. leader (pm_selector p') w = leader (pm_selector p) w)
   \<and> sorted_wrt (<) (pm_current_view p # entered as)
   \<and> pm_current_view p' = last (pm_current_view p # entered as)
   \<and> pm_high_qc_view p \<le> pm_high_qc_view p'
   \<and> led as = filter (\<lambda>v. leader (pm_selector p) v = pm_self_id p) (entered as)
   \<and> timer_durations as \<subseteq> {floor..ceiling}"

definition pm_inv :: "'s pacemaker \<Rightarrow> bool" where
  "pm_inv p \<longleftrightarrow> sel_inv (pm_selector p) \<and> pm_high_qc_view p \<le> pm_current_view p"

lemma paced_refl: "paced p [] p"
  by (simp add: paced_def timer_durations_def)

lemma paced_trans: "paced p as q \<Longrightarrow> paced q bs r \<Longrightarrow> paced p (as @ bs) r"
  using ascending_chain[of "pm_current_view p" "entered as" "entered bs"]
  by (auto simp: paced_def timer_durations_def)

lemma advance_paced:
  assumes "sel_inv (pm_selector p)" "pm_current_view p < v" "pm_high_qc_view p \<le> v"
  shows "\<exists>as p'. advance_to select timeout p v c = Some (as, p') \<and> pm_inv p' \<and> paced p as p'
    \<and> entered as = [v]"
proof -
  obtain s' where s: "select (pm_selector p) v = Some (leader (pm_selector p) v, s')" "sel_inv s'"
    "\<And>w. leader s' w = leader (pm_selector p) w"
    using select_cases[OF assms(1), of v] by blast
  then show ?thesis using assms timeout_floor timeout_ceiling
    by (auto simp: advance_to_def paced_def pm_inv_def timer_durations_def)
qed

lemma pm_step_paced:
  assumes "pm_inv p" "view_of e \<noteq> - 1"
  shows "\<exists>as p'. pm_step select timeout p e = Some (as, p') \<and> pm_inv p' \<and> paced p as p'"
proof -
  have sel: "sel_inv (pm_selector p)" and hi: "pm_high_qc_view p \<le> pm_current_view p"
    using assms(1) by (simp_all add: pm_inv_def)
  have up: "pm_current_view p < v + 1" "pm_high_qc_view p \<le> v + 1"
    if "v = view_of e" "\<not> v < pm_current_view p" for v
  proof -
    show "pm_current_view p < v + 1" using view_succ_greater[of v] assms(2) that by simp
    then show "pm_high_qc_view p \<le> v + 1" using hi by simp
  qed
  show ?thesis
  proof (cases e)
    case (OnQc v)
    show ?thesis
    proof (cases "v < pm_current_view p")
      case False
      let ?p = "if v > pm_high_qc_view p then p\<lparr> pm_high_qc_view := v \<rparr> else p"
      have "v \<le> v + 1" using view_succ_greater[of v v] assms(2) OnQc by (simp add: view_of_def)
      then have "pm_high_qc_view ?p \<le> v + 1" "pm_current_view ?p < v + 1" "sel_inv (pm_selector ?p)"
        using up[of v] OnQc False sel by (simp_all add: view_of_def)
      then obtain as p' where *: "advance_to select timeout ?p (v + 1) CauseQc = Some (as, p')" "pm_inv p'" "paced ?p as p'"
        using advance_paced by blast
      have "paced p as p'" using *(3) by (auto simp: paced_def split: if_splits)
      then show ?thesis using * OnQc False by (simp add: pm_step_def Let_def)
    qed (use assms(1) paced_refl OnQc in \<open>auto simp: pm_step_def\<close>)
  next
    case (OnTimeoutCert v)
    show ?thesis
    proof (cases "v < pm_current_view p")
      case False
      then have "pm_current_view p < v + 1" "pm_high_qc_view p \<le> v + 1"
        using up[of v] OnTimeoutCert by (simp_all add: view_of_def)
      then obtain as p' where "advance_to select timeout p (v + 1) CauseTc = Some (as, p')" "pm_inv p'" "paced p as p'"
        using advance_paced[OF sel] by blast
      then show ?thesis using OnTimeoutCert False by (simp add: pm_step_def)
    qed (use assms(1) paced_refl OnTimeoutCert in \<open>auto simp: pm_step_def\<close>)
  next
    case (OnTimeout v)
    then show ?thesis using assms(1) timeout_floor timeout_ceiling
      by (simp add: pm_step_def Let_def pm_inv_def paced_def timer_durations_def)
  next
    case (OnProposalReceived v)
    then show ?thesis using assms(1) timeout_floor timeout_ceiling
      by (auto simp: pm_step_def Let_def pm_inv_def paced_def timer_durations_def)
  next
    case (OnRoundSync v ev)
    show ?thesis
    proof (cases "v \<le> pm_current_view p")
      case False
      then have "pm_current_view p < v" "pm_high_qc_view p \<le> v" using hi by simp_all
      then obtain as p' where "advance_to select timeout p v CauseRoundSync = Some (as, p')" "pm_inv p'" "paced p as p'"
        using advance_paced[OF sel] by blast
      then show ?thesis using OnRoundSync False by (simp add: pm_step_def)
    qed (use assms(1) paced_refl OnRoundSync in \<open>auto simp: pm_step_def\<close>)
  qed
qed

lemma run_paced:
  assumes "pm_inv p" "\<forall>e \<in> set es. view_of e \<noteq> - 1"
  shows "\<exists>as p'. run (pm_step select timeout) p es = Some (as, p') \<and> pm_inv p' \<and> paced p as p'"
  using assms
proof (induction es arbitrary: p)
  case (Cons e es)
  then obtain as q where q: "pm_step select timeout p e = Some (as, q)" "pm_inv q" "paced p as q"
    using pm_step_paced[of p e] by auto
  then obtain bs r where "run (pm_step select timeout) q es = Some (bs, r)" "pm_inv r" "paced q bs r"
    using Cons.IH[of q] Cons.prems by auto
  then show ?case using q paced_trans by auto
qed (simp add: paced_refl)

end

section \<open>The pacemaker of the node\<close>

interpretation pm: pacing ws_inv ws_leader_for_view "\<lambda>s. weighted_leader (ws_history s)"
    "eb_timeout eb" "min (eb_base eb) (eb_max eb)" "eb_max eb" for eb
  by unfold_locales

definition pacemaker_inv :: "weighted_selector pacemaker \<Rightarrow> bool" where
  "pacemaker_inv p \<longleftrightarrow> ws_inv (pm_selector p) \<and> pm_high_qc_view p \<le> pm_current_view p"

text \<open>C9: driven by any sequence of events below the last view number, the pacemaker with
  the weighted selector never panics; the views it enters strictly increase from
  its current view and end in the new current view, it announces leadership for
  exactly the entered views the schedule gives this node, in that order, its
  highest certified view stays at most its current view, and every timer it sets
  lies between the base (capped) and the maximum of the backoff.\<close>

theorem pacemaker_advances:
  assumes "pacemaker_inv p" and "\<forall>e \<in> set es. view_of e \<noteq> - 1"
  shows "\<exists>as p'. run (pm_step ws_leader_for_view (eb_timeout eb)) p es = Some (as, p')
    \<and> pacemaker_inv p'
    \<and> sorted_wrt (<) (pm_current_view p # entered as)
    \<and> pm_current_view p' = last (pm_current_view p # entered as)
    \<and> led as = filter (\<lambda>v. weighted_leader (ws_history (pm_selector p)) v = pm_self_id p) (entered as)
    \<and> timer_durations as \<subseteq> {min (eb_base eb) (eb_max eb)..eb_max eb}"
  using pm.run_paced[of p es, where eb = eb] assms
  unfolding pacemaker_inv_def pm.pm_inv_def pm.paced_def by blast

theorem pacemaker_advances_witness:
  "\<exists>as p'. run (pm_step ws_leader_for_view (eb_timeout \<lparr> eb_base = 100, eb_max = 1000 \<rparr>))
      (pm_new 10 \<lparr> ws_history = demo_history, ws_state = [] \<rparr>) [OnTimeout 0, OnQc 0, OnTimeoutCert 3] = Some (as, p')
    \<and> sorted_wrt (<) (0 # entered as)"
proof -
  let ?p = "pm_new 10 \<lparr> ws_history = demo_history, ws_state = [] \<rparr>"
  have "pacemaker_inv ?p" using demo_selector_inv by (simp add: pacemaker_inv_def pm_new_def)
  moreover have "\<forall>e \<in> set [OnTimeout 0, OnQc 0, OnTimeoutCert 3]. view_of e \<noteq> - 1" by (simp add: view_of_def)
  ultimately show ?thesis
    using pacemaker_advances[of ?p "[OnTimeout 0, OnQc 0, OnTimeoutCert 3]" "\<lparr> eb_base = 100, eb_max = 1000 \<rparr>"]
    by (auto simp: pm_new_def)
qed

text \<open>A certificate at the last view number wraps the current view to 0.\<close>

theorem pacemaker_wraps_at_last_view:
  assumes "pacemaker_inv p"
  shows "\<exists>as p'. pm_step ws_leader_for_view (eb_timeout eb) p (OnTimeoutCert (- 1)) = Some (as, p')
    \<and> pm_current_view p' = 0"
proof -
  obtain s' where "ws_leader_for_view (pm_selector p) 0 = Some (weighted_leader (ws_history (pm_selector p)) 0, s')"
    using ws.select_cases[of "pm_selector p" 0] assms by (auto simp: pacemaker_inv_def)
  moreover have "\<not> - 1 < pm_current_view p" by (simp add: not_less)
  ultimately show ?thesis by (simp add: pm_step_def advance_to_def)
qed

theorem pacemaker_wraps_at_last_view_witness:
  "\<exists>as p'. pm_step ws_leader_for_view (eb_timeout \<lparr> eb_base = 100, eb_max = 1000 \<rparr>)
      (pm_new 10 \<lparr> ws_history = demo_history, ws_state = [] \<rparr>) (OnTimeoutCert (- 1)) = Some (as, p')
    \<and> pm_current_view p' = 0"
  by (rule pacemaker_wraps_at_last_view) (simp add: pacemaker_inv_def pm_new_def demo_selector_inv)

text \<open>The backoff doubles with every consecutive failure up to the cap: it is the base
  times \<open>2 ^ failures\<close> (at most \<open>2 ^ 32 - 1\<close>), never above the maximum, and
  no arithmetic overflow of a duration shortens it.\<close>

theorem backoff_exact:
  assumes "eb_max eb \<le> duration_max"
  shows "eb_timeout eb f = min (eb_base eb * min (2 ^ unat f) (2 ^ 32 - 1)) (eb_max eb)"
  using assms by (rule eb_timeout_eq)

theorem backoff_exact_witness:
  "eb_timeout \<lparr> eb_base = 100, eb_max = 1000 \<rparr> 3 = 800"
proof -
  have "eb_max \<lparr> eb_base = 100, eb_max = 1000 \<rparr> \<le> duration_max" by (simp add: duration_max_def)
  from backoff_exact[OF this, of 3] show ?thesis by simp
qed

end
