(* ===== verification/Node_Histories.thy ===== *)
theory Node_Histories
  imports History_Commitment Instance Pacemaker
begin

text \<open>
  What a node does to its histories when a block commits
  (\<open>consensus_node/rotation_apply.rs\<close>, \<open>reconfig_apply.rs\<close>, \<open>endpoint_apply.rs\<close>),
  compared with the rebuild from the chain of \<open>History_Commitment\<close>. A write to
  storage is a \<open>node_put\<close> in the output; a failing write is only logged by the
  sources, so its result is not modelled. \<open>None\<close> is a panic.
\<close>

text \<open>The fields of \<open>ConsensusNode\<close> these handlers read or write; \<open>'u\<close> is the type of
  staged application updates, which they only clear.\<close>

record 'u node =
  nd_history :: validator_set_history
  nd_key :: validator_key_history
  nd_bls :: "bls_key_history option"
  nd_operator :: operator_key_history
  nd_core :: hotstuff_core
  nd_pacemaker :: "weighted_selector pacemaker"
  nd_endpoints :: endpoint_registry
  nd_staged_governance :: "reconfig_command option"
  nd_staged_updates :: "'u list"

datatype node_put =
    PutOperatorHistory persisted_operator_key_history
  | PutKeyHistory persisted_validator_key_history
  | PutBlsHistory persisted_bls_key_history
  | PutValidatorHistory persisted_validator_history
  | PutEndpointRegistry endpoint_registry

section \<open>Committed rotations\<close>

text \<open>The body of the first loop of \<open>apply_committed_rotations\<close>; the flag is \<open>applied_any\<close>.\<close>

definition node_rotation ::
  "('g1, 'g2) rotation_env \<Rightarrow> chain_id \<Rightarrow> view \<Rightarrow> validator_key_history \<times> bls_key_history option \<times> bool \<Rightarrow> bytes
     \<Rightarrow> (validator_key_history \<times> bls_key_history option \<times> bool) option" where
  "node_rotation env c block_view = (\<lambda>(kh, bls, applied) bs.
     (if \<not> is_rotation_payload bs then Some (kh, bls, applied)
      else (case decode_rotation env bs of
        Inl _ \<Rightarrow> Some (kh, bls, applied)
      | Inr e \<Rightarrow>
          let validator_pk = vkr_validator (dsr_payload e) in
          (case kh_current_key kh validator_pk of
             None \<Rightarrow> Some (kh, bls, applied)
           | Some current_key \<Rightarrow>
          (case verify_rotation env e current_key c of
             Inl _ \<Rightarrow> Some (kh, bls, applied)
           | Inr _ \<Rightarrow>
          (case validate_scheme_consistency (re_bls env) (dsr_payload e) c of
             Inl _ \<Rightarrow> Some (kh, bls, applied)
           | Inr _ \<Rightarrow>
              let stable_id = validator_for kh validator_pk in
              (case kh_apply_rotation kh (dsr_payload e) block_view of
                 None \<Rightarrow> None
               | Some (Inl _) \<Rightarrow> Some (kh, bls, applied)
               | Some (Inr kh') \<Rightarrow>
                   (case (vkr_new_bls_pubkey (dsr_payload e), bls, stable_id) of
                      (Some pk, Some b, Some i) \<Rightarrow>
                        (case bls_rotate_ignoring b i (vkr_v_eff (dsr_payload e)) pk of
                           None \<Rightarrow> None
                         | Some b' \<Rightarrow> Some (kh', Some b', True))
                    | _ \<Rightarrow> None))))))))"

definition node_cancel ::
  "('g1, 'g2) rotation_env \<Rightarrow> chain_id \<Rightarrow> view \<Rightarrow> validator_key_history \<times> bls_key_history option \<times> bool \<Rightarrow> bytes
     \<Rightarrow> (validator_key_history \<times> bls_key_history option \<times> bool) option" where
  "node_cancel env c block_view = (\<lambda>(kh, bls, applied) bs.
     (case apply_rotation_cancel_command env kh bls bs c block_view of
        None \<Rightarrow> None
      | Some (Inl _) \<Rightarrow> Some (kh, bls, applied)
      | Some (Inr (done, kh', bls')) \<Rightarrow> Some (kh', bls', applied \<or> done)))"

definition node_operator_rotation ::
  "('g1, 'g2) rotation_env \<Rightarrow> operator_key_history \<Rightarrow> chain_id \<Rightarrow> view
     \<Rightarrow> validator_key_history \<times> bls_key_history option \<times> bool \<Rightarrow> bytes
     \<Rightarrow> (validator_key_history \<times> bls_key_history option \<times> bool) option" where
  "node_operator_rotation env op c block_view = (\<lambda>(kh, bls, applied) bs.
     (case apply_operator_rotation_command env kh bls op bs c block_view of
        None \<Rightarrow> None
      | Some (Inl _) \<Rightarrow> Some (kh, bls, applied)
      | Some (Inr (done, kh', bls')) \<Rightarrow> Some (kh', bls', applied \<or> done)))"

definition node_operator_key ::
  "('g1, 'g2) rotation_env \<Rightarrow> chain_id \<Rightarrow> view \<Rightarrow> operator_key_history \<times> bool \<Rightarrow> bytes
     \<Rightarrow> (operator_key_history \<times> bool) option" where
  "node_operator_key env c block_view = (\<lambda>(op, changed) bs.
     (case apply_operator_key_rotation_command env op bs c block_view of
        None \<Rightarrow> None
      | Some (Inl _) \<Rightarrow> Some (op, changed)
      | Some (Inr (done, op')) \<Rightarrow> Some (op', changed \<or> done)))"

definition apply_committed_rotations ::
  "('g1, 'g2) rotation_env \<Rightarrow> chain_id \<Rightarrow> block \<Rightarrow> 'u node \<Rightarrow> ('u node \<times> node_put list) option" where
  "apply_committed_rotations env c b n =
     (let v = hdr_view (header b); cmds = commands b in
      case fold_opt (node_rotation env c v) (nd_key n, nd_bls n, False) cmds of None \<Rightarrow> None | Some s1 \<Rightarrow>
     (case fold_opt (node_cancel env c v) s1 cmds of None \<Rightarrow> None | Some s2 \<Rightarrow>
     (case fold_opt (node_operator_rotation env (nd_operator n) c v) s2 cmds of
        None \<Rightarrow> None
      | Some (kh, bls, applied) \<Rightarrow>
     (case fold_opt (node_operator_key env c v) (nd_operator n, False) cmds of
        None \<Rightarrow> None
      | Some (op, op_changed) \<Rightarrow>
          Some (n\<lparr> nd_key := kh, nd_bls := bls, nd_operator := op \<rparr>,
                (if op_changed then [PutOperatorHistory (okh_to_persisted op)] else [])
                @ (if applied
                   then PutKeyHistory (kh_to_persisted kh)
                     # (case bls of Some x \<Rightarrow> [PutBlsHistory (bkh_to_persisted x)] | None \<Rightarrow> [])
                   else []))))))"

section \<open>Committed reconfigurations\<close>

text \<open>The loops over \<open>cmd.adds\<close> with their change flags.\<close>

definition node_register_operators ::
  "reconfig_command \<Rightarrow> validator_set \<Rightarrow> operator_key_history \<times> bool \<Rightarrow> operator_key_history \<times> bool" where
  "node_register_operators cmd new_set s =
     fold (\<lambda>e (op, changed). case ve_operator_pubkey e of
           None \<Rightarrow> (op, changed)
         | Some pk \<Rightarrow>
             if vs_contains new_set (ve_node_id e) \<and> \<not> okh_contains op (ve_node_id e)
             then (case okh_register op (ve_node_id e) (rc_v_eff cmd) pk of
                     Inl _ \<Rightarrow> (op, changed) | Inr op' \<Rightarrow> (op', True))
             else (op, changed))
       (rc_adds cmd) s"

definition node_register_bls ::
  "reconfig_command \<Rightarrow> validator_set \<Rightarrow> bls_key_history \<times> bool \<Rightarrow> bls_key_history \<times> bool" where
  "node_register_bls cmd new_set s =
     fold (\<lambda>e (b, changed). case ve_bls_pop e of
           None \<Rightarrow> (b, changed)
         | Some pop \<Rightarrow>
             if vs_contains new_set (ve_node_id e) \<and> \<not> bkh_contains b (ve_node_id e)
             then (case bkh_register b (ve_node_id e) (rc_v_eff cmd) (pop_pubkey pop) of
                     Inl _ \<Rightarrow> (b, changed) | Inr b' \<Rightarrow> (b', True))
             else (b, changed))
       (rc_adds cmd) s"

definition node_seed_endpoints ::
  "reconfig_command \<Rightarrow> validator_set \<Rightarrow> endpoint_registry \<times> bool \<Rightarrow> endpoint_registry \<times> bool" where
  "node_seed_endpoints cmd new_set s =
     fold (\<lambda>e (r, changed).
         if ve_initial_endpoints e = [] \<or> \<not> vs_contains new_set (ve_node_id e) then (r, changed)
         else (case seed r (ve_node_id e) (ve_initial_endpoints e) of
                 Inr r' \<Rightarrow> (r', True) | Inl _ \<Rightarrow> (r, changed)))
       (rc_adds cmd) s"

definition node_forget_endpoints ::
  "reconfig_command \<Rightarrow> endpoint_registry \<times> bool \<Rightarrow> endpoint_registry \<times> bool" where
  "node_forget_endpoints cmd s =
     fold (\<lambda>i (r, changed). (case forget r i of (gone, r') \<Rightarrow> (r', changed \<or> gone))) (rc_removes cmd) s"

record reconfig_flags =
  rf_applied :: bool
  rf_operator :: bool
  rf_bls :: bool
  rf_endpoints :: bool

text \<open>The head of the loop of \<open>apply_committed_reconfigs\<close>: the command and the next set, if
  the command is one to apply.\<close>

definition node_reconfig_target ::
  "('g1, 'g2) reconfig_env \<Rightarrow> view \<Rightarrow> chain_id \<Rightarrow> view \<Rightarrow> validator_set_history \<Rightarrow> bytes
     \<Rightarrow> (reconfig_command \<times> validator_set) option option" where
  "node_reconfig_target env min_v_eff_delay c block_view history cmd_bytes =
     (if \<not> is_reconfig_payload cmd_bytes then Some None
      else (case decode_reconfig (rv_un_reconfig env) cmd_bytes of
        Inl _ \<Rightarrow> Some None
      | Inr cmd \<Rightarrow>
          do { current_set_at \<leftarrow> set_at history block_view;
               Some (case validate_against_with_delay_and_chain env cmd (for_view current_set_at block_view) block_view
                            min_v_eff_delay c of
                       Inl _ \<Rightarrow> None
                     | Inr nxt \<Rightarrow>
                         let conflict = list_ex (\<lambda>(v_eff, _). v_eff \<noteq> 0 \<and> v_eff > block_view) (vh_iter history) in
                         if conflict then None
                         else (case with_weights nxt of Inl _ \<Rightarrow> None | Inr new_set \<Rightarrow> Some (cmd, new_set))) }))"

text \<open>The body of the loop of \<open>apply_committed_reconfigs\<close>.\<close>

definition node_reconfig ::
  "('g1, 'g2) reconfig_env \<Rightarrow> view \<Rightarrow> chain_id \<Rightarrow> view \<Rightarrow> 'u node \<times> reconfig_flags \<Rightarrow> bytes
     \<Rightarrow> ('u node \<times> reconfig_flags) option" where
  "node_reconfig env min_v_eff_delay c block_view = (\<lambda>(n, fl) bs.
     (case node_reconfig_target env min_v_eff_delay c block_view (nd_history n) bs of
        None \<Rightarrow> None
      | Some None \<Rightarrow> Some (n, fl)
      | Some (Some (cmd, new_set)) \<Rightarrow>
          (case vh_insert_boundary (nd_history n) (rc_v_eff cmd) new_set of
             Inl _ \<Rightarrow> Some (n, fl)
           | Inr h' \<Rightarrow>
               let n1 = n\<lparr> nd_history := h' \<rparr> in
               (case insert_validator_boundary (nd_core n1) (rc_v_eff cmd) new_set of
                  Inl _ \<Rightarrow> Some (n1, fl)
                | Inr core' \<Rightarrow>
                    (case ws_new (nd_history n1) of
                       None \<Rightarrow> None
                     | Some selector \<Rightarrow>
                         let (op, op_ch) = node_register_operators cmd new_set (nd_operator n1, rf_operator fl);
                             bls_r = map_option (\<lambda>b. node_register_bls cmd new_set (b, rf_bls fl)) (nd_bls n1);
                             (ep, ep_ch) = node_forget_endpoints cmd
                               (node_seed_endpoints cmd new_set (nd_endpoints n1, rf_endpoints fl)) in
                         Some (n1\<lparr> nd_core := core',
                                  nd_pacemaker := set_selector selector (nd_pacemaker n1),
                                  nd_staged_governance :=
                                    (if nd_staged_governance n1 = Some cmd then None else nd_staged_governance n1),
                                  nd_operator := op,
                                  nd_bls := map_option fst bls_r,
                                  nd_endpoints := ep \<rparr>,
                               \<lparr> rf_applied = True, rf_operator = op_ch,
                                 rf_bls = (case bls_r of Some (_, ch) \<Rightarrow> ch | None \<Rightarrow> rf_bls fl),
                                 rf_endpoints = ep_ch \<rparr>))))))"

definition apply_committed_reconfigs ::
  "('g1, 'g2) reconfig_env \<Rightarrow> view \<Rightarrow> chain_id \<Rightarrow> block \<Rightarrow> 'u node \<Rightarrow> ('u node \<times> node_put list) option" where
  "apply_committed_reconfigs env min_v_eff_delay c b n =
     (case fold_opt (node_reconfig env min_v_eff_delay c (hdr_view (header b)))
             (n, \<lparr> rf_applied = False, rf_operator = False, rf_bls = False, rf_endpoints = False \<rparr>) (commands b) of
        None \<Rightarrow> None
      | Some (n', fl) \<Rightarrow>
          Some (if rf_applied fl then n'\<lparr> nd_staged_updates := [] \<rparr> else n',
                (if rf_operator fl then [PutOperatorHistory (okh_to_persisted (nd_operator n'))] else [])
                @ (if rf_bls fl
                   then (case nd_bls n' of Some x \<Rightarrow> [PutBlsHistory (bkh_to_persisted x)] | None \<Rightarrow> [])
                   else [])
                @ (if rf_endpoints fl then [PutEndpointRegistry (nd_endpoints n')] else [])
                @ (if rf_applied fl then [PutValidatorHistory (vh_to_persisted (nd_history n'))] else [])))"

section \<open>Committed endpoint commands\<close>

record endpoint_env =
  ee_ed :: "node_id \<Rightarrow> bytes \<Rightarrow> 512 word \<Rightarrow> bool"
  ee_pc :: "endpoint_command \<Rightarrow> bytes option"
  ee_un :: "bytes \<Rightarrow> signed_endpoint_command option"

definition node_endpoint ::
  "endpoint_env \<Rightarrow> chain_id \<Rightarrow> view \<Rightarrow> validator_set_history \<Rightarrow> validator_key_history
     \<Rightarrow> endpoint_registry \<times> bool \<Rightarrow> bytes \<Rightarrow> (endpoint_registry \<times> bool) option" where
  "node_endpoint env c block_view sh kh = (\<lambda>(r, applied) bs.
     (if \<not> is_endpoint_payload bs then Some (r, applied)
      else (case decode_endpoint_command (ee_un env) bs of
        Inl _ \<Rightarrow> Some (r, applied)
      | Inr s \<Rightarrow>
          let vid = ec_validator (sec_payload s) in
          (case set_at sh block_view of
             None \<Rightarrow> None
           | Some a \<Rightarrow>
               if index_of (for_view a block_view) vid = None then Some (r, applied)
               else (case kh_key_at kh vid block_view of
                       None \<Rightarrow> Some (r, applied)
                     | Some active_key \<Rightarrow>
                         (case verify_endpoint_command (ee_ed env) (ee_pc env) s active_key c of
                            Inl _ \<Rightarrow> Some (r, applied)
                          | Inr _ \<Rightarrow>
                              (case er_apply r (sec_payload s) of
                                 (r', Inr _) \<Rightarrow> Some (r', True)
                               | (r', Inl _) \<Rightarrow> Some (r', applied))))))))"

definition apply_committed_endpoints ::
  "endpoint_env \<Rightarrow> chain_id \<Rightarrow> block \<Rightarrow> 'u node \<Rightarrow> ('u node \<times> node_put list) option" where
  "apply_committed_endpoints env c b n =
     (case fold_opt (node_endpoint env c (hdr_view (header b)) (nd_history n) (nd_key n))
             (nd_endpoints n, False) (commands b) of
        None \<Rightarrow> None
      | Some (r, applied) \<Rightarrow>
          Some (n\<lparr> nd_endpoints := r \<rparr>, if applied then [PutEndpointRegistry r] else []))"

definition load_endpoint_registry ::
  "(bytes \<Rightarrow> endpoint_registry option) \<Rightarrow> bytes option option \<Rightarrow> nat \<Rightarrow> endpoint_registry" where
  "load_endpoint_registry un stored max_len =
     set_max_len max_len
       (case stored of
          Some (Some raw) \<Rightarrow> (case un raw of Some r \<Rightarrow> r | None \<Rightarrow> er_new max_len)
        | Some None \<Rightarrow> er_new max_len
        | None \<Rightarrow> er_new max_len)"

section \<open>The node agrees with the rebuild: rotations\<close>

text \<open>A loop simulates another through a projection of the state.\<close>

lemma fold_opt_sim:
  assumes "\<And>s x. P s \<Longrightarrow> map_option \<pi> (f s x) = g (\<pi> s) x" and "\<And>s x s'. P s \<Longrightarrow> f s x = Some s' \<Longrightarrow> P s'" and "P s"
  shows "map_option \<pi> (fold_opt f s xs) = fold_opt g (\<pi> s) xs"
  using assms(3)
proof (induction xs arbitrary: s)
  case (Cons x xs)
  show ?case
  proof (cases "f s x")
    case None
    then show ?thesis using assms(1)[OF Cons.prems, of x] by (simp split: option.splits)
  next
    case (Some s')
    then have "g (\<pi> s) x = Some (\<pi> s')" using assms(1)[OF Cons.prems, of x] by simp
    then show ?thesis using Some Cons.IH[OF assms(2)[OF Cons.prems Some]] by simp
  qed
qed simp

lemma fold_opt_inv:
  assumes "\<And>s x s'. P s \<Longrightarrow> f s x = Some s' \<Longrightarrow> P s'" "P s" "fold_opt f s xs = Some s'"
  shows "P s'"
  using assms(2,3) by (induction xs arbitrary: s) (auto split: option.splits dest: assms(1))

lemma scheme_ok_has_key: "validate_scheme_consistency bp r c = Inr u \<Longrightarrow> \<exists>pk. vkr_new_bls_pubkey r = Some pk"
  by (auto simp: validate_scheme_consistency_def split: option.splits)

abbreviation key_bls :: "'a \<times> 'b \<times> bool \<Rightarrow> 'a \<times> 'b" where
  "key_bls s \<equiv> (fst s, fst (snd s))"

lemma node_rotation_sim:
  assumes "fst (snd s) \<noteq> None"
  shows "map_option key_bls (node_rotation env c v s bs) = rebuild_rotation env c v (key_bls s) bs"
proof -
  obtain kh b applied where s: "s = (kh, Some b, applied)" using assms by (cases s) auto
  show ?thesis
  proof (cases "decode_rotation env bs")
    case (Inr e)
    show ?thesis
    proof (cases "validate_scheme_consistency (re_bls env) (dsr_payload e) c")
      case scheme: (Inr u)
      then obtain pk where pk: "vkr_new_bls_pubkey (dsr_payload e) = Some pk" using scheme_ok_has_key by blast
      have st: "validator_for kh (vkr_validator (dsr_payload e)) \<noteq> None"
        if "kh_apply_rotation kh (dsr_payload e) v = Some (Inr kh')" for kh'
        using that by (rule kh_rotate_cases) (simp add: validator_for_def)
      show ?thesis using Inr scheme pk st
        by (auto simp: s node_rotation_def rebuild_rotation_def Let_def split: option.splits sum.splits)
    qed (use Inr in \<open>auto simp: s node_rotation_def rebuild_rotation_def Let_def split: option.splits sum.splits\<close>)
  qed (simp add: s node_rotation_def rebuild_rotation_def)
qed

lemma node_rotation_keeps_bls: "fst (snd s) \<noteq> None \<Longrightarrow> node_rotation env c v s bs = Some s' \<Longrightarrow> fst (snd s') \<noteq> None"
  by (auto simp: node_rotation_def Let_def split: prod.splits if_splits sum.splits option.splits)

lemma node_cancel_sim: "map_option key_bls (node_cancel env c v s bs) = rebuild_cancel env c v (key_bls s) bs"
  by (auto simp: node_cancel_def rebuild_cancel_def split: prod.splits option.splits sum.splits)

lemma node_operator_rotation_sim:
  "map_option key_bls (node_operator_rotation env op c v s bs) = rebuild_operator_rotation env op c v (key_bls s) bs"
  by (auto simp: node_operator_rotation_def rebuild_operator_rotation_def split: prod.splits option.splits sum.splits)

lemma node_operator_key_sim: "map_option fst (node_operator_key env c v s bs) = rebuild_operator_key env c v (fst s) bs"
  by (auto simp: node_operator_key_def rebuild_operator_key_def split: prod.splits option.splits sum.splits)

text \<open>C16: applying a committed block's rotation commands on a node leaves exactly the key,
  BLS and operator histories that the rebuild from the chain computes (and
  panics exactly when it does), and nothing else of the node changes; if any of
  them applied, the new histories are written to storage.\<close>

theorem committed_rotations_match_rebuild:
  assumes "nd_bls n = Some b0"
  shows "apply_rotation_commands_to_histories env b (nd_key n) (nd_bls n) (Some (nd_operator n)) c
    = map_option (\<lambda>(n', puts). (nd_key n', nd_bls n', Some (nd_operator n'))) (apply_committed_rotations env c b n)
    \<and> (\<forall>n' puts. apply_committed_rotations env c b n = Some (n', puts) \<longrightarrow>
         n' = n\<lparr> nd_key := nd_key n', nd_bls := nd_bls n', nd_operator := nd_operator n' \<rparr>)"
proof -
  let ?v = "hdr_view (header b)" and ?cs = "commands b"
  have 1: "map_option key_bls (fold_opt (node_rotation env c ?v) (nd_key n, nd_bls n, False) ?cs)
      = fold_opt (rebuild_rotation env c ?v) (nd_key n, nd_bls n) ?cs"
  proof -
    have "map_option key_bls (fold_opt (node_rotation env c ?v) s ?cs) = fold_opt (rebuild_rotation env c ?v) (key_bls s) ?cs"
      if "fst (snd s) \<noteq> None" for s
      by (rule fold_opt_sim[where P = "\<lambda>s. fst (snd s) \<noteq> None"])
        (erule node_rotation_sim, erule (1) node_rotation_keeps_bls, rule that)
    from this[of "(nd_key n, nd_bls n, False)"] assms show ?thesis by simp
  qed
  have 2: "map_option key_bls (fold_opt (node_cancel env c ?v) s ?cs) = fold_opt (rebuild_cancel env c ?v) (key_bls s) ?cs" for s
    by (rule fold_opt_sim[where P = "\<lambda>_. True"]) (simp_all add: node_cancel_sim)
  have 3: "map_option key_bls (fold_opt (node_operator_rotation env (nd_operator n) c ?v) s ?cs)
      = fold_opt (rebuild_operator_rotation env (nd_operator n) c ?v) (key_bls s) ?cs" for s
    by (rule fold_opt_sim[where P = "\<lambda>_. True"]) (simp_all add: node_operator_rotation_sim)
  have 4: "map_option fst (fold_opt (node_operator_key env c ?v) (nd_operator n, False) ?cs)
      = fold_opt (rebuild_operator_key env c ?v) (nd_operator n) ?cs"
    using fold_opt_sim[where P = "\<lambda>_. True" and \<pi> = fst and s = "(nd_operator n, False)"
        and f = "node_operator_key env c ?v" and g = "rebuild_operator_key env c ?v"]
    by (simp add: node_operator_key_sim)
  have "apply_rotation_commands_to_histories env b (nd_key n) (nd_bls n) (Some (nd_operator n)) c
    = map_option (\<lambda>(n', puts). (nd_key n', nd_bls n', Some (nd_operator n'))) (apply_committed_rotations env c b n)"
  proof (cases "fold_opt (node_rotation env c ?v) (nd_key n, nd_bls n, False) ?cs")
    case None
    then show ?thesis using 1
      by (simp add: apply_rotation_commands_to_histories_def apply_committed_rotations_def Let_def split: option.splits)
  next
    case s1: (Some s1)
    then have r1: "fold_opt (rebuild_rotation env c ?v) (nd_key n, nd_bls n) ?cs = Some (key_bls s1)" using 1 by simp
    show ?thesis
    proof (cases "fold_opt (node_cancel env c ?v) s1 ?cs")
      case None
      then have "fold_opt (rebuild_cancel env c ?v) (key_bls s1) ?cs = None" using 2[of s1] by simp
      then show ?thesis using None s1 r1
        by (simp add: apply_rotation_commands_to_histories_def apply_committed_rotations_def Let_def)
    next
      case s2: (Some s2)
      then have r2: "fold_opt (rebuild_cancel env c ?v) (key_bls s1) ?cs = Some (key_bls s2)" using 2[of s1] by simp
      show ?thesis
        using s1 r1 s2 r2 3[of s2] 4
        by (cases "fold_opt (node_operator_rotation env (nd_operator n) c ?v) s2 ?cs";
            cases "fold_opt (node_operator_key env c ?v) (nd_operator n, False) ?cs")
          (auto simp: apply_rotation_commands_to_histories_def apply_committed_rotations_def Let_def
            split: prod.splits option.splits)
    qed
  qed
  moreover have "n' = n\<lparr> nd_key := nd_key n', nd_bls := nd_bls n', nd_operator := nd_operator n' \<rparr>"
    if "apply_committed_rotations env c b n = Some (n', puts)" for n' puts
    using that by (auto simp: apply_committed_rotations_def Let_def split: option.splits prod.splits)
  ultimately show ?thesis by blast
qed

text \<open>A four-validator node at genesis.\<close>

definition demo_node :: "unit node" where
  "demo_node =
     \<lparr> nd_history = vh_from_genesis demo_vs, nd_key = kh_new [10, 20, 30, 40],
       nd_bls = Some (bkh_with_genesis [(10, 1), (20, 2), (30, 3), (40, 4)]),
       nd_operator = okh_with_genesis [(10, 11)], nd_core = demo_core,
       nd_pacemaker = pm_new 10 \<lparr> ws_history = vh_from_genesis demo_vs, ws_state = [] \<rparr>,
       nd_endpoints = er_new 8, nd_staged_governance = None, nd_staged_updates = [] \<rparr>"

text \<open>Signatures always verify and one command decodes: the rotation of validator 10 to key 99.\<close>

definition demo_rotation :: dual_signed_rotation where
  "demo_rotation =
     \<lparr> dsr_payload = \<lparr> vkr_validator = 10, vkr_new_pubkey = 99, vkr_v_eff = 5, vkr_new_bls_pubkey = Some 77,
         vkr_new_bls_pop = Some \<lparr> pop_pubkey = 77, pop_sig = 0 \<rparr> \<rparr>,
       dsr_sig_old = 0, dsr_sig_new = 0 \<rparr>"

definition demo_rotation_env :: "(bls_pk, bls_sig) rotation_env" where
  "demo_rotation_env =
     \<lparr> re_ed = (\<lambda>_ _ _. True), re_bls = rv_bls demo_reconfig_env,
       re_pc_rotation = (\<lambda>_. Some []), re_pc_operator_key = (\<lambda>_. Some []), re_pc_cancel = (\<lambda>_. Some []),
       re_un_rotation = (\<lambda>_. Some demo_rotation), re_un_operator = (\<lambda>_. None),
       re_un_operator_key = (\<lambda>_. None), re_un_cancel = (\<lambda>_. None) \<rparr>"

definition demo_rotation_block :: block where
  "demo_rotation_block = (demo_block 0 1 1)\<lparr> commands := [ROTATION_TAG, []] \<rparr>"

theorem committed_rotations_match_rebuild_witness:
  "nd_bls demo_node = Some (bkh_with_genesis [(10, 1), (20, 2), (30, 3), (40, 4)])
   \<and> apply_rotation_commands_to_histories demo_rotation_env demo_rotation_block (nd_key demo_node) (nd_bls demo_node)
        (Some (nd_operator demo_node)) 0
      = map_option (\<lambda>(n', puts). (nd_key n', nd_bls n', Some (nd_operator n')))
          (apply_committed_rotations demo_rotation_env 0 demo_rotation_block demo_node)"
proof -
  have b: "nd_bls demo_node = Some (bkh_with_genesis [(10, 1), (20, 2), (30, 3), (40, 4)])"
    by (simp add: demo_node_def)
  then show ?thesis using committed_rotations_match_rebuild[OF b] by blast
qed

section \<open>The node agrees with the rebuild: reconfigurations\<close>

text \<open>The two copies of the head of the loop agree.\<close>

lemma node_reconfig_target_eq [simp]: "node_reconfig_target = reconfig_target"
proof (intro ext)
  fix env :: "('g1, 'g2) reconfig_env" and d c v h bs
  show "node_reconfig_target env d c v h bs = reconfig_target env d c v h bs"
    by (simp add: node_reconfig_target_def reconfig_target_def case_prod_unfold Let_def split: sum.split option.split)
qed

text \<open>The copies of the set history that the node, its core and its leader schedule hold
  are the same well-formed history of nonempty sets.\<close>

definition node_inv :: "'u node \<Rightarrow> bool" where
  "node_inv n \<longleftrightarrow> vh_wf (nd_history n) \<and> sets_nonempty (nd_history n)
     \<and> validator_history (state (nd_core n)) = nd_history n
     \<and> ws_history (pm_selector (nd_pacemaker n)) = nd_history n \<and> ws_inv (pm_selector (nd_pacemaker n))"

text \<open>A loop that also maintains a change flag computes the same state.\<close>

lemma fold_flag_sim:
  assumes "\<And>x s ch. fst (f x (s, ch)) = g x s"
  shows "fst (fold f xs (s, ch)) = fold g xs s"
proof (induction xs arbitrary: s ch)
  case (Cons x xs)
  obtain t ch' where "f x (s, ch) = (t, ch')" by (cases "f x (s, ch)")
  then show ?case using assms[of x s ch] Cons.IH[of t ch'] by simp
qed simp

lemma node_register_operators_sim:
  "vs_wf s \<Longrightarrow> fst (node_register_operators cmd s (op, ch)) = register_operators cmd (members s) op"
  unfolding node_register_operators_def register_operators_def
  by (rule fold_flag_sim) (simp add: vs_contains_iff split: option.split sum.split)

lemma node_register_bls_sim:
  "vs_wf s \<Longrightarrow> fst (node_register_bls cmd s (b, ch)) = register_bls cmd (members s) b"
  unfolding node_register_bls_def register_bls_def
  by (rule fold_flag_sim) (simp add: vs_contains_iff split: option.split sum.split)

text \<open>Inserting an accepted set keeps the invariant's part about the history.\<close>

lemma reconfig_target_cases:
  assumes "vh_wf h"
  obtains "reconfig_target env d c v h bs = Some None"
  | cmd s where "reconfig_target env d c v h bs = Some (Some (cmd, s))" "vs_wf s" "members s \<noteq> []"
proof (cases "reconfig_target env d c v h bs")
  case None
  obtain a where "set_at h v = Some a" using set_for_total[OF vh_wf_order[OF assms], of v] by (auto simp: set_for_def)
  with None show thesis by (auto simp: reconfig_target_def split: if_splits sum.splits)
next
  case (Some r)
  show thesis
  proof (cases r)
    case None
    then show thesis using Some that(1) by simp
  next
    case r: (Some p)
    obtain cmd s where p: "p = (cmd, s)" by (cases p)
    obtain a nxt where a: "set_at h v = Some a"
      "validate_against_with_delay_and_chain env cmd (for_view a v) v d c = Inr nxt" "with_weights nxt = Inr s"
      using Some unfolding r p reconfig_target_def by (auto split: if_splits sum.splits option.splits)
    have wf: "vs_wf (for_view a v)" using set_for_wf[OF assms, of v] a(1) by (simp add: set_for_def)
    have "MIN_VALIDATOR_FLOOR \<le> vs_len s" using validated_set[OF wf a(2)] a(3) by auto
    then have "members s \<noteq> []" by (auto simp: MIN_VALIDATOR_FLOOR_def vs_len_def)
    then show thesis using that(2)[of cmd s] Some with_weights_wf[OF a(3)] by (simp add: r p)
  qed
qed

lemma history_insert_ok:
  assumes "vh_wf h" "sets_nonempty h" "vs_wf s" "members s \<noteq> []" "vh_insert_boundary h v s = Inr h'"
  shows "vh_wf h'" "sets_nonempty h'" "ws_new h' = Some \<lparr> ws_history = h', ws_state = [] \<rparr>"
    "ws_inv \<lparr> ws_history = h', ws_state = [] \<rparr>"
proof -
  show wf: "vh_wf h'" using assms(1,3,5) by (rule vh_insert_wf)
  show ne: "sets_nonempty h'"
    using vh_wf_order[OF wf] assms(2,4,5) vh_insert_Inr[OF vh_wf_order[OF assms(1)]] by (auto simp: sets_nonempty_def)
  show "ws_new h' = Some \<lparr> ws_history = h', ws_state = [] \<rparr>"
    using ne by (auto simp: ws_new_def vh_iter_def vs_is_empty_def sets_nonempty_def)
  have "\<forall>b \<in> set (vh_boundaries h'). length (weights (b_set b)) = vs_len (b_set b)"
    using wf by (auto simp: vh_wf_def vs_wf_def vs_len_def)
  then show "ws_inv \<lparr> ws_history = h', ws_state = [] \<rparr>" using ne by (simp add: ws_inv_def ws_sets_ok_def)
qed

abbreviation node_histories :: "validator_key_history \<Rightarrow> 'u node \<Rightarrow> histories" where
  "node_histories kh n \<equiv>
     \<lparr> hs_set = nd_history n, hs_key = kh, hs_operator = Some (nd_operator n), hs_bls = nd_bls n \<rparr>"

lemma node_reconfig_sim:
  assumes "node_inv n"
  shows "\<exists>n' fl' kh'. node_reconfig env d c v (n, fl) bs = Some (n', fl')
    \<and> rebuild_reconfig env d c v (node_histories kh n) bs = Some (node_histories kh' n')
    \<and> node_inv n' \<and> nd_key n' = nd_key n"
proof -
  have wf: "vh_wf (nd_history n)" "sets_nonempty (nd_history n)" using assms by (simp_all add: node_inv_def)
  show ?thesis using wf(1)
  proof (cases rule: reconfig_target_cases[where env = env and d = d and c = c and v = v and bs = bs])
    case 1
    then show ?thesis using assms by (auto simp: node_reconfig_def rebuild_reconfig_def)
  next
    case (2 cmd s)
    show ?thesis
    proof (cases "vh_insert_boundary (nd_history n) (rc_v_eff cmd) s")
      case (Inl e)
      then show ?thesis using 2 assms by (auto simp: node_reconfig_def rebuild_reconfig_def)
    next
      case (Inr h')
      note ok = history_insert_ok[OF wf 2(2,3) Inr]
      define core where "core = (if rc_v_eff cmd \<le> current_view (state (nd_core n))
        then (nd_core n)\<lparr> state := (state (nd_core n))\<lparr> validator_history := h', hs_validator_set := s \<rparr> \<rparr>
        else (nd_core n)\<lparr> state := (state (nd_core n))\<lparr> validator_history := h' \<rparr> \<rparr>)"
      have core: "insert_validator_boundary (nd_core n) (rc_v_eff cmd) s = Inr core"
        "validator_history (state core) = h'"
        using assms Inr by (auto simp: node_inv_def insert_validator_boundary_def Let_def core_def)
      obtain op op_ch where op: "node_register_operators cmd s (nd_operator n, rf_operator fl) = (op, op_ch)"
        "register_operators cmd (members s) (nd_operator n) = op"
        using node_register_operators_sim[OF 2(2)] by (metis fst_conv surj_pair)
      obtain ep ep_ch where ep: "node_forget_endpoints cmd
          (node_seed_endpoints cmd s (nd_endpoints n, rf_endpoints fl)) = (ep, ep_ch)" by (metis surj_pair)
      have bls: "map_option (fst \<circ> (\<lambda>b. node_register_bls cmd s (b, ch))) (nd_bls n)
          = map_option (register_bls cmd (members s)) (nd_bls n)" for ch
        by (simp add: node_register_bls_sim[OF 2(2)] comp_def)
      show ?thesis using 2 Inr assms ok core op ep
        by (simp add: node_reconfig_def rebuild_reconfig_def Let_def node_inv_def set_selector_def
            option.map_comp bls)
    qed
  qed
qed

lemma node_reconfigs_sim:
  assumes "node_inv n"
  shows "\<exists>n' fl' kh'. fold_opt (node_reconfig env d c v) (n, fl) bss = Some (n', fl')
    \<and> fold_opt (rebuild_reconfig env d c v) (node_histories kh n) bss = Some (node_histories kh' n')
    \<and> node_inv n' \<and> nd_key n' = nd_key n"
  using assms
proof (induction bss arbitrary: n fl kh)
  case (Cons bs bss)
  obtain n1 fl1 kh1 where 1: "node_reconfig env d c v (n, fl) bs = Some (n1, fl1)"
    "rebuild_reconfig env d c v (node_histories kh n) bs = Some (node_histories kh1 n1)"
    "node_inv n1" "nd_key n1 = nd_key n" using node_reconfig_sim[OF Cons.prems, of env d c v fl bs kh] by blast
  then show ?case using Cons.IH[OF 1(3), of fl1 kh1] by simp
qed auto

text \<open>C17: applying a committed block's reconfigurations never panics, keeps the copies of
  the set history held by the node, its core and its leader schedule equal and
  well formed, and yields the set, operator and BLS histories that the rebuild
  from the chain computes, whatever key history the rebuild starts from. The
  node's own key history is left as it is.\<close>

theorem committed_reconfigs_match_rebuild:
  assumes "node_inv n"
  shows "\<exists>n' puts h'. apply_committed_reconfigs env d c b n = Some (n', puts) \<and> node_inv n'
    \<and> apply_reconfig_commands_to_set_history env b (node_histories kh n) d c = Some h'
    \<and> hs_set h' = nd_history n' \<and> hs_operator h' = Some (nd_operator n') \<and> hs_bls h' = nd_bls n'
    \<and> nd_key n' = nd_key n"
proof -
  obtain n' fl' kh' where *: "fold_opt (node_reconfig env d c (hdr_view (header b)))
      (n, \<lparr> rf_applied = False, rf_operator = False, rf_bls = False, rf_endpoints = False \<rparr>) (commands b) = Some (n', fl')"
    "fold_opt (rebuild_reconfig env d c (hdr_view (header b))) (node_histories kh n) (commands b)
      = Some (node_histories kh' n')" "node_inv n'" "nd_key n' = nd_key n"
    using node_reconfigs_sim[OF assms] by blast
  have "node_inv (n'\<lparr> nd_staged_updates := us \<rparr>)" for us using *(3) by (simp add: node_inv_def)
  then show ?thesis using * by (simp add: apply_committed_reconfigs_def apply_reconfig_commands_to_set_history_def)
qed

lemma demo_node_inv: "node_inv demo_node"
proof -
  have "vs_wf demo_vs" by (simp add: vs_wf_def demo_vs_def)
  then have wf: "vh_wf (vh_from_genesis demo_vs)" by (rule vh_from_genesis_wf)
  moreover have "sets_nonempty (vh_from_genesis demo_vs)"
    using vh_wf_order[OF wf] by (simp add: sets_nonempty_def vh_from_genesis_def demo_vs_def)
  ultimately show ?thesis
    by (simp add: node_inv_def demo_node_def pm_new_def ws_inv_def ws_sets_ok_def demo_core_def core_new_def hs_new_def
        with_limits_def set_pending_blocks_limit_def vh_from_genesis_def demo_vs_def vs_len_def)
qed

text \<open>An environment in which one reconfiguration decodes: validator 50 joins at view 10.\<close>

definition demo_join :: reconfig_command where
  "demo_join =
     \<lparr> rc_adds = [\<lparr> ve_node_id = 50, ve_addr = ''50'', ve_bls_pop = Some \<lparr> pop_pubkey = 5, pop_sig = 0 \<rparr>,
         ve_weight = 1, ve_operator_pubkey = None, ve_consent_sig = None, ve_initial_endpoints = [] \<rparr>],
       rc_removes = [], rc_changes = [], rc_v_eff = 10 \<rparr>"

definition demo_join_env :: "(bls_pk, bls_sig) reconfig_env" where
  "demo_join_env = demo_reconfig_env\<lparr> rv_un_reconfig := (\<lambda>_. Some demo_join) \<rparr>"

definition demo_join_block :: block where
  "demo_join_block = (demo_block 0 1 1)\<lparr> commands := [RECONFIG_TAG] \<rparr>"

theorem committed_reconfigs_match_rebuild_witness:
  "node_inv demo_node \<and> (\<exists>n' puts h'. apply_committed_reconfigs demo_join_env 0 0 demo_join_block demo_node = Some (n', puts)
    \<and> apply_reconfig_commands_to_set_history demo_join_env demo_join_block
        (node_histories (nd_key demo_node) demo_node) 0 0 = Some h'
    \<and> hs_set h' = nd_history n' \<and> node_inv n')"
  using demo_node_inv committed_reconfigs_match_rebuild[OF demo_node_inv, of demo_join_env 0 0 demo_join_block "nd_key demo_node"]
  by auto

section \<open>Added validators and the key history\<close>

lemma enroll_members_enrolls:
  assumes "kh_wf kh"
    and "bt_get (kh_by_stable_id kh) m = Some [(v, m)] \<or> bt_get (kh_pubkey_to_stable_id kh) m = None \<and> m \<in> set ms"
  shows "bt_get (kh_by_stable_id (enroll_members v ms kh)) m = Some [(v, m)]"
  using assms
proof (induction ms arbitrary: kh)
  case Nil
  then show ?case by (simp add: enroll_members_def)
next
  case (Cons x ms)
  have unfold: "enroll_members v (x # ms) kh = enroll_members v ms
      (if x \<in> set (kh_validators kh) then kh
       else (case add_validator kh x v of Inl _ \<Rightarrow> kh | Inr kh' \<Rightarrow> kh'))"
    by (simp add: enroll_members_def)
  have bt: "bt_wf (kh_by_stable_id kh)" "bt_wf (kh_pubkey_to_stable_id kh)"
    using Cons.prems(1) by (simp_all add: kh_wf_def tm_wf_def)
  have known: "x \<in> set (kh_validators kh) \<Longrightarrow> bt_get (kh_pubkey_to_stable_id kh) x = Some x"
    using kh_wf_self[OF Cons.prems(1), of x] by (cases "bt_get (kh_by_stable_id kh) x") (auto simp: kh_validators_def map_of_eq_None_iff)
  show ?case
  proof (cases "bt_get (kh_pubkey_to_stable_id kh) x")
    case None
    then have "x \<notin> set (kh_validators kh)" "add_validator kh x v = Inr (kh_enroll kh x v)"
      using known by (auto simp: add_validator_def)
    moreover have "bt_get (kh_by_stable_id (kh_enroll kh x v)) m = Some [(v, m)]
        \<or> bt_get (kh_pubkey_to_stable_id (kh_enroll kh x v)) m = None \<and> m \<in> set ms"
      using Cons.prems(2) bt by (auto simp: kh_enroll_def)
    ultimately show ?thesis unfolding unfold
      using Cons.IH[OF kh_enroll_wf[OF Cons.prems(1) None]] by simp
  next
    case (Some owner)
    then have "bt_get (kh_by_stable_id kh) m = Some [(v, m)]
        \<or> bt_get (kh_pubkey_to_stable_id kh) m = None \<and> m \<in> set ms"
      using Cons.prems(2) by auto
    then show ?thesis unfolding unfold using Cons.IH[OF Cons.prems(1)] Some by (simp add: add_validator_def)
  qed
qed

text \<open>A reconfiguration that adds a validator enrolls it in the rebuilt key history but
  not in that of the node: after the block the rebuild has the validator's key
  from the effective view on, whereas the live node finds none for it in any
  view.\<close>

theorem added_validator_has_no_live_key:
  assumes "node_inv n" "kh_wf (nd_key n)" and "commands b = [bs]"
    and "reconfig_target env d c (hdr_view (header b)) (nd_history n) bs = Some (Some (cmd, s))"
    and "vh_insert_boundary (nd_history n) (rc_v_eff cmd) s = Inr sh"
    and "m \<in> set (members s)" "validator_for (nd_key n) m = None" and "rc_v_eff cmd \<le> w"
  shows "\<exists>n' puts h'. apply_committed_reconfigs env d c b n = Some (n', puts)
    \<and> apply_reconfig_commands_to_set_history env b (node_histories (nd_key n) n) d c = Some h'
    \<and> kh_key_at (hs_key h') m w = Some m \<and> kh_key_at (nd_key n') m w = None \<and> hs_key h' \<noteq> nd_key n'"
proof -
  let ?h = "node_histories (nd_key n) n"
  obtain n' fl' kh' where sim: "node_reconfig env d c (hdr_view (header b))
      (n, \<lparr> rf_applied = False, rf_operator = False, rf_bls = False, rf_endpoints = False \<rparr>) bs = Some (n', fl')"
    "nd_key n' = nd_key n" using node_reconfig_sim[OF assms(1)] by blast
  have h: "rebuild_reconfig env d c (hdr_view (header b)) ?h bs
      = Some (?h\<lparr> hs_set := sh, hs_key := enroll_members (rc_v_eff cmd) (members s) (nd_key n),
          hs_operator := Some (register_operators cmd (members s) (nd_operator n)),
          hs_bls := map_option (register_bls cmd (members s)) (nd_bls n) \<rparr>)" (is "_ = Some ?h'")
    using assms(4,5) by (simp add: rebuild_reconfig_def)
  have absent: "bt_get (kh_pubkey_to_stable_id (nd_key n)) m = None" using assms(7) by (simp add: validator_for_def)
  have "bt_get (kh_by_stable_id (hs_key ?h')) m = Some [(rc_v_eff cmd, m)]"
    using enroll_members_enrolls[OF assms(2), of m "rc_v_eff cmd" "members s"] absent assms(6) by simp
  then have new: "kh_key_at (hs_key ?h') m w = Some m"
    using assms(8) by (simp add: kh_key_at_def partition_point_def ppoint.simps Let_def)
  have "bt_get (kh_by_stable_id (nd_key n)) m = None"
    using kh_wf_self[OF assms(2), of m] absent by (cases "bt_get (kh_by_stable_id (nd_key n)) m") auto
  then have old: "kh_key_at (nd_key n) m w = None" by (simp add: kh_key_at_def)
  then have "hs_key ?h' \<noteq> nd_key n" using new by auto
  then show ?thesis using sim h new old assms(3)
    by (simp add: apply_committed_reconfigs_def apply_reconfig_commands_to_set_history_def)
qed

lemma demo_join_target:
  "reconfig_target demo_join_env 0 0 1 (vh_from_genesis demo_vs) RECONFIG_TAG = Some (Some (demo_join, demo_five))"
proof -
  have wf: "vs_wf demo_vs" by (simp add: vs_wf_def demo_vs_def)
  have id: "reconfig_id_error demo_join demo_vs = None"
    unfolding reconfig_id_error_None[OF wf] by (simp add: demo_join_def demo_vs_def)
  have nxt: "next_members demo_join demo_vs = [(10, 1), (20, 1), (30, 1), (40, 1), (50, 1)]"
    by (simp add: next_members_def Let_def demo_join_def demo_vs_def iter_weighted_def)
  have pop: "first_error (pop_error demo_join_env 0) (rc_adds demo_join) = None"
    unfolding first_error_None
    by (simp add: demo_join_def pop_error_def verify_pop_def demo_join_env_def demo_reconfig_env_def split: option.splits)
  have consent: "first_error (consent_error demo_join_env 0 w) (rc_adds demo_join) = None" for w
    unfolding first_error_None by (simp add: demo_join_def consent_error_def consent_for_entry_def)
  have v: "rc_v_eff demo_join = 10" by (simp add: demo_join_def)
  have "validate_against_with_delay_and_chain demo_join_env demo_join demo_vs 1 0 0
      = Inr [(10, 1), (20, 1), (30, 1), (40, 1), (50, 1)]"
    unfolding validate_against_with_delay_and_chain_def id nxt pop consent v
    by (simp add: Let_def checked_add_def MIN_V_EFF_DELAY_def MIN_VALIDATOR_FLOOR_def)
  moreover have "set_at (vh_from_genesis demo_vs) 1 = Some \<lparr> vsa_view = 1, vsa_set = demo_vs \<rparr>"
    by (simp add: set_at_def vh_from_genesis_def binary_search_def bsearch.simps)
  moreover have "rv_un_reconfig demo_join_env = (\<lambda>_. Some demo_join)" by (simp add: demo_join_env_def)
  moreover have "with_weights [(10, 1), (20, 1), (30, 1), (40, 1), (50, 1)] = Inr demo_five"
    by (simp add: with_weights_def demo_five_def Let_def)
  moreover have "strip_prefix RECONFIG_TAG RECONFIG_TAG = Some []" by (simp add: RECONFIG_TAG_def ascii_def)
  ultimately show ?thesis
    by (simp add: reconfig_target_def is_reconfig_payload_def decode_reconfig_def tagged_decode_def for_view_def
        starts_with_def vh_iter_def vh_from_genesis_def)
qed

theorem added_validator_has_no_live_key_witness:
  "\<exists>n' puts h'. apply_committed_reconfigs demo_join_env 0 0 demo_join_block demo_node = Some (n', puts)
    \<and> apply_reconfig_commands_to_set_history demo_join_env demo_join_block
        (node_histories (nd_key demo_node) demo_node) 0 0 = Some h'
    \<and> kh_key_at (hs_key h') 50 10 = Some 50 \<and> kh_key_at (nd_key n') 50 10 = None"
proof -
  have view: "hdr_view (header demo_join_block) = 1" by (simp add: demo_join_block_def demo_block_def)
  have hist: "nd_history demo_node = vh_from_genesis demo_vs" by (simp add: demo_node_def)
  have kh: "kh_wf (nd_key demo_node)" using kh_new_unrotated by (simp add: demo_node_def kh_unrotated_def)
  have cmds: "commands demo_join_block = [RECONFIG_TAG]" by (simp add: demo_join_block_def)
  have t: "reconfig_target demo_join_env 0 0 (hdr_view (header demo_join_block)) (nd_history demo_node) RECONFIG_TAG
      = Some (Some (demo_join, demo_five))"
    unfolding view hist by (rule demo_join_target)
  have ins: "vh_insert_boundary (nd_history demo_node) (rc_v_eff demo_join) demo_five
      = Inr \<lparr> vh_boundaries = [\<lparr> b_v_eff = 0, b_set = demo_vs \<rparr>, \<lparr> b_v_eff = 10, b_set = demo_five \<rparr>] \<rparr>"
    by (simp add: hist vh_insert_boundary_def vh_from_genesis_def demo_join_def)
  have m: "50 \<in> set (members demo_five)" "validator_for (nd_key demo_node) 50 = None" "rc_v_eff demo_join \<le> 10"
    by (simp_all add: demo_five_def demo_node_def validator_for_def kh_new_def kh_default_def kh_enroll_def
        bt_contains_def demo_join_def)
  show ?thesis using added_validator_has_no_live_key[OF demo_node_inv kh cmds t ins m] by blast
qed

end
