(* ===== verification/Storage.thy ===== *)
theory Storage
  imports Key_Timeline "HOL-Library.List_Lexorder"
begin

text \<open>
  The key-value store (\<open>boule-core/src/storage/mod.rs\<close>, \<open>memory.rs\<close>): the
  in-memory implementation as an ordered map on byte strings, write batches,
  prefix scans, and the in-memory write-ahead log. The locale \<open>kv_store\<close> is the
  contract of the \<open>Storage\<close> trait that its clients use.
\<close>

section \<open>Operations\<close>

datatype write_op = WPut bytes bytes | WDelete bytes

type_synonym memory_storage = "(bytes, bytes) btree_map"

definition ms_get :: "memory_storage \<Rightarrow> bytes \<Rightarrow> bytes option" where
  "ms_get m k = bt_get m k"

definition ms_put :: "memory_storage \<Rightarrow> bytes \<Rightarrow> bytes \<Rightarrow> memory_storage" where
  "ms_put m k v = bt_insert k v m"

definition ms_delete :: "memory_storage \<Rightarrow> bytes \<Rightarrow> memory_storage" where
  "ms_delete m k = bt_remove k m"

text \<open>\<open>map.range(prefix..)\<close> starts at the first key that is not below the prefix.\<close>

definition ms_scan_prefix :: "memory_storage \<Rightarrow> bytes \<Rightarrow> (bytes \<times> bytes) list" where
  "ms_scan_prefix m p = takeWhile (\<lambda>e. starts_with (fst e) p) (dropWhile (\<lambda>e. fst e < p) m)"

fun ms_write :: "write_op \<Rightarrow> memory_storage \<Rightarrow> memory_storage" where
  "ms_write (WPut k v) m = ms_put m k v"
| "ms_write (WDelete k) m = ms_delete m k"

definition ms_apply_batch :: "memory_storage \<Rightarrow> write_op list \<Rightarrow> memory_storage" where
  "ms_apply_batch m ops = fold ms_write ops m"

definition ms_compare_and_swap ::
  "memory_storage \<Rightarrow> bytes \<Rightarrow> bytes option \<Rightarrow> bytes option \<Rightarrow> bool \<times> memory_storage" where
  "ms_compare_and_swap m k expected new =
     (if ms_get m k \<noteq> expected then (False, m)
      else (True, case new of Some v \<Rightarrow> ms_put m k v | None \<Rightarrow> ms_delete m k))"

section \<open>Write-ahead log\<close>

record memory_wal =
  wal_next_lsn :: u64
  wal_entries :: "(u64 \<times> bytes) list"

definition wal_new :: memory_wal where
  "wal_new = \<lparr> wal_next_lsn = 0, wal_entries = [] \<rparr>"

definition wal_append :: "memory_wal \<Rightarrow> bytes \<Rightarrow> u64 \<times> memory_wal" where
  "wal_append w entry =
     (let lsn = wal_next_lsn w + 1 in
      (lsn, w\<lparr> wal_next_lsn := lsn, wal_entries := wal_entries w @ [(lsn, entry)] \<rparr>))"

definition wal_iter_from :: "memory_wal \<Rightarrow> u64 \<Rightarrow> (u64 \<times> bytes) list" where
  "wal_iter_from w lsn = drop (partition_point (\<lambda>e. fst e < lsn) (wal_entries w)) (wal_entries w)"

definition wal_truncate_before :: "memory_wal \<Rightarrow> u64 \<Rightarrow> memory_wal" where
  "wal_truncate_before w lsn =
     w\<lparr> wal_entries := drop (partition_point (\<lambda>e. fst e < lsn) (wal_entries w)) (wal_entries w) \<rparr>"

section \<open>Contract of a store\<close>

text \<open>The last write of a batch to a key: \<open>None\<close> when the batch does not touch it.\<close>

fun final_write :: "write_op list \<Rightarrow> bytes \<Rightarrow> bytes option option" where
  "final_write [] k = None"
| "final_write (WPut k' v # ops) k =
     (case final_write ops k of Some r \<Rightarrow> Some r | None \<Rightarrow> if k' = k then Some (Some v) else None)"
| "final_write (WDelete k' # ops) k =
     (case final_write ops k of Some r \<Rightarrow> Some r | None \<Rightarrow> if k' = k then Some None else None)"

locale kv_store =
  fixes ok :: "'s \<Rightarrow> bool" and get :: "'s \<Rightarrow> bytes \<Rightarrow> bytes option"
    and upd :: "write_op \<Rightarrow> 's \<Rightarrow> 's" and scan :: "'s \<Rightarrow> bytes \<Rightarrow> (bytes \<times> bytes) list"
  assumes write_ok: "ok s \<Longrightarrow> ok (upd op s)"
    and get_put: "ok s \<Longrightarrow> get (upd (WPut k v) s) k' = (if k' = k then Some v else get s k')"
    and get_delete: "ok s \<Longrightarrow> get (upd (WDelete k) s) k' = (if k' = k then None else get s k')"
    and scan_exact: "ok s \<Longrightarrow> (k, v) \<in> set (scan s p) \<longleftrightarrow> get s k = Some v \<and> starts_with k p"
    and scan_sorted: "ok s \<Longrightarrow> sorted_wrt (<) (map fst (scan s p))"
begin

lemma batch_ok: "ok s \<Longrightarrow> ok (fold upd ops s)"
  by (induction ops arbitrary: s) (simp_all add: write_ok)

lemma batch_get:
  "ok s \<Longrightarrow> get (fold upd ops s) k = (case final_write ops k of Some r \<Rightarrow> r | None \<Rightarrow> get s k)"
proof (induction ops arbitrary: s)
  case (Cons op ops)
  show ?case using Cons.IH[OF write_ok[OF Cons.prems]]
    by (cases op) (simp_all add: get_put[OF Cons.prems] get_delete[OF Cons.prems] split: option.split)
qed simp

lemma scan_determined:
  assumes "ok s" "ok t" "\<And>k. starts_with k p \<Longrightarrow> get s k = get t k"
  shows "scan s p = scan t p"
proof -
  have wf: "bt_wf (scan s p)" "bt_wf (scan t p)"
    using scan_sorted[OF assms(1)] scan_sorted[OF assms(2)] by (simp_all add: bt_wf_def)
  then have d: "distinct (map fst (scan s p))" "distinct (map fst (scan t p))"
    by (simp_all add: bt_wf_def strict_sorted_iff)
  have "set (scan s p) = set (scan t p)"
    using assms scan_exact[OF assms(1)] scan_exact[OF assms(2)] by auto
  then have "map_of (scan s p) = map_of (scan t p)" using map_of_inject_set[OF d] by simp
  then show ?thesis using wf by (intro bt_eqI) simp_all
qed

end

lemma starts_with_le: "starts_with k p \<Longrightarrow> p \<le> (k :: bytes)"
proof (induction p arbitrary: k)
  case (Cons a p)
  then show ?case by (cases k) (auto simp: starts_with_def split: if_splits)
qed simp

lemma starts_with_between:
  "p \<le> k \<Longrightarrow> k \<le> k' \<Longrightarrow> starts_with k' p \<Longrightarrow> starts_with (k :: bytes) p"
proof (induction p arbitrary: k k')
  case (Cons a p)
  obtain b ks c ks' where k: "k = b # ks" "k' = c # ks'"
    using Cons.prems by (cases k; cases k') (auto simp: starts_with_def)
  then show ?case using Cons by (auto simp: starts_with_def split: if_splits)
qed (simp add: starts_with_def)

lemma ms_scan_filter:
  assumes "bt_wf m"
  shows "ms_scan_prefix m p = filter (\<lambda>e. starts_with (fst e) p) m"
  using assms
proof (induction m)
  case (Cons e m)
  have wf: "bt_wf m" and less: "\<forall>x \<in> set m. fst e < fst x" using Cons.prems by (auto simp: bt_wf_def)
  show ?case
  proof (cases "fst e < p")
    case True
    then have "\<not> starts_with (fst e) p" using starts_with_le by (metis leD)
    then show ?thesis using True Cons.IH[OF wf] by (simp add: ms_scan_prefix_def)
  next
    case False
    have drop: "dropWhile (\<lambda>e. fst e < p) m = m"
      using less False by (cases m) (auto simp: not_less)
    show ?thesis
    proof (cases "starts_with (fst e) p")
      case True
      then show ?thesis using False Cons.IH[OF wf] drop by (simp add: ms_scan_prefix_def)
    next
      case no: False
      have "\<not> starts_with (fst x) p" if "x \<in> set m" for x
        using starts_with_between[of p "fst e" "fst x"] False no less that by force
      then show ?thesis using False no by (auto simp: ms_scan_prefix_def filter_empty_conv)
    qed
  qed
qed (simp add: ms_scan_prefix_def)

interpretation ms: kv_store bt_wf ms_get ms_write ms_scan_prefix
proof unfold_locales
  fix s :: memory_storage and op k k' v p
  assume wf: "bt_wf s"
  show "bt_wf (ms_write op s)" using wf by (cases op) (simp_all add: ms_put_def ms_delete_def)
  show "ms_get (ms_write (WPut k v) s) k' = (if k' = k then Some v else ms_get s k')"
    using wf by (simp add: ms_get_def ms_put_def)
  show "ms_get (ms_write (WDelete k) s) k' = (if k' = k then None else ms_get s k')"
    by (simp add: ms_get_def ms_delete_def)
  have d: "distinct (map fst s)" using wf by (simp add: bt_wf_def strict_sorted_iff)
  show "(k, v) \<in> set (ms_scan_prefix s p) \<longleftrightarrow> ms_get s k = Some v \<and> starts_with k p"
    using d by (auto simp: ms_scan_filter[OF wf] ms_get_def)
  show "sorted_wrt (<) (map fst (ms_scan_prefix s p))"
    using wf by (simp add: ms_scan_filter[OF wf] bt_wf_def sorted_wrt_map sorted_wrt_filter)
qed

end
