(* ===== verification/Snapshot.thy ===== *)
theory Snapshot
  imports History_Commitment Instance Storage
begin

text \<open>
  Snapshots (\<open>boule-consensus/src/replication/snapshot.rs\<close>): the manifest and its
  verification, the split of a state into hashed chunks, the storage keys, and
  the store of snapshots on top of the key-value store. The encoder of a
  manifest is third-party code and a parameter; writes to the store succeed.
  \<open>None\<close> is a panic.
\<close>

section \<open>Manifest\<close>

definition SNAPSHOT_FORMAT_VERSION :: u8 where
  "SNAPSHOT_FORMAT_VERSION = 3"

record snapshot_manifest =
  sm_version :: u8
  sm_height :: height
  sm_view :: view
  sm_block_hash :: hash256
  sm_state_commitment :: hash256
  sm_validator_set :: "node_id list"
  sm_chunk_size :: u32
  sm_chunk_count :: u32
  sm_chunk_hashes :: "hash256 list"
  sm_commit_qc :: quorum_certificate
  sm_block :: block
  sm_created_unix_secs :: u64
  sm_validator_history :: persisted_validator_history
  sm_validator_key_history :: persisted_validator_key_history
  sm_bls_key_history :: "persisted_bls_key_history option"
  sm_operator_key_history :: "persisted_operator_key_history option"

datatype manifest_error =
    UnsupportedVersion u8 u8
  | ValidatorSetMismatch
  | QcMalformed
  | QcInsufficientQuorum nat nat
  | QcBlockHashMismatch
  | ChunkCountMismatch u32 nat
  | InvalidChunkSize
  | BlockHashMismatch
  | BlockHeightMismatch
  | BlockViewMismatch
  | BlockStateCommitmentMismatch
  | ValidatorHistoryCommitmentMismatch

definition manifest_build ::
  "hash_prims \<Rightarrow> block \<Rightarrow> validator_set \<Rightarrow> u32 \<Rightarrow> hash256 list \<Rightarrow> quorum_certificate \<Rightarrow> u64
     \<Rightarrow> persisted_validator_history \<Rightarrow> persisted_validator_key_history \<Rightarrow> persisted_bls_key_history option
     \<Rightarrow> persisted_operator_key_history option \<Rightarrow> snapshot_manifest option" where
  "manifest_build hp b vs chunk_size hashes qc created vh kh bls op =
     (if length hashes \<ge> 2 ^ 32 then None
      else Some \<lparr> sm_version = SNAPSHOT_FORMAT_VERSION, sm_height = hdr_height (header b), sm_view = hdr_view (header b),
        sm_block_hash = block_hash_of hp b, sm_state_commitment = state_commitment (header b),
        sm_validator_set = members vs, sm_chunk_size = chunk_size, sm_chunk_count = of_nat (length hashes),
        sm_chunk_hashes = hashes, sm_commit_qc = qc, sm_block = b, sm_created_unix_secs = created,
        sm_validator_history = vh, sm_validator_key_history = kh, sm_bls_key_history = bls,
        sm_operator_key_history = op \<rparr>)"

definition manifest_hash :: "(bytes \<Rightarrow> hash256) \<Rightarrow> (snapshot_manifest \<Rightarrow> bytes) \<Rightarrow> snapshot_manifest \<Rightarrow> hash256" where
  "manifest_hash sha pc m = sha (pc m)"

definition manifest_validator_set :: "snapshot_manifest \<Rightarrow> validator_set" where
  "manifest_validator_set m = vs_new (sm_validator_set m)"

text \<open>The histories embedded in a manifest, when all of them load.\<close>

definition manifest_histories :: "snapshot_manifest \<Rightarrow> histories option" where
  "manifest_histories m =
     (case vh_from_persisted (sm_validator_history m) of Inl _ \<Rightarrow> None | Inr sh \<Rightarrow>
     (case kh_from_persisted (sm_validator_key_history m) of Inl _ \<Rightarrow> None | Inr kh \<Rightarrow>
     (case (case sm_bls_key_history m of
              None \<Rightarrow> Some None
            | Some p \<Rightarrow> (case bkh_from_persisted p of Inl _ \<Rightarrow> None | Inr b \<Rightarrow> Some (Some b))) of
        None \<Rightarrow> None
      | Some bls \<Rightarrow>
     (case (case sm_operator_key_history m of
              None \<Rightarrow> Some None
            | Some p \<Rightarrow> (case okh_from_persisted p of Inl _ \<Rightarrow> None | Inr o' \<Rightarrow> Some (Some o'))) of
        None \<Rightarrow> None
      | Some op \<Rightarrow> Some \<lparr> hs_set = sh, hs_key = kh, hs_operator = op, hs_bls = bls \<rparr>))))"

definition manifest_verify ::
  "hash_prims \<Rightarrow> commit_env \<Rightarrow> snapshot_manifest \<Rightarrow> validator_set \<Rightarrow> (manifest_error + unit) option" where
  "manifest_verify hp ce m local_set =
     (if sm_version m \<noteq> SNAPSHOT_FORMAT_VERSION
      then Some (Inl (UnsupportedVersion (sm_version m) SNAPSHOT_FORMAT_VERSION))
      else if manifest_validator_set m \<noteq> local_set then Some (Inl ValidatorSetMismatch)
      else if \<not> qc_is_well_formed (sm_commit_qc m) local_set then Some (Inl QcMalformed)
      else (case has_quorum (sm_commit_qc m) local_set of
        None \<Rightarrow> None
      | Some False \<Rightarrow> Some (Inl (QcInsufficientQuorum (signer_count (sm_commit_qc m)) (quorum_size (vs_len local_set))))
      | Some True \<Rightarrow> Some (
          if qc_block_hash (sm_commit_qc m) \<noteq> sm_block_hash m then Inl QcBlockHashMismatch
          else if unat (sm_chunk_count m) \<noteq> length (sm_chunk_hashes m)
          then Inl (ChunkCountMismatch (sm_chunk_count m) (length (sm_chunk_hashes m)))
          else if sm_chunk_size m = 0 then Inl InvalidChunkSize
          else if block_hash_of hp (sm_block m) \<noteq> sm_block_hash m then Inl BlockHashMismatch
          else if hdr_height (header (sm_block m)) \<noteq> sm_height m then Inl BlockHeightMismatch
          else if hdr_view (header (sm_block m)) \<noteq> sm_view m then Inl BlockViewMismatch
          else if state_commitment (header (sm_block m)) \<noteq> sm_state_commitment m then Inl BlockStateCommitmentMismatch
          else (case manifest_histories m of
                  None \<Rightarrow> Inl ValidatorHistoryCommitmentMismatch
                | Some h \<Rightarrow>
                    if commitment_of ce h \<noteq> validator_history_commitment (header (sm_block m))
                    then Inl ValidatorHistoryCommitmentMismatch
                    else Inr ()))))"

section \<open>Chunks\<close>

datatype chunk_error = IndexOutOfRange u32 u32 | HashMismatch u32 hash256 hash256

definition verify_chunk ::
  "(bytes \<Rightarrow> hash256) \<Rightarrow> snapshot_manifest \<Rightarrow> u32 \<Rightarrow> bytes \<Rightarrow> chunk_error + unit" where
  "verify_chunk sha m idx p =
     (if unat idx < length (sm_chunk_hashes m)
      then (let expected = sm_chunk_hashes m ! unat idx; actual = sha p in
            if actual \<noteq> expected then Inl (HashMismatch idx expected actual) else Inr ())
      else Inl (IndexOutOfRange idx (sm_chunk_count m)))"

text \<open>\<open>slice::chunks\<close>.\<close>

function slice_chunks :: "nat \<Rightarrow> 'a list \<Rightarrow> 'a list list" where
  "slice_chunks n xs = (if xs = [] \<or> n = 0 then [] else take n xs # slice_chunks n (drop n xs))"
  by auto
termination
  by (relation "measure (\<lambda>(n, xs). length xs)") auto

declare slice_chunks.simps [simp del]

definition chunk_snapshot :: "(bytes \<Rightarrow> hash256) \<Rightarrow> bytes \<Rightarrow> u32 \<Rightarrow> (bytes \<times> hash256) list option" where
  "chunk_snapshot sha p chunk_size =
     (if chunk_size = 0 then None
      else if p = [] then Some [([], sha [])]
      else Some (map (\<lambda>w. (w, sha w)) (slice_chunks (unat chunk_size) p)))"

definition assemble_chunks :: "bytes list \<Rightarrow> bytes" where
  "assemble_chunks cs = (if length cs = 1 \<and> cs ! 0 = [] then [] else concat cs)"

lemma concat_slice_chunks: "0 < n \<Longrightarrow> concat (slice_chunks n xs) = xs"
  by (induction n xs rule: slice_chunks.induct) (simp add: slice_chunks.simps)

lemma length_slice_chunks: "0 < n \<Longrightarrow> c \<in> set (slice_chunks n xs) \<Longrightarrow> 0 < length c \<and> length c \<le> n"
proof (induction n xs rule: slice_chunks.induct)
  case (1 n xs)
  then show ?case by (subst (asm) (2) slice_chunks.simps) (auto split: if_splits)
qed

lemma assemble_chunks_concat: "assemble_chunks cs = concat cs"
  by (cases cs) (auto simp: assemble_chunks_def)

lemma chunk_snapshot_parts:
  assumes "chunk_snapshot sha p csz = Some parts"
  shows "concat (map fst parts) = p" "map snd parts = map (sha \<circ> fst) parts"
    "\<forall>c \<in> set (map fst parts). length c \<le> unat csz"
proof -
  have csz: "0 < unat csz" using assms by (auto simp: chunk_snapshot_def unat_gt_0 split: if_splits)
  show "concat (map fst parts) = p" "map snd parts = map (sha \<circ> fst) parts"
    "\<forall>c \<in> set (map fst parts). length c \<le> unat csz"
    using assms conjunct2[OF length_slice_chunks[OF csz]]
    by (auto simp: chunk_snapshot_def comp_def concat_slice_chunks[OF csz] split: if_splits)
qed

lemma verify_chunk_ok_iff:
  "verify_chunk sha m idx p = Inr () \<longleftrightarrow> unat idx < length (sm_chunk_hashes m) \<and> sha p = sm_chunk_hashes m ! unat idx"
  by (simp add: verify_chunk_def Let_def)

text \<open>The chunks of a state are at most the chunk size long and verify under a
  manifest with their hashes, and any chunks that all verify under it reassemble
  to that state, unless one of them collides with the chunk it stands for.\<close>

theorem snapshot_transfer_faithful:
  assumes "chunk_snapshot sha p csz = Some parts" and "sm_chunk_hashes m = map snd parts"
    and "length parts < 2 ^ 32"
  shows "(\<forall>i < length parts. length (fst (parts ! i)) \<le> unat csz
      \<and> verify_chunk sha m (of_nat i) (fst (parts ! i)) = Inr ())
    \<and> (\<forall>cs. length cs = length parts \<longrightarrow> (\<forall>i < length parts. verify_chunk sha m (of_nat i) (cs ! i) = Inr ())
        \<longrightarrow> assemble_chunks cs = p \<or> (\<exists>i < length parts. collides sha (cs ! i) (fst (parts ! i))))"
proof -
  note parts = chunk_snapshot_parts[OF assms(1)]
  have idx: "unat (of_nat i :: u32) = i" if "i < length parts" for i
    using that assms(3) by (intro unat_of_nat_small) simp
  have hash: "sm_chunk_hashes m ! i = sha (fst (parts ! i))" if "i < length parts" for i
    using that assms(2) arg_cong[OF parts(2), of "\<lambda>xs. xs ! i"] by simp
  have "assemble_chunks cs = p \<or> (\<exists>i < length parts. collides sha (cs ! i) (fst (parts ! i)))"
    if len: "length cs = length parts" and ok: "\<forall>i < length parts. verify_chunk sha m (of_nat i) (cs ! i) = Inr ()" for cs
  proof (cases "cs = map fst parts")
    case False
    then obtain i where i: "i < length parts" "cs ! i \<noteq> fst (parts ! i)"
      using len nth_equalityI[of cs "map fst parts"] by auto
    then have "sha (cs ! i) = sha (fst (parts ! i))" using ok idx hash by (simp add: verify_chunk_ok_iff)
    then show ?thesis using i by (auto simp: collides_def)
  qed (simp add: assemble_chunks_concat parts(1))
  moreover have "verify_chunk sha m (of_nat i) (fst (parts ! i)) = Inr ()" if "i < length parts" for i
    using that idx hash assms(2) by (simp add: verify_chunk_ok_iff)
  ultimately show ?thesis using parts(3) by simp
qed

text \<open>What an accepted manifest guarantees.\<close>

lemma manifest_verify_ok:
  assumes "manifest_verify hp ce m vs = Some (Inr ())"
  obtains h where "sm_version m = SNAPSHOT_FORMAT_VERSION" "sm_chunk_size m \<noteq> 0"
    "vs = vs_new (sm_validator_set m)" "qc_is_well_formed (sm_commit_qc m) vs"
    "has_quorum (sm_commit_qc m) vs = Some True" "qc_block_hash (sm_commit_qc m) = block_hash_of hp (sm_block m)"
    "sm_block_hash m = block_hash_of hp (sm_block m)"
    "unat (sm_chunk_count m) = length (sm_chunk_hashes m)" "hdr_height (header (sm_block m)) = sm_height m"
    "hdr_view (header (sm_block m)) = sm_view m" "state_commitment (header (sm_block m)) = sm_state_commitment m"
    "manifest_histories m = Some h" "commitment_of ce h = validator_history_commitment (header (sm_block m))"
  using assms
  by (auto simp: manifest_verify_def manifest_validator_set_def split: if_splits option.splits bool.splits)

lemma manifest_verifyI:
  assumes "sm_version m = SNAPSHOT_FORMAT_VERSION" "sm_chunk_size m \<noteq> 0" "vs_new (sm_validator_set m) = vs"
    "qc_is_well_formed (sm_commit_qc m) vs" "has_quorum (sm_commit_qc m) vs = Some True"
    "qc_block_hash (sm_commit_qc m) = sm_block_hash m" "block_hash_of hp (sm_block m) = sm_block_hash m"
    "unat (sm_chunk_count m) = length (sm_chunk_hashes m)" "hdr_height (header (sm_block m)) = sm_height m"
    "hdr_view (header (sm_block m)) = sm_view m" "state_commitment (header (sm_block m)) = sm_state_commitment m"
    "manifest_histories m = Some h" "commitment_of ce h = validator_history_commitment (header (sm_block m))"
  shows "manifest_verify hp ce m vs = Some (Inr ())"
  using assms by (simp add: manifest_verify_def manifest_validator_set_def)

lemma vs_new_weights: "w \<in> set (weights (vs_new ms)) \<Longrightarrow> w = 1"
  by (auto simp: vs_new_def Let_def)

text \<open>A manifest is accepted only against a set in which every validator has
  weight one: a network with any other weight can never adopt a snapshot.\<close>

theorem weighted_set_never_adopts_snapshot:
  assumes "w \<in> set (weights vs)" "w \<noteq> 1"
  shows "manifest_verify hp ce m vs \<noteq> Some (Inr ())"
  using assms vs_new_weights by (auto elim!: manifest_verify_ok)

text \<open>The aggregate signature of the certificate in a manifest is not checked: an
  accepted manifest stays accepted when its signature is replaced by any other
  bytes than the empty-aggregate sentinel.\<close>

theorem manifest_signature_unchecked:
  assumes "manifest_verify hp ce m vs = Some (Inr ())" and "agg \<noteq> BLS_EMPTY_AGGREGATE_SENTINEL"
  shows "manifest_verify hp ce
      (m\<lparr> sm_commit_qc := (sm_commit_qc m)\<lparr> qc_sigs := BlsAggregatedSig agg \<rparr> \<rparr>) vs = Some (Inr ())"
proof -
  let ?qc = "sm_commit_qc m"
  obtain h where h: "sm_version m = SNAPSHOT_FORMAT_VERSION" "sm_chunk_size m \<noteq> 0" "vs = vs_new (sm_validator_set m)"
    "qc_is_well_formed ?qc vs" "has_quorum ?qc vs = Some True" "qc_block_hash ?qc = block_hash_of hp (sm_block m)"
    "sm_block_hash m = block_hash_of hp (sm_block m)" "unat (sm_chunk_count m) = length (sm_chunk_hashes m)"
    "hdr_height (header (sm_block m)) = sm_height m" "hdr_view (header (sm_block m)) = sm_view m"
    "state_commitment (header (sm_block m)) = sm_state_commitment m" "manifest_histories m = Some h"
    "commitment_of ce h = validator_history_commitment (header (sm_block m))"
    using assms(1) by (rule manifest_verify_ok)
  note q = h(5,4)
  have "bm_count (qc_signers ?qc) \<noteq> 0"
  proof
    assume "bm_count (qc_signers ?qc) = 0"
    moreover have "bm_is_well_formed (qc_signers ?qc)" using q(2) by (simp add: qc_is_well_formed_def split: if_splits)
    ultimately have "signer_indices ?qc = []" using bm_count_iter_set by (simp add: signer_indices_def)
    then show False using q(1) by (simp add: has_quorum_def signer_weight_def saturating_mul_def)
  qed
  then have "qc_is_well_formed (?qc\<lparr> qc_sigs := BlsAggregatedSig agg \<rparr>) vs"
    using q(2) assms(2) by (simp add: qc_is_well_formed_def is_empty_aggregate_def split: if_splits)
  moreover have "has_quorum (?qc\<lparr> qc_sigs := s \<rparr>) vs = has_quorum ?qc vs" for s
    by (simp add: has_quorum_def signer_weight_def signer_indices_def)
  moreover have "manifest_histories (m\<lparr> sm_commit_qc := qc \<rparr>) = manifest_histories m" for qc
    by (simp add: manifest_histories_def cong: sum.case_cong option.case_cong)
  ultimately show ?thesis using h by (intro manifest_verifyI[where h = h]) simp_all
qed

section \<open>Instance\<close>

definition demo_manifest :: snapshot_manifest where
  "demo_manifest =
     \<lparr> sm_version = 3, sm_height = 1, sm_view = 1, sm_block_hash = 2, sm_state_commitment = 0,
       sm_validator_set = [10, 20, 30, 40], sm_chunk_size = 2, sm_chunk_count = 2, sm_chunk_hashes = [2, 1],
       sm_commit_qc = demo_qc 1 2, sm_block = demo_block 0 1 1, sm_created_unix_secs = 0,
       sm_validator_history = vh_to_persisted (hs_set demo_histories),
       sm_validator_key_history = kh_to_persisted (hs_key demo_histories),
       sm_bls_key_history = None, sm_operator_key_history = None \<rparr>"

definition demo_sha :: "bytes \<Rightarrow> hash256" where
  "demo_sha bs = of_nat (length bs)"

theorem snapshot_transfer_faithful_witness:
  "chunk_snapshot demo_sha [1, 2, 3] 2 = Some [([1, 2], 2), ([3], 1)]
   \<and> verify_chunk demo_sha demo_manifest 1 [3] = Inr ()"
proof -
  have c: "chunk_snapshot demo_sha [1, 2, 3] 2 = Some [([1, 2], 2), ([3], 1)]"
    by (simp add: chunk_snapshot_def demo_sha_def slice_chunks.simps)
  have h: "sm_chunk_hashes demo_manifest = map snd [([1, 2 :: u8], 2), ([3], 1)]" by (simp add: demo_manifest_def)
  show ?thesis using c snapshot_transfer_faithful[OF c h] by force
qed

lemma demo_manifest_ok: "manifest_verify demo_hash demo_commit demo_manifest (vs_new [10, 20, 30, 40]) = Some (Inr ())"
proof (rule manifest_verifyI)
  have wf: "vh_wf (hs_set demo_histories)" "kh_wf (hs_key demo_histories)"
    using demo_histories_wf by (simp_all add: histories_wf_def)
  show "manifest_histories demo_manifest
      = Some \<lparr> hs_set = hs_set demo_histories, hs_key = hs_key demo_histories, hs_operator = None, hs_bls = None \<rparr>"
    by (simp add: manifest_histories_def demo_manifest_def vh_persist_roundtrip[OF wf(1)] kh_persist_roundtrip[OF wf(2)])
  show "commitment_of demo_commit
      \<lparr> hs_set = hs_set demo_histories, hs_key = hs_key demo_histories, hs_operator = None, hs_bls = None \<rparr>
      = validator_history_commitment (header (sm_block demo_manifest))"
    by (simp add: commitment_of_def validator_history_commitment_v2_def demo_commit_def demo_manifest_def demo_block_def)
  show "has_quorum (sm_commit_qc demo_manifest) (vs_new [10, 20, 30, 40]) = Some True"
    by (simp add: demo_manifest_def demo_qc_def vs_new_def vs_len_def vote_eval signer_weight_loop.simps)
  show "qc_is_well_formed (sm_commit_qc demo_manifest) (vs_new [10, 20, 30, 40])"
    by (simp add: demo_manifest_def demo_qc_def vs_new_def vs_len_def qc_is_well_formed_def bm_is_well_formed_def
        bm_length_def div_ceil8_def bm_count_def count_ones_def is_empty_aggregate_def BLS_EMPTY_AGGREGATE_SENTINEL_def
        bit_positions Let_def)
qed (simp_all add: demo_manifest_def SNAPSHOT_FORMAT_VERSION_def demo_qc_def demo_block_def block_hash_of_def
    header_hash_def demo_hash_def)

theorem manifest_signature_unchecked_witness:
  "manifest_verify demo_hash demo_commit demo_manifest (vs_new [10, 20, 30, 40]) = Some (Inr ())
   \<and> manifest_verify demo_hash demo_commit
       (demo_manifest\<lparr> sm_commit_qc := (sm_commit_qc demo_manifest)\<lparr> qc_sigs := BlsAggregatedSig 12345 \<rparr> \<rparr>)
       (vs_new [10, 20, 30, 40]) = Some (Inr ())"
proof -
  have "(12345 :: bls_sig) \<noteq> BLS_EMPTY_AGGREGATE_SENTINEL" by (simp add: BLS_EMPTY_AGGREGATE_SENTINEL_def)
  then show ?thesis using demo_manifest_ok manifest_signature_unchecked[OF demo_manifest_ok] by blast
qed

theorem weighted_set_never_adopts_snapshot_witness:
  "manifest_verify demo_hash demo_commit demo_manifest
     \<lparr> members = [10, 20, 30, 40], weights = [1, 1, 1, 2] \<rparr> \<noteq> Some (Inr ())"
  by (rule weighted_set_never_adopts_snapshot[of 2]) simp_all

end
