(* ===== verification/Snapshot_Store.thy ===== *)
theory Snapshot_Store
  imports Snapshot
begin

text \<open>
  The snapshot store (\<open>SnapshotStore\<close> of \<open>replication/snapshot.rs\<close>): storage keys of
  manifests and chunks, saving, loading, listing, deleting and pruning
  snapshots, and when a snapshot is taken (\<open>SnapshotPolicy\<close>).
\<close>

section \<open>Keys\<close>

definition STORAGE_KEY_SNAPSHOT_MANIFEST_PREFIX :: bytes where
  "STORAGE_KEY_SNAPSHOT_MANIFEST_PREFIX = ascii ''consensus/snap/manifest/''"

definition STORAGE_KEY_SNAPSHOT_CHUNK_PREFIX :: bytes where
  "STORAGE_KEY_SNAPSHOT_CHUNK_PREFIX = ascii ''consensus/snap/chunk/''"

definition STORAGE_KEY_SNAPSHOT_LATEST :: bytes where
  "STORAGE_KEY_SNAPSHOT_LATEST = ascii ''consensus/snap/latest''"

text \<open>\<open>from_be_bytes\<close>.\<close>

definition of_be_bytes :: "bytes \<Rightarrow> 'a::len word" where
  "of_be_bytes bs = of_nat (fold (\<lambda>b acc. acc * 256 + unat b) bs 0)"

definition manifest_storage_key :: "u64 \<Rightarrow> bytes" where
  "manifest_storage_key h = STORAGE_KEY_SNAPSHOT_MANIFEST_PREFIX @ be_bytes 8 h"

definition chunk_storage_key :: "u64 \<Rightarrow> u32 \<Rightarrow> bytes" where
  "chunk_storage_key h idx = STORAGE_KEY_SNAPSHOT_CHUNK_PREFIX @ be_bytes 8 h @ be_bytes 4 idx"

definition parse_manifest_storage_key :: "bytes \<Rightarrow> u64 option" where
  "parse_manifest_storage_key key =
     (case strip_prefix STORAGE_KEY_SNAPSHOT_MANIFEST_PREFIX key of
        None \<Rightarrow> None
      | Some suffix \<Rightarrow> if length suffix \<noteq> 8 then None else Some (of_be_bytes suffix))"

definition parse_chunk_storage_key :: "bytes \<Rightarrow> (u64 \<times> u32) option" where
  "parse_chunk_storage_key key =
     (case strip_prefix STORAGE_KEY_SNAPSHOT_CHUNK_PREFIX key of
        None \<Rightarrow> None
      | Some suffix \<Rightarrow>
          if length suffix \<noteq> 12 then None else Some (of_be_bytes (take 8 suffix), of_be_bytes (drop 8 suffix)))"

definition chunk_height_prefix :: "u64 \<Rightarrow> bytes" where
  "chunk_height_prefix h = STORAGE_KEY_SNAPSHOT_CHUNK_PREFIX @ be_bytes 8 h"

section \<open>Operations\<close>

datatype store_error =
    ChunksLength nat u32
  | ChunkHash nat
  | ManifestEncode
  | ManifestDecode
  | LatestLength nat

record snapshot_codec =
  sc_sha256 :: "bytes \<Rightarrow> hash256"
  sc_encode :: "snapshot_manifest \<Rightarrow> bytes option"
  sc_decode :: "bytes \<Rightarrow> snapshot_manifest option"

text \<open>The hash loop of \<open>save\<close>: indexing past the hashes panics.\<close>

fun check_chunks :: "(bytes \<Rightarrow> hash256) \<Rightarrow> hash256 list \<Rightarrow> nat \<Rightarrow> bytes list \<Rightarrow> (store_error + unit) option" where
  "check_chunks sha hashes idx [] = Some (Inr ())"
| "check_chunks sha hashes idx (c # cs) =
     (if \<not> idx < length hashes then None
      else if sha c \<noteq> hashes ! idx then Some (Inl (ChunkHash idx))
      else check_chunks sha hashes (idx + 1) cs)"

definition save_batch :: "bytes \<Rightarrow> snapshot_manifest \<Rightarrow> bytes list \<Rightarrow> write_op list" where
  "save_batch raw m chunks =
     [WPut (manifest_storage_key (sm_height m)) raw]
     @ map (\<lambda>(idx, c). WPut (chunk_storage_key (sm_height m) (of_nat idx)) c) (enumerate 0 chunks)
     @ [WPut STORAGE_KEY_SNAPSHOT_LATEST (be_bytes 8 (sm_height m))]"

definition save ::
  "snapshot_codec \<Rightarrow> memory_storage \<Rightarrow> snapshot_manifest \<Rightarrow> bytes list \<Rightarrow> (store_error + memory_storage) option" where
  "save sc st m chunks =
     (if length chunks \<noteq> unat (sm_chunk_count m) then Some (Inl (ChunksLength (length chunks) (sm_chunk_count m)))
      else (case check_chunks (sc_sha256 sc) (sm_chunk_hashes m) 0 chunks of
        None \<Rightarrow> None
      | Some (Inl e) \<Rightarrow> Some (Inl e)
      | Some (Inr _) \<Rightarrow>
          (case sc_encode sc m of
             None \<Rightarrow> Some (Inl ManifestEncode)
           | Some raw \<Rightarrow> Some (Inr (ms_apply_batch st (save_batch raw m chunks))))))"

definition load_manifest ::
  "snapshot_codec \<Rightarrow> memory_storage \<Rightarrow> u64 \<Rightarrow> store_error + snapshot_manifest option" where
  "load_manifest sc st h =
     (case ms_get st (manifest_storage_key h) of
        None \<Rightarrow> Inr None
      | Some raw \<Rightarrow> (case sc_decode sc raw of None \<Rightarrow> Inl ManifestDecode | Some m \<Rightarrow> Inr (Some m)))"

definition load_chunk :: "memory_storage \<Rightarrow> u64 \<Rightarrow> u32 \<Rightarrow> bytes option" where
  "load_chunk st h idx = ms_get st (chunk_storage_key h idx)"

definition list_heights :: "memory_storage \<Rightarrow> u64 list" where
  "list_heights st =
     sort (List.map_filter (\<lambda>(k, _). parse_manifest_storage_key k)
       (ms_scan_prefix st STORAGE_KEY_SNAPSHOT_MANIFEST_PREFIX))"

definition latest_height :: "snapshot_codec \<Rightarrow> memory_storage \<Rightarrow> store_error + u64 option" where
  "latest_height sc st =
     (case ms_get st STORAGE_KEY_SNAPSHOT_LATEST of
        None \<Rightarrow> Inr None
      | Some raw \<Rightarrow>
          if length raw \<noteq> 8 then Inl (LatestLength (length raw))
          else (let h = of_be_bytes raw in
                case load_manifest sc st h of
                  Inl e \<Rightarrow> Inl e
                | Inr None \<Rightarrow> Inr None
                | Inr (Some _) \<Rightarrow> Inr (Some h)))"

definition delete_batch :: "memory_storage \<Rightarrow> u64 \<Rightarrow> write_op list" where
  "delete_batch st h =
     [WDelete (manifest_storage_key h)]
     @ map (\<lambda>(k, _). WDelete k) (ms_scan_prefix st (chunk_height_prefix h))
     @ [case find (\<lambda>x. x \<noteq> h) (rev (list_heights st)) of
          Some l \<Rightarrow> WPut STORAGE_KEY_SNAPSHOT_LATEST (be_bytes 8 l)
        | None \<Rightarrow> WDelete STORAGE_KEY_SNAPSHOT_LATEST]"

definition snap_delete :: "memory_storage \<Rightarrow> u64 \<Rightarrow> memory_storage" where
  "snap_delete st h = ms_apply_batch st (delete_batch st h)"

definition prune_older_than :: "memory_storage \<Rightarrow> nat \<Rightarrow> u64 list \<times> memory_storage" where
  "prune_older_than st retain_n =
     (if retain_n = 0 then ([], st)
      else (let heights = list_heights st in
            if length heights \<le> retain_n then ([], st)
            else (let to_delete = take (length heights - retain_n) heights in
                  (to_delete, fold (\<lambda>h s. snap_delete s h) to_delete st))))"

section \<open>When a snapshot is taken\<close>

record snapshot_policy =
  interval_blocks :: u64
  retention_count :: nat
  chunk_size_bytes :: u32

definition policy_disabled :: snapshot_policy where
  "policy_disabled = \<lparr> interval_blocks = 0, retention_count = 0, chunk_size_bytes = 1 \<rparr>"

definition policy_production_defaults :: snapshot_policy where
  "policy_production_defaults = \<lparr> interval_blocks = 10000, retention_count = 3, chunk_size_bytes = 1024 * 1024 \<rparr>"

definition policy_is_enabled :: "snapshot_policy \<Rightarrow> bool" where
  "policy_is_enabled p \<longleftrightarrow> 0 < interval_blocks p"

definition should_snapshot_at :: "snapshot_policy \<Rightarrow> height \<Rightarrow> bool" where
  "should_snapshot_at p h \<longleftrightarrow> policy_is_enabled p \<and> 0 < h \<and> h mod interval_blocks p = 0"

section \<open>Keys determine heights and indices\<close>

lemma be_bytes_Suc: "be_bytes (Suc n) w = ucast (drop_bit (8 * n) w) # be_bytes n w"
proof -
  have "[0..<Suc n] = 0 # map Suc [0..<n]" by (simp add: map_Suc_upt upt_conv_Cons del: upt_Suc)
  then show ?thesis by (simp add: be_bytes_def comp_def del: upt_Suc)
qed

lemma fold_be_bytes:
  "fold (\<lambda>b acc. acc * 256 + unat b) (be_bytes n w) acc = acc * 256 ^ n + unat w mod 256 ^ n"
proof (induction n arbitrary: acc)
  case (Suc n)
  have b: "unat (ucast (drop_bit (8 * n) w) :: u8) = unat w div 256 ^ n mod 256"
  proof -
    have "unat (drop_bit (8 * n) w) = unat w div 256 ^ n"
      by (simp only: unat_drop_bit_eq) (simp add: drop_bit_eq_div power_mult)
    then show ?thesis by (simp only: unsigned_ucast_eq) (simp add: take_bit_eq_mod)
  qed
  have "unat w mod 256 ^ Suc n = 256 ^ n * (unat w div 256 ^ n mod 256) + unat w mod 256 ^ n"
    using mod_mult2_eq[of "unat w" "256 ^ n" 256] by (simp add: mult.commute)
  moreover have "fold (\<lambda>b acc. acc * 256 + unat b) (be_bytes (Suc n) w) acc
      = (acc * 256 + unat w div 256 ^ n mod 256) * 256 ^ n + unat w mod 256 ^ n"
    unfolding be_bytes_Suc fold_simps b by (rule Suc.IH)
  ultimately show ?case by (simp add: algebra_simps)
qed (simp add: be_bytes_def)

lemma of_be_bytes [simp]:
  fixes w :: "'a::len word"
  assumes "LENGTH('a) \<le> 8 * n"
  shows "of_be_bytes (be_bytes n w) = w"
proof -
  have "unat w < 2 ^ LENGTH('a)" by simp
  also have "(2 :: nat) ^ LENGTH('a) \<le> 256 ^ n"
    using power_increasing[OF assms, of "2 :: nat"] by (simp add: power_mult)
  finally show ?thesis by (simp add: of_be_bytes_def fold_be_bytes)
qed

lemma parse_manifest_key [simp]: "parse_manifest_storage_key (manifest_storage_key h) = Some h"
  by (simp add: parse_manifest_storage_key_def manifest_storage_key_def)

lemma parse_chunk_key [simp]: "parse_chunk_storage_key (chunk_storage_key h i) = Some (h, i)"
  by (simp add: parse_chunk_storage_key_def chunk_storage_key_def)

lemma manifest_key_inj [simp]: "manifest_storage_key h = manifest_storage_key h' \<longleftrightarrow> h = h'"
  by (metis option.inject parse_manifest_key)

lemma chunk_key_inj [simp]: "chunk_storage_key h i = chunk_storage_key h' i' \<longleftrightarrow> h = h' \<and> i = i'"
  by (metis option.inject parse_chunk_key prod.inject)

lemma snapshot_keys_distinct [simp]:
  "manifest_storage_key h \<noteq> chunk_storage_key h' i" "chunk_storage_key h' i \<noteq> manifest_storage_key h"
  "manifest_storage_key h \<noteq> STORAGE_KEY_SNAPSHOT_LATEST" "STORAGE_KEY_SNAPSHOT_LATEST \<noteq> manifest_storage_key h"
  "chunk_storage_key h' i \<noteq> STORAGE_KEY_SNAPSHOT_LATEST" "STORAGE_KEY_SNAPSHOT_LATEST \<noteq> chunk_storage_key h' i"
  by (simp_all add: manifest_storage_key_def chunk_storage_key_def STORAGE_KEY_SNAPSHOT_MANIFEST_PREFIX_def
      STORAGE_KEY_SNAPSHOT_CHUNK_PREFIX_def STORAGE_KEY_SNAPSHOT_LATEST_def ascii_def)

lemma chunk_key_prefix: "starts_with (chunk_storage_key h i) (chunk_height_prefix h') \<longleftrightarrow> h = h'"
proof
  assume "starts_with (chunk_storage_key h i) (chunk_height_prefix h')"
  then obtain r where "be_bytes 8 h @ be_bytes 4 i = be_bytes 8 h' @ r"
    by (auto simp: starts_with_def strip_prefix_Some chunk_storage_key_def chunk_height_prefix_def)
  then have "be_bytes 8 h = be_bytes 8 h'" by (simp add: append_eq_append_conv)
  then show "h = h'" by (rule be_bytes_inj) simp
qed (auto simp: starts_with_def strip_prefix_Some chunk_storage_key_def chunk_height_prefix_def)

lemma manifest_key_not_chunk_prefix [simp]: "\<not> starts_with (manifest_storage_key h) (chunk_height_prefix h')"
  by (simp add: starts_with_def manifest_storage_key_def chunk_height_prefix_def STORAGE_KEY_SNAPSHOT_MANIFEST_PREFIX_def
      STORAGE_KEY_SNAPSHOT_CHUNK_PREFIX_def ascii_def)

lemma latest_not_chunk_prefix [simp]: "\<not> starts_with STORAGE_KEY_SNAPSHOT_LATEST (chunk_height_prefix h')"
  by (simp add: starts_with_def STORAGE_KEY_SNAPSHOT_LATEST_def chunk_height_prefix_def
      STORAGE_KEY_SNAPSHOT_CHUNK_PREFIX_def ascii_def)

section \<open>Saving\<close>

lemma final_write_append:
  "final_write (xs @ ys) k = (case final_write ys k of Some r \<Rightarrow> Some r | None \<Rightarrow> final_write xs k)"
  by (induction xs k rule: final_write.induct) (auto split: option.splits)

lemma final_write_puts:
  "distinct (map fst kvs) \<Longrightarrow> final_write (map (\<lambda>(k, v). WPut k v) kvs) k = map_option Some (map_of kvs k)"
proof (induction kvs)
  case (Cons e kvs)
  obtain a b where e: "e = (a, b)" by (cases e)
  have "a = k \<Longrightarrow> map_of kvs k = None" using Cons.prems by (simp add: e map_of_eq_None_iff)
  then show ?case using Cons by (simp add: e split: option.split)
qed simp

lemma final_write_deletes:
  "final_write (map (\<lambda>(k, _). WDelete k) kvs) k = (if k \<in> fst ` set kvs then Some None else None)"
proof (induction kvs)
  case (Cons e kvs)
  then show ?case by (cases e) (simp split: option.split)
qed simp

text \<open>Big-endian bytes of bounded length are in bijection with words.\<close>

abbreviation be_val :: "bytes \<Rightarrow> nat" where
  "be_val bs \<equiv> fold (\<lambda>b acc. acc * 256 + unat b) bs 0"

lemma be_val_from: "fold (\<lambda>b acc. acc * 256 + unat (b :: u8)) bs acc = acc * 256 ^ length bs + be_val bs"
proof (induction bs arbitrary: acc)
  case (Cons b bs)
  show ?case using Cons.IH[of "acc * 256 + unat b"] Cons.IH[of "unat b"] by (simp add: algebra_simps)
qed simp

lemma be_val_Cons: "be_val (b # bs) = unat b * 256 ^ length bs + be_val bs"
  using be_val_from[of bs "unat b"] by simp

lemma be_val_less: "be_val bs < 256 ^ length bs"
proof (induction bs)
  case (Cons b bs)
  have "unat b < 256" using unsigned_less[of b] by simp
  then have "unat b + 1 \<le> 256" by simp
  then have "(unat b + 1) * 256 ^ length bs \<le> 256 * 256 ^ length bs" by (rule mult_le_mono1)
  then have "unat b * 256 ^ length bs + 256 ^ length bs \<le> 256 ^ length (b # bs)" by (simp add: algebra_simps)
  then show ?case using Cons unfolding be_val_Cons by linarith
qed simp

lemma be_val_inj: "length bs = length bs' \<Longrightarrow> be_val bs = be_val bs' \<Longrightarrow> bs = bs'"
proof (induction bs bs' rule: list_induct2)
  case (Cons b bs b' bs')
  let ?n = "(256 :: nat) ^ length bs"
  have e: "unat b * ?n + be_val bs = unat b' * ?n + be_val bs'"
    using Cons.prems Cons.hyps by (simp only: be_val_Cons)
  have "be_val bs < ?n" "be_val bs' < ?n" using be_val_less Cons.hyps by metis+
  then have "unat b = unat b'" "be_val bs = be_val bs'"
    using arg_cong[OF e, of "\<lambda>x. x div ?n"] arg_cong[OF e, of "\<lambda>x. x mod ?n"] by simp_all
  then show ?case using Cons.IH by (simp add: word_unat_eq_iff)
qed simp

lemma be_bytes_of_be_bytes:
  assumes "length bs = n" "LENGTH('a::len) = 8 * n"
  shows "be_bytes n (of_be_bytes bs :: 'a word) = bs"
proof (rule be_val_inj)
  have "be_val bs < 256 ^ n" using be_val_less assms(1) by blast
  also have "(256 :: nat) ^ n = 2 ^ LENGTH('a)" by (simp add: assms(2) power_mult)
  finally have "unat (of_nat (be_val bs) :: 'a word) = be_val bs" by (rule unat_of_nat_small)
  then show "be_val (be_bytes n (of_be_bytes bs :: 'a word)) = be_val bs"
    using be_val_less[of bs] assms(1) by (simp add: fold_be_bytes of_be_bytes_def)
qed (use assms in simp)

lemma save_Inr:
  assumes "save sc st m chunks = Some (Inr st')"
  obtains raw where "sc_encode sc m = Some raw" "st' = fold ms_write (save_batch raw m chunks) st"
    "length chunks = unat (sm_chunk_count m)"
  using assms by (auto simp: save_def ms_apply_batch_def split: if_splits option.splits sum.splits)

text \<open>The chunk entries of a saved snapshot.\<close>

definition chunk_rows :: "u64 \<Rightarrow> bytes list \<Rightarrow> (bytes \<times> bytes) list" where
  "chunk_rows h chunks = map (\<lambda>(idx, c). (chunk_storage_key h (of_nat idx), c)) (enumerate 0 chunks)"

lemma chunk_rows_distinct:
  assumes "length chunks < 2 ^ 32"
  shows "distinct (map fst (chunk_rows h chunks))"
proof -
  have "a = b" if "a < length chunks" "b < length chunks" "(of_nat a :: u32) = of_nat b" for a b
  proof -
    have "unat (of_nat a :: u32) = a" "unat (of_nat b :: u32) = b"
      using that assms by (intro unat_of_nat_small; simp)+
    then show ?thesis using that(3) by metis
  qed
  then show ?thesis by (auto simp: chunk_rows_def distinct_conv_nth nth_enumerate_eq)
qed

lemma map_of_chunk_rows:
  assumes "length chunks < 2 ^ 32" "i < length chunks"
  shows "map_of (chunk_rows h chunks) (chunk_storage_key h (of_nat i)) = Some (chunks ! i)"
  using chunk_rows_distinct[OF assms(1), of h] assms(2)
  by (intro map_of_is_SomeI) (force simp: chunk_rows_def in_set_enumerate_eq)+

lemma map_of_chunk_rows_other: "(\<And>i. k \<noteq> chunk_storage_key h i) \<Longrightarrow> map_of (chunk_rows h chunks) k = None"
  by (force simp: chunk_rows_def map_of_eq_None_iff)

lemma save_batch_final:
  assumes "length chunks < 2 ^ 32"
  shows "final_write (save_batch raw m chunks) k =
    (if k = STORAGE_KEY_SNAPSHOT_LATEST then Some (Some (be_bytes 8 (sm_height m)))
     else case map_of (chunk_rows (sm_height m) chunks) k of
       Some c \<Rightarrow> Some (Some c)
     | None \<Rightarrow> if k = manifest_storage_key (sm_height m) then Some (Some raw) else None)"
proof -
  have "map (\<lambda>(idx, c). WPut (chunk_storage_key (sm_height m) (of_nat idx)) c) (enumerate 0 chunks)
      = map (\<lambda>(k, v). WPut k v) (chunk_rows (sm_height m) chunks)"
    by (simp add: chunk_rows_def comp_def case_prod_beta)
  then show ?thesis
    using final_write_puts[OF chunk_rows_distinct[OF assms], of "sm_height m" k]
    by (simp add: save_batch_def final_write_append split: option.split)
qed

text \<open>A saved snapshot loads back: its manifest, each of its chunks, and its height as
  the latest one, provided the manifest codec round-trips; every other snapshot
  is untouched.\<close>

theorem snapshot_save_load:
  assumes "bt_wf st" and "save sc st m chunks = Some (Inr st')"
    and "\<And>raw. sc_encode sc m = Some raw \<Longrightarrow> sc_decode sc raw = Some m"
  shows "bt_wf st' \<and> load_manifest sc st' (sm_height m) = Inr (Some m)
    \<and> (\<forall>i < length chunks. load_chunk st' (sm_height m) (of_nat i) = Some (chunks ! i))
    \<and> latest_height sc st' = Inr (Some (sm_height m))
    \<and> (\<forall>h i. h \<noteq> sm_height m \<longrightarrow> load_manifest sc st' h = load_manifest sc st h \<and> load_chunk st' h i = load_chunk st h i)"
proof -
  obtain raw where raw: "sc_encode sc m = Some raw" "st' = fold ms_write (save_batch raw m chunks) st"
    "length chunks = unat (sm_chunk_count m)" using assms(2) by (rule save_Inr)
  have len: "length chunks < 2 ^ 32" using raw(3) unsigned_less[of "sm_chunk_count m"] by simp
  have wf: "bt_wf st'" unfolding raw(2) using assms(1) by (rule ms.batch_ok)
  have get: "ms_get st' k = (case final_write (save_batch raw m chunks) k of Some r \<Rightarrow> r | None \<Rightarrow> ms_get st k)" for k
    unfolding raw(2) using assms(1) by (rule ms.batch_get)
  note final = save_batch_final[OF len, of raw m]
  have man: "load_manifest sc st' (sm_height m) = Inr (Some m)"
    using assms(3)[OF raw(1)] by (simp add: load_manifest_def get final map_of_chunk_rows_other)
  then have "latest_height sc st' = Inr (Some (sm_height m))"
    by (simp add: latest_height_def get final)
  moreover have "load_chunk st' (sm_height m) (of_nat i) = Some (chunks ! i)" if "i < length chunks" for i
    using that by (simp add: load_chunk_def get final map_of_chunk_rows[OF len])
  moreover have "load_manifest sc st' h = load_manifest sc st h" "load_chunk st' h i = load_chunk st h i"
    if "h \<noteq> sm_height m" for h i
    using that by (simp_all add: load_manifest_def load_chunk_def get final map_of_chunk_rows_other)
  ultimately show ?thesis using wf man by blast
qed

section \<open>Deleting and pruning\<close>

lemma parse_manifest_iff: "parse_manifest_storage_key k = Some h \<longleftrightarrow> k = manifest_storage_key h"
proof
  assume "parse_manifest_storage_key k = Some h"
  then obtain s where s: "k = STORAGE_KEY_SNAPSHOT_MANIFEST_PREFIX @ s" "length s = 8" "h = of_be_bytes s"
    by (auto simp: parse_manifest_storage_key_def strip_prefix_Some split: option.splits if_splits)
  have "be_bytes 8 h = s" unfolding s(3) using s(2) by (rule be_bytes_of_be_bytes) simp
  then show "k = manifest_storage_key h" using s(1) by (simp add: manifest_storage_key_def)
qed simp

lemma manifest_key_prefix: "starts_with (manifest_storage_key h) STORAGE_KEY_SNAPSHOT_MANIFEST_PREFIX"
  by (simp add: starts_with_def manifest_storage_key_def)

lemma set_list_heights: "bt_wf st \<Longrightarrow> h \<in> set (list_heights st) \<longleftrightarrow> ms_get st (manifest_storage_key h) \<noteq> None"
  by (auto simp: list_heights_def List.map_filter_def ms.scan_exact parse_manifest_iff manifest_key_prefix image_iff)

lemma list_heights_strict: "bt_wf st \<Longrightarrow> sorted_wrt (<) (list_heights st)"
proof -
  assume wf: "bt_wf st"
  let ?rows = "ms_scan_prefix st STORAGE_KEY_SNAPSHOT_MANIFEST_PREFIX"
  have "distinct (map fst ?rows)" using ms.scan_sorted[OF wf] by (simp add: strict_sorted_iff)
  then have "distinct (List.map_filter (\<lambda>(k, _). parse_manifest_storage_key k) rows)" if "rows = ?rows" for rows
    unfolding that[symmetric]
  proof (induction rows)
    case (Cons e rows)
    obtain k v where e: "e = (k, v)" by (cases e)
    have "k \<notin> fst ` set rows" using Cons.prems by (simp add: e)
    then show ?case using Cons
      by (auto simp: e List.map_filter_def parse_manifest_iff split: option.splits) (force simp: parse_manifest_iff)
  qed (simp add: List.map_filter_def)
  then show ?thesis by (simp add: list_heights_def strict_sorted_iff)
qed

lemma delete_batch_final:
  "final_write (delete_batch st h) k =
    (if k = STORAGE_KEY_SNAPSHOT_LATEST
     then Some (map_option (be_bytes 8) (find (\<lambda>x. x \<noteq> h) (rev (list_heights st))))
     else if k \<in> fst ` set (ms_scan_prefix st (chunk_height_prefix h)) then Some None
     else if k = manifest_storage_key h then Some None else None)"
  by (simp add: delete_batch_def final_write_append final_write_deletes split: option.split)

lemma snap_delete_get:
  "bt_wf st \<Longrightarrow> ms_get (snap_delete st h) k
    = (case final_write (delete_batch st h) k of Some r \<Rightarrow> r | None \<Rightarrow> ms_get st k)"
  unfolding snap_delete_def ms_apply_batch_def by (rule ms.batch_get)

lemma snap_delete_wf: "bt_wf st \<Longrightarrow> bt_wf (snap_delete st h)"
  unfolding snap_delete_def ms_apply_batch_def by (rule ms.batch_ok)

lemma snap_delete_manifest:
  assumes "bt_wf st"
  shows "ms_get (snap_delete st h) (manifest_storage_key h') = (if h' = h then None else ms_get st (manifest_storage_key h'))"
proof -
  have "manifest_storage_key h' \<notin> fst ` set (ms_scan_prefix st (chunk_height_prefix h))"
    using ms.scan_exact[OF assms] by force
  then show ?thesis by (simp add: snap_delete_get[OF assms] delete_batch_final)
qed

lemma snap_delete_chunk:
  assumes "bt_wf st"
  shows "load_chunk (snap_delete st h) h' i = (if h' = h then None else load_chunk st h' i)"
proof -
  have "chunk_storage_key h' i \<in> fst ` set (ms_scan_prefix st (chunk_height_prefix h))
      \<longleftrightarrow> h' = h \<and> ms_get st (chunk_storage_key h' i) \<noteq> None"
    using ms.scan_exact[OF assms] by (force simp: chunk_key_prefix)
  then show ?thesis by (auto simp: load_chunk_def snap_delete_get[OF assms] delete_batch_final)
qed

lemma snap_delete_heights:
  assumes "bt_wf st"
  shows "list_heights (snap_delete st h) = filter (\<lambda>x. x \<noteq> h) (list_heights st)"
proof (rule sorted_distinct_set_unique)
  show "set (list_heights (snap_delete st h)) = set (filter (\<lambda>x. x \<noteq> h) (list_heights st))"
    using assms snap_delete_wf[OF assms] by (auto simp: set_list_heights snap_delete_manifest split: if_splits)
qed (use list_heights_strict[OF assms] list_heights_strict[OF snap_delete_wf[OF assms, of h]] in
    \<open>auto simp: strict_sorted_iff sorted_filter[where f = "\<lambda>x. x", simplified]\<close>)

lemma find_rev: "find P (rev xs) = (if filter P xs = [] then None else Some (last (filter P xs)))"
  by (induction xs rule: rev_induct) auto

lemma snap_delete_latest:
  assumes "bt_wf st"
  shows "ms_get (snap_delete st h) STORAGE_KEY_SNAPSHOT_LATEST
    = (if list_heights (snap_delete st h) = [] then None else Some (be_bytes 8 (last (list_heights (snap_delete st h)))))"
  by (simp add: snap_delete_heights[OF assms] snap_delete_get[OF assms] delete_batch_final find_rev)

lemma deletes_spec:
  assumes "bt_wf st" and "st' = fold (\<lambda>h s. snap_delete s h) hs st"
  shows "bt_wf st'" "list_heights st' = filter (\<lambda>x. x \<notin> set hs) (list_heights st)"
    "ms_get st' (manifest_storage_key h) = (if h \<in> set hs then None else ms_get st (manifest_storage_key h))"
    "load_chunk st' h i = (if h \<in> set hs then None else load_chunk st h i)"
    "hs \<noteq> [] \<Longrightarrow> ms_get st' STORAGE_KEY_SNAPSHOT_LATEST
       = (if list_heights st' = [] then None else Some (be_bytes 8 (last (list_heights st'))))"
proof -
  have "bt_wf st' \<and> list_heights st' = filter (\<lambda>x. x \<notin> set hs) (list_heights st)
    \<and> ms_get st' (manifest_storage_key h) = (if h \<in> set hs then None else ms_get st (manifest_storage_key h))
    \<and> load_chunk st' h i = (if h \<in> set hs then None else load_chunk st h i)
    \<and> (hs \<noteq> [] \<longrightarrow> ms_get st' STORAGE_KEY_SNAPSHOT_LATEST
       = (if list_heights st' = [] then None else Some (be_bytes 8 (last (list_heights st')))))"
    using assms
  proof (induction hs arbitrary: st' rule: rev_induct)
    case (snoc x hs)
    define s where "s = fold (\<lambda>h s. snap_delete s h) hs st"
    note ih = snoc.IH[OF snoc.prems(1) s_def]
    have st': "st' = snap_delete s x" using snoc.prems(2) by (simp add: s_def)
    have wf: "bt_wf s" using ih by blast
    have "filter (\<lambda>y. y \<noteq> x) (filter (\<lambda>y. y \<notin> set hs) ys) = filter (\<lambda>y. y \<notin> set (hs @ [x])) ys" for ys :: "u64 list"
      by (induction ys) auto
    then have "list_heights st' = filter (\<lambda>y. y \<notin> set (hs @ [x])) (list_heights st)"
      using ih by (simp only: st' snap_delete_heights[OF wf])
    moreover have "ms_get st' (manifest_storage_key h)
        = (if h \<in> set (hs @ [x]) then None else ms_get st (manifest_storage_key h))"
      using ih by (simp add: st' snap_delete_manifest[OF wf])
    moreover have "load_chunk st' h i = (if h \<in> set (hs @ [x]) then None else load_chunk st h i)"
      using ih by (simp add: st' snap_delete_chunk[OF wf])
    ultimately show ?case using snap_delete_wf[OF wf, of x] snap_delete_latest[OF wf, of x] unfolding st' by blast
  qed simp
  then show "bt_wf st'" "list_heights st' = filter (\<lambda>x. x \<notin> set hs) (list_heights st)"
    "ms_get st' (manifest_storage_key h) = (if h \<in> set hs then None else ms_get st (manifest_storage_key h))"
    "load_chunk st' h i = (if h \<in> set hs then None else load_chunk st h i)"
    "hs \<noteq> [] \<Longrightarrow> ms_get st' STORAGE_KEY_SNAPSHOT_LATEST
       = (if list_heights st' = [] then None else Some (be_bytes 8 (last (list_heights st'))))"
    by blast+
qed

lemma filter_not_take: "distinct xs \<Longrightarrow> filter (\<lambda>x. x \<notin> set (take n xs)) xs = drop n xs"
proof (induction xs arbitrary: n)
  case (Cons x xs)
  show ?case
  proof (cases n)
    case (Suc k)
    have "filter (\<lambda>y. y \<noteq> x \<and> y \<notin> set (take k xs)) xs = filter (\<lambda>y. y \<notin> set (take k xs)) xs"
      using Cons.prems by (intro filter_cong) auto
    then show ?thesis using Cons Suc by simp
  qed simp
qed simp

text \<open>Pruning keeps exactly the newest \<open>n\<close> snapshots: their manifests and chunks are
  untouched, every chunk of a deleted snapshot is gone, and the latest pointer
  stands at the newest one.\<close>

theorem snapshot_prune_keeps_newest:
  assumes "bt_wf st" and "0 < n" and "prune_older_than st n = (deleted, st')"
  shows "bt_wf st' \<and> deleted @ list_heights st' = list_heights st \<and> length (list_heights st') \<le> n
    \<and> (deleted \<noteq> [] \<longrightarrow> length (list_heights st') = n
         \<and> ms_get st' STORAGE_KEY_SNAPSHOT_LATEST = Some (be_bytes 8 (last (list_heights st))))
    \<and> (\<forall>h i. h \<in> set (list_heights st') \<longrightarrow>
         load_manifest sc st' h = load_manifest sc st h \<and> load_chunk st' h i = load_chunk st h i)
    \<and> (\<forall>h i. h \<in> set deleted \<longrightarrow> load_manifest sc st' h = Inr None \<and> load_chunk st' h i = None)"
proof (cases "length (list_heights st) \<le> n")
  case True
  then show ?thesis using assms by (auto simp: prune_older_than_def)
next
  case False
  let ?hs = "list_heights st"
  have d: "deleted = take (length ?hs - n) ?hs" and st': "st' = fold (\<lambda>h s. snap_delete s h) deleted st"
    using assms(2,3) False by (auto simp: prune_older_than_def Let_def)
  note sp = deletes_spec[OF assms(1) st']
  have dist: "distinct ?hs" using list_heights_strict[OF assms(1)] by (simp add: strict_sorted_iff)
  have kept: "list_heights st' = drop (length ?hs - n) ?hs" using sp(2) filter_not_take[OF dist] by (simp add: d)
  have ne: "list_heights st' \<noteq> []" "last (list_heights st') = last ?hs" using False assms(2) by (simp_all add: kept)
  have old: "h \<notin> set deleted" if "h \<in> set (list_heights st')" for h using that sp(2) by auto
  have "deleted @ list_heights st' = ?hs" unfolding kept d by simp
  moreover have "length (list_heights st') = n" using False by (simp add: kept)
  moreover have "ms_get st' STORAGE_KEY_SNAPSHOT_LATEST = Some (be_bytes 8 (last ?hs))" if "deleted \<noteq> []"
    using sp(5)[OF that] ne by simp
  moreover have "load_manifest sc st' h = load_manifest sc st h" "load_chunk st' h i = load_chunk st h i"
    if "h \<in> set (list_heights st')" for h i
    using old[OF that] sp(3)[of h] sp(4)[of h i] by (simp_all add: load_manifest_def)
  moreover have "load_manifest sc st' h = Inr None" "load_chunk st' h i = None" if "h \<in> set deleted" for h i
    using that sp(3)[of h] sp(4)[of h i] by (simp_all add: load_manifest_def)
  ultimately show ?thesis using sp(1) by blast
qed

section \<open>Instance\<close>

definition demo_codec :: snapshot_codec where
  "demo_codec = \<lparr> sc_sha256 = demo_sha, sc_encode = (\<lambda>_. Some [7]), sc_decode = (\<lambda>_. Some demo_manifest) \<rparr>"

lemma demo_save: "\<exists>st. save demo_codec [] demo_manifest [[1, 2], [3]] = Some (Inr st)"
  by (simp add: save_def demo_codec_def demo_manifest_def demo_sha_def)

theorem snapshot_save_load_witness:
  "\<exists>st. save demo_codec [] demo_manifest [[1, 2], [3]] = Some (Inr st)
    \<and> load_manifest demo_codec st 1 = Inr (Some demo_manifest) \<and> load_chunk st 1 1 = Some [3]"
proof -
  obtain st where st: "save demo_codec [] demo_manifest [[1, 2], [3]] = Some (Inr st)" using demo_save by blast
  have codec: "sc_encode demo_codec demo_manifest = Some raw \<Longrightarrow> sc_decode demo_codec raw = Some demo_manifest" for raw
    by (simp add: demo_codec_def)
  have h: "sm_height demo_manifest = 1" by (simp add: demo_manifest_def)
  show ?thesis using st snapshot_save_load[OF bt_wf_Nil st codec] unfolding h by force
qed

text \<open>A store with the snapshots of heights 1 and 2, by their manifests.\<close>

definition demo_store :: memory_storage where
  "demo_store = ms_apply_batch [] [WPut (manifest_storage_key 1) [7], WPut (manifest_storage_key 2) [7]]"

theorem snapshot_prune_keeps_newest_witness:
  "\<exists>deleted st. prune_older_than demo_store 1 = (deleted, st)
    \<and> deleted @ list_heights st = list_heights demo_store \<and> length (list_heights st) \<le> 1"
proof -
  obtain deleted st where p: "prune_older_than demo_store 1 = (deleted, st)" by (cases "prune_older_than demo_store 1")
  have "bt_wf demo_store" unfolding demo_store_def ms_apply_batch_def by (rule ms.batch_ok) simp
  then show ?thesis using p snapshot_prune_keeps_newest[OF _ _ p] by auto
qed

end
