(* ===== verification/Snapshot_Sync.thy ===== *)
theory Snapshot_Sync
  imports Snapshot_Store Step_Machine
begin

text \<open>
  Fetching a snapshot from peers (\<open>boule-consensus/src/snapshot_sync.rs\<close>): the
  state machine that asks one proposer for a manifest, spreads the chunk
  requests over the candidates within the concurrency bounds, verifies every
  chunk and restores, or aborts. A \<open>HashSet\<close> is a \<open>set\<close>, a \<open>HashMap\<close> an
  association list. \<open>None\<close> is a panic.
\<close>

section \<open>State\<close>

definition MAX_CONCURRENT_CHUNK_REQUESTS :: u32 where
  "MAX_CONCURRENT_CHUNK_REQUESTS = 4"

definition PER_PEER_CHUNK_CONCURRENCY :: u32 where
  "PER_PEER_CHUNK_CONCURRENCY = 2"

definition PER_CHUNK_RETRY_BUDGET :: u32 where
  "PER_CHUNK_RETRY_BUDGET = 3"

datatype chunk_status = CPending | CInFlight node_id | CReceived bytes

record chunk_slot =
  cs_status :: chunk_status
  cs_tried :: "node_id set"
  cs_attempts :: u32

record fetching =
  ft_manifest :: snapshot_manifest
  ft_candidates :: "node_id list"
  ft_in_flight :: "(node_id, u32) hmap"
  ft_chunks :: "chunk_slot list"

datatype sync_state =
    SIdle "node_id set"
  | SManifestPending node_id "node_id set"
  | SFetching fetching
  | SDone
  | SAborted

datatype abort_reason =
    PeerHasNoSnapshot
  | ManifestVerifyFailed manifest_error
  | ChunkRetryBudgetExhausted u32 u32
  | CandidatesExhausted

datatype sync_action =
    SendManifestRequest node_id
  | SendChunkRequest node_id u64 u32
  | Restore snapshot_manifest bytes
  | Abort abort_reason

record snapshot_sync =
  sy_state :: sync_state
  sy_policy :: snapshot_policy

definition sync_new :: "snapshot_policy \<Rightarrow> snapshot_sync" where
  "sync_new p = \<lparr> sy_state = SIdle {}, sy_policy = p \<rparr>"

fun is_active :: "sync_state \<Rightarrow> bool" where
  "is_active (SManifestPending _ _) = True"
| "is_active (SFetching _) = True"
| "is_active _ = False"

definition is_manifest_pending_from :: "sync_state \<Rightarrow> node_id \<Rightarrow> bool" where
  "is_manifest_pending_from s peer = (case s of SManifestPending p _ \<Rightarrow> p = peer | _ \<Rightarrow> False)"

section \<open>Scheduling chunk requests\<close>

definition in_flight_of :: "(node_id, u32) hmap \<Rightarrow> node_id \<Rightarrow> u32" where
  "in_flight_of m p = (case hm_get m p of Some c \<Rightarrow> c | None \<Rightarrow> 0)"

definition pick_peer :: "node_id list \<Rightarrow> (node_id, u32) hmap \<Rightarrow> chunk_slot \<Rightarrow> node_id option" where
  "pick_peer candidates infl slot =
     (if cs_status slot \<noteq> CPending then None
      else find (\<lambda>p. p \<notin> cs_tried slot \<and> in_flight_of infl p < PER_PEER_CHUNK_CONCURRENCY) candidates)"

fun next_request ::
  "node_id list \<Rightarrow> (node_id, u32) hmap \<Rightarrow> nat \<Rightarrow> chunk_slot list \<Rightarrow> (nat \<times> node_id) option" where
  "next_request candidates infl idx [] = None"
| "next_request candidates infl idx (slot # slots) =
     (case pick_peer candidates infl slot of
        Some p \<Rightarrow> Some (idx, p)
      | None \<Rightarrow> next_request candidates infl (idx + 1) slots)"

definition total_in_flight :: "(node_id, u32) hmap \<Rightarrow> u32" where
  "total_in_flight m = sum_list (map snd m)"

definition is_pending :: "chunk_slot \<Rightarrow> bool" where
  "is_pending slot \<longleftrightarrow> cs_status slot = CPending"

definition is_in_flight :: "chunk_slot \<Rightarrow> bool" where
  "is_in_flight slot = (case cs_status slot of CInFlight _ \<Rightarrow> True | _ \<Rightarrow> False)"

lemma next_request_Some:
  "next_request candidates infl k slots = Some (idx, p) \<Longrightarrow>
     k \<le> idx \<and> idx - k < length slots \<and> is_pending (slots ! (idx - k)) \<and> p \<in> set candidates
     \<and> p \<notin> cs_tried (slots ! (idx - k)) \<and> in_flight_of infl p < PER_PEER_CHUNK_CONCURRENCY"
proof (induction candidates infl k slots rule: next_request.induct)
  case (2 candidates infl k slot slots)
  show ?case
  proof (cases "pick_peer candidates infl slot")
    case None
    then have "k + 1 \<le> idx" "idx - (k + 1) < length slots" "is_pending (slots ! (idx - (k + 1)))" "p \<in> set candidates"
      "p \<notin> cs_tried (slots ! (idx - (k + 1)))" "in_flight_of infl p < PER_PEER_CHUNK_CONCURRENCY"
      using 2 by auto
    moreover from this(1) have "idx - k = Suc (idx - (k + 1))" by simp
    ultimately show ?thesis by simp
  next
    case (Some q)
    then show ?thesis using 2(2)
      by (auto simp: pick_peer_def is_pending_def find_Some_iff in_set_conv_nth split: if_splits)
  qed
qed simp

lemma pending_decreases:
  assumes "idx < length slots" "is_pending (slots ! idx)"
  shows "length (filter is_pending (slots[idx := (slots ! idx)\<lparr> cs_status := CInFlight p \<rparr>])) < length (filter is_pending slots)"
proof -
  have s: "slots = take idx slots @ slots ! idx # drop (Suc idx) slots" using assms(1) by (rule id_take_nth_drop)
  have "filter is_pending slots = filter is_pending (take idx slots) @ slots ! idx # filter is_pending (drop (Suc idx) slots)"
    using assms(2) by (subst s) simp
  moreover have "slots[idx := x] = take idx slots @ x # drop (Suc idx) slots" for x
    using assms(1) by (simp add: upd_conv_take_nth_drop)
  ultimately show ?thesis by (simp add: is_pending_def)
qed

function schedule ::
  "node_id list \<Rightarrow> (node_id, u32) hmap \<Rightarrow> chunk_slot list \<Rightarrow> u64
     \<Rightarrow> sync_action list \<times> (node_id, u32) hmap \<times> chunk_slot list" where
  "schedule candidates infl chunks h =
     (if total_in_flight infl \<ge> MAX_CONCURRENT_CHUNK_REQUESTS then ([], infl, chunks)
      else (case next_request candidates infl 0 chunks of
        None \<Rightarrow> ([], infl, chunks)
      | Some (idx, peer) \<Rightarrow>
          (case schedule candidates (hm_insert peer (in_flight_of infl peer + 1) infl)
                  (chunks[idx := (chunks ! idx)\<lparr> cs_status := CInFlight peer \<rparr>]) h of
             (as, r) \<Rightarrow> (SendChunkRequest peer h (of_nat idx) # as, r))))"
  by auto
termination
  by (relation "measure (\<lambda>(_, _, chunks, _). length (filter is_pending chunks))")
    (auto dest!: next_request_Some intro: pending_decreases)

declare schedule.simps [simp del]

text \<open>\<open>schedule\<close> on the fetching state.\<close>

definition run_schedule :: "fetching \<Rightarrow> sync_action list \<times> fetching" where
  "run_schedule f =
     (case schedule (ft_candidates f) (ft_in_flight f) (ft_chunks f) (sm_height (ft_manifest f)) of
        (as, infl, chunks) \<Rightarrow> (as, f\<lparr> ft_in_flight := infl, ft_chunks := chunks \<rparr>))"

definition check_chunk_abort :: "chunk_slot \<Rightarrow> u32 \<Rightarrow> node_id list \<Rightarrow> abort_reason option" where
  "check_chunk_abort slot idx candidates =
     (if cs_attempts slot \<ge> PER_CHUNK_RETRY_BUDGET then Some (ChunkRetryBudgetExhausted idx (cs_attempts slot))
      else if candidates = [] then Some CandidatesExhausted
      else if \<forall>c \<in> set candidates. c \<in> cs_tried slot then Some (ChunkRetryBudgetExhausted idx (cs_attempts slot))
      else None)"

definition schedule_or_abort :: "fetching \<Rightarrow> sync_action list \<times> sync_state" where
  "schedule_or_abort f =
     (case run_schedule f of (as, f') \<Rightarrow>
        if \<not> list_ex is_in_flight (ft_chunks f') \<and> list_ex is_pending (ft_chunks f') \<and> as = []
        then ([Abort CandidatesExhausted], SAborted)
        else (as, SFetching f'))"

definition received :: "chunk_slot \<Rightarrow> bytes option" where
  "received slot = (case cs_status slot of CReceived b \<Rightarrow> Some b | _ \<Rightarrow> None)"

definition try_finish_or_schedule :: "fetching \<Rightarrow> sync_action list \<times> sync_state" where
  "try_finish_or_schedule f =
     (if \<not> list_all (\<lambda>c. received c \<noteq> None) (ft_chunks f) then schedule_or_abort f
      else ([Restore (ft_manifest f) (assemble_chunks (List.map_filter received (ft_chunks f)))], SDone))"

section \<open>Events\<close>

definition add_peer :: "node_id \<Rightarrow> fetching \<Rightarrow> fetching" where
  "add_peer p f =
     (if p \<in> set (ft_candidates f) then f
      else f\<lparr> ft_candidates := ft_candidates f @ [p],
              ft_in_flight := (if hm_contains (ft_in_flight f) p then ft_in_flight f else hm_insert p 0 (ft_in_flight f)) \<rparr>)"

definition observe_proposal ::
  "snapshot_sync \<Rightarrow> u64 \<Rightarrow> height \<Rightarrow> node_id \<Rightarrow> validator_set \<Rightarrow> sync_action list \<times> sync_state" where
  "observe_proposal sy last_committed proposal_height peer vs =
     (if \<not> policy_is_enabled (sy_policy sy) \<or> \<not> vs_contains vs peer then ([], sy_state sy)
      else (case sy_state sy of
        SIdle observed \<Rightarrow>
          let observed' = insert peer observed in
          if proposal_height < last_committed then ([], SIdle observed')
          else if proposal_height - last_committed < interval_blocks (sy_policy sy) then ([], SIdle observed')
          else ([SendManifestRequest peer], SManifestPending peer observed')
      | SManifestPending primary observed \<Rightarrow> ([], SManifestPending primary (insert peer observed))
      | SFetching f \<Rightarrow> (case run_schedule (add_peer peer f) of (as, f') \<Rightarrow> (as, SFetching f'))
      | s \<Rightarrow> ([], s)))"

definition add_candidate :: "snapshot_sync \<Rightarrow> node_id \<Rightarrow> sync_action list \<times> sync_state" where
  "add_candidate sy peer =
     (case sy_state sy of
        SFetching f \<Rightarrow> (case run_schedule (add_peer peer f) of (as, f') \<Rightarrow> (as, SFetching f'))
      | s \<Rightarrow> ([], s))"

definition fresh_slot :: chunk_slot where
  "fresh_slot = \<lparr> cs_status = CPending, cs_tried = {}, cs_attempts = 0 \<rparr>"

definition start_fetching :: "snapshot_manifest \<Rightarrow> node_id \<Rightarrow> node_id set \<Rightarrow> fetching" where
  "start_fetching m primary observed =
     (let candidates = sorted_list_of_set (insert primary observed) in
      \<lparr> ft_manifest = m, ft_candidates = candidates, ft_in_flight = map (\<lambda>p. (p, 0)) candidates,
        ft_chunks = replicate (unat (sm_chunk_count m)) fresh_slot \<rparr>)"

definition on_manifest_response ::
  "hash_prims \<Rightarrow> commit_env \<Rightarrow> snapshot_sync \<Rightarrow> node_id \<Rightarrow> snapshot_manifest option \<Rightarrow> validator_set
     \<Rightarrow> (sync_action list \<times> sync_state) option" where
  "on_manifest_response hp ce sy from manifest vs =
     (case sy_state sy of
        SManifestPending primary observed \<Rightarrow>
          if from \<noteq> primary then Some ([], sy_state sy)
          else (case manifest of
            None \<Rightarrow> Some ([Abort PeerHasNoSnapshot], SAborted)
          | Some m \<Rightarrow>
              (case manifest_verify hp ce m vs of
                 None \<Rightarrow> None
               | Some (Inl e) \<Rightarrow> Some ([Abort (ManifestVerifyFailed e)], SAborted)
               | Some (Inr _) \<Rightarrow>
                   (case run_schedule (start_fetching m primary observed) of (as, f) \<Rightarrow> Some (as, SFetching f))))
      | s \<Rightarrow> Some ([], s))"

definition fail_slot :: "node_id \<Rightarrow> chunk_slot \<Rightarrow> chunk_slot" where
  "fail_slot peer slot =
     slot\<lparr> cs_tried := insert peer (cs_tried slot), cs_attempts := cs_attempts slot + 1, cs_status := CPending \<rparr>"

text \<open>What follows a failed chunk: abort, or schedule again.\<close>

definition after_failure :: "fetching \<Rightarrow> u32 \<Rightarrow> sync_action list \<times> sync_state" where
  "after_failure f idx =
     (case check_chunk_abort (ft_chunks f ! unat idx) idx (ft_candidates f) of
        Some reason \<Rightarrow> ([Abort reason], SAborted)
      | None \<Rightarrow> schedule_or_abort f)"

definition on_chunk_response ::
  "(bytes \<Rightarrow> hash256) \<Rightarrow> snapshot_sync \<Rightarrow> node_id \<Rightarrow> u64 \<Rightarrow> u32 \<Rightarrow> bytes option \<Rightarrow> sync_action list \<times> sync_state" where
  "on_chunk_response sha sy from h idx p =
     (case sy_state sy of
        SFetching f \<Rightarrow>
          if h \<noteq> sm_height (ft_manifest f) \<or> \<not> unat idx < length (ft_chunks f) then ([], SFetching f)
          else (let slot = ft_chunks f ! unat idx in
            if cs_status slot \<noteq> CInFlight from then ([], SFetching f)
            else (let infl = (case hm_get (ft_in_flight f) from of
                                Some c \<Rightarrow> hm_insert from (saturating_sub c 1) (ft_in_flight f)
                              | None \<Rightarrow> ft_in_flight f);
                      f1 = f\<lparr> ft_in_flight := infl \<rparr> in
              (case p of
                 Some b \<Rightarrow>
                   (case verify_chunk sha (ft_manifest f) idx b of
                      Inl _ \<Rightarrow>
                        after_failure (f1\<lparr> ft_chunks := (ft_chunks f)[unat idx := fail_slot from slot],
                          ft_candidates := filter (\<lambda>q. q \<noteq> from) (ft_candidates f),
                          ft_in_flight := hm_remove from infl \<rparr>) idx
                    | Inr _ \<Rightarrow>
                        try_finish_or_schedule
                          (f1\<lparr> ft_chunks := (ft_chunks f)[unat idx := slot\<lparr> cs_status := CReceived b \<rparr>] \<rparr>))
               | None \<Rightarrow>
                   after_failure (f1\<lparr> ft_chunks := (ft_chunks f)[unat idx := fail_slot from slot] \<rparr>) idx)))
      | s \<Rightarrow> ([], s))"

text \<open>The loop of \<open>on_peer_disconnected\<close> over the slots.\<close>

fun reset_slots :: "node_id \<Rightarrow> node_id list \<Rightarrow> nat \<Rightarrow> chunk_slot list \<Rightarrow> abort_reason + chunk_slot list" where
  "reset_slots peer candidates idx [] = Inr []"
| "reset_slots peer candidates idx (slot # slots) =
     (let slot' = (if cs_status slot = CInFlight peer then fail_slot peer slot else slot) in
      case (if cs_status slot = CInFlight peer then check_chunk_abort slot' (of_nat idx) candidates else None) of
        Some reason \<Rightarrow> Inl reason
      | None \<Rightarrow> (case reset_slots peer candidates (idx + 1) slots of Inl e \<Rightarrow> Inl e | Inr r \<Rightarrow> Inr (slot' # r)))"

definition on_peer_disconnected :: "snapshot_sync \<Rightarrow> node_id \<Rightarrow> sync_action list \<times> sync_state" where
  "on_peer_disconnected sy peer =
     (case sy_state sy of
        SManifestPending primary observed \<Rightarrow>
          if primary = peer then ([Abort CandidatesExhausted], SAborted)
          else ([], SManifestPending primary (observed - {peer}))
      | SIdle observed \<Rightarrow> ([], SIdle (observed - {peer}))
      | SFetching f \<Rightarrow>
          if peer \<notin> set (ft_candidates f) then ([], SFetching f)
          else (let candidates = filter (\<lambda>q. q \<noteq> peer) (ft_candidates f) in
            (case reset_slots peer candidates 0 (ft_chunks f) of
               Inl reason \<Rightarrow> ([Abort reason], SAborted)
             | Inr chunks \<Rightarrow>
                 schedule_or_abort (f\<lparr> ft_candidates := candidates, ft_chunks := chunks,
                   ft_in_flight := hm_remove peer (ft_in_flight f) \<rparr>)))
      | s \<Rightarrow> ([], s))"

datatype sync_event =
    ObserveProposal u64 height node_id validator_set
  | AddCandidate node_id
  | ManifestResponse node_id "snapshot_manifest option" validator_set
  | ChunkResponse node_id u64 u32 "bytes option"
  | PeerDisconnected node_id

record sync_env =
  se_hash :: hash_prims
  se_commit :: commit_env

fun sync_step :: "sync_env \<Rightarrow> snapshot_sync \<Rightarrow> sync_event \<Rightarrow> (sync_action list \<times> snapshot_sync) option" where
  "sync_step env sy ev =
     map_option (\<lambda>(as, s). (as, sy\<lparr> sy_state := s \<rparr>))
       (case ev of
          ObserveProposal lc h p vs \<Rightarrow> Some (observe_proposal sy lc h p vs)
        | AddCandidate p \<Rightarrow> Some (add_candidate sy p)
        | ManifestResponse p m vs \<Rightarrow> on_manifest_response (se_hash env) (se_commit env) sy p m vs
        | ChunkResponse p h i b \<Rightarrow> Some (on_chunk_response (sha256 (se_hash env)) sy p h i b)
        | PeerDisconnected p \<Rightarrow> Some (on_peer_disconnected sy p))"

section \<open>Invariant of a fetch\<close>

definition slots_ok :: "(bytes \<Rightarrow> hash256) \<Rightarrow> snapshot_manifest \<Rightarrow> chunk_slot list \<Rightarrow> bool" where
  "slots_ok sha m chunks \<longleftrightarrow> length chunks = unat (sm_chunk_count m)
     \<and> (\<forall>i < length chunks. \<forall>b. cs_status (chunks ! i) = CReceived b \<longrightarrow> verify_chunk sha m (of_nat i) b = Inr ())"

definition flights_ok :: "(node_id, u32) hmap \<Rightarrow> bool" where
  "flights_ok infl \<longleftrightarrow> (\<forall>e \<in> set infl. snd e \<le> PER_PEER_CHUNK_CONCURRENCY)
     \<and> sum_list (map (\<lambda>e. unat (snd e)) infl) \<le> unat MAX_CONCURRENT_CHUNK_REQUESTS"

definition fetch_ok :: "(node_id \<times> snapshot_manifest \<times> validator_set) set \<Rightarrow> sync_env \<Rightarrow> fetching \<Rightarrow> bool" where
  "fetch_ok R env f \<longleftrightarrow> (\<exists>p vs. (p, ft_manifest f, vs) \<in> R \<and> manifest_verify (se_hash env) (se_commit env) (ft_manifest f) vs = Some (Inr ()))
     \<and> slots_ok (sha256 (se_hash env)) (ft_manifest f) (ft_chunks f) \<and> flights_ok (ft_in_flight f)"

definition state_ok :: "(node_id \<times> snapshot_manifest \<times> validator_set) set \<Rightarrow> sync_env \<Rightarrow> sync_state \<Rightarrow> bool" where
  "state_ok R env s = (case s of SFetching f \<Rightarrow> fetch_ok R env f | _ \<Rightarrow> True)"

text \<open>\<open>R\<close> holds the manifests that arrived, each with its sender and with the validator set of the
  node at that moment. A restored payload is the concatenation of as many chunks as the verified manifest
  has hashes, each verified under its hash.\<close>

definition restored_ok :: "(node_id \<times> snapshot_manifest \<times> validator_set) set \<Rightarrow> sync_env \<Rightarrow> snapshot_manifest \<Rightarrow> bytes \<Rightarrow> bool" where
  "restored_ok R env m b \<longleftrightarrow> (\<exists>p vs cs. (p, m, vs) \<in> R \<and> manifest_verify (se_hash env) (se_commit env) m vs = Some (Inr ())
     \<and> length cs = length (sm_chunk_hashes m) \<and> b = assemble_chunks cs
     \<and> (\<forall>i < length cs. verify_chunk (sha256 (se_hash env)) m (of_nat i) (cs ! i) = Inr ()))"

definition actions_ok :: "(node_id \<times> snapshot_manifest \<times> validator_set) set \<Rightarrow> sync_env \<Rightarrow> sync_action list \<Rightarrow> bool" where
  "actions_ok R env as \<longleftrightarrow> (\<forall>m b. Restore m b \<in> set as \<longrightarrow> restored_ok R env m b)"

lemma actions_ok_simps [simp]:
  "actions_ok R env []" "actions_ok R env [Abort r]" "actions_ok R env [SendManifestRequest p]"
  "actions_ok R env (SendChunkRequest p h i # as) = actions_ok R env as"
  by (simp_all add: actions_ok_def)

lemma sum_update:
  "sum_list (map (\<lambda>e. unat (snd e)) (AList.update k v m)) + unat (in_flight_of m k)
     = sum_list (map (\<lambda>e. unat (snd e)) m) + unat (v :: u32)"
  by (induction m) (auto simp: in_flight_of_def)

lemma set_update: "e \<in> set (AList.update k v m) \<Longrightarrow> e = (k, v) \<or> e \<in> set m"
  by (induction m) (auto split: if_splits)

lemma in_flight_of_le: "flights_ok infl \<Longrightarrow> in_flight_of infl p \<le> PER_PEER_CHUNK_CONCURRENCY"
  by (auto simp: flights_ok_def in_flight_of_def split: option.splits dest!: map_of_SomeD)

lemma unat_total_in_flight:
  "sum_list (map (\<lambda>e. unat (snd e)) m) < 2 ^ 32 \<Longrightarrow> unat (total_in_flight m) = sum_list (map (\<lambda>e. unat (snd e)) m)"
proof (induction m)
  case (Cons e m)
  then have "unat (total_in_flight m) = sum_list (map (\<lambda>e. unat (snd e)) m)" by simp
  then show ?case using Cons.prems by (simp add: total_in_flight_def unat_word_ariths)
qed (simp add: total_in_flight_def)

lemma flights_ok_insert:
  assumes "flights_ok infl" "v \<le> PER_PEER_CHUNK_CONCURRENCY"
    "sum_list (map (\<lambda>e. unat (snd e)) infl) + unat v \<le> unat MAX_CONCURRENT_CHUNK_REQUESTS + unat (in_flight_of infl p)"
  shows "flights_ok (hm_insert p v infl)"
  using assms set_update[of _ p v infl] sum_update[of p v infl] by (fastforce simp: flights_ok_def)

lemma flights_ok_remove: "flights_ok infl \<Longrightarrow> flights_ok (hm_remove p infl)"
proof -
  assume ok: "flights_ok infl"
  have "sum_list (map (\<lambda>e. unat (snd e)) (AList.delete p infl)) \<le> sum_list (map (\<lambda>e. unat (snd e)) infl)"
    by (simp add: AList.delete_eq) (induction infl; auto)
  then show ?thesis using ok by (auto simp: flights_ok_def AList.delete_eq)
qed

lemma schedule_ok:
  assumes "schedule cands infl chunks h = (as, infl', chunks')" and "flights_ok infl"
  shows "flights_ok infl' \<and> length chunks' = length chunks \<and> actions_ok R env as
    \<and> (\<forall>i < length chunks. \<forall>b. cs_status (chunks' ! i) = CReceived b \<longrightarrow> cs_status (chunks ! i) = CReceived b)"
  using assms
proof (induction cands infl chunks h arbitrary: as infl' chunks' rule: schedule.induct)
  case (1 cands infl chunks h)
  show ?case
  proof (cases "total_in_flight infl \<ge> MAX_CONCURRENT_CHUNK_REQUESTS \<or> next_request cands infl 0 chunks = None")
    case True
    then have "as = []" "infl' = infl" "chunks' = chunks" using 1(2) by (auto simp: schedule.simps[of cands infl] split: if_splits)
    then show ?thesis using 1(3) by simp
  next
    case False
    then obtain idx p where req: "next_request cands infl 0 chunks = Some (idx, p)"
      and room: "total_in_flight infl < MAX_CONCURRENT_CHUNK_REQUESTS" by (auto simp: not_le)
    let ?infl = "hm_insert p (in_flight_of infl p + 1) infl" and ?chunks = "chunks[idx := (chunks ! idx)\<lparr> cs_status := CInFlight p \<rparr>]"
    note nr = next_request_Some[OF req]
    have small: "in_flight_of infl p < 2" using nr by (simp add: PER_PEER_CHUNK_CONCURRENCY_def)
    then have u: "unat (in_flight_of infl p + 1) = unat (in_flight_of infl p) + 1" "in_flight_of infl p + 1 \<le> 2"
      by (simp_all add: word_less_nat_alt word_le_nat_alt unat_word_ariths)
    have "sum_list (map (\<lambda>e. unat (snd e)) infl) < 4"
      using room 1(3) unat_total_in_flight[of infl]
      by (simp add: flights_ok_def MAX_CONCURRENT_CHUNK_REQUESTS_def word_less_nat_alt)
    then have ok: "flights_ok ?infl" using 1(3) u
      by (intro flights_ok_insert) (simp_all add: PER_PEER_CHUNK_CONCURRENCY_def MAX_CONCURRENT_CHUNK_REQUESTS_def)
    obtain bs r where rec: "schedule cands ?infl ?chunks h = (bs, r)" by (cases "schedule cands ?infl ?chunks h")
    obtain infl2 chunks2 where r: "r = (infl2, chunks2)" by (cases r)
    have out: "as = SendChunkRequest p h (of_nat idx) # bs" "infl' = infl2" "chunks' = chunks2"
      using 1(2) req room rec r by (auto simp: schedule.simps[of cands infl] not_le[symmetric])
    have "flights_ok infl2 \<and> length chunks2 = length ?chunks \<and> actions_ok R env bs
      \<and> (\<forall>i < length ?chunks. \<forall>b. cs_status (chunks2 ! i) = CReceived b \<longrightarrow> cs_status (?chunks ! i) = CReceived b)"
      using 1(1)[OF _ req refl, of bs infl2 chunks2] room rec r ok by (simp add: not_le)
    moreover have "cs_status (?chunks ! i) = CReceived b \<longrightarrow> cs_status (chunks ! i) = CReceived b" for i b
      by (cases "i = idx"; cases "idx < length chunks") (auto simp: not_less list_update_beyond)
    ultimately show ?thesis using out by fastforce
  qed
qed

lemma run_schedule_ok:
  assumes "fetch_ok R env f" "run_schedule f = (as, f')"
  shows "fetch_ok R env f' \<and> actions_ok R env as \<and> length (ft_chunks f') = length (ft_chunks f) \<and> ft_manifest f' = ft_manifest f"
proof -
  obtain infl chunks where s: "schedule (ft_candidates f) (ft_in_flight f) (ft_chunks f) (sm_height (ft_manifest f)) = (as, infl, chunks)"
    and f': "f' = f\<lparr> ft_in_flight := infl, ft_chunks := chunks \<rparr>"
    using assms(2) by (auto simp: run_schedule_def split: prod.splits)
  have "flights_ok (ft_in_flight f)" using assms(1) by (simp add: fetch_ok_def)
  from schedule_ok[OF s this, of R env] assms(1) show ?thesis by (auto simp: f' fetch_ok_def slots_ok_def)
qed

section \<open>Every event keeps the invariant\<close>

lemma schedule_or_abort_ok:
  "fetch_ok R env f \<Longrightarrow> schedule_or_abort f = (as, s) \<Longrightarrow> state_ok R env s \<and> actions_ok R env as"
  by (auto simp: schedule_or_abort_def state_ok_def split: prod.splits if_splits dest: run_schedule_ok)

lemma map_filter_all_Some: "\<forall>x \<in> set xs. f x \<noteq> None \<Longrightarrow> List.map_filter f xs = map (\<lambda>x. the (f x)) xs"
  by (induction xs) (auto simp: List.map_filter_def)

lemma try_finish_ok:
  assumes "fetch_ok R env f" "try_finish_or_schedule f = (as, s)"
  shows "state_ok R env s \<and> actions_ok R env as"
proof (cases "list_all (\<lambda>c. received c \<noteq> None) (ft_chunks f)")
  case False
  then show ?thesis using assms schedule_or_abort_ok by (simp add: try_finish_or_schedule_def)
next
  case True
  let ?m = "ft_manifest f" and ?cs = "map (\<lambda>c. the (received c)) (ft_chunks f)"
  obtain p vs where arr: "(p, ?m, vs) \<in> R" and vs: "manifest_verify (se_hash env) (se_commit env) ?m vs = Some (Inr ())"
    using assms(1) by (auto simp: fetch_ok_def)
  have slots: "slots_ok (sha256 (se_hash env)) ?m (ft_chunks f)" using assms(1) by (simp add: fetch_ok_def)
  have "unat (sm_chunk_count ?m) = length (sm_chunk_hashes ?m)" using vs by (rule manifest_verify_ok)
  then have len: "length ?cs = length (sm_chunk_hashes ?m)" using slots by (simp add: slots_ok_def)
  have "verify_chunk (sha256 (se_hash env)) ?m (of_nat i) (?cs ! i) = Inr ()" if i: "i < length ?cs" for i
  proof -
    have "received (ft_chunks f ! i) \<noteq> None" using True i by (simp add: list_all_length)
    then obtain b where "cs_status (ft_chunks f ! i) = CReceived b" by (auto simp: received_def split: chunk_status.splits)
    then show ?thesis using slots i by (simp add: slots_ok_def received_def)
  qed
  then have "restored_ok R env ?m (assemble_chunks ?cs)" unfolding restored_ok_def using arr vs len by blast
  moreover have "List.map_filter received (ft_chunks f) = ?cs"
    using True unfolding list_all_iff by (rule map_filter_all_Some)
  then have "as = [Restore ?m (assemble_chunks ?cs)]" "s = SDone"
    using assms(2) unfolding try_finish_or_schedule_def by (simp_all only: True) auto
  ultimately show ?thesis by (simp add: state_ok_def actions_ok_def)
qed

lemma add_peer_ok: "fetch_ok R env f \<Longrightarrow> fetch_ok R env (add_peer p f)"
proof -
  assume ok: "fetch_ok R env f"
  have "flights_ok (hm_insert p 0 (ft_in_flight f))"
    using ok by (intro flights_ok_insert) (simp_all add: fetch_ok_def flights_ok_def)
  then show ?thesis using ok by (simp add: add_peer_def fetch_ok_def)
qed

lemma after_failure_ok: "fetch_ok R env f \<Longrightarrow> after_failure f idx = (as, s) \<Longrightarrow> state_ok R env s \<and> actions_ok R env as"
  by (auto simp: after_failure_def state_ok_def[of _ _ SAborted] split: option.splits dest: schedule_or_abort_ok)

lemma slots_ok_fail: "slots_ok sha m chunks \<Longrightarrow> slots_ok sha m (chunks[i := fail_slot p x])"
  by (cases "i < length chunks") (auto simp: slots_ok_def nth_list_update fail_slot_def not_less split: if_splits)

lemma reset_slots_ok:
  "reset_slots p cands k chunks = Inr chunks' \<Longrightarrow> length chunks' = length chunks
    \<and> (\<forall>i < length chunks. \<forall>b. cs_status (chunks' ! i) = CReceived b \<longrightarrow> cs_status (chunks ! i) = CReceived b)"
proof (induction p cands k chunks arbitrary: chunks' rule: reset_slots.induct)
  case (2 p cands k slot slots)
  obtain r where r: "reset_slots p cands (k + 1) slots = Inr r"
    and c: "chunks' = (if cs_status slot = CInFlight p then fail_slot p slot else slot) # r"
    using 2(2) by (auto simp: Let_def split: option.splits sum.splits if_splits)
  have "length r = length slots \<and> (\<forall>i < length slots. \<forall>b. cs_status (r ! i) = CReceived b \<longrightarrow> cs_status (slots ! i) = CReceived b)"
    using 2(1)[OF refl _ r] 2(2) by (auto simp: Let_def split: option.splits)
  then show ?case by (auto simp: c nth_Cons fail_slot_def split: nat.splits)
qed simp

lemma start_fetching_ok:
  "(p, m, vs) \<in> R \<Longrightarrow> manifest_verify (se_hash env) (se_commit env) m vs = Some (Inr ())
    \<Longrightarrow> fetch_ok R env (start_fetching m primary obs)"
  by (auto simp: fetch_ok_def start_fetching_def Let_def slots_ok_def fresh_slot_def flights_ok_def
      PER_PEER_CHUNK_CONCURRENCY_def comp_def)

lemma chunk_response_ok:
  assumes "state_ok R env (sy_state sy)" "on_chunk_response (sha256 (se_hash env)) sy from h idx p = (as, s)"
  shows "state_ok R env s \<and> actions_ok R env as"
proof (cases "sy_state sy")
  case (SFetching f)
  have ok: "fetch_ok R env f" using assms(1) SFetching by (simp add: state_ok_def)
  let ?slot = "ft_chunks f ! unat idx"
  define infl where "infl = (case hm_get (ft_in_flight f) from of
      Some c \<Rightarrow> hm_insert from (saturating_sub c 1) (ft_in_flight f) | None \<Rightarrow> ft_in_flight f)"
  have infl: "flights_ok infl"
  proof (cases "hm_get (ft_in_flight f) from")
    case (Some c)
    have "unat (saturating_sub c 1) \<le> unat c" by (simp add: saturating_sub_def unat_sub_if' word_le_nat_alt)
    moreover have "c \<le> PER_PEER_CHUNK_CONCURRENCY" using ok Some in_flight_of_le[of "ft_in_flight f" "from"]
      by (simp add: fetch_ok_def in_flight_of_def)
    moreover have flights: "flights_ok (ft_in_flight f)" using ok by (simp add: fetch_ok_def)
    ultimately have "flights_ok (hm_insert from (saturating_sub c 1) (ft_in_flight f))" using Some
      by (intro flights_ok_insert) (simp_all add: flights_ok_def in_flight_of_def word_le_nat_alt)
    then show ?thesis using Some by (simp add: infl_def)
  qed (use ok in \<open>simp add: infl_def fetch_ok_def\<close>)
  show ?thesis
  proof (cases "h = sm_height (ft_manifest f) \<and> unat idx < length (ft_chunks f) \<and> cs_status ?slot = CInFlight from")
    case False
    then have "on_chunk_response (sha256 (se_hash env)) sy from h idx p = ([], SFetching f)"
      using SFetching unfolding on_chunk_response_def Let_def by auto
    then show ?thesis using assms(2) ok by (auto simp: state_ok_def)
  next
    case True
    show ?thesis
    proof (cases "\<exists>b. p = Some b \<and> verify_chunk (sha256 (se_hash env)) (ft_manifest f) idx b = Inr ()")
      case good: True
      then obtain b where b: "p = Some b" "verify_chunk (sha256 (se_hash env)) (ft_manifest f) idx b = Inr ()" by blast
      have "slots_ok (sha256 (se_hash env)) (ft_manifest f) ((ft_chunks f)[unat idx := ?slot\<lparr> cs_status := CReceived b \<rparr>])"
        using ok b(2) True by (auto simp: fetch_ok_def slots_ok_def nth_list_update split: if_splits)
      then have "fetch_ok R env (f\<lparr> ft_in_flight := infl, ft_chunks := (ft_chunks f)[unat idx := ?slot\<lparr> cs_status := CReceived b \<rparr>] \<rparr>)"
        using ok infl by (simp add: fetch_ok_def)
      then show ?thesis using assms(2) SFetching True b
        by (intro try_finish_ok) (auto simp: on_chunk_response_def Let_def infl_def)
    next
      case bad: False
      let ?chunks = "(ft_chunks f)[unat idx := fail_slot from ?slot]"
      have slots: "slots_ok (sha256 (se_hash env)) (ft_manifest f) ?chunks" using ok slots_ok_fail by (simp add: fetch_ok_def)
      have silent: "fetch_ok R env (f\<lparr> ft_in_flight := infl, ft_chunks := ?chunks \<rparr>)"
        using ok infl slots by (simp add: fetch_ok_def)
      have invalid: "fetch_ok R env (f\<lparr> ft_chunks := ?chunks,
          ft_candidates := filter (\<lambda>q. q \<noteq> from) (ft_candidates f), ft_in_flight := hm_remove from infl \<rparr>)"
        using ok flights_ok_remove[OF infl] slots by (simp add: fetch_ok_def)
      show ?thesis
        using assms(2) SFetching True bad after_failure_ok[OF silent, of idx as s] after_failure_ok[OF invalid, of idx as s]
        by (auto simp: on_chunk_response_def Let_def infl_def[symmetric] split: option.splits sum.splits)
    qed
  qed
qed (use assms in \<open>auto simp: on_chunk_response_def\<close>)

lemma disconnect_ok:
  assumes "state_ok R env (sy_state sy)" "on_peer_disconnected sy peer = (as, s)"
  shows "state_ok R env s \<and> actions_ok R env as"
proof (cases "sy_state sy")
  case (SFetching f)
  have ok: "fetch_ok R env f" using assms(1) SFetching by (simp add: state_ok_def)
  let ?cands = "filter (\<lambda>q. q \<noteq> peer) (ft_candidates f)"
  have "fetch_ok R env (f\<lparr> ft_candidates := ?cands, ft_chunks := chunks, ft_in_flight := hm_remove peer (ft_in_flight f) \<rparr>)"
    if "reset_slots peer ?cands 0 (ft_chunks f) = Inr chunks" for chunks
    using ok reset_slots_ok[OF that] flights_ok_remove[of "ft_in_flight f" peer]
    by (simp add: fetch_ok_def slots_ok_def)
  then show ?thesis using assms SFetching schedule_or_abort_ok
    by (auto simp: on_peer_disconnected_def Let_def state_ok_def[of _ _ SAborted] split: if_splits sum.splits)
qed (use assms in \<open>auto simp: on_peer_disconnected_def state_ok_def split: if_splits\<close>)

lemma candidate_ok:
  "fetch_ok R env f \<Longrightarrow> run_schedule (add_peer p f) = (as, f') \<Longrightarrow> fetch_ok R env f' \<and> actions_ok R env as"
  using run_schedule_ok[OF add_peer_ok] by blast

lemma observe_ok:
  assumes "state_ok R env (sy_state sy)" "observe_proposal sy lc h p vs = (as, s)"
  shows "state_ok R env s \<and> actions_ok R env as"
  using assms by (auto simp: observe_proposal_def Let_def state_ok_def
      split: if_splits sync_state.splits prod.splits dest: candidate_ok)

lemma add_candidate_ok:
  assumes "state_ok R env (sy_state sy)" "add_candidate sy p = (as, s)"
  shows "state_ok R env s \<and> actions_ok R env as"
  using assms by (auto simp: add_candidate_def state_ok_def split: sync_state.splits prod.splits dest: candidate_ok)

lemma manifest_response_ok:
  assumes "state_ok R env (sy_state sy)"
    and "on_manifest_response (se_hash env) (se_commit env) sy p m vs = Some (as, s)"
    and "\<And>m'. m = Some m' \<Longrightarrow> (p, m', vs) \<in> R"
  shows "state_ok R env s \<and> actions_ok R env as"
proof (cases "\<exists>primary obs m'. sy_state sy = SManifestPending primary obs \<and> p = primary \<and> m = Some m'
    \<and> manifest_verify (se_hash env) (se_commit env) m' vs = Some (Inr ())")
  case True
  then obtain primary obs m' where t: "sy_state sy = SManifestPending primary obs" "p = primary" "m = Some m'"
    "manifest_verify (se_hash env) (se_commit env) m' vs = Some (Inr ())" by blast
  obtain bs f where f: "run_schedule (start_fetching m' primary obs) = (bs, f)" by (metis surj_pair)
  have "as = bs" "s = SFetching f" using assms(2) t f by (auto simp: on_manifest_response_def)
  then show ?thesis using run_schedule_ok[OF start_fetching_ok[OF assms(3)[OF t(3)] t(4)] f] by (simp add: state_ok_def)
qed (use assms in \<open>auto simp: on_manifest_response_def state_ok_def split: sync_state.splits if_splits option.splits sum.splits\<close>)

text \<open>The manifests that arrive in a sequence of events, with the sets they are checked against.\<close>

definition arrived :: "sync_event list \<Rightarrow> (node_id \<times> snapshot_manifest \<times> validator_set) set" where
  "arrived es = {(p, m, vs). ManifestResponse p (Some m) vs \<in> set es}"

interpretation sync: progress "accepting (\<lambda>e. arrived [e] \<subseteq> R) (sync_step env)" "\<lambda>sy. state_ok R env (sy_state sy)"
    "\<lambda>_ as _. actions_ok R env as" for R env
proof unfold_locales
  fix s :: snapshot_sync and e as s'
  assume ok: "state_ok R env (sy_state s)" and "accepting (\<lambda>e. arrived [e] \<subseteq> R) (sync_step env) s e = Some (as, s')"
  then have step: "arrived [e] \<subseteq> R" "sync_step env s e = Some (as, s')" by (simp_all add: accepting_def split: if_splits)
  have R: "(p, m', vs) \<in> R" if "e = ManifestResponse p (Some m') vs" for p m' vs
    using step(1) that by (simp add: arrived_def)
  show "state_ok R env (sy_state s') \<and> actions_ok R env as"
    using ok step(2) R
    by (cases e) (auto split: prod.splits dest: observe_ok add_candidate_ok manifest_response_ok chunk_response_ok disconnect_ok)
qed (auto simp: actions_ok_def)

lemma arrived_mono: "e \<in> set es \<Longrightarrow> arrived [e] \<subseteq> arrived es"
  by (auto simp: arrived_def)

lemma sync_run_ok:
  assumes "run (sync_step env) (sync_new pol) es = Some (as, sy)"
  shows "state_ok (arrived es) env (sy_state sy) \<and> actions_ok (arrived es) env as"
proof -
  have "run (accepting (\<lambda>e. arrived [e] \<subseteq> arrived es) (sync_step env)) (sync_new pol) es = Some (as, sy)"
    using assms arrived_mono by (subst run_accepting) auto
  moreover have "state_ok (arrived es) env (sy_state (sync_new pol))" by (simp add: sync_new_def state_ok_def)
  ultimately show ?thesis using sync.run_prog by blast
qed

text \<open>C18: whatever peers send and in whatever order, a fetch restores only a manifest that a
  peer sent and that passed verification against the validator set the node had when it
  arrived, together with a payload made of as many chunks as the manifest has hashes,
  each verified under its hash.\<close>

theorem sync_restores_only_verified:
  assumes "run (sync_step env) (sync_new pol) es = Some (as, sy)" and "Restore m b \<in> set as"
  shows "\<exists>p vs cs. ManifestResponse p (Some m) vs \<in> set es
    \<and> manifest_verify (se_hash env) (se_commit env) m vs = Some (Inr ())
    \<and> length cs = length (sm_chunk_hashes m) \<and> b = assemble_chunks cs
    \<and> (\<forall>i < length cs. verify_chunk (sha256 (se_hash env)) m (of_nat i) (cs ! i) = Inr ())"
  using sync_run_ok[OF assms(1)] assms(2) by (simp add: actions_ok_def restored_ok_def arrived_def)

text \<open>At any moment of a fetch at most four chunk requests are counted in flight, and at
  most two to any one peer.\<close>

theorem sync_requests_bounded:
  assumes "run (sync_step env) (sync_new pol) es = Some (as, sy)" and "sy_state sy = SFetching f"
  shows "unat (total_in_flight (ft_in_flight f)) \<le> 4 \<and> unat (in_flight_of (ft_in_flight f) p) \<le> 2"
proof -
  from sync_run_ok[OF assms(1)] assms(2) have ok: "flights_ok (ft_in_flight f)"
    by (simp add: state_ok_def fetch_ok_def)
  then have sum: "sum_list (map (\<lambda>e. unat (snd e)) (ft_in_flight f)) \<le> 4"
    by (simp add: flights_ok_def MAX_CONCURRENT_CHUNK_REQUESTS_def)
  then have "unat (total_in_flight (ft_in_flight f)) \<le> 4" using unat_total_in_flight[of "ft_in_flight f"] by simp
  moreover have "unat (in_flight_of (ft_in_flight f) p) \<le> 2"
    using in_flight_of_le[OF ok, of p] by (simp add: PER_PEER_CHUNK_CONCURRENCY_def word_le_nat_alt)
  ultimately show ?thesis ..
qed

section \<open>A manifest without chunks\<close>

lemma next_request_Nil [simp]: "next_request c m k [] = None"
  by simp

lemma run_schedule_no_chunks: "ft_chunks f = [] \<Longrightarrow> run_schedule f = ([], f)"
  by (simp add: run_schedule_def schedule.simps)

lemma stalled_step:
  assumes "sy_state sy = SFetching f" "ft_chunks f = []"
  shows "\<exists>f' sy'. sync_step env sy e = Some ([], sy') \<and> sy_state sy' = SFetching f' \<and> ft_chunks f' = []"
proof -
  have add: "ft_chunks (add_peer p f) = []" for p using assms(2) by (simp add: add_peer_def)
  show ?thesis
  proof (cases e)
    case (ObserveProposal lc h p vs)
    then show ?thesis using assms add by (auto simp: observe_proposal_def run_schedule_no_chunks[OF add])
  next
    case (AddCandidate p)
    then show ?thesis using assms add by (auto simp: add_candidate_def run_schedule_no_chunks[OF add])
  next
    case (ManifestResponse p m vs)
    then show ?thesis using assms by (auto simp: on_manifest_response_def)
  next
    case (ChunkResponse p h i b)
    then show ?thesis using assms by (auto simp: on_chunk_response_def)
  next
    case (PeerDisconnected p)
    have "schedule_or_abort (f\<lparr> ft_candidates := c, ft_chunks := [], ft_in_flight := m \<rparr>)
        = ([], SFetching (f\<lparr> ft_candidates := c, ft_chunks := [], ft_in_flight := m \<rparr>))" for c m
      by (simp add: schedule_or_abort_def run_schedule_no_chunks)
    then show ?thesis using PeerDisconnected assms by (auto simp: on_peer_disconnected_def Let_def)
  qed
qed

text \<open>A fetch whose manifest has no chunks is stuck: no event, whatever it is, makes
  it restore, abort or ask for anything.\<close>

theorem fetch_without_chunks_stalls:
  assumes "sy_state sy = SFetching f" "ft_chunks f = []"
  shows "\<exists>f' sy'. run (sync_step env) sy es = Some ([], sy') \<and> sy_state sy' = SFetching f' \<and> ft_chunks f' = []"
  using assms
proof (induction es arbitrary: sy f)
  case (Cons e es)
  obtain f1 sy1 where 1: "sync_step env sy e = Some ([], sy1)" "sy_state sy1 = SFetching f1" "ft_chunks f1 = []"
    using stalled_step[OF Cons.prems] by blast
  show ?case using Cons.IH[OF 1(2,3)] 1(1) by (auto simp del: sync_step.simps)
qed simp

section \<open>Instance\<close>

definition demo_sync_env :: sync_env where
  "demo_sync_env = \<lparr> se_hash = demo_hash, se_commit = demo_commit \<rparr>"

definition demo_policy :: snapshot_policy where
  "demo_policy = \<lparr> interval_blocks = 1, retention_count = 1, chunk_size_bytes = 2 \<rparr>"

text \<open>Validator 10 proposes five blocks ahead, sends its manifest and then both chunks.\<close>

definition demo_sync_events :: "sync_event list" where
  "demo_sync_events =
     [ObserveProposal 0 5 10 (vs_new [10, 20, 30, 40]),
      ManifestResponse 10 (Some demo_manifest) (vs_new [10, 20, 30, 40]),
      ChunkResponse 10 1 0 (Some [2, 5]), ChunkResponse 10 1 1 (Some [1])]"

definition demo_slot :: "chunk_status \<Rightarrow> chunk_slot" where
  "demo_slot c = \<lparr> cs_status = c, cs_tried = {}, cs_attempts = 0 \<rparr>"

definition demo_fetching :: "u32 \<Rightarrow> chunk_status \<Rightarrow> chunk_status \<Rightarrow> fetching" where
  "demo_fetching n a b =
     \<lparr> ft_manifest = demo_manifest, ft_candidates = [10], ft_in_flight = [(10, n)],
       ft_chunks = [demo_slot a, demo_slot b] \<rparr>"

lemma demo_sync_observe:
  "observe_proposal (sync_new demo_policy) 0 5 10 (vs_new [10, 20, 30, 40])
    = ([SendManifestRequest 10], SManifestPending 10 {10})"
proof -
  have "vs_contains (vs_new [10, 20, 30, 40]) 10" using vs_new_members by (simp add: vs_contains_iff vs_new_wf)
  then show ?thesis by (simp add: observe_proposal_def sync_new_def demo_policy_def policy_is_enabled_def)
qed

lemma demo_sync_start:
  "run_schedule (start_fetching demo_manifest 10 {10})
    = ([SendChunkRequest 10 1 0, SendChunkRequest 10 1 1], demo_fetching 2 (CInFlight 10) (CInFlight 10))"
proof -
  have two: "replicate 2 x = [x, x]" for x :: chunk_slot by (simp add: numeral_2_eq_2)
  show ?thesis
    by (simp add: run_schedule_def start_fetching_def Let_def demo_manifest_def demo_fetching_def demo_slot_def
        fresh_slot_def schedule.simps total_in_flight_def MAX_CONCURRENT_CHUNK_REQUESTS_def
        PER_PEER_CHUNK_CONCURRENCY_def pick_peer_def in_flight_of_def two)
qed

lemma demo_sync_manifest:
  "on_manifest_response demo_hash demo_commit \<lparr> sy_state = SManifestPending 10 {10}, sy_policy = demo_policy \<rparr> 10
      (Some demo_manifest) (vs_new [10, 20, 30, 40])
    = Some ([SendChunkRequest 10 1 0, SendChunkRequest 10 1 1], SFetching (demo_fetching 2 (CInFlight 10) (CInFlight 10)))"
  by (simp add: on_manifest_response_def demo_manifest_ok demo_sync_start)

lemma demo_sync_chunk0:
  "on_chunk_response (sha256 demo_hash)
      \<lparr> sy_state = SFetching (demo_fetching 2 (CInFlight 10) (CInFlight 10)), sy_policy = demo_policy \<rparr> 10 1 0 (Some [2, 5])
    = ([], SFetching (demo_fetching 1 (CReceived [2, 5]) (CInFlight 10)))"
  by (simp add: on_chunk_response_def demo_fetching_def demo_slot_def demo_manifest_def verify_chunk_def demo_hash_def
      Let_def saturating_sub_def try_finish_or_schedule_def received_def schedule_or_abort_def run_schedule_def
      schedule.simps total_in_flight_def MAX_CONCURRENT_CHUNK_REQUESTS_def pick_peer_def is_in_flight_def is_pending_def)

lemma demo_sync_chunk1:
  "on_chunk_response (sha256 demo_hash)
      \<lparr> sy_state = SFetching (demo_fetching 1 (CReceived [2, 5]) (CInFlight 10)), sy_policy = demo_policy \<rparr> 10 1 1 (Some [1])
    = ([Restore demo_manifest [2, 5, 1]], SDone)"
  by (simp add: on_chunk_response_def demo_fetching_def demo_slot_def verify_chunk_def demo_hash_def
      Let_def saturating_sub_def try_finish_or_schedule_def received_def List.map_filter_def assemble_chunks_def)
    (simp add: demo_manifest_def)

lemma demo_sync_run:
  "run (sync_step demo_sync_env) (sync_new demo_policy) demo_sync_events
    = Some ([SendManifestRequest 10, SendChunkRequest 10 1 0, SendChunkRequest 10 1 1, Restore demo_manifest [2, 5, 1]],
        \<lparr> sy_state = SDone, sy_policy = demo_policy \<rparr>)"
proof -
  have 1: "sync_step demo_sync_env (sync_new demo_policy) (ObserveProposal 0 5 10 (vs_new [10, 20, 30, 40]))
      = Some ([SendManifestRequest 10], \<lparr> sy_state = SManifestPending 10 {10}, sy_policy = demo_policy \<rparr>)"
    using demo_sync_observe by (simp add: sync_new_def)
  have 2: "sync_step demo_sync_env \<lparr> sy_state = SManifestPending 10 {10}, sy_policy = demo_policy \<rparr>
        (ManifestResponse 10 (Some demo_manifest) (vs_new [10, 20, 30, 40]))
      = Some ([SendChunkRequest 10 1 0, SendChunkRequest 10 1 1],
          \<lparr> sy_state = SFetching (demo_fetching 2 (CInFlight 10) (CInFlight 10)), sy_policy = demo_policy \<rparr>)"
    using demo_sync_manifest by (simp add: demo_sync_env_def)
  have 3: "sync_step demo_sync_env
        \<lparr> sy_state = SFetching (demo_fetching 2 (CInFlight 10) (CInFlight 10)), sy_policy = demo_policy \<rparr>
        (ChunkResponse 10 1 0 (Some [2, 5]))
      = Some ([], \<lparr> sy_state = SFetching (demo_fetching 1 (CReceived [2, 5]) (CInFlight 10)), sy_policy = demo_policy \<rparr>)"
    using demo_sync_chunk0 by (simp add: demo_sync_env_def)
  have 4: "sync_step demo_sync_env
        \<lparr> sy_state = SFetching (demo_fetching 1 (CReceived [2, 5]) (CInFlight 10)), sy_policy = demo_policy \<rparr>
        (ChunkResponse 10 1 1 (Some [1]))
      = Some ([Restore demo_manifest [2, 5, 1]], \<lparr> sy_state = SDone, sy_policy = demo_policy \<rparr>)"
    using demo_sync_chunk1 by (simp add: demo_sync_env_def)
  show ?thesis unfolding demo_sync_events_def using 1 2 3 4 by (simp del: sync_step.simps)
qed

theorem sync_restores_only_verified_witness:
  "\<exists>p vs cs. ManifestResponse p (Some demo_manifest) vs \<in> set demo_sync_events
    \<and> manifest_verify demo_hash demo_commit demo_manifest vs = Some (Inr ())
    \<and> length cs = length (sm_chunk_hashes demo_manifest) \<and> [2, 5, 1] = assemble_chunks cs"
  using sync_restores_only_verified[OF demo_sync_run, of demo_manifest "[2, 5, 1]"] by (simp add: demo_sync_env_def) blast

text \<open>After the manifest, two requests are in flight.\<close>

theorem sync_requests_bounded_witness:
  "\<exists>as sy f. run (sync_step demo_sync_env) (sync_new demo_policy) (take 2 demo_sync_events) = Some (as, sy)
    \<and> sy_state sy = SFetching f \<and> unat (in_flight_of (ft_in_flight f) 10) \<le> 2"
proof -
  have r: "run (sync_step demo_sync_env) (sync_new demo_policy) (take 2 demo_sync_events)
      = Some ([SendManifestRequest 10, SendChunkRequest 10 1 0, SendChunkRequest 10 1 1],
          \<lparr> sy_state = SFetching (demo_fetching 2 (CInFlight 10) (CInFlight 10)), sy_policy = demo_policy \<rparr>)"
    using demo_sync_observe demo_sync_manifest by (simp add: demo_sync_events_def demo_sync_env_def sync_new_def)
  show ?thesis using r sync_requests_bounded[OF r, of _ 10] by simp
qed

text \<open>A manifest without chunks is accepted, and a fetch of it is stuck.\<close>

theorem fetch_without_chunks_stalls_witness:
  "manifest_verify demo_hash demo_commit (demo_manifest\<lparr> sm_chunk_count := 0, sm_chunk_hashes := [] \<rparr>)
      (vs_new [10, 20, 30, 40]) = Some (Inr ())
   \<and> (\<exists>f' sy'. run (sync_step demo_sync_env)
        \<lparr> sy_state = SFetching (start_fetching (demo_manifest\<lparr> sm_chunk_count := 0, sm_chunk_hashes := [] \<rparr>) 10 {}),
          sy_policy = demo_policy \<rparr> [PeerDisconnected 10, ChunkResponse 10 1 0 None] = Some ([], sy')
      \<and> sy_state sy' = SFetching f')"
proof -
  let ?m = "demo_manifest\<lparr> sm_chunk_count := 0, sm_chunk_hashes := [] \<rparr>"
  have "manifest_histories ?m = manifest_histories demo_manifest"
    by (simp add: manifest_histories_def cong: sum.case_cong option.case_cong)
  then have v: "manifest_verify demo_hash demo_commit ?m (vs_new [10, 20, 30, 40]) = Some (Inr ())"
    using demo_manifest_ok by (auto elim!: manifest_verify_ok intro!: manifest_verifyI)
  show ?thesis using v fetch_without_chunks_stalls[of "\<lparr> sy_state = SFetching (start_fetching ?m 10 {}), sy_policy = demo_policy \<rparr>"
        "start_fetching ?m 10 {}" demo_sync_env "[PeerDisconnected 10, ChunkResponse 10 1 0 None]"]
    by (auto simp: start_fetching_def Let_def)
qed

end
