(* ===== verification/Dispatch.thy ===== *)
theory Dispatch
  imports Snapshot Hotstuff_Quorum Pacemaker
begin

text \<open>
  The boundary between the wire and the node (\<open>dispatch/*.rs\<close>, \<open>wire.rs\<close>,
  \<open>hotstuff/step/types.rs\<close>): the messages, their verification on the way in and
  their signing on the way out. A fallible operation returns \<open>(error + result) option\<close>,
  where \<open>None\<close> is a panic. The codecs, the Ed25519 check and the
  pairing library are third-party code and fields of the environment.
\<close>

section \<open>Fallible computations that may panic\<close>

type_synonym ('e, 'a) outcome = "('e + 'a) option"

text \<open>The operator \<open>?\<close> of the sources.\<close>

fun and_then :: "('e, 'a) outcome \<Rightarrow> ('a \<Rightarrow> ('e, 'b) outcome) \<Rightarrow> ('e, 'b) outcome" where
  "and_then None f = None"
| "and_then (Some (Inl e)) f = Some (Inl e)"
| "and_then (Some (Inr x)) f = f x"

text \<open>\<open>Result::map_err\<close>.\<close>

fun map_err :: "('e \<Rightarrow> 'f) \<Rightarrow> 'e + 'a \<Rightarrow> 'f + 'a" where
  "map_err f (Inl e) = Inl (f e)"
| "map_err f (Inr x) = Inr x"

lemma and_then_ok: "and_then r f = Some (Inr y) \<longleftrightarrow> (\<exists>x. r = Some (Inr x) \<and> f x = Some (Inr y))"
  by (cases r; cases "the r") auto

lemma and_then_total: "and_then r f \<noteq> None \<longleftrightarrow> r \<noteq> None \<and> (\<forall>x. r = Some (Inr x) \<longrightarrow> f x \<noteq> None)"
  by (cases r; cases "the r") auto

lemma map_err_ok [simp]: "map_err f r = Inr x \<longleftrightarrow> r = Inr x"
  by (cases r) auto

section \<open>Wire messages\<close>

record block_response_payload =
  br_requested_hash :: hash256
  br_block :: "block option"

record block_range_response_payload =
  brr_from_height :: height
  brr_to_height :: height
  brr_blocks :: "block list"

datatype equivocation_proof =
    DoubleVote "vote signed" "vote signed"
  | DoubleProposal "proposal signed" "proposal signed"

datatype wire_message =
    WireProposal "proposal signed"
  | WireVote "vote signed" "bls_sig option"
  | WireNewView "new_view signed"
  | WireTimeoutVote "timeout_vote signed"
  | WireBlockRequest hash256
  | WireBlockResponse "block_response_payload signed"
  | WireSnapshotManifestRequest "u64 option"
  | WireSnapshotManifestResponse "snapshot_manifest option"
  | WireSnapshotChunkRequest u64 u32
  | WireSnapshotChunkResponse u64 u32 "bytes option"
  | WireBlockRangeRequest height height
  | WireBlockRangeResponse "block_range_response_payload signed"
  | WireEquivocationEvidence equivocation_proof
  | WireStatus height

definition BLOCK_RANGE_RESPONSE_MAX_BLOCKS :: nat where
  "BLOCK_RANGE_RESPONSE_MAX_BLOCKS = 64"

datatype dispatch =
    DispatchSafety event
  | DispatchPacemaker pm_event
  | ServeBlock hash256 node_id
  | PeerStatus node_id height
  | ReceiveBlock hash256 "block option" node_id
  | DispatchTimeoutVote "timeout_vote signed" bool
  | ServeSnapshotManifest "u64 option" node_id
  | ReceiveSnapshotManifest "snapshot_manifest option" node_id
  | ServeSnapshotChunk height u32 node_id
  | ReceiveSnapshotChunk height u32 "bytes option" node_id
  | ServeBlockRange height height node_id
  | ReceiveBlockRange height height "block list" node_id
  | ReceiveEquivocationEvidence equivocation_proof validator_id

datatype outbound = OutBroadcast bytes | OutSendTo node_id bytes

datatype equivocation_error =
    DifferentViews | NotConflicting | InvalidEquivocationSignature | BadSigner | DifferentValidators

text \<open>The payloads of \<open>Decode\<close> and \<open>InvalidSignature\<close> are library errors for logging.\<close>

datatype ingress_error =
    DecodeFailed
  | UnknownSigner node_id
  | InvalidSignature signed_error
  | MalformedHighQc view
  | InvalidQcAggregate view
  | InvalidBlsPartial view node_id
  | InvalidValidatorHistoryCommitment view height hash256 hash256
  | InvalidEquivocationEvidence equivocation_error

record qc_verification =
  qv_bls_key_history :: "bls_key_history option"
  qv_operator_key_history :: "operator_key_history option"
  qv_min_v_eff_delay :: view
  qv_genesis_hash :: hash256

text \<open>The third-party code: hash, pairing library, Ed25519 and the message codecs.\<close>

record ('g1, 'g2) wire_env =
  we_hash :: hash_prims
  we_bls :: "('g1, 'g2) bls_prims"
  we_ed :: "node_id \<Rightarrow> bytes \<Rightarrow> 512 word \<Rightarrow> bool"
  we_pc_proposal :: "proposal \<Rightarrow> bytes option"
  we_pc_vote :: "vote \<Rightarrow> bytes option"
  we_pc_new_view :: "new_view \<Rightarrow> bytes option"
  we_pc_timeout :: "timeout_vote \<Rightarrow> bytes option"
  we_pc_block_response :: "block_response_payload \<Rightarrow> bytes option"
  we_pc_block_range :: "block_range_response_payload \<Rightarrow> bytes option"
  we_decode :: "bytes \<Rightarrow> wire_message option"
  we_encode :: "wire_message \<Rightarrow> bytes option"
  we_reconfig :: "('g1, 'g2) reconfig_env"
  we_rotation :: "('g1, 'g2) rotation_env"
  we_commit :: commit_env

section \<open>Signing domains\<close>

definition DOMAIN_PROPOSAL :: bytes where
  "DOMAIN_PROPOSAL = ascii ''boule.hotstuff.proposal.v1''"

definition DOMAIN_VOTE :: bytes where
  "DOMAIN_VOTE = ascii ''boule.hotstuff.vote.v1''"

definition DOMAIN_NEW_VIEW :: bytes where
  "DOMAIN_NEW_VIEW = ascii ''boule.hotstuff.newview.v1''"

definition DOMAIN_TIMEOUT :: bytes where
  "DOMAIN_TIMEOUT = ascii ''boule.hotstuff.timeout.v1''"

definition DOMAIN_BLOCK_RESPONSE :: bytes where
  "DOMAIN_BLOCK_RESPONSE = ascii ''boule.consensus.block_response.v1''"

definition DOMAIN_BLOCK_RANGE_RESPONSE :: bytes where
  "DOMAIN_BLOCK_RANGE_RESPONSE = ascii ''boule.consensus.block_range_response.v1''"

definition vote_preimage :: "('g1, 'g2) wire_env \<Rightarrow> view \<Rightarrow> hash256 \<Rightarrow> chain_id \<Rightarrow> signed_error + bytes" where
  "vote_preimage env v h c = preimage DOMAIN_VOTE (we_pc_vote env) \<lparr> v_view = v, v_block_hash = h \<rparr> c"

section \<open>Envelopes\<close>

definition verify_signer_at ::
  "node_id \<Rightarrow> view \<Rightarrow> validator_set_history \<Rightarrow> validator_key_history \<Rightarrow> (ingress_error, validator_id) outcome" where
  "verify_signer_at s v sh kh =
     (case validator_for kh s of
        None \<Rightarrow> Some (Inl (UnknownSigner s))
      | Some stable_id \<Rightarrow>
          (case set_at sh v of
             None \<Rightarrow> None
           | Some a \<Rightarrow>
               if index_of (for_view a v) stable_id = None then Some (Inl (UnknownSigner s))
               else (case kh_key_at kh stable_id v of
                       None \<Rightarrow> None
                     | Some active \<Rightarrow>
                         if active \<noteq> s then Some (Inl (UnknownSigner s)) else Some (Inr stable_id))))"

definition verify_sig ::
  "('g1, 'g2) wire_env \<Rightarrow> bytes \<Rightarrow> ('a \<Rightarrow> bytes option) \<Rightarrow> 'a signed \<Rightarrow> chain_id \<Rightarrow> ingress_error + unit" where
  "verify_sig env domain pc s c = map_err InvalidSignature (signed_verify (we_ed env) domain pc s (signer s) c)"

section \<open>Certificates\<close>

definition verify_qc_if_requested ::
  "('g1, 'g2) wire_env \<Rightarrow> quorum_certificate \<Rightarrow> validator_set_history \<Rightarrow> qc_verification \<Rightarrow> chain_id
     \<Rightarrow> (ingress_error, unit) outcome" where
  "verify_qc_if_requested env qc sh qv c =
     (if qc_view qc = 0 \<and> qc_block_hash qc \<noteq> qv_genesis_hash qv then Some (Inl (InvalidQcAggregate 0))
      else if qc_view qc = 0 \<or> signer_count qc = 0 then Some (Inr ())
      else (case set_at sh (qc_view qc) of
        None \<Rightarrow> None
      | Some a \<Rightarrow>
          (case vote_preimage env (qc_view qc) (qc_block_hash qc) c of
             Inl _ \<Rightarrow> Some (Inl (InvalidQcAggregate (qc_view qc)))
           | Inr bs \<Rightarrow>
          (case qv_bls_key_history qv of
             None \<Rightarrow> Some (Inl (InvalidQcAggregate (qc_view qc)))
           | Some bls \<Rightarrow>
          (case pubkeys_for_set bls (for_view a (qc_view qc)) (qc_view qc) of
             Inl _ \<Rightarrow> Some (Inl (InvalidQcAggregate (qc_view qc)))
           | Inr pks \<Rightarrow>
               Some (map_err (\<lambda>_. InvalidQcAggregate (qc_view qc)) (verify_aggregate_bls (we_bls env) qc bs pks)))))))"

definition verify_high_qc_piggyback ::
  "('g1, 'g2) wire_env \<Rightarrow> quorum_certificate option \<Rightarrow> validator_set_history \<Rightarrow> qc_verification \<Rightarrow> chain_id
     \<Rightarrow> bool option" where
  "verify_high_qc_piggyback env hq sh qv c =
     (case hq of
        None \<Rightarrow> Some True
      | Some qc \<Rightarrow>
          (case set_at sh (qc_view qc) of
             None \<Rightarrow> None
           | Some a \<Rightarrow>
               if \<not> qc_is_well_formed qc (for_view a (qc_view qc)) then Some False
               else map_option (\<lambda>r. case r of Inl _ \<Rightarrow> False | Inr _ \<Rightarrow> True) (verify_qc_if_requested env qc sh qv c)))"

definition verify_bls_partial_if_required ::
  "('g1, 'g2) wire_env \<Rightarrow> vote signed \<Rightarrow> bls_sig option \<Rightarrow> qc_verification \<Rightarrow> chain_id \<Rightarrow> ingress_error + unit" where
  "verify_bls_partial_if_required env s partial qv c =
     (let bad = Inl (InvalidBlsPartial (v_view (payload s)) (signer s)) in
      case partial of
        None \<Rightarrow> bad
      | Some p \<Rightarrow>
          (case qv_bls_key_history qv of
             None \<Rightarrow> bad
           | Some bls \<Rightarrow>
               (case bkh_key_at bls (signer s) (v_view (payload s)) of
                  None \<Rightarrow> bad
                | Some pk \<Rightarrow>
                    (case vote_preimage env (v_view (payload s)) (v_block_hash (payload s)) c of
                       Inl _ \<Rightarrow> bad
                     | Inr bs \<Rightarrow>
                         (case verify_partial (we_bls env) pk bs p of Inl _ \<Rightarrow> bad | Inr _ \<Rightarrow> Inr ())))))"

definition verify_proposal_history_commitment ::
  "('g1, 'g2) wire_env \<Rightarrow> block \<Rightarrow> validator_set_history \<Rightarrow> validator_key_history \<Rightarrow> qc_verification \<Rightarrow> chain_id
     \<Rightarrow> (ingress_error, unit) outcome" where
  "verify_proposal_history_commitment env b sh kh qv c =
     (case compute_post_block_commitment (we_reconfig env) (we_rotation env) (we_commit env) b
             \<lparr> hs_set = sh, hs_key = kh, hs_operator = qv_operator_key_history qv, hs_bls = qv_bls_key_history qv \<rparr>
             c (qv_min_v_eff_delay qv) of
        None \<Rightarrow> None
      | Some actual \<Rightarrow>
          if actual \<noteq> validator_history_commitment (header b)
          then Some (Inl (InvalidValidatorHistoryCommitment (hdr_view (header b)) (hdr_height (header b))
                       (validator_history_commitment (header b)) actual))
          else Some (Inr ()))"

section \<open>Equivocation proofs\<close>

definition proof_view :: "equivocation_proof \<Rightarrow> view" where
  "proof_view p = (case p of
      DoubleVote a _ \<Rightarrow> v_view (payload a)
    | DoubleProposal a _ \<Rightarrow> hdr_view (header (p_block (payload a))))"

definition verify_conflicting_pair ::
  "('g1, 'g2) wire_env \<Rightarrow> bytes \<Rightarrow> ('a \<Rightarrow> bytes option) \<Rightarrow> 'a signed \<Rightarrow> 'a signed \<Rightarrow> view \<Rightarrow> view \<Rightarrow> hash256 \<Rightarrow> hash256
     \<Rightarrow> validator_set_history \<Rightarrow> validator_key_history \<Rightarrow> chain_id \<Rightarrow> (equivocation_error, validator_id) outcome" where
  "verify_conflicting_pair env domain pc a b view_a view_b block_a block_b sh kh c =
     (if view_a \<noteq> view_b then Some (Inl DifferentViews)
      else if block_a = block_b then Some (Inl NotConflicting)
      else
        and_then (Some (map_err (\<lambda>_. InvalidEquivocationSignature) (verify_sig env domain pc a c))) (\<lambda>_.
        and_then (Some (map_err (\<lambda>_. InvalidEquivocationSignature) (verify_sig env domain pc b c))) (\<lambda>_.
        and_then (map_option (map_err (\<lambda>_. BadSigner)) (verify_signer_at (signer a) view_a sh kh)) (\<lambda>id_a.
        and_then (map_option (map_err (\<lambda>_. BadSigner)) (verify_signer_at (signer b) view_b sh kh)) (\<lambda>id_b.
          if id_a \<noteq> id_b then Some (Inl DifferentValidators) else Some (Inr id_a))))))"

definition verify_equivocation_proof ::
  "('g1, 'g2) wire_env \<Rightarrow> equivocation_proof \<Rightarrow> validator_set_history \<Rightarrow> validator_key_history \<Rightarrow> chain_id
     \<Rightarrow> (equivocation_error, validator_id) outcome" where
  "verify_equivocation_proof env p sh kh c =
     (case p of
        DoubleVote a b \<Rightarrow>
          verify_conflicting_pair env DOMAIN_VOTE (we_pc_vote env) a b (v_view (payload a)) (v_view (payload b))
            (v_block_hash (payload a)) (v_block_hash (payload b)) sh kh c
      | DoubleProposal a b \<Rightarrow>
          verify_conflicting_pair env DOMAIN_PROPOSAL (we_pc_proposal env) a b
            (hdr_view (header (p_block (payload a)))) (hdr_view (header (p_block (payload b))))
            (block_hash_of (we_hash env) (p_block (payload a))) (block_hash_of (we_hash env) (p_block (payload b)))
            sh kh c)"

section \<open>Ingress\<close>

text \<open>\<open>VoteVariant::from_optional_partial\<close>.\<close>

definition from_optional_partial :: "vote signed verified \<Rightarrow> bls_sig option \<Rightarrow> vote_variant option" where
  "from_optional_partial s partial = map_option (\<lambda>p. \<lparr> vv_signed = s, vv_partial = p \<rparr>) partial"

definition ingress_proposal ::
  "('g1, 'g2) wire_env \<Rightarrow> proposal signed \<Rightarrow> validator_set_history \<Rightarrow> validator_key_history \<Rightarrow> qc_verification
     \<Rightarrow> chain_id \<Rightarrow> (ingress_error, dispatch list) outcome" where
  "ingress_proposal env s sh kh qv c =
     (let v = hdr_view (header (p_block (payload s))); justify_view = qc_view (p_justify (payload s)) in
      and_then (verify_signer_at (signer s) v sh kh) (\<lambda>signer_id.
      and_then (Some (verify_sig env DOMAIN_PROPOSAL (we_pc_proposal env) s c)) (\<lambda>_.
      and_then (verify_qc_if_requested env (p_justify (payload s)) sh qv c) (\<lambda>_.
      and_then (verify_proposal_history_commitment env (p_block (payload s)) sh kh qv c) (\<lambda>_.
        Some (Inr [DispatchSafety (ProposalReceived \<lparr> vrf_value = s, vrf_signer = signer_id \<rparr>),
                   DispatchPacemaker (OnProposalReceived v),
                   DispatchPacemaker (OnQc justify_view)]))))))"

definition ingress_vote ::
  "('g1, 'g2) wire_env \<Rightarrow> vote signed \<Rightarrow> bls_sig option \<Rightarrow> validator_set_history \<Rightarrow> validator_key_history
     \<Rightarrow> qc_verification \<Rightarrow> chain_id \<Rightarrow> (ingress_error, dispatch list) outcome" where
  "ingress_vote env s partial sh kh qv c =
     and_then (verify_signer_at (signer s) (v_view (payload s)) sh kh) (\<lambda>signer_id.
     and_then (Some (verify_sig env DOMAIN_VOTE (we_pc_vote env) s c)) (\<lambda>_.
     and_then (Some (verify_bls_partial_if_required env s partial qv c)) (\<lambda>_.
       (case from_optional_partial \<lparr> vrf_value = s, vrf_signer = signer_id \<rparr> partial of
          None \<Rightarrow> None
        | Some vv \<Rightarrow> Some (Inr [DispatchSafety (VoteReceived vv)])))))"

definition ingress_new_view ::
  "('g1, 'g2) wire_env \<Rightarrow> new_view signed \<Rightarrow> validator_set_history \<Rightarrow> validator_key_history \<Rightarrow> qc_verification
     \<Rightarrow> chain_id \<Rightarrow> (ingress_error, dispatch list) outcome" where
  "ingress_new_view env s sh kh qv c =
     (let qc = nv_high_qc (payload s); v = qc_view qc in
      and_then (verify_signer_at (signer s) v sh kh) (\<lambda>signer_id.
      and_then (Some (verify_sig env DOMAIN_NEW_VIEW (we_pc_new_view env) s c)) (\<lambda>_.
      (case set_at sh v of
         None \<Rightarrow> None
       | Some a \<Rightarrow>
           if \<not> qc_is_well_formed qc (for_view a v) then Some (Inl (MalformedHighQc v))
           else
             and_then (verify_qc_if_requested env qc sh qv c) (\<lambda>_.
               Some (Inr [DispatchSafety (NewViewReceived \<lparr> vrf_value = s, vrf_signer = signer_id \<rparr>),
                          DispatchPacemaker (OnQc v)]))))))"

definition ingress_timeout_vote ::
  "('g1, 'g2) wire_env \<Rightarrow> timeout_vote signed \<Rightarrow> validator_set_history \<Rightarrow> validator_key_history \<Rightarrow> qc_verification
     \<Rightarrow> chain_id \<Rightarrow> (ingress_error, dispatch list) outcome" where
  "ingress_timeout_vote env s sh kh qv c =
     and_then (verify_signer_at (signer s) (tv_view (payload s)) sh kh) (\<lambda>_.
     and_then (Some (verify_sig env DOMAIN_TIMEOUT (we_pc_timeout env) s c)) (\<lambda>_.
       (case verify_high_qc_piggyback env (tv_high_qc (payload s)) sh qv c of
          None \<Rightarrow> None
        | Some trusted \<Rightarrow> Some (Inr [DispatchTimeoutVote s trusted]))))"

definition ingress_block_response ::
  "('g1, 'g2) wire_env \<Rightarrow> block_response_payload signed \<Rightarrow> node_id \<Rightarrow> chain_id \<Rightarrow> (ingress_error, dispatch list) outcome" where
  "ingress_block_response env s from c =
     and_then (Some (verify_sig env DOMAIN_BLOCK_RESPONSE (we_pc_block_response env) s c)) (\<lambda>_.
       Some (Inr [ReceiveBlock (br_requested_hash (payload s)) (br_block (payload s)) from]))"

definition ingress_block_range_response ::
  "('g1, 'g2) wire_env \<Rightarrow> block_range_response_payload signed \<Rightarrow> node_id \<Rightarrow> chain_id
     \<Rightarrow> (ingress_error, dispatch list) outcome" where
  "ingress_block_range_response env s from c =
     and_then (Some (verify_sig env DOMAIN_BLOCK_RANGE_RESPONSE (we_pc_block_range env) s c)) (\<lambda>_.
       Some (Inr [ReceiveBlockRange (brr_from_height (payload s)) (brr_to_height (payload s)) (brr_blocks (payload s)) from]))"

definition ingress_equivocation_evidence ::
  "('g1, 'g2) wire_env \<Rightarrow> equivocation_proof \<Rightarrow> validator_set_history \<Rightarrow> validator_key_history \<Rightarrow> chain_id
     \<Rightarrow> (ingress_error, dispatch list) outcome" where
  "ingress_equivocation_evidence env p sh kh c =
     (case verify_equivocation_proof env p sh kh c of
        None \<Rightarrow> None
      | Some (Inr i) \<Rightarrow> Some (Inr [ReceiveEquivocationEvidence p i])
      | Some (Inl e) \<Rightarrow> Some (Inl (InvalidEquivocationEvidence e)))"

definition ingress_wire_with_qc_verification ::
  "('g1, 'g2) wire_env \<Rightarrow> node_id \<Rightarrow> wire_message \<Rightarrow> validator_set_history \<Rightarrow> validator_key_history \<Rightarrow> qc_verification
     \<Rightarrow> chain_id \<Rightarrow> (ingress_error, dispatch list) outcome" where
  "ingress_wire_with_qc_verification env from msg sh kh qv c =
     (case msg of
        WireProposal s \<Rightarrow> ingress_proposal env s sh kh qv c
      | WireVote s partial \<Rightarrow> ingress_vote env s partial sh kh qv c
      | WireNewView s \<Rightarrow> ingress_new_view env s sh kh qv c
      | WireTimeoutVote s \<Rightarrow> ingress_timeout_vote env s sh kh qv c
      | WireStatus h \<Rightarrow> Some (Inr [PeerStatus from h])
      | WireBlockRequest h \<Rightarrow> Some (Inr [ServeBlock h from])
      | WireBlockResponse s \<Rightarrow> ingress_block_response env s from c
      | WireSnapshotManifestRequest h \<Rightarrow> Some (Inr [ServeSnapshotManifest h from])
      | WireSnapshotManifestResponse m \<Rightarrow> Some (Inr [ReceiveSnapshotManifest m from])
      | WireSnapshotChunkRequest h i \<Rightarrow> Some (Inr [ServeSnapshotChunk h i from])
      | WireSnapshotChunkResponse h i p \<Rightarrow> Some (Inr [ReceiveSnapshotChunk h i p from])
      | WireBlockRangeRequest a b \<Rightarrow> Some (Inr [ServeBlockRange a b from])
      | WireBlockRangeResponse s \<Rightarrow> ingress_block_range_response env s from c
      | WireEquivocationEvidence p \<Rightarrow> ingress_equivocation_evidence env p sh kh c)"

definition ingress_with_qc_verification ::
  "('g1, 'g2) wire_env \<Rightarrow> node_id \<Rightarrow> bytes \<Rightarrow> validator_set_history \<Rightarrow> validator_key_history \<Rightarrow> qc_verification
     \<Rightarrow> chain_id \<Rightarrow> (ingress_error, dispatch list) outcome" where
  "ingress_with_qc_verification env from bs sh kh qv c =
     (case we_decode env bs of
        None \<Rightarrow> Some (Inl DecodeFailed)
      | Some msg \<Rightarrow> ingress_wire_with_qc_verification env from msg sh kh qv c)"

section \<open>Egress\<close>

text \<open>The keys of a node: its id, its Ed25519 signing function and its BLS signing
  function, when it has one.\<close>

record node_keys =
  nk_id :: node_id
  nk_sign :: "bytes \<Rightarrow> 512 word"
  nk_bls_sign :: "(bytes \<Rightarrow> bls_sig) option"

datatype egress_error = EgressSign signed_error | EgressEncode

definition sign_consensus_msg ::
  "('g1, 'g2) wire_env \<Rightarrow> consensus_msg \<Rightarrow> node_keys \<Rightarrow> chain_id \<Rightarrow> egress_error + wire_message" where
  "sign_consensus_msg env msg nk c =
     (case msg of
        ProposalMsg p \<Rightarrow>
          (case signed_sign DOMAIN_PROPOSAL (we_pc_proposal env) p (nk_id nk) (nk_sign nk) c of
             Inl e \<Rightarrow> Inl (EgressSign e)
           | Inr s \<Rightarrow> Inr (WireProposal s))
      | VoteMsg v \<Rightarrow>
          (case signed_sign DOMAIN_VOTE (we_pc_vote env) v (nk_id nk) (nk_sign nk) c of
             Inl e \<Rightarrow> Inl (EgressSign e)
           | Inr s \<Rightarrow>
               (case nk_bls_sign nk of
                  None \<Rightarrow> Inr (WireVote s None)
                | Some bls \<Rightarrow>
                    (case preimage DOMAIN_VOTE (we_pc_vote env) v c of
                       Inl e \<Rightarrow> Inl (EgressSign e)
                     | Inr bs \<Rightarrow> Inr (WireVote s (Some (bls bs))))))
      | NewViewMsg nv \<Rightarrow>
          (case signed_sign DOMAIN_NEW_VIEW (we_pc_new_view env) nv (nk_id nk) (nk_sign nk) c of
             Inl e \<Rightarrow> Inl (EgressSign e)
           | Inr s \<Rightarrow> Inr (WireNewView s)))"

text \<open>The messages whose encoding the sources expect to succeed: \<open>None\<close> is the panic.\<close>

definition expect_send :: "('g1, 'g2) wire_env \<Rightarrow> node_id \<Rightarrow> wire_message \<Rightarrow> outbound option" where
  "expect_send env to msg = map_option (OutSendTo to) (we_encode env msg)"

definition egress_block_request :: "('g1, 'g2) wire_env \<Rightarrow> hash256 \<Rightarrow> node_id \<Rightarrow> outbound option" where
  "egress_block_request env h to = expect_send env to (WireBlockRequest h)"

definition egress_equivocation_evidence :: "('g1, 'g2) wire_env \<Rightarrow> equivocation_proof \<Rightarrow> outbound option" where
  "egress_equivocation_evidence env p = map_option OutBroadcast (we_encode env (WireEquivocationEvidence p))"

definition egress_status :: "('g1, 'g2) wire_env \<Rightarrow> height \<Rightarrow> outbound option" where
  "egress_status env h = map_option OutBroadcast (we_encode env (WireStatus h))"

definition egress_block_range_request :: "('g1, 'g2) wire_env \<Rightarrow> height \<Rightarrow> height \<Rightarrow> node_id \<Rightarrow> outbound option" where
  "egress_block_range_request env a b to = expect_send env to (WireBlockRangeRequest a b)"

definition egress_snapshot_manifest_request :: "('g1, 'g2) wire_env \<Rightarrow> u64 option \<Rightarrow> node_id \<Rightarrow> outbound option" where
  "egress_snapshot_manifest_request env h to = expect_send env to (WireSnapshotManifestRequest h)"

definition egress_snapshot_manifest_response ::
  "('g1, 'g2) wire_env \<Rightarrow> snapshot_manifest option \<Rightarrow> node_id \<Rightarrow> outbound option" where
  "egress_snapshot_manifest_response env m to = expect_send env to (WireSnapshotManifestResponse m)"

definition egress_snapshot_chunk_request :: "('g1, 'g2) wire_env \<Rightarrow> u64 \<Rightarrow> u32 \<Rightarrow> node_id \<Rightarrow> outbound option" where
  "egress_snapshot_chunk_request env h i to = expect_send env to (WireSnapshotChunkRequest h i)"

definition egress_snapshot_chunk_response ::
  "('g1, 'g2) wire_env \<Rightarrow> u64 \<Rightarrow> u32 \<Rightarrow> bytes option \<Rightarrow> node_id \<Rightarrow> outbound option" where
  "egress_snapshot_chunk_response env h i p to = expect_send env to (WireSnapshotChunkResponse h i p)"

definition encode_to :: "('g1, 'g2) wire_env \<Rightarrow> node_id \<Rightarrow> wire_message \<Rightarrow> egress_error + outbound" where
  "encode_to env to msg = (case we_encode env msg of None \<Rightarrow> Inl EgressEncode | Some bs \<Rightarrow> Inr (OutSendTo to bs))"

definition egress_block_response ::
  "('g1, 'g2) wire_env \<Rightarrow> hash256 \<Rightarrow> block option \<Rightarrow> node_id \<Rightarrow> node_keys \<Rightarrow> chain_id \<Rightarrow> egress_error + outbound" where
  "egress_block_response env h b to nk c =
     (case signed_sign DOMAIN_BLOCK_RESPONSE (we_pc_block_response env)
             \<lparr> br_requested_hash = h, br_block = b \<rparr> (nk_id nk) (nk_sign nk) c of
        Inl e \<Rightarrow> Inl (EgressSign e)
      | Inr s \<Rightarrow> encode_to env to (WireBlockResponse s))"

definition egress_block_range_response ::
  "('g1, 'g2) wire_env \<Rightarrow> height \<Rightarrow> height \<Rightarrow> block list \<Rightarrow> node_id \<Rightarrow> node_keys \<Rightarrow> chain_id \<Rightarrow> egress_error + outbound" where
  "egress_block_range_response env a b bs to nk c =
     (case signed_sign DOMAIN_BLOCK_RANGE_RESPONSE (we_pc_block_range env)
             \<lparr> brr_from_height = a, brr_to_height = b, brr_blocks = bs \<rparr> (nk_id nk) (nk_sign nk) c of
        Inl e \<Rightarrow> Inl (EgressSign e)
      | Inr s \<Rightarrow> encode_to env to (WireBlockRangeResponse s))"

definition egress_safety ::
  "('g1, 'g2) wire_env \<Rightarrow> action \<Rightarrow> node_keys \<Rightarrow> chain_id \<Rightarrow> (egress_error, outbound option) outcome" where
  "egress_safety env a nk c =
     (case a of
        Broadcast msg \<Rightarrow>
          (case sign_consensus_msg env msg nk c of
             Inl e \<Rightarrow> Some (Inl e)
           | Inr w \<Rightarrow>
               (case we_encode env w of
                  None \<Rightarrow> Some (Inl EgressEncode)
                | Some bs \<Rightarrow> Some (Inr (Some (OutBroadcast bs)))))
      | RequestBlock h peer _ _ \<Rightarrow> map_option (\<lambda>o'. Inr (Some o')) (egress_block_request env h peer)
      | _ \<Rightarrow> Some (Inr None))"

text \<open>The events a node feeds itself for a message it broadcasts. \<open>None\<close> is the panic of
  a vote without a BLS partial, or of a message that is not a consensus message.\<close>

definition loopback :: "validator_key_history \<Rightarrow> node_keys \<Rightarrow> wire_message \<Rightarrow> dispatch list option" where
  "loopback kh nk w =
     (let me = (case validator_for kh (nk_id nk) of Some i \<Rightarrow> i | None \<Rightarrow> nk_id nk) in
      case w of
        WireProposal s \<Rightarrow>
          Some [DispatchSafety (ProposalReceived \<lparr> vrf_value = s, vrf_signer = me \<rparr>),
                DispatchPacemaker (OnProposalReceived (hdr_view (header (p_block (payload s))))),
                DispatchPacemaker (OnQc (qc_view (p_justify (payload s))))]
      | WireVote s partial \<Rightarrow>
          map_option (\<lambda>vv. [DispatchSafety (VoteReceived vv)])
            (from_optional_partial \<lparr> vrf_value = s, vrf_signer = me \<rparr> partial)
      | WireNewView s \<Rightarrow>
          Some [DispatchSafety (NewViewReceived \<lparr> vrf_value = s, vrf_signer = me \<rparr>),
                DispatchPacemaker (OnQc (qc_view (nv_high_qc (payload s))))]
      | _ \<Rightarrow> None)"

definition egress_consensus_msg_with_loopback ::
  "('g1, 'g2) wire_env \<Rightarrow> consensus_msg \<Rightarrow> node_keys \<Rightarrow> validator_key_history \<Rightarrow> chain_id
     \<Rightarrow> (egress_error, bytes \<times> dispatch list) outcome" where
  "egress_consensus_msg_with_loopback env msg nk kh c =
     (case sign_consensus_msg env msg nk c of
        Inl e \<Rightarrow> Some (Inl e)
      | Inr w \<Rightarrow>
          (case we_encode env w of
             None \<Rightarrow> Some (Inl EgressEncode)
           | Some bs \<Rightarrow> map_option (\<lambda>ds. Inr (bs, ds)) (loopback kh nk w)))"

end
