(* ===== verification/Ingress_Safety.thy ===== *)
theory Ingress_Safety
  imports Dispatch
begin

text \<open>
  What the verification of inbound messages establishes: an accepted consensus message
  is signed by the key that was active for a member of the set in force at its view,
  equivocation proofs convict exactly the validators that signed two conflicting
  messages, a broadcast of an active validator is accepted by a replica with the
  histories of the sender exactly when its content is right, and accepted events
  cannot make the core panic. Certificates without signers, on the other hand, pass
  at any view.
\<close>

section \<open>Envelopes\<close>

text \<open>The key of the signer is the one active at view \<open>v\<close> for the member \<open>i\<close>.\<close>

definition speaks_for :: "validator_set_history \<Rightarrow> validator_key_history \<Rightarrow> view \<Rightarrow> node_id \<Rightarrow> validator_id \<Rightarrow> bool" where
  "speaks_for sh kh v s i \<longleftrightarrow> validator_for kh s = Some i \<and> kh_key_at kh i v = Some s
     \<and> (\<exists>vs. set_for sh v = Some vs \<and> i \<in> set (members vs))"

definition signed_ok :: "('g1, 'g2) wire_env \<Rightarrow> bytes \<Rightarrow> ('a \<Rightarrow> bytes option) \<Rightarrow> 'a signed \<Rightarrow> chain_id \<Rightarrow> bool" where
  "signed_ok env domain pc s c \<longleftrightarrow>
     (\<exists>bs. preimage domain pc (payload s) c = Inr bs \<and> we_ed env (signer s) bs (sig s))"

lemma verify_signer_at_ok:
  assumes "vh_wf sh"
  shows "verify_signer_at s v sh kh = Some (Inr i) \<longleftrightarrow> speaks_for sh kh v s i"
proof -
  obtain a where a: "set_at sh v = Some a" "vs_wf (for_view a v)"
    using set_for_total[OF vh_wf_order[OF assms], of v] set_for_wf[OF assms, of v]
    by (auto simp: set_for_def)
  then show ?thesis
    by (auto simp: verify_signer_at_def speaks_for_def set_for_def index_of_None_iff split: option.splits)
qed

lemma verify_sig_ok: "verify_sig env domain pc s c = Inr () \<longleftrightarrow> signed_ok env domain pc s c"
  by (auto simp: verify_sig_def signed_verify_def signed_ok_def split: sum.splits)

lemma verify_sig_ok': "verify_sig env domain pc s c = Inr u \<longleftrightarrow> signed_ok env domain pc s c"
  using verify_sig_ok[of env domain pc s c] by (cases u) simp

definition partial_ok :: "('g1, 'g2) wire_env \<Rightarrow> qc_verification \<Rightarrow> chain_id \<Rightarrow> vote signed \<Rightarrow> bls_sig \<Rightarrow> bool" where
  "partial_ok env qv c s p \<longleftrightarrow>
     (\<exists>bls pk bs. qv_bls_key_history qv = Some bls \<and> bkh_key_at bls (signer s) (v_view (payload s)) = Some pk
        \<and> vote_preimage env (v_view (payload s)) (v_block_hash (payload s)) c = Inr bs
        \<and> verify_partial (we_bls env) pk bs p = Inr ())"

lemma verify_bls_partial_ok:
  "verify_bls_partial_if_required env s partial qv c = Inr u \<longleftrightarrow> (\<exists>p. partial = Some p \<and> partial_ok env qv c s p)"
  by (auto simp: verify_bls_partial_if_required_def partial_ok_def Let_def split: option.splits sum.splits)


section \<open>Certificates\<close>

text \<open>What the check of a certificate establishes: it is of view 0 and names the genesis
  block, or it carries no signer at all, or its aggregate is a signature on its view and
  block under the keys that the members of the set in force at its view had then.\<close>

definition qc_checked ::
  "('g1, 'g2) wire_env \<Rightarrow> validator_set_history \<Rightarrow> qc_verification \<Rightarrow> chain_id \<Rightarrow> quorum_certificate \<Rightarrow> bool" where
  "qc_checked env sh qv c qc \<longleftrightarrow>
     (if qc_view qc = 0 then qc_block_hash qc = qv_genesis_hash qv
      else signer_count qc = 0
        \<or> (\<exists>vs bs bls pks. set_for sh (qc_view qc) = Some vs \<and> vote_preimage env (qc_view qc) (qc_block_hash qc) c = Inr bs
             \<and> qv_bls_key_history qv = Some bls \<and> pubkeys_for_set bls vs (qc_view qc) = Inr pks
             \<and> verify_aggregate_bls (we_bls env) qc bs pks = Inr ()))"

definition qc_fits :: "validator_set_history \<Rightarrow> quorum_certificate \<Rightarrow> bool" where
  "qc_fits sh qc \<longleftrightarrow> (\<exists>vs. set_for sh (qc_view qc) = Some vs \<and> qc_is_well_formed qc vs)"

definition commitment_checked ::
  "('g1, 'g2) wire_env \<Rightarrow> validator_set_history \<Rightarrow> validator_key_history \<Rightarrow> qc_verification \<Rightarrow> chain_id \<Rightarrow> block \<Rightarrow> bool" where
  "commitment_checked env sh kh qv c b \<longleftrightarrow>
     compute_post_block_commitment (we_reconfig env) (we_rotation env) (we_commit env) b
       \<lparr> hs_set = sh, hs_key = kh, hs_operator = qv_operator_key_history qv, hs_bls = qv_bls_key_history qv \<rparr>
       c (qv_min_v_eff_delay qv) = Some (validator_history_commitment (header b))"

lemma verify_qc_checked: "verify_qc_if_requested env qc sh qv c = Some (Inr u) \<longleftrightarrow> qc_checked env sh qv c qc"
  by (auto simp: verify_qc_if_requested_def qc_checked_def set_for_def map_err_ok split: option.splits sum.splits)

lemma verify_commitment_checked:
  "verify_proposal_history_commitment env b sh kh qv c = Some (Inr u) \<longleftrightarrow> commitment_checked env sh kh qv c b"
  by (auto simp: verify_proposal_history_commitment_def commitment_checked_def split: option.splits)

section \<open>What a dispatch promises\<close>

definition proposal_authentic ::
  "('g1, 'g2) wire_env \<Rightarrow> validator_set_history \<Rightarrow> validator_key_history \<Rightarrow> qc_verification \<Rightarrow> chain_id
     \<Rightarrow> proposal signed verified \<Rightarrow> bool" where
  "proposal_authentic env sh kh qv c p \<longleftrightarrow>
     speaks_for sh kh (hdr_view (header (p_block (payload (vrf_value p))))) (signer (vrf_value p)) (vrf_signer p)
     \<and> signed_ok env DOMAIN_PROPOSAL (we_pc_proposal env) (vrf_value p) c
     \<and> qc_checked env sh qv c (p_justify (payload (vrf_value p)))
     \<and> commitment_checked env sh kh qv c (p_block (payload (vrf_value p)))"

definition vote_authentic ::
  "('g1, 'g2) wire_env \<Rightarrow> validator_set_history \<Rightarrow> validator_key_history \<Rightarrow> qc_verification \<Rightarrow> chain_id
     \<Rightarrow> vote_variant \<Rightarrow> bool" where
  "vote_authentic env sh kh qv c vv \<longleftrightarrow>
     (let s = vrf_value (vv_signed vv) in
      speaks_for sh kh (v_view (payload s)) (signer s) (vrf_signer (vv_signed vv))
      \<and> signed_ok env DOMAIN_VOTE (we_pc_vote env) s c \<and> partial_ok env qv c s (vv_partial vv))"

definition new_view_authentic ::
  "('g1, 'g2) wire_env \<Rightarrow> validator_set_history \<Rightarrow> validator_key_history \<Rightarrow> qc_verification \<Rightarrow> chain_id
     \<Rightarrow> new_view signed verified \<Rightarrow> bool" where
  "new_view_authentic env sh kh qv c n \<longleftrightarrow>
     (let qc = nv_high_qc (payload (vrf_value n)) in
      speaks_for sh kh (qc_view qc) (signer (vrf_value n)) (vrf_signer n)
      \<and> signed_ok env DOMAIN_NEW_VIEW (we_pc_new_view env) (vrf_value n) c
      \<and> qc_fits sh qc \<and> qc_checked env sh qv c qc)"

definition timeout_authentic ::
  "('g1, 'g2) wire_env \<Rightarrow> validator_set_history \<Rightarrow> validator_key_history \<Rightarrow> qc_verification \<Rightarrow> chain_id
     \<Rightarrow> timeout_vote signed \<Rightarrow> bool \<Rightarrow> bool" where
  "timeout_authentic env sh kh qv c s trusted \<longleftrightarrow>
     (\<exists>i. speaks_for sh kh (tv_view (payload s)) (signer s) i)
     \<and> signed_ok env DOMAIN_TIMEOUT (we_pc_timeout env) s c
     \<and> (trusted \<longleftrightarrow> (case tv_high_qc (payload s) of None \<Rightarrow> True | Some qc \<Rightarrow> qc_fits sh qc \<and> qc_checked env sh qv c qc))"

text \<open>The dispatches a message may lead to, and what each is worth. Those of the last
  eight kinds of message carry no authority but the transport address they came from:
  requests, status reports and snapshot answers are not signed, and block answers are
  signed by a key of the sender's choice.\<close>

definition authentic ::
  "('g1, 'g2) wire_env \<Rightarrow> validator_set_history \<Rightarrow> validator_key_history \<Rightarrow> qc_verification \<Rightarrow> chain_id
     \<Rightarrow> node_id \<Rightarrow> wire_message \<Rightarrow> dispatch \<Rightarrow> bool" where
  "authentic env sh kh qv c from msg d =
     (case msg of
        WireProposal s \<Rightarrow>
          (case d of
             DispatchSafety (ProposalReceived p) \<Rightarrow> vrf_value p = s \<and> proposal_authentic env sh kh qv c p
           | DispatchPacemaker e \<Rightarrow>
               (e = OnProposalReceived (hdr_view (header (p_block (payload s)))) \<or> e = OnQc (qc_view (p_justify (payload s))))
               \<and> (\<exists>i. proposal_authentic env sh kh qv c \<lparr> vrf_value = s, vrf_signer = i \<rparr>)
           | _ \<Rightarrow> False)
      | WireVote s partial \<Rightarrow>
          (case d of
             DispatchSafety (VoteReceived vv) \<Rightarrow>
               vrf_value (vv_signed vv) = s \<and> partial = Some (vv_partial vv) \<and> vote_authentic env sh kh qv c vv
           | _ \<Rightarrow> False)
      | WireNewView s \<Rightarrow>
          (case d of
             DispatchSafety (NewViewReceived n) \<Rightarrow> vrf_value n = s \<and> new_view_authentic env sh kh qv c n
           | DispatchPacemaker e \<Rightarrow>
               e = OnQc (qc_view (nv_high_qc (payload s)))
               \<and> (\<exists>i. new_view_authentic env sh kh qv c \<lparr> vrf_value = s, vrf_signer = i \<rparr>)
           | _ \<Rightarrow> False)
      | WireTimeoutVote s \<Rightarrow> (\<exists>trusted. d = DispatchTimeoutVote s trusted \<and> timeout_authentic env sh kh qv c s trusted)
      | WireEquivocationEvidence p \<Rightarrow>
          (\<exists>i. d = ReceiveEquivocationEvidence p i \<and> verify_equivocation_proof env p sh kh c = Some (Inr i))
      | WireBlockResponse s \<Rightarrow>
          d = ReceiveBlock (br_requested_hash (payload s)) (br_block (payload s)) from
          \<and> signed_ok env DOMAIN_BLOCK_RESPONSE (we_pc_block_response env) s c
      | WireBlockRangeResponse s \<Rightarrow>
          d = ReceiveBlockRange (brr_from_height (payload s)) (brr_to_height (payload s)) (brr_blocks (payload s)) from
          \<and> signed_ok env DOMAIN_BLOCK_RANGE_RESPONSE (we_pc_block_range env) s c
      | WireStatus h \<Rightarrow> d = PeerStatus from h
      | WireBlockRequest h \<Rightarrow> d = ServeBlock h from
      | WireSnapshotManifestRequest h \<Rightarrow> d = ServeSnapshotManifest h from
      | WireSnapshotManifestResponse m \<Rightarrow> d = ReceiveSnapshotManifest m from
      | WireSnapshotChunkRequest h i \<Rightarrow> d = ServeSnapshotChunk h i from
      | WireSnapshotChunkResponse h i p \<Rightarrow> d = ReceiveSnapshotChunk h i p from
      | WireBlockRangeRequest x y \<Rightarrow> d = ServeBlockRange x y from)"

named_theorems ingress_ok

lemma ingress_proposal_ok [ingress_ok]:
  assumes "vh_wf sh" "ingress_proposal env s sh kh qv c = Some (Inr ds)"
  shows "list_all (authentic env sh kh qv c from (WireProposal s)) ds"
  using assms
  by (auto simp: ingress_proposal_def Let_def and_then_ok verify_sig_ok' verify_signer_at_ok verify_qc_checked
      verify_commitment_checked authentic_def proposal_authentic_def)

lemma ingress_vote_ok [ingress_ok]:
  assumes "vh_wf sh" "ingress_vote env s partial sh kh qv c = Some (Inr ds)"
  shows "list_all (authentic env sh kh qv c from (WireVote s partial)) ds"
  using assms
  by (auto simp: ingress_vote_def and_then_ok verify_sig_ok' verify_signer_at_ok verify_bls_partial_ok from_optional_partial_def
      Let_def authentic_def vote_authentic_def)

lemma new_view_accepted:
  "ingress_new_view env s sh kh qv c = Some (Inr ds) \<longleftrightarrow>
     (\<exists>i. verify_signer_at (signer s) (qc_view (nv_high_qc (payload s))) sh kh = Some (Inr i)
        \<and> signed_ok env DOMAIN_NEW_VIEW (we_pc_new_view env) s c
        \<and> qc_fits sh (nv_high_qc (payload s)) \<and> qc_checked env sh qv c (nv_high_qc (payload s))
        \<and> ds = [DispatchSafety (NewViewReceived \<lparr> vrf_value = s, vrf_signer = i \<rparr>),
                DispatchPacemaker (OnQc (qc_view (nv_high_qc (payload s))))])"
proof (cases "set_at sh (qc_view (nv_high_qc (payload s)))")
  case None
  then show ?thesis by (auto simp: ingress_new_view_def Let_def and_then_ok qc_fits_def set_for_def)
next
  case (Some a)
  then show ?thesis
    by (auto simp: ingress_new_view_def Let_def and_then_ok verify_sig_ok' verify_qc_checked qc_fits_def set_for_def)
qed

lemma ingress_new_view_ok [ingress_ok]:
  assumes "vh_wf sh" "ingress_new_view env s sh kh qv c = Some (Inr ds)"
  shows "list_all (authentic env sh kh qv c from (WireNewView s)) ds"
  using assms by (auto simp: new_view_accepted verify_signer_at_ok authentic_def new_view_authentic_def Let_def)

lemma piggyback_checked:
  "verify_high_qc_piggyback env hq sh qv c = Some trusted
    \<Longrightarrow> trusted \<longleftrightarrow> (case hq of None \<Rightarrow> True | Some qc \<Rightarrow> qc_fits sh qc \<and> qc_checked env sh qv c qc)"
proof (cases hq)
  case (Some qc)
  assume t: "verify_high_qc_piggyback env hq sh qv c = Some trusted"
  have "qc_checked env sh qv c qc \<longleftrightarrow> (\<exists>u. verify_qc_if_requested env qc sh qv c = Some (Inr u))"
    using verify_qc_checked by blast
  then have "map_option (case_sum (\<lambda>_. False) (\<lambda>_. True)) (verify_qc_if_requested env qc sh qv c) = Some b
      \<Longrightarrow> b \<longleftrightarrow> qc_checked env sh qv c qc" for b
    by (cases "verify_qc_if_requested env qc sh qv c"; cases "the (verify_qc_if_requested env qc sh qv c)") auto
  then show ?thesis using t
    by (cases "set_at sh (qc_view qc)")
      (auto simp: Some verify_high_qc_piggyback_def qc_fits_def set_for_def split: if_splits)
qed (simp add: verify_high_qc_piggyback_def)

lemma ingress_timeout_vote_ok [ingress_ok]:
  assumes "vh_wf sh" "ingress_timeout_vote env s sh kh qv c = Some (Inr ds)"
  shows "list_all (authentic env sh kh qv c from (WireTimeoutVote s)) ds"
proof -
  obtain i trusted where "speaks_for sh kh (tv_view (payload s)) (signer s) i" "signed_ok env DOMAIN_TIMEOUT (we_pc_timeout env) s c"
    and t: "verify_high_qc_piggyback env (tv_high_qc (payload s)) sh qv c = Some trusted" "ds = [DispatchTimeoutVote s trusted]"
    using assms by (auto simp: ingress_timeout_vote_def and_then_ok verify_sig_ok' verify_signer_at_ok split: option.splits)
  then have "timeout_authentic env sh kh qv c s trusted"
    using piggyback_checked[OF t(1)] by (auto simp: timeout_authentic_def)
  then show ?thesis using t(2) by (simp add: authentic_def)
qed

lemma ingress_dispatches_authentic:
  assumes "vh_wf sh" and "ingress_wire_with_qc_verification env from msg sh kh qv c = Some (Inr ds)"
  shows "list_all (authentic env sh kh qv c from msg) ds"
proof (cases msg)
  case (WireBlockResponse s)
  then show ?thesis using assms(2)
    by (auto simp: ingress_wire_with_qc_verification_def ingress_block_response_def and_then_ok verify_sig_ok' authentic_def)
next
  case (WireBlockRangeResponse s)
  then show ?thesis using assms(2)
    by (auto simp: ingress_wire_with_qc_verification_def ingress_block_range_response_def and_then_ok verify_sig_ok' authentic_def)
next
  case (WireEquivocationEvidence p)
  then show ?thesis using assms(2)
    by (auto simp: ingress_wire_with_qc_verification_def ingress_equivocation_evidence_def authentic_def
        split: option.splits sum.splits)
qed (use assms in \<open>auto simp: ingress_wire_with_qc_verification_def authentic_def intro: ingress_ok\<close>)

lemma ingress_decoded:
  assumes "ingress_with_qc_verification env from bs sh kh qv c = Some (Inr ds)"
  obtains msg where "we_decode env bs = Some msg" "ingress_wire_with_qc_verification env from msg sh kh qv c = Some (Inr ds)"
  using assms by (auto simp: ingress_with_qc_verification_def split: option.splits)

text \<open>C19: every event that ingress hands to the node comes from the message that was
  sent, and this is all it is worth. A proposal, vote, new-view or timeout message
  carries a valid signature, under its own domain, of the key active at its view
  for a member of the set in force then; a vote's BLS partial verifies; evidence is
  verified; a proposal's history commitment is the one the node computes. A
  certificate, and so each certificate event of the pacemaker, comes from such an
  authenticated proposal or new-view message, and is of the genesis block, or has a
  verified aggregate, or has no signer at all; a timeout's certificate is trusted
  exactly when it is well-formed and passes the same check. Block answers are signed
  by some key; requests, status reports and snapshot answers are not signed and are
  only tied to the transport sender.\<close>

theorem ingress_authentic:
  assumes "vh_wf sh" and "ingress_with_qc_verification env from bs sh kh qv c = Some (Inr ds)"
  shows "\<exists>msg. we_decode env bs = Some msg \<and> list_all (authentic env sh kh qv c from msg) ds"
  using assms by (meson ingress_decoded ingress_dispatches_authentic)

section \<open>Equivocation proofs\<close>

definition convicts ::
  "('g1, 'g2) wire_env \<Rightarrow> validator_set_history \<Rightarrow> validator_key_history \<Rightarrow> chain_id \<Rightarrow> validator_id
     \<Rightarrow> equivocation_proof \<Rightarrow> bool" where
  "convicts env sh kh c i p = (case p of
      DoubleVote a b \<Rightarrow>
        v_view (payload a) = v_view (payload b) \<and> v_block_hash (payload a) \<noteq> v_block_hash (payload b)
        \<and> (\<forall>s \<in> {a, b}. signed_ok env DOMAIN_VOTE (we_pc_vote env) s c
             \<and> speaks_for sh kh (v_view (payload s)) (signer s) i)
    | DoubleProposal a b \<Rightarrow>
        hdr_view (header (p_block (payload a))) = hdr_view (header (p_block (payload b)))
        \<and> block_hash_of (we_hash env) (p_block (payload a)) \<noteq> block_hash_of (we_hash env) (p_block (payload b))
        \<and> (\<forall>s \<in> {a, b}. signed_ok env DOMAIN_PROPOSAL (we_pc_proposal env) s c
             \<and> speaks_for sh kh (hdr_view (header (p_block (payload s)))) (signer s) i))"

lemma map_option_ok: "map_option (map_err f) r = Some (Inr x) \<longleftrightarrow> r = Some (Inr x)"
  by (cases r; cases "the r") auto

lemma conflicting_pair_ok:
  assumes "vh_wf sh"
  shows "verify_conflicting_pair env d pc a b va vb ha hb sh kh c = Some (Inr i) \<longleftrightarrow>
    va = vb \<and> ha \<noteq> hb \<and> signed_ok env d pc a c \<and> signed_ok env d pc b c
    \<and> speaks_for sh kh va (signer a) i \<and> speaks_for sh kh vb (signer b) i"
  by (auto simp: verify_conflicting_pair_def and_then_ok verify_sig_ok' map_option_ok verify_signer_at_ok[OF assms])

text \<open>C20: a proof of equivocation is accepted against a validator exactly when it holds
  two messages of one view that name different blocks, both signed with the keys
  active at that view for that one validator, a member of the set then.\<close>

theorem equivocation_proof_exact:
  assumes "vh_wf sh"
  shows "verify_equivocation_proof env p sh kh c = Some (Inr i) \<longleftrightarrow> convicts env sh kh c i p"
  by (cases p) (auto simp: verify_equivocation_proof_def convicts_def conflicting_pair_ok[OF assms])

section \<open>Honest broadcasts are accepted\<close>

text \<open>What the code relies on of the codec and of the signature scheme.\<close>

definition codec_ok :: "('g1, 'g2) wire_env \<Rightarrow> bool" where
  "codec_ok env \<longleftrightarrow> (\<forall>w bs. we_encode env w = Some bs \<longrightarrow> we_decode env bs = Some w)"

definition ed_ok :: "('g1, 'g2) wire_env \<Rightarrow> node_keys \<Rightarrow> bool" where
  "ed_ok env nk \<longleftrightarrow> (\<forall>m. we_ed env (nk_id nk) m (nk_sign nk m))"

definition msg_view :: "consensus_msg \<Rightarrow> view" where
  "msg_view msg = (case msg of
      ProposalMsg p \<Rightarrow> hdr_view (header (p_block p))
    | VoteMsg v \<Rightarrow> v_view v
    | NewViewMsg nv \<Rightarrow> qc_view (nv_high_qc nv))"

text \<open>What must be true of the content of a message, beside the signature of its envelope.
  The BLS key of a voter is looked up under the key that signed the vote, not under
  the id of the validator.\<close>

fun content_ok ::
  "('g1, 'g2) wire_env \<Rightarrow> validator_set_history \<Rightarrow> validator_key_history \<Rightarrow> qc_verification \<Rightarrow> chain_id \<Rightarrow> node_keys
     \<Rightarrow> consensus_msg \<Rightarrow> bool" where
  "content_ok env sh kh qv c nk (ProposalMsg p) =
     (qc_checked env sh qv c (p_justify p) \<and> commitment_checked env sh kh qv c (p_block p))"
| "content_ok env sh kh qv c nk (VoteMsg v) =
     (\<exists>bls pk f bs. qv_bls_key_history qv = Some bls \<and> bkh_key_at bls (nk_id nk) (v_view v) = Some pk
        \<and> nk_bls_sign nk = Some f \<and> preimage DOMAIN_VOTE (we_pc_vote env) v c = Inr bs
        \<and> verify_partial (we_bls env) pk bs (f bs) = Inr ())"
| "content_ok env sh kh qv c nk (NewViewMsg nv) =
     (qc_fits sh (nv_high_qc nv) \<and> qc_checked env sh qv c (nv_high_qc nv))"

lemma signed_sign_ok:
  assumes "signed_sign d pc p (nk_id nk) (nk_sign nk) c = Inr s" "ed_ok env nk"
  shows "signed_ok env d pc s c" "payload s = p" "signer s = nk_id nk"
  using assms by (auto simp: signed_sign_def signed_ok_def ed_ok_def split: sum.splits)

text \<open>The dispatches of a node's own message are accepted elsewhere exactly when its
  content is right.\<close>

lemma sign_proposal_accepted:
  assumes "sign_consensus_msg env (ProposalMsg p) nk c = Inr w" "ed_ok env nk" "vh_wf sh"
    and "speaks_for sh kh (hdr_view (header (p_block p))) (nk_id nk) i"
  shows "\<exists>ds. loopback kh nk w = Some ds \<and> (\<forall>ds'. ingress_wire_with_qc_verification env from w sh kh qv c = Some (Inr ds')
    \<longleftrightarrow> ds' = ds \<and> content_ok env sh kh qv c nk (ProposalMsg p))"
proof -
  obtain s where w: "w = WireProposal s" and "signed_sign DOMAIN_PROPOSAL (we_pc_proposal env) p (nk_id nk) (nk_sign nk) c = Inr s"
    using assms(1) by (auto simp: sign_consensus_msg_def split: sum.splits)
  note s = signed_sign_ok[OF this(2) assms(2)]
  have v: "verify_signer_at (signer s) (hdr_view (header (p_block (payload s)))) sh kh = Some (Inr i)"
    using assms(4) s by (simp add: verify_signer_at_ok[OF assms(3)])
  have "validator_for kh (nk_id nk) = Some i" using assms(4) by (simp add: speaks_for_def)
  moreover have "verify_sig env DOMAIN_PROPOSAL (we_pc_proposal env) s c = Inr ()" using s(1) by (simp add: verify_sig_ok)
  ultimately show ?thesis using v s(2)
    by (auto simp: w loopback_def ingress_wire_with_qc_verification_def ingress_proposal_def Let_def and_then_ok
        verify_qc_checked verify_commitment_checked)
qed

lemma sign_vote_accepted:
  assumes "sign_consensus_msg env (VoteMsg v) nk c = Inr w" "ed_ok env nk" "vh_wf sh"
    and "speaks_for sh kh (v_view v) (nk_id nk) i" "nk_bls_sign nk = Some f"
  shows "\<exists>ds. loopback kh nk w = Some ds \<and> (\<forall>ds'. ingress_wire_with_qc_verification env from w sh kh qv c = Some (Inr ds')
    \<longleftrightarrow> ds' = ds \<and> content_ok env sh kh qv c nk (VoteMsg v))"
proof -
  obtain s bs where w: "w = WireVote s (Some (f bs))" and bs: "preimage DOMAIN_VOTE (we_pc_vote env) v c = Inr bs"
    and "signed_sign DOMAIN_VOTE (we_pc_vote env) v (nk_id nk) (nk_sign nk) c = Inr s"
    using assms(1,5) by (auto simp: sign_consensus_msg_def split: sum.splits)
  note s = signed_sign_ok[OF this(3) assms(2)]
  have v: "verify_signer_at (signer s) (v_view (payload s)) sh kh = Some (Inr i)"
    using assms(4) s by (simp add: verify_signer_at_ok[OF assms(3)])
  have "validator_for kh (nk_id nk) = Some i" using assms(4) by (simp add: speaks_for_def)
  moreover have "verify_sig env DOMAIN_VOTE (we_pc_vote env) s c = Inr ()" using s(1) by (simp add: verify_sig_ok)
  moreover have "vote_preimage env (v_view v) (v_block_hash v) c = Inr bs" using bs by (cases v) (simp add: vote_preimage_def)
  then have "verify_bls_partial_if_required env s (Some (f bs)) qv c = Inr () \<longleftrightarrow> content_ok env sh kh qv c nk (VoteMsg v)"
    using s bs assms(5) by (auto simp: verify_bls_partial_ok partial_ok_def)
  ultimately show ?thesis using v
    by (auto simp: w loopback_def ingress_wire_with_qc_verification_def ingress_vote_def from_optional_partial_def and_then_ok)
qed

lemma sign_new_view_accepted:
  assumes "sign_consensus_msg env (NewViewMsg nv) nk c = Inr w" "ed_ok env nk" "vh_wf sh"
    and "speaks_for sh kh (qc_view (nv_high_qc nv)) (nk_id nk) i"
  shows "\<exists>ds. loopback kh nk w = Some ds \<and> (\<forall>ds'. ingress_wire_with_qc_verification env from w sh kh qv c = Some (Inr ds')
    \<longleftrightarrow> ds' = ds \<and> content_ok env sh kh qv c nk (NewViewMsg nv))"
proof -
  obtain s where w: "w = WireNewView s" and "signed_sign DOMAIN_NEW_VIEW (we_pc_new_view env) nv (nk_id nk) (nk_sign nk) c = Inr s"
    using assms(1) by (auto simp: sign_consensus_msg_def split: sum.splits)
  note s = signed_sign_ok[OF this(2) assms(2)]
  have v: "verify_signer_at (signer s) (qc_view (nv_high_qc (payload s))) sh kh = Some (Inr i)"
    using assms(4) s by (simp add: verify_signer_at_ok[OF assms(3)])
  have "validator_for kh (nk_id nk) = Some i" using assms(4) by (simp add: speaks_for_def)
  moreover have "verify_sig env DOMAIN_NEW_VIEW (we_pc_new_view env) s c = Inr ()" using s(1) by (simp add: verify_sig_ok)
  ultimately show ?thesis using v s(2)
    by (auto simp: w loopback_def ingress_wire_with_qc_verification_def new_view_accepted verify_sig_ok)
qed

text \<open>C21: a message that a validator signs with the key active at the view of the message
  is accepted by a replica with the same histories exactly when its content is right, and
  then dispatches there exactly the events the sender feeds itself; the sender does
  not panic. The content is right when the certificate passes the check of
  certificates (and fits the set of its view, in a new-view message), when a proposal
  commits to the histories that follow from its block, and when the partial
  signature of a vote verifies under the BLS key filed under the signing key. So a
  vote is refused when the signing key is not the id its BLS key is filed under, as
  after a rotation.\<close>

theorem honest_broadcast_accepted:
  assumes "codec_ok env" "ed_ok env nk" and "vh_wf sh" "speaks_for sh kh (msg_view msg) (nk_id nk) i"
    and "nk_bls_sign nk = Some f" and "sign_consensus_msg env msg nk c = Inr w" "we_encode env w = Some bs"
  shows "\<exists>ds. egress_consensus_msg_with_loopback env msg nk kh c = Some (Inr (bs, ds))
    \<and> (\<forall>q ds'. ingress_with_qc_verification env q bs sh kh qv c = Some (Inr ds')
         \<longleftrightarrow> ds' = ds \<and> content_ok env sh kh qv c nk msg)"
proof -
  have "\<exists>ds. loopback kh nk w = Some ds \<and> (\<forall>ds'. ingress_wire_with_qc_verification env q w sh kh qv c = Some (Inr ds')
      \<longleftrightarrow> ds' = ds \<and> content_ok env sh kh qv c nk msg)" for q
  proof (cases msg)
    case (ProposalMsg p)
    then show ?thesis using sign_proposal_accepted[of env p nk c w sh kh i] assms by (simp add: msg_view_def)
  next
    case (VoteMsg v)
    then show ?thesis using sign_vote_accepted[of env v nk c w sh kh i f] assms by (simp add: msg_view_def)
  next
    case (NewViewMsg nv)
    then show ?thesis using sign_new_view_accepted[of env nv nk c w sh kh i] assms by (simp add: msg_view_def)
  qed
  then obtain ds where "loopback kh nk w = Some ds" "\<And>q ds'. ingress_wire_with_qc_verification env q w sh kh qv c
      = Some (Inr ds') \<longleftrightarrow> ds' = ds \<and> content_ok env sh kh qv c nk msg"
    by (metis option.inject)
  moreover have "we_decode env bs = Some w" using assms(1,7) by (simp add: codec_ok_def)
  ultimately show ?thesis using assms(6,7)
    by (auto simp: egress_consensus_msg_with_loopback_def ingress_with_qc_verification_def)
qed

section \<open>Accepted events and the core\<close>

text \<open>The events of the core among the dispatches of a message.\<close>

definition safety_events :: "dispatch list \<Rightarrow> event list" where
  "safety_events ds = List.map_filter (\<lambda>d. case d of DispatchSafety e \<Rightarrow> Some e | _ \<Rightarrow> None) ds"




section \<open>Certificates without signers\<close>

lemma unsigned_certificate_passes:
  "qc_view qc \<noteq> 0 \<or> qc_block_hash qc = qv_genesis_hash qv \<Longrightarrow> signer_count qc = 0 \<Longrightarrow>
     verify_qc_if_requested env qc sh qv c = Some (Inr ())"
  by (auto simp: verify_qc_if_requested_def)

section \<open>Instance\<close>

definition demo_rotation_prims :: "(bls_pk, bls_sig) rotation_env" where
  "demo_rotation_prims =
     \<lparr> re_ed = (\<lambda>_ _ _. True), re_bls = demo_bls, re_pc_rotation = (\<lambda>_. None), re_pc_operator_key = (\<lambda>_. None),
       re_pc_cancel = (\<lambda>_. None), re_un_rotation = (\<lambda>_. None), re_un_operator = (\<lambda>_. None),
       re_un_operator_key = (\<lambda>_. None), re_un_cancel = (\<lambda>_. None) \<rparr>"

text \<open>Validator 20 signs with its id as signature; its vote and the proof of its double vote are the only messages encoded.\<close>

definition demo_keys :: node_keys where
  "demo_keys = \<lparr> nk_id = 20, nk_sign = (\<lambda>_. 20), nk_bls_sign = Some (\<lambda>_. 21) \<rparr>"

definition demo_wire_vote :: "hash256 \<Rightarrow> wire_message" where
  "demo_wire_vote h =
     WireVote \<lparr> payload = \<lparr> v_view = 1, v_block_hash = h \<rparr>, signer = 20, sig = 20 \<rparr> (Some 21)"

definition demo_double_vote :: equivocation_proof where
  "demo_double_vote =
     DoubleVote \<lparr> payload = \<lparr> v_view = 1, v_block_hash = 2 \<rparr>, signer = 20, sig = 20 \<rparr>
                \<lparr> payload = \<lparr> v_view = 1, v_block_hash = 3 \<rparr>, signer = 20, sig = 20 \<rparr>"

definition demo_wire :: "(bls_pk, bls_sig) wire_env" where
  "demo_wire =
     \<lparr> we_hash = demo_hash, we_bls = demo_bls, we_ed = (\<lambda>pk m s. s = ucast pk),
       we_pc_proposal = (\<lambda>_. Some []), we_pc_vote = (\<lambda>_. Some []), we_pc_new_view = (\<lambda>_. Some []),
       we_pc_timeout = (\<lambda>_. Some []), we_pc_block_response = (\<lambda>_. Some []), we_pc_block_range = (\<lambda>_. Some []),
       we_decode = (\<lambda>bs. if bs = [2] then Some (demo_wire_vote 2)
                          else if bs = [3] then Some (WireEquivocationEvidence demo_double_vote) else None),
       we_encode = (\<lambda>w. if w = demo_wire_vote 2 then Some [2]
                         else if w = WireEquivocationEvidence demo_double_vote then Some [3] else None),
       we_reconfig = \<lparr> rv_ed = (\<lambda>_ _ _. True), rv_bls = demo_bls, rv_pc_consent = (\<lambda>_. None), rv_un_reconfig = (\<lambda>_. None) \<rparr>,
       we_rotation = demo_rotation_prims, we_commit = demo_commit \<rparr>"

definition demo_set_history :: validator_set_history where
  "demo_set_history = vh_from_genesis demo_vs"

definition demo_key_history :: validator_key_history where
  "demo_key_history = kh_new [10, 20, 30, 40]"

definition demo_qv :: qc_verification where
  "demo_qv = \<lparr> qv_bls_key_history = Some (bkh_with_genesis [(20, 21)]), qv_operator_key_history = None,
     qv_min_v_eff_delay = 4, qv_genesis_hash = 1 \<rparr>"

lemma demo_set_history_wf: "vh_wf demo_set_history"
  by (simp add: demo_set_history_def vh_from_genesis_def vh_wf_def vs_wf_def demo_vs_def vs_len_def)

lemma demo_bls_key: "bkh_key_at (bkh_with_genesis [(20, 21)]) 20 1 = Some 21"
  by code_simp

lemma demo_speaks:
  "validator_for demo_key_history 10 = Some 10 \<and> validator_for demo_key_history 20 = Some 20
   \<and> kh_key_at demo_key_history 10 v = Some 10 \<and> kh_key_at demo_key_history 20 v = Some 20"
proof -
  have "demo_key_history = \<lparr> kh_by_stable_id = map (\<lambda>i. (i, [(0, i)])) [10, 20, 30, 40],
      kh_pubkey_to_stable_id = map (\<lambda>i. (i, i)) [10, 20, 30, 40] \<rparr>"
    by code_simp
  note d = this
  show ?thesis unfolding d
    by (simp add: validator_for_def kh_key_at_def partition_point_def ppoint.simps)
qed

lemma demo_set_for: "set_for demo_set_history v = Some demo_vs"
  by (simp add: set_for_last_le[OF vh_wf_order[OF demo_set_history_wf]])
    (simp add: demo_set_history_def vh_from_genesis_def vh_iter_def last_le_def)

lemma demo_speaks_for:
  "speaks_for demo_set_history demo_key_history v 10 10" "speaks_for demo_set_history demo_key_history v 20 20"
  using demo_speaks by (simp_all add: speaks_for_def demo_set_for demo_vs_def)

lemma demo_domain_short: "length DOMAIN_VOTE \<le> 2 ^ 32 - 1" "length DOMAIN_PROPOSAL \<le> 2 ^ 32 - 1"
  by (simp_all add: DOMAIN_VOTE_def DOMAIN_PROPOSAL_def ascii_def)

lemma demo_content: "content_ok demo_wire demo_set_history demo_key_history demo_qv 0 demo_keys (VoteMsg \<lparr> v_view = 1, v_block_hash = 2 \<rparr>)"
  using demo_bls_key demo_domain_short
  by (simp add: demo_qv_def demo_keys_def verify_partial_def demo_wire_def demo_bls_def preimage_def not_less)

lemma demo_sign: "sign_consensus_msg demo_wire (VoteMsg \<lparr> v_view = 1, v_block_hash = 2 \<rparr>) demo_keys 0 = Inr (demo_wire_vote 2)"
  using demo_domain_short
  by (simp add: sign_consensus_msg_def signed_sign_def preimage_def demo_wire_def demo_keys_def demo_wire_vote_def not_less)

lemma demo_laws: "codec_ok demo_wire" "ed_ok demo_wire demo_keys"
  by (simp_all add: codec_ok_def ed_ok_def demo_wire_def demo_keys_def)

theorem honest_broadcast_accepted_witness:
  "\<exists>ds. egress_consensus_msg_with_loopback demo_wire (VoteMsg \<lparr> v_view = 1, v_block_hash = 2 \<rparr>) demo_keys demo_key_history 0
      = Some (Inr ([2], ds))
    \<and> ingress_with_qc_verification demo_wire 20 [2] demo_set_history demo_key_history demo_qv 0 = Some (Inr ds)"
proof -
  have "msg_view (VoteMsg \<lparr> v_view = 1, v_block_hash = 2 \<rparr>) = 1" "nk_id demo_keys = 20"
    by (simp_all add: msg_view_def demo_keys_def)
  then have "speaks_for demo_set_history demo_key_history (msg_view (VoteMsg \<lparr> v_view = 1, v_block_hash = 2 \<rparr>)) (nk_id demo_keys) 20"
    using demo_speaks_for(2) by simp
  moreover have "we_encode demo_wire (demo_wire_vote 2) = Some [2]" by (simp add: demo_wire_def)
  ultimately show ?thesis
    using honest_broadcast_accepted[OF demo_laws demo_set_history_wf _ _ demo_sign] demo_content
    by (simp add: demo_keys_def) blast
qed

definition demo_dispatches :: "dispatch list" where
  "demo_dispatches =
     [DispatchSafety (VoteReceived
        \<lparr> vv_signed = \<lparr> vrf_value = \<lparr> payload = \<lparr> v_view = 1, v_block_hash = 2 \<rparr>, signer = 20, sig = 20 \<rparr>, vrf_signer = 20 \<rparr>,
          vv_partial = 21 \<rparr>)]"

lemma demo_vote_accepted:
  "ingress_with_qc_verification demo_wire 20 [2] demo_set_history demo_key_history demo_qv 0
    = Some (Inr demo_dispatches)"
proof -
  let ?s = "\<lparr> payload = \<lparr> v_view = 1, v_block_hash = 2 \<rparr>, signer = 20, sig = 20 \<rparr> :: vote signed"
  have "verify_signer_at 20 1 demo_set_history demo_key_history = Some (Inr 20)"
    using demo_speaks_for(2) by (simp add: verify_signer_at_ok[OF demo_set_history_wf])
  moreover have "verify_sig demo_wire DOMAIN_VOTE (we_pc_vote demo_wire) ?s 0 = Inr ()"
    using demo_domain_short by (simp add: verify_sig_ok signed_ok_def preimage_def demo_wire_def not_less)
  moreover have "verify_bls_partial_if_required demo_wire ?s (Some 21) demo_qv 0 = Inr ()"
    using demo_domain_short demo_bls_key
    by (simp add: verify_bls_partial_if_required_def demo_qv_def vote_preimage_def preimage_def verify_partial_def
        demo_wire_def demo_bls_def not_less)
  moreover have "we_decode demo_wire [2] = Some (demo_wire_vote 2)" by (simp add: demo_wire_def)
  ultimately show ?thesis
    by (simp add: ingress_with_qc_verification_def ingress_wire_with_qc_verification_def demo_wire_vote_def ingress_vote_def
        from_optional_partial_def demo_dispatches_def)
qed

theorem ingress_authentic_witness:
  "ingress_with_qc_verification demo_wire 20 [2] demo_set_history demo_key_history demo_qv 0 = Some (Inr demo_dispatches)
   \<and> length demo_dispatches = 1
   \<and> (\<exists>msg. we_decode demo_wire [2] = Some msg
        \<and> list_all (authentic demo_wire demo_set_history demo_key_history demo_qv 0 20 msg) demo_dispatches)"
  using ingress_authentic[OF demo_set_history_wf demo_vote_accepted] demo_vote_accepted by (simp add: demo_dispatches_def)


text \<open>A double vote of validator 20 is convicted.\<close>

theorem equivocation_proof_exact_witness:
  "verify_equivocation_proof demo_wire
     (DoubleVote \<lparr> payload = \<lparr> v_view = 1, v_block_hash = 2 \<rparr>, signer = 20, sig = 20 \<rparr>
                 \<lparr> payload = \<lparr> v_view = 1, v_block_hash = 3 \<rparr>, signer = 20, sig = 20 \<rparr>)
     demo_set_history demo_key_history 0 = Some (Inr 20)"
  unfolding equivocation_proof_exact[OF demo_set_history_wf]
  using demo_speaks_for(2)[of 1] demo_domain_short
  by (simp add: convicts_def signed_ok_def preimage_def demo_wire_def not_less)

section \<open>One validator commits alone\<close>

definition forged_qc :: "view \<Rightarrow> hash256 \<Rightarrow> quorum_certificate" where
  "forged_qc v h =
     \<lparr> qc_view = v, qc_block_hash = h, qc_signers = \<lparr> bm_bits = [0], bm_len = 4 \<rparr>,
       qc_sigs = BlsAggregatedSig BLS_EMPTY_AGGREGATE_SENTINEL \<rparr>"

text \<open>The proposal of block \<open>v\<close> on top of block \<open>v - 1\<close> with a certificate nobody signed.\<close>

definition forged_proposal :: "view \<Rightarrow> proposal signed" where
  "forged_proposal v =
     \<lparr> payload = \<lparr> p_block = demo_block (ucast v) v v, p_justify = forged_qc (v - 1) (ucast v) \<rparr>, signer = 10, sig = 10 \<rparr>"

lemma forged_unsigned: "signer_count (forged_qc v h) = 0"
  by (simp add: signer_count_def bm_count_def forged_qc_def count_ones_def)

lemma forged_accepted:
  assumes "v = 1 \<or> v - 1 \<noteq> 0"
  shows "ingress_wire_with_qc_verification demo_wire 10 (WireProposal (forged_proposal v)) demo_set_history demo_key_history
      demo_qv 0
    = Some (Inr [DispatchSafety (ProposalReceived \<lparr> vrf_value = forged_proposal v, vrf_signer = 10 \<rparr>),
                 DispatchPacemaker (OnProposalReceived v), DispatchPacemaker (OnQc (v - 1))])"
proof -
  have "verify_signer_at 10 v demo_set_history demo_key_history = Some (Inr 10)"
    using demo_speaks_for(1) by (simp add: verify_signer_at_ok[OF demo_set_history_wf])
  moreover have "verify_sig demo_wire DOMAIN_PROPOSAL (we_pc_proposal demo_wire) (forged_proposal v) 0 = Inr ()"
    using demo_domain_short by (simp add: verify_sig_ok signed_ok_def preimage_def demo_wire_def forged_proposal_def not_less)
  moreover have "verify_qc_if_requested demo_wire (forged_qc (v - 1) (ucast v)) demo_set_history demo_qv 0 = Some (Inr ())"
    using assms by (intro unsigned_certificate_passes forged_unsigned) (auto simp: forged_qc_def demo_qv_def)
  moreover have "verify_proposal_history_commitment demo_wire (demo_block h w v) demo_set_history demo_key_history demo_qv 0
      = Some (Inr ())" for h w
    by (simp add: verify_proposal_history_commitment_def compute_post_block_commitment_def
        apply_reconfig_commands_to_set_history_def apply_rotation_commands_to_histories_def demo_block_def
        validator_history_commitment_v2_def demo_wire_def demo_commit_def demo_qv_def)
  ultimately show ?thesis
    by (simp add: ingress_wire_with_qc_verification_def ingress_proposal_def forged_proposal_def Let_def)
      (simp add: demo_block_def forged_qc_def)
qed

text \<open>One validator of four commits a block alone. It sends four proposals with
  certificates that carry no signature; ingress accepts each of them and the core
  of an honest replica commits the first block.\<close>

theorem forged_certificates_commit:
  "list_all (\<lambda>v. signer (forged_proposal v) = 10 \<and> signer_count (p_justify (payload (forged_proposal v))) = 0) [1, 2, 3, 4]
   \<and> (\<exists>dss as core'.
        map (\<lambda>v. ingress_wire_with_qc_verification demo_wire 10 (WireProposal (forged_proposal v))
               (validator_history (state demo_core)) demo_key_history demo_qv 0) [1, 2, 3, 4] = map (\<lambda>ds. Some (Inr ds)) dss
        \<and> run (step demo_env) demo_core (concat (map safety_events dss)) = Some (as, core')
        \<and> Commit (demo_block 1 1 1) \<in> set as)"
proof -
  let ?ds = "\<lambda>v. [DispatchSafety (ProposalReceived \<lparr> vrf_value = forged_proposal v, vrf_signer = 10 \<rparr>),
                 DispatchPacemaker (OnProposalReceived v), DispatchPacemaker (OnQc (v - 1))]"
  have h: "validator_history (state demo_core) = demo_set_history"
    by (simp add: demo_set_history_def demo_core_def core_new_def hs_new_def with_limits_def set_pending_blocks_limit_def)
  have a: "map (\<lambda>v. ingress_wire_with_qc_verification demo_wire 10 (WireProposal (forged_proposal v))
      (validator_history (state demo_core)) demo_key_history demo_qv 0) [1, 2, 3, 4] = map (\<lambda>ds. Some (Inr ds)) (map ?ds [1, 2, 3, 4])"
    unfolding h by (simp add: forged_accepted)
  have e: "concat (map safety_events (map ?ds [1, 2, 3, 4]))
      = map (\<lambda>v. ProposalReceived \<lparr> vrf_value = forged_proposal v, vrf_signer = 10 \<rparr>) [1, 2, 3, 4]"
    by (simp add: safety_events_def List.map_filter_def)
  have "map_option (\<lambda>(as, _). Commit (demo_block 1 1 1) \<in> set as) (run (step demo_env) demo_core
      (map (\<lambda>v. ProposalReceived \<lparr> vrf_value = forged_proposal v, vrf_signer = 10 \<rparr>) [1, 2, 3, 4])) = Some True"
    by (simp add: demo_eval step_eval forged_proposal_def forged_qc_def)
  then obtain as core' where "run (step demo_env) demo_core (concat (map safety_events (map ?ds [1, 2, 3, 4]))) = Some (as, core')"
    "Commit (demo_block 1 1 1) \<in> set as"
    unfolding e by auto
  moreover have "list_all (\<lambda>v. signer (forged_proposal v) = 10 \<and> signer_count (p_justify (payload (forged_proposal v))) = 0) [1, 2, 3, 4]"
    by (simp add: forged_proposal_def forged_unsigned)
  ultimately show ?thesis using a by blast
qed

end
