(* ===== verification/Persistence.thy ===== *)
theory Persistence
  imports Hotstuff_Safety Snapshot_Store
begin

text \<open>
  What a node writes and how it restarts (\<open>consensus_node/persistence.rs\<close> and the
  storage part of \<open>commit.rs\<close>): the keys, the batch of a sequence of state updates,
  the recovery of the replica state, the walk over stored blocks, the write of a
  committed block and the pruning of old ones. The encoders are third-party code
  and fields of the environment; the store is the in-memory one, whose writes
  succeed.
\<close>

section \<open>Keys\<close>

definition STORAGE_KEY_LAST_VOTED_VIEW :: bytes where
  "STORAGE_KEY_LAST_VOTED_VIEW = ascii ''consensus/last_voted_view''"

definition STORAGE_KEY_LOCKED :: bytes where
  "STORAGE_KEY_LOCKED = ascii ''consensus/locked''"

definition STORAGE_KEY_HIGH_QC :: bytes where
  "STORAGE_KEY_HIGH_QC = ascii ''consensus/high_qc''"

definition STORAGE_KEY_PROPOSED_IN_VIEW :: bytes where
  "STORAGE_KEY_PROPOSED_IN_VIEW = ascii ''consensus/proposed_in_view''"

definition STORAGE_KEY_LAST_TIMEOUT_VOTE :: bytes where
  "STORAGE_KEY_LAST_TIMEOUT_VOTE = ascii ''consensus/last_timeout_vote''"

definition STORAGE_KEY_BLOCK_PREFIX :: bytes where
  "STORAGE_KEY_BLOCK_PREFIX = ascii ''consensus/block/''"

definition STORAGE_KEY_HEIGHT_PREFIX :: bytes where
  "STORAGE_KEY_HEIGHT_PREFIX = ascii ''consensus/height/''"

definition STORAGE_KEY_LAST_COMMITTED :: bytes where
  "STORAGE_KEY_LAST_COMMITTED = ascii ''consensus/last_committed''"

definition block_storage_key :: "hash256 \<Rightarrow> bytes" where
  "block_storage_key h = STORAGE_KEY_BLOCK_PREFIX @ be_bytes 32 h"

definition height_storage_key :: "height \<Rightarrow> bytes" where
  "height_storage_key h = STORAGE_KEY_HEIGHT_PREFIX @ be_bytes 8 h"

definition decode_height_storage_key :: "bytes \<Rightarrow> height option" where
  "decode_height_storage_key k =
     (case strip_prefix STORAGE_KEY_HEIGHT_PREFIX k of
        None \<Rightarrow> None
      | Some suffix \<Rightarrow> if length suffix = 8 then Some (of_be_bytes suffix) else None)"

section \<open>Encodings\<close>

record last_committed =
  lc_height :: height
  lc_view :: view
  lc_hash :: hash256

record persist_codec =
  pe_view :: "view \<Rightarrow> bytes option"
  pd_view :: "bytes \<Rightarrow> view option"
  pe_locked :: "locked \<Rightarrow> bytes option"
  pd_locked :: "bytes \<Rightarrow> locked option"
  pe_qc :: "quorum_certificate \<Rightarrow> bytes option"
  pd_qc :: "bytes \<Rightarrow> quorum_certificate option"
  pe_timeout_vote :: "timeout_vote \<Rightarrow> bytes option"
  pd_timeout_vote :: "bytes \<Rightarrow> timeout_vote option"
  pe_block :: "block \<Rightarrow> bytes option"
  pd_block :: "bytes \<Rightarrow> block option"
  pe_last_committed :: "last_committed \<Rightarrow> bytes option"
  pd_last_committed :: "bytes \<Rightarrow> last_committed option"

datatype persist_error = EncodeError | DecodeError

definition encoded :: "('a \<Rightarrow> bytes option) \<Rightarrow> 'a \<Rightarrow> persist_error + bytes" where
  "encoded pe x = (case pe x of None \<Rightarrow> Inl EncodeError | Some bs \<Rightarrow> Inr bs)"

definition decoded :: "(bytes \<Rightarrow> 'a option) \<Rightarrow> bytes \<Rightarrow> persist_error + 'a" where
  "decoded pd bs = (case pd bs of None \<Rightarrow> Inl DecodeError | Some x \<Rightarrow> Inr x)"

text \<open>Reading an optional entry of the store.\<close>

definition stored :: "(bytes \<Rightarrow> 'a option) \<Rightarrow> memory_storage \<Rightarrow> bytes \<Rightarrow> persist_error + 'a option" where
  "stored pd m k =
     (case ms_get m k of
        None \<Rightarrow> Inr None
      | Some raw \<Rightarrow> (case decoded pd raw of Inl e \<Rightarrow> Inl e | Inr x \<Rightarrow> Inr (Some x)))"

section \<open>Recent certificates\<close>

record recent_qc_cache =
  rq_map :: "(hash256, quorum_certificate) hmap"
  rq_order :: "hash256 list"

definition RECENT_QC_CACHE_CAPACITY :: nat where
  "RECENT_QC_CACHE_CAPACITY = 32"

fun rq_trim :: "nat \<Rightarrow> (hash256, quorum_certificate) hmap \<Rightarrow> hash256 list \<Rightarrow> recent_qc_cache" where
  "rq_trim cap m [] = \<lparr> rq_map = m, rq_order = [] \<rparr>"
| "rq_trim cap m (old # order) =
     (if length (old # order) > cap then rq_trim cap (hm_remove old m) order
      else \<lparr> rq_map = m, rq_order = old # order \<rparr>)"

definition rq_insert :: "hash256 \<Rightarrow> quorum_certificate \<Rightarrow> nat \<Rightarrow> recent_qc_cache \<Rightarrow> recent_qc_cache" where
  "rq_insert h qc cap c =
     (if hm_contains (rq_map c) h then c\<lparr> rq_map := hm_insert h qc (rq_map c) \<rparr>
      else rq_trim cap (hm_insert h qc (rq_map c)) (rq_order c @ [h]))"

definition rq_get :: "recent_qc_cache \<Rightarrow> hash256 \<Rightarrow> quorum_certificate option" where
  "rq_get c h = hm_get (rq_map c) h"

section \<open>State updates\<close>

fun update_key :: "state_update \<Rightarrow> bytes" where
  "update_key (VotedInView v) = STORAGE_KEY_LAST_VOTED_VIEW"
| "update_key (LockedUpdate l) = STORAGE_KEY_LOCKED"
| "update_key (HighQcUpdate qc) = STORAGE_KEY_HIGH_QC"
| "update_key (ProposedInView v) = STORAGE_KEY_PROPOSED_IN_VIEW"

fun update_bytes :: "persist_codec \<Rightarrow> state_update \<Rightarrow> persist_error + bytes" where
  "update_bytes pc (VotedInView v) = encoded (pe_view pc) v"
| "update_bytes pc (LockedUpdate l) = encoded (pe_locked pc) l"
| "update_bytes pc (HighQcUpdate qc) = encoded (pe_qc pc) qc"
| "update_bytes pc (ProposedInView v) = encoded (pe_view pc) v"

definition update_write :: "persist_codec \<Rightarrow> state_update \<Rightarrow> persist_error + write_op" where
  "update_write pc u = (case update_bytes pc u of Inl e \<Rightarrow> Inl e | Inr bs \<Rightarrow> Inr (WPut (update_key u) bs))"

text \<open>The blocks that the updates name, where they are pending.\<close>

definition update_block :: "hotstuff_state \<Rightarrow> state_update \<Rightarrow> (hash256 \<times> block) option" where
  "update_block s u =
     (case (case u of HighQcUpdate qc \<Rightarrow> Some (qc_block_hash qc) | LockedUpdate l \<Rightarrow> Some (l_block_hash l) | _ \<Rightarrow> None) of
        None \<Rightarrow> None
      | Some h \<Rightarrow> map_option (\<lambda>b. (h, b)) (hm_get (pending_blocks s) h))"

definition block_write :: "persist_codec \<Rightarrow> hash256 \<times> block \<Rightarrow> persist_error + write_op" where
  "block_write pc = (\<lambda>(h, b). case encoded (pe_block pc) b of
      Inl e \<Rightarrow> Inl e
    | Inr bs \<Rightarrow> Inr (WPut (block_storage_key h) bs))"

definition persist_batch :: "persist_codec \<Rightarrow> hotstuff_state \<Rightarrow> state_update list \<Rightarrow> persist_error + write_op list" where
  "persist_batch pc s updates =
     (case try_map (block_write pc) (List.map_filter (update_block s) updates) of
        Inl e \<Rightarrow> Inl e
      | Inr blocks \<Rightarrow>
          (case try_map (update_write pc) updates of
             Inl e \<Rightarrow> Inl e
           | Inr writes \<Rightarrow> Inr (writes @ blocks)))"

definition remember_qcs :: "state_update list \<Rightarrow> recent_qc_cache \<Rightarrow> recent_qc_cache" where
  "remember_qcs updates c =
     fold (\<lambda>u c. case u of
         HighQcUpdate qc \<Rightarrow> rq_insert (qc_block_hash qc) qc RECENT_QC_CACHE_CAPACITY c
       | _ \<Rightarrow> c) updates c"

definition persist_updates ::
  "persist_codec \<Rightarrow> hotstuff_state \<Rightarrow> state_update list \<Rightarrow> memory_storage \<times> recent_qc_cache
     \<Rightarrow> persist_error + memory_storage \<times> recent_qc_cache" where
  "persist_updates pc s updates = (\<lambda>(m, c).
     if updates = [] then Inr (m, c)
     else (case persist_batch pc s updates of
             Inl e \<Rightarrow> Inl e
           | Inr ops \<Rightarrow> Inr (ms_apply_batch m ops, remember_qcs updates c)))"

section \<open>Blocks in the store\<close>

definition load_block_from_storage :: "persist_codec \<Rightarrow> memory_storage \<Rightarrow> hash256 \<Rightarrow> persist_error + block option" where
  "load_block_from_storage pc m h = stored (pd_block pc) m (block_storage_key h)"

text \<open>The walk from the tip towards genesis. The sources do not bound it: \<open>None\<close> is a
  walk that never ends.\<close>

partial_function (option) range_walk ::
  "persist_codec \<Rightarrow> memory_storage \<Rightarrow> height \<Rightarrow> height \<Rightarrow> nat \<Rightarrow> block list \<Rightarrow> hash256 \<Rightarrow> (persist_error + block list) option" where
  "range_walk pc m from_height to_height cap collected cursor =
     (case load_block_from_storage pc m cursor of
        Inl e \<Rightarrow> Some (Inl e)
      | Inr None \<Rightarrow> Some (Inr collected)
      | Inr (Some b) \<Rightarrow>
          let h = hdr_height (header b); collected' = (if h \<le> to_height then collected @ [b] else collected) in
          if h < from_height then Some (Inr collected)
          else if h \<le> to_height \<and> cap \<le> length collected' then Some (Inr collected')
          else if h = 0 then Some (Inr collected')
          else range_walk pc m from_height to_height cap collected' (parent_hash (header b)))"

definition load_block_range_from_storage ::
  "persist_codec \<Rightarrow> memory_storage \<Rightarrow> hash256 \<Rightarrow> height \<Rightarrow> height \<Rightarrow> nat \<Rightarrow> (persist_error + block list) option" where
  "load_block_range_from_storage pc m tip from_height to_height cap =
     (if from_height > to_height \<or> cap = 0 then Some (Inr [])
      else if tip = 0 then Some (Inr [])
      else map_option (\<lambda>r. case r of Inl e \<Rightarrow> Inl e | Inr bs \<Rightarrow> Inr (rev bs))
             (range_walk pc m from_height to_height cap [] tip))"

section \<open>Recovery\<close>

definition RECOVER_PARENT_HOPS :: nat where
  "RECOVER_PARENT_HOPS = 2"

fun rehydrate_walk ::
  "hash_prims \<Rightarrow> persist_codec \<Rightarrow> memory_storage \<Rightarrow> nat \<Rightarrow> hash256 \<Rightarrow> hotstuff_state \<Rightarrow> persist_error + hotstuff_state" where
  "rehydrate_walk hp pc m 0 cursor s = Inr s"
| "rehydrate_walk hp pc m (Suc n) cursor s =
     (case hm_get (pending_blocks s) cursor of
        Some b \<Rightarrow>
          if parent_hash (header b) = 0 then Inr s else rehydrate_walk hp pc m n (parent_hash (header b)) s
      | None \<Rightarrow>
          (case load_block_from_storage pc m cursor of
             Inl e \<Rightarrow> Inl e
           | Inr None \<Rightarrow> Inr s
           | Inr (Some b) \<Rightarrow>
               if parent_hash (header b) = 0 then Inr (insert_pending hp b s)
               else rehydrate_walk hp pc m n (parent_hash (header b)) (insert_pending hp b s)))"

definition rehydrate_ancestors ::
  "hash_prims \<Rightarrow> persist_codec \<Rightarrow> memory_storage \<Rightarrow> hotstuff_state \<Rightarrow> hash256 \<Rightarrow> persist_error + hotstuff_state" where
  "rehydrate_ancestors hp pc m s start = rehydrate_walk hp pc m (RECOVER_PARENT_HOPS + 1) start s"

text \<open>The three durable fields read back over a fresh state.\<close>

definition recover_fields ::
  "persist_codec \<Rightarrow> memory_storage \<Rightarrow> hotstuff_state \<Rightarrow> persist_error + hotstuff_state" where
  "recover_fields pc m s =
     (case stored (pd_view pc) m STORAGE_KEY_LAST_VOTED_VIEW of
        Inl e \<Rightarrow> Inl e
      | Inr v \<Rightarrow>
     (case stored (pd_locked pc) m STORAGE_KEY_LOCKED of
        Inl e \<Rightarrow> Inl e
      | Inr l \<Rightarrow>
     (case stored (pd_qc pc) m STORAGE_KEY_HIGH_QC of
        Inl e \<Rightarrow> Inl e
      | Inr q \<Rightarrow>
          Inr (s\<lparr> last_voted_view := (case v of Some v' \<Rightarrow> v' | None \<Rightarrow> last_voted_view s),
                  hs_locked := (case l of Some l' \<Rightarrow> Some l' | None \<Rightarrow> hs_locked s),
                  high_qc := (case q of Some q' \<Rightarrow> Some q' | None \<Rightarrow> high_qc s) \<rparr>))))"

text \<open>\<open>None\<close> is the panic of the genesis certificate of an oversized set.\<close>

definition recover_state ::
  "hash_prims \<Rightarrow> persist_codec \<Rightarrow> memory_storage \<Rightarrow> validator_set \<Rightarrow> block
     \<Rightarrow> (persist_error + hotstuff_state) option" where
  "recover_state hp pc m vs g =
     (case genesis_qc hp g vs of
        None \<Rightarrow> None
      | Some boot_qc \<Rightarrow> Some
          (case recover_fields pc m ((hs_new hp vs g)\<lparr> high_qc := Some boot_qc \<rparr>) of
             Inl e \<Rightarrow> Inl e
           | Inr s \<Rightarrow>
               (case (case high_qc s of
                        None \<Rightarrow> Inr s
                      | Some qc \<Rightarrow> rehydrate_ancestors hp pc m s (qc_block_hash qc)) of
                  Inl e \<Rightarrow> Inl e
                | Inr s' \<Rightarrow>
                    (case hs_locked s' of
                       None \<Rightarrow> Inr s'
                     | Some l \<Rightarrow> rehydrate_ancestors hp pc m s' (l_block_hash l)))))"

section \<open>Committed blocks\<close>

record prune_target =
  pt_height :: "height option"
  pt_height_key :: bytes
  pt_block_key :: "bytes option"

definition prune_target_of :: "bytes \<times> bytes \<Rightarrow> prune_target" where
  "prune_target_of = (\<lambda>(k, hash_bytes).
     \<lparr> pt_height = decode_height_storage_key k, pt_height_key = k,
       pt_block_key = (if length hash_bytes = 32 then Some (block_storage_key (of_be_bytes hash_bytes)) else None) \<rparr>)"

definition prune_targets_for_commit :: "memory_storage \<Rightarrow> height \<Rightarrow> u64 \<Rightarrow> prune_target list" where
  "prune_targets_for_commit m last_height retention_window =
     (if retention_window = 0 then []
      else (case checked_sub last_height retention_window of
        None \<Rightarrow> []
      | Some prune_below \<Rightarrow>
          takeWhile (\<lambda>t. case pt_height t of Some h \<Rightarrow> h < prune_below | None \<Rightarrow> True)
            (map prune_target_of (ms_scan_prefix m STORAGE_KEY_HEIGHT_PREFIX))))"

definition prune_writes :: "prune_target \<Rightarrow> write_op list" where
  "prune_writes t = WDelete (pt_height_key t) # (case pt_block_key t of Some k \<Rightarrow> [WDelete k] | None \<Rightarrow> [])"

definition commit_batch ::
  "persist_codec \<Rightarrow> hash256 \<Rightarrow> block \<Rightarrow> last_committed \<Rightarrow> prune_target list \<Rightarrow> persist_error + write_op list" where
  "commit_batch pc h b lc targets =
     (case encoded (pe_block pc) b of
        Inl e \<Rightarrow> Inl e
      | Inr block_bytes \<Rightarrow>
          (case encoded (pe_last_committed pc) lc of
             Inl e \<Rightarrow> Inl e
           | Inr lc_bytes \<Rightarrow>
               Inr ([WPut (block_storage_key h) block_bytes,
                     WPut (height_storage_key (hdr_height (header b))) (be_bytes 32 h),
                     WPut STORAGE_KEY_LAST_COMMITTED lc_bytes]
                    @ concat (map prune_writes targets))))"

end
