(* ===== verification/Crash_Recovery.thy ===== *)
theory Crash_Recovery
  imports Persistence
begin

text \<open>
  Restarts. The node writes the updates that the core emits, in batches, before
  the actions that follow them (\<open>apply_safety_actions\<close>), and after a crash it
  rebuilds the core from the store (\<open>ConsensusNode::recover\<close>). Broadcasting a
  message feeds it back to the node at once (\<open>drain_loopback\<close>), so that further calls
  into the core, with their own writes and votes, run before the rest of the
  interrupted list of actions. The votes of a replica strictly increase over any
  number of lives with a crash at any point, as long as no such nested call votes while
  the interrupted list still has a vote to record. Adopting a snapshot is the other
  exception: it overwrites the durable record of the last vote.
\<close>

section \<open>Order of writes and actions\<close>

text \<open>The visible effects of \<open>apply_safety_actions\<close>: the batches it writes and the other
  actions it performs.\<close>

datatype io = IoWrite "write_op list" | IoPerform action

definition flush_io :: "persist_codec \<Rightarrow> hotstuff_state \<Rightarrow> state_update list \<Rightarrow> io list option" where
  "flush_io pc s buf =
     (if buf = [] then Some []
      else (case persist_batch pc s buf of Inl _ \<Rightarrow> None | Inr ops \<Rightarrow> Some [IoWrite ops]))"

fun persisted :: "action \<Rightarrow> state_update option" where
  "persisted (Persist u) = Some u"
| "persisted _ = None"

text \<open>Only a broadcast (through the loopback) and the building of a proposal call into the
  core again.\<close>

fun reenters :: "action \<Rightarrow> bool" where
  "reenters (Broadcast msg) = True"
| "reenters (BuildProposal v qc parent) = True"
| "reenters _ = False"

fun records_vote :: "action \<Rightarrow> bool" where
  "records_vote (Persist (VotedInView v)) = True"
| "records_vote _ = False"

text \<open>A call into the core with the calls that run inside it: one list for each of its
  actions that calls into the core again, in order.\<close>

datatype nest = Nest core_call "nest list list"

text \<open>The effects of a list of actions, and of calls in turn. Beside the core, two flags
  are returned: the first is false when an encoder fails, which ends the node; the
  second is false when a nested call moved the last voted view while the interrupted
  list had a vote to record. It is not part of the program.\<close>

function apply_safety_actions ::
  "('g1, 'g2) hs_env \<Rightarrow> persist_codec \<Rightarrow> hotstuff_core \<Rightarrow> state_update list \<Rightarrow> action list \<Rightarrow> nest list list
     \<Rightarrow> (io list \<times> hotstuff_core \<times> bool \<times> bool) option"
  and life ::
  "('g1, 'g2) hs_env \<Rightarrow> persist_codec \<Rightarrow> hotstuff_core \<Rightarrow> nest list \<Rightarrow> (io list \<times> hotstuff_core \<times> bool \<times> bool) option" where
  "apply_safety_actions env pc c buf [] subs =
     Some (case flush_io pc (state c) buf of None \<Rightarrow> ([], c, False, True) | Some w \<Rightarrow> (w, c, True, True))"
| "apply_safety_actions env pc c buf (a # as) subs =
     (case persisted a of
        Some u \<Rightarrow> apply_safety_actions env pc c (buf @ [u]) as subs
      | None \<Rightarrow>
          (case flush_io pc (state c) buf of
             None \<Rightarrow> Some ([], c, False, True)
           | Some w \<Rightarrow>
               (case (if reenters a then subs else []) of
                  [] \<Rightarrow> do { (y, d, k, p) \<leftarrow> apply_safety_actions env pc c [] as subs;
                            Some (w @ IoPerform a # y, d, k, p) }
                | ns # rest \<Rightarrow>
                    do { (x, c1, ok, q) \<leftarrow> life env pc c ns;
                         let q' = (q \<and> (list_ex records_vote as \<longrightarrow> last_voted_view (state c1) = last_voted_view (state c)));
                         if \<not> ok then Some (w @ IoPerform a # x, c1, False, q')
                         else do { (y, d, k, p) \<leftarrow> apply_safety_actions env pc c1 [] as rest;
                                   Some (w @ IoPerform a # x @ y, d, k, q' \<and> p) } })))"
| "life env pc c [] = Some ([], c, True, True)"
| "life env pc c (Nest call subs # ns) =
     do { (as, c1) \<leftarrow> core_exec env c call;
          (x, c2, ok, q) \<leftarrow> apply_safety_actions env pc c1 [] as subs;
          if \<not> ok then Some (x, c2, False, q)
          else do { (y, d, k, p) \<leftarrow> life env pc c2 ns; Some (x @ y, d, k, q \<and> p) } }"
  by pat_completeness auto
termination
  by (relation "measures
      [\<lambda>x. case x of Inl (env, pc, c, buf, as, subs) \<Rightarrow> size_list (size_list size) subs | Inr (env, pc, c, ns) \<Rightarrow> size_list size ns,
       \<lambda>x. case x of Inl (env, pc, c, buf, as, subs) \<Rightarrow> length as | Inr (env, pc, c, ns) \<Rightarrow> 0]")
    (auto split: if_splits)

fun io_apply :: "io \<Rightarrow> memory_storage \<Rightarrow> memory_storage" where
  "io_apply (IoWrite ops) m = ms_apply_batch m ops"
| "io_apply (IoPerform a) m = m"

definition io_store :: "io list \<Rightarrow> memory_storage \<Rightarrow> memory_storage" where
  "io_store ios m = fold io_apply ios m"

fun io_vote :: "io \<Rightarrow> vote option" where
  "io_vote (IoPerform a) = vote_in a"
| "io_vote (IoWrite ops) = None"

definition io_votes :: "io list \<Rightarrow> vote list" where
  "io_votes ios = List.map_filter io_vote ios"

section \<open>Rebuilding the core\<close>

datatype recover_error = RecoverPersist persist_error | RecoverBoundary history_error

text \<open>The core that \<open>ConsensusNode::recover\<close> builds, given the validator history it loaded.\<close>

definition recover_core ::
  "hash_prims \<Rightarrow> persist_codec \<Rightarrow> memory_storage \<Rightarrow> node_id \<Rightarrow> validator_set \<Rightarrow> block \<Rightarrow> cache_limits
     \<Rightarrow> validator_set_history \<Rightarrow> (recover_error + hotstuff_core) option" where
  "recover_core hp pc m me vs g lim sh =
     (case recover_state hp pc m vs g of
        None \<Rightarrow> None
      | Some (Inl e) \<Rightarrow> Some (Inl (RecoverPersist e))
      | Some (Inr s) \<Rightarrow>
          (case stored (pd_view pc) m STORAGE_KEY_PROPOSED_IN_VIEW of
             Inl e \<Rightarrow> Some (Inl (RecoverPersist e))
           | Inr p \<Rightarrow>
               let c = with_proposed_in_view (with_limits me s lim default_counters) (case p of Some v \<Rightarrow> v | None \<Rightarrow> 0) in
               Some (case try_fold (\<lambda>c (v_eff, x). if v_eff = 0 then Inr c else insert_validator_boundary c v_eff x) c (vh_iter sh) of
                       Inl e \<Rightarrow> Inl (RecoverBoundary e)
                     | Inr c' \<Rightarrow> Inr c')))"

section \<open>Tracking the durable vote\<close>

text \<open>Reading a list of actions with the last persisted vote view: every persisted view
  is new, and every broadcast vote is the one just persisted, with no action performed
  in between.\<close>

fun track :: "view \<times> bool \<Rightarrow> action list \<Rightarrow> (view \<times> bool) option" where
  "track (p, f) [] = Some (p, f)"
| "track (p, f) (Persist (VotedInView v) # as) = (if p < v then track (v, True) as else None)"
| "track (p, f) (Persist u # as) = track (p, f) as"
| "track (p, f) (Broadcast (VoteMsg w) # as) = (if f \<and> v_view w = p then track (p, False) as else None)"
| "track (p, f) (_ # as) = track (p, False) as"

fun silent :: "action \<Rightarrow> bool" where
  "silent (Persist (VotedInView v)) = False"
| "silent (Broadcast (VoteMsg w)) = False"
| "silent _ = True"

fun silent_write :: "action \<Rightarrow> bool" where
  "silent_write (Persist (VotedInView v)) = False"
| "silent_write (Persist u) = True"
| "silent_write _ = False"

lemma track_append: "track x (as @ bs) = Option.bind (track x as) (\<lambda>y. track y bs)"
  by (induction x as rule: track.induct) auto

lemma track_silent: "list_all silent as \<Longrightarrow> \<exists>g. track (p, f) as = Some (p, g)"
proof (induction as arbitrary: f)
  case (Cons a as)
  then show ?case by (cases "((p, f), a # as)" rule: track.cases) auto
qed simp

lemma track_writes: "list_all silent_write as \<Longrightarrow> track (p, f) as = Some (p, f)"
proof (induction as)
  case (Cons a as)
  then show ?case by (cases "((p, f), a # as)" rule: track.cases) auto
qed simp

text \<open>A pending vote does not disturb.\<close>

lemma track_pending: "track (p, False) as = Some (q, g) \<Longrightarrow> \<exists>h. track (p, f) as = Some (q, h)"
proof (induction as arbitrary: g f)
  case (Cons a as)
  then show ?case by (cases "((p, False), a # as)" rule: track.cases) (auto split: if_splits)
qed simp

lemma track_mono: "track x as = Some y \<Longrightarrow> fst x \<le> fst y"
proof (induction x as rule: track.induct)
  case (2 p f v as)
  then show ?case by (auto split: if_splits intro: order.trans[OF less_imp_le])
qed (auto split: if_splits)

lemma track_still: "track (p, False) as = Some (p, g) \<Longrightarrow> list_all silent as"
proof (induction as arbitrary: g)
  case (Cons a as)
  then show ?case
  proof (cases "((p, False), a # as)" rule: track.cases)
    case (2 p' f v as')
    then show ?thesis using Cons.prems track_mono[of "(v, True)" as "(p, g)"] by (auto split: if_splits)
  qed (auto split: if_splits)
qed simp

lemma track_unrecorded:
  "track (p, False) as = Some (q, g) \<Longrightarrow> \<not> list_ex records_vote as \<Longrightarrow> q = p \<and> list_all silent as"
proof (induction as arbitrary: g)
  case (Cons a as)
  then show ?case by (cases "((p, False), a # as)" rule: track.cases) (auto split: if_splits)
qed simp

lemma silent_requests: "list_all is_request as \<Longrightarrow> list_all silent as"
proof (induction as)
  case (Cons a as)
  then show ?case by (cases a) auto
qed simp

lemma silent_build: "list_all silent (build_proposal_at_view v c)"
  by (simp add: build_proposal_at_view_def split: option.splits)

lemma silent_propose: "try_propose_as_leader v c = Some as \<Longrightarrow> list_all silent as"
  by (auto simp: try_propose_as_leader_def bind_eq_Some_conv silent_build split: if_splits)

lemma silent_lock: "update_lock parent s = (as, s') \<Longrightarrow> list_all silent_write as"
  by (auto simp: update_lock_def Let_def split: option.splits if_splits)

lemma silent_commit: "commit_on_justify qc s = (as, s') \<Longrightarrow> list_all silent as"
  by (auto simp: commit_on_justify_def split: option.splits)

lemma silent_highs: "list_all silent_write (map (\<lambda>q. Persist (HighQcUpdate q)) qs)"
  by (induction qs) auto

definition tracked :: "hotstuff_core \<Rightarrow> action list \<Rightarrow> hotstuff_core \<Rightarrow> bool" where
  "tracked c as c' \<longleftrightarrow> (\<exists>f. track (last_voted_view (state c), False) as = Some (last_voted_view (state c'), f))"

lemma tracked_silent:
  "list_all silent as \<Longrightarrow> last_voted_view (state c') = last_voted_view (state c) \<Longrightarrow> tracked c as c'"
  by (simp add: tracked_def track_silent)

lemma tracked_refl: "tracked c [] c"
  by (simp add: tracked_silent)

lemma tracked_trans: "tracked c as d \<Longrightarrow> tracked d bs e \<Longrightarrow> tracked c (as @ bs) e"
  unfolding tracked_def track_append by (metis bind.bind_lunit track_pending)

lemma tracked_sync: "sync_only c (as, c') \<Longrightarrow> tracked c as c'"
  by (rule tracked_silent) (auto simp: sync_only_def same_state_fields silent_requests)

lemma tracked_proposal: "tracked c (fst (on_proposal_received hp sp c)) (snd (on_proposal_received hp sp c))"
proof (cases rule: on_proposal_received_cases[of c sp hp])
  case parked
  then show ?thesis using tracked_sync[of c] sync_only_park[of c hp sp] by simp
next
  case (processed vote as1 s2 as2 s3 as4 s4)
  have lv: "last_voted_view s4 = last_voted_view s2"
    using update_lock_frame[OF processed(3)] commit_on_justify_frame[OF processed(4)] by auto
  note sil = silent_lock[OF processed(3)] silent_commit[OF processed(4)]
  from processed(2) show ?thesis
  proof (cases rule: vote_on_proposal_cases)
    case no_vote
    then show ?thesis using processed(5) lv sil by (simp add: tracked_def track_append track_silent track_writes)
  next
    case (voted w qcs)
    have "last_voted_view (state c) < w" using safe_to_vote_view[OF voted(1)] voted(3) by simp
    then show ?thesis using processed(5) lv voted(2,4,5) sil silent_highs
      by (simp add: tracked_def track_append track_silent track_writes)
  qed
qed

lemma tracked_replay: "tracked c (fst (replay_parked hp h c)) (snd (replay_parked hp h c))"
proof (cases "hm_get (parked_proposals c) h")
  case (Some sp)
  then show ?thesis
    using tracked_proposal[of "c\<lparr> parked_proposals := hm_remove h (parked_proposals c),
        block_sync_inflight := hm_remove (parent_hash (header (p_block (payload sp)))) (block_sync_inflight c) \<rparr>" hp sp]
    by (simp add: replay_parked_def tracked_def)
qed (simp add: replay_parked_def tracked_refl)

lemma tracked_extend_each:
  assumes "\<And>x c. tracked c (fst (f x c)) (snd (f x c))"
  shows "tracked c (fst (extend_each f xs c)) (snd (extend_each f xs c))"
proof (induction xs arbitrary: c)
  case (Cons x xs)
  show ?case using tracked_trans[OF assms Cons] by (simp add: case_prod_beta Let_def)
qed (simp add: tracked_refl)

lemma tracked_pacemaker:
  assumes "on_pacemaker_advance env v c = Some (as, c')"
  shows "tracked c as c'"
  using assms
proof (cases rule: on_pacemaker_advance_cases)
  case (1 active as1 c4 as2 as3 as4)
  have "tracked (enter_view v active c) as1 c4"
    using tracked_extend_each[where f = "replay_parked (env_hash env)", OF tracked_replay,
        of "enter_view v active c" "ready_parked (env_order env) (enter_view v active c)"] 1(2) by simp
  then have "tracked c as1 c4" by (simp add: tracked_def enter_view_frame)
  moreover have "tracked c4 as2 c'" using 1(4) by (rule tracked_sync)
  moreover have "tracked c' (as3 @ as4) c'"
    using silent_propose[OF 1(5)] 1(7) by (intro tracked_silent) (auto split: option.splits)
  ultimately show ?thesis using 1(6) tracked_trans by blast
qed

lemma silent_counted:
  assumes "on_counted_vote env v vs idx partial nv c = Some (as, c')"
  shows "list_all silent as"
proof -
  obtain formed qc c1 where 1: "bucket_vote env v vs idx partial c = Some (formed, qc, c1)"
    using assms by (auto simp: on_counted_vote_def bind_eq_Some_conv)
  then show ?thesis using assms
    by (auto simp: on_counted_vote_def bind_eq_Some_conv silent_propose split: if_splits)
qed

lemma silent_vote:
  assumes "on_vote_received env vv c = Some (as, c')"
  shows "list_all silent as"
proof -
  let ?v = "payload (vrf_value (vv_signed vv))" and ?voter = "vrf_signer (vv_signed vv)"
  obtain a where a: "set_at (validator_history (state c)) (v_view ?v) = Some a"
    using assms by (auto simp: on_vote_received_def Let_def bind_eq_Some_conv)
  show ?thesis
  proof (cases "index_of (for_view a (v_view ?v)) ?voter")
    case None
    then show ?thesis using assms a by (simp add: on_vote_received_def Let_def)
  next
    case (Some idx)
    then show ?thesis using assms a
      by (cases "hm_get (vote_dedupe c) (v_view ?v, ?voter)")
        (auto simp: on_vote_received_def Let_def dest: silent_counted split: if_splits)
  qed
qed

lemma silent_new_view: "list_all silent (fst (on_new_view_received sn c))"
  by (auto simp: on_new_view_received_def Let_def try_emit_block_sync_retry_def ask_again_def
      split: option.splits prod.splits)

lemma proposal_event_parts:
  assumes "step env c (ProposalReceived vp) = Some (as, c')"
  obtains ev c1 where "last_voted_view (state c1) = last_voted_view (state c)"
    "as = ev @ fst (on_proposal_received (env_hash env) (vrf_value vp) c1)" "list_all silent ev" "\<not> list_ex reenters ev"
    "c' = snd (on_proposal_received (env_hash env) (vrf_value vp) c1)"
proof -
  let ?c1 = "snd (check_proposal_dedupe (hdr_view (header (p_block (payload (vrf_value vp)))))
      (vrf_signer vp) (block_hash_of (env_hash env) (p_block (payload (vrf_value vp)))) c)"
  have "same_state c ?c1" by (rule same_state_dedupe)
  then have lv: "last_voted_view (state ?c1) = last_voted_view (state c)" by (rule same_state_fields)
  obtain ev where "as = ev @ fst (on_proposal_received (env_hash env) (vrf_value vp) ?c1)" "list_all silent ev"
    "\<not> list_ex reenters ev" "c' = snd (on_proposal_received (env_hash env) (vrf_value vp) ?c1)"
    using assms
    by (force simp: step_def on_proposal_event_def Let_def check_proposal_dedupe_def
        split: prod.splits option.splits if_splits)
  then show thesis using that lv by blast
qed

lemma tracked_step:
  assumes "step env c e = Some (as, c')"
  shows "tracked c as c'"
proof (cases e)
  case (ProposalReceived vp)
  then obtain ev c1 where p: "last_voted_view (state c1) = last_voted_view (state c)"
    "as = ev @ fst (on_proposal_received (env_hash env) (vrf_value vp) c1)" "list_all silent ev"
    "c' = snd (on_proposal_received (env_hash env) (vrf_value vp) c1)"
    using assms by (auto elim: proposal_event_parts)
  have "tracked c ev c1" using p(3,1) by (rule tracked_silent)
  then show ?thesis unfolding p(2,4) using tracked_proposal by (rule tracked_trans)
next
  case (VoteReceived vv)
  then have "on_vote_received env vv c = Some (as, c')" using assms by (simp add: step_def)
  then show ?thesis using on_vote_received_frame[of env vv c as c'] quorum_frame_fields[of c c']
    by (intro tracked_silent silent_vote) auto
next
  case (NewViewReceived vn)
  then have n: "on_new_view_received (vrf_value vn) c = (as, c')" using assms by (simp add: step_def)
  then have "list_all silent as" using silent_new_view[of "vrf_value vn" c] by simp
  moreover have "quorum_frame c c'" using n on_new_view_frame[of "vrf_value vn" c] by simp
  ultimately show ?thesis using quorum_frame_fields[of c c'] by (intro tracked_silent) auto
next
  case (PacemakerAdvance v)
  then show ?thesis using assms tracked_pacemaker by (simp add: step_def)
qed

definition adopts :: "core_call \<Rightarrow> bool" where
  "adopts call = (case call of AdoptSnapshot _ _ _ \<Rightarrow> True | _ \<Rightarrow> False)"

lemma tracked_exec:
  assumes "core_exec env c call = Some (as, c')" and "\<not> adopts call"
  shows "tracked c as c'"
proof (cases call)
  case (HandleEvent e)
  then show ?thesis using assms tracked_step by (simp add: core_exec_def)
next
  case RetryTick
  then show ?thesis using assms sync_only_step_tick[of c] by (intro tracked_sync) (simp add: core_exec_def)
next
  case (BecomeLeader v)
  then show ?thesis using assms by (intro tracked_silent) (auto simp: core_exec_def become_leader_def silent_build)
next
  case (ProposalBuilt v b qc)
  then show ?thesis using assms by (intro tracked_silent) (auto simp: core_exec_def proposal_built_def)
next
  case (InsertPendingBlock b)
  then show ?thesis using assms by (intro tracked_silent) (auto simp: core_exec_def insert_pending_block_def)
next
  case (InsertBoundary v vs)
  then show ?thesis using assms
    by (intro tracked_silent)
       (auto simp: core_exec_def insert_validator_boundary_def Let_def split: sum.splits if_splits)
qed (use assms in \<open>simp add: adopts_def\<close>)

section \<open>The durable vote in the store\<close>

definition durable_vote :: "persist_codec \<Rightarrow> memory_storage \<Rightarrow> view option" where
  "durable_vote pc m =
     (case stored (pd_view pc) m STORAGE_KEY_LAST_VOTED_VIEW of
        Inl _ \<Rightarrow> None
      | Inr None \<Rightarrow> Some 0
      | Inr (Some v) \<Rightarrow> Some v)"

text \<open>What the code relies on of the encoding of views.\<close>

definition view_codec_ok :: "persist_codec \<Rightarrow> bool" where
  "view_codec_ok pc \<longleftrightarrow> (\<forall>v bs. pe_view pc v = Some bs \<longrightarrow> pd_view pc bs = Some v)"

lemma durable_vote_get:
  "ms_get m STORAGE_KEY_LAST_VOTED_VIEW = ms_get m' STORAGE_KEY_LAST_VOTED_VIEW \<Longrightarrow> durable_vote pc m = durable_vote pc m'"
  by (simp add: durable_vote_def stored_def)

lemma durable_vote_put:
  assumes "bt_wf m"
  shows "durable_vote pc (ms_write (WPut k bs) m) =
    (if k = STORAGE_KEY_LAST_VOTED_VIEW then pd_view pc bs else durable_vote pc m)"
  by (simp add: durable_vote_def stored_def decoded_def ms.get_put[OF assms] del: ms_write.simps split: option.split)

lemma voted_key_distinct [simp]:
  "STORAGE_KEY_LOCKED \<noteq> STORAGE_KEY_LAST_VOTED_VIEW" "STORAGE_KEY_HIGH_QC \<noteq> STORAGE_KEY_LAST_VOTED_VIEW"
  "STORAGE_KEY_PROPOSED_IN_VIEW \<noteq> STORAGE_KEY_LAST_VOTED_VIEW" "block_storage_key h \<noteq> STORAGE_KEY_LAST_VOTED_VIEW"
  by (simp_all add: STORAGE_KEY_LAST_VOTED_VIEW_def STORAGE_KEY_LOCKED_def STORAGE_KEY_HIGH_QC_def
      STORAGE_KEY_PROPOSED_IN_VIEW_def block_storage_key_def STORAGE_KEY_BLOCK_PREFIX_def ascii_def)

lemma updates_vote:
  assumes "view_codec_ok pc"
  shows "try_map (update_write pc) us = Inr ws \<Longrightarrow> durable_vote pc m = Some p \<Longrightarrow> bt_wf m
    \<Longrightarrow> track (p, f) (map Persist us) = Some (q, g) \<Longrightarrow> durable_vote pc (fold ms_write ws m) = Some q \<and> bt_wf (fold ms_write ws m)"
proof (induction us arbitrary: ws m p f)
  case (Cons u us)
  obtain x ws' where x: "update_write pc u = Inr x" "ws = x # ws'" "try_map (update_write pc) us = Inr ws'"
    using Cons.prems(1) by (auto split: sum.splits)
  then obtain bs where w: "update_bytes pc u = Inr bs" "ws = WPut (update_key u) bs # ws'" "try_map (update_write pc) us = Inr ws'"
    by (auto simp: update_write_def split: sum.splits)
  let ?m = "ms_write (WPut (update_key u) bs) m"
  have wf: "bt_wf ?m" using Cons.prems(3) by (rule ms.write_ok)
  show ?case
  proof (cases u)
    case (VotedInView v)
    then have "track (v, True) (map Persist us) = Some (q, g)" using Cons.prems(4) by (simp split: if_splits)
    moreover have "durable_vote pc ?m = Some v"
      using w(1) VotedInView assms durable_vote_put[OF Cons.prems(3)]
      by (auto simp: encoded_def view_codec_ok_def simp del: ms_write.simps split: option.splits)
    ultimately show ?thesis using Cons.IH[OF w(3) _ wf] w(2) by simp
  next
    case (LockedUpdate l)
    then show ?thesis using Cons.IH[OF w(3) _ wf] Cons.prems(2,4) w(2) durable_vote_put[OF Cons.prems(3), of pc "update_key u" bs]
      by simp
  next
    case (HighQcUpdate l)
    then show ?thesis using Cons.IH[OF w(3) _ wf] Cons.prems(2,4) w(2) durable_vote_put[OF Cons.prems(3), of pc "update_key u" bs]
      by simp
  next
    case (ProposedInView l)
    then show ?thesis using Cons.IH[OF w(3) _ wf] Cons.prems(2,4) w(2) durable_vote_put[OF Cons.prems(3), of pc "update_key u" bs]
      by simp
  qed
qed simp

lemma blocks_vote:
  "try_map (block_write pc) bs = Inr ws \<Longrightarrow> bt_wf m
    \<Longrightarrow> durable_vote pc (fold ms_write ws m) = durable_vote pc m \<and> bt_wf (fold ms_write ws m)"
proof (induction bs arbitrary: ws m)
  case (Cons x bs)
  obtain y ws' where y: "block_write pc x = Inr y" "ws = y # ws'" "try_map (block_write pc) bs = Inr ws'"
    using Cons.prems(1) by (auto split: sum.splits)
  then obtain h b raw where w: "x = (h, b)" "ws = WPut (block_storage_key h) raw # ws'" "try_map (block_write pc) bs = Inr ws'"
    by (cases x) (auto simp: block_write_def split: sum.splits)
  have wf: "bt_wf (ms_write (WPut (block_storage_key h) raw) m)" using Cons.prems(2) by (rule ms.write_ok)
  show ?case using Cons.IH[OF w(3) wf] w(2) durable_vote_put[OF Cons.prems(2), of pc "block_storage_key h" raw] by simp
qed simp

lemma batch_vote:
  assumes "view_codec_ok pc" "persist_batch pc s us = Inr ops" "durable_vote pc m = Some p" "bt_wf m"
    and "track (p, f) (map Persist us) = Some (q, g)"
  shows "durable_vote pc (ms_apply_batch m ops) = Some q \<and> bt_wf (ms_apply_batch m ops)"
proof -
  obtain blocks ws where w: "try_map (block_write pc) (List.map_filter (update_block s) us) = Inr blocks"
    "try_map (update_write pc) us = Inr ws" "ops = ws @ blocks"
    using assms(2) by (auto simp: persist_batch_def split: sum.splits)
  have 1: "durable_vote pc (fold ms_write ws m) = Some q \<and> bt_wf (fold ms_write ws m)"
    using updates_vote[OF assms(1) w(2) assms(3-5)] .
  then have "durable_vote pc (fold ms_write blocks (fold ms_write ws m)) = durable_vote pc (fold ms_write ws m)
      \<and> bt_wf (fold ms_write blocks (fold ms_write ws m))"
    by (intro blocks_vote[OF w(1)]) simp
  with 1 show ?thesis by (simp add: ms_apply_batch_def w(3))
qed

section \<open>Every prefix of the effects is safe\<close>

text \<open>The store always records a vote view at least as high as every vote performed.\<close>

fun io_ok :: "persist_codec \<Rightarrow> view \<Rightarrow> memory_storage \<Rightarrow> io list \<Rightarrow> bool" where
  "io_ok pc p m [] \<longleftrightarrow> durable_vote pc m = Some p \<and> bt_wf m"
| "io_ok pc p m (IoWrite ops # ios) \<longleftrightarrow> durable_vote pc m = Some p \<and> bt_wf m \<and> (\<exists>q\<ge>p. io_ok pc q (ms_apply_batch m ops) ios)"
| "io_ok pc p m (IoPerform a # ios) \<longleftrightarrow>
     durable_vote pc m = Some p \<and> bt_wf m \<and> (\<forall>v. vote_in a = Some v \<longrightarrow> v_view v \<le> p) \<and> io_ok pc p m ios"

lemma io_votes_simps [simp]:
  "io_votes [] = []"
  "io_votes (x # ios) = (case io_vote x of Some v \<Rightarrow> v # io_votes ios | None \<Rightarrow> io_votes ios)"
  "io_votes (xs @ ys) = io_votes xs @ io_votes ys"
  by (auto simp: io_votes_def map_filter_simps split: option.splits)
     (induction xs; auto simp: map_filter_simps split: option.splits)

lemma io_ok_prefix:
  "io_ok pc p m (xs @ ys) \<Longrightarrow>
     \<exists>r\<ge>p. durable_vote pc (io_store xs m) = Some r \<and> bt_wf (io_store xs m) \<and> (\<forall>v \<in> set (io_votes xs). v_view v \<le> r)"
proof (induction xs arbitrary: p m)
  case Nil
  then show ?case by (cases ys; cases "hd ys") (auto simp: io_store_def)
next
  case (Cons x xs)
  show ?case
  proof (cases x)
    case (IoWrite ops)
    then obtain q where q: "p \<le> q" "io_ok pc q (ms_apply_batch m ops) (xs @ ys)" using Cons.prems by auto
    from Cons.IH[OF q(2)] q(1) show ?thesis by (auto simp: IoWrite io_store_def intro: order_trans)
  next
    case (IoPerform a)
    then have "io_ok pc p m (xs @ ys)" "\<forall>v. vote_in a = Some v \<longrightarrow> v_view v \<le> p" using Cons.prems by auto
    with Cons.IH[OF this(1)] show ?thesis
      by (auto simp: IoPerform io_store_def split: option.splits intro: order_trans)
  qed
qed

lemma io_ok_append:
  "io_ok pc p m xs \<Longrightarrow> durable_vote pc (io_store xs m) = Some q \<Longrightarrow> io_ok pc q (io_store xs m) ys \<Longrightarrow> io_ok pc p m (xs @ ys)"
proof (induction xs arbitrary: p m)
  case Nil
  then show ?case by (auto simp: io_store_def)
next
  case (Cons x xs)
  then show ?case by (cases x) (auto simp: io_store_def)
qed

lemma flush_ok:
  assumes "view_codec_ok pc" "flush_io pc s buf = Some w" "durable_vote pc m = Some p" "bt_wf m"
    and "track (p, f) (map Persist buf) = Some (q, g)"
  shows "io_ok pc p m w \<and> durable_vote pc (io_store w m) = Some q \<and> bt_wf (io_store w m) \<and> io_votes w = []"
proof (cases "buf = []")
  case True
  then show ?thesis using assms by (simp add: flush_io_def io_store_def)
next
  case False
  then obtain ops where "persist_batch pc s buf = Inr ops" "w = [IoWrite ops]"
    using assms(2) by (auto simp: flush_io_def split: sum.splits)
  then show ?thesis using batch_vote[OF assms(1) _ assms(3-5)] assms(3,4) track_mono[OF assms(5)]
    by (auto simp: io_store_def)
qed

text \<open>An action other than a persist performs a vote of the view just persisted, if any.\<close>

lemma track_perform:
  assumes "persisted a = None" "track (p, f) (a # as) = Some y"
  shows "track (p, False) as = Some y" "vote_in a = Some v \<Longrightarrow> f \<and> v_view v = p"
  using assms by (cases "((p, f), a # as)" rule: track.cases; auto split: if_splits)+

lemma persisted_Some: "persisted a = Some u \<longleftrightarrow> a = Persist u"
  by (cases a) auto

lemma track_fresh: "track (p, False) as = Some (q, True) \<Longrightarrow> p < q"
proof (induction as)
  case (Cons a as)
  then show ?case
  proof (cases "((p, False), a # as)" rule: track.cases)
    case (2 p' f v as')
    then show ?thesis using Cons.prems track_mono[of "(v, True)" as "(q, True)"] by (auto split: if_splits)
  qed (auto split: if_splits)
qed simp

section \<open>A life\<close>

text \<open>What a stretch of effects does that starts with the durable vote \<open>p\<close>: it leaves the
  record alone and sends no vote, or it sends increasing votes above \<open>p\<close> (from \<open>p\<close>
  on, when the vote of \<open>p\<close> is still to be sent) and ends with the record \<open>q\<close>.\<close>

definition leaves :: "persist_codec \<Rightarrow> view \<Rightarrow> memory_storage \<Rightarrow> io list \<Rightarrow> bool" where
  "leaves pc p m ios \<longleftrightarrow> io_ok pc p m ios \<and> io_votes ios = [] \<and> durable_vote pc (io_store ios m) = Some p \<and> bt_wf (io_store ios m)"

definition advances :: "persist_codec \<Rightarrow> view \<Rightarrow> bool \<Rightarrow> view \<Rightarrow> memory_storage \<Rightarrow> io list \<Rightarrow> bool \<Rightarrow> bool" where
  "advances pc p f q m ios ok \<longleftrightarrow> io_ok pc p m ios \<and> sorted_wrt (<) (map v_view (io_votes ios))
     \<and> (\<forall>v \<in> set (io_votes ios). if f then p \<le> v_view v else p < v_view v)
     \<and> (ok \<longrightarrow> durable_vote pc (io_store ios m) = Some q \<and> bt_wf (io_store ios m))"

lemma io_store_append: "io_store (xs @ ys) m = io_store ys (io_store xs m)"
  by (simp add: io_store_def)

lemma leaves_advances: "leaves pc p m ios \<Longrightarrow> advances pc p f p m ios ok"
  by (simp add: leaves_def advances_def)

lemma leaves_append: "leaves pc p m xs \<Longrightarrow> leaves pc p (io_store xs m) ys \<Longrightarrow> leaves pc p m (xs @ ys)"
  by (auto simp: leaves_def io_store_append intro: io_ok_append)

lemma advances_append:
  assumes "advances pc p f q m xs True" "advances pc q False r (io_store xs m) ys ok"
  shows "advances pc p f r m (xs @ ys) ok"
proof -
  have q: "durable_vote pc (io_store xs m) = Some q" "io_ok pc p m xs" using assms(1) by (simp_all add: advances_def)
  then have "p \<le> q" "\<forall>v \<in> set (io_votes xs). v_view v \<le> q" using io_ok_prefix[of pc p m xs "[]"] by auto
  then have "sorted_wrt (<) (map v_view (io_votes (xs @ ys)))
      \<and> (\<forall>v \<in> set (io_votes (xs @ ys)). if f then p \<le> v_view v else p < v_view v)"
    using assms by (auto simp: advances_def sorted_wrt_append intro: le_less_trans less_imp_le)
  moreover have "io_ok pc p m (xs @ ys)" using q assms(2) io_ok_append by (auto simp: advances_def)
  ultimately show ?thesis using assms(2) by (simp add: advances_def io_store_append)
qed

text \<open>The writes before an action, and the action.\<close>

lemma flush_perform:
  assumes "view_codec_ok pc" "flush_io pc s buf = Some w" "durable_vote pc m = Some p" "bt_wf m"
    and "track (p, f) (map Persist buf @ a # as) = Some y" "persisted a = None"
  obtains r where "advances pc p f r m (w @ [IoPerform a]) True" "track (r, False) as = Some y"
    "list_all silent (map Persist buf @ [a]) \<longrightarrow> leaves pc p m (w @ [IoPerform a])"
proof -
  obtain r g where r: "track (p, f) (map Persist buf) = Some (r, g)" "track (r, g) (a # as) = Some y"
    using assms(5) by (auto simp: track_append bind_eq_Some_conv)
  note a = track_perform[OF assms(6) r(2)]
  note fl = flush_ok[OF assms(1-4) r(1)]
  have io: "io_ok pc p m (w @ [IoPerform a])"
    using fl a(2) io_ok_append[of pc p m w r "[IoPerform a]"] by (auto simp: io_ok.simps)
  have v: "io_votes (w @ [IoPerform a]) = (case vote_in a of Some v \<Rightarrow> [v] | None \<Rightarrow> [])"
    using fl by (simp split: option.split)
  have st: "io_store (w @ [IoPerform a]) m = io_store w m" by (simp add: io_store_def)
  have "if f then p \<le> v_view x else p < v_view x" if "vote_in a = Some x" for x
    using a(2)[OF that] r(1) track_mono[OF r(1)] track_fresh[of p "map Persist buf" r] by (cases f) auto
  then have adv: "advances pc p f r m (w @ [IoPerform a]) True"
    using io v st fl by (auto simp: advances_def split: option.splits)
  have "leaves pc p m (w @ [IoPerform a])" if s: "list_all silent (map Persist buf @ [a])"
  proof -
    have "vote_in a = None" using s by (cases "vote_in a"; cases a rule: silent.cases) auto
    moreover have "r = p" using track_silent[of "map Persist buf" p f] s r(1) by auto
    ultimately show ?thesis using io v st fl by (simp add: leaves_def)
  qed
  then show thesis using that adv a(1) by blast
qed

fun no_adopt :: "nest \<Rightarrow> bool" where
  "no_adopt (Nest call subs) \<longleftrightarrow> \<not> adopts call \<and> (\<forall>ns \<in> set subs. \<forall>n \<in> set ns. no_adopt n)"

abbreviation voted :: "hotstuff_core \<Rightarrow> view" where
  "voted c \<equiv> last_voted_view (state c)"

lemma exec_grows: "core_exec env c call = Some (as, c') \<Longrightarrow> voted c \<le> voted c'"
  by (drule vote_prog_exec) (simp add: vote_prog_def)

text \<open>The ways a list of actions continues.\<close>

lemma apply_Cons_cases:
  assumes "apply_safety_actions env pc c buf (a # as) subs = Some (ios, d, ok, q)"
  obtains (wrote) u where "persisted a = Some u" "apply_safety_actions env pc c (buf @ [u]) as subs = Some (ios, d, ok, q)"
    | (lost) "ios = []" "d = c" "ok = False" "q = True"
    | (plain) w y where "persisted a = None" "flush_io pc (state c) buf = Some w" "(if reenters a then subs else []) = []"
      "apply_safety_actions env pc c [] as subs = Some (y, d, ok, q)" "ios = w @ IoPerform a # y"
    | (cut) w ns rest x q1 where "reenters a" "persisted a = None" "flush_io pc (state c) buf = Some w"
      "(if reenters a then subs else []) = ns # rest" "subs = ns # rest" "life env pc c ns = Some (x, d, False, q1)"
      "ok = False" "ios = w @ IoPerform a # x" "q = (q1 \<and> (list_ex records_vote as \<longrightarrow> voted d = voted c))"
    | (inside) w ns rest x c1 q1 y p where "reenters a" "persisted a = None" "flush_io pc (state c) buf = Some w"
      "(if reenters a then subs else []) = ns # rest" "subs = ns # rest" "life env pc c ns = Some (x, c1, True, q1)"
      "apply_safety_actions env pc c1 [] as rest = Some (y, d, ok, p)" "ios = w @ IoPerform a # x @ y"
      "q = ((q1 \<and> (list_ex records_vote as \<longrightarrow> voted c1 = voted c)) \<and> p)"
proof (cases "persisted a")
  case (Some u)
  then show thesis using assms wrote by simp
next
  case None
  note pa = None
  show thesis
  proof (cases "flush_io pc (state c) buf")
    case None
    then show thesis using assms lost pa by simp
  next
    case (Some w)
    show thesis
    proof (cases "if reenters a then subs else []")
      case Nil
      then show thesis using plain[OF pa Some Nil] assms pa Some by (auto simp: bind_eq_Some_conv)
    next
      case (Cons ns rest)
      then have subs: "reenters a" "subs = ns # rest" by (simp_all split: if_splits)
      have r: "life env pc c ns \<bind> (\<lambda>(x, c1, ok, q).
          let q' = (q \<and> (list_ex records_vote as \<longrightarrow> voted c1 = voted c)) in
          if \<not> ok then Some (w @ IoPerform a # x, c1, False, q')
          else apply_safety_actions env pc c1 [] as rest \<bind> (\<lambda>(y, d, k, p). Some (w @ IoPerform a # x @ y, d, k, q' \<and> p)))
          = Some (ios, d, ok, q)"
        using assms pa Some Cons by simp
      then obtain x c1 ok1 q1 where l: "life env pc c ns = Some (x, c1, ok1, q1)" by (auto simp: bind_eq_Some_conv)
      show thesis
      proof (cases ok1)
        case False
        then show thesis using cut[OF subs(1) pa Some Cons subs(2)] l r by (auto simp: Let_def)
      next
        case True
        then show thesis using inside[OF subs(1) pa Some Cons subs(2)] l r by (auto simp: bind_eq_Some_conv Let_def)
      qed
    qed
  qed
qed

text \<open>Induction over the effects: one case for each way the two functions continue.\<close>

lemma effects_induct:
  assumes flushed: "\<And>c buf subs w. flush_io pc (state c) buf = Some w \<Longrightarrow> P c buf [] subs w c True True"
    and lost: "\<And>c buf as subs. P c buf as subs [] c False True"
    and wrote: "\<And>c buf u as subs ios d ok q. P c (buf @ [u]) as subs ios d ok q \<Longrightarrow> P c buf (Persist u # as) subs ios d ok q"
    and plain: "\<And>c buf w a as subs y d k p. persisted a = None \<Longrightarrow> flush_io pc (state c) buf = Some w
      \<Longrightarrow> P c [] as subs y d k p \<Longrightarrow> P c buf (a # as) subs (w @ IoPerform a # y) d k p"
    and cut: "\<And>c buf w a as ns rest x d q. reenters a \<Longrightarrow> flush_io pc (state c) buf = Some w \<Longrightarrow> Q c ns x d False q
      \<Longrightarrow> P c buf (a # as) (ns # rest) (w @ IoPerform a # x) d False
            (q \<and> (list_ex records_vote as \<longrightarrow> voted d = voted c))"
    and inside: "\<And>c buf w a as ns rest x c1 q y d k p. reenters a \<Longrightarrow> flush_io pc (state c) buf = Some w
      \<Longrightarrow> Q c ns x c1 True q \<Longrightarrow> P c1 [] as rest y d k p
      \<Longrightarrow> P c buf (a # as) (ns # rest) (w @ IoPerform a # x @ y) d k
            ((q \<and> (list_ex records_vote as \<longrightarrow> voted c1 = voted c)) \<and> p)"
    and idle: "\<And>c. Q c [] [] c True True"
    and stop: "\<And>c call as c1 subs x d q ns. core_exec env c call = Some (as, c1) \<Longrightarrow> P c1 [] as subs x d False q
      \<Longrightarrow> Q c (Nest call subs # ns) x d False q"
    and go: "\<And>c call as c1 subs x c2 q ns y d k p. core_exec env c call = Some (as, c1) \<Longrightarrow> P c1 [] as subs x c2 True q
      \<Longrightarrow> Q c2 ns y d k p \<Longrightarrow> Q c (Nest call subs # ns) (x @ y) d k (q \<and> p)"
  shows "apply_safety_actions env pc c buf as subs = Some (ios, d, ok, q) \<Longrightarrow> P c buf as subs ios d ok q"
    and "life env pc c ns = Some (ios, d, ok, q) \<Longrightarrow> Q c ns ios d ok q"
proof -
  have "apply_safety_actions e k c buf as subs = Some (ios, d, ok, q) \<Longrightarrow> e = env \<Longrightarrow> k = pc \<Longrightarrow> P c buf as subs ios d ok q"
    and "life e k c ns = Some (ios, d, ok, q) \<Longrightarrow> e = env \<Longrightarrow> k = pc \<Longrightarrow> Q c ns ios d ok q" for e k
  proof (induction e k c buf as subs and e k c ns arbitrary: ios d ok q and ios d ok q
      rule: apply_safety_actions_life.induct)
    case (1 e k c buf subs)
    then show ?case using flushed lost by (auto split: option.splits)
  next
    case (2 e k c buf a as subs)
    from 2(5) show ?case
    proof (cases rule: apply_Cons_cases)
      case (wrote u)
      then show ?thesis using 2(4,6,7) assms(3) by (simp add: persisted_Some)
    next
      case lost
      then show ?thesis using assms(2) by simp
    next
      case (plain w y)
      then show ?thesis using 2(1)[OF plain(1-4)] 2(6,7) assms(4) by simp
    next
      case (cut w ns rest x q1)
      then show ?thesis using 2(2)[OF cut(2-4,6)] 2(6,7) assms(5) by simp
    next
      case (inside w ns rest x c1 q1 y p)
      have "P c1 [] as rest y d ok p" using 2(3)[OF inside(2-4,6) refl refl refl refl _ inside(7)] 2(6,7) by simp
      then show ?thesis using 2(2)[OF inside(2-4,6)] 2(6,7) assms(6) inside by simp
    qed
  next
    case (3 e k c)
    then show ?case using idle by simp
  next
    case (4 e k c call subs ns)
    note eq = 4(3-5)
    obtain as c1 where c1: "core_exec e c call = Some (as, c1)" using eq(1) by (auto simp: bind_eq_Some_conv)
    obtain x c2 ok1 q1 where a: "apply_safety_actions e k c1 [] as subs = Some (x, c2, ok1, q1)"
      using eq(1) c1 by (auto simp: bind_eq_Some_conv)
    note P = 4(1)[OF c1 refl a eq(2,3)]
    show ?case
    proof (cases ok1)
      case False
      then show ?thesis using stop[of c call as c1 subs x c2 q1 ns] eq c1 a P by auto
    next
      case True
      then obtain y p where y: "life e k c2 ns = Some (y, d, ok, p)" "ios = x @ y" "q = (q1 \<and> p)"
        using eq(1) c1 a by (auto simp: bind_eq_Some_conv)
      have "Q c2 ns y d ok p" using 4(2)[OF c1 refl a refl refl refl _ y(1) eq(2,3)] True by simp
      then show ?thesis using go[of c call as c1 subs x c2 q1 ns y d ok p] c1 P True eq(2) y(2,3) by simp
    qed
  qed
  then show "apply_safety_actions env pc c buf as subs = Some (ios, d, ok, q) \<Longrightarrow> P c buf as subs ios d ok q"
    and "life env pc c ns = Some (ios, d, ok, q) \<Longrightarrow> Q c ns ios d ok q"
    by blast+
qed

text \<open>What the effects of a list of actions and of calls do. The last voted view of the core
  never falls; when it stays, the durable record stays; and when the durable record is
  the one the list (or the core) starts from, the votes sent increase and the record
  follows.\<close>

definition settled :: "persist_codec \<Rightarrow> io list \<Rightarrow> bool" where
  "settled pc ios \<longleftrightarrow> (\<forall>m p. durable_vote pc m = Some p \<longrightarrow> bt_wf m \<longrightarrow> leaves pc p m ios)"

definition acts_ok ::
  "persist_codec \<Rightarrow> hotstuff_core \<Rightarrow> state_update list \<Rightarrow> action list \<Rightarrow> nest list list \<Rightarrow> io list \<Rightarrow> hotstuff_core \<Rightarrow> bool \<Rightarrow> bool \<Rightarrow> bool" where
  "acts_ok pc c buf as subs ios d ok q \<longleftrightarrow> ((\<forall>ns \<in> set subs. \<forall>n \<in> set ns. no_adopt n) \<longrightarrow>
     voted c \<le> voted d
     \<and> (voted d = voted c \<longrightarrow> list_all silent (map Persist buf @ as) \<longrightarrow> settled pc ios)
     \<and> (q \<longrightarrow> (\<forall>m p f g. durable_vote pc m = Some p \<longrightarrow> bt_wf m \<longrightarrow> track (p, f) (map Persist buf @ as) = Some (voted c, g)
          \<longrightarrow> advances pc p f (voted d) m ios ok)))"

definition calls_ok :: "persist_codec \<Rightarrow> hotstuff_core \<Rightarrow> nest list \<Rightarrow> io list \<Rightarrow> hotstuff_core \<Rightarrow> bool \<Rightarrow> bool \<Rightarrow> bool" where
  "calls_ok pc c ns ios d ok q \<longleftrightarrow> ((\<forall>n \<in> set ns. no_adopt n) \<longrightarrow>
     voted c \<le> voted d \<and> (voted d = voted c \<longrightarrow> settled pc ios)
     \<and> (q \<longrightarrow> (\<forall>m. durable_vote pc m = Some (voted c) \<longrightarrow> bt_wf m \<longrightarrow> advances pc (voted c) False (voted d) m ios ok)))"

lemma settled_append: "settled pc xs \<Longrightarrow> settled pc ys \<Longrightarrow> settled pc (xs @ ys)"
  unfolding settled_def by (meson leaves_append leaves_def)

lemma settled_Nil: "settled pc []"
  by (simp add: settled_def leaves_def io_store_def)

lemma advances_cut: "advances pc p f q m ios ok \<Longrightarrow> advances pc p f q' m ios False"
  by (simp add: advances_def)

lemma advances_end: "advances pc p f q m ios True \<Longrightarrow> durable_vote pc (io_store ios m) = Some q \<and> bt_wf (io_store ios m)"
  by (simp add: advances_def)

lemma acts_flushed:
  assumes "view_codec_ok pc" "flush_io pc (state c) buf = Some w"
  shows "acts_ok pc c buf [] subs w c True True"
proof -
  have "settled pc w" if "list_all silent (map Persist buf)"
    using flush_ok[OF assms] track_silent[OF that, where f = False] by (auto simp: settled_def leaves_def) blast+
  moreover have "advances pc p f (voted c) m w True"
    if "durable_vote pc m = Some p" "bt_wf m" "track (p, f) (map Persist buf) = Some (voted c, g)" for m p f g
    using flush_ok[OF assms that] by (simp add: advances_def)
  ultimately show ?thesis by (auto simp: acts_ok_def)
qed

lemma acts_lost: "acts_ok pc c buf as subs [] c False True"
  by (simp add: acts_ok_def settled_Nil advances_def)

lemma acts_wrote: "acts_ok pc c (buf @ [u]) as subs ios d ok q \<Longrightarrow> acts_ok pc c buf (Persist u # as) subs ios d ok q"
  by (simp add: acts_ok_def)

text \<open>The writes before an action and the action, when they are silent.\<close>

lemma settled_perform:
  assumes "view_codec_ok pc" "flush_io pc s buf = Some w" "persisted a = None" "list_all silent (map Persist buf @ [a])"
  shows "settled pc (w @ [IoPerform a])"
  unfolding settled_def
proof (intro allI impI)
  fix m p assume m: "durable_vote pc m = Some p" "bt_wf m"
  obtain g where "track (p, False) (map Persist buf @ a # []) = Some (p, g)" using track_silent[OF assms(4)] by auto
  then show "leaves pc p m (w @ [IoPerform a])" using flush_perform[OF assms(1,2) m _ assms(3)] assms(4) by metis
qed

lemma acts_plain:
  assumes "view_codec_ok pc" "persisted a = None" "flush_io pc (state c) buf = Some w" "acts_ok pc c [] as subs y d k p"
  shows "acts_ok pc c buf (a # as) subs (w @ IoPerform a # y) d k p"
proof -
  have "settled pc ((w @ [IoPerform a]) @ y)" if "list_all silent (map Persist buf @ a # as)" "settled pc y"
    using settled_append[OF settled_perform[OF assms(1,3,2)] that(2)] that(1) by simp
  moreover have "advances pc r f (voted d) m ((w @ [IoPerform a]) @ y) k"
    if m: "durable_vote pc m = Some r" "bt_wf m" and t: "track (r, f) (map Persist buf @ a # as) = Some (voted c, g)"
      and IH: "\<forall>m r f g. durable_vote pc m = Some r \<longrightarrow> bt_wf m \<longrightarrow> track (r, f) as = Some (voted c, g)
        \<longrightarrow> advances pc r f (voted d) m y k" for m r f g
  proof -
    obtain r' where "advances pc r f r' m (w @ [IoPerform a]) True" "track (r', False) as = Some (voted c, g)"
      using flush_perform[OF assms(1,3) m t assms(2)] by metis
    then show ?thesis using IH advances_end advances_append by blast
  qed
  ultimately show ?thesis using assms(4) by (auto simp: acts_ok_def)
qed

text \<open>A nested run after an action: the record follows the core, unless a vote of the
  interrupted list is still to be recorded; then both stay.\<close>

lemma nested_advances:
  assumes "calls_ok pc c ns x c1 ok True" "\<forall>n \<in> set ns. no_adopt n" "list_ex records_vote as \<longrightarrow> voted c1 = voted c"
    and "durable_vote pc m = Some r" "bt_wf m" "track (r, False) as = Some (voted c, g)"
  obtains r' g' where "advances pc r False r' m x ok" "track (r', False) as = Some (voted c1, g')"
proof (cases "list_ex records_vote as")
  case True
  then have "settled pc x" using assms(1-3) by (simp add: calls_ok_def)
  then have "advances pc r False r m x ok" using assms(4,5) leaves_advances by (auto simp: settled_def)
  then show thesis using that True assms(3,6) by simp
next
  case False
  then have s: "r = voted c" "list_all silent as" using track_unrecorded[OF assms(6)] by auto
  then have "advances pc r False (voted c1) m x ok" using assms(1,2,4,5) by (auto simp: calls_ok_def)
  then show thesis using that track_silent[OF s(2)] by blast
qed

lemma acts_cut:
  assumes "view_codec_ok pc" "reenters a" "flush_io pc (state c) buf = Some w" "calls_ok pc c ns x d False q"
  shows "acts_ok pc c buf (a # as) (ns # rest) (w @ IoPerform a # x) d False (q \<and> (list_ex records_vote as \<longrightarrow> voted d = voted c))"
proof -
  have pa: "persisted a = None" using assms(2) by (cases a) auto
  have "settled pc ((w @ [IoPerform a]) @ x)" if "list_all silent (map Persist buf @ a # as)" "settled pc x"
    using settled_append[OF settled_perform[OF assms(1,3) pa] that(2)] that(1) by simp
  moreover have "advances pc r f (voted d) m ((w @ [IoPerform a]) @ x) False"
    if m: "durable_vote pc m = Some r" "bt_wf m" and t: "track (r, f) (map Persist buf @ a # as) = Some (voted c, g)"
      and q: "q" "list_ex records_vote as \<longrightarrow> voted d = voted c" and n: "\<forall>n \<in> set ns. no_adopt n" for m r f g
  proof -
    obtain r' where r': "advances pc r f r' m (w @ [IoPerform a]) True" "track (r', False) as = Some (voted c, g)"
      using flush_perform[OF assms(1,3) m t pa] by metis
    obtain r2 where "advances pc r' False r2 (io_store (w @ [IoPerform a]) m) x False"
      using nested_advances[OF _ n q(2) _ _ r'(2)] assms(4) q(1) advances_end[OF r'(1)] by metis
    then show ?thesis using r'(1) advances_append advances_cut by blast
  qed
  ultimately show ?thesis using assms(4) by (auto simp: acts_ok_def calls_ok_def)
qed

lemma acts_inside:
  assumes "view_codec_ok pc" "reenters a" "flush_io pc (state c) buf = Some w" "calls_ok pc c ns x c1 True q"
    and "acts_ok pc c1 [] as rest y d k p"
  shows "acts_ok pc c buf (a # as) (ns # rest) (w @ IoPerform a # x @ y) d k
    ((q \<and> (list_ex records_vote as \<longrightarrow> voted c1 = voted c)) \<and> p)"
proof -
  have pa: "persisted a = None" using assms(2) by (cases a) auto
  have "settled pc ((w @ [IoPerform a]) @ (x @ y))"
    if "list_all silent (map Persist buf @ a # as)" "settled pc x" "settled pc y"
    using settled_append[OF settled_perform[OF assms(1,3) pa] settled_append[OF that(2,3)]] that(1) by simp
  moreover have "advances pc r f (voted d) m ((w @ [IoPerform a]) @ (x @ y)) k"
    if m: "durable_vote pc m = Some r" "bt_wf m" and t: "track (r, f) (map Persist buf @ a # as) = Some (voted c, g)"
      and q: "q" "list_ex records_vote as \<longrightarrow> voted c1 = voted c" and n: "\<forall>n \<in> set ns. no_adopt n"
      and IH: "\<forall>m r f g. durable_vote pc m = Some r \<longrightarrow> bt_wf m \<longrightarrow> track (r, f) as = Some (voted c1, g)
        \<longrightarrow> advances pc r f (voted d) m y k" for m r f g
  proof -
    obtain r' where r': "advances pc r f r' m (w @ [IoPerform a]) True" "track (r', False) as = Some (voted c, g)"
      using flush_perform[OF assms(1,3) m t pa] by metis
    obtain r2 g2 where r2: "advances pc r' False r2 (io_store (w @ [IoPerform a]) m) x True" "track (r2, False) as = Some (voted c1, g2)"
      using nested_advances[OF _ n q(2) _ _ r'(2)] assms(4) q(1) advances_end[OF r'(1)] by metis
    have "advances pc r f r2 m ((w @ [IoPerform a]) @ x) True" using advances_append[OF r'(1) r2(1)] .
    then show ?thesis using IH r2(2) advances_end advances_append by (metis append_assoc)
  qed
  ultimately show ?thesis using assms(4,5) by (auto simp: acts_ok_def calls_ok_def)
qed

lemma calls_idle: "calls_ok pc c [] [] c True True"
  by (auto simp: calls_ok_def settled_Nil advances_def io_store_def)

text \<open>A call, seen from the core before it.\<close>

lemma calls_single:
  assumes "core_exec env c call = Some (as, c1)" "acts_ok pc c1 [] as subs x d ok q"
  shows "calls_ok pc c [Nest call subs] x d ok q"
proof -
  have "settled pc x" if n: "no_adopt (Nest call subs)" and still: "voted d = voted c"
  proof -
    have "voted c \<le> voted c1" "voted c1 \<le> voted d" using exec_grows[OF assms(1)] assms(2) n by (auto simp: acts_ok_def)
    then have v: "voted c1 = voted c" using still by simp
    have "tracked c as c1" using tracked_exec[OF assms(1)] n by simp
    then have "list_all silent as" using v track_still by (auto simp: tracked_def)
    then show ?thesis using assms(2) n v still by (simp add: acts_ok_def)
  qed
  moreover have "advances pc (voted c) False (voted d) m x ok"
    if "no_adopt (Nest call subs)" "q" "durable_vote pc m = Some (voted c)" "bt_wf m" for m
    using tracked_exec[OF assms(1)] assms(2) that by (auto simp: tracked_def acts_ok_def)
  ultimately show ?thesis using exec_grows[OF assms(1)] assms(2) by (auto simp: calls_ok_def acts_ok_def)
qed

lemma calls_stop: "calls_ok pc c [n] x d False q \<Longrightarrow> calls_ok pc c (n # ns) x d False q"
  by (auto simp: calls_ok_def)

lemma calls_go:
  assumes "calls_ok pc c [n] x c2 True q" "calls_ok pc c2 ns y d k p"
  shows "calls_ok pc c (n # ns) (x @ y) d k (q \<and> p)"
proof -
  have "advances pc (voted c) False (voted d) m (x @ y) k"
    if "advances pc (voted c) False (voted c2) m x True"
      "\<forall>m. durable_vote pc m = Some (voted c2) \<longrightarrow> bt_wf m \<longrightarrow> advances pc (voted c2) False (voted d) m y k" for m
    using that advances_end advances_append by blast
  then show ?thesis using assms by (auto simp: calls_ok_def settled_append)
qed

lemma life_ok:
  assumes "view_codec_ok pc" "life env pc c ns = Some (ios, d, ok, q)"
  shows "calls_ok pc c ns ios d ok q"
  by (rule effects_induct(2)[where P = "acts_ok pc" and Q = "calls_ok pc", OF _ _ _ _ _ _ _ _ _ assms(2)])
    (fact acts_flushed[OF assms(1)] acts_lost acts_wrote acts_plain[OF assms(1)] acts_cut[OF assms(1)] acts_inside[OF assms(1)]
      calls_idle calls_stop[OF calls_single] calls_go[OF calls_single])+

lemma rehydrate_walk_voted:
  "rehydrate_walk hp pc m n cursor s = Inr s' \<Longrightarrow> last_voted_view s' = last_voted_view s"
  by (induction hp pc m n cursor s rule: rehydrate_walk.induct) (auto split: option.splits sum.splits if_splits)

lemma rehydrate_ancestors_voted:
  "rehydrate_ancestors hp pc m s h = Inr s' \<Longrightarrow> last_voted_view s' = last_voted_view s"
  unfolding rehydrate_ancestors_def by (rule rehydrate_walk_voted)

lemma insert_boundaries_voted:
  "try_fold (\<lambda>c (v_eff, x). if v_eff = 0 then Inr c else insert_validator_boundary c v_eff x) c bs = Inr c'
    \<Longrightarrow> last_voted_view (state c') = last_voted_view (state c)"
proof (induction bs arbitrary: c)
  case (Cons b bs)
  then show ?case
    by (cases b) (auto simp: insert_validator_boundary_def Let_def split: if_splits sum.splits)
qed simp

lemma recover_fields_voted:
  "recover_fields pc m s = Inr s' \<Longrightarrow> last_voted_view s = 0 \<Longrightarrow> durable_vote pc m = Some (last_voted_view s')"
  by (auto simp: recover_fields_def durable_vote_def split: sum.splits option.splits)

lemma recover_state_voted:
  assumes "recover_state hp pc m vs g = Some (Inr s)"
  shows "durable_vote pc m = Some (last_voted_view s)"
proof -
  obtain q s1 where s1: "recover_fields pc m ((hs_new hp vs g)\<lparr> high_qc := Some q \<rparr>) = Inr s1"
    and r: "(case (case high_qc s1 of None \<Rightarrow> Inr s1 | Some qc \<Rightarrow> rehydrate_ancestors hp pc m s1 (qc_block_hash qc)) of
        Inl e \<Rightarrow> Inl e
      | Inr s' \<Rightarrow> (case hs_locked s' of None \<Rightarrow> Inr s' | Some l \<Rightarrow> rehydrate_ancestors hp pc m s' (l_block_hash l))) = Inr s"
    using assms by (auto simp: recover_state_def split: option.splits sum.splits)
  have "last_voted_view s = last_voted_view s1"
    using r by (auto split: option.splits sum.splits dest!: rehydrate_ancestors_voted)
  then show ?thesis using recover_fields_voted[OF s1] by (simp add: hs_new_def)
qed

lemma recover_core_voted:
  assumes "recover_core hp pc m me vs g lim sh = Some (Inr c)"
  shows "durable_vote pc m = Some (last_voted_view (state c))"
proof -
  obtain s p where s: "recover_state hp pc m vs g = Some (Inr s)"
    "try_fold (\<lambda>c (v_eff, x). if v_eff = 0 then Inr c else insert_validator_boundary c v_eff x)
       (with_proposed_in_view (with_limits me s lim default_counters) p) (vh_iter sh) = Inr c"
    using assms by (auto simp: recover_core_def Let_def split: option.splits sum.splits)
  have "last_voted_view (state c) = last_voted_view s"
    using insert_boundaries_voted[OF s(2)]
    by (simp add: with_proposed_in_view_def with_limits_def set_pending_blocks_limit_def)
  then show ?thesis using recover_state_voted[OF s(1)] by simp
qed

section \<open>Where nested votes can disturb\<close>

text \<open>Every call but a view change records its vote before its first action that calls into
  the core again, so only the replay of parked proposals can be disturbed.\<close>

fun recorded_first :: "action list \<Rightarrow> bool" where
  "recorded_first [] = True"
| "recorded_first (a # as) = ((reenters a \<longrightarrow> \<not> list_ex records_vote as) \<and> recorded_first as)"

lemma recorded_first_append:
  "recorded_first (as @ bs) \<longleftrightarrow> recorded_first as \<and> recorded_first bs \<and> (list_ex reenters as \<longrightarrow> \<not> list_ex records_vote bs)"
  by (induction as) auto

lemma silent_unrecorded: "list_all silent as \<Longrightarrow> \<not> list_ex records_vote as \<and> recorded_first as"
proof (induction as)
  case (Cons a as)
  then show ?case by (cases a rule: silent.cases) auto
qed simp

lemma silent_write_plain: "list_all silent_write as \<Longrightarrow> list_all silent as \<and> \<not> list_ex reenters as"
proof (induction as)
  case (Cons a as)
  then show ?case by (cases a rule: silent_write.cases) auto
qed simp

lemma recorded_first_proposal: "recorded_first (fst (on_proposal_received hp sp c))"
proof (cases rule: on_proposal_received_cases[of c sp hp])
  case parked
  then show ?thesis using sync_only_park[of c hp sp] by (simp add: sync_only_def silent_requests silent_unrecorded)
next
  case (processed vote as1 s2 as2 s3 as4 s4)
  have c: "list_all silent_write as2" "list_all silent as4"
    using silent_lock[OF processed(3)] silent_commit[OF processed(4)] by simp_all
  from processed(2) show ?thesis
  proof (cases rule: vote_on_proposal_cases)
    case no_vote
    then show ?thesis using processed(5) c silent_write_plain[OF c(1)] by (simp add: silent_unrecorded)
  next
    case (voted w qcs)
    have "recorded_first as1 \<and> \<not> list_ex reenters as1"
      using voted(4) silent_write_plain[OF silent_highs, of qcs] silent_unrecorded by simp
    moreover have "recorded_first as2 \<and> \<not> list_ex records_vote as2 \<and> \<not> list_ex reenters as2"
      using silent_write_plain[OF c(1)] silent_unrecorded by blast
    ultimately show ?thesis
      using processed(5) voted(2-5) silent_unrecorded[OF c(2)] by (simp add: recorded_first_append)
  qed
qed

definition view_change :: "core_call \<Rightarrow> bool" where
  "view_change call = (case call of HandleEvent (PacemakerAdvance v) \<Rightarrow> True | _ \<Rightarrow> False)"

fun no_view_change :: "nest \<Rightarrow> bool" where
  "no_view_change (Nest call subs) \<longleftrightarrow> \<not> view_change call \<and> (\<forall>ns \<in> set subs. \<forall>n \<in> set ns. no_view_change n)"

lemma recorded_first_exec:
  assumes "core_exec env c call = Some (as, c')" "\<not> view_change call"
  shows "recorded_first as"
proof (cases call)
  case (HandleEvent e)
  then have s: "step env c e = Some (as, c')" using assms(1) by (simp add: core_exec_def)
  show ?thesis
  proof (cases e)
    case (ProposalReceived vp)
    then obtain ev d where "as = ev @ fst (on_proposal_received (env_hash env) (vrf_value vp) d)" "list_all silent ev"
      "\<not> list_ex reenters ev"
      using s by (auto elim: proposal_event_parts)
    then show ?thesis using recorded_first_proposal silent_unrecorded by (auto simp: recorded_first_append)
  next
    case (VoteReceived vv)
    then have "on_vote_received env vv c = Some (as, c')" using s by (simp add: step_def)
    then show ?thesis using silent_vote silent_unrecorded by blast
  next
    case (NewViewReceived vn)
    then show ?thesis using s silent_new_view[of "vrf_value vn" c] silent_unrecorded by (simp add: step_def)
  qed (use assms(2) HandleEvent in \<open>simp add: view_change_def\<close>)
next
  case RetryTick
  then show ?thesis using assms(1) sync_only_step_tick[of c]
    by (simp add: core_exec_def sync_only_def silent_requests silent_unrecorded)
next
  case (AdoptSnapshot b qc v)
  then show ?thesis using assms(1) by (auto simp: core_exec_def adopt_snapshot_def Let_def)
next
  case (BecomeLeader v)
  then show ?thesis using assms(1) silent_unrecorded[OF silent_build] by (auto simp: core_exec_def become_leader_def)
next
  case (ProposalBuilt v b qc)
  then show ?thesis using assms(1) by (auto simp: core_exec_def proposal_built_def)
next
  case (InsertPendingBlock b)
  then show ?thesis using assms(1) by (auto simp: core_exec_def)
next
  case (InsertBoundary v vs)
  then show ?thesis using assms(1) by (auto simp: core_exec_def split: sum.splits)
qed

lemma orderly_without_view_change:
  assumes "life env pc c ns = Some (ios, d, ok, q)"
  shows "\<forall>n \<in> set ns. no_view_change n \<Longrightarrow> q"
proof -
  let ?P = "\<lambda>c buf as subs ios d ok q. recorded_first as \<longrightarrow> (\<forall>ns \<in> set subs. \<forall>n \<in> set ns. no_view_change n) \<longrightarrow> q"
  let ?Q = "\<lambda>c ns ios d ok q. (\<forall>n \<in> set ns. no_view_change n) \<longrightarrow> q"
  have "?Q c ns ios d ok q"
    by (rule effects_induct(2)[where P = ?P and Q = ?Q, OF _ _ _ _ _ _ _ _ _ assms]) (auto dest: recorded_first_exec)
  then show "\<forall>n \<in> set ns. no_view_change n \<Longrightarrow> q" by blast
qed

section \<open>Any number of lives\<close>

text \<open>What a replica has voted and stored after any number of lives: it starts with an
  empty store, and every further life recovers a core, runs some calls, each with the
  calls nested inside it, and crashes after some of their effects. No call adopts a
  snapshot, and no nested call votes while the interrupted list has a vote to
  record.\<close>

inductive lives ::
  "('g1, 'g2) hs_env \<Rightarrow> persist_codec \<Rightarrow> node_id \<Rightarrow> validator_set \<Rightarrow> block \<Rightarrow> cache_limits \<Rightarrow> vote list \<Rightarrow> memory_storage \<Rightarrow> bool"
  for env pc me vs g lim where
  boot: "lives env pc me vs g lim [] []"
| restart: "lives env pc me vs g lim votes m \<Longrightarrow> recover_core (env_hash env) pc m me vs g lim sh = Some (Inr c)
    \<Longrightarrow> life env pc c ns = Some (ios, c', ok, True) \<Longrightarrow> \<forall>n \<in> set ns. no_adopt n
    \<Longrightarrow> lives env pc me vs g lim (votes @ io_votes (take n ios)) (io_store (take n ios) m)"

lemma lives_inv:
  assumes "lives env pc me vs g lim votes m" "view_codec_ok pc"
  shows "sorted_wrt (<) (map v_view votes) \<and> bt_wf m \<and> (\<forall>r. durable_vote pc m = Some r \<longrightarrow> (\<forall>v \<in> set votes. v_view v \<le> r))"
  using assms
proof (induction rule: lives.induct)
  case (restart votes m sh c ns ios c' ok n)
  let ?p = "last_voted_view (state c)" and ?xs = "take n ios"
  have d: "durable_vote pc m = Some ?p" using restart(2) by (rule recover_core_voted)
  have IH: "sorted_wrt (<) (map v_view votes)" "bt_wf m" "\<forall>v \<in> set votes. v_view v \<le> ?p"
    using restart d by auto
  have "advances pc ?p False (voted c') m ios ok"
    using life_ok[OF restart.prems restart(3)] restart(4) d IH(2) by (simp add: calls_ok_def)
  then have l: "io_ok pc ?p m ios \<and> sorted_wrt (<) (?p # map v_view (io_votes ios))"
    by (auto simp: advances_def)
  have cut: "ios = ?xs @ drop n ios" by simp
  then obtain r where r: "?p \<le> r" "durable_vote pc (io_store ?xs m) = Some r" "bt_wf (io_store ?xs m)"
    "\<forall>v \<in> set (io_votes ?xs). v_view v \<le> r"
    using io_ok_prefix[of pc ?p m ?xs "drop n ios"] l by auto
  have "io_votes ios = io_votes ?xs @ io_votes (drop n ios)" by (metis append_take_drop_id io_votes_simps(3))
  then have "sorted_wrt (<) (?p # map v_view (io_votes ?xs))" using l by (simp add: sorted_wrt_append)
  then have "sorted_wrt (<) (map v_view (votes @ io_votes ?xs))"
    using IH(1,3) by (auto simp: sorted_wrt_append intro: le_less_trans)
  then show ?case using r IH(3) by (auto intro: order_trans)
qed simp

text \<open>C23: no double vote across crashes, where no snapshot is adopted. Let a replica live
  any number of lives, each recovered from what the previous one stored and cut off by
  a crash between any two writes or actions, where sending a message or building a
  proposal may run further calls, with their own writes and votes, before the rest of
  the interrupted list of actions. Suppose that no call adopts a snapshot and that no
  such nested call votes while the interrupted list still has a vote to record (which
  only a view change that replays several parked proposals can have, by
  \<open>orderly_without_view_change\<close>), and that the encoding of views round-trips. Then the
  views of all votes it ever sent strictly increase, and whatever the store holds
  records the last of them: the next life votes above all of them.\<close>

theorem no_double_vote_across_crashes:
  assumes "lives env pc me vs g lim votes m" "view_codec_ok pc"
  shows "sorted_wrt (<) (map v_view votes) \<and> distinct (map v_view votes)
    \<and> (\<forall>sh c. recover_core (env_hash env) pc m me vs g lim sh = Some (Inr c) \<longrightarrow>
         (\<forall>v \<in> set votes. v_view v \<le> last_voted_view (state c)))"
  using lives_inv[OF assms] recover_core_voted[of "env_hash env" pc m me vs g lim]
  by (auto simp: strict_sorted_iff)

section \<open>Adopting a snapshot\<close>

text \<open>The store after the updates of an adopted snapshot, all of one batch.\<close>

lemma adopt_store:
  assumes "adopt_snapshot hp c b qc v = (as, c')" "apply_safety_actions env pc c' [] as [] = Some (ios, c', True, True)"
    and "view_codec_ok pc" "bt_wf m"
  shows "durable_vote pc (io_store ios m) = Some v"
proof -
  let ?l = "\<lparr> l_view = v, l_height = hdr_height (header b), l_block_hash = block_hash_of hp b \<rparr>"
  let ?us = "[VotedInView v, LockedUpdate ?l, HighQcUpdate qc]"
  have as: "as = map Persist ?us" using assms(1) by (auto simp: adopt_snapshot_def Let_def)
  obtain ops where ops: "persist_batch pc (state c') ?us = Inr ops" "ios = [IoWrite ops]"
    using assms(2) by (auto simp: as flush_io_def split: sum.splits option.splits if_splits)
  obtain blocks ws where w: "try_map (block_write pc) (List.map_filter (update_block (state c')) ?us) = Inr blocks"
    "try_map (update_write pc) ?us = Inr ws" "ops = ws @ blocks"
    using ops(1) by (auto simp: persist_batch_def split: sum.splits)
  obtain x1 x2 x3 where x: "encoded (pe_view pc) v = Inr x1" "ws =
      [WPut STORAGE_KEY_LAST_VOTED_VIEW x1, WPut STORAGE_KEY_LOCKED x2, WPut STORAGE_KEY_HIGH_QC x3]"
    using w(2) by (auto simp: update_write_def split: sum.splits)
  have "pd_view pc x1 = Some v" using x(1) assms(3) by (auto simp: encoded_def view_codec_ok_def split: option.splits)
  then have 1: "durable_vote pc (fold ms_write ws m) = Some v"
    unfolding x(2) using assms(4) by (simp add: durable_vote_put ms.write_ok del: ms_write.simps)
  have "bt_wf (fold ms_write ws m)" using ms.batch_ok[OF assms(4), of ws] by simp
  then have "durable_vote pc (fold ms_write blocks (fold ms_write ws m)) = durable_vote pc (fold ms_write ws m)"
    by (simp add: blocks_vote[OF w(1)])
  with 1 show ?thesis by (simp add: ops(2) io_store_def ms_apply_batch_def w(3))
qed

text \<open>Adopting a snapshot forgets later votes. When a snapshot of an older view than
  the replica's last vote is adopted, the core in memory keeps its last voted view
  but the store records the older view of the snapshot, so the core recovered
  after a restart is free to vote again in views it has already voted in.\<close>

theorem stale_snapshot_forgets_vote:
  assumes "adopt_snapshot hp c b qc v = (as, c')" "apply_safety_actions env pc c' [] as [] = Some (ios, c', True, True)"
    and "v < last_voted_view (state c)" "view_codec_ok pc" "bt_wf m"
    and "recover_core hp pc (io_store ios m) me vs g lim sh = Some (Inr d)"
  shows "last_voted_view (state c') = last_voted_view (state c) \<and> last_voted_view (state d) = v"
proof
  show "last_voted_view (state c') = last_voted_view (state c)"
    using assms(1,3) by (auto simp: adopt_snapshot_def Let_def insert_pending_def)
  show "last_voted_view (state d) = v"
    using recover_core_voted[OF assms(6)] adopt_store[OF assms(1,2,4,5)] by simp
qed

section \<open>Instance\<close>

definition demo_persist :: persist_codec where
  "demo_persist =
     \<lparr> pe_view = (\<lambda>v. Some (be_bytes 8 v)), pd_view = (\<lambda>bs. Some (of_be_bytes bs)),
       pe_locked = (\<lambda>l. Some [1]), pd_locked = (\<lambda>_. Some \<lparr> l_view = 0, l_height = 0, l_block_hash = 1 \<rparr>),
       pe_qc = (\<lambda>_. Some [2]), pd_qc = (\<lambda>_. Some (demo_qc 0 1)),
       pe_timeout_vote = (\<lambda>_. None), pd_timeout_vote = (\<lambda>_. None),
       pe_block = (\<lambda>_. Some [3]), pd_block = (\<lambda>_. Some (demo_block 0 0 0)),
       pe_last_committed = (\<lambda>_. None), pd_last_committed = (\<lambda>_. None) \<rparr>"

lemma demo_persist_ok: "view_codec_ok demo_persist"
  by (simp add: view_codec_ok_def demo_persist_def)

text \<open>A first life that votes for the proposal of view 1 and counts its own vote while it is sent.\<close>

definition demo_boot :: hotstuff_core where
  "demo_boot = with_proposed_in_view (with_limits 20
     ((hs_new demo_hash demo_vs (demo_block 0 0 0))\<lparr> high_qc := genesis_qc demo_hash (demo_block 0 0 0) demo_vs \<rparr>)
     unbounded_for_tests default_counters) 0"

definition demo_life :: "io list" where
  "demo_life =
     [IoWrite [WPut STORAGE_KEY_LAST_VOTED_VIEW (be_bytes 8 (1 :: view))],
      IoPerform (Broadcast (VoteMsg \<lparr> v_view = 1, v_block_hash = 2 \<rparr>))]"

lemma demo_stored:
  "stored (pd_view demo_persist) m k = Inr (map_option of_be_bytes (ms_get m k))"
  "stored (pd_locked demo_persist) m k = Inr (map_option (\<lambda>_. \<lparr> l_view = 0, l_height = 0, l_block_hash = 1 \<rparr>) (ms_get m k))"
  "stored (pd_qc demo_persist) m k = Inr (map_option (\<lambda>_. demo_qc 0 1) (ms_get m k))"
  by (simp_all add: stored_def decoded_def demo_persist_def split: option.splits)

lemma demo_genesis: "genesis_qc demo_hash (demo_block 0 0 0) demo_vs =
    Some \<lparr> qc_view = 0, qc_block_hash = 1, qc_signers = \<lparr> bm_bits = [0], bm_len = 4 \<rparr>, qc_sigs = BlsAggregatedSig empty_aggregate \<rparr>"
  by (simp add: genesis_qc_def genesis_qc_bls_def qc_new_def vs_len_def bm_new_def div_ceil8_def demo_eval)

lemma demo_rehydrate:
  "pending_blocks s = [(1, demo_block 0 0 0)] \<Longrightarrow> rehydrate_ancestors demo_hash pc m s 1 = Inr s"
  by (simp add: rehydrate_ancestors_def RECOVER_PARENT_HOPS_def numeral_3_eq_3 demo_block_def)

lemma demo_recover_state:
  "recover_state demo_hash demo_persist m demo_vs (demo_block 0 0 0) =
     Some (recover_fields demo_persist m ((hs_new demo_hash demo_vs (demo_block 0 0 0))\<lparr> high_qc := genesis_qc demo_hash (demo_block 0 0 0) demo_vs \<rparr>))"
proof -
  have "pending_blocks (hs_new demo_hash demo_vs (demo_block 0 0 0)) = [(1, demo_block 0 0 0)]"
    by (simp add: hs_new_def block_hash_of_def header_hash_def demo_hash_def demo_block_def)
  moreover have "qc_block_hash (demo_qc 0 1) = 1" by (simp add: demo_qc_def)
  moreover have "hs_locked (hs_new demo_hash demo_vs (demo_block 0 0 0)) = None" by (simp add: hs_new_def)
  ultimately show ?thesis
    by (auto simp: recover_state_def recover_fields_def demo_stored demo_genesis demo_rehydrate split: option.splits)
qed

lemma demo_boundaries: "try_fold f c (vh_iter (vh_from_genesis vs)) = f c (0, vs)"
  by (simp add: vh_iter_def vh_from_genesis_def split: sum.split)

lemma demo_recovers_any:
  "\<exists>d. recover_core demo_hash demo_persist m 20 demo_vs (demo_block 0 0 0) unbounded_for_tests (vh_from_genesis demo_vs) = Some (Inr d)"
  by (simp add: recover_core_def demo_recover_state recover_fields_def demo_stored demo_boundaries)

lemma demo_recovers:
  "recover_core demo_hash demo_persist [] 20 demo_vs (demo_block 0 0 0) unbounded_for_tests (vh_from_genesis demo_vs) = Some (Inr demo_boot)"
  by (simp add: recover_core_def demo_recover_state recover_fields_def demo_stored demo_boundaries demo_boot_def ms_get_def)

lemma demo_lives: "\<exists>c. life demo_env demo_persist demo_boot [Nest (HandleEvent (demo_proposal 1 1 1)) [[Nest (HandleEvent (demo_vote 1 2 20)) []]]] = Some (demo_life, c, True, True)"
  by (simp add: core_exec_def demo_boot_def demo_eval step_eval vote_eval pacemaker_eval demo_life_def genesis_qc_def with_proposed_in_view_def
     genesis_qc_bls_def qc_new_def vs_len_def bm_new_def div_ceil8_def flush_io_def persist_batch_def update_write_def
     update_block_def map_filter_simps demo_persist_def encoded_def)

theorem no_double_vote_across_crashes_witness:
  "lives demo_env demo_persist 20 demo_vs (demo_block 0 0 0) unbounded_for_tests
      [\<lparr> v_view = 1, v_block_hash = 2 \<rparr>] (io_store demo_life [])
    \<and> view_codec_ok demo_persist \<and> distinct (map v_view [\<lparr> v_view = 1, v_block_hash = 2 \<rparr>])"
proof -
  obtain c where c: "life demo_env demo_persist demo_boot [Nest (HandleEvent (demo_proposal 1 1 1)) [[Nest (HandleEvent (demo_vote 1 2 20)) []]]] = Some (demo_life, c, True, True)"
    using demo_lives by blast
  have "lives demo_env demo_persist 20 demo_vs (demo_block 0 0 0) unbounded_for_tests
      ([] @ io_votes (take 2 demo_life)) (io_store (take 2 demo_life) [])"
    by (rule lives.restart[where sh = "vh_from_genesis demo_vs", OF lives.boot _ c])
       (use demo_recovers in \<open>simp_all add: demo_env_def adopts_def\<close>)
  then have l: "lives demo_env demo_persist 20 demo_vs (demo_block 0 0 0) unbounded_for_tests
      [\<lparr> v_view = 1, v_block_hash = 2 \<rparr>] (io_store demo_life [])"
    by (simp add: demo_life_def)
  show ?thesis using l demo_persist_ok no_double_vote_across_crashes[OF l demo_persist_ok] by blast
qed

text \<open>A replica that voted in view 5 and adopts a snapshot of view 2.\<close>

definition demo_stale :: hotstuff_core where
  "demo_stale = demo_boot\<lparr> state := (state demo_boot)\<lparr> last_voted_view := 5 \<rparr> \<rparr>"

lemma demo_stale_io:
  "\<exists>ios. case adopt_snapshot demo_hash demo_stale (demo_block 1 1 1) (demo_qc 0 1) 2 of
     (as, c) \<Rightarrow> apply_safety_actions demo_env demo_persist c [] as [] = Some (ios, c, True, True)"
  by (simp add: demo_stale_def demo_boot_def adopt_snapshot_def demo_eval step_eval Let_def genesis_qc_def
     with_proposed_in_view_def genesis_qc_bls_def qc_new_def vs_len_def bm_new_def div_ceil8_def flush_io_def
     persist_batch_def update_write_def update_block_def map_filter_simps block_write_def demo_persist_def encoded_def)

theorem stale_snapshot_forgets_vote_witness:
  "\<exists>m d. last_voted_view (state demo_stale) = 5
    \<and> recover_core demo_hash demo_persist m 20 demo_vs (demo_block 0 0 0) unbounded_for_tests (vh_from_genesis demo_vs) = Some (Inr d)
    \<and> last_voted_view (state d) = 2"
proof -
  obtain as c' where a: "adopt_snapshot demo_hash demo_stale (demo_block 1 1 1) (demo_qc 0 1) 2 = (as, c')" by force
  then obtain ios where ios: "apply_safety_actions demo_env demo_persist c' [] as [] = Some (ios, c', True, True)"
    using demo_stale_io by auto
  obtain d where d: "recover_core demo_hash demo_persist (io_store ios []) 20 demo_vs (demo_block 0 0 0) unbounded_for_tests
      (vh_from_genesis demo_vs) = Some (Inr d)" using demo_recovers_any by blast
  have v: "last_voted_view (state demo_stale) = 5" by (simp add: demo_stale_def)
  have "(2 :: view) < last_voted_view (state demo_stale)" unfolding v by simp
  then have "last_voted_view (state d) = 2"
    using stale_snapshot_forgets_vote[OF a ios _ demo_persist_ok bt_wf_Nil d] by blast
  with v d show ?thesis by blast
qed

end
