(* ===== verification/Mempool.thy ===== *)
theory Mempool
  imports Prelude
begin

text \<open>
  The command pool (\<open>replication/mempool.rs\<close>, \<open>replication/impls/mem_mempool.rs\<close>): a
  bounded first-in first-out queue without duplicates. The locale \<open>mempool\<close> is the
  trait with the laws its clients rely on; a command that is admitted and not
  committed only moves towards the front. The digest is SHA-256, a parameter.
\<close>

section \<open>The in-memory pool\<close>

record in_memory_mempool =
  mp_max_size :: nat
  mp_order :: "bytes list"
  mp_seen :: "hash256 set"

definition mp_new :: "nat \<Rightarrow> in_memory_mempool" where
  "mp_new n = \<lparr> mp_max_size = n, mp_order = [], mp_seen = {} \<rparr>"

text \<open>\<open>insert\<close>: \<open>None\<close> is the error of a full pool, the flag says whether the command is new.\<close>

definition mp_insert :: "(bytes \<Rightarrow> hash256) \<Rightarrow> bytes \<Rightarrow> in_memory_mempool \<Rightarrow> (bool \<times> in_memory_mempool) option" where
  "mp_insert digest cmd m =
     (if digest cmd \<in> mp_seen m then Some (False, m)
      else if mp_max_size m \<le> length (mp_order m) then None
      else Some (True, m\<lparr> mp_order := mp_order m @ [cmd], mp_seen := insert (digest cmd) (mp_seen m) \<rparr>))"

definition mp_propose :: "nat \<Rightarrow> in_memory_mempool \<Rightarrow> bytes list" where
  "mp_propose limit m = take limit (mp_order m)"

definition mp_remove_committed :: "(bytes \<Rightarrow> hash256) \<Rightarrow> bytes list \<Rightarrow> in_memory_mempool \<Rightarrow> in_memory_mempool" where
  "mp_remove_committed digest cmds m =
     (if cmds = [] then m
      else let keys = set (map digest cmds) in
        m\<lparr> mp_order := filter (\<lambda>c. digest c \<notin> keys) (mp_order m), mp_seen := {k \<in> mp_seen m. k \<notin> keys} \<rparr>)"

definition mp_len :: "in_memory_mempool \<Rightarrow> nat" where
  "mp_len m = length (mp_order m)"

definition mp_wf :: "(bytes \<Rightarrow> hash256) \<Rightarrow> in_memory_mempool \<Rightarrow> bool" where
  "mp_wf digest m \<longleftrightarrow> mp_seen m = digest ` set (mp_order m) \<and> distinct (map digest (mp_order m)) \<and> mp_len m \<le> mp_max_size m"

section \<open>The interface\<close>

datatype mp_op = MpInsert bytes | MpRemove "bytes list"

fun mp_op_removes :: "(bytes \<Rightarrow> hash256) \<Rightarrow> bytes \<Rightarrow> mp_op \<Rightarrow> bool" where
  "mp_op_removes digest c (MpInsert _) \<longleftrightarrow> False"
| "mp_op_removes digest c (MpRemove cs) \<longleftrightarrow> digest c \<in> digest ` set cs"

locale mempool =
  fixes digest :: "bytes \<Rightarrow> hash256"
    and pool_ok :: "'mp \<Rightarrow> bool"
    and contents :: "'mp \<Rightarrow> bytes list"
    and admit :: "bytes \<Rightarrow> 'mp \<Rightarrow> (bool \<times> 'mp) option"
    and offer :: "nat \<Rightarrow> 'mp \<Rightarrow> bytes list"
    and drop_committed :: "bytes list \<Rightarrow> 'mp \<Rightarrow> 'mp"
  assumes no_duplicates: "pool_ok m \<Longrightarrow> distinct (map digest (contents m))"
    and admitted: "pool_ok m \<Longrightarrow> admit c m = Some (new, m') \<Longrightarrow>
      pool_ok m' \<and> (new \<longleftrightarrow> digest c \<notin> digest ` set (contents m))
      \<and> contents m' = (if new then contents m @ [c] else contents m)"
    and dropped: "pool_ok m \<Longrightarrow> pool_ok (drop_committed cs m)
      \<and> contents (drop_committed cs m) = filter (\<lambda>c. digest c \<notin> digest ` set cs) (contents m)"
    and offered: "offer n m = take n (contents m)"
begin

text \<open>An operation of the pool; an insertion that fails leaves it as it is.\<close>

fun pool_step :: "mp_op \<Rightarrow> 'mp \<Rightarrow> 'mp" where
  "pool_step (MpInsert c) m = (case admit c m of None \<Rightarrow> m | Some (_, m') \<Rightarrow> m')"
| "pool_step (MpRemove cs) m = drop_committed cs m"

lemma step_ok: "pool_ok m \<Longrightarrow> pool_ok (pool_step op m)"
  by (cases op) (auto simp: dropped split: option.split dest: admitted)

text \<open>A command with what is ahead of it in the queue.\<close>

lemma step_moves_up:
  assumes "pool_ok m" "contents m = xs @ c # ys" "\<not> mp_op_removes digest c op"
  shows "\<exists>xs' ys'. contents (pool_step op m) = xs' @ c # ys' \<and> length xs' \<le> length xs"
proof (cases op)
  case (MpInsert d)
  show ?thesis
  proof (cases "admit d m")
    case None
    then show ?thesis using assms MpInsert by auto
  next
    case (Some r)
    then obtain new m' where r: "admit d m = Some (new, m')" by (cases r) auto
    then show ?thesis using admitted[OF assms(1) r] assms(2) MpInsert by (cases new) auto
  qed
next
  case (MpRemove cs)
  then show ?thesis using dropped[OF assms(1), of cs] assms(2,3) by auto
qed

lemma ops_move_up:
  "pool_ok m \<Longrightarrow> contents m = xs @ c # ys \<Longrightarrow> list_all (\<lambda>op. \<not> mp_op_removes digest c op) ops
    \<Longrightarrow> \<exists>xs' ys'. contents (fold pool_step ops m) = xs' @ c # ys' \<and> length xs' \<le> length xs \<and> pool_ok (fold pool_step ops m)"
proof (induction ops arbitrary: m xs ys)
  case (Cons op ops)
  obtain xs' ys' where 1: "contents (pool_step op m) = xs' @ c # ys'" "length xs' \<le> length xs"
    using step_moves_up[OF Cons.prems(1,2), of op] Cons.prems(3) by auto
  then show ?case using Cons.IH[OF step_ok[OF Cons.prems(1)] 1(1)] Cons.prems(3) by fastforce
qed auto

lemma admitted_is_offered:
  assumes "pool_ok m" "admit c m = Some (True, m')" "list_all (\<lambda>op. \<not> mp_op_removes digest c op) ops"
    and "length (contents m) < n"
  shows "c \<in> set (offer n (fold pool_step ops m'))"
proof -
  have a: "pool_ok m'" "contents m' = contents m @ c # []" using admitted[OF assms(1,2)] by simp_all
  obtain xs ys where "contents (fold pool_step ops m') = xs @ c # ys" "length xs \<le> length (contents m)"
    using ops_move_up[OF a assms(3)] by blast
  moreover obtain k where "n - length xs = Suc k" using assms(4) calculation(2) by (cases "n - length xs") auto
  ultimately show ?thesis by (simp add: offered)
qed

end

section \<open>The in-memory pool implements it\<close>

lemma mp_wf_new: "mp_wf digest (mp_new n)"
  by (simp add: mp_wf_def mp_new_def mp_len_def)

lemma mp_insert_wf:
  "mp_wf digest m \<Longrightarrow> mp_insert digest c m = Some (new, m') \<Longrightarrow>
     mp_wf digest m' \<and> (new \<longleftrightarrow> digest c \<notin> digest ` set (mp_order m))
     \<and> mp_order m' = (if new then mp_order m @ [c] else mp_order m)"
  by (auto simp: mp_insert_def mp_wf_def mp_len_def split: if_splits)

lemma mp_insert_room:
  "mp_len m < mp_max_size m \<Longrightarrow> \<exists>new m'. mp_insert digest c m = Some (new, m') \<and> digest c \<in> mp_seen m'"
  by (cases "digest c \<in> mp_seen m") (auto simp: mp_insert_def mp_len_def)

lemma mp_remove_wf:
  "mp_wf digest m \<Longrightarrow> mp_wf digest (mp_remove_committed digest cs m)
     \<and> mp_order (mp_remove_committed digest cs m) = filter (\<lambda>c. digest c \<notin> digest ` set cs) (mp_order m)"
  by (auto simp: mp_remove_committed_def mp_wf_def mp_len_def Let_def distinct_map_filter
      intro: order_trans[OF length_filter_le])

interpretation mp: mempool digest "mp_wf digest" mp_order "mp_insert digest" mp_propose "mp_remove_committed digest"
  for digest
proof unfold_locales
  fix m c new m'
  assume "mp_wf digest m" "mp_insert digest c m = Some (new, m')"
  then show "mp_wf digest m' \<and> (new \<longleftrightarrow> digest c \<notin> digest ` set (mp_order m))
      \<and> mp_order m' = (if new then mp_order m @ [c] else mp_order m)"
    by (rule mp_insert_wf)
qed (simp_all add: mp_remove_wf mp_propose_def, simp add: mp_wf_def)

definition mp_step :: "(bytes \<Rightarrow> hash256) \<Rightarrow> mp_op \<Rightarrow> in_memory_mempool \<Rightarrow> in_memory_mempool" where
  "mp_step digest op m =
     (case op of
        MpInsert c \<Rightarrow> (case mp_insert digest c m of None \<Rightarrow> m | Some (_, m') \<Rightarrow> m')
      | MpRemove cs \<Rightarrow> mp_remove_committed digest cs m)"

lemma mp_step_pool_step: "mp_step digest = mp.pool_step digest"
  by (intro ext) (auto simp: mp_step_def split: mp_op.split option.split)

text \<open>C31: an admitted command is not lost and not overtaken. The pool never exceeds its
  bound and never holds two commands with one digest; and a command admitted
  behind k others is offered to every proposer that asks for more than k commands,
  after any sequence of insertions (failed ones included) and commits of other
  commands.\<close>

theorem mempool_fair:
  assumes "mp_wf digest m" "mp_insert digest c m = Some (True, m')"
    and "list_all (\<lambda>op. \<not> mp_op_removes digest c op) ops" "mp_len m < n"
  shows "c \<in> set (mp_propose n (fold (mp_step digest) ops m'))
    \<and> mp_len (fold (mp_step digest) ops m') \<le> mp_max_size (fold (mp_step digest) ops m')
    \<and> distinct (map digest (mp_order (fold (mp_step digest) ops m')))"
proof -
  have a: "mp_wf digest m'" "mp_order m' = mp_order m @ c # []" using mp_insert_wf[OF assms(1,2)] by simp_all
  have "mp_wf digest (fold (mp_step digest) ops m')"
    unfolding mp_step_pool_step using mp.ops_move_up[OF a assms(3)] by blast
  moreover have "c \<in> set (mp_propose n (fold (mp_step digest) ops m'))"
    unfolding mp_step_pool_step using mp.admitted_is_offered[OF assms(1-3)] assms(4) by (simp add: mp_len_def)
  ultimately show ?thesis by (simp add: mp_wf_def)
qed

theorem mempool_fair_witness:
  "[1] \<in> set (mp_propose 2 (fold (mp_step (\<lambda>bs. of_nat (length bs))) [MpInsert [1, 2], MpInsert [7], MpRemove [[]]]
      \<lparr> mp_max_size = 2, mp_order = [[], [1]], mp_seen = {0, 1} \<rparr>))"
proof -
  let ?d = "\<lambda>bs :: bytes. of_nat (length bs) :: hash256"
  have "mp_wf ?d \<lparr> mp_max_size = 2, mp_order = [[]], mp_seen = {0} \<rparr>" by (simp add: mp_wf_def mp_len_def)
  moreover have "mp_insert ?d [1] \<lparr> mp_max_size = 2, mp_order = [[]], mp_seen = {0} \<rparr>
      = Some (True, \<lparr> mp_max_size = 2, mp_order = [[], [1]], mp_seen = {0, 1} \<rparr>)"
    by (auto simp: mp_insert_def)
  ultimately show ?thesis
    using mempool_fair[of ?d _ "[1]" _ "[MpInsert [1, 2], MpInsert [7], MpRemove [[]]]" 2]
    by (simp add: mp_len_def)
qed

end
