(* ===== verification/Evidence.thy ===== *)
theory Evidence
  imports Ingress_Safety Mempool Persistence
begin

text \<open>
  Evidence of equivocation from detection to slashing: the messages a node keeps
  (\<open>consensus_node/equivocation.rs\<close>), the proofs it builds from them and submits as
  commands (\<open>equivocation_evidence.rs\<close>), and the committed proofs every node acts on
  (\<open>consensus_node/evidence_apply.rs\<close>). A validator is slashed only for two
  conflicting messages under its own keys, and at most once; and two conflicting
  votes that reach a node lead to a proof that every node accepts.
\<close>

section \<open>Evidence commands\<close>

definition EVIDENCE_TAG :: bytes where
  "EVIDENCE_TAG = ascii ''EVDNC'' @ [0]"

definition MAX_EVIDENCE_AGE_VIEWS :: u64 where
  "MAX_EVIDENCE_AGE_VIEWS = 1024"

record ('g1, 'g2) evidence_env =
  ee_wire :: "('g1, 'g2) wire_env"
  ee_pc_proof :: "equivocation_proof \<Rightarrow> bytes option"
  ee_unpc_proof :: "bytes \<Rightarrow> equivocation_proof option"
  ee_pc_committed :: "(validator_id, view) btree_map \<Rightarrow> bytes option"
  ee_unpc_committed :: "bytes \<Rightarrow> (validator_id, view) btree_map option"


definition is_evidence_payload :: "bytes \<Rightarrow> bool" where
  "is_evidence_payload bs = starts_with bs EVIDENCE_TAG"

definition decode_evidence :: "('g1, 'g2) evidence_env \<Rightarrow> bytes \<Rightarrow> decode_error + equivocation_proof" where
  "decode_evidence env bs = tagged_decode EVIDENCE_TAG (ee_unpc_proof env) bs"

section \<open>Retained messages\<close>



record evidence_state =
  seen_votes :: "(view \<times> validator_id \<times> hash256, vote signed) hmap"
  seen_proposals :: "(view \<times> validator_id \<times> hash256, proposal signed) hmap"
  proofs_built :: u64
  evidence_minted :: "validator_id set"
  committed_evidence :: "(validator_id, view) btree_map"
  ev_mempool :: in_memory_mempool
  ev_storage :: memory_storage




section \<open>Building and submitting proofs\<close>





section \<open>Events of the core\<close>







section \<open>Committed evidence\<close>

definition STORAGE_KEY_COMMITTED_EVIDENCE :: bytes where
  "STORAGE_KEY_COMMITTED_EVIDENCE = ascii ''consensus/committed_evidence''"

text \<open>One command of a committed block: the validator it slashes, if any.\<close>

definition apply_evidence_command ::
  "('g1, 'g2) evidence_env \<Rightarrow> validator_set_history \<Rightarrow> validator_key_history \<Rightarrow> chain_id \<Rightarrow> view \<Rightarrow> bytes
     \<Rightarrow> (validator_id, view) btree_map \<Rightarrow> (validator_id option \<times> (validator_id, view) btree_map) option" where
  "apply_evidence_command env sh kh c block_view cmd m =
     (if \<not> is_evidence_payload cmd then Some (None, m)
      else (case decode_evidence env cmd of
        Inl _ \<Rightarrow> Some (None, m)
      | Inr p \<Rightarrow>
          (case verify_equivocation_proof (ee_wire env) p sh kh c of
             None \<Rightarrow> None
           | Some (Inl _) \<Rightarrow> Some (None, m)
           | Some (Inr who) \<Rightarrow>
               if proof_view p > block_view then Some (None, m)
               else if saturating_sub block_view (proof_view p) > MAX_EVIDENCE_AGE_VIEWS then Some (None, m)
               else if bt_contains m who then Some (None, m)
               else Some (Some who, bt_insert who (proof_view p) m))))"

fun apply_evidence_commands ::
  "('g1, 'g2) evidence_env \<Rightarrow> validator_set_history \<Rightarrow> validator_key_history \<Rightarrow> chain_id \<Rightarrow> view \<Rightarrow> bytes list
     \<Rightarrow> (validator_id, view) btree_map \<Rightarrow> (validator_id list \<times> (validator_id, view) btree_map) option" where
  "apply_evidence_commands env sh kh c v [] m = Some ([], m)"
| "apply_evidence_commands env sh kh c v (cmd # cmds) m =
     (case apply_evidence_command env sh kh c v cmd m of
        None \<Rightarrow> None
      | Some (w, m') \<Rightarrow>
          map_option (\<lambda>(ws, m''). (case w of Some i \<Rightarrow> i # ws | None \<Rightarrow> ws, m''))
            (apply_evidence_commands env sh kh c v cmds m'))"

definition persist_committed_evidence :: "('g1, 'g2) evidence_env \<Rightarrow> evidence_state \<Rightarrow> evidence_state" where
  "persist_committed_evidence env s =
     (case ee_pc_committed env (committed_evidence s) of
        None \<Rightarrow> s
      | Some bs \<Rightarrow> s\<lparr> ev_storage := ms_put (ev_storage s) STORAGE_KEY_COMMITTED_EVIDENCE bs \<rparr>)"

text \<open>The validators handed to \<open>Application::slash\<close>, in order, and the next state.\<close>

definition apply_committed_evidence ::
  "('g1, 'g2) evidence_env \<Rightarrow> validator_set_history \<Rightarrow> validator_key_history \<Rightarrow> chain_id \<Rightarrow> block \<Rightarrow> evidence_state
     \<Rightarrow> (validator_id list \<times> evidence_state) option" where
  "apply_committed_evidence env sh kh c b s =
     (case apply_evidence_commands env sh kh c (hdr_view (header b)) (commands b) (committed_evidence s) of
        None \<Rightarrow> None
      | Some (slashed, m) \<Rightarrow>
          let s' = s\<lparr> committed_evidence := m \<rparr> in
          Some (slashed, if slashed = [] then s' else persist_committed_evidence env s'))"

definition load_committed_evidence :: "('g1, 'g2) evidence_env \<Rightarrow> memory_storage \<Rightarrow> (validator_id, view) btree_map" where
  "load_committed_evidence env m =
     (case ms_get m STORAGE_KEY_COMMITTED_EVIDENCE of
        None \<Rightarrow> []
      | Some raw \<Rightarrow> (case ee_unpc_committed env raw of None \<Rightarrow> [] | Some x \<Rightarrow> x))"

section \<open>Only equivocators are slashed\<close>

text \<open>What justifies slashing a validator in a block: a command of the block that proves,
  under the histories of the time, two conflicting messages of one recent view.\<close>

definition justifies ::
  "('g1, 'g2) evidence_env \<Rightarrow> chain_id \<Rightarrow> validator_id \<Rightarrow> view \<Rightarrow> block \<times> validator_set_history \<times> validator_key_history \<Rightarrow> bool" where
  "justifies env c i v = (\<lambda>(b, sh, kh). \<exists>cmd \<in> set (commands b). \<exists>p. decode_evidence env cmd = Inr p
     \<and> convicts (ee_wire env) sh kh c i p \<and> proof_view p = v
     \<and> unat v \<le> unat (hdr_view (header b)) \<and> unat (hdr_view (header b)) \<le> unat v + 1024)"

lemma verify_proof_convicts:
  assumes "vh_wf sh"
  shows "verify_equivocation_proof env p sh kh c = Some (Inr i) \<longleftrightarrow> convicts env sh kh c i p"
  by (cases p) (auto simp: verify_equivocation_proof_def convicts_def conflicting_pair_ok[OF assms])

lemma evidence_age:
  "\<not> (v > w) \<and> \<not> (saturating_sub w v > MAX_EVIDENCE_AGE_VIEWS) \<longleftrightarrow> unat v \<le> unat w \<and> unat w \<le> unat v + 1024"
  by (auto simp: MAX_EVIDENCE_AGE_VIEWS_def word_less_nat_alt unat_saturating_sub)

text \<open>The outcomes of one command.\<close>

lemma apply_evidence_command_cases:
  assumes "vh_wf sh" "apply_evidence_command env sh kh c w cmd m = Some (r, m')"
  shows "(r = None \<and> m' = m
      \<and> (\<forall>p i. decode_evidence env cmd = Inr p \<longrightarrow> convicts (ee_wire env) sh kh c i p
           \<longrightarrow> unat (proof_view p) \<le> unat w \<longrightarrow> unat w \<le> unat (proof_view p) + 1024 \<longrightarrow> bt_contains m i))
    \<or> (\<exists>p i. r = Some i \<and> \<not> bt_contains m i \<and> m' = bt_insert i (proof_view p) m \<and> decode_evidence env cmd = Inr p
        \<and> convicts (ee_wire env) sh kh c i p \<and> unat (proof_view p) \<le> unat w \<and> unat w \<le> unat (proof_view p) + 1024
        \<and> (\<forall>j. convicts (ee_wire env) sh kh c j p \<longrightarrow> j = i))"
proof (cases "is_evidence_payload cmd \<and> (\<exists>p i. decode_evidence env cmd = Inr p \<and> convicts (ee_wire env) sh kh c i p)")
  case False
  have "is_evidence_payload cmd" if "decode_evidence env cmd = Inr p" for p
    using that by (simp add: is_evidence_payload_def decode_evidence_def tagged_decode_starts)
  then have nc: "\<not> convicts (ee_wire env) sh kh c i p" if "decode_evidence env cmd = Inr p" for p i
    using False that by blast
  then have "verify_equivocation_proof (ee_wire env) p sh kh c \<noteq> Some (Inr i)" if "decode_evidence env cmd = Inr p" for p i
    using verify_proof_convicts[OF assms(1)] that by blast
  then have "r = None \<and> m' = m" using assms(2)
    by (auto simp: apply_evidence_command_def split: if_splits sum.splits option.splits)
  then show ?thesis using nc by blast
next
  case True
  then obtain p i where p: "decode_evidence env cmd = Inr p" "convicts (ee_wire env) sh kh c i p" by blast
  have v: "verify_equivocation_proof (ee_wire env) p sh kh c = Some (Inr i)"
    using verify_proof_convicts[OF assms(1)] p(2) by blast
  have u: "j = i" if "convicts (ee_wire env) sh kh c j p" for j
    using that v verify_proof_convicts[OF assms(1), of "ee_wire env" p kh c j] by simp
  let ?fresh = "unat (proof_view p) \<le> unat w \<and> unat w \<le> unat (proof_view p) + 1024"
  have "(r, m') = (if ?fresh \<and> \<not> bt_contains m i then (Some i, bt_insert i (proof_view p) m) else (None, m))"
    using assms(2) True p(1) v evidence_age[where v = "proof_view p" and w = w]
    by (auto simp: apply_evidence_command_def split: if_splits)
  then consider "r = Some i" "m' = bt_insert i (proof_view p) m" "?fresh" "\<not> bt_contains m i"
    | "r = None" "m' = m" "\<not> ?fresh \<or> bt_contains m i"
    by (auto split: if_splits)
  then show ?thesis
  proof cases
    case 1
    then show ?thesis using p u by (intro disjI2 exI[of _ p] exI[of _ i]) blast
  next
    case 2
    have "bt_contains m j" if "decode_evidence env cmd = Inr q" "convicts (ee_wire env) sh kh c j q"
      "unat (proof_view q) \<le> unat w" "unat w \<le> unat (proof_view q) + 1024" for q j
      using that 2(3) p(1) u[of j] by auto
    then show ?thesis using 2(1,2) by blast
  qed
qed

lemma apply_evidence_commands_ok:
  assumes "vh_wf sh" "hdr_view (header b) = w"
  shows "apply_evidence_commands env sh kh c w cmds m = Some (ws, m') \<Longrightarrow> bt_wf m \<Longrightarrow> set cmds \<subseteq> set (commands b)
    \<Longrightarrow> bt_wf m' \<and> distinct ws \<and> (\<forall>i \<in> set ws. \<not> bt_contains m i \<and> (\<exists>v. bt_get m' i = Some v \<and> justifies env c i v (b, sh, kh)))
      \<and> (\<forall>i. i \<notin> set ws \<longrightarrow> bt_get m' i = bt_get m i)"
proof (induction cmds arbitrary: m ws)
  case (Cons cmd cmds)
  obtain r m1 ws1 where r: "apply_evidence_command env sh kh c w cmd m = Some (r, m1)"
    "apply_evidence_commands env sh kh c w cmds m1 = Some (ws1, m')" "ws = (case r of Some i \<Rightarrow> i # ws1 | None \<Rightarrow> ws1)"
    using Cons.prems(1) by (auto split: option.splits)
  from apply_evidence_command_cases[OF assms(1) r(1)] show ?case
  proof (elim disjE exE conjE)
    assume "r = None" "m1 = m"
    then show ?thesis using Cons.IH[OF r(2)] Cons.prems r(3) by simp
  next
    fix p i
    assume a: "r = Some i" "\<not> bt_contains m i" "m1 = bt_insert i (proof_view p) m" "decode_evidence env cmd = Inr p"
      "convicts (ee_wire env) sh kh c i p" "unat (proof_view p) \<le> unat w" "unat w \<le> unat (proof_view p) + 1024"
    have j: "justifies env c i (proof_view p) (b, sh, kh)"
      using a Cons.prems(3) assms(2) by (auto simp: justifies_def)
    have "bt_wf m1" using Cons.prems(2) a(3) by simp
    note IH = Cons.IH[OF r(2) this]
    have g: "bt_get m1 k = (if k = i then Some (proof_view p) else bt_get m k)" for k
      using Cons.prems(2) a(3) by simp
    have "i \<notin> set ws1" using IH Cons.prems(3) g by (auto simp: bt_contains_def)
    moreover have "\<forall>k \<in> set ws1. bt_get m k = None"
      using IH Cons.prems(3) calculation by (metis bt_contains_def g insert_subset list.simps(15))
    ultimately show ?thesis using IH Cons.prems(3) r(3) a(1,2) g j by (auto simp: bt_contains_def)
  qed
qed auto

fun apply_evidence_blocks ::
  "('g1, 'g2) evidence_env \<Rightarrow> chain_id \<Rightarrow> (block \<times> validator_set_history \<times> validator_key_history) list \<Rightarrow> evidence_state
     \<Rightarrow> (validator_id list \<times> evidence_state) option" where
  "apply_evidence_blocks env c [] s = Some ([], s)"
| "apply_evidence_blocks env c ((b, sh, kh) # bs) s =
     (case apply_committed_evidence env sh kh c b s of
        None \<Rightarrow> None
      | Some (ws, s') \<Rightarrow> map_option (\<lambda>(ws', s''). (ws @ ws', s'')) (apply_evidence_blocks env c bs s'))"

text \<open>What the record of slashed validators relies on of its encoding.\<close>

definition committed_codec_ok :: "('g1, 'g2) evidence_env \<Rightarrow> bool" where
  "committed_codec_ok env \<longleftrightarrow> (\<forall>m. \<exists>bs. ee_pc_committed env m = Some bs \<and> ee_unpc_committed env bs = Some m)"

definition evidence_stored :: "('g1, 'g2) evidence_env \<Rightarrow> evidence_state \<Rightarrow> bool" where
  "evidence_stored env s \<longleftrightarrow> bt_wf (committed_evidence s) \<and> bt_wf (ev_storage s)
     \<and> load_committed_evidence env (ev_storage s) = committed_evidence s"

lemma apply_committed_evidence_ok:
  assumes "vh_wf sh" "committed_codec_ok env" "apply_committed_evidence env sh kh c b s = Some (ws, s')" "evidence_stored env s"
  shows "evidence_stored env s'" "distinct ws"
    and "i \<in> set ws \<Longrightarrow> \<not> bt_contains (committed_evidence s) i \<and> (\<exists>v. justifies env c i v (b, sh, kh))"
    and "bt_contains (committed_evidence s') i \<longleftrightarrow> bt_contains (committed_evidence s) i \<or> i \<in> set ws"
proof -
  obtain m where m: "apply_evidence_commands env sh kh c (hdr_view (header b)) (commands b) (committed_evidence s) = Some (ws, m)"
    "s' = (if ws = [] then s\<lparr> committed_evidence := m \<rparr> else persist_committed_evidence env (s\<lparr> committed_evidence := m \<rparr>))"
    using assms(3) by (auto simp: apply_committed_evidence_def Let_def split: option.splits)
  have wf: "bt_wf (committed_evidence s)" "bt_wf (ev_storage s)" using assms(4) by (simp_all add: evidence_stored_def)
  note ok = apply_evidence_commands_ok[OF assms(1) refl m(1) wf(1) subset_refl]
  obtain bs where bs: "ee_pc_committed env m = Some bs" "ee_unpc_committed env bs = Some m"
    using assms(2) by (auto simp: committed_codec_ok_def)
  have c: "committed_evidence s' = m" by (simp add: m(2) persist_committed_evidence_def bs)
  show "distinct ws" using ok by simp
  show "\<not> bt_contains (committed_evidence s) i \<and> (\<exists>v. justifies env c i v (b, sh, kh))" if "i \<in> set ws"
    using ok that by blast
  show "bt_contains (committed_evidence s') i \<longleftrightarrow> bt_contains (committed_evidence s) i \<or> i \<in> set ws"
    using ok by (cases "i \<in> set ws") (auto simp: c bt_contains_def)
  show "evidence_stored env s'"
  proof (cases "ws = []")
    case True
    then have "m = committed_evidence s" using ok wf(1) by (intro bt_eqI) auto
    then show ?thesis using assms(4) True by (simp add: evidence_stored_def m(2))
  next
    case False
    then show ?thesis using ok wf(2) bs
      by (simp add: evidence_stored_def c) (simp add: m(2) persist_committed_evidence_def load_committed_evidence_def ms_get_def ms_put_def)
  qed
qed

text \<open>C26: slashing is justified, once and durable. Over any sequence of committed blocks,
  each with the histories of its time, every validator handed to the application for
  slashing is convicted by a command of one of the blocks: two conflicting messages
  of one view, not later than the block and at most 1024 views old, both signed
  under that validator's keys. No validator is slashed twice or again, exactly the
  slashed ones are added to the record, and the record reads back from the store
  after a restart.\<close>

theorem slashing_justified_once:
  assumes "apply_evidence_blocks env c bs s = Some (ws, s')" "committed_codec_ok env" "evidence_stored env s"
    and "list_all (\<lambda>(b, sh, kh). vh_wf sh) bs"
  shows "distinct ws \<and> (\<forall>i \<in> set ws. \<not> bt_contains (committed_evidence s) i \<and> (\<exists>x \<in> set bs. \<exists>v. justifies env c i v x))
    \<and> (\<forall>i. bt_contains (committed_evidence s') i \<longleftrightarrow> bt_contains (committed_evidence s) i \<or> i \<in> set ws)
    \<and> load_committed_evidence env (ev_storage s') = committed_evidence s'"
  using assms(1,3,4)
proof (induction bs arbitrary: s ws)
  case (Cons x bs)
  obtain b sh kh where x: "x = (b, sh, kh)" by (cases x)
  obtain ws1 s1 ws2 where r: "apply_committed_evidence env sh kh c b s = Some (ws1, s1)"
    "apply_evidence_blocks env c bs s1 = Some (ws2, s')" "ws = ws1 @ ws2"
    using Cons.prems(1) by (auto simp: x split: option.splits)
  have wf: "vh_wf sh" "list_all (\<lambda>(b, sh, kh). vh_wf sh) bs" using Cons.prems(3) by (simp_all add: x)
  note one = apply_committed_evidence_ok[OF wf(1) assms(2) r(1) Cons.prems(2)]
  note rest = Cons.IH[OF r(2) one(1) wf(2)]
  show ?case using one(2-4) rest by (auto simp: r(3) x)
qed (simp add: evidence_stored_def)

section \<open>Equivocators are slashed\<close>



















section \<open>Instance\<close>

definition enc_evidence :: "(validator_id, view) btree_map \<Rightarrow> bytes" where
  "enc_evidence m = concat (map (\<lambda>(i, v). be_bytes 32 i @ be_bytes 8 v) m)"

function dec_evidence :: "bytes \<Rightarrow> (validator_id, view) btree_map" where
  "dec_evidence bs =
     (if bs = [] then [] else (of_be_bytes (take 32 bs), of_be_bytes (take 8 (drop 32 bs))) # dec_evidence (drop 40 bs))"
  by auto
termination by (relation "measure length") auto

declare dec_evidence.simps [simp del]

lemma dec_enc_evidence: "dec_evidence (enc_evidence m) = m"
proof (induction m)
  case (Cons x m)
  obtain i v where x: "x = (i, v)" by force
  let ?bs = "be_bytes 32 i @ be_bytes 8 v @ enc_evidence m"
  have "?bs \<noteq> []" by (metis append_is_Nil_conv length_be_bytes list.size(3) zero_neq_numeral)
  moreover have "enc_evidence (x # m) = ?bs" by (simp add: enc_evidence_def x)
  ultimately show ?case using Cons.IH by (subst dec_evidence.simps) (simp add: x)
qed (simp add: enc_evidence_def dec_evidence.simps)

definition demo_evidence_env :: "(bls_pk, bls_sig) evidence_env" where
  "demo_evidence_env =
     \<lparr> ee_wire = demo_wire, ee_pc_proof = (\<lambda>_. Some [9]), ee_unpc_proof = (\<lambda>_. Some demo_double_vote),
       ee_pc_committed = (\<lambda>m. Some (enc_evidence m)), ee_unpc_committed = (\<lambda>bs. Some (dec_evidence bs)) \<rparr>"

definition demo_evidence_state :: evidence_state where
  "demo_evidence_state =
     \<lparr> seen_votes = [], seen_proposals = [], proofs_built = 0, evidence_minted = {}, committed_evidence = [],
       ev_mempool = mp_new 10, ev_storage = [] \<rparr>"

definition demo_evidence_block :: block where
  "demo_evidence_block = (demo_block 1 1 5)\<lparr> commands := [EVIDENCE_TAG @ [9]] \<rparr>"

lemma demo_vote_signed:
  "signed_ok demo_wire DOMAIN_VOTE (we_pc_vote demo_wire) \<lparr> payload = \<lparr> v_view = 1, v_block_hash = h \<rparr>, signer = 20, sig = 20 \<rparr> 0"
  using demo_domain_short by (simp add: signed_ok_def preimage_def demo_wire_def not_less)

lemma demo_convicts: "convicts demo_wire demo_set_history demo_key_history 0 20 demo_double_vote"
  using demo_speaks_for(2)[of 1] demo_vote_signed by (simp add: convicts_def demo_double_vote_def)

lemma demo_evidence_applied:
  "\<exists>s'. apply_committed_evidence demo_evidence_env demo_set_history demo_key_history 0 demo_evidence_block demo_evidence_state
     = Some ([20], s')"
proof -
  have "verify_equivocation_proof demo_wire demo_double_vote demo_set_history demo_key_history 0 = Some (Inr 20)"
    using verify_proof_convicts[OF demo_set_history_wf] demo_convicts by blast
  moreover have "decode_evidence demo_evidence_env (EVIDENCE_TAG @ [9]) = Inr demo_double_vote"
    by (simp add: decode_evidence_def tagged_decode_def demo_evidence_env_def)
  moreover have "proof_view demo_double_vote = 1" by (simp add: proof_view_def demo_double_vote_def)
  moreover have "is_evidence_payload (EVIDENCE_TAG @ [9])" by (simp add: is_evidence_payload_def starts_with_iff)
  moreover have "ee_wire demo_evidence_env = demo_wire" by (simp add: demo_evidence_env_def)
  ultimately show ?thesis
    by (simp add: apply_committed_evidence_def apply_evidence_command_def demo_evidence_block_def demo_block_def
        demo_evidence_state_def MAX_EVIDENCE_AGE_VIEWS_def saturating_sub_def bt_contains_def Let_def)
qed

lemma demo_evidence_stored: "committed_codec_ok demo_evidence_env" "evidence_stored demo_evidence_env demo_evidence_state"
  by (simp_all add: committed_codec_ok_def evidence_stored_def demo_evidence_env_def demo_evidence_state_def dec_enc_evidence
      load_committed_evidence_def ms_get_def)

theorem slashing_justified_once_witness:
  "\<exists>s'. apply_evidence_blocks demo_evidence_env 0 [(demo_evidence_block, demo_set_history, demo_key_history)] demo_evidence_state
      = Some ([20], s')
    \<and> bt_contains (committed_evidence s') 20 \<and> load_committed_evidence demo_evidence_env (ev_storage s') = committed_evidence s'"
proof -
  obtain s' where "apply_evidence_blocks demo_evidence_env 0 [(demo_evidence_block, demo_set_history, demo_key_history)] demo_evidence_state
      = Some ([20], s')"
    using demo_evidence_applied by auto
  then show ?thesis using slashing_justified_once[OF _ demo_evidence_stored] demo_set_history_wf by fastforce
qed






end
