(* ===== verification/App_Reconfig.thy ===== *)
theory App_Reconfig
  imports Reconfig Consensus_Params Validator_History Mempool
begin

text \<open>
  Reconfigurations that a leader submits on behalf of the application
  (\<open>consensus_node/app_reconfig.rs\<close> and the staging part of \<open>commit.rs\<close>): staged
  weight updates, staged effects, a staged governance command, and the removal
  of validators with committed evidence. A command that jails somebody is always
  valid against the set it was computed from and leaves at least four validators.
\<close>

section \<open>State\<close>

record validator_update =
  vu_node_id :: node_id
  vu_weight :: u64

datatype validator_effect = KeyRotation bytes | EndpointUpdate bytes | ParamUpdate bytes | ReconfigEffect bytes

record commit_result =
  cr_validator_updates :: "validator_update list"
  cr_effects :: "validator_effect list"
  cr_app_data :: "bytes option"

record mint_state =
  ms_history :: validator_set_history
  ms_committed_evidence :: "(validator_id, view) btree_map"
  staged_validator_updates :: "validator_update list"
  staged_effects :: "validator_effect list"
  staged_governance_reconfig :: "reconfig_command option"
  ms_min_v_eff_delay :: view
  ms_mempool :: in_memory_mempool

record mint_env =
  me_digest :: "bytes \<Rightarrow> hash256"
  me_pc_reconfig :: "reconfig_command \<Rightarrow> bytes"
  me_un_reconfig :: "bytes \<Rightarrow> reconfig_command option"

definition stage_app_validator_updates :: "commit_result \<Rightarrow> mint_state \<Rightarrow> mint_state" where
  "stage_app_validator_updates r s =
     s\<lparr> staged_validator_updates := staged_validator_updates s @ cr_validator_updates r,
        staged_effects := staged_effects s @ cr_effects r \<rparr>"

text \<open>A failed insertion is only logged.\<close>

definition mint_insert :: "mint_env \<Rightarrow> bytes \<Rightarrow> mint_state \<Rightarrow> mint_state" where
  "mint_insert env bs s =
     (case mp_insert (me_digest env) bs (ms_mempool s) of
        None \<Rightarrow> s
      | Some (_, m) \<Rightarrow> s\<lparr> ms_mempool := m \<rparr>)"

section \<open>Commands from staged updates\<close>

definition is_rotation_command :: "bytes \<Rightarrow> bool" where
  "is_rotation_command bs \<longleftrightarrow>
     is_rotation_payload bs \<or> is_cancel_payload bs \<or> is_operator_rotation_payload bs \<or> is_operator_key_rotation_payload bs"

definition APP_RECONFIG_SETTLE_VIEWS :: view where
  "APP_RECONFIG_SETTLE_VIEWS = 8"

definition update_targets :: "validator_update list \<Rightarrow> (node_id, u64) btree_map" where
  "update_targets us = fold (\<lambda>u m. bt_insert (vu_node_id u) (vu_weight u) m) us []"

definition staged_updates_to_reconfig ::
  "validator_update list \<Rightarrow> validator_set \<Rightarrow> view \<Rightarrow> reconfig_command option" where
  "staged_updates_to_reconfig updates current v_eff =
     (let seated = filter (\<lambda>(n, w). vs_contains current n) (update_targets updates);
          removes = map fst (filter (\<lambda>(n, w). w = 0) seated);
          changes = map (\<lambda>(n, w). \<lparr> wc_node_id = n, wc_weight = w \<rparr>) (filter (\<lambda>(n, w). w \<noteq> 0) seated) in
      if removes = [] \<and> changes = [] then None
      else Some \<lparr> rc_adds = [], rc_removes = removes, rc_changes = changes, rc_v_eff = v_eff \<rparr>)"

definition jail_removes :: "validator_set \<Rightarrow> mint_state \<Rightarrow> validator_update list" where
  "jail_removes current s =
     (let seated = sort (filter (vs_contains current) (map fst (ms_committed_evidence s))) in
      if seated = [] then []
      else
        let app_removes = length (filter (\<lambda>u. vu_weight u = 0 \<and> vs_contains current (vu_node_id u)) (staged_validator_updates s));
            budget = vs_len current - MIN_VALIDATOR_FLOOR - app_removes in
        if budget = 0 then []
        else map (\<lambda>v. \<lparr> vu_node_id = v, vu_weight = 0 \<rparr>) (take budget seated))"

text \<open>A boundary that is still to come.\<close>

definition boundary_pending :: "view \<Rightarrow> validator_set_history \<Rightarrow> bool" where
  "boundary_pending v h = list_ex (\<lambda>(v_eff, _). v_eff \<noteq> 0 \<and> v_eff > v) (vh_iter h)"

text \<open>The command a leader mints, if any; \<open>None\<close> is the panic of an empty history.\<close>

definition mint_staged_reconfig :: "mint_env \<Rightarrow> view \<Rightarrow> mint_state \<Rightarrow> (reconfig_command option \<times> mint_state) option" where
  "mint_staged_reconfig env v s =
     (case set_at (ms_history s) v of
        None \<Rightarrow> None
      | Some a \<Rightarrow>
          let current = for_view a v; jail = jail_removes current s in
          if staged_validator_updates s = [] \<and> jail = [] then Some (None, s)
          else if boundary_pending v (ms_history s) then Some (None, s)
          else (case checked_add v (max (max (ms_min_v_eff_delay s) MIN_V_EFF_DELAY) APP_RECONFIG_SETTLE_VIEWS) of
                  None \<Rightarrow> Some (None, s)
                | Some v_eff \<Rightarrow>
                    (case staged_updates_to_reconfig (staged_validator_updates s @ jail) current v_eff of
                       None \<Rightarrow> Some (None, s\<lparr> staged_validator_updates := [] \<rparr>)
                     | Some cmd \<Rightarrow> Some (Some cmd, mint_insert env (encode_reconfig (me_pc_reconfig env) cmd) s))))"

definition mint_staged_governance_reconfig :: "mint_env \<Rightarrow> view \<Rightarrow> mint_state \<Rightarrow> mint_state" where
  "mint_staged_governance_reconfig env v s =
     (case staged_governance_reconfig s of
        None \<Rightarrow> s
      | Some cmd \<Rightarrow>
          if (case checked_add v (max (ms_min_v_eff_delay s) MIN_V_EFF_DELAY) of None \<Rightarrow> True | Some e \<Rightarrow> rc_v_eff cmd < e)
          then s\<lparr> staged_governance_reconfig := None \<rparr>
          else if boundary_pending v (ms_history s) then s
          else mint_insert env (encode_reconfig (me_pc_reconfig env) cmd) s)"

definition mint_effect :: "mint_env \<Rightarrow> validator_effect \<Rightarrow> mint_state \<Rightarrow> mint_state" where
  "mint_effect env e s =
     (case e of
        KeyRotation bs \<Rightarrow> if is_rotation_command bs then mint_insert env bs s else s
      | EndpointUpdate bs \<Rightarrow> if is_endpoint_payload bs then mint_insert env bs s else s
      | ParamUpdate bs \<Rightarrow> if is_param_update_payload bs then mint_insert env bs s else s
      | ReconfigEffect bs \<Rightarrow>
          (case decode_reconfig (me_un_reconfig env) bs of
             Inl _ \<Rightarrow> s
           | Inr cmd \<Rightarrow> s\<lparr> staged_governance_reconfig := Some cmd \<rparr>))"

definition mint_staged_effects :: "mint_env \<Rightarrow> mint_state \<Rightarrow> mint_state" where
  "mint_staged_effects env s =
     (if staged_effects s = [] then s else fold (mint_effect env) (staged_effects s) (s\<lparr> staged_effects := [] \<rparr>))"

section \<open>Minted commands are valid\<close>

lemma update_targets_snoc: "update_targets (us @ [u]) = bt_insert (vu_node_id u) (vu_weight u) (update_targets us)"
  by (simp add: update_targets_def)

lemma update_targets_wf: "bt_wf (update_targets us)"
  by (induction us rule: rev_induct) (simp_all add: update_targets_snoc, simp add: update_targets_def)

lemma update_targets_get:
  "bt_get (update_targets us) n = map_of (rev (map (\<lambda>u. (vu_node_id u, vu_weight u)) us)) n"
  by (induction us rule: rev_induct) (simp_all add: update_targets_snoc update_targets_wf, simp add: update_targets_def)

lemma update_targets_zero:
  "bt_get (update_targets us) n = Some 0 \<Longrightarrow> \<exists>u \<in> set us. vu_node_id u = n \<and> vu_weight u = 0"
proof -
  assume "bt_get (update_targets us) n = Some 0"
  then have "(n, 0) \<in> (\<lambda>u. (vu_node_id u, vu_weight u)) ` set us"
    unfolding update_targets_get by (auto dest: map_of_SomeD)
  then obtain u where "u \<in> set us" "(n, 0) = (vu_node_id u, vu_weight u)" by (rule imageE)
  then show ?thesis by (intro bexI[of _ u]) simp_all
qed

lemma update_targets_jailed:
  assumes "n \<in> set ns"
  shows "bt_get (update_targets (us @ map (\<lambda>v. \<lparr> vu_node_id = v, vu_weight = 0 \<rparr>) ns)) n = Some 0"
proof -
  have "map_of (rev (map (\<lambda>v. (v, 0 :: u64)) ns)) n = Some 0"
    using assms by (induction ns rule: rev_induct) auto
  then show ?thesis by (simp add: update_targets_get rev_map[symmetric] comp_def map_add_def del: rev_map)
qed

text \<open>The command of a list of updates, by what it does to a member.\<close>

lemma staged_updates_cmd:
  assumes "vs_wf current" "staged_updates_to_reconfig us current v_eff = Some cmd"
  shows "rc_adds cmd = []" "rc_v_eff cmd = v_eff" "distinct (rc_removes cmd)" "distinct (map wc_node_id (rc_changes cmd))"
    and "set (rc_removes cmd) = {n \<in> set (members current). bt_get (update_targets us) n = Some 0}"
    and "\<forall>ch \<in> set (rc_changes cmd). wc_node_id ch \<in> set (members current) \<and> wc_weight ch \<noteq> 0
      \<and> bt_get (update_targets us) (wc_node_id ch) = Some (wc_weight ch)"
proof -
  let ?t = "update_targets us"
  let ?seated = "filter (\<lambda>(n, w). vs_contains current n) ?t"
  have cmd: "cmd = \<lparr> rc_adds = [], rc_removes = map fst (filter (\<lambda>(n, w). w = 0) ?seated),
      rc_changes = map (\<lambda>(n, w). \<lparr> wc_node_id = n, wc_weight = w \<rparr>) (filter (\<lambda>(n, w). w \<noteq> 0) ?seated), rc_v_eff = v_eff \<rparr>"
    using assms(2) by (auto simp: staged_updates_to_reconfig_def Let_def split: if_splits)
  have d: "distinct (map fst ?t)" using update_targets_wf[of us] by (simp add: bt_wf_def strict_sorted_iff)
  have g: "(n, w) \<in> set ?t \<longleftrightarrow> bt_get ?t n = Some w" for n w using d by simp
  show "rc_adds cmd = []" "rc_v_eff cmd = v_eff" by (simp_all add: cmd)
  show "distinct (rc_removes cmd)" using d by (simp add: cmd distinct_map_filter)
  have "map wc_node_id (rc_changes cmd) = map fst (filter (\<lambda>(n, w). w \<noteq> 0) ?seated)"
    by (simp add: cmd comp_def case_prod_beta)
  then show "distinct (map wc_node_id (rc_changes cmd))" using d by (simp add: distinct_map_filter)
  show "set (rc_removes cmd) = {n \<in> set (members current). bt_get ?t n = Some 0}"
    using g vs_contains_iff[OF assms(1)] by (force simp: cmd)
  show "\<forall>ch \<in> set (rc_changes cmd). wc_node_id ch \<in> set (members current) \<and> wc_weight ch \<noteq> 0
      \<and> bt_get ?t (wc_node_id ch) = Some (wc_weight ch)"
    using g vs_contains_iff[OF assms(1)] by (auto simp: cmd)
qed

lemma staged_updates_ids_ok:
  assumes "vs_wf current" "staged_updates_to_reconfig us current v_eff = Some cmd"
  shows "reconfig_id_error cmd current = None"
proof -
  note c = staged_updates_cmd[OF assms]
  have "wc_node_id ch \<in> set (members current) - set (rc_removes cmd)" if "ch \<in> set (rc_changes cmd)" for ch
    using c(5,6) that by auto
  then show ?thesis using c unfolding reconfig_id_error_None[OF assms(1)] by auto
qed

lemma next_members_without_adds:
  assumes "vs_wf current" "reconfig_id_error cmd current = None" "rc_adds cmd = []"
  shows "fst ` set (next_members cmd current) = set (members current) - set (rc_removes cmd)"
    and "length (next_members cmd current) = vs_len current - length (rc_removes cmd)"
proof -
  let ?nxt = "next_members cmd current"
  have ids: "distinct (rc_removes cmd)" "set (rc_removes cmd) \<subseteq> set (members current)"
    "wc_node_id ` set (rc_changes cmd) \<subseteq> set (members current) - set (rc_removes cmd)"
    using assms(2) unfolding reconfig_id_error_None[OF assms(1)] by auto
  have "sorted_wrt (<) (map fst ?nxt)" unfolding next_members_def Let_def by (rule dedup_by_strict) simp
  then have d: "distinct (map fst ?nxt)" by (simp add: strict_sorted_iff)
  have mem: "n \<in> set (members current) \<longleftrightarrow> weight_for current n \<noteq> None" for n
    unfolding weight_for_map_of[OF assms(1)] map_of_eq_None_iff iter_weighted_keys[OF assms(1)] by simp
  have "n \<in> fst ` set ?nxt \<longleftrightarrow> n \<in> set (members current) - set (rc_removes cmd)" for n
  proof -
    have "n \<in> fst ` set ?nxt \<longleftrightarrow> next_weight cmd current n \<noteq> None"
      using next_members_lookup[OF assms(1,2), of n] by (metis map_of_eq_None_iff)
    also have "\<dots> \<longleftrightarrow> n \<in> set (members current) - set (rc_removes cmd)"
    proof (cases "map_of (map (\<lambda>ch. (wc_node_id ch, wc_weight ch)) (rc_changes cmd)) n")
      case None
      then show ?thesis using mem[of n] by (simp add: next_weight_def assms(3))
    next
      case (Some w)
      then have "n \<in> set (members current) - set (rc_removes cmd)" using map_of_SomeD[OF Some] ids(3) by auto
      then show ?thesis using Some by (simp add: next_weight_def assms(3))
    qed
    finally show ?thesis .
  qed
  then show k: "fst ` set ?nxt = set (members current) - set (rc_removes cmd)" by blast
  have "length ?nxt = card (set (members current) - set (rc_removes cmd))"
    using distinct_card[OF d] k by simp
  then show "length ?nxt = vs_len current - length (rc_removes cmd)"
    using ids(1,2) vs_wf_distinct[OF assms(1)] by (simp add: card_Diff_subset distinct_card vs_len_def)
qed

lemma jail_removes_shape:
  assumes "jail_removes current s \<noteq> []" "vs_wf current"
  obtains ns where "jail_removes current s = map (\<lambda>v. \<lparr> vu_node_id = v, vu_weight = 0 \<rparr>) ns" "set ns \<subseteq> set (members current)"
    "MIN_VALIDATOR_FLOOR + length (filter (\<lambda>u. vu_weight u = 0 \<and> vs_contains current (vu_node_id u)) (staged_validator_updates s))
       + length ns \<le> vs_len current"
proof -
  let ?seated = "sort (filter (vs_contains current) (map fst (ms_committed_evidence s)))"
  let ?apps = "length (filter (\<lambda>u. vu_weight u = 0 \<and> vs_contains current (vu_node_id u)) (staged_validator_updates s))"
  let ?budget = "vs_len current - MIN_VALIDATOR_FLOOR - ?apps"
  have j: "jail_removes current s = map (\<lambda>v. \<lparr> vu_node_id = v, vu_weight = 0 \<rparr>) (take ?budget ?seated)" "?budget \<noteq> 0"
    using assms(1) by (auto simp: jail_removes_def Let_def split: if_splits)
  show thesis
  proof (rule that[OF j(1)])
    show "set (take ?budget ?seated) \<subseteq> set (members current)"
      by (rule subset_trans[OF set_take_subset]) (use vs_contains_iff[OF assms(2)] in auto)
    show "MIN_VALIDATOR_FLOOR + ?apps + length (take ?budget ?seated) \<le> vs_len current" using j(2) by simp
  qed
qed

lemma jail_removes_bound:
  assumes "jail_removes current s \<noteq> []" "vs_wf current"
    and "staged_updates_to_reconfig (staged_validator_updates s @ jail_removes current s) current v_eff = Some cmd"
  shows "MIN_VALIDATOR_FLOOR + length (rc_removes cmd) \<le> vs_len current"
    and "vu_node_id ` set (jail_removes current s) \<subseteq> set (rc_removes cmd)"
proof -
  let ?zero = "filter (\<lambda>u. vu_weight u = 0 \<and> vs_contains current (vu_node_id u)) (staged_validator_updates s)"
  obtain ns where ns: "jail_removes current s = map (\<lambda>v. \<lparr> vu_node_id = v, vu_weight = 0 \<rparr>) ns" "set ns \<subseteq> set (members current)"
    "MIN_VALIDATOR_FLOOR + length ?zero + length ns \<le> vs_len current"
    using jail_removes_shape[OF assms(1,2)] .
  note c = staged_updates_cmd[OF assms(2,3)]
  have "set (rc_removes cmd) \<subseteq> set (map vu_node_id ?zero @ ns)"
  proof
    fix n assume n: "n \<in> set (rc_removes cmd)"
    then obtain u where u: "u \<in> set (staged_validator_updates s @ jail_removes current s)" "vu_node_id u = n" "vu_weight u = 0"
      using c(5) update_targets_zero by fastforce
    have "vs_contains current n" using n c(5) vs_contains_iff[OF assms(2)] by simp
    then show "n \<in> set (map vu_node_id ?zero @ ns)" using u by (auto simp: ns(1))
  qed
  then have "card (set (rc_removes cmd)) \<le> card (set (map vu_node_id ?zero @ ns))" by (intro card_mono) simp_all
  also have "\<dots> \<le> length ?zero + length ns" using card_length[of "map vu_node_id ?zero @ ns"] by simp
  finally show "MIN_VALIDATOR_FLOOR + length (rc_removes cmd) \<le> vs_len current"
    using ns(3) distinct_card[OF c(3)] by simp
  show "vu_node_id ` set (jail_removes current s) \<subseteq> set (rc_removes cmd)"
    using c(5) ns(2) update_targets_jailed by (auto simp: ns(1))
qed

lemma update_targets_staged:
  assumes "jail_removes current s \<noteq> []" "vs_wf current"
    and "bt_get (update_targets (staged_validator_updates s @ jail_removes current s)) n = Some w" "w \<noteq> 0"
  shows "bt_get (update_targets (staged_validator_updates s)) n = Some w"
proof -
  obtain ns where ns: "jail_removes current s = map (\<lambda>v. \<lparr> vu_node_id = v, vu_weight = 0 \<rparr>) ns"
    using jail_removes_shape[OF assms(1,2)] .
  have "n \<notin> set ns" using assms(3,4) update_targets_jailed by (auto simp: ns)
  then have "n \<notin> fst ` set (map (\<lambda>u. (vu_node_id u, vu_weight u)) (jail_removes current s))" by (auto simp: ns)
  then have "map_of (rev (map (\<lambda>u. (vu_node_id u, vu_weight u)) (jail_removes current s))) n = None"
    by (simp add: map_of_eq_None_iff image_image)
  then show ?thesis using assms(3) by (simp add: update_targets_get map_add_def)
qed

text \<open>C28: jailing is valid and keeps the floor. When a leader in view v mints a
  reconfiguration that jails validators with committed evidence, the command
  passes validation in a block of view v (whatever the application staged beside
  it), the next set has at least four members, none of the jailed validators is in
  it, and every other change is what the last staged update of a member asks for.\<close>

theorem jailing_valid_and_floored:
  assumes "vs_wf current" "set_at (ms_history s) v = Some a" "current = for_view a v"
    and "mint_staged_reconfig env v s = Some (Some cmd, s')" "jail_removes current s \<noteq> []"
  shows "validate_against_with_delay_and_chain renv cmd current v (ms_min_v_eff_delay s) c = Inr (next_members cmd current)
    \<and> MIN_VALIDATOR_FLOOR \<le> length (next_members cmd current)
    \<and> (\<forall>u \<in> set (jail_removes current s). vu_node_id u \<in> set (members current) \<and> vu_node_id u \<notin> fst ` set (next_members cmd current))
    \<and> (\<forall>ch \<in> set (rc_changes cmd). bt_get (update_targets (staged_validator_updates s)) (wc_node_id ch) = Some (wc_weight ch))"
proof -
  let ?d = "max (ms_min_v_eff_delay s) MIN_V_EFF_DELAY"
  obtain v_eff where m: "checked_add v (max ?d APP_RECONFIG_SETTLE_VIEWS) = Some v_eff"
    "staged_updates_to_reconfig (staged_validator_updates s @ jail_removes current s) current v_eff = Some cmd"
    using assms(2-4) by (auto simp: mint_staged_reconfig_def Let_def split: if_splits option.splits)
  note c = staged_updates_cmd[OF assms(1) m(2)] and ids = staged_updates_ids_ok[OF assms(1) m(2)]
  note b = jail_removes_bound[OF assms(5,1) m(2)] and nx = next_members_without_adds[OF assms(1) ids c(1)]
  have len: "MIN_VALIDATOR_FLOOR \<le> length (next_members cmd current)" using b(1) nx(2) by simp
  have "?d \<le> max ?d APP_RECONFIG_SETTLE_VIEWS" by simp
  then have le: "unat ?d \<le> unat (max ?d APP_RECONFIG_SETTLE_VIEWS)" by (simp add: word_le_nat_alt)
  then obtain w where w: "checked_add v ?d = Some w"
    using m(1) by (auto simp: checked_add_Some intro: le_less_trans)
  have "\<not> rc_v_eff cmd < w"
    using checked_add_unat[OF m(1)] checked_add_unat[OF w] le by (simp add: c(2) word_less_nat_alt)
  then have "validate_against_with_delay_and_chain renv cmd current v (ms_min_v_eff_delay s) c = Inr (next_members cmd current)"
    using w ids len by (simp add: validate_against_with_delay_and_chain_def Let_def c(1) first_error_def map_filter_simps)
  moreover have "\<forall>u \<in> set (jail_removes current s). vu_node_id u \<in> set (members current) \<and> vu_node_id u \<notin> fst ` set (next_members cmd current)"
    using b(2) c(5) nx(1) by auto
  moreover have "\<forall>ch \<in> set (rc_changes cmd). bt_get (update_targets (staged_validator_updates s)) (wc_node_id ch) = Some (wc_weight ch)"
    using c(6) update_targets_staged[OF assms(5,1)] by blast
  ultimately show ?thesis using len by blast
qed

section \<open>Instance\<close>

definition demo_mint_state :: mint_state where
  "demo_mint_state =
     \<lparr> ms_history = vh_from_genesis demo_five, ms_committed_evidence = [(30, 1)], staged_validator_updates = [],
       staged_effects = [], staged_governance_reconfig = None, ms_min_v_eff_delay = 4, ms_mempool = mp_new 10 \<rparr>"

definition demo_mint_env :: mint_env where
  "demo_mint_env = \<lparr> me_digest = (\<lambda>bs. of_nat (length bs)), me_pc_reconfig = (\<lambda>_. [1]), me_un_reconfig = (\<lambda>_. None) \<rparr>"

lemma demo_jail: "jail_removes demo_five demo_mint_state = [\<lparr> vu_node_id = 30, vu_weight = 0 \<rparr>]"
  by (simp add: jail_removes_def demo_mint_state_def demo_five_def vs_contains_def vs_len_def MIN_VALIDATOR_FLOOR_def
      binary_search_def bsearch.simps)

theorem jailing_valid_and_floored_witness:
  "\<exists>cmd s'. mint_staged_reconfig demo_mint_env 3 demo_mint_state = Some (Some cmd, s')
    \<and> validate_against_with_delay_and_chain demo_reconfig_env cmd demo_five 3 4 0 = Inr (next_members cmd demo_five)
    \<and> 30 \<notin> fst ` set (next_members cmd demo_five)"
proof -
  have wf: "vs_wf demo_five" by (simp add: vs_wf_def demo_five_def vs_len_def)
  obtain a where a: "set_at (ms_history demo_mint_state) 3 = Some a" "demo_five = for_view a 3"
    by (simp add: demo_mint_state_def vh_from_genesis_def set_at_def for_view_def binary_search_def bsearch.simps)
  have p: "\<not> boundary_pending 3 (ms_history demo_mint_state)"
    by (simp add: boundary_pending_def demo_mint_state_def vh_from_genesis_def vh_iter_def)
  have d: "checked_add 3 (max (max (ms_min_v_eff_delay demo_mint_state) MIN_V_EFF_DELAY) APP_RECONFIG_SETTLE_VIEWS) = Some 11"
    by (simp add: demo_mint_state_def MIN_V_EFF_DELAY_def APP_RECONFIG_SETTLE_VIEWS_def checked_add_def max_def)
  have u: "staged_validator_updates demo_mint_state = []" by (simp add: demo_mint_state_def)
  have "vs_contains demo_five 30" using vs_contains_iff[OF wf] by (simp add: demo_five_def)
  then have "\<exists>cmd. staged_updates_to_reconfig [\<lparr> vu_node_id = 30, vu_weight = 0 \<rparr>] demo_five 11 = Some cmd"
    by (simp add: staged_updates_to_reconfig_def update_targets_def)
  then obtain cmd s' where m: "mint_staged_reconfig demo_mint_env 3 demo_mint_state = Some (Some cmd, s')"
    unfolding mint_staged_reconfig_def a(1) by (auto simp: a(2)[symmetric] p d u demo_jail)
  have del: "ms_min_v_eff_delay demo_mint_state = 4" by (simp add: demo_mint_state_def)
  have "jail_removes demo_five demo_mint_state \<noteq> []" using demo_jail by simp
  from jailing_valid_and_floored[OF wf a m this, of demo_reconfig_env 0] show ?thesis
    using m unfolding demo_jail del by auto
qed

end
