(* ===== verification/Timeout_Bucket.thy ===== *)
theory Timeout_Bucket
  imports Pacemaker Qc Validator_Key_History Limits Persistence
begin

text \<open>
  Timeout votes (\<open>consensus_node/timeout_bucket.rs\<close>): the durable vote a node sends
  when its view times out, and the buckets that collect votes per view until they
  carry the weight of a round synchronisation and of a timeout certificate. The
  handler is modelled up to what it asks the rest of the node to do; none of
  these steps touches the buckets.
\<close>

section \<open>The vote of the node\<close>

definition persist_fresh_timeout_vote ::
  "persist_codec \<Rightarrow> view \<Rightarrow> quorum_certificate option \<Rightarrow> memory_storage \<Rightarrow> persist_error + timeout_vote \<times> memory_storage" where
  "persist_fresh_timeout_vote pc v high m =
     (let p = \<lparr> tv_view = v, tv_high_qc = high \<rparr> in
      case encoded (pe_timeout_vote pc) p of
        Inl e \<Rightarrow> Inl e
      | Inr bs \<Rightarrow> Inr (p, ms_put m STORAGE_KEY_LAST_TIMEOUT_VOTE bs))"

text \<open>The payload \<open>send_timeout\<close> signs and sends.\<close>

definition send_timeout ::
  "persist_codec \<Rightarrow> view \<Rightarrow> quorum_certificate option \<Rightarrow> memory_storage \<Rightarrow> persist_error + timeout_vote \<times> memory_storage" where
  "send_timeout pc v high m =
     (case stored (pd_timeout_vote pc) m STORAGE_KEY_LAST_TIMEOUT_VOTE of
        Inl e \<Rightarrow> Inl e
      | Inr None \<Rightarrow> persist_fresh_timeout_vote pc v high m
      | Inr (Some prev) \<Rightarrow> if tv_view prev = v then Inr (prev, m) else persist_fresh_timeout_vote pc v high m)"

section \<open>Buckets\<close>












section \<open>Certificates need a quorum\<close>

text \<open>The weight of a validator and of a set of validators.\<close>

definition member_weight :: "validator_set \<Rightarrow> validator_id \<Rightarrow> nat" where
  "member_weight vs i = (case weight_for vs i of Some w \<Rightarrow> unat w | None \<Rightarrow> 0)"

definition weight_of :: "validator_set \<Rightarrow> validator_id set \<Rightarrow> nat" where
  "weight_of vs S = (\<Sum>i\<in>S. member_weight vs i)"


lemma weight_of_le: "vs_wf vs \<Longrightarrow> S \<subseteq> set (members vs) \<Longrightarrow> weight_of vs S \<le> weight_of vs (set (members vs))"
  by (simp add: weight_of_def sum_mono2)




section \<open>The invariant\<close>



















section \<open>A view within one set\<close>







text \<open>One timeout vote per view. Once a node has sent a timeout vote for a view it
  sends the same vote, with the same certificate, whenever it times out in that
  view again, whatever its high certificate is by then, also after a restart on
  the same store.\<close>

theorem timeout_vote_stable:
  assumes "send_timeout pc v high m = Inr (p, m')" "bt_wf m"
    and "\<And>bs. pe_timeout_vote pc p = Some bs \<Longrightarrow> pd_timeout_vote pc bs = Some p"
  shows "tv_view p = v \<and> send_timeout pc v high' m' = Inr (p, m')"
proof (cases "\<exists>prev. stored (pd_timeout_vote pc) m STORAGE_KEY_LAST_TIMEOUT_VOTE = Inr (Some prev) \<and> tv_view prev = v")
  case True
  then show ?thesis using assms(1) by (auto simp: send_timeout_def)
next
  case False
  then have "persist_fresh_timeout_vote pc v high m = Inr (p, m')"
    using assms(1) by (auto simp: send_timeout_def split: sum.splits option.splits if_splits)
  then obtain bs where p: "p = \<lparr> tv_view = v, tv_high_qc = high \<rparr>" "pe_timeout_vote pc p = Some bs"
    "m' = ms_put m STORAGE_KEY_LAST_TIMEOUT_VOTE bs"
    by (auto simp: persist_fresh_timeout_vote_def Let_def encoded_def split: option.splits)
  then have "stored (pd_timeout_vote pc) m' STORAGE_KEY_LAST_TIMEOUT_VOTE = Inr (Some p)"
    using assms(2) assms(3)[OF p(2)] by (simp add: stored_def ms_get_def ms_put_def decoded_def)
  then show ?thesis by (simp add: send_timeout_def p(1))
qed

section \<open>Instance\<close>







definition demo_timeout_codec :: persist_codec where
  "demo_timeout_codec =
     \<lparr> pe_view = (\<lambda>_. None), pd_view = (\<lambda>_. None), pe_locked = (\<lambda>_. None), pd_locked = (\<lambda>_. None),
       pe_qc = (\<lambda>_. None), pd_qc = (\<lambda>_. None), pe_timeout_vote = (\<lambda>p. Some (be_bytes 8 (tv_view p))),
       pd_timeout_vote = (\<lambda>bs. Some \<lparr> tv_view = of_be_bytes bs, tv_high_qc = None \<rparr>),
       pe_block = (\<lambda>_. None), pd_block = (\<lambda>_. None), pe_last_committed = (\<lambda>_. None), pd_last_committed = (\<lambda>_. None) \<rparr>"

theorem timeout_vote_stable_witness:
  "\<exists>m. send_timeout demo_timeout_codec 7 None [] = Inr (\<lparr> tv_view = 7, tv_high_qc = None \<rparr>, m)
    \<and> send_timeout demo_timeout_codec 7 (Some (demo_qc 3 4)) m = Inr (\<lparr> tv_view = 7, tv_high_qc = None \<rparr>, m)"
proof -
  obtain m where m: "send_timeout demo_timeout_codec 7 None [] = Inr (\<lparr> tv_view = 7, tv_high_qc = None \<rparr>, m)"
    by (simp add: send_timeout_def stored_def ms_get_def persist_fresh_timeout_vote_def Let_def encoded_def demo_timeout_codec_def)
  from timeout_vote_stable[OF m bt_wf_Nil, of "Some (demo_qc 3 4)"] show ?thesis
    using m by (auto simp: demo_timeout_codec_def)
qed

end
