(* ===== verification/Block_Range_Sync.thy ===== *)
theory Block_Range_Sync
  imports Persistence Dispatch
begin

text \<open>
  Catching up by ranges of blocks (\<open>consensus_node/action_interpreter.rs\<close>, \<open>block_sync.rs\<close>):
  what a node serves for a range, when it asks for one, how it takes the answer,
  how it asks again, and the window of outstanding answers per peer. The range
  walk is exact on a finite stored chain; requests are bounded in length and in
  number of attempts. Instants are milliseconds since the start of the node.
\<close>

section \<open>Serving a range\<close>

text \<open>The distinct blocks in order of first occurrence: \<open>retain\<close> with a set of seen hashes.\<close>

fun retain_unseen :: "('a \<Rightarrow> 'k) \<Rightarrow> 'k set \<Rightarrow> 'a list \<Rightarrow> 'a list" where
  "retain_unseen f seen [] = []"
| "retain_unseen f seen (x # xs) =
     (if f x \<in> seen then retain_unseen f seen xs else x # retain_unseen f (insert (f x) seen) xs)"

text \<open>The order in which the map of pending blocks is iterated is a parameter. \<open>None\<close> is a
  walk of the store that never ends.\<close>

definition collect_block_range ::
  "hash_prims \<Rightarrow> persist_codec \<Rightarrow> (block list \<Rightarrow> block list) \<Rightarrow> hotstuff_state \<Rightarrow> memory_storage \<Rightarrow> height \<Rightarrow> height
     \<Rightarrow> block list option" where
  "collect_block_range hp pc order s m from_height to_height =
     (if from_height > to_height then Some []
      else
        let cap = BLOCK_RANGE_RESPONSE_MAX_BLOCKS;
            pend = order (filter (\<lambda>b. from_height \<le> hdr_height (header b) \<and> hdr_height (header b) \<le> to_height)
                     (map snd (pending_blocks s)));
            stored_blocks =
              (case stored (pd_last_committed pc) m STORAGE_KEY_LAST_COMMITTED of
                 Inr (Some lc) \<Rightarrow>
                   map_option (\<lambda>r. case r of Inl _ \<Rightarrow> [] | Inr bs \<Rightarrow> bs)
                     (load_block_range_from_storage pc m (lc_hash lc) from_height to_height cap)
               | _ \<Rightarrow> Some []) in
        map_option (\<lambda>bs. take cap (sort_key (\<lambda>b. hdr_height (header b)) (retain_unseen (block_hash_of hp) {} (pend @ bs)))) stored_blocks)"

section \<open>Asking for a range\<close>

record range_inflight =
  ri_peer :: node_id
  ri_attempts :: u32
  ri_last_asked :: nat

type_synonym range_requests = "(height \<times> height, range_inflight) hmap"

text \<open>The range to ask for, if the gap is wider than one block. The end of the range is
  computed with a plain addition.\<close>

definition range_to_request :: "node_id \<Rightarrow> node_id \<Rightarrow> u64 \<Rightarrow> height \<Rightarrow> (height \<times> height) option" where
  "range_to_request self_node proposer_id committed proposal_height =
     (if proposer_id = self_node then None
      else
        let parent_height = saturating_sub proposal_height 1 in
        if parent_height \<le> saturating_add committed 1 then None
        else
          let from_height = saturating_add committed 1;
              cap = of_nat BLOCK_RANGE_RESPONSE_MAX_BLOCKS in
          Some (from_height, min parent_height (from_height + cap - 1)))"

definition maybe_emit_block_range_request ::
  "node_id \<Rightarrow> node_id \<Rightarrow> u64 \<Rightarrow> height \<Rightarrow> nat \<Rightarrow> range_requests \<Rightarrow> (height \<times> height \<times> node_id) option \<times> range_requests" where
  "maybe_emit_block_range_request self_node proposer_id committed proposal_height now reqs =
     (case range_to_request self_node proposer_id committed proposal_height of
        None \<Rightarrow> (None, reqs)
      | Some (a, b) \<Rightarrow>
          if hm_contains reqs (a, b) then (None, reqs)
          else (Some (a, b, proposer_id), hm_insert (a, b) \<lparr> ri_peer = proposer_id, ri_attempts = 1, ri_last_asked = now \<rparr> reqs))"

section \<open>Taking an answer\<close>

text \<open>The blocks of an answer that are inserted, in order.\<close>

fun accepted_range_blocks :: "height \<Rightarrow> height \<Rightarrow> height option \<Rightarrow> block list \<Rightarrow> block list" where
  "accepted_range_blocks a b last_height [] = []"
| "accepted_range_blocks a b last_height (blk # blks) =
     (let h = hdr_height (header blk) in
      if h < a \<or> h > b then accepted_range_blocks a b last_height blks
      else if (case last_height of Some prev \<Rightarrow> h \<le> prev | None \<Rightarrow> False) then accepted_range_blocks a b last_height blks
      else blk # accepted_range_blocks a b (Some h) blks)"

text \<open>The first part of the handler: the core with the blocks inserted and whether the core is
  stepped again; an answer that was not asked for changes nothing.\<close>

definition handle_block_range_response ::
  "hash_prims \<Rightarrow> height \<Rightarrow> height \<Rightarrow> block list \<Rightarrow> hotstuff_core \<Rightarrow> range_requests \<Rightarrow> bool \<times> hotstuff_core \<times> range_requests" where
  "handle_block_range_response hp a b blocks c reqs =
     (if \<not> hm_contains reqs (a, b) then (False, c, reqs)
      else
        let ins = accepted_range_blocks a b None blocks in
        (ins \<noteq> [], fold (\<lambda>blk c. insert_pending_block hp c blk) ins c, hm_remove (a, b) reqs))"

text \<open>The last part, after the core has been stepped: when the frontier has reached the range, the
  next one is asked for, towards the highest parked proposal. Of several highest the
  iteration order of the map decides.\<close>

fun max_by_key :: "('a \<Rightarrow> 'k::linorder) \<Rightarrow> 'a list \<Rightarrow> 'a option" where
  "max_by_key f [] = None"
| "max_by_key f (x # xs) = Some (fold (\<lambda>y m. if f m \<le> f y then y else m) xs x)"

definition follow_up_range_request ::
  "(proposal signed list \<Rightarrow> proposal signed list) \<Rightarrow> node_id \<Rightarrow> u64 \<Rightarrow> height \<Rightarrow> nat \<Rightarrow> hotstuff_core \<Rightarrow> range_requests
     \<Rightarrow> (height \<times> height \<times> node_id) option \<times> range_requests" where
  "follow_up_range_request order self_node frontier a now c reqs =
     (if frontier < a then (None, reqs)
      else (case max_by_key (\<lambda>s. hdr_height (header (p_block (payload s)))) (order (map snd (parked_proposals c))) of
              None \<Rightarrow> (None, reqs)
            | Some s \<Rightarrow> maybe_emit_block_range_request self_node (signer s) frontier (hdr_height (header (p_block (payload s)))) now reqs))"

section \<open>Asking again\<close>

definition retry_one ::
  "u32 \<Rightarrow> nat \<Rightarrow> nat \<Rightarrow> height \<times> height \<Rightarrow> (height \<times> height \<times> node_id) list \<times> (height \<times> height) list \<times> range_requests
     \<Rightarrow> (height \<times> height \<times> node_id) list \<times> (height \<times> height) list \<times> range_requests" where
  "retry_one max_attempts now threshold k = (\<lambda>(emit, drops, reqs).
     case hm_get reqs k of
       None \<Rightarrow> (emit, drops, reqs)
     | Some e \<Rightarrow>
         if max_attempts \<le> ri_attempts e then (emit, drops @ [k], reqs)
         else if now - ri_last_asked e < threshold then (emit, drops, reqs)
         else (emit @ [(fst k, snd k, ri_peer e)], drops,
               hm_insert k (e\<lparr> ri_attempts := saturating_add (ri_attempts e) 1, ri_last_asked := now \<rparr>) reqs))"

definition maintain_block_sync_range_retry ::
  "u32 \<Rightarrow> nat \<Rightarrow> nat \<Rightarrow> range_requests \<Rightarrow> (height \<times> height \<times> node_id) list \<times> range_requests" where
  "maintain_block_sync_range_retry max_attempts now threshold reqs =
     (if reqs = [] then ([], reqs)
      else (case fold (retry_one max_attempts now threshold) (btree_set (map fst reqs)) ([], [], reqs) of
        (emit, drops, reqs') \<Rightarrow> (emit, fold hm_remove drops reqs')))"

section \<open>Outstanding answers per peer\<close>

definition BLOCK_SYNC_OUTSTANDING_PER_PEER :: u32 where
  "BLOCK_SYNC_OUTSTANDING_PER_PEER = 4"

record credit_window =
  cw_cap :: u32
  cw_state :: "(node_id, u32) hmap"
  cw_drops :: u64

definition cw_with_cap :: "u32 \<Rightarrow> credit_window" where
  "cw_with_cap cap = \<lparr> cw_cap = cap, cw_state = [], cw_drops = 0 \<rparr>"

definition cw_new :: credit_window where
  "cw_new = cw_with_cap BLOCK_SYNC_OUTSTANDING_PER_PEER"

definition try_acquire :: "node_id \<Rightarrow> credit_window \<Rightarrow> bool \<times> credit_window" where
  "try_acquire peer w =
     (let count = (case hm_get (cw_state w) peer of Some n \<Rightarrow> n | None \<Rightarrow> 0) in
      if cw_cap w \<le> count then (False, w\<lparr> cw_state := hm_insert peer count (cw_state w), cw_drops := cw_drops w + 1 \<rparr>)
      else (True, w\<lparr> cw_state := hm_insert peer (count + 1) (cw_state w) \<rparr>))"

definition release :: "node_id \<Rightarrow> credit_window \<Rightarrow> credit_window" where
  "release peer w =
     (case hm_get (cw_state w) peer of
        None \<Rightarrow> w
      | Some n \<Rightarrow>
          let n' = saturating_sub n 1 in
          w\<lparr> cw_state := (if n' = 0 then hm_remove peer (cw_state w) else hm_insert peer n' (cw_state w)) \<rparr>)"

section \<open>Serving is exact\<close>

text \<open>The stored chain below a hash, newest block first, down to genesis or to the first
  block that is not stored.\<close>

fun ancestry :: "persist_codec \<Rightarrow> memory_storage \<Rightarrow> hash256 \<Rightarrow> block list \<Rightarrow> bool" where
  "ancestry pc m h [] \<longleftrightarrow> load_block_from_storage pc m h = Inr None"
| "ancestry pc m h (b # bs) \<longleftrightarrow> load_block_from_storage pc m h = Inr (Some b)
     \<and> (if hdr_height (header b) = 0 then bs = [] else ancestry pc m (parent_hash (header b)) bs)"

text \<open>The part of a chain within a range.\<close>

definition chain_range :: "height \<Rightarrow> height \<Rightarrow> block list \<Rightarrow> block list" where
  "chain_range a b bs =
     filter (\<lambda>x. hdr_height (header x) \<le> b) (takeWhile (\<lambda>x. a \<le> hdr_height (header x)) bs)"

lemma chain_range_in: "x \<in> set (chain_range a b bs) \<Longrightarrow> x \<in> set bs \<and> a \<le> hdr_height (header x) \<and> hdr_height (header x) \<le> b"
  by (auto simp: chain_range_def dest: set_takeWhileD)

lemma range_walk_exact:
  "ancestry pc m h bs \<Longrightarrow> length acc < cap
    \<Longrightarrow> range_walk pc m a b cap acc h = Some (Inr (acc @ take (cap - length acc) (chain_range a b bs)))"
proof (induction bs arbitrary: h acc)
  case Nil
  then show ?case by (subst range_walk.simps) (simp add: chain_range_def)
next
  case (Cons x bs)
  let ?h = "hdr_height (header x)"
  have l: "load_block_from_storage pc m h = Inr (Some x)" using Cons.prems(1) by simp
  show ?case
  proof (cases "?h < a")
    case True
    then show ?thesis using l by (subst range_walk.simps) (simp add: chain_range_def)
  next
    case lo: False
    define acc' where "acc' = (if ?h \<le> b then acc @ [x] else acc)"
    have r: "chain_range a b (x # bs) = (if ?h \<le> b then [x] else []) @ chain_range a b bs"
      using lo by (auto simp: chain_range_def)
    have step: "range_walk pc m a b cap acc h =
        (if ?h \<le> b \<and> cap \<le> length acc' then Some (Inr acc')
         else if ?h = 0 then Some (Inr acc')
         else range_walk pc m a b cap acc' (parent_hash (header x)))"
      using l lo by (subst range_walk.simps) (simp add: acc'_def Let_def)
    show ?thesis
    proof (cases "(?h \<le> b \<and> cap \<le> length acc') \<or> ?h = 0")
      case True
      have "?h = 0 \<Longrightarrow> bs = []" using Cons.prems(1) by simp
      then show ?thesis using True Cons.prems(2) step r by (auto simp: acc'_def chain_range_def)
    next
      case False
      then have "length acc' < cap" using Cons.prems(2) by (auto simp: acc'_def)
      moreover have "ancestry pc m (parent_hash (header x)) bs" using False Cons.prems(1) by simp
      ultimately have "range_walk pc m a b cap acc' (parent_hash (header x))
          = Some (Inr (acc' @ take (cap - length acc') (chain_range a b bs)))"
        by (intro Cons.IH)
      then show ?thesis using False step r Cons.prems(2)
        by (auto simp: acc'_def take_Cons' Suc_diff_Suc)
    qed
  qed
qed

lemma load_block_range_exact:
  assumes "ancestry pc m tip bs" "tip \<noteq> 0" "a \<le> b" "0 < cap"
  shows "load_block_range_from_storage pc m tip a b cap = Some (Inr (rev (take cap (chain_range a b bs))))"
  using range_walk_exact[OF assms(1), of "[]" cap a b] assms(2-4)
  by (auto simp: load_block_range_from_storage_def)

lemma retain_unseen_ok:
  "set (retain_unseen f seen xs) \<subseteq> set xs \<and> distinct (map f (retain_unseen f seen xs))
     \<and> f ` set (retain_unseen f seen xs) = f ` set xs - seen \<and> length (retain_unseen f seen xs) \<le> length xs"
  by (induction f seen xs rule: retain_unseen.induct) auto

text \<open>The blocks of a range that a node has: pending ones and those of the stored chain.\<close>

definition range_known :: "hotstuff_state \<Rightarrow> block list \<Rightarrow> height \<Rightarrow> height \<Rightarrow> block set" where
  "range_known s bs a b =
     {x \<in> snd ` set (pending_blocks s). a \<le> hdr_height (header x) \<and> hdr_height (header x) \<le> b} \<union> set (chain_range a b bs)"

text \<open>C30: serving a range ends and is exact. When the chain below the last committed
  block is stored down to genesis or to a pruned block, the answer to a range
  request is computed; it has at most 64 blocks, in ascending height, no two with
  one hash, all of the range and all known; and when the node knows at most 64
  different blocks of the range, at most 64 of them in the stored chain, every one of them is
  served, however many blocks it has of other heights.\<close>

theorem block_range_served:
  assumes "\<And>xs. mset (order xs) = mset xs" "a \<le> b"
    and "stored (pd_last_committed pc) m STORAGE_KEY_LAST_COMMITTED = Inr (Some lc)"
    and "ancestry pc m (lc_hash lc) bs" "lc_hash lc \<noteq> 0"
  shows "\<exists>out. collect_block_range hp pc order s m a b = Some out \<and> length out \<le> 64
    \<and> sorted (map (\<lambda>x. hdr_height (header x)) out) \<and> distinct (map (block_hash_of hp) out) \<and> set out \<subseteq> range_known s bs a b
    \<and> (card (block_hash_of hp ` range_known s bs a b) \<le> 64 \<and> length (chain_range a b bs) \<le> 64
       \<longrightarrow> block_hash_of hp ` set out = block_hash_of hp ` range_known s bs a b)"
proof -
  let ?cap = "BLOCK_RANGE_RESPONSE_MAX_BLOCKS" and ?ht = "\<lambda>x. hdr_height (header x)"
  let ?pend = "order (filter (\<lambda>x. a \<le> ?ht x \<and> ?ht x \<le> b) (map snd (pending_blocks s)))"
  let ?all = "?pend @ rev (take ?cap (chain_range a b bs))"
  let ?out = "take ?cap (sort_key ?ht (retain_unseen (block_hash_of hp) {} ?all))"
  note u = retain_unseen_ok[of "block_hash_of hp" "{}" ?all]
  have cap: "?cap = 64" by (simp add: BLOCK_RANGE_RESPONSE_MAX_BLOCKS_def)
  have c: "collect_block_range hp pc order s m a b = Some ?out"
    using leD[OF assms(2)] assms(3) load_block_range_exact[OF assms(4,5,2), of ?cap]
    by (simp add: collect_block_range_def cap Let_def)
  have p: "set ?pend = {x \<in> snd ` set (pending_blocks s). a \<le> ?ht x \<and> ?ht x \<le> b}"
    using assms(1)[THEN mset_eq_setD] by auto
  have sub: "set ?all \<subseteq> range_known s bs a b"
    using p by (auto simp: range_known_def dest: in_set_takeD)
  have "set ?out \<subseteq> set (retain_unseen (block_hash_of hp) {} ?all)" by (auto dest: in_set_takeD)
  then have "set ?out \<subseteq> range_known s bs a b" using u sub by blast
  moreover have "distinct (map (block_hash_of hp) ?out)"
  proof -
    have "distinct (map (block_hash_of hp) (sort_key ?ht (retain_unseen (block_hash_of hp) {} ?all)))"
      using u by (simp add: distinct_map)
    then show ?thesis by (simp add: take_map[symmetric] distinct_take)
  qed
  moreover have "sorted (map ?ht ?out)" by (simp add: take_map[symmetric] sorted_wrt_take)
  moreover have "block_hash_of hp ` set ?out = block_hash_of hp ` range_known s bs a b"
    if few: "card (block_hash_of hp ` range_known s bs a b) \<le> 64" "length (chain_range a b bs) \<le> 64"
  proof -
    let ?r = "retain_unseen (block_hash_of hp) {} ?all"
    have all: "set ?all = range_known s bs a b" using few(2) p cap by (simp add: range_known_def)
    have "length ?r = card (block_hash_of hp ` set ?r)" using u distinct_card[of "map (block_hash_of hp) ?r"] by simp
    then have "length ?r \<le> ?cap" using u few(1) all cap by simp
    then have "set ?out = set ?r" by simp
    then show ?thesis using u all by auto
  qed
  ultimately show ?thesis using c cap by (intro exI[of _ ?out]) auto
qed

section \<open>Answers and requests\<close>

text \<open>What is inserted of an answer.\<close>

lemma accepted_range_blocks_ok:
  "set (accepted_range_blocks a b lh bs) \<subseteq> set bs
     \<and> sorted_wrt (<) (map (\<lambda>x. hdr_height (header x)) (accepted_range_blocks a b lh bs))
     \<and> (\<forall>x \<in> set (accepted_range_blocks a b lh bs). a \<le> hdr_height (header x) \<and> hdr_height (header x) \<le> b
          \<and> (case lh of Some l \<Rightarrow> l < hdr_height (header x) | None \<Rightarrow> True))"
proof (induction a b lh bs rule: accepted_range_blocks.induct)
  case (2 a b lh x bs)
  show ?case using "2.IH" by (auto simp: Let_def not_le split: option.splits if_splits intro: less_trans)
qed simp

lemma accepted_range_blocks_honest:
  assumes "sorted_wrt (<) (map (\<lambda>x. hdr_height (header x)) bs)" "\<forall>x \<in> set bs. a \<le> hdr_height (header x) \<and> hdr_height (header x) \<le> b"
  shows "accepted_range_blocks a b None bs = bs"
proof -
  have "(\<forall>x \<in> set bs. case lh of Some l \<Rightarrow> l < hdr_height (header x) | None \<Rightarrow> True) \<Longrightarrow> accepted_range_blocks a b lh bs = bs" for lh
    using assms
  proof (induction bs arbitrary: lh)
    case (Cons x bs)
    then show ?case by (auto simp: Let_def split: option.splits)
  qed simp
  then show ?thesis by simp
qed

text \<open>One pass of retries over a request: dropped when its attempts are used up, asked
  again when it has waited long enough.\<close>

definition spent :: "u32 \<Rightarrow> range_inflight option \<Rightarrow> bool" where
  "spent mx e \<longleftrightarrow> (case e of Some e \<Rightarrow> mx \<le> ri_attempts e | None \<Rightarrow> False)"

definition due :: "u32 \<Rightarrow> nat \<Rightarrow> nat \<Rightarrow> range_inflight option \<Rightarrow> bool" where
  "due mx now thr e \<longleftrightarrow> (case e of Some e \<Rightarrow> ri_attempts e < mx \<and> thr \<le> now - ri_last_asked e | None \<Rightarrow> False)"

definition asked :: "u32 \<Rightarrow> nat \<Rightarrow> nat \<Rightarrow> range_inflight option \<Rightarrow> range_inflight option" where
  "asked mx now thr e =
     (if due mx now thr e then map_option (\<lambda>e. e\<lparr> ri_attempts := saturating_add (ri_attempts e) 1, ri_last_asked := now \<rparr>) e else e)"

definition emits :: "height \<times> height \<Rightarrow> (height \<times> height \<times> node_id) list \<Rightarrow> nat" where
  "emits k xs = length (filter (\<lambda>(x, y, _). (x, y) = k) xs)"

lemma fold_retry:
  "distinct ks \<Longrightarrow> fold (retry_one mx now thr) ks (emit, drops, reqs) = (emit', drops', reqs') \<Longrightarrow> hm_wf reqs
    \<Longrightarrow> hm_wf reqs' \<and> hm_get reqs' k = (if k \<in> set ks then asked mx now thr (hm_get reqs k) else hm_get reqs k)
      \<and> emits k emit' = emits k emit + (if k \<in> set ks \<and> due mx now thr (hm_get reqs k) then 1 else 0)
      \<and> (k \<in> set drops' \<longleftrightarrow> k \<in> set drops \<or> (k \<in> set ks \<and> spent mx (hm_get reqs k)))"
proof (induction ks arbitrary: emit drops reqs)
  case (Cons x ks)
  obtain emit1 drops1 reqs1 where 1: "retry_one mx now thr x (emit, drops, reqs) = (emit1, drops1, reqs1)" by (metis prod_cases3)
  have f: "fold (retry_one mx now thr) ks (emit1, drops1, reqs1) = (emit', drops', reqs')" using Cons.prems(2) 1 by simp
  have one: "hm_wf reqs1" "hm_get reqs1 k = (if k = x then asked mx now thr (hm_get reqs k) else hm_get reqs k)"
    "emits k emit1 = emits k emit + (if k = x \<and> due mx now thr (hm_get reqs k) then 1 else 0)"
    "k \<in> set drops1 \<longleftrightarrow> k \<in> set drops \<or> (k = x \<and> spent mx (hm_get reqs k))"
    using 1 Cons.prems(3)
    by (auto simp: retry_one_def asked_def due_def spent_def emits_def not_le not_less split: option.splits if_splits)
  show ?case using Cons.IH[OF _ f one(1)] Cons.prems(1) one by auto
qed simp

lemma fold_remove_get: "hm_wf m \<Longrightarrow> hm_wf (fold hm_remove ks m) \<and> hm_get (fold hm_remove ks m) k = (if k \<in> set ks then None else hm_get m k)"
  by (induction ks arbitrary: m) auto

lemma maintain_retry:
  assumes "hm_wf reqs" "maintain_block_sync_range_retry mx now thr reqs = (emit, reqs')"
  shows "hm_wf reqs'" "hm_get reqs' k = (if spent mx (hm_get reqs k) then None else asked mx now thr (hm_get reqs k))"
    and "emits k emit = (if due mx now thr (hm_get reqs k) then 1 else 0)"
proof -
  have "hm_wf reqs' \<and> hm_get reqs' k = (if spent mx (hm_get reqs k) then None else asked mx now thr (hm_get reqs k))
      \<and> emits k emit = (if due mx now thr (hm_get reqs k) then 1 else 0)"
  proof (cases "reqs = []")
    case True
    then show ?thesis using assms(2) by (simp add: maintain_block_sync_range_retry_def spent_def due_def asked_def emits_def)
  next
    case False
    obtain emit1 drops reqs1 where f: "fold (retry_one mx now thr) (btree_set (map fst reqs)) ([], [], reqs) = (emit1, drops, reqs1)"
      by (metis prod_cases3)
    have r: "emit = emit1" "reqs' = fold hm_remove drops reqs1"
      using assms(2) False f by (simp_all add: maintain_block_sync_range_retry_def)
    note q = fold_retry[OF distinct_btree_set f assms(1)]
    have "k \<in> set (btree_set (map fst reqs)) \<longleftrightarrow> hm_get reqs k \<noteq> None"
      by (simp add: set_btree_set map_of_eq_None_iff)
    then show ?thesis using q[of k] fold_remove_get[of reqs1 drops k]
      by (cases "hm_get reqs k") (auto simp: r emits_def spent_def due_def asked_def)
  qed
  then show "hm_wf reqs'" "hm_get reqs' k = (if spent mx (hm_get reqs k) then None else asked mx now thr (hm_get reqs k))"
    "emits k emit = (if due mx now thr (hm_get reqs k) then 1 else 0)" by blast+
qed

text \<open>Passes at given times.\<close>

fun retry_passes :: "u32 \<Rightarrow> nat \<Rightarrow> nat list \<Rightarrow> range_requests \<Rightarrow> (height \<times> height \<times> node_id) list \<times> range_requests" where
  "retry_passes mx thr [] reqs = ([], reqs)"
| "retry_passes mx thr (now # ts) reqs =
     (case maintain_block_sync_range_retry mx now thr reqs of
        (emit, reqs') \<Rightarrow> (case retry_passes mx thr ts reqs' of (emit', reqs'') \<Rightarrow> (emit @ emit', reqs'')))"

lemma retry_passes_gone: "retry_passes mx thr ts reqs = (emit, reqs') \<Longrightarrow> hm_wf reqs \<Longrightarrow> hm_get reqs k = None \<Longrightarrow> emits k emit = 0"
proof (induction ts arbitrary: reqs emit)
  case Nil
  then show ?case by (simp add: emits_def)
next
  case (Cons now ts)
  obtain e1 r1 e2 where 1: "maintain_block_sync_range_retry mx now thr reqs = (e1, r1)" "retry_passes mx thr ts r1 = (e2, reqs')" "emit = e1 @ e2"
    using Cons.prems(1) by (auto split: prod.splits)
  note m = maintain_retry(1)[OF Cons.prems(2) 1(1)] maintain_retry(2,3)[OF Cons.prems(2) 1(1), of k]
  have "hm_get r1 k = None" "emits k e1 = 0" using m Cons.prems(3) by (simp_all add: spent_def asked_def due_def)
  then show ?case using Cons.IH[OF 1(2) m(1)] by (simp add: 1(3) emits_def)
qed

lemma retry_passes_bound:
  "retry_passes mx thr ts reqs = (emit, reqs') \<Longrightarrow> hm_wf reqs \<Longrightarrow> hm_get reqs k = Some e
    \<Longrightarrow> emits k emit \<le> unat mx - unat (ri_attempts e)"
proof (induction ts arbitrary: reqs emit e)
  case Nil
  then show ?case by (simp add: emits_def)
next
  case (Cons now ts)
  obtain e1 r1 e2 where 1: "maintain_block_sync_range_retry mx now thr reqs = (e1, r1)" "retry_passes mx thr ts r1 = (e2, reqs')" "emit = e1 @ e2"
    using Cons.prems(1) by (auto split: prod.splits)
  note m = maintain_retry(1)[OF Cons.prems(2) 1(1)] maintain_retry(2,3)[OF Cons.prems(2) 1(1), of k]
  have sum: "emits k emit = emits k e1 + emits k e2" by (simp add: 1(3) emits_def)
  show ?case
  proof (cases "spent mx (hm_get reqs k)")
    case True
    then have "hm_get r1 k = None" "emits k e1 = 0" using m Cons.prems(3) by (auto simp: spent_def due_def not_less[symmetric])
    then show ?thesis using retry_passes_gone[OF 1(2) m(1)] sum by simp
  next
    case False
    show ?thesis
    proof (cases "due mx now thr (hm_get reqs k)")
      case True
      then have lt: "unat (ri_attempts e) < unat mx" using Cons.prems(3) by (simp add: due_def word_less_nat_alt)
      then have "unat (saturating_add (ri_attempts e) 1) = unat (ri_attempts e) + 1"
        using unat_bound[of mx] by (simp add: unat_saturating_add)
      moreover have "hm_get r1 k = Some (e\<lparr> ri_attempts := saturating_add (ri_attempts e) 1, ri_last_asked := now \<rparr>)"
        using m(2) True False Cons.prems(3) by (simp add: asked_def)
      ultimately show ?thesis using Cons.IH[OF 1(2) m(1)] m(3) True sum lt by fastforce
    next
      case nd: False
      then show ?thesis using Cons.IH[OF 1(2) m(1), of e] m False Cons.prems(3) sum by (simp add: asked_def)
    qed
  qed
qed

text \<open>Catch-up requests are bounded. When a node asks a proposer for a range, the
  range starts right above its last committed block, ends below the proposal, is
  not empty and has at most 64 blocks, and no request for it is in flight; the
  request is then repeated by any sequence of retry passes less often than the
  configured number of attempts.\<close>

theorem range_requests_bounded:
  assumes "maybe_emit_block_range_request self_node prop committed proposal_height now reqs = (Some (a, b, p), reqs1)"
    and "unat committed + 65 < 2 ^ 64" "hm_wf reqs" "0 < mx"
    and "retry_passes mx thr ts reqs1 = (emit, reqs2)"
  shows "p = prop \<and> prop \<noteq> self_node \<and> a = committed + 1 \<and> a < b \<and> unat b < unat a + 64 \<and> b < proposal_height
    \<and> \<not> hm_contains reqs (a, b) \<and> emits (a, b) emit < unat mx"
proof -
  let ?par = "saturating_sub proposal_height 1"
  have e: "committed + 1 + 64 - 1 = committed + 64" by (simp add: algebra_simps)
  have un: "unat (committed + 1) = unat committed + 1" "unat (committed + 1 + 64 - 1) = unat committed + 64"
    using assms(2) unat_add_no_overflow[of committed 1] unat_add_no_overflow[of committed 64] unfolding e by simp_all
  have sat: "saturating_add committed 1 = committed + 1" using assms(2) by (simp add: saturating_add_def)
  have r: "prop \<noteq> self_node" "\<not> ?par \<le> committed + 1" "a = committed + 1" "b = min ?par (committed + 1 + 64 - 1)"
    "\<not> hm_contains reqs (a, b)" "p = prop" "reqs1 = hm_insert (a, b) \<lparr> ri_peer = prop, ri_attempts = 1, ri_last_asked = now \<rparr> reqs"
    using assms(1) sat
    by (auto simp: maybe_emit_block_range_request_def range_to_request_def BLOCK_RANGE_RESPONSE_MAX_BLOCKS_def Let_def split: if_splits)
  have "emits (a, b) emit \<le> unat mx - 1"
    using retry_passes_bound[OF assms(5), of "(a, b)"] assms(3) by (simp add: r(7))
  then have "emits (a, b) emit < unat mx" using assms(4) by (simp add: word_less_nat_alt)
  moreover have "unat b = min (unat ?par) (unat committed + 64)" unfolding r(4) un(2)[symmetric] by (simp add: min_def word_le_nat_alt)
  then have "a < b" "unat b < unat a + 64" "b < proposal_height"
    using r(2) un(1) unfolding r(3) by (auto simp: word_less_nat_alt word_le_nat_alt unat_saturating_sub)
  ultimately show ?thesis using r by blast
qed

section \<open>Outstanding answers\<close>

datatype credit_op = Acquire node_id | Release node_id

text \<open>The window with the number of guards held per peer; a guard is released once.\<close>

fun credit_step :: "credit_op \<Rightarrow> credit_window \<times> (node_id \<Rightarrow> nat) \<Rightarrow> credit_window \<times> (node_id \<Rightarrow> nat)" where
  "credit_step (Acquire p) (w, held) =
     (case try_acquire p w of (got, w') \<Rightarrow> (w', if got then held(p := held p + 1) else held))"
| "credit_step (Release p) (w, held) = (if held p = 0 then (w, held) else (release p w, held(p := held p - 1)))"

definition cw_count :: "credit_window \<Rightarrow> node_id \<Rightarrow> u32" where
  "cw_count w p = (case hm_get (cw_state w) p of Some n \<Rightarrow> n | None \<Rightarrow> 0)"

definition credit_ok :: "credit_window \<times> (node_id \<Rightarrow> nat) \<Rightarrow> bool" where
  "credit_ok = (\<lambda>(w, held). \<forall>p. held p = unat (cw_count w p) \<and> unat (cw_count w p) \<le> unat (cw_cap w))"

lemma try_acquire_count:
  "try_acquire p w = (got, w') \<Longrightarrow> (got \<longleftrightarrow> cw_count w p < cw_cap w) \<and> cw_cap w' = cw_cap w
     \<and> cw_count w' q = (if got \<and> q = p then cw_count w p + 1 else cw_count w q)"
  by (auto simp: try_acquire_def cw_count_def Let_def not_le split: if_splits option.splits)

lemma release_count:
  "cw_cap (release p w) = cw_cap w \<and> cw_count (release p w) q = (if q = p then saturating_sub (cw_count w p) 1 else cw_count w q)"
  by (auto simp: release_def cw_count_def Let_def saturating_sub_def split: option.splits)

lemma credit_step_ok:
  assumes "credit_ok x"
  shows "credit_ok (credit_step op x) \<and> cw_cap (fst (credit_step op x)) = cw_cap (fst x)"
proof -
  obtain w held where x: "x = (w, held)" by force
  have held: "held p = unat (cw_count w p)" "unat (cw_count w p) \<le> unat (cw_cap w)" for p using assms by (simp_all add: credit_ok_def x)
  show ?thesis
  proof (cases op)
    case (Acquire p)
    obtain got w' where a: "try_acquire p w = (got, w')" by force
    note c = try_acquire_count[OF a]
    have "unat (cw_count w p + 1) = unat (cw_count w p) + 1 \<and> unat (cw_count w p) + 1 \<le> unat (cw_cap w)" if got
      using that c[of p] unat_bound[of "cw_cap w"] unat_add_no_overflow[of "cw_count w p" 1] by (simp add: word_less_nat_alt)
    then show ?thesis using held c by (auto simp: Acquire x a credit_ok_def)
  next
    case (Release p)
    then show ?thesis using held le_trans[OF diff_le_self held(2)] by (auto simp: x credit_ok_def release_count unat_saturating_sub)
  qed
qed

text \<open>A peer never has more answers outstanding than the window allows, over any
  sequence of acquisitions and releases.\<close>

theorem credit_window_bounded:
  "snd (fold credit_step ops (cw_with_cap cap, \<lambda>_. 0)) p \<le> unat cap"
proof -
  have "credit_ok (fold credit_step ops x) \<and> cw_cap (fst (fold credit_step ops x)) = cw_cap (fst x)" if "credit_ok x" for x
    using that
  proof (induction ops arbitrary: x)
    case (Cons op ops)
    then show ?case using credit_step_ok[of x op] by simp
  qed simp
  from this[of "(cw_with_cap cap, \<lambda>_. 0)"] have
    "credit_ok (fold credit_step ops (cw_with_cap cap, \<lambda>_. 0)) \<and> cw_cap (fst (fold credit_step ops (cw_with_cap cap, \<lambda>_. 0))) = cap"
    by (simp add: credit_ok_def cw_with_cap_def cw_count_def)
  then show ?thesis by (auto simp: credit_ok_def split: prod.splits)
qed

section \<open>Instance\<close>

definition demo_range_codec :: persist_codec where
  "demo_range_codec =
     \<lparr> pe_view = (\<lambda>_. None), pd_view = (\<lambda>_. None), pe_locked = (\<lambda>_. None), pd_locked = (\<lambda>_. None),
       pe_qc = (\<lambda>_. None), pd_qc = (\<lambda>_. None), pe_timeout_vote = (\<lambda>_. None), pd_timeout_vote = (\<lambda>_. None),
       pe_block = (\<lambda>_. None), pd_block = (\<lambda>bs. Some (if bs = [1] then demo_block 0 0 0 else demo_block 1 1 1)),
       pe_last_committed = (\<lambda>_. None), pd_last_committed = (\<lambda>_. Some \<lparr> lc_height = 1, lc_view = 1, lc_hash = 2 \<rparr>) \<rparr>"

definition demo_range_store :: memory_storage where
  "demo_range_store = ms_apply_batch [] [WPut (block_storage_key 1) [1], WPut (block_storage_key 2) [2], WPut STORAGE_KEY_LAST_COMMITTED [0]]"

theorem block_range_served_witness:
  "\<exists>out. collect_block_range demo_hash demo_range_codec (\<lambda>xs. xs) (state demo_core) demo_range_store 0 5 = Some out
    \<and> block_hash_of demo_hash ` set out = {1, 2}"
proof -
  let ?bs = "[demo_block 1 1 1, demo_block 0 0 0]"
  have wf: "bt_wf ([] :: memory_storage)" by simp
  have get: "ms_get demo_range_store (block_storage_key 1) = Some [1]" "ms_get demo_range_store (block_storage_key 2) = Some [2]"
    "ms_get demo_range_store STORAGE_KEY_LAST_COMMITTED = Some [0]"
    by code_simp+
  have "ancestry demo_range_codec demo_range_store 2 ?bs"
    by (simp add: load_block_from_storage_def stored_def get decoded_def demo_range_codec_def demo_block_def)
  moreover have "stored (pd_last_committed demo_range_codec) demo_range_store STORAGE_KEY_LAST_COMMITTED
      = Inr (Some \<lparr> lc_height = 1, lc_view = 1, lc_hash = 2 \<rparr>)"
    by (simp add: stored_def get decoded_def demo_range_codec_def)
  moreover have "block_hash_of demo_hash ` range_known (state demo_core) ?bs 0 5 = {1, 2}"
    by (auto simp: range_known_def chain_range_def demo_eval)
  moreover from this have "card (block_hash_of demo_hash ` range_known (state demo_core) ?bs 0 5) \<le> 64" by simp
  moreover have "length (chain_range 0 5 ?bs) \<le> 64" by (simp add: chain_range_def demo_eval)
  ultimately show ?thesis
    using block_range_served[where order = "\<lambda>xs. xs" and a = 0 and b = 5 and bs = ?bs and hp = demo_hash and s = "state demo_core"]
    by fastforce
qed

theorem range_requests_bounded_witness:
  "maybe_emit_block_range_request 20 10 3 100 0 [] = (Some (4, 67, 10), [((4, 67), \<lparr> ri_peer = 10, ri_attempts = 1, ri_last_asked = 0 \<rparr>)])
    \<and> emits (4, 67) (fst (retry_passes 3 10 [5, 10, 20, 30, 40] [((4, 67), \<lparr> ri_peer = 10, ri_attempts = 1, ri_last_asked = 0 \<rparr>)])) < 3"
proof -
  let ?r = "[((4, 67), \<lparr> ri_peer = 10, ri_attempts = 1, ri_last_asked = 0 \<rparr>)] :: range_requests"
  have m: "maybe_emit_block_range_request 20 10 3 100 0 [] = (Some (4, 67, 10), ?r)"
    by (simp add: maybe_emit_block_range_request_def range_to_request_def saturating_sub_def saturating_add_def
        BLOCK_RANGE_RESPONSE_MAX_BLOCKS_def hm_contains_def)
  obtain emit reqs where p: "retry_passes 3 10 [5, 10, 20, 30, 40] ?r = (emit, reqs)" by (rule prod.exhaust)
  have b: "unat (3 :: u64) + 65 < 2 ^ 64" "(0 :: u32) < 3" by simp_all
  have "emits (4, 67) emit < unat (3 :: u32)" using range_requests_bounded[OF m b(1) hm_wf_Nil b(2) p] by blast
  then show ?thesis unfolding p m fst_conv by simp
qed

end
