(* ===== verification/Liveness_Tracker.thy ===== *)
theory Liveness_Tracker
  imports Key_Timeline
begin

text \<open>
  The participation tracker (\<open>liveness_tracker.rs\<close>): a sliding window over the
  committed views with incremental counters per validator. The reference is the
  recount over the window; the counters are \<open>u32\<close> and wrap.
\<close>

section \<open>The tracker\<close>

definition LIVENESS_WINDOW_VIEWS :: nat where
  "LIVENESS_WINDOW_VIEWS = 128"

definition LIVENESS_FLOOR_PERMILLE :: u64 where
  "LIVENESS_FLOOR_PERMILLE = 500"

definition BYZANTINE_PARTICIPATION_FLOOR_PERMILLE :: u64 where
  "BYZANTINE_PARTICIPATION_FLOOR_PERMILLE = 666"

definition LIVENESS_MIN_SAMPLE_VIEWS :: u32 where
  "LIVENESS_MIN_SAMPLE_VIEWS = 32"

record lt_counts =
  member_views :: u32
  credited_views :: u32

definition default_lt_counts :: lt_counts where
  "default_lt_counts = \<lparr> member_views = 0, credited_views = 0 \<rparr>"

record observation =
  ob_members :: "node_id list"
  ob_credited :: "node_id list"

record liveness_tracker =
  lt_window :: nat
  lt_observations :: "observation list"
  lt_counts_map :: "(node_id, lt_counts) btree_map"

definition with_window :: "nat \<Rightarrow> liveness_tracker" where
  "with_window w = \<lparr> lt_window = max w 1, lt_observations = [], lt_counts_map = [] \<rparr>"

text \<open>\<open>entry(v).or_default()\<close> followed by an update, and \<open>get_mut\<close> followed by one.\<close>

definition lt_bump :: "(lt_counts \<Rightarrow> lt_counts) \<Rightarrow> node_id \<Rightarrow> (node_id, lt_counts) btree_map \<Rightarrow> (node_id, lt_counts) btree_map" where
  "lt_bump f v m = bt_insert v (f (case bt_get m v of Some c \<Rightarrow> c | None \<Rightarrow> default_lt_counts)) m"

definition lt_modify :: "(lt_counts \<Rightarrow> lt_counts) \<Rightarrow> node_id \<Rightarrow> (node_id, lt_counts) btree_map \<Rightarrow> (node_id, lt_counts) btree_map" where
  "lt_modify f v m = (case bt_get m v of Some c \<Rightarrow> bt_insert v (f c) m | None \<Rightarrow> m)"

definition count_observation :: "observation \<Rightarrow> (node_id, lt_counts) btree_map \<Rightarrow> (node_id, lt_counts) btree_map" where
  "count_observation ob m =
     fold (lt_bump (\<lambda>c. c\<lparr> credited_views := credited_views c + 1 \<rparr>)) (ob_credited ob)
       (fold (lt_bump (\<lambda>c. c\<lparr> member_views := member_views c + 1 \<rparr>)) (ob_members ob) m)"

definition forget_observation :: "observation \<Rightarrow> (node_id, lt_counts) btree_map \<Rightarrow> (node_id, lt_counts) btree_map" where
  "forget_observation ob m =
     filter (\<lambda>(_, c). 0 < member_views c \<or> 0 < credited_views c)
       (fold (lt_modify (\<lambda>c. c\<lparr> credited_views := saturating_sub (credited_views c) 1 \<rparr>)) (ob_credited ob)
         (fold (lt_modify (\<lambda>c. c\<lparr> member_views := saturating_sub (member_views c) 1 \<rparr>)) (ob_members ob) m))"

fun lt_trim :: "nat \<Rightarrow> observation list \<Rightarrow> (node_id, lt_counts) btree_map \<Rightarrow> observation list \<times> (node_id, lt_counts) btree_map" where
  "lt_trim w [] m = ([], m)"
| "lt_trim w (old # obs) m =
     (if length (old # obs) > w then lt_trim w obs (forget_observation old m) else (old # obs, m))"

definition observed :: "node_id list \<Rightarrow> node_id list \<Rightarrow> observation" where
  "observed ms cs = \<lparr> ob_members = ms, ob_credited = filter (\<lambda>c. c \<in> set ms) cs \<rparr>"

definition observe :: "node_id list \<Rightarrow> node_id list \<Rightarrow> liveness_tracker \<Rightarrow> liveness_tracker" where
  "observe ms cs t =
     (case lt_trim (lt_window t) (lt_observations t @ [observed ms cs]) (count_observation (observed ms cs) (lt_counts_map t)) of
        (obs, m) \<Rightarrow> t\<lparr> lt_observations := obs, lt_counts_map := m \<rparr>)"

definition permille :: "u64 \<Rightarrow> u64 \<Rightarrow> u64" where
  "permille credited member = credited * 1000 div member"

definition participation_permille :: "liveness_tracker \<Rightarrow> node_id \<Rightarrow> u64 option" where
  "participation_permille t v =
     (case bt_get (lt_counts_map t) v of
        None \<Rightarrow> None
      | Some c \<Rightarrow> if member_views c = 0 then None else Some (permille (ucast (credited_views c)) (ucast (member_views c))))"

definition is_delinquent :: "liveness_tracker \<Rightarrow> node_id \<Rightarrow> bool" where
  "is_delinquent t v =
     (case bt_get (lt_counts_map t) v of
        Some c \<Rightarrow>
          member_views c \<ge> LIVENESS_MIN_SAMPLE_VIEWS
          \<and> permille (ucast (credited_views c)) (ucast (member_views c)) < LIVENESS_FLOOR_PERMILLE
      | None \<Rightarrow> False)"

definition delinquents :: "liveness_tracker \<Rightarrow> node_id list" where
  "delinquents t = filter (is_delinquent t) (map fst (lt_counts_map t))"

definition cluster_participation_permille :: "liveness_tracker \<Rightarrow> u64 option" where
  "cluster_participation_permille t =
     (case fold (\<lambda>(_, c) (cr, mv). (cr + ucast (credited_views c), mv + ucast (member_views c))) (lt_counts_map t) (0, 0) of
        (credited, member) \<Rightarrow> if member > 0 then Some (permille credited member) else None)"

definition cluster_below_byzantine_floor :: "liveness_tracker \<Rightarrow> bool" where
  "cluster_below_byzantine_floor t \<longleftrightarrow>
     lt_window t \<le> length (lt_observations t)
     \<and> (case cluster_participation_permille t of
          None \<Rightarrow> False
        | Some p \<Rightarrow> p < BYZANTINE_PARTICIPATION_FLOOR_PERMILLE)"

section \<open>Recounting the window\<close>

definition member_count :: "observation list \<Rightarrow> node_id \<Rightarrow> nat" where
  "member_count obs v = sum_list (map (\<lambda>ob. count_list (ob_members ob) v) obs)"

definition credited_count :: "observation list \<Rightarrow> node_id \<Rightarrow> nat" where
  "credited_count obs v = sum_list (map (\<lambda>ob. count_list (ob_credited ob) v) obs)"

text \<open>A counter of a validator as a number; an absent entry counts as zero.\<close>

definition counter :: "(lt_counts \<Rightarrow> u32) \<Rightarrow> (node_id, lt_counts) btree_map \<Rightarrow> node_id \<Rightarrow> nat" where
  "counter A m v = (case bt_get m v of None \<Rightarrow> 0 | Some c \<Rightarrow> unat (A c))"

definition counts_ok :: "observation list \<Rightarrow> (node_id, lt_counts) btree_map \<Rightarrow> bool" where
  "counts_ok obs m \<longleftrightarrow> bt_wf m
     \<and> (\<forall>v. counter member_views m v = member_count obs v \<and> counter credited_views m v = credited_count obs v)
     \<and> (\<forall>v. bt_get m v = None \<longleftrightarrow> member_count obs v = 0 \<and> credited_count obs v = 0)"

lemma count_append [simp]:
  "member_count (xs @ ys) v = member_count xs v + member_count ys v"
  "credited_count (xs @ ys) v = credited_count xs v + credited_count ys v"
  "member_count [] v = 0" "credited_count [] v = 0"
  "member_count (ob # obs) v = count_list (ob_members ob) v + member_count obs v"
  "credited_count (ob # obs) v = count_list (ob_credited ob) v + credited_count obs v"
  by (simp_all add: member_count_def credited_count_def)

lemma unat_inc: "Suc (unat w) < 2 ^ LENGTH('a) \<Longrightarrow> unat (w + 1 :: 'a::len word) = Suc (unat w)"
  by (metis One_nat_def add.commute plus_1_eq_Suc unat_add_no_overflow unat_1)

lemma wf_bump: "bt_wf m \<Longrightarrow> bt_wf (fold (lt_bump f) vs m)"
  by (induction vs arbitrary: m) (auto simp: lt_bump_def)

lemma wf_modify: "bt_wf m \<Longrightarrow> bt_wf (fold (lt_modify f) vs m)"
  by (induction vs arbitrary: m) (auto simp: lt_modify_def split: option.splits)

lemma get_bump: "bt_wf m \<Longrightarrow> bt_get (fold (lt_bump f) vs m) v = None \<longleftrightarrow> bt_get m v = None \<and> v \<notin> set vs"
  by (induction vs arbitrary: m) (auto simp: lt_bump_def)

text \<open>A pass that counts up one counter, and one that counts it down, leave the other.\<close>

lemma bump_counts:
  assumes "\<And>c. A (f c) = A c + 1" "A default_lt_counts = 0"
  shows "bt_wf m \<Longrightarrow> \<forall>v. counter A m v + count_list vs v < 2 ^ 32
    \<Longrightarrow> counter A (fold (lt_bump f) vs m) v = counter A m v + count_list vs v"
proof (induction vs arbitrary: m)
  case (Cons x vs)
  have "counter A m x + 1 < 2 ^ 32" using spec[OF Cons.prems(2), of x] by simp
  then have c: "counter A (lt_bump f x m) w = counter A m w + (if w = x then 1 else 0)" for w
    using Cons.prems(1) by (auto simp: lt_bump_def counter_def assms unat_inc split: option.splits)
  have "\<forall>w. counter A (lt_bump f x m) w + count_list vs w < 2 ^ 32"
    using Cons.prems(2) by (auto simp: c split: if_splits)
  from Cons.IH[OF _ this] show ?case using wf_bump[OF Cons.prems(1), of f "[x]"] by (simp add: c)
qed simp

lemma bump_other:
  assumes "\<And>c. B (f c) = B c" "B default_lt_counts = 0"
  shows "bt_wf m \<Longrightarrow> counter B (fold (lt_bump f) vs m) v = counter B m v"
proof (induction vs arbitrary: m)
  case (Cons x vs)
  have "counter B (lt_bump f x m) v = counter B m v"
    using Cons.prems(1) by (auto simp: lt_bump_def counter_def assms split: option.splits)
  then show ?case using Cons.IH[of "lt_bump f x m"] Cons.prems(1) by (simp add: lt_bump_def)
qed simp

lemma modify_counts:
  assumes "\<And>c. A (f c) = saturating_sub (A c) 1"
  shows "bt_wf m \<Longrightarrow> counter A (fold (lt_modify f) vs m) v = counter A m v - count_list vs v"
proof (induction vs arbitrary: m)
  case (Cons x vs)
  have c: "counter A (lt_modify f x m) w = counter A m w - (if w = x then 1 else 0)" for w
    using Cons.prems(1) by (auto simp: lt_modify_def counter_def assms unat_saturating_sub split: option.splits)
  have "bt_wf (lt_modify f x m)" using wf_modify[OF Cons.prems(1), of f "[x]"] by simp
  from Cons.IH[OF this] show ?case by (auto simp: c)
qed simp

lemma modify_other:
  assumes "\<And>c. B (f c) = B c"
  shows "bt_wf m \<Longrightarrow> counter B (fold (lt_modify f) vs m) v = counter B m v"
proof (induction vs arbitrary: m)
  case (Cons x vs)
  have c: "counter B (lt_modify f x m) v = counter B m v"
    using Cons.prems(1) by (auto simp: lt_modify_def counter_def assms split: option.splits)
  have "bt_wf (lt_modify f x m)" using wf_modify[OF Cons.prems(1), of f "[x]"] by simp
  from Cons.IH[OF this] show ?case by (simp add: c)
qed simp

lemma bt_get_filter:
  "bt_wf m \<Longrightarrow> bt_get (filter (\<lambda>(k, c). P c) m) v = (case bt_get m v of None \<Rightarrow> None | Some c \<Rightarrow> if P c then Some c else None)"
  using hm_get_retain[of m "\<lambda>_. P" v] by (simp add: hm_retain_def hm_wf_def bt_wf_def strict_sorted_iff)

lemma bt_wf_filter: "bt_wf m \<Longrightarrow> bt_wf (filter P m)"
  by (induction m) (auto simp: bt_wf_def)

lemma count_observation_ok:
  assumes "counts_ok obs m" "\<forall>v. member_count (obs @ [ob]) v < 2 ^ 32" "\<forall>v. credited_count (obs @ [ob]) v < 2 ^ 32"
  shows "counts_ok (obs @ [ob]) (count_observation ob m)"
proof -
  let ?m1 = "fold (lt_bump (\<lambda>c. c\<lparr> member_views := member_views c + 1 \<rparr>)) (ob_members ob) m"
  have wf: "bt_wf m" "bt_wf ?m1" using assms(1) by (simp_all add: counts_ok_def wf_bump)
  have 1: "counter member_views ?m1 v = member_count (obs @ [ob]) v" "counter credited_views ?m1 v = credited_count obs v" for v
    using assms wf(1) by (simp_all add: bump_counts bump_other counts_ok_def default_lt_counts_def)
  have 2: "counter member_views (count_observation ob m) v = member_count (obs @ [ob]) v"
    "counter credited_views (count_observation ob m) v = credited_count (obs @ [ob]) v" for v
    using assms(3) wf(2) 1 by (simp_all add: count_observation_def bump_counts bump_other default_lt_counts_def)
  have "bt_get (count_observation ob m) v = None \<longleftrightarrow> bt_get m v = None \<and> v \<notin> set (ob_members ob) \<and> v \<notin> set (ob_credited ob)" for v
    using wf by (auto simp: count_observation_def get_bump)
  then show ?thesis using assms(1) wf 2 by (auto simp: counts_ok_def count_observation_def wf_bump count_list_0_iff)
qed

lemma forget_observation_ok:
  assumes "counts_ok (ob # obs) m"
  shows "counts_ok obs (forget_observation ob m)"
proof -
  let ?m1 = "fold (lt_modify (\<lambda>c. c\<lparr> member_views := saturating_sub (member_views c) 1 \<rparr>)) (ob_members ob) m"
  let ?m2 = "fold (lt_modify (\<lambda>c. c\<lparr> credited_views := saturating_sub (credited_views c) 1 \<rparr>)) (ob_credited ob) ?m1"
  have wf: "bt_wf m" "bt_wf ?m1" "bt_wf ?m2" using assms by (simp_all add: counts_ok_def wf_modify)
  have c: "counter member_views ?m2 v = member_count obs v" "counter credited_views ?m2 v = credited_count obs v" for v
    using assms wf by (simp_all add: modify_counts modify_other counts_ok_def)
  have f: "bt_get (forget_observation ob m) v = (case bt_get ?m2 v of None \<Rightarrow> None
      | Some c \<Rightarrow> if 0 < member_views c \<or> 0 < credited_views c then Some c else None)" for v
    unfolding forget_observation_def using wf(3) by (rule bt_get_filter)
  have 2: "counter A (forget_observation ob m) v = counter A ?m2 v" if "A = member_views \<or> A = credited_views" for A v
    using that by (auto simp: counter_def f word_gt_0 split: option.split)
  have 3: "bt_get (forget_observation ob m) v = None \<longleftrightarrow> member_count obs v = 0 \<and> credited_count obs v = 0" for v
  proof (cases "bt_get ?m2 v")
    case None
    then show ?thesis using c[of v] by (simp add: f counter_def)
  next
    case (Some x)
    then have "unat (member_views x) = member_count obs v" "unat (credited_views x) = credited_count obs v"
      using c[of v] by (simp_all add: counter_def)
    then show ?thesis using Some by (auto simp: f word_gt_0 unat_eq_0[symmetric])
  qed
  show ?thesis using wf(3) 2 3 c by (simp add: counts_ok_def bt_wf_filter forget_observation_def)
qed

lemma lt_trim_ok:
  "counts_ok obs m \<Longrightarrow> lt_trim w obs m = (obs', m') \<Longrightarrow> obs' = drop (length obs - w) obs \<and> counts_ok obs' m'"
proof (induction w obs m rule: lt_trim.induct)
  case (2 w old obs m)
  then show ?case by (auto simp: forget_observation_ok Suc_diff_le split: if_splits)
qed auto

section \<open>Any sequence of committed views\<close>

text \<open>How often a validator sits and is credited in a window.\<close>

definition seats :: "observation list \<Rightarrow> node_id \<Rightarrow> nat" where
  "seats obs v = length (filter (\<lambda>ob. v \<in> set (ob_members ob)) obs)"

definition credits :: "observation list \<Rightarrow> node_id \<Rightarrow> nat" where
  "credits obs v = length (filter (\<lambda>ob. v \<in> set (ob_credited ob)) obs)"

definition ob_distinct :: "observation \<Rightarrow> bool" where
  "ob_distinct ob \<longleftrightarrow> distinct (ob_members ob) \<and> distinct (ob_credited ob)"

lemma count_list_distinct: "distinct xs \<Longrightarrow> count_list xs v = (if v \<in> set xs then 1 else 0)"
  by (induction xs) auto

lemma member_count_seats: "list_all ob_distinct obs \<Longrightarrow> member_count obs v = seats obs v"
  by (induction obs) (auto simp: seats_def ob_distinct_def count_list_distinct)

lemma credited_count_credits: "list_all ob_distinct obs \<Longrightarrow> credited_count obs v = credits obs v"
  by (induction obs) (auto simp: credits_def ob_distinct_def count_list_distinct)

lemma seats_le: "seats obs v \<le> length obs" "credits obs v \<le> length obs"
  by (simp_all add: seats_def credits_def)

definition tracker_ok :: "liveness_tracker \<Rightarrow> bool" where
  "tracker_ok t \<longleftrightarrow> lt_window t + 1 < 2 ^ 32 \<and> length (lt_observations t) \<le> lt_window t
     \<and> list_all ob_distinct (lt_observations t) \<and> counts_ok (lt_observations t) (lt_counts_map t)"

lemma tracker_observe_ok:
  assumes "tracker_ok t" "distinct ms" "distinct cs"
  shows "tracker_ok (observe ms cs t)"
    and "lt_observations (observe ms cs t) = drop (length (lt_observations t) + 1 - lt_window t) (lt_observations t @ [observed ms cs])"
    and "lt_window (observe ms cs t) = lt_window t"
proof -
  let ?ob = "observed ms cs" and ?obs = "lt_observations t @ [observed ms cs]"
  have d: "list_all ob_distinct ?obs" using assms by (simp add: tracker_ok_def ob_distinct_def observed_def)
  have "\<forall>v. member_count ?obs v < 2 ^ 32" "\<forall>v. credited_count ?obs v < 2 ^ 32"
    using assms(1) unfolding member_count_seats[OF d] credited_count_credits[OF d]
    by (auto simp: tracker_ok_def intro!: le_less_trans[OF seats_le(1)] le_less_trans[OF seats_le(2)])
  then have c: "counts_ok ?obs (count_observation ?ob (lt_counts_map t))"
    using assms(1) by (intro count_observation_ok) (simp_all add: tracker_ok_def)
  obtain obs m where tr: "lt_trim (lt_window t) ?obs (count_observation ?ob (lt_counts_map t)) = (obs, m)" by force
  have o: "observe ms cs t = t\<lparr> lt_observations := obs, lt_counts_map := m \<rparr>" by (simp add: observe_def tr)
  note ok = lt_trim_ok[OF c tr]
  have "list_all ob_distinct obs" using ok d by (auto simp: list_all_iff dest: in_set_dropD)
  moreover have "length obs \<le> lt_window t" using ok by simp
  ultimately show "tracker_ok (observe ms cs t)" using conjunct2[OF ok] assms(1) by (simp add: o tracker_ok_def)
  show "lt_observations (observe ms cs t) = drop (length (lt_observations t) + 1 - lt_window t) ?obs"
    using ok by (simp add: o)
  show "lt_window (observe ms cs t) = lt_window t" by (simp add: o)
qed

definition observe_all :: "(node_id list \<times> node_id list) list \<Rightarrow> liveness_tracker \<Rightarrow> liveness_tracker" where
  "observe_all ins t = fold (\<lambda>(ms, cs). observe ms cs) ins t"

lemma observe_all_ok:
  assumes "list_all (\<lambda>(ms, cs). distinct ms \<and> distinct cs) ins" "w + 1 < 2 ^ 32"
  shows "tracker_ok (observe_all ins (with_window w)) \<and> lt_window (observe_all ins (with_window w)) = max w 1
    \<and> lt_observations (observe_all ins (with_window w)) = drop (length ins - max w 1) (map (\<lambda>(ms, cs). observed ms cs) ins)"
  using assms(1)
proof (induction ins rule: rev_induct)
  case Nil
  then show ?case using assms(2) by (simp add: observe_all_def with_window_def tracker_ok_def counts_ok_def counter_def)
next
  case (snoc x ins)
  obtain ms cs where x: "x = (ms, cs)" by force
  have d: "distinct ms" "distinct cs" using snoc.prems by (simp_all add: x)
  have IH: "tracker_ok (observe_all ins (with_window w))" "lt_window (observe_all ins (with_window w)) = max w 1"
    "lt_observations (observe_all ins (with_window w)) = drop (length ins - max w 1) (map (\<lambda>(ms, cs). observed ms cs) ins)"
    using snoc by simp_all
  have o: "observe_all (ins @ [x]) (with_window w) = observe ms cs (observe_all ins (with_window w))"
    by (simp add: observe_all_def x)
  have "lt_observations (observe ms cs (observe_all ins (with_window w)))
      = drop (length ins + 1 - max w 1) (map (\<lambda>(ms, cs). observed ms cs) ins) @ [observed ms cs]"
    unfolding tracker_observe_ok(2)[OF IH(1) d] IH(2,3) by (auto simp: max_def intro!: arg_cong[where f = "\<lambda>n. drop n _"])
  then show ?case unfolding o using tracker_observe_ok[OF IH(1) d] IH by (simp add: x)
qed

lemma unat_permille: "unat (permille (ucast (c :: u32)) (ucast (m :: u32))) = unat c * 1000 div unat m"
proof -
  have "unat c < 2 ^ 32" using unat_bound[of c] by simp
  then have "unat (ucast c * 1000 :: u64) = unat c * 1000"
    by (simp add: unat_mul_no_overflow unat_ucast_widen)
  then show ?thesis by (simp add: permille_def unat_div unat_ucast_widen)
qed

lemma permille_exact: "permille (ucast (c :: u32)) (ucast (m :: u32)) = of_nat (unat c * 1000 div unat m)"
  unfolding unat_permille[symmetric] by simp

text \<open>C32: the tracker is exact. After any sequence of committed views with distinct
  members and signers, the window holds the last observations, the participation
  of a validator is its credited share of the views it sat in within the window,
  the delinquents are, in order, exactly the validators seated in at least 32
  views of the window with a share below 500 per mille, and no counter has
  wrapped.\<close>

theorem liveness_window_exact:
  assumes "list_all (\<lambda>(ms, cs). distinct ms \<and> distinct cs) ins" "w + 1 < 2 ^ 32"
    and "t = observe_all ins (with_window w)"
    and "obs = drop (length ins - max w 1) (map (\<lambda>(ms, cs). observed ms cs) ins)"
  shows "lt_observations t = obs
    \<and> participation_permille t v = (if seats obs v = 0 then None else Some (of_nat (credits obs v * 1000 div seats obs v)))
    \<and> (v \<in> set (delinquents t) \<longleftrightarrow> 32 \<le> seats obs v \<and> credits obs v * 1000 div seats obs v < 500)
    \<and> sorted_wrt (<) (delinquents t)"
proof -
  have ok: "tracker_ok t" "lt_observations t = obs" using observe_all_ok[OF assms(1,2)] assms(3,4) by simp_all
  have d: "list_all ob_distinct obs" and wf: "bt_wf (lt_counts_map t)" using ok by (simp_all add: tracker_ok_def counts_ok_def)
  have c: "counter member_views (lt_counts_map t) v = seats obs v" "counter credited_views (lt_counts_map t) v = credits obs v"
    "bt_get (lt_counts_map t) v = None \<longleftrightarrow> seats obs v = 0 \<and> credits obs v = 0"
    using ok unfolding tracker_ok_def counts_ok_def member_count_seats[OF d, symmetric] credited_count_credits[OF d, symmetric]
    by simp_all
  have p: "participation_permille t v = (if seats obs v = 0 then None else Some (of_nat (credits obs v * 1000 div seats obs v)))"
    using c by (auto simp: participation_permille_def counter_def permille_exact unat_eq_0[symmetric] split: option.splits)
  have "is_delinquent t v \<longleftrightarrow> 32 \<le> seats obs v \<and> credits obs v * 1000 div seats obs v < 500"
    using c by (auto simp: is_delinquent_def counter_def word_le_nat_alt word_less_nat_alt unat_permille
        LIVENESS_MIN_SAMPLE_VIEWS_def LIVENESS_FLOOR_PERMILLE_def split: option.splits)
  moreover have "v \<in> set (delinquents t) \<longleftrightarrow> is_delinquent t v"
    by (force simp: delinquents_def is_delinquent_def split: option.splits dest: map_of_SomeD)
  moreover have "sorted_wrt (<) (delinquents t)"
    using wf by (simp add: delinquents_def bt_wf_def sorted_wrt_filter)
  ultimately show ?thesis using ok(2) p by blast
qed

text \<open>Thirty-three views of two validators of which only the first signs.\<close>

theorem liveness_window_exact_witness:
  "participation_permille (observe_all (replicate 33 ([1, 2], [1])) (with_window 128)) 2 = Some 0
    \<and> 2 \<in> set (delinquents (observe_all (replicate 33 ([1, 2], [1])) (with_window 128)))
    \<and> 1 \<notin> set (delinquents (observe_all (replicate 33 ([1, 2], [1])) (with_window 128)))"
proof -
  let ?ins = "replicate 33 ([1, 2], [1]) :: (node_id list \<times> node_id list) list"
  let ?obs = "drop (length ?ins - max (128 :: nat) 1) (map (\<lambda>(ms, cs). observed ms cs) ?ins)"
  have o: "?obs = replicate 33 \<lparr> ob_members = [1, 2], ob_credited = [1] \<rparr>" by (simp add: observed_def)
  have s: "seats ?obs 2 = 33" "credits ?obs 2 = 0" "seats ?obs 1 = 33" "credits ?obs 1 = 33"
    unfolding o by (simp_all add: seats_def credits_def)
  have i: "list_all (\<lambda>(ms, cs). distinct ms \<and> distinct cs) ?ins" by (simp add: list_all_iff)
  show ?thesis
    using liveness_window_exact[OF i _ refl refl, of 128 2] liveness_window_exact[OF i _ refl refl, of 128 1]
    unfolding s by simp
qed

end
