(* ===== verification/Byte_Cursor.thy ===== *)
theory Byte_Cursor
  imports Snapshot_Store
begin

text \<open>
  Reading binary payloads: the \<open>Cursor\<close> that \<open>boule-reth/src/registry_payload.rs\<close> and
  \<open>boule-reth/src/weight_proof.rs\<close> share, the fields they read with it, and the
  interface of a field codec: a reader that accepts exactly the encodings of its
  values and consumes them exactly. Sequences of fields inherit the interface.
\<close>

record cursor =
  cu_buf :: bytes
  cu_pos :: nat

definition cursor_new :: "bytes \<Rightarrow> cursor" where
  "cursor_new bs = \<lparr> cu_buf = bs, cu_pos = 0 \<rparr>"

text \<open>\<open>checked_add\<close> on \<open>usize\<close>, then \<open>slice::get\<close> of a range.\<close>

definition cursor_take :: "nat \<Rightarrow> cursor \<Rightarrow> (bytes \<times> cursor) option" where
  "cursor_take n c =
     (if cu_pos c + n < 2 ^ 64 then
        if cu_pos c + n \<le> length (cu_buf c)
        then Some (take n (drop (cu_pos c) (cu_buf c)), c\<lparr> cu_pos := cu_pos c + n \<rparr>)
        else None
      else None)"

definition cursor_is_empty :: "cursor \<Rightarrow> bool" where
  "cursor_is_empty c \<longleftrightarrow> cu_pos c \<ge> length (cu_buf c)"

text \<open>\<open>uN::from_be_bytes(c.take(n)?.try_into().ok()?)\<close>; also the fixed-size arrays, which
  are words.\<close>

definition take_be :: "nat \<Rightarrow> cursor \<Rightarrow> ('a::len word \<times> cursor) option" where
  "take_be n c = map_option (\<lambda>(bs, c'). (of_be_bytes bs, c')) (cursor_take n c)"

text \<open>The loop \<open>for _ in 0..count { out.push(read?) }\<close>.\<close>

fun read_n :: "(cursor \<Rightarrow> ('a \<times> cursor) option) \<Rightarrow> nat \<Rightarrow> cursor \<Rightarrow> ('a list \<times> cursor) option" where
  "read_n rd 0 c = Some ([], c)"
| "read_n rd (Suc n) c =
     (case rd c of
        None \<Rightarrow> None
      | Some (x, c1) \<Rightarrow>
          (case read_n rd n c1 of None \<Rightarrow> None | Some (xs, c2) \<Rightarrow> Some (x # xs, c2)))"

section \<open>The unread input\<close>

definition cu_rest :: "cursor \<Rightarrow> bytes" where
  "cu_rest c = drop (cu_pos c) (cu_buf c)"

text \<open>A buffer is addressable and the position within it.\<close>

definition cu_wf :: "cursor \<Rightarrow> bool" where
  "cu_wf c \<longleftrightarrow> length (cu_buf c) < 2 ^ 64 \<and> cu_pos c \<le> length (cu_buf c)"

definition cu_skip :: "nat \<Rightarrow> cursor \<Rightarrow> cursor" where
  "cu_skip n c = c\<lparr> cu_pos := cu_pos c + n \<rparr>"

lemma cu_rest_new [simp]: "cu_rest (cursor_new bs) = bs"
  by (simp add: cu_rest_def cursor_new_def)

lemma cu_wf_new [simp]: "cu_wf (cursor_new bs) \<longleftrightarrow> length bs < 2 ^ 64"
  by (simp add: cu_wf_def cursor_new_def)

lemma cu_rest_skip [simp]: "cu_rest (cu_skip n c) = drop n (cu_rest c)"
  by (simp add: cu_rest_def cu_skip_def add.commute)

lemma cu_wf_skip: "cu_wf c \<Longrightarrow> n \<le> length (cu_rest c) \<Longrightarrow> cu_wf (cu_skip n c)"
  by (auto simp: cu_wf_def cu_skip_def cu_rest_def)

lemma cu_skip_skip [simp]: "cu_skip m (cu_skip n c) = cu_skip (n + m) c"
  by (simp add: cu_skip_def add.assoc)

lemma cu_skip_0 [simp]: "cu_skip 0 c = c"
  by (simp add: cu_skip_def)

lemma cursor_is_empty_iff: "cu_wf c \<Longrightarrow> cursor_is_empty c \<longleftrightarrow> cu_rest c = []"
  by (auto simp: cursor_is_empty_def cu_rest_def)

lemma cursor_take_iff:
  assumes "cu_wf c"
  shows "cursor_take n c = Some (bs, c') \<longleftrightarrow>
    length bs = n \<and> (\<exists>rest. cu_rest c = bs @ rest) \<and> c' = cu_skip n c"
proof -
  have "cursor_take n c = (if n \<le> length (cu_rest c) then Some (take n (cu_rest c), cu_skip n c) else None)"
    using assms by (auto simp: cursor_take_def cu_wf_def cu_rest_def cu_skip_def)
  then show ?thesis
    by (auto intro: append_take_drop_id[symmetric])
qed

lemma cursor_take_append:
  assumes "cu_wf c" "cu_rest c = bs @ rest" "length bs = n"
  obtains c' where "cursor_take n c = Some (bs, c')" "cu_wf c'" "cu_rest c' = rest"
proof
  show "cursor_take n c = Some (bs, cu_skip n c)" using assms by (auto simp: cursor_take_iff)
  show "cu_wf (cu_skip n c)" by (rule cu_wf_skip) (use assms in auto)
  show "cu_rest (cu_skip n c) = rest" using assms by auto
qed

lemma cursor_take_SomeD:
  assumes "cu_wf c" "cursor_take n c = Some (bs, c')"
  shows "length bs = n" "cu_wf c'" "cu_rest c = bs @ cu_rest c'"
proof -
  obtain rest where r: "length bs = n" "cu_rest c = bs @ rest" "c' = cu_skip n c"
    using assms by (auto simp: cursor_take_iff)
  show "length bs = n" by (rule r(1))
  show "cu_wf c'" unfolding r(3) by (rule cu_wf_skip) (use assms r in auto)
  show "cu_rest c = bs @ cu_rest c'" unfolding r(3) using r(1,2) by simp
qed

section \<open>Field codecs\<close>

text \<open>What a field promises its clients: on the encoding of an admissible value followed by
  anything the reader returns that value and stops right behind it, and it
  succeeds on nothing else.\<close>

locale field_codec =
  fixes rd :: "cursor \<Rightarrow> ('a \<times> cursor) option"
    and enc :: "'a \<Rightarrow> bytes"
    and ok :: "'a \<Rightarrow> bool"
  assumes read_enc: "cu_wf c \<Longrightarrow> ok x \<Longrightarrow> cu_rest c = enc x @ rest \<Longrightarrow> rd c = Some (x, cu_skip (length (enc x)) c)"
    and enc_read: "cu_wf c \<Longrightarrow> rd c = Some (x, c') \<Longrightarrow>
      ok x \<and> (\<exists>rest. cu_rest c = enc x @ rest) \<and> c' = cu_skip (length (enc x)) c"
begin

lemma read_wf:
  assumes "cu_wf c" "rd c = Some (x, c')"
  shows "cu_wf c'" "cu_rest c = enc x @ cu_rest c'"
proof -
  obtain rest where r: "cu_rest c = enc x @ rest" "c' = cu_skip (length (enc x)) c"
    using enc_read[OF assms] by blast
  show "cu_wf c'" unfolding r(2) by (rule cu_wf_skip[OF assms(1)]) (simp add: r(1))
  show "cu_rest c = enc x @ cu_rest c'" by (simp add: r)
qed

lemma read_after:
  assumes "cu_wf c" "ok x" "cu_rest c = enc x @ rest"
  obtains c' where "rd c = Some (x, c')" "cu_wf c'" "cu_rest c' = rest" "c' = cu_skip (length (enc x)) c"
  using that[OF read_enc[OF assms]] assms by (simp add: cu_wf_skip)

lemma read_n_enc:
  "cu_wf c \<Longrightarrow> list_all ok xs \<Longrightarrow> cu_rest c = concat (map enc xs) @ rest
     \<Longrightarrow> read_n rd (length xs) c = Some (xs, cu_skip (length (concat (map enc xs))) c)"
proof (induction xs arbitrary: c)
  case (Cons x xs)
  obtain c1 where c1: "rd c = Some (x, c1)" "cu_wf c1" "cu_rest c1 = concat (map enc xs) @ rest"
      "c1 = cu_skip (length (enc x)) c"
    by (rule read_after[OF Cons.prems(1), of x "concat (map enc xs) @ rest"]) (use Cons.prems in auto)
  have "read_n rd (length xs) c1 = Some (xs, cu_skip (length (concat (map enc xs))) c1)"
    by (rule Cons.IH) (use c1 Cons.prems in auto)
  then show ?case using c1(1,4) by simp
qed simp

lemma enc_read_n:
  "cu_wf c \<Longrightarrow> read_n rd n c = Some (xs, c')
     \<Longrightarrow> length xs = n \<and> list_all ok xs \<and> cu_wf c' \<and> cu_rest c = concat (map enc xs) @ cu_rest c'
       \<and> c' = cu_skip (length (concat (map enc xs))) c"
proof (induction n arbitrary: c xs)
  case (Suc n)
  obtain x c1 where x: "rd c = Some (x, c1)" using Suc.prems(2) by (cases "rd c") auto
  obtain ys where ys: "read_n rd n c1 = Some (ys, c')" "xs = x # ys"
    using Suc.prems(2) x by (cases "read_n rd n c1") auto
  note e = read_wf[OF Suc.prems(1) x]
  have c1: "ok x" "c1 = cu_skip (length (enc x)) c" using enc_read[OF Suc.prems(1) x] by blast+
  have r: "length ys = n" "list_all ok ys" "cu_wf c'" "cu_rest c1 = concat (map enc ys) @ cu_rest c'"
      "c' = cu_skip (length (concat (map enc ys))) c1"
    using Suc.IH[OF e(1) ys(1)] by blast+
  have "c' = cu_skip (length (concat (map enc xs))) c"
    by (subst r(5), subst c1(2)) (simp add: ys(2))
  moreover have "cu_rest c = concat (map enc xs) @ cu_rest c'"
    by (subst e(2), subst r(4)) (simp add: ys(2))
  ultimately show ?case using c1(1) r(1-3) ys(2) by simp
qed simp

end

lemma take_be_codec:
  assumes "LENGTH('a::len) = 8 * n"
  shows "field_codec (take_be n :: cursor \<Rightarrow> ('a word \<times> cursor) option) (be_bytes n) (\<lambda>_. True)"
proof
  show "take_be n c = Some (x, cu_skip (length (be_bytes n x)) c)"
    if "cu_wf c" "cu_rest c = be_bytes n x @ rest" for c and x :: "'a word" and rest
  proof -
    have "cursor_take n c = Some (be_bytes n x, cu_skip n c)"
      using that by (simp add: cursor_take_iff)
    then show ?thesis using assms by (simp add: take_be_def)
  qed
next
  fix c c' and x :: "'a word"
  assume a: "cu_wf c" "take_be n c = Some (x, c')"
  then obtain bs where "cursor_take n c = Some (bs, c')" "x = of_be_bytes bs"
    by (auto simp: take_be_def)
  then show "True \<and> (\<exists>rest. cu_rest c = be_bytes n x @ rest) \<and> c' = cu_skip (length (be_bytes n x)) c"
    using assms by (auto simp: cursor_take_iff[OF a(1)] be_bytes_of_be_bytes)
qed

interpretation u32_field: field_codec "take_be 4 :: cursor \<Rightarrow> (u32 \<times> cursor) option" "be_bytes 4" "\<lambda>_. True"
  by (rule take_be_codec) simp

interpretation u64_field: field_codec "take_be 8 :: cursor \<Rightarrow> (u64 \<times> cursor) option" "be_bytes 8" "\<lambda>_. True"
  by (rule take_be_codec) simp

interpretation hash_field: field_codec "take_be 32 :: cursor \<Rightarrow> (hash256 \<times> cursor) option" "be_bytes 32" "\<lambda>_. True"
  by (rule take_be_codec) simp

type_synonym key128 = "1024 word"

interpretation key_field: field_codec "take_be 128 :: cursor \<Rightarrow> (key128 \<times> cursor) option" "be_bytes 128" "\<lambda>_. True"
  by (rule take_be_codec) simp

text \<open>\<open>(x.len() as u32).to_be_bytes()\<close>.\<close>

definition len_be :: "'a list \<Rightarrow> bytes" where
  "len_be xs = be_bytes 4 (of_nat (length xs) :: u32)"

lemma length_len_be [simp]: "length (len_be xs) = 4"
  by (simp add: len_be_def)

text \<open>A byte string behind its length.\<close>

definition take_vec :: "cursor \<Rightarrow> (bytes \<times> cursor) option" where
  "take_vec c = (case take_be 4 c of None \<Rightarrow> None | Some (l, c1) \<Rightarrow> cursor_take (unat (l :: u32)) c1)"

definition vec_bytes :: "bytes \<Rightarrow> bytes" where
  "vec_bytes bs = len_be bs @ bs"

definition short :: "'a list \<Rightarrow> bool" where
  "short xs \<longleftrightarrow> length xs < 2 ^ 32"

lemma unat_len_be [simp]: "short xs \<Longrightarrow> unat (of_nat (length xs) :: u32) = length xs"
  by (simp add: short_def unat_of_nat_small)

lemma short_of_u32: "length xs = unat (l :: u32) \<Longrightarrow> short xs \<and> len_be xs = be_bytes 4 l"
  using unsigned_less[of l] by (simp add: short_def len_be_def)

interpretation vec_field: field_codec take_vec vec_bytes short
proof
  fix c x rest
  assume a: "cu_wf c" "short x" "cu_rest c = vec_bytes x @ rest"
  obtain c1 where c1: "take_be 4 c = Some (of_nat (length x) :: u32, c1)" "cu_wf c1" "cu_rest c1 = x @ rest"
      "c1 = cu_skip 4 c"
    using u32_field.read_after[OF a(1), of "of_nat (length x)" "x @ rest"] a(3)
    by (auto simp: vec_bytes_def len_be_def)
  have "cursor_take (length x) c1 = Some (x, cu_skip (length x) c1)"
    using c1(3) by (simp add: cursor_take_iff[OF c1(2)])
  then show "take_vec c = Some (x, cu_skip (length (vec_bytes x)) c)"
    using a(2) c1 by (simp add: take_vec_def vec_bytes_def)
next
  fix c x c'
  assume a: "cu_wf c" "take_vec c = Some (x, c')"
  obtain l :: u32 and c1 where l: "take_be 4 c = Some (l, c1)" "cursor_take (unat l) c1 = Some (x, c')"
    using a(2) by (auto simp: take_vec_def split: option.splits)
  note w = u32_field.read_wf[OF a(1) l(1)] u32_field.enc_read[OF a(1) l(1)]
  have x: "length x = unat l" "\<exists>rest. cu_rest c1 = x @ rest" "c' = cu_skip (unat l) c1"
    using l(2) by (simp_all add: cursor_take_iff[OF w(1)])
  have s: "short x" "len_be x = be_bytes 4 l" using short_of_u32[OF x(1)] by blast+
  have c1: "c1 = cu_skip 4 c" using w(3) by simp
  obtain rest where rest: "cu_rest c1 = x @ rest" using x(2) by blast
  have "cu_rest c = vec_bytes x @ rest" by (subst w(2), subst rest) (simp add: vec_bytes_def s(2))
  moreover have "c' = cu_skip (length (vec_bytes x)) c"
    by (subst x(3), subst c1) (simp add: vec_bytes_def x(1))
  ultimately show "short x \<and> (\<exists>rest. cu_rest c = vec_bytes x @ rest) \<and> c' = cu_skip (length (vec_bytes x)) c"
    using s(1) by blast
qed

text \<open>A counted sequence of fields: \<open>read_n\<close> behind a 32-bit count.\<close>

definition take_seq :: "(cursor \<Rightarrow> ('a \<times> cursor) option) \<Rightarrow> cursor \<Rightarrow> ('a list \<times> cursor) option" where
  "take_seq rd c = (case take_be 4 c of None \<Rightarrow> None | Some (l, c1) \<Rightarrow> read_n rd (unat (l :: u32)) c1)"

definition seq_bytes :: "('a \<Rightarrow> bytes) \<Rightarrow> 'a list \<Rightarrow> bytes" where
  "seq_bytes enc xs = len_be xs @ concat (map enc xs)"

context field_codec
begin

lemma seq_codec: "field_codec (take_seq rd) (seq_bytes enc) (\<lambda>xs. short xs \<and> list_all ok xs)"
proof
  fix c x rest
  assume a: "cu_wf c" "short x \<and> list_all ok x" "cu_rest c = seq_bytes enc x @ rest"
  obtain c1 where c1: "take_be 4 c = Some (of_nat (length x) :: u32, c1)" "cu_wf c1"
      "cu_rest c1 = concat (map enc x) @ rest" "c1 = cu_skip 4 c"
    using u32_field.read_after[OF a(1), of "of_nat (length x)" "concat (map enc x) @ rest"] a(3)
    by (auto simp: seq_bytes_def len_be_def)
  show "take_seq rd c = Some (x, cu_skip (length (seq_bytes enc x)) c)"
    using read_n_enc[OF c1(2) _ c1(3)] a(2) c1 by (simp add: take_seq_def seq_bytes_def)
next
  fix c x c'
  assume a: "cu_wf c" "take_seq rd c = Some (x, c')"
  obtain l :: u32 and c1 where l: "take_be 4 c = Some (l, c1)" "read_n rd (unat l) c1 = Some (x, c')"
    using a(2) by (auto simp: take_seq_def split: option.splits)
  note w = u32_field.read_wf[OF a(1) l(1)] u32_field.enc_read[OF a(1) l(1)]
  note r = enc_read_n[OF w(1) l(2)]
  have s: "short x \<and> len_be x = be_bytes 4 l" by (rule short_of_u32) (use r in simp)
  have c1: "c1 = cu_skip 4 c" using w(3) by simp
  have r1: "cu_rest c1 = concat (map enc x) @ cu_rest c'" "c' = cu_skip (length (concat (map enc x))) c1"
    using r by blast+
  have "cu_rest c = seq_bytes enc x @ cu_rest c'"
    by (subst w(2), subst r1(1)) (simp add: seq_bytes_def s)
  moreover have "c' = cu_skip (length (seq_bytes enc x)) c"
    by (subst r1(2), subst c1) (simp add: seq_bytes_def)
  ultimately show "(short x \<and> list_all ok x) \<and> (\<exists>rest. cu_rest c = seq_bytes enc x @ rest)
      \<and> c' = cu_skip (length (seq_bytes enc x)) c"
    using r s by blast
qed

end

section \<open>Records of fields\<close>

text \<open>Two fields in a row, and a field read into another representation.\<close>

definition take_pair ::
  "(cursor \<Rightarrow> ('a \<times> cursor) option) \<Rightarrow> (cursor \<Rightarrow> ('b \<times> cursor) option) \<Rightarrow> cursor \<Rightarrow> (('a \<times> 'b) \<times> cursor) option" where
  "take_pair rd1 rd2 c =
     (case rd1 c of
        None \<Rightarrow> None
      | Some (x, c1) \<Rightarrow> (case rd2 c1 of None \<Rightarrow> None | Some (y, c2) \<Rightarrow> Some ((x, y), c2)))"

definition take_as :: "('a \<Rightarrow> 'b) \<Rightarrow> (cursor \<Rightarrow> ('a \<times> cursor) option) \<Rightarrow> cursor \<Rightarrow> ('b \<times> cursor) option" where
  "take_as f rd c = map_option (\<lambda>(x, c'). (f x, c')) (rd c)"

locale two_fields = fst_field: field_codec rd1 enc1 ok1 + snd_field: field_codec rd2 enc2 ok2
  for rd1 :: "cursor \<Rightarrow> ('a \<times> cursor) option" and enc1 ok1
    and rd2 :: "cursor \<Rightarrow> ('b \<times> cursor) option" and enc2 ok2
begin

lemma pair_codec:
  "field_codec (take_pair rd1 rd2) (\<lambda>(x, y). enc1 x @ enc2 y) (\<lambda>(x, y). ok1 x \<and> ok2 y)"
proof
  fix c p rest
  assume a: "cu_wf c" "case p of (x, y) \<Rightarrow> ok1 x \<and> ok2 y" "cu_rest c = (case p of (x, y) \<Rightarrow> enc1 x @ enc2 y) @ rest"
  obtain x y where p: "p = (x, y)" by (rule prod.exhaust)
  obtain c1 where c1: "rd1 c = Some (x, c1)" "cu_wf c1" "cu_rest c1 = enc2 y @ rest" "c1 = cu_skip (length (enc1 x)) c"
    by (rule fst_field.read_after[OF a(1), of x "enc2 y @ rest"]) (use a p in auto)
  have "rd2 c1 = Some (y, cu_skip (length (enc2 y)) c1)"
    by (rule snd_field.read_enc[OF c1(2) _ c1(3)]) (use a p in auto)
  then show "take_pair rd1 rd2 c = Some (p, cu_skip (length (case p of (x, y) \<Rightarrow> enc1 x @ enc2 y)) c)"
    using c1(1,4) p by (simp add: take_pair_def)
next
  fix c p c'
  assume a: "cu_wf c" "take_pair rd1 rd2 c = Some (p, c')"
  obtain x y c1 where p: "p = (x, y)" "rd1 c = Some (x, c1)" "rd2 c1 = Some (y, c')"
    using a(2) by (auto simp: take_pair_def split: option.splits)
  note w = fst_field.read_wf[OF a(1) p(2)]
  note v = snd_field.read_wf[OF w(1) p(3)]
  have k: "ok1 x" "c1 = cu_skip (length (enc1 x)) c" "ok2 y" "c' = cu_skip (length (enc2 y)) c1"
    using fst_field.enc_read[OF a(1) p(2)] snd_field.enc_read[OF w(1) p(3)] by blast+
  have "cu_rest c = (enc1 x @ enc2 y) @ cu_rest c'" by (subst w(2), subst v(2)) simp
  moreover have "c' = cu_skip (length (enc1 x @ enc2 y)) c" by (subst k(4), subst k(2)) simp
  ultimately show "(case p of (x, y) \<Rightarrow> ok1 x \<and> ok2 y) \<and> (\<exists>rest. cu_rest c = (case p of (x, y) \<Rightarrow> enc1 x @ enc2 y) @ rest)
      \<and> c' = cu_skip (length (case p of (x, y) \<Rightarrow> enc1 x @ enc2 y)) c"
    using k(1,3) p(1) by auto
qed

end

lemmas pair_codecI = two_fields.pair_codec[OF two_fields.intro]

context field_codec
begin

lemma as_codec:
  assumes fg: "\<And>y. f (g y) = y" and gf: "\<And>x. g (f x) = x"
  shows "field_codec (take_as f rd) (enc \<circ> g) (ok \<circ> g)"
proof
  fix c y rest
  assume a: "cu_wf c" "(ok \<circ> g) y" "cu_rest c = (enc \<circ> g) y @ rest"
  have "rd c = Some (g y, cu_skip (length (enc (g y))) c)"
    by (rule read_enc[OF a(1)]) (use a in simp_all)
  then show "take_as f rd c = Some (y, cu_skip (length ((enc \<circ> g) y)) c)"
    by (simp add: take_as_def fg)
next
  fix c y c'
  assume a: "cu_wf c" "take_as f rd c = Some (y, c')"
  then obtain x where x: "rd c = Some (x, c')" "y = f x" by (auto simp: take_as_def)
  show "(ok \<circ> g) y \<and> (\<exists>rest. cu_rest c = (enc \<circ> g) y @ rest) \<and> c' = cu_skip (length ((enc \<circ> g) y)) c"
    using enc_read[OF a(1) x(1)] unfolding x(2) comp_def gf .
qed

text \<open>Reading a whole buffer: exactly the encodings are accepted.\<close>

lemma read_all_iff:
  assumes "length bs < 2 ^ 64"
  shows "(\<exists>c. rd (cursor_new bs) = Some (x, c) \<and> cursor_is_empty c) \<longleftrightarrow> ok x \<and> bs = enc x"
proof
  assume "\<exists>c. rd (cursor_new bs) = Some (x, c) \<and> cursor_is_empty c"
  then obtain c where c: "rd (cursor_new bs) = Some (x, c)" "cursor_is_empty c" by blast
  have w: "cu_wf (cursor_new bs)" using assms by simp
  have r: "cu_wf c" "bs = enc x @ cu_rest c" using read_wf[OF w c(1)] by simp_all
  have "cu_rest c = []" using c(2) r(1) by (simp add: cursor_is_empty_iff)
  with r(2) have "bs = enc x" by simp
  then show "ok x \<and> bs = enc x" using enc_read[OF w c(1)] by blast
next
  assume a: "ok x \<and> bs = enc x"
  obtain c where "rd (cursor_new bs) = Some (x, c)" "cu_wf c" "cu_rest c = []"
    by (rule read_after[of "cursor_new bs" x "[]"]) (use a assms in auto)
  then show "\<exists>c. rd (cursor_new bs) = Some (x, c) \<and> cursor_is_empty c"
    by (auto simp: cursor_is_empty_iff)
qed

end

end
