(* ===== verification/Registry_Payload.thy ===== *)
theory Registry_Payload
  imports Byte_Cursor App_Reconfig
begin

text \<open>
  The registry writes that a proposal carries in the \<open>extraData\<close> of its execution
  payload (\<open>boule-reth/src/registry_payload.rs\<close>): rotated keys, seated weights and the
  settled view, in a binary encoding with a magic and a version.
\<close>

definition BLR_MAGIC :: bytes where
  "BLR_MAGIC = ascii ''BLR1''"

definition BLR_VERSION :: u8 where
  "BLR_VERSION = 1"

record record_key =
  rk_validator :: node_id
  rk_v_eff :: view
  rk_key128 :: key128

record registry_payload =
  rp_keys :: "record_key list"
  rp_weights :: "(node_id \<times> u64) list"
  rp_settled_view :: "view option"

definition rp_new :: "record_key list \<Rightarrow> validator_update list \<Rightarrow> view option \<Rightarrow> registry_payload" where
  "rp_new keys ws settled =
     \<lparr> rp_keys = keys, rp_weights = map (\<lambda>u. (vu_node_id u, vu_weight u)) ws, rp_settled_view = settled \<rparr>"

definition rp_is_empty :: "registry_payload \<Rightarrow> bool" where
  "rp_is_empty p \<longleftrightarrow> rp_keys p = [] \<and> rp_weights p = [] \<and> rp_settled_view p = None"

definition record_key_bytes :: "record_key \<Rightarrow> bytes" where
  "record_key_bytes k = be_bytes 32 (rk_validator k) @ be_bytes 8 (rk_v_eff k) @ be_bytes 128 (rk_key128 k)"

definition weight_bytes :: "node_id \<times> u64 \<Rightarrow> bytes" where
  "weight_bytes w = be_bytes 32 (fst w) @ be_bytes 8 (snd w)"

definition rp_encode :: "registry_payload \<Rightarrow> bytes" where
  "rp_encode p =
     BLR_MAGIC @ [BLR_VERSION]
     @ [if rp_settled_view p \<noteq> None then 1 else 0]
     @ (case rp_settled_view p of Some v \<Rightarrow> be_bytes 8 v | None \<Rightarrow> [])
     @ len_be (rp_keys p) @ concat (map record_key_bytes (rp_keys p))
     @ len_be (rp_weights p) @ concat (map weight_bytes (rp_weights p))"

definition read_record_key :: "cursor \<Rightarrow> (record_key \<times> cursor) option" where
  "read_record_key c =
     do { (v, c1) \<leftarrow> take_be 32 c;
          (e, c2) \<leftarrow> take_be 8 c1;
          (k, c3) \<leftarrow> take_be 128 c2;
          Some (\<lparr> rk_validator = v, rk_v_eff = e, rk_key128 = k \<rparr>, c3) }"

definition read_weight :: "cursor \<Rightarrow> ((node_id \<times> u64) \<times> cursor) option" where
  "read_weight c =
     do { (v, c1) \<leftarrow> take_be 32 c;
          (w, c2) \<leftarrow> take_be 8 c1;
          Some ((v, w), c2) }"

definition rp_decode :: "bytes \<Rightarrow> registry_payload option" where
  "rp_decode bs =
     do { (magic, c1) \<leftarrow> cursor_take 4 (cursor_new bs);
          if magic \<noteq> BLR_MAGIC then None
          else do { (version, c2) \<leftarrow> cursor_take 1 c1;
            if version ! 0 \<noteq> BLR_VERSION then None
            else do { (flags, c3) \<leftarrow> cursor_take 1 c2;
              (settled, c4) \<leftarrow> (if and (flags ! 0) 1 \<noteq> 0
                 then map_option (\<lambda>(v, c). (Some v, c)) (take_be 8 c3) else Some (None, c3));
              (keys, c5) \<leftarrow> take_seq read_record_key c4;
              (ws, c6) \<leftarrow> take_seq read_weight c5;
              if \<not> cursor_is_empty c6 then None
              else Some \<lparr> rp_keys = keys, rp_weights = ws, rp_settled_view = settled \<rparr> } } }"

text \<open>\<open>hex::encode\<close> is a parameter.\<close>

definition to_attribute_hex :: "(bytes \<Rightarrow> string) \<Rightarrow> registry_payload \<Rightarrow> string" where
  "to_attribute_hex hex_encode p = (if rp_is_empty p then [] else ''0x'' @ hex_encode (rp_encode p))"

section \<open>The parts of a payload are codecs\<close>

interpretation weight_parts: two_fields "take_be 32 :: cursor \<Rightarrow> (node_id \<times> cursor) option" "be_bytes 32" "\<lambda>_. True"
  "take_be 8 :: cursor \<Rightarrow> (u64 \<times> cursor) option" "be_bytes 8" "\<lambda>_. True"
  by unfold_locales

interpretation weight_field: field_codec read_weight weight_bytes "\<lambda>_. True"
proof -
  note weight_parts.pair_codec
  moreover have "read_weight = take_pair (take_be 32) (take_be 8)"
    by (auto simp: read_weight_def take_pair_def fun_eq_iff split: bind_splits option.splits)
  ultimately show "field_codec read_weight weight_bytes (\<lambda>_. True)"
    by (simp add: weight_bytes_def[abs_def] case_prod_unfold)
qed

interpretation key_record: field_codec read_record_key record_key_bytes "\<lambda>_. True"
proof -
  let ?f = "\<lambda>(v, e, k). \<lparr> rk_validator = v, rk_v_eff = e, rk_key128 = k \<rparr>"
  let ?g = "\<lambda>r. (rk_validator r, rk_v_eff r, rk_key128 r)"
  have "field_codec (take_pair (take_be 32) (take_pair (take_be 8) (take_be 128)))
      (\<lambda>(x, y). be_bytes 32 x @ (\<lambda>(x, y). be_bytes 8 x @ be_bytes 128 y) y)
      (\<lambda>(x :: node_id, y :: u64 \<times> key128). True \<and> (case y of (x, y) \<Rightarrow> True \<and> True))"
    by (intro pair_codecI) unfold_locales
  from field_codec.as_codec[OF this, of ?f ?g]
  have "field_codec (take_as ?f (take_pair (take_be 32) (take_pair (take_be 8) (take_be 128)))) record_key_bytes (\<lambda>_. True)"
    by (simp add: record_key_bytes_def[abs_def] case_prod_unfold comp_def)
  moreover have "read_record_key = take_as ?f (take_pair (take_be 32) (take_pair (take_be 8) (take_be 128)))"
    by (auto simp: read_record_key_def take_pair_def take_as_def fun_eq_iff split: bind_splits option.splits)
  ultimately show "field_codec read_record_key record_key_bytes (\<lambda>_. True)" by simp
qed

interpretation keys_field: field_codec "take_seq read_record_key" "seq_bytes record_key_bytes" "\<lambda>xs. short xs \<and> list_all (\<lambda>_. True) xs"
  by (rule key_record.seq_codec)

interpretation weights_field: field_codec "take_seq read_weight" "seq_bytes weight_bytes" "\<lambda>xs. short xs \<and> list_all (\<lambda>_. True) xs"
  by (rule weight_field.seq_codec)

section \<open>Decoding inverts encoding\<close>

text \<open>The layout of a payload, with the flag byte free but for its lowest bit.\<close>

definition rp_layout :: "u8 \<Rightarrow> registry_payload \<Rightarrow> bytes" where
  "rp_layout f p =
     BLR_MAGIC @ [BLR_VERSION] @ [f] @ (case rp_settled_view p of Some v \<Rightarrow> be_bytes 8 v | None \<Rightarrow> [])
     @ seq_bytes record_key_bytes (rp_keys p) @ seq_bytes weight_bytes (rp_weights p)"

definition rp_short :: "registry_payload \<Rightarrow> bool" where
  "rp_short p \<longleftrightarrow> short (rp_keys p) \<and> short (rp_weights p)"

lemma rp_encode_layout: "rp_encode p = rp_layout (if rp_settled_view p \<noteq> None then 1 else 0) p"
  by (simp add: rp_encode_def rp_layout_def seq_bytes_def)

lemma length_magic [simp]: "length BLR_MAGIC = 4"
  by (simp add: BLR_MAGIC_def ascii_def)

lemma length_rp_layout:
  assumes "rp_short p"
  shows "length (rp_layout f p) < 2 ^ 64"
proof -
  have "length (concat (map record_key_bytes ks)) = length ks * 168" for ks
    by (induction ks) (simp_all add: record_key_bytes_def)
  moreover have "length (concat (map weight_bytes ws)) = length ws * 40" for ws
    by (induction ws) (simp_all add: weight_bytes_def)
  ultimately show ?thesis
    using assms by (auto simp: rp_layout_def seq_bytes_def rp_short_def short_def split: option.splits)
qed

lemma rp_decode_layout:
  assumes sp: "rp_short p" and f: "and f 1 \<noteq> 0 \<longleftrightarrow> rp_settled_view p \<noteq> None"
  shows "rp_decode (rp_layout f p) = Some p"
proof -
  let ?ks = "seq_bytes record_key_bytes (rp_keys p)" and ?ws = "seq_bytes weight_bytes (rp_weights p)"
  let ?s = "case rp_settled_view p of Some v \<Rightarrow> be_bytes 8 v | None \<Rightarrow> []"
  have w0: "cu_wf (cursor_new (rp_layout f p))" using length_rp_layout[OF sp] by simp
  obtain c1 where c1: "cursor_take 4 (cursor_new (rp_layout f p)) = Some (BLR_MAGIC, c1)" "cu_wf c1"
      "cu_rest c1 = [BLR_VERSION] @ [f] @ ?s @ ?ks @ ?ws"
    by (rule cursor_take_append[OF w0, of BLR_MAGIC "[BLR_VERSION] @ [f] @ ?s @ ?ks @ ?ws" 4]) (simp_all add: rp_layout_def)
  obtain c2 where c2: "cursor_take 1 c1 = Some ([BLR_VERSION], c2)" "cu_wf c2" "cu_rest c2 = [f] @ ?s @ ?ks @ ?ws"
    by (rule cursor_take_append[OF c1(2,3)]) simp_all
  obtain c3 where c3: "cursor_take 1 c2 = Some ([f], c3)" "cu_wf c3" "cu_rest c3 = ?s @ ?ks @ ?ws"
    by (rule cursor_take_append[OF c2(2,3)]) simp_all
  obtain c4 where c4: "(if and f 1 \<noteq> 0 then map_option (\<lambda>(v, c). (Some v, c)) (take_be 8 c3) else Some (None, c3))
      = Some (rp_settled_view p, c4)" "cu_wf c4" "cu_rest c4 = ?ks @ ?ws"
  proof (cases "rp_settled_view p")
    case None
    then show ?thesis using that[of c3] c3 f by simp
  next
    case (Some v)
    obtain c4 where "take_be 8 c3 = Some (v, c4)" "cu_wf c4" "cu_rest c4 = ?ks @ ?ws"
      by (rule u64_field.read_after[OF c3(2), of v "?ks @ ?ws"]) (use c3(3) Some in simp_all)
    then show ?thesis using that[of c4] Some f by simp
  qed
  obtain c5 where c5: "take_seq read_record_key c4 = Some (rp_keys p, c5)" "cu_wf c5" "cu_rest c5 = ?ws"
    by (rule keys_field.read_after[OF c4(2) _ c4(3)]) (use sp in \<open>simp_all add: rp_short_def list_all_iff\<close>)
  obtain c6 where c6: "take_seq read_weight c5 = Some (rp_weights p, c6)" "cu_wf c6" "cu_rest c6 = []"
    by (rule weights_field.read_after[OF c5(2), of "rp_weights p" "[]"])
      (use sp c5(3) in \<open>simp_all add: rp_short_def list_all_iff\<close>)
  show ?thesis
    by (simp add: rp_decode_def c1(1) c2(1) c3(1) c4(1) c5(1) c6(1) cursor_is_empty_iff[OF c6(2)] c6(3)
        del: One_nat_def)
qed

lemma rp_decode_SomeD:
  assumes len: "length bs < 2 ^ 64" and d: "rp_decode bs = Some p"
  shows "\<exists>f. (and f 1 \<noteq> 0 \<longleftrightarrow> rp_settled_view p \<noteq> None) \<and> bs = rp_layout f p \<and> rp_short p"
proof -
  have w0: "cu_wf (cursor_new bs)" using len by simp
  obtain c1 vs c2 fs c3 st c4 ks c5 ws c6 where
    c1: "cursor_take 4 (cursor_new bs) = Some (BLR_MAGIC, c1)" and
    c2: "cursor_take 1 c1 = Some (vs, c2)" "vs ! 0 = BLR_VERSION" and
    c3: "cursor_take 1 c2 = Some (fs, c3)" and
    c4: "(if and (fs ! 0) 1 \<noteq> 0 then map_option (\<lambda>(v, c). (Some v, c)) (take_be 8 c3) else Some (None, c3)) = Some (st, c4)" and
    c5: "take_seq read_record_key c4 = Some (ks, c5)" and
    c6: "take_seq read_weight c5 = Some (ws, c6)" "cursor_is_empty c6" and
    p: "p = \<lparr> rp_keys = ks, rp_weights = ws, rp_settled_view = st \<rparr>"
    using d unfolding rp_decode_def by (auto split: bind_splits if_split_asm simp del: split_paired_Ex)
  note r1 = cursor_take_SomeD[OF w0 c1]
  note r2 = cursor_take_SomeD[OF r1(2) c2(1)]
  note r3 = cursor_take_SomeD[OF r2(2) c3]
  obtain v f where vf: "vs = [v]" "fs = [f]" using r2(1) r3(1) by (auto simp: length_Suc_conv)
  have r4: "cu_wf c4" "cu_rest c3 = (case st of Some v \<Rightarrow> be_bytes 8 v | None \<Rightarrow> []) @ cu_rest c4"
      "and f 1 \<noteq> 0 \<longleftrightarrow> st \<noteq> None"
  proof (atomize (full), cases "and f 1 \<noteq> 0")
    case True
    then obtain w where "take_be 8 c3 = Some (w, c4)" "st = Some w" using c4 vf by auto
    then show "cu_wf c4 \<and> cu_rest c3 = (case st of Some v \<Rightarrow> be_bytes 8 v | None \<Rightarrow> []) @ cu_rest c4
        \<and> (and f 1 \<noteq> 0 \<longleftrightarrow> st \<noteq> None)"
      using u64_field.read_wf[OF r3(2)] True by simp
  next
    case False
    then show "cu_wf c4 \<and> cu_rest c3 = (case st of Some v \<Rightarrow> be_bytes 8 v | None \<Rightarrow> []) @ cu_rest c4
        \<and> (and f 1 \<noteq> 0 \<longleftrightarrow> st \<noteq> None)"
      using c4 vf r3(2) by simp
  qed
  note r5 = keys_field.read_wf[OF r4(1) c5] keys_field.enc_read[OF r4(1) c5]
  note r6 = weights_field.read_wf[OF r5(1) c6(1)] weights_field.enc_read[OF r5(1) c6(1)]
  have e6: "cu_rest c6 = []" using c6(2) r6(1) by (simp add: cursor_is_empty_iff)
  have "bs = BLR_MAGIC @ cu_rest c1" using r1(3) by simp
  also have "cu_rest c1 = [BLR_VERSION] @ cu_rest c2" using r2(3) c2(2) vf by simp
  also have "cu_rest c2 = [f] @ cu_rest c3" using r3(3) vf by simp
  also note r4(2)
  also note r5(2)
  also note r6(2)
  finally have "bs = rp_layout f p" by (simp add: rp_layout_def p e6)
  moreover have "rp_short p" using r5(3) r6(3) by (simp add: rp_short_def p)
  ultimately show ?thesis using r4(3) p by auto
qed

text \<open>Decoding a registry payload inverts encoding, and apart from the unused bits of
  the flag byte nothing else decodes: whatever decodes is the encoding of the result
  with that byte replaced.\<close>

theorem registry_payload_roundtrip:
  assumes "rp_short p" "length bs < 2 ^ 64"
  shows "rp_decode (rp_encode p) = Some p
    \<and> (rp_decode bs = Some q \<longrightarrow> (\<exists>f. bs = (rp_encode q)[5 := f]))"
proof
  show "rp_decode (rp_encode p) = Some p"
    unfolding rp_encode_layout by (rule rp_decode_layout[OF assms(1)]) simp
  show "rp_decode bs = Some q \<longrightarrow> (\<exists>f. bs = (rp_encode q)[5 := f])"
  proof
    assume "rp_decode bs = Some q"
    then obtain f where "bs = rp_layout f q" using rp_decode_SomeD[OF assms(2)] by blast
    then show "\<exists>f. bs = (rp_encode q)[5 := f]"
      by (auto simp: rp_encode_layout rp_layout_def list_update_append intro!: exI[of _ f])
  qed
qed

definition demo_registry :: registry_payload where
  "demo_registry = \<lparr> rp_keys = [\<lparr> rk_validator = 7, rk_v_eff = 12, rk_key128 = 99 \<rparr>], rp_weights = [(7, 10), (9, 0)],
     rp_settled_view = Some 4 \<rparr>"

theorem registry_payload_roundtrip_witness:
  "rp_short demo_registry \<and> rp_decode (rp_encode demo_registry) = Some demo_registry"
proof -
  have s: "rp_short demo_registry" by (simp add: rp_short_def short_def demo_registry_def)
  show ?thesis using registry_payload_roundtrip[OF s, of "[]" demo_registry] s by simp
qed

end
