(* ===== verification/El_Registry.thy ===== *)
theory El_Registry
  imports Registry_Payload Validator_Rotation Snapshot
begin

text \<open>
  The key and weight registry on the execution layer (\<open>boule-reth/src/registry.rs\<close>): the
  record a rotation leaves there, the settled view, and the storage of the
  predeployed contract at genesis. Keccak and the coordinates of a public key are
  parameters.
\<close>

section \<open>Keys and the settled view\<close>

definition SETTLED_VIEW_MARGIN :: u64 where
  "SETTLED_VIEW_MARGIN = MIN_V_EFF_DELAY"

definition conservative_settled_view :: "view \<Rightarrow> view" where
  "conservative_settled_view v = saturating_sub v SETTLED_VIEW_MARGIN"

text \<open>The uncompressed point, each coordinate padded to 64 bytes; \<open>xy\<close> is the pairing
  library's decoding of a public key, \<open>None\<close> its error.\<close>

definition bls_pubkey_to_eip2537_g1 :: "(bls_pk \<Rightarrow> (384 word \<times> 384 word) option) \<Rightarrow> bls_pk \<Rightarrow> key128 option" where
  "bls_pubkey_to_eip2537_g1 xy pk =
     (case xy pk of
        None \<Rightarrow> None
      | Some (x, y) \<Rightarrow> Some (of_be_bytes (replicate 16 0 @ be_bytes 48 x @ replicate 16 0 @ be_bytes 48 y)))"

datatype registry_error = UndecodableRotation decode_error | InvalidG1Point

definition record_key_for_rotation ::
  "('g1, 'g2) rotation_env \<Rightarrow> (bls_pk \<Rightarrow> (384 word \<times> 384 word) option) \<Rightarrow> bytes \<Rightarrow> registry_error + record_key option" where
  "record_key_for_rotation env xy cmd =
     (case (if is_rotation_payload cmd
            then (case decode_rotation env cmd of Inl e \<Rightarrow> Inl e | Inr r \<Rightarrow> Inr (Some (dsr_payload r)))
            else if is_operator_rotation_payload cmd
            then (case decode_operator_rotation env cmd of Inl e \<Rightarrow> Inl e | Inr r \<Rightarrow> Inr (Some (osr_payload r)))
            else Inr None) of
        Inl e \<Rightarrow> Inl (UndecodableRotation e)
      | Inr None \<Rightarrow> Inr None
      | Inr (Some p) \<Rightarrow>
          (case vkr_new_bls_pubkey p of
             None \<Rightarrow> Inr None
           | Some bls \<Rightarrow>
               (case bls_pubkey_to_eip2537_g1 xy bls of
                  None \<Rightarrow> Inl InvalidG1Point
                | Some k \<Rightarrow> Inr (Some \<lparr> rk_validator = vkr_validator p, rk_v_eff = vkr_v_eff p, rk_key128 = k \<rparr>))))"

section \<open>Storage of the contract at genesis\<close>

text \<open>Addition on a slot, byte by byte from the end; the carry is a \<open>u128\<close> and the loop stops
  when it is used up. A carry out of the slot is a panic, \<open>None\<close>.\<close>

fun slot_add_loop :: "bytes \<Rightarrow> u128 \<Rightarrow> bytes \<times> u128" where
  "slot_add_loop [] carry = ([], carry)"
| "slot_add_loop (b # bs) carry =
     (if carry = 0 then (b # bs, carry)
      else let total_byte = ucast b + and carry 0xff in
        (case slot_add_loop bs (drop_bit 8 carry + drop_bit 8 total_byte) of
           (out, c) \<Rightarrow> (ucast total_byte # out, c)))"

definition slot_add :: "hash256 \<Rightarrow> u64 \<Rightarrow> hash256 option" where
  "slot_add slot delta =
     (case slot_add_loop (rev (be_bytes 32 slot)) (ucast delta) of
        (out, carry) \<Rightarrow> if carry = 0 then Some (of_be_bytes (rev out)) else None)"

type_synonym storage_entry = "hash256 \<times> hash256"

definition HISTORY_MAPPING_SLOT :: u64 where
  "HISTORY_MAPPING_SLOT = 0"

definition KEY_ENTRY_SLOTS :: u64 where
  "KEY_ENTRY_SLOTS = 2"

definition WEIGHT_MAPPING_SLOT :: u64 where
  "WEIGHT_MAPPING_SLOT = 1"

definition TOTAL_WEIGHT_SLOT :: u64 where
  "TOTAL_WEIGHT_SLOT = 2"

text \<open>The slot of a mapping entry: the hash of the key and the slot of the mapping.\<close>

definition mapping_slot :: "(bytes \<Rightarrow> hash256) \<Rightarrow> node_id \<Rightarrow> u64 \<Rightarrow> hash256" where
  "mapping_slot keccak validator slot = keccak (be_bytes 32 validator @ be_bytes 32 (ucast slot :: hash256))"

definition weight_storage :: "(bytes \<Rightarrow> hash256) \<Rightarrow> node_id \<Rightarrow> u64 \<Rightarrow> storage_entry" where
  "weight_storage keccak validator w = (mapping_slot keccak validator WEIGHT_MAPPING_SLOT, ucast w)"

text \<open>The chunks of a key, each left-aligned in a word.\<close>

definition chunk_word :: "bytes \<Rightarrow> hash256" where
  "chunk_word c = of_be_bytes (c @ replicate (32 - length c) 0)"

fun chunk_entries :: "hash256 \<Rightarrow> nat \<Rightarrow> bytes list \<Rightarrow> storage_entry list option" where
  "chunk_entries base j [] = Some []"
| "chunk_entries base j (c # cs) =
     (case slot_add base (of_nat j) of
        None \<Rightarrow> None
      | Some s \<Rightarrow> map_option ((#) (s, chunk_word c)) (chunk_entries base (j + 1) cs))"

fun history_entries ::
  "(bytes \<Rightarrow> hash256) \<Rightarrow> hash256 \<Rightarrow> nat \<Rightarrow> (view \<times> bytes) list \<Rightarrow> storage_entry list option" where
  "history_entries keccak base i [] = Some []"
| "history_entries keccak base i ((v_eff, key) # es) =
     do { elem \<leftarrow> slot_add base (of_nat i * KEY_ENTRY_SLOTS);
          header_slot \<leftarrow> slot_add elem 1;
          chunks \<leftarrow> chunk_entries (keccak (be_bytes 32 header_slot)) 0 (slice_chunks 32 key);
          rest \<leftarrow> history_entries keccak base (i + 1) es;
          Some ((elem, ucast v_eff) # (header_slot, of_nat (length key * 2 + 1)) # chunks @ rest) }"

definition validator_history_storage ::
  "(bytes \<Rightarrow> hash256) \<Rightarrow> node_id \<Rightarrow> (view \<times> bytes) list \<Rightarrow> storage_entry list option" where
  "validator_history_storage keccak validator entries =
     (let array_slot = mapping_slot keccak validator HISTORY_MAPPING_SLOT in
      map_option ((#) (array_slot, of_nat (length entries)))
        (history_entries keccak (keccak (be_bytes 32 array_slot)) 0 entries))"

datatype seed_result = SeedPanic | SeedKeyError | SeedStorage "storage_entry list"

fun seed_validators ::
  "(bytes \<Rightarrow> hash256) \<Rightarrow> (bls_pk \<Rightarrow> (384 word \<times> 384 word) option) \<Rightarrow> (node_id \<times> bls_pk \<times> u64) list
     \<Rightarrow> storage_entry list \<Rightarrow> u64 \<Rightarrow> seed_result" where
  "seed_validators keccak xy [] out weight_sum =
     SeedStorage (if weight_sum \<noteq> 0 then out @ [(ucast TOTAL_WEIGHT_SLOT, ucast weight_sum)] else out)"
| "seed_validators keccak xy ((validator, key, w) # vs) out weight_sum =
     (case bls_pubkey_to_eip2537_g1 xy key of
        None \<Rightarrow> SeedKeyError
      | Some k \<Rightarrow>
          (case validator_history_storage keccak validator [(0, be_bytes 128 k)] of
             None \<Rightarrow> SeedPanic
           | Some es \<Rightarrow>
               (case checked_add weight_sum w of
                  None \<Rightarrow> SeedPanic
                | Some t \<Rightarrow> seed_validators keccak xy vs (out @ es @ [weight_storage keccak validator w]) t)))"

definition genesis_seed_storage ::
  "(bytes \<Rightarrow> hash256) \<Rightarrow> (bls_pk \<Rightarrow> (384 word \<times> 384 word) option) \<Rightarrow> (node_id \<times> bls_pk \<times> u64) list \<Rightarrow> seed_result" where
  "genesis_seed_storage keccak xy genesis = seed_validators keccak xy genesis [] 0"

section \<open>Addition on slots\<close>

text \<open>The value of bytes with the least significant byte first.\<close>

fun le_val :: "bytes \<Rightarrow> nat" where
  "le_val [] = 0"
| "le_val (b # bs) = unat b + 256 * le_val bs"

lemma le_val_append: "le_val (xs @ ys) = le_val xs + 256 ^ length xs * le_val ys"
  by (induction xs) (simp_all add: algebra_simps)

lemma le_val_rev: "le_val (rev bs) = be_val bs"
proof (induction bs)
  case (Cons b bs)
  then show ?case using be_val_from[of bs "unat b"] by (simp add: le_val_append)
qed simp

lemma le_val_less: "le_val bs < 256 ^ length bs"
  using be_val_less[of "rev bs"] le_val_rev[of "rev bs"] by simp

lemma slot_add_loop_spec:
  "unat c < 2 ^ 64 \<Longrightarrow> slot_add_loop bs c = (out, c') \<Longrightarrow>
     length out = length bs \<and> le_val out + 256 ^ length bs * unat c' = le_val bs + unat c"
proof (induction bs c arbitrary: out c' rule: slot_add_loop.induct)
  case (2 b bs c)
  show ?case
  proof (cases "c = 0")
    case False
    let ?s = "ucast b + and c 0xff :: u128"
    let ?c1 = "drop_bit 8 c + drop_bit 8 ?s"
    obtain o1 where o1: "slot_add_loop bs ?c1 = (o1, c')" "out = ucast ?s # o1"
      using "2.prems"(2) False by (auto simp: Let_def split: prod.splits)
    have b: "unat (ucast b :: u128) = unat b" "unat b < 256"
      using unat_bound[of b] by (simp_all add: unat_ucast_widen)
    have m: "unat (and c 0xff) = unat c mod 256"
    proof -
      have "and c 0xff = take_bit 8 c" by (simp add: take_bit_eq_mask mask_eq_exp_minus_1)
      then show ?thesis by (simp only: unsigned_take_bit_eq) (simp add: take_bit_eq_mod)
    qed
    have s: "unat ?s = unat b + unat c mod 256"
      using b m unat_add_no_overflow[of "ucast b :: u128" "and c 0xff"] by simp
    have d: "unat (drop_bit 8 w) = unat w div 256" for w :: u128
      by (simp only: unat_drop_bit_eq) (simp add: drop_bit_eq_div)
    have sb: "unat b + unat c mod 256 < 512" using b(2) by simp
    have c1: "unat ?c1 = unat c div 256 + (unat b + unat c mod 256) div 256"
      using unat_add_no_overflow[of "drop_bit 8 c" "drop_bit 8 ?s"] d[of c] d[of ?s] s "2.prems"(1) sb by simp
    have "(unat b + unat c mod 256) div 256 \<le> 1" using sb by linarith
    then have "unat ?c1 < 2 ^ 64" using c1 "2.prems"(1) by simp
    then have IH: "length o1 = length bs" "le_val o1 + 256 ^ length bs * unat c' = le_val bs + unat ?c1"
      using "2.IH"[OF False refl _ o1(1)] by simp_all
    have u: "unat (ucast ?s :: u8) = (unat b + unat c mod 256) mod 256"
      by (simp only: unsigned_ucast_eq s) (simp add: take_bit_eq_mod)
    have "le_val out + 256 ^ length (b # bs) * unat c'
        = unat (ucast ?s :: u8) + 256 * (le_val o1 + 256 ^ length bs * unat c')"
      by (simp add: o1(2) algebra_simps)
    also have "\<dots> = unat (ucast ?s :: u8) + 256 * (le_val bs + unat ?c1)" by (simp only: IH(2))
    also have "\<dots> = le_val (b # bs) + unat c" unfolding u c1 by (simp add: algebra_simps)
    finally show ?thesis using IH(1) o1(2) by simp
  qed (use 2 in auto)
qed simp

text \<open>Byte-wise addition on storage slots is addition of 256-bit integers, and panics
  exactly when that overflows.\<close>

theorem slot_add_exact: "slot_add s d = checked_add s (ucast d)"
proof -
  obtain out c where l: "slot_add_loop (rev (be_bytes 32 s)) (ucast d) = (out, c)" by (rule prod.exhaust)
  have u: "unat (ucast d :: u128) = unat d" "unat (ucast d :: hash256) = unat d" "unat d < 2 ^ 64"
    using unat_bound[of d] by (simp_all add: unat_ucast_widen)
  have "unat s < 256 ^ 32" using unat_bound[of s] by simp
  then have v: "be_val (be_bytes 32 s) = unat s" using fold_be_bytes[of 32 s 0] by simp
  have sp: "length out = 32" "le_val out + 256 ^ 32 * unat c = unat s + unat d"
    using slot_add_loop_spec[of "ucast d" "rev (be_bytes 32 s)" out c] l u v by (simp_all add: le_val_rev)
  have lt: "le_val out < 256 ^ 32" using le_val_less[of out] sp(1) by simp
  have p: "(256 :: nat) ^ 32 = 2 ^ 256" by simp
  show ?thesis
  proof (cases "c = 0")
    case True
    then have e: "le_val out = unat s + unat d" using sp(2) by simp
    then have "unat s + unat (ucast d :: hash256) < 2 ^ LENGTH(256)" using lt p u(2) by simp
    moreover have "(of_be_bytes (rev out) :: hash256) = s + ucast d"
      unfolding of_be_bytes_def using e le_val_rev[of "rev out"] u(2) by (simp add: word_unat_eq_iff unat_word_ariths unat_of_nat take_bit_eq_mod)
    ultimately show ?thesis using True by (simp add: slot_add_def l checked_add_def)
  next
    case False
    then have "unat c \<ge> 1" by (simp add: unat_gt_0 Suc_le_eq)
    then have "256 ^ 32 * 1 \<le> 256 ^ 32 * unat c" by (rule mult_le_mono2)
    then have "\<not> unat s + unat (ucast d :: hash256) < 2 ^ LENGTH(256)" using sp(2) p u(2) by simp
    then show ?thesis using False by (simp add: slot_add_def l checked_add_def)
  qed
qed

end
