(* ===== verification/Stake_Ledger.thy ===== *)
theory Stake_Ledger
  imports App_Reconfig
begin

text \<open>
  Stake and rewards of the reference applications
  (\<open>replication/stake_source.rs\<close>, \<open>replication/reward_ledger.rs\<close>): the bonded ledger with its
  unbonding queue behind the \<open>StakeSource\<close> interface, and the reward index. Sums of
  \<open>u64\<close> and \<open>u128\<close> wrap, as they do in a release build.
\<close>

section \<open>Bonded stake\<close>

definition UNBONDING_DELAY :: height where
  "UNBONDING_DELAY = 512"

datatype stake_op = Bond u64 | Unbond u64

record unbonding =
  ub_amount :: u64
  ub_mature_at :: height

record bonded_stake_ledger =
  bl_stake :: "(node_id, u64) btree_map"
  bl_unbonding :: "(node_id, unbonding list) btree_map"
  bl_current_height :: height
  bl_pending :: "validator_update list"

definition bl_empty :: bonded_stake_ledger where
  "bl_empty = \<lparr> bl_stake = [], bl_unbonding = [], bl_current_height = 0, bl_pending = [] \<rparr>"

definition seeded_from :: "(node_id \<times> u64) list \<Rightarrow> bonded_stake_ledger" where
  "seeded_from genesis =
     bl_empty\<lparr> bl_stake := fold (\<lambda>(n, w). bt_insert n w) (filter (\<lambda>(_, w). w > 0) genesis) [] \<rparr>"

definition bl_stake_of :: "bonded_stake_ledger \<Rightarrow> node_id \<Rightarrow> u64" where
  "bl_stake_of l n = (case bt_get (bl_stake l) n of Some w \<Rightarrow> w | None \<Rightarrow> 0)"

definition bl_unbonding_of :: "bonded_stake_ledger \<Rightarrow> node_id \<Rightarrow> u64" where
  "bl_unbonding_of l n =
     (case bt_get (bl_unbonding l) n of Some q \<Rightarrow> sum_list (map ub_amount q) | None \<Rightarrow> 0)"

definition bl_total_stake :: "bonded_stake_ledger \<Rightarrow> u64" where
  "bl_total_stake l = sum_list (map snd (bl_stake l))"

definition bl_push :: "node_id \<Rightarrow> u64 \<Rightarrow> bonded_stake_ledger \<Rightarrow> bonded_stake_ledger" where
  "bl_push n w l = l\<lparr> bl_pending := bl_pending l @ [\<lparr> vu_node_id = n, vu_weight = w \<rparr>] \<rparr>"

fun bl_apply :: "node_id \<Rightarrow> stake_op \<Rightarrow> bonded_stake_ledger \<Rightarrow> bonded_stake_ledger" where
  "bl_apply n (Bond amount) l =
     (let cur = bl_stake_of l n; nxt = saturating_add cur amount in
      if nxt = cur then l
      else bl_push n nxt (l\<lparr> bl_stake := bt_insert n nxt (bl_stake l) \<rparr>))"
| "bl_apply n (Unbond amount) l =
     (let cur = bl_stake_of l n; moved = min amount cur in
      if moved = 0 then l
      else
        let nxt = cur - moved;
            q = (case bt_get (bl_unbonding l) n of Some q \<Rightarrow> q | None \<Rightarrow> []) in
        bl_push n nxt
          (l\<lparr> bl_stake := (if nxt = 0 then bt_remove n (bl_stake l) else bt_insert n nxt (bl_stake l)),
             bl_unbonding := bt_insert n
               (q @ [\<lparr> ub_amount = moved, ub_mature_at = saturating_add (bl_current_height l) UNBONDING_DELAY \<rparr>])
               (bl_unbonding l) \<rparr>))"

definition bl_take_updates :: "bonded_stake_ledger \<Rightarrow> validator_update list \<times> bonded_stake_ledger" where
  "bl_take_updates l = (bl_pending l, l\<lparr> bl_pending := [] \<rparr>)"

definition bl_advance_to_height :: "height \<Rightarrow> bonded_stake_ledger \<Rightarrow> bonded_stake_ledger" where
  "bl_advance_to_height h l =
     l\<lparr> bl_current_height := h,
        bl_unbonding := filter (\<lambda>(_, q). q \<noteq> [])
          (map (\<lambda>(n, q). (n, filter (\<lambda>u. ub_mature_at u > h) q)) (bl_unbonding l)) \<rparr>"

definition bl_slash :: "node_id \<Rightarrow> bonded_stake_ledger \<Rightarrow> bonded_stake_ledger" where
  "bl_slash n l =
     (let had_active = bl_stake_of l n;
          l1 = l\<lparr> bl_stake := bt_remove n (bl_stake l), bl_unbonding := bt_remove n (bl_unbonding l) \<rparr> in
      if had_active > 0 then bl_push n 0 l1 else l1)"

section \<open>The interface of a stake source\<close>

datatype stake_event = EApply node_id stake_op | EAdvance height | ESlash node_id

fun bl_event :: "stake_event \<Rightarrow> bonded_stake_ledger \<Rightarrow> bonded_stake_ledger" where
  "bl_event (EApply n op) l = bl_apply n op l"
| "bl_event (EAdvance h) l = bl_advance_to_height h l"
| "bl_event (ESlash n) l = bl_slash n l"

text \<open>A client that follows the updates keeps its own table of weights.\<close>

definition follow :: "validator_update list \<Rightarrow> (node_id \<Rightarrow> u64) \<Rightarrow> node_id \<Rightarrow> u64" where
  "follow us f = fold (\<lambda>u f. f(vu_node_id u := vu_weight u)) us f"

lemma follow_Nil [simp]: "follow [] f = f"
  by (simp add: follow_def)

lemma follow_append [simp]: "follow (us @ vs) f = follow vs (follow us f)"
  by (simp add: follow_def)

lemma follow_single [simp]: "follow [u] f = f(vu_node_id u := vu_weight u)"
  by (simp add: follow_def)

text \<open>One commit: the events of a block, then the updates are drained.\<close>

definition commit_block ::
  "(stake_event \<Rightarrow> 's \<Rightarrow> 's) \<Rightarrow> ('s \<Rightarrow> validator_update list \<times> 's) \<Rightarrow> stake_event list \<Rightarrow> 's \<Rightarrow> validator_update list \<times> 's" where
  "commit_block event drain es s = drain (fold event es s)"

fun commit_blocks ::
  "(stake_event \<Rightarrow> 's \<Rightarrow> 's) \<Rightarrow> ('s \<Rightarrow> validator_update list \<times> 's) \<Rightarrow> stake_event list list \<Rightarrow> 's
     \<Rightarrow> validator_update list list \<times> 's" where
  "commit_blocks event drain [] s = ([], s)"
| "commit_blocks event drain (es # bs) s =
     (case commit_block event drain es s of (us, s1) \<Rightarrow>
      (case commit_blocks event drain bs s1 of (uss, s2) \<Rightarrow> (us # uss, s2)))"

text \<open>What a stake source promises: every event extends the pending updates by what changed
  the stake, and draining the updates changes nothing else.\<close>

locale stake_source =
  fixes event :: "stake_event \<Rightarrow> 's \<Rightarrow> 's"
    and drain :: "'s \<Rightarrow> validator_update list \<times> 's"
    and stake_of :: "'s \<Rightarrow> node_id \<Rightarrow> u64"
    and outstanding :: "'s \<Rightarrow> validator_update list"
    and inv :: "'s \<Rightarrow> bool"
  assumes event_inv: "inv s \<Longrightarrow> inv (event e s)"
    and event_updates: "inv s \<Longrightarrow> \<exists>us. outstanding (event e s) = outstanding s @ us \<and> stake_of (event e s) = follow us (stake_of s)"
    and drain_inv: "inv s \<Longrightarrow> inv (snd (drain s))"
    and drain_all: "fst (drain s) = outstanding s" "outstanding (snd (drain s)) = []"
    and drain_stake: "stake_of (snd (drain s)) = stake_of s"
begin

lemma events_updates:
  "inv s \<Longrightarrow> inv (fold event es s) \<and>
     (\<exists>us. outstanding (fold event es s) = outstanding s @ us \<and> stake_of (fold event es s) = follow us (stake_of s))"
proof (induction es arbitrary: s)
  case (Cons e es)
  obtain us where "outstanding (event e s) = outstanding s @ us" "stake_of (event e s) = follow us (stake_of s)"
    using event_updates[OF Cons.prems] by blast
  moreover obtain vs where "outstanding (fold event es (event e s)) = outstanding (event e s) @ vs"
      "stake_of (fold event es (event e s)) = follow vs (stake_of (event e s))" "inv (fold event es (event e s))"
    using Cons.IH[OF event_inv[OF Cons.prems]] by blast
  ultimately show ?case by (intro conjI exI[of _ "us @ vs"]) simp_all
qed simp

lemma commits_followed:
  assumes "inv s" "outstanding s = []" "commit_blocks event drain bs s = (uss, s')"
  shows "inv s' \<and> outstanding s' = [] \<and> stake_of s' = follow (concat uss) (stake_of s)"
  using assms
proof (induction bs arbitrary: s uss)
  case (Cons es bs)
  obtain us where us: "outstanding (fold event es s) = us" "stake_of (fold event es s) = follow us (stake_of s)"
      "inv (fold event es s)"
    using events_updates[OF Cons.prems(1)] Cons.prems(2) by auto
  obtain ds s1 where d: "drain (fold event es s) = (ds, s1)" by (rule prod.exhaust)
  obtain vss where r: "commit_blocks event drain bs s1 = (vss, s')" "uss = ds # vss"
    using Cons.prems(3) d by (auto simp: commit_block_def split: prod.splits)
  have "inv s1" "outstanding s1 = []" "ds = us" "stake_of s1 = follow us (stake_of s)"
    using drain_inv[OF us(3)] drain_all[of "fold event es s"] drain_stake[of "fold event es s"] d us by simp_all
  then show ?case using Cons.IH[OF _ _ r(1)] r(2) by simp
qed simp

end

section \<open>The bonded ledger is a stake source\<close>

definition bl_wf :: "bonded_stake_ledger \<Rightarrow> bool" where
  "bl_wf l \<longleftrightarrow> bt_wf (bl_stake l) \<and> bt_wf (bl_unbonding l) \<and> list_all (\<lambda>(_, w). w > 0) (bl_stake l)
     \<and> list_all (\<lambda>(_, q). q \<noteq> []) (bl_unbonding l)"

lemma bl_stake_of_push [simp]: "bl_stake_of (bl_push n w l) = bl_stake_of l"
  by (rule ext) (simp add: bl_stake_of_def bl_push_def)

lemma bl_pending_push [simp]: "bl_pending (bl_push n w l) = bl_pending l @ [\<lparr> vu_node_id = n, vu_weight = w \<rparr>]"
  by (simp add: bl_push_def)

lemma bl_wf_push [simp]: "bl_wf (bl_push n w l) = bl_wf l"
  by (simp add: bl_push_def bl_wf_def)

lemma bl_stake_of_insert:
  "bt_wf (bl_stake l) \<Longrightarrow> bl_stake_of (l\<lparr> bl_stake := bt_insert n w (bl_stake l), bl_unbonding := u \<rparr>) = (bl_stake_of l)(n := w)"
  "bt_wf (bl_stake l) \<Longrightarrow> bl_stake_of (l\<lparr> bl_stake := bt_insert n w (bl_stake l) \<rparr>) = (bl_stake_of l)(n := w)"
  by (auto simp: bl_stake_of_def fun_eq_iff)

lemma bl_stake_of_remove:
  "bl_stake_of (l\<lparr> bl_stake := bt_remove n (bl_stake l), bl_unbonding := u \<rparr>) = (bl_stake_of l)(n := 0)"
  by (auto simp: bl_stake_of_def fun_eq_iff)

lemma list_all_bt_insert: "list_all P m \<Longrightarrow> P (k, v) \<Longrightarrow> list_all P (bt_insert k v m)"
  using set_bt_insert[of k v m] by (auto simp: list_all_iff)

lemma list_all_bt_remove: "list_all P m \<Longrightarrow> list_all P (bt_remove k m)"
  by (auto simp: list_all_iff bt_remove_def)

lemma bl_event_wf:
  assumes "bl_wf l"
  shows "bl_wf (bl_event e l)"
proof (cases e)
  case (EApply n op)
  show ?thesis
  proof (cases op)
    case (Bond a)
    have "bl_wf (l\<lparr> bl_stake := bt_insert n (saturating_add (bl_stake_of l n) a) (bl_stake l) \<rparr>)"
      if "saturating_add (bl_stake_of l n) a \<noteq> bl_stake_of l n"
    proof -
      have "saturating_add (bl_stake_of l n) a \<noteq> 0"
        using that saturating_add_le[of "bl_stake_of l n" a] word_le_0_iff by metis
      then show ?thesis using assms by (auto simp: bl_wf_def word_gt_0 intro!: list_all_bt_insert)
    qed
    then show ?thesis using EApply Bond assms by (simp add: Let_def)
  next
    case (Unbond a)
    then show ?thesis using EApply assms
      by (auto simp: Let_def bl_push_def bl_wf_def word_gt_0 intro!: list_all_bt_insert list_all_bt_remove)
  qed
next
  case (EAdvance h)
  have "bt_wf (filter P (map (\<lambda>(n, q). (n, f q)) m))" if "bt_wf m" for m :: "(node_id, unbonding list) btree_map" and P f
    using that by (induction m) (auto simp: bt_wf_def sorted_wrt_append)
  then show ?thesis using EAdvance assms by (auto simp: bl_wf_def bl_advance_to_height_def list_all_iff)
next
  case (ESlash n)
  then show ?thesis using assms by (auto simp: bl_slash_def bl_push_def Let_def bl_wf_def intro!: list_all_bt_remove)
qed

lemma bl_event_updates:
  assumes "bl_wf l"
  shows "\<exists>us. bl_pending (bl_event e l) = bl_pending l @ us \<and> bl_stake_of (bl_event e l) = follow us (bl_stake_of l)"
proof (cases e)
  case (EApply n op)
  have w: "bt_wf (bl_stake l)" using assms by (simp add: bl_wf_def)
  show ?thesis
    by (cases op) (auto simp: EApply Let_def bl_stake_of_insert[OF w] bl_stake_of_remove)
next
  case (EAdvance h)
  then show ?thesis by (auto simp: bl_advance_to_height_def bl_stake_of_def fun_eq_iff intro!: exI[of _ "[]"])
next
  case (ESlash n)
  show ?thesis
    by (cases "bl_stake_of l n > 0") (auto simp: ESlash bl_slash_def Let_def bl_stake_of_remove word_gt_0 fun_eq_iff)
qed

interpretation bonded: stake_source bl_event bl_take_updates bl_stake_of bl_pending bl_wf
proof
  show "bl_stake_of (snd (bl_take_updates l)) = bl_stake_of l" for l
    by (rule ext) (simp add: bl_take_updates_def bl_stake_of_def)
  show "bl_wf (snd (bl_take_updates l))" if "bl_wf l" for l
    using that by (simp add: bl_take_updates_def bl_wf_def)
qed (simp_all add: bl_event_wf bl_event_updates bl_take_updates_def)

definition bl_queue :: "bonded_stake_ledger \<Rightarrow> node_id \<Rightarrow> unbonding list" where
  "bl_queue l n = (case bt_get (bl_unbonding l) n of Some q \<Rightarrow> q | None \<Rightarrow> [])"

lemma bt_get_filter_map:
  "bt_wf m \<Longrightarrow> bt_get (filter (\<lambda>(_, q). q \<noteq> []) (map (\<lambda>(n, q). (n, f q)) m)) k
     = (case bt_get m k of Some q \<Rightarrow> if f q = [] then None else Some (f q) | None \<Rightarrow> None)"
  by (induction m) (auto simp: bt_wf_def map_of_eq_None_iff image_iff split: option.splits dest: map_of_SomeD)

lemma bl_queue_advance:
  "bl_wf l \<Longrightarrow> bl_queue (bl_advance_to_height h l) n = filter (\<lambda>u. ub_mature_at u > h) (bl_queue l n)"
  by (simp add: bl_queue_def bl_advance_to_height_def bl_wf_def bt_get_filter_map split: option.splits)

lemma bl_unbond_queue:
  "bl_wf l \<Longrightarrow> min a (bl_stake_of l n) \<noteq> 0 \<Longrightarrow> bl_queue (bl_apply n (Unbond a) l) n = bl_queue l n @
     [\<lparr> ub_amount = min a (bl_stake_of l n), ub_mature_at = saturating_add (bl_current_height l) UNBONDING_DELAY \<rparr>]"
  by (simp add: bl_queue_def bl_push_def bl_wf_def Let_def)

lemma bl_unbond_stake:
  assumes "bl_wf l"
  shows "bl_stake_of (bl_apply n (Unbond a) l) n = bl_stake_of l n - min a (bl_stake_of l n)"
proof -
  have "bt_wf (bl_stake l)" using assms by (simp add: bl_wf_def)
  then show ?thesis by (simp add: Let_def bl_stake_of_insert bl_stake_of_remove)
qed

text \<open>The ledger without its tables and its updates: a stake and a queue per validator.\<close>

record stake_view =
  sv_stake :: "node_id \<Rightarrow> u64"
  sv_queue :: "node_id \<Rightarrow> unbonding list"
  sv_height :: height

definition ledger_view :: "bonded_stake_ledger \<Rightarrow> stake_view" where
  "ledger_view l = \<lparr> sv_stake = bl_stake_of l, sv_queue = bl_queue l, sv_height = bl_current_height l \<rparr>"

fun view_event :: "stake_event \<Rightarrow> stake_view \<Rightarrow> stake_view" where
  "view_event (EApply n (Bond a)) v = v\<lparr> sv_stake := (sv_stake v)(n := saturating_add (sv_stake v n) a) \<rparr>"
| "view_event (EApply n (Unbond a)) v =
     (let moved = min a (sv_stake v n) in
      if moved = 0 then v
      else v\<lparr> sv_stake := (sv_stake v)(n := sv_stake v n - moved),
              sv_queue := (sv_queue v)(n := sv_queue v n @
                [\<lparr> ub_amount = moved, ub_mature_at = saturating_add (sv_height v) UNBONDING_DELAY \<rparr>]) \<rparr>)"
| "view_event (EAdvance h) v = v\<lparr> sv_height := h, sv_queue := (\<lambda>n. filter (\<lambda>u. ub_mature_at u > h) (sv_queue v n)) \<rparr>"
| "view_event (ESlash n) v = v\<lparr> sv_stake := (sv_stake v)(n := 0), sv_queue := (sv_queue v)(n := []) \<rparr>"

lemma bl_queue_upd [simp]:
  "bl_queue (bl_push n w l) = bl_queue l" "bl_queue (l\<lparr> bl_stake := m \<rparr>) = bl_queue l"
  "bl_current_height (bl_push n w l) = bl_current_height l"
  by (simp_all add: bl_queue_def bl_push_def fun_eq_iff)

lemma bl_queue_insert: "bt_wf (bl_unbonding l) \<Longrightarrow>
    bl_queue (l\<lparr> bl_stake := m, bl_unbonding := bt_insert n q (bl_unbonding l) \<rparr>) = (bl_queue l)(n := q)"
  by (auto simp: bl_queue_def fun_eq_iff)

lemma bl_queue_remove: "bl_queue (l\<lparr> bl_stake := m, bl_unbonding := bt_remove n (bl_unbonding l) \<rparr>) = (bl_queue l)(n := [])"
  by (auto simp: bl_queue_def fun_eq_iff)

lemma fun_upd_id: "f n = v \<Longrightarrow> f(n := v) = f"
  by auto

lemma ledger_view_event:
  assumes "bl_wf l"
  shows "ledger_view (bl_event e l) = view_event e (ledger_view l)"
proof -
  have w: "bt_wf (bl_stake l)" "bt_wf (bl_unbonding l)" using assms by (simp_all add: bl_wf_def)
  have q: "(case bt_get (bl_unbonding l) n of Some q \<Rightarrow> q | None \<Rightarrow> []) = bl_queue l n" for n by (simp add: bl_queue_def)
  have 1: "ledger_view (bl_apply n op l) = view_event (EApply n op) (ledger_view l)" for n op
    by (cases op)
      (simp_all add: ledger_view_def Let_def q bl_stake_of_insert[OF w(1)] bl_stake_of_remove bl_queue_insert[OF w(2)] fun_upd_id)
  have 2: "ledger_view (bl_advance_to_height h l) = view_event (EAdvance h) (ledger_view l)" for h
    using bl_queue_advance[OF assms, of h]
    by (simp add: ledger_view_def fun_eq_iff) (simp add: bl_advance_to_height_def bl_stake_of_def)
  have 3: "ledger_view (bl_slash n l) = view_event (ESlash n) (ledger_view l)" for n
    by (simp add: ledger_view_def bl_slash_def Let_def bl_stake_of_remove bl_queue_remove)
  show ?thesis using 1 2 3 by (cases e) (simp_all del: bl_apply.simps view_event.simps)
qed

lemma ledger_view_events: "bl_wf l \<Longrightarrow> ledger_view (fold bl_event es l) = fold view_event es (ledger_view l)"
  by (induction es arbitrary: l) (simp_all add: ledger_view_event bl_event_wf del: bl_event.simps)

lemma ledger_view_commits:
  assumes "bl_wf l" "commit_blocks bl_event bl_take_updates bs l = (uss, l')"
  shows "ledger_view l' = fold view_event (concat bs) (ledger_view l)"
  using assms
proof (induction bs arbitrary: l uss)
  case (Cons es bs)
  obtain us l1 where d: "bl_take_updates (fold bl_event es l) = (us, l1)" by (rule prod.exhaust)
  then obtain vss where r: "commit_blocks bl_event bl_take_updates bs l1 = (vss, l')"
    using Cons.prems(2) by (auto simp: commit_block_def split: prod.splits)
  have wf: "bl_wf (fold bl_event es l)" using bonded.events_updates[OF Cons.prems(1)] by blast
  then have "bl_wf l1" "ledger_view l1 = ledger_view (fold bl_event es l)"
    using d by (auto simp: bl_take_updates_def bl_wf_def ledger_view_def bl_stake_of_def bl_queue_def fun_eq_iff)
  then show ?case using Cons.IH[OF _ r] ledger_view_events[OF Cons.prems(1)] by simp
qed simp

text \<open>An entry leaves the queue only when it matures or is slashed.\<close>

lemma view_event_keeps:
  assumes "u \<in> set (sv_queue v n)" "e \<noteq> ESlash n" "\<And>h. e = EAdvance h \<Longrightarrow> h < ub_mature_at u"
  shows "u \<in> set (sv_queue (view_event e v) n)"
  using assms by (cases "(e, v)" rule: view_event.cases) (auto simp: Let_def)

lemma view_events_keep:
  "u \<in> set (sv_queue v n) \<Longrightarrow> ESlash n \<notin> set es \<Longrightarrow> \<forall>h. EAdvance h \<in> set es \<longrightarrow> h < ub_mature_at u
    \<Longrightarrow> u \<in> set (sv_queue (fold view_event es v) n)"
proof (induction es arbitrary: v)
  case (Cons e es)
  have "u \<in> set (sv_queue (view_event e v) n)"
    by (rule view_event_keeps) (use Cons.prems in auto)
  then show ?case using Cons by simp
qed simp

text \<open>C36: the bonded ledger reports its stake exactly: whatever events the committed blocks
  carry, a client that follows the drained updates has the stake of the ledger. The ledger
  behaves as one with a stake and a queue per validator: bonding changes the stake only,
  unbonding moves stake to the end of the queue with its date, advancing removes what has
  matured and nothing else, slashing leaves neither stake nor queue. So unbonded stake stays
  in the queue, where slashing reaches it, through all events until it matures.\<close>

theorem bonded_ledger_exact:
  assumes wf: "bl_wf l" and empty: "bl_pending l = []"
    and run: "commit_blocks bl_event bl_take_updates bs l = (uss, l')"
  shows "bl_wf l' \<and> bl_stake_of l' = follow (concat uss) (bl_stake_of l)
    \<and> ledger_view l' = fold view_event (concat bs) (ledger_view l)
    \<and> (u \<in> set (bl_queue l n) \<and> ESlash n \<notin> set (concat bs) \<and> (\<forall>h. EAdvance h \<in> set (concat bs) \<longrightarrow> h < ub_mature_at u)
        \<longrightarrow> u \<in> set (bl_queue l' n))
    \<and> unat (bl_stake_of (bl_apply n (Unbond a) l') n) + unat (min a (bl_stake_of l' n)) = unat (bl_stake_of l' n)
    \<and> bl_stake_of (bl_slash n l') n = 0 \<and> bl_queue (bl_slash n l') n = []"
proof -
  have w: "bl_wf l'" "bl_stake_of l' = follow (concat uss) (bl_stake_of l)"
    using bonded.commits_followed[OF wf empty run] by blast+
  note v = ledger_view_commits[OF wf run]
  have q: "sv_queue (ledger_view l) = bl_queue l" for l by (simp add: ledger_view_def)
  have le: "min a (bl_stake_of l' n) \<le> bl_stake_of l' n" by simp
  have "unat (bl_stake_of (bl_apply n (Unbond a) l') n) + unat (min a (bl_stake_of l' n)) = unat (bl_stake_of l' n)"
    unfolding bl_unbond_stake[OF w(1)] using le by (simp add: unat_sub word_le_nat_alt)
  moreover have "bl_stake_of (bl_slash n l') n = 0" "bl_queue (bl_slash n l') n = []"
    by (simp_all add: bl_slash_def Let_def bl_stake_of_def bl_queue_def bl_push_def)
  moreover have "u \<in> set (bl_queue l' n)"
    if "u \<in> set (bl_queue l n)" "ESlash n \<notin> set (concat bs)" "\<forall>h. EAdvance h \<in> set (concat bs) \<longrightarrow> h < ub_mature_at u"
    using view_events_keep[of u "ledger_view l" n "concat bs"] that unfolding v[symmetric] q by blast
  ultimately show ?thesis using w v by blast
qed

theorem bonded_ledger_exact_witness:
  "bl_stake_of (snd (commit_blocks bl_event bl_take_updates
       [[EAdvance 1, EApply 5 (Bond 7), EApply 5 (Unbond 3)], [EAdvance 2, ESlash 6]] (seeded_from [(5, 10), (6, 4)])))
     = follow [\<lparr> vu_node_id = 5, vu_weight = 17 \<rparr>, \<lparr> vu_node_id = 5, vu_weight = 14 \<rparr>, \<lparr> vu_node_id = 6, vu_weight = 0 \<rparr>]
         (bl_stake_of (seeded_from [(5, 10), (6, 4)]))"
proof -
  let ?l = "seeded_from [(5, 10), (6, 4)]"
  let ?bs = "[[EAdvance 1, EApply 5 (Bond 7), EApply 5 (Unbond 3)], [EAdvance 2, ESlash 6]]"
  have wf: "bl_wf ?l" "bl_pending ?l = []"
    by (simp_all add: seeded_from_def bl_empty_def bl_wf_def bt_wf_def)
  have run: "\<exists>l'. commit_blocks bl_event bl_take_updates ?bs ?l =
      ([[\<lparr> vu_node_id = 5, vu_weight = 17 \<rparr>, \<lparr> vu_node_id = 5, vu_weight = 14 \<rparr>], [\<lparr> vu_node_id = 6, vu_weight = 0 \<rparr>]], l')"
    by (simp add: commit_block_def seeded_from_def bl_empty_def bl_take_updates_def bl_slash_def bl_advance_to_height_def
        bl_stake_of_def bl_push_def saturating_add_def bt_remove_def UNBONDING_DELAY_def Let_def)
  then obtain l' where l': "commit_blocks bl_event bl_take_updates ?bs ?l =
      ([[\<lparr> vu_node_id = 5, vu_weight = 17 \<rparr>, \<lparr> vu_node_id = 5, vu_weight = 14 \<rparr>], [\<lparr> vu_node_id = 6, vu_weight = 0 \<rparr>]], l')"
    by blast
  show ?thesis using bonded_ledger_exact[OF wf l', of \<open>\<lparr> ub_amount = 0, ub_mature_at = 0 \<rparr>\<close> 0 0] by (simp only: l' snd_conv) simp
qed

section \<open>Rewards\<close>

definition INDEX_SCALE :: u128 where
  "INDEX_SCALE = 1000000000000000000"

record reward_config =
  rc_issuance_per_block :: u64
  rc_proposer_bonus :: u64

definition rewards_enabled :: "reward_config \<Rightarrow> bool" where
  "rewards_enabled c \<longleftrightarrow> rc_issuance_per_block c > 0 \<or> rc_proposer_bonus c > 0"

record reward_ledger =
  rl_index :: u128
  rl_last_index :: "(node_id, u128) btree_map"
  rl_balance :: "(node_id, u64) btree_map"

definition rl_new :: reward_ledger where
  "rl_new = \<lparr> rl_index = 0, rl_last_index = [], rl_balance = [] \<rparr>"

definition balance_of :: "reward_ledger \<Rightarrow> node_id \<Rightarrow> u64" where
  "balance_of r n = (case bt_get (rl_balance r) n of Some b \<Rightarrow> b | None \<Rightarrow> 0)"

definition rl_last_of :: "reward_ledger \<Rightarrow> node_id \<Rightarrow> u128" where
  "rl_last_of r n = (case bt_get (rl_last_index r) n of Some i \<Rightarrow> i | None \<Rightarrow> 0)"

definition rl_credit :: "node_id \<Rightarrow> u64 \<Rightarrow> reward_ledger \<Rightarrow> reward_ledger" where
  "rl_credit n amount r = r\<lparr> rl_balance := bt_insert n (saturating_add (balance_of r n) amount) (rl_balance r) \<rparr>"

definition accrue_block :: "node_id \<Rightarrow> u64 \<Rightarrow> u64 \<Rightarrow> u64 \<Rightarrow> reward_ledger \<Rightarrow> reward_ledger" where
  "accrue_block p issuance bonus total_stake r =
     (let r1 = (if total_stake > 0 \<and> issuance > 0
                then r\<lparr> rl_index := rl_index r + (ucast issuance * INDEX_SCALE) div ucast total_stake \<rparr> else r) in
      if bonus > 0 then rl_credit p bonus r1 else r1)"

definition settle :: "node_id \<Rightarrow> u64 \<Rightarrow> reward_ledger \<Rightarrow> reward_ledger" where
  "settle n stake r =
     (let r1 = (if rl_index r > rl_last_of r n \<and> stake > 0
                then let earned = (ucast stake * (rl_index r - rl_last_of r n)) div INDEX_SCALE in
                     if earned > 0 then rl_credit n (ucast earned) r else r
                else r) in
      r1\<lparr> rl_last_index := bt_insert n (rl_index r) (rl_last_index r1) \<rparr>)"

definition claimable :: "reward_ledger \<Rightarrow> node_id \<Rightarrow> u64 \<Rightarrow> u64" where
  "claimable r n stake =
     (let unsettled = (if rl_index r > rl_last_of r n \<and> stake > 0
                       then ucast ((ucast stake * (rl_index r - rl_last_of r n)) div INDEX_SCALE) else 0) in
      saturating_add (balance_of r n) unsettled)"

definition rl_wf :: "reward_ledger \<Rightarrow> bool" where
  "rl_wf r \<longleftrightarrow> bt_wf (rl_last_index r) \<and> bt_wf (rl_balance r)"

lemma rl_wf_ops [simp]:
  "rl_wf rl_new" "rl_wf r \<Longrightarrow> rl_wf (rl_credit n a r)" "rl_wf r \<Longrightarrow> rl_wf (r\<lparr> rl_index := i \<rparr>)"
  "rl_wf r \<Longrightarrow> rl_wf (r\<lparr> rl_last_index := bt_insert n i (rl_last_index r) \<rparr>)"
  by (simp_all add: rl_wf_def rl_new_def rl_credit_def)

lemma rl_credit_simps [simp]:
  "rl_index (rl_credit n a r) = rl_index r" "rl_last_index (rl_credit n a r) = rl_last_index r"
  "rl_last_of (rl_credit n a r) = rl_last_of r"
  by (simp_all add: rl_credit_def rl_last_of_def fun_eq_iff)

lemma balance_of_credit:
  "rl_wf r \<Longrightarrow> balance_of (rl_credit n a r) = (balance_of r)(n := saturating_add (balance_of r n) a)"
  by (auto simp: balance_of_def rl_credit_def rl_wf_def fun_eq_iff)

lemma balance_of_index [simp]:
  "balance_of (r\<lparr> rl_index := i \<rparr>) = balance_of r" "balance_of (r\<lparr> rl_last_index := m \<rparr>) = balance_of r"
  "rl_last_of (r\<lparr> rl_index := i \<rparr>) = rl_last_of r"
  by (simp_all add: balance_of_def rl_last_of_def fun_eq_iff)

text \<open>What \<open>settle\<close> earns, as \<open>claimable\<close> computes it.\<close>

definition unsettled :: "reward_ledger \<Rightarrow> node_id \<Rightarrow> u64 \<Rightarrow> u64" where
  "unsettled r n stake =
     (if rl_index r > rl_last_of r n \<and> stake > 0
      then ucast ((ucast stake * (rl_index r - rl_last_of r n)) div INDEX_SCALE) else 0)"

lemma claimable_unsettled: "claimable r n stake = saturating_add (balance_of r n) (unsettled r n stake)"
  by (simp add: claimable_def unsettled_def Let_def)

lemma saturating_add_0 [simp]: "saturating_add a 0 = a"
  by (simp add: saturating_add_def)

lemma settle_balance: "rl_wf r \<Longrightarrow> balance_of (settle n stake r) = (balance_of r)(n := claimable r n stake)"
  by (auto simp: settle_def claimable_unsettled unsettled_def balance_of_credit Let_def word_gt_0)

lemma settle_last: "rl_wf r \<Longrightarrow> rl_last_of (settle n stake r) = (rl_last_of r)(n := rl_index r)"
  by (auto simp: settle_def Let_def rl_last_of_def rl_wf_def fun_eq_iff)

lemma settle_index [simp]: "rl_index (settle n stake r) = rl_index r"
  by (simp add: settle_def Let_def)

lemma settle_wf [simp]: "rl_wf r \<Longrightarrow> rl_wf (settle n stake r)"
  by (simp add: settle_def Let_def rl_wf_def rl_credit_def)

section \<open>Rewards never exceed what was issued\<close>

text \<open>What a validator has and could claim, scaled by the index.\<close>

definition owed :: "reward_ledger \<Rightarrow> (node_id \<Rightarrow> u64) \<Rightarrow> node_id \<Rightarrow> nat" where
  "owed r st n = unat (balance_of r n) * unat INDEX_SCALE
     + unat (st n) * (unat (rl_index r) - unat (rl_last_of r n))"

definition total_of :: "(node_id \<Rightarrow> u64) \<Rightarrow> nat" where
  "total_of st = (\<Sum>n \<in> UNIV. unat (st n))"

text \<open>A client that accrues with the sum of the stakes and settles a validator before it
  changes its stake; the last argument is what was issued so far.\<close>

inductive reward_reach :: "reward_ledger \<Rightarrow> (node_id \<Rightarrow> u64) \<Rightarrow> nat \<Rightarrow> bool" where
  start: "total_of st < 2 ^ 64 \<Longrightarrow> reward_reach rl_new st 0"
| accrue: "reward_reach r st issued \<Longrightarrow>
    reward_reach (accrue_block p issuance bonus (of_nat (total_of st)) r) st (issued + unat issuance + unat bonus)"
| settle: "reward_reach r st issued \<Longrightarrow> reward_reach (settle n (st n) r) st issued"
| restake: "reward_reach r st issued \<Longrightarrow> total_of (st(n := s)) < 2 ^ 64 \<Longrightarrow>
    reward_reach (settle n (st n) r) (st(n := s)) issued"

lemma unat_INDEX_SCALE: "unat INDEX_SCALE = 1000000000000000000"
  by (simp add: INDEX_SCALE_def)

lemma unsettled_owed: "unat (unsettled r n s) * unat INDEX_SCALE \<le> unat s * (unat (rl_index r) - unat (rl_last_of r n))"
proof (cases "rl_index r > rl_last_of r n \<and> s > 0")
  case True
  let ?d = "rl_index r - rl_last_of r n"
  have d: "unat ?d = unat (rl_index r) - unat (rl_last_of r n)" using True by (simp add: unat_sub less_imp_le)
  have "unat (unsettled r n s) \<le> unat ((ucast s * ?d) div INDEX_SCALE)"
    using True by (simp add: unsettled_def unsigned_ucast_eq take_bit_nat_less_eq_self)
  also have "\<dots> = unat (ucast s * ?d :: u128) div unat INDEX_SCALE" by (rule unat_div_distrib)
  also have "\<dots> \<le> (unat s * unat ?d) div unat INDEX_SCALE"
    by (intro div_le_mono) (simp add: unat_word_ariths unat_ucast_widen)
  finally have "unat (unsettled r n s) * unat INDEX_SCALE \<le> (unat s * unat ?d) div unat INDEX_SCALE * unat INDEX_SCALE"
    by (rule mult_le_mono1)
  also have "\<dots> \<le> unat s * unat ?d" by simp
  finally show ?thesis unfolding d .
qed (auto simp: unsettled_def)

lemma claimable_le_owed: "unat (claimable r n (st n)) * unat INDEX_SCALE \<le> owed r st n"
proof -
  have "unat (claimable r n (st n)) \<le> unat (balance_of r n) + unat (unsettled r n (st n))"
    by (simp add: claimable_unsettled unat_saturating_add)
  then have "unat (claimable r n (st n)) * unat INDEX_SCALE
      \<le> (unat (balance_of r n) + unat (unsettled r n (st n))) * unat INDEX_SCALE"
    by (rule mult_le_mono1)
  then show ?thesis using unsettled_owed[of r n "st n"] by (simp add: owed_def algebra_simps)
qed

lemma settle_owed:
  assumes "rl_wf r"
  shows "owed (settle n (st n) r) (st(n := s)) m \<le> owed r st m"
proof (cases "m = n")
  case True
  then show ?thesis using claimable_le_owed[of r n st]
    by (simp add: owed_def settle_balance[OF assms] settle_last[OF assms])
qed (simp add: owed_def settle_balance[OF assms] settle_last[OF assms])

lemma sum_upd_le:
  fixes f :: "node_id \<Rightarrow> nat"
  shows "(\<Sum>n \<in> UNIV. (f(p := v)) n) + f p = (\<Sum>n \<in> UNIV. f n) + v"
  by (simp add: sum.remove[of UNIV p])

lemma accrue_index_owed:
  fixes issuance :: u64
  assumes "total_of st < 2 ^ 64" "total_of st > 0"
  defines "x \<equiv> (ucast issuance * INDEX_SCALE) div ucast (of_nat (total_of st) :: u64) :: u128"
  shows "(\<Sum>n \<in> UNIV. owed (r\<lparr> rl_index := rl_index r + x \<rparr>) st n)
    \<le> (\<Sum>n \<in> UNIV. owed r st n) + unat issuance * unat INDEX_SCALE"
proof -
  have t: "unat (ucast (of_nat (total_of st) :: u64) :: u128) = total_of st"
    using assms(1) by (simp add: unat_ucast_widen unat_of_nat_small)
  have "unat (ucast issuance * INDEX_SCALE :: u128) = unat issuance * unat INDEX_SCALE"
  proof -
    have "unat issuance * unat INDEX_SCALE \<le> 2 ^ 64 * 1000000000000000000"
      using unat_bound[of issuance] unfolding unat_INDEX_SCALE by (intro mult_le_mono) simp_all
    then have "unat (ucast issuance :: u128) * unat INDEX_SCALE < 2 ^ LENGTH(128)"
      by (simp add: unat_ucast_widen)
    then show ?thesis by (simp add: unat_mul_no_overflow unat_ucast_widen)
  qed
  then have x: "unat x = unat issuance * unat INDEX_SCALE div total_of st"
    unfolding x_def unat_div_distrib t by simp
  have le: "unat (rl_index r + x) \<le> unat (rl_index r) + unat x" by (simp add: unat_word_ariths)
  have "owed (r\<lparr> rl_index := rl_index r + x \<rparr>) st n \<le> owed r st n + unat (st n) * unat x" for n
  proof -
    have "unat (rl_index r + x) - unat (rl_last_of r n) \<le> (unat (rl_index r) - unat (rl_last_of r n)) + unat x"
      using le by linarith
    then have "unat (st n) * (unat (rl_index r + x) - unat (rl_last_of r n))
        \<le> unat (st n) * ((unat (rl_index r) - unat (rl_last_of r n)) + unat x)" by (rule mult_le_mono2)
    then show ?thesis by (simp add: owed_def algebra_simps)
  qed
  then have "(\<Sum>n \<in> UNIV. owed (r\<lparr> rl_index := rl_index r + x \<rparr>) st n)
      \<le> (\<Sum>n \<in> UNIV. owed r st n + unat (st n) * unat x)" by (rule sum_mono)
  also have "\<dots> = (\<Sum>n \<in> UNIV. owed r st n) + total_of st * unat x"
    by (simp add: sum.distrib total_of_def sum_distrib_right)
  also have "total_of st * unat x \<le> unat issuance * unat INDEX_SCALE" unfolding x by simp
  finally show ?thesis by simp
qed

lemma credit_owed:
  assumes "rl_wf r"
  shows "(\<Sum>n \<in> UNIV. owed (rl_credit p a r) st n) \<le> (\<Sum>n \<in> UNIV. owed r st n) + unat a * unat INDEX_SCALE"
proof -
  have "owed (rl_credit p a r) st n \<le> ((owed r st)(p := owed r st p + unat a * unat INDEX_SCALE)) n" for n
  proof -
    have "unat (saturating_add (balance_of r p) a) * unat INDEX_SCALE \<le> (unat (balance_of r p) + unat a) * unat INDEX_SCALE"
      by (rule mult_le_mono1) (simp add: unat_saturating_add)
    then show ?thesis by (simp add: owed_def balance_of_credit[OF assms] algebra_simps)
  qed
  then have "(\<Sum>n \<in> UNIV. owed (rl_credit p a r) st n) \<le> (\<Sum>n \<in> UNIV. ((owed r st)(p := owed r st p + unat a * unat INDEX_SCALE)) n)"
    by (rule sum_mono)
  then show ?thesis using sum_upd_le[of "owed r st" p "owed r st p + unat a * unat INDEX_SCALE"] by simp
qed

lemma reward_invariant:
  "reward_reach r st issued \<Longrightarrow>
     rl_wf r \<and> total_of st < 2 ^ 64 \<and> (\<Sum>n \<in> UNIV. owed r st n) \<le> issued * unat INDEX_SCALE"
proof (induction rule: reward_reach.induct)
  case (start st)
  then show ?case by (simp add: owed_def rl_new_def balance_of_def rl_last_of_def rl_wf_def)
next
  case (accrue r st issued p issuance bonus)
  let ?x = "(ucast issuance * INDEX_SCALE) div ucast (of_nat (total_of st) :: u64) :: u128"
  let ?r1 = "if (of_nat (total_of st) :: u64) > 0 \<and> issuance > 0 then r\<lparr> rl_index := rl_index r + ?x \<rparr> else r"
  have wf: "rl_wf ?r1" using accrue.IH by simp
  have "(of_nat (total_of st) :: u64) > 0 \<Longrightarrow> total_of st > 0"
    using gr_zeroI by fastforce
  then have 1: "(\<Sum>n \<in> UNIV. owed ?r1 st n) \<le> (\<Sum>n \<in> UNIV. owed r st n) + unat issuance * unat INDEX_SCALE"
    using accrue_index_owed[of st r issuance] accrue.IH by simp
  have 2: "accrue_block p issuance bonus (of_nat (total_of st)) r = (if bonus > 0 then rl_credit p bonus ?r1 else ?r1)"
    by (simp add: accrue_block_def Let_def)
  have "(\<Sum>n \<in> UNIV. owed (accrue_block p issuance bonus (of_nat (total_of st)) r) st n)
      \<le> (\<Sum>n \<in> UNIV. owed ?r1 st n) + unat bonus * unat INDEX_SCALE"
    using credit_owed[OF wf, of p bonus st] unfolding 2 by (cases "bonus > 0") simp_all
  with 1 have "(\<Sum>n \<in> UNIV. owed (accrue_block p issuance bonus (of_nat (total_of st)) r) st n)
      \<le> (issued + unat issuance + unat bonus) * unat INDEX_SCALE"
    using accrue.IH by (simp add: algebra_simps)
  moreover have "rl_wf (accrue_block p issuance bonus (of_nat (total_of st)) r)"
    unfolding 2 using wf by simp
  ultimately show ?case using accrue.IH by blast
next
  case (settle r st issued n)
  have "(\<Sum>m \<in> UNIV. owed (settle n (st n) r) st m) \<le> (\<Sum>m \<in> UNIV. owed r st m)"
    by (rule sum_mono) (use settle_owed[of r n st "st n"] settle.IH in simp)
  then show ?case using settle.IH by simp
next
  case (restake r st issued n s)
  have "(\<Sum>m \<in> UNIV. owed (settle n (st n) r) (st(n := s)) m) \<le> (\<Sum>m \<in> UNIV. owed r st m)"
    by (rule sum_mono) (use settle_owed[of r n st s] restake.IH in simp)
  then have "(\<Sum>m \<in> UNIV. owed (settle n (st n) r) (st(n := s)) m) \<le> issued * unat INDEX_SCALE"
    using restake.IH by linarith
  then show ?case using restake.IH restake.hyps(2) settle_wf by blast
qed

text \<open>Rewards are solvent: for a client that accrues with the sum of the stakes and settles
  before a stake changes, all claims together never exceed what was issued, rounding,
  saturation and truncation included, and settling pays exactly what was claimable.\<close>

theorem rewards_solvent:
  assumes "reward_reach r st issued"
  shows "(\<Sum>n \<in> UNIV. unat (claimable r n (st n))) \<le> issued
    \<and> balance_of (settle m (st m) r) m = claimable r m (st m) \<and> claimable (settle m (st m) r) m s = claimable r m (st m)"
proof -
  have inv: "rl_wf r" "(\<Sum>n \<in> UNIV. owed r st n) \<le> issued * unat INDEX_SCALE" using reward_invariant[OF assms] by blast+
  have "(\<Sum>n \<in> UNIV. unat (claimable r n (st n))) * unat INDEX_SCALE \<le> (\<Sum>n \<in> UNIV. owed r st n)"
    unfolding sum_distrib_right by (rule sum_mono) (rule claimable_le_owed)
  with inv(2) have "(\<Sum>n \<in> UNIV. unat (claimable r n (st n))) \<le> issued" unfolding unat_INDEX_SCALE by linarith
  moreover have "claimable (settle m (st m) r) m s = claimable r m (st m)"
    unfolding claimable_unsettled[of "settle m (st m) r"]
    by (simp add: unsettled_def settle_last[OF inv(1)] settle_balance[OF inv(1)])
  ultimately show ?thesis by (simp add: settle_balance[OF inv(1)])
qed

text \<open>Three units of stake against one: of eight units issued, six and two are claimable.\<close>

definition demo_stakes :: "node_id \<Rightarrow> u64" where
  "demo_stakes = (\<lambda>_. 0)(1 := 3, 2 := 1)"

lemma demo_total: "total_of demo_stakes = 4"
proof -
  have e: "(\<lambda>n. unat (demo_stakes n)) = (\<lambda>_. 0)(1 := 3, 2 := 1)" by (auto simp: demo_stakes_def)
  have "total_of demo_stakes = (\<Sum>n \<in> UNIV. ((\<lambda>_. 0 :: nat)(1 := 3, 2 := 1)) (n :: node_id))"
    unfolding total_of_def by (simp only: e fun_eq_iff[symmetric])
  then show ?thesis using sum_upd_le[of "\<lambda>_. 0" 1 3] sum_upd_le[of "(\<lambda>_. 0)(1 := 3)" 2 1] by simp
qed

theorem rewards_solvent_witness:
  "(\<Sum>n \<in> UNIV. unat (claimable (accrue_block 2 8 5 4 rl_new) n (demo_stakes n))) \<le> 13
    \<and> claimable (accrue_block 2 8 5 4 rl_new) 1 (demo_stakes 1) = 6
    \<and> claimable (accrue_block 2 8 5 4 rl_new) 2 (demo_stakes 2) = 7"
proof -
  have "reward_reach (accrue_block 2 8 5 (of_nat (total_of demo_stakes)) rl_new) demo_stakes (0 + unat (8 :: u64) + unat (5 :: u64))"
    by (intro reward_reach.intros) (simp add: demo_total)
  then have "reward_reach (accrue_block 2 8 5 4 rl_new) demo_stakes 13" by (simp add: demo_total)
  moreover have "claimable (accrue_block 2 8 5 4 rl_new) 1 (demo_stakes 1) = 6"
      "claimable (accrue_block 2 8 5 4 rl_new) 2 (demo_stakes 2) = 7"
    by (simp_all add: accrue_block_def Let_def claimable_def rl_credit_def balance_of_def rl_last_of_def rl_new_def
        demo_stakes_def INDEX_SCALE_def saturating_add_def)
  ultimately show ?thesis using rewards_solvent[of "accrue_block 2 8 5 4 rl_new" demo_stakes 13 1 0] by blast
qed

section \<open>Claims recounted\<close>

text \<open>The calls on a ledger, with any arguments.\<close>

datatype reward_call = Accrue node_id u64 u64 u64 | Settle node_id u64

fun rl_call :: "reward_call \<Rightarrow> reward_ledger \<Rightarrow> reward_ledger" where
  "rl_call (Accrue p issuance bonus total_stake) r = accrue_block p issuance bonus total_stake r"
| "rl_call (Settle n stake) r = settle n stake r"

text \<open>The rewards of one validator without the index: what is paid, and the reward per unit of
  stake since its last settlement.\<close>

fun index_gain :: "reward_call \<Rightarrow> nat" where
  "index_gain (Accrue p issuance bonus total_stake) =
     (if total_stake > 0 then unat issuance * unat INDEX_SCALE div unat total_stake else 0)"
| "index_gain (Settle n stake) = 0"

fun recount_call :: "node_id \<Rightarrow> reward_call \<Rightarrow> nat \<times> nat \<Rightarrow> nat \<times> nat" where
  "recount_call n (Accrue p issuance bonus total_stake) (paid, opn) =
     (paid + (if p = n then unat bonus else 0), opn + index_gain (Accrue p issuance bonus total_stake))"
| "recount_call n (Settle m stake) (paid, opn) =
     (if m = n then (paid + unat stake * opn div unat INDEX_SCALE, 0) else (paid, opn))"

definition recount :: "node_id \<Rightarrow> reward_call list \<Rightarrow> nat \<times> nat" where
  "recount n cs = fold (recount_call n) cs (0, 0)"

lemma recount_snoc [simp]: "recount n [] = (0, 0)" "recount n (cs @ [c]) = recount_call n c (recount n cs)"
  by (simp_all add: recount_def)

lemma issuance_scaled: "unat (ucast (i :: u64) * INDEX_SCALE :: u128) = unat i * unat INDEX_SCALE"
proof -
  have "unat i * unat INDEX_SCALE \<le> 2 ^ 64 * 1000000000000000000"
    using unat_bound[of i] unfolding unat_INDEX_SCALE by (intro mult_le_mono) simp_all
  then have "unat (ucast i :: u128) * unat INDEX_SCALE < 2 ^ LENGTH(128)" by (simp add: unat_ucast_widen)
  then show ?thesis by (simp add: unat_mul_no_overflow unat_ucast_widen)
qed

lemma accrue_parts:
  assumes "rl_wf r"
  shows "unat (rl_index (accrue_block p i b t r)) = (unat (rl_index r) + index_gain (Accrue p i b t)) mod 2 ^ 128"
    "rl_last_of (accrue_block p i b t r) = rl_last_of r" "rl_wf (accrue_block p i b t r)"
    "balance_of (accrue_block p i b t r) = (balance_of r)(p := saturating_add (balance_of r p) b)"
proof -
  let ?x = "(ucast i * INDEX_SCALE) div ucast t :: u128"
  have x: "unat ?x = unat i * unat INDEX_SCALE div unat t"
    unfolding unat_div_distrib issuance_scaled by (simp add: unat_ucast_widen)
  have m: "unat (rl_index r) mod 2 ^ 128 = unat (rl_index r)" using unat_bound[of "rl_index r"] by simp
  show "unat (rl_index (accrue_block p i b t r)) = (unat (rl_index r) + index_gain (Accrue p i b t)) mod 2 ^ 128"
    using x m by (auto simp: accrue_block_def Let_def unat_word_ariths word_gt_0)
  show "rl_last_of (accrue_block p i b t r) = rl_last_of r" "rl_wf (accrue_block p i b t r)"
    using assms by (auto simp: accrue_block_def Let_def)
  show "balance_of (accrue_block p i b t r) = (balance_of r)(p := saturating_add (balance_of r p) b)"
    using assms by (auto simp: accrue_block_def Let_def balance_of_credit word_gt_0 fun_upd_id)
qed

lemma unsettled_le: "unat (unsettled r n s) \<le> unat s * (unat (rl_index r) - unat (rl_last_of r n)) div unat INDEX_SCALE"
  using unsettled_owed[of r n s] by (simp add: unat_INDEX_SCALE less_eq_div_iff_mult_less_eq)

lemma claimable_le:
  "unat (balance_of r n) \<le> paid \<Longrightarrow> unat (rl_index r) - unat (rl_last_of r n) \<le> opn
    \<Longrightarrow> unat (claimable r n s) \<le> paid + unat s * opn div unat INDEX_SCALE"
proof -
  assume a: "unat (balance_of r n) \<le> paid" "unat (rl_index r) - unat (rl_last_of r n) \<le> opn"
  have "unat (unsettled r n s) \<le> unat s * opn div unat INDEX_SCALE"
    using unsettled_le[of r n s] div_le_mono[OF mult_le_mono2[OF a(2), of "unat s"], of "unat INDEX_SCALE"] by linarith
  then show ?thesis using a(1) by (simp add: claimable_unsettled unat_saturating_add)
qed

lemma recount_bounds:
  "rl_wf (fold rl_call cs rl_new)
   \<and> unat (balance_of (fold rl_call cs rl_new) n) \<le> fst (recount n cs)
   \<and> unat (rl_index (fold rl_call cs rl_new)) - unat (rl_last_of (fold rl_call cs rl_new) n) \<le> snd (recount n cs)"
proof (induction cs rule: rev_induct)
  case Nil
  then show ?case by (simp add: balance_of_def rl_new_def rl_wf_def)
next
  case (snoc c cs)
  let ?r = "fold rl_call cs rl_new"
  obtain paid opn where p: "recount n cs = (paid, opn)" by (rule prod.exhaust)
  show ?case
  proof (cases c)
    case (Accrue q i b t)
    have "unat (rl_index (accrue_block q i b t ?r)) \<le> unat (rl_index ?r) + index_gain (Accrue q i b t)"
      using accrue_parts(1)[of ?r q i b t] snoc by (simp del: index_gain.simps)
    then show ?thesis using snoc accrue_parts(2-4)[of ?r q i b t] p Accrue
      by (auto simp: unat_saturating_add simp del: index_gain.simps)
  next
    case (Settle m s)
    then show ?thesis using snoc claimable_le[of ?r n paid opn s] p
      by (auto simp: settle_balance settle_last)
  qed
qed

text \<open>Without overflow nothing is lost: the bounds are on the index, on the products with the
  stakes, and on the result.\<close>

definition settled_below :: "u64 \<Rightarrow> node_id \<Rightarrow> reward_call list \<Rightarrow> bool" where
  "settled_below smax n cs \<longleftrightarrow> (\<forall>s. Settle n s \<in> set cs \<longrightarrow> s \<le> smax)
     \<and> sum_list (map index_gain cs) < 2 ^ 128 \<and> unat smax * sum_list (map index_gain cs) < 2 ^ 128"

lemma unsettled_exact:
  assumes "unat (rl_index r) = unat (rl_last_of r n) + opn" "unat s * opn < 2 ^ 128"
    "unat s * opn div unat INDEX_SCALE < 2 ^ 64"
  shows "unat (unsettled r n s) = unat s * opn div unat INDEX_SCALE"
proof (cases "rl_index r > rl_last_of r n \<and> s > 0")
  case True
  have d: "unat (rl_index r - rl_last_of r n) = opn" using True assms(1) by (simp add: unat_sub less_imp_le)
  have "unat (ucast s * (rl_index r - rl_last_of r n) :: u128) = unat s * opn"
    using assms(2) d by (simp add: unat_mul_no_overflow unat_ucast_widen)
  then show ?thesis using True assms(3)
    by (simp add: unsettled_def unsigned_ucast_eq unat_div_distrib take_bit_nat_eq_self)
next
  case False
  then have "s = 0 \<or> opn = 0" using assms(1) by (auto simp: word_less_nat_alt unat_eq_0)
  then show ?thesis using False by (auto simp: unsettled_def)
qed

lemma saturating_add_exact: "unat a + unat b < 2 ^ LENGTH('a) \<Longrightarrow> unat (saturating_add a b) = unat a + unat (b :: 'a::len word)"
  by (simp add: unat_saturating_add)

lemma recount_exact:
  "settled_below smax n cs \<Longrightarrow> fst (recount n cs) < 2 ^ 64 \<Longrightarrow>
     unat (balance_of (fold rl_call cs rl_new) n) = fst (recount n cs)
   \<and> unat (rl_index (fold rl_call cs rl_new)) = sum_list (map index_gain cs)
   \<and> unat (rl_index (fold rl_call cs rl_new)) = unat (rl_last_of (fold rl_call cs rl_new) n) + snd (recount n cs)"
proof (induction cs rule: rev_induct)
  case Nil
  then show ?case by (simp add: balance_of_def rl_last_of_def rl_new_def)
next
  case (snoc c cs)
  let ?r = "fold rl_call cs rl_new"
  have wf: "rl_wf ?r" using recount_bounds by blast
  obtain paid opn where p: "recount n cs = (paid, opn)" by (rule prod.exhaust)
  have sb: "settled_below smax n cs"
    using snoc.prems(1) unfolding settled_below_def by (auto simp: algebra_simps)
  have "fst (recount n cs) \<le> fst (recount n (cs @ [c]))" using p by (cases c) auto
  then have IH: "unat (balance_of ?r n) = paid" "unat (rl_index ?r) = sum_list (map index_gain cs)"
      "unat (rl_index ?r) = unat (rl_last_of ?r n) + opn"
    using snoc.IH[OF sb] snoc.prems(2) p by simp_all
  show ?case
  proof (cases c)
    case (Accrue q i b t)
    have lt: "unat (rl_index ?r) + index_gain c < 2 ^ 128"
      using snoc.prems(1) IH(2) by (simp add: settled_below_def)
    have "unat (saturating_add (balance_of ?r n) b) = paid + unat b" if "q = n"
      using snoc.prems(2) that p Accrue IH(1) by (intro trans[OF saturating_add_exact]) simp_all
    then show ?thesis using lt accrue_parts[OF wf, of q i b t] IH p Accrue
      by (auto simp del: index_gain.simps)
  next
    case (Settle m s)
    have "unat (claimable ?r n s) = paid + unat s * opn div unat INDEX_SCALE" if m: "m = n"
    proof -
      have le: "s \<le> smax" using snoc.prems(1) Settle m by (auto simp: settled_below_def)
      have "unat s * opn \<le> unat smax * sum_list (map index_gain cs)"
        using le IH(2,3) by (intro mult_le_mono) (simp_all add: word_le_nat_alt)
      then have a: "unat s * opn < 2 ^ 128" using sb unfolding settled_below_def by linarith
      have b: "paid + unat s * opn div unat INDEX_SCALE < 2 ^ 64" using snoc.prems(2) Settle m p by simp
      then have u: "unat (unsettled ?r n s) = unat s * opn div unat INDEX_SCALE"
        by (intro unsettled_exact[OF IH(3) a]) linarith
      show ?thesis using b u IH(1) unfolding claimable_unsettled by (intro trans[OF saturating_add_exact]) simp_all
    qed
    then show ?thesis using IH p Settle by (auto simp: settle_balance[OF wf] settle_last[OF wf])
  qed
qed

text \<open>C37: a claim is the sum it should be. Whatever calls are made on the ledger, in whatever
  order and with whatever arguments, the claim of a validator at a stake is at most its
  bonuses, plus for each of its settlements the reward per unit since the one before times
  the stake it was settled with, plus that of the time since; settling pays exactly the
  claim. When the index, the products and the result fit their widths it is equal to
  that sum, each term rounded down.\<close>

theorem claims_recounted:
  fixes s smax :: u64
  shows "unat (claimable (fold rl_call cs rl_new) n s) \<le> fst (recount n cs) + unat s * snd (recount n cs) div unat INDEX_SCALE
    \<and> balance_of (settle n s (fold rl_call cs rl_new)) n = claimable (fold rl_call cs rl_new) n s
    \<and> (settled_below smax n cs \<and> s \<le> smax \<and> fst (recount n cs) + unat s * snd (recount n cs) div unat INDEX_SCALE < 2 ^ 64
        \<longrightarrow> unat (claimable (fold rl_call cs rl_new) n s) = fst (recount n cs) + unat s * snd (recount n cs) div unat INDEX_SCALE)"
proof -
  let ?r = "fold rl_call cs rl_new"
  obtain paid opn where p: "recount n cs = (paid, opn)" by (rule prod.exhaust)
  have wf: "rl_wf ?r" and le: "unat (claimable ?r n s) \<le> paid + unat s * opn div unat INDEX_SCALE"
    using recount_bounds[of cs n] claimable_le[of ?r n paid opn s] p by simp_all
  have "unat (claimable ?r n s) = paid + unat s * opn div unat INDEX_SCALE"
    if h: "settled_below smax n cs" "s \<le> smax" "paid + unat s * opn div unat INDEX_SCALE < 2 ^ 64"
  proof -
    have e: "unat (balance_of ?r n) = paid" "unat (rl_index ?r) = sum_list (map index_gain cs)"
        "unat (rl_index ?r) = unat (rl_last_of ?r n) + opn"
      using recount_exact[OF h(1)] h(3) p by simp_all
    have "unat s * opn \<le> unat smax * sum_list (map index_gain cs)"
      using h(2) e by (intro mult_le_mono) (simp_all add: word_le_nat_alt)
    then have a: "unat s * opn < 2 ^ 128" using h(1) unfolding settled_below_def by linarith
    have "unat (unsettled ?r n s) = unat s * opn div unat INDEX_SCALE"
      using h(3) by (intro unsettled_exact[OF e(3) a]) linarith
    then show ?thesis using h(3) e(1) unfolding claimable_unsettled by (intro trans[OF saturating_add_exact]) simp_all
  qed
  then show ?thesis using le p settle_balance[OF wf] by simp
qed

text \<open>Eight units to a total of four, a settlement at stake one, then four more and a bonus of five.\<close>

theorem claims_recounted_witness:
  "unat (claimable (fold rl_call [Accrue 1 8 0 4, Settle 2 1, Accrue 2 4 5 4] rl_new) 2 3) = 10"
proof -
  let ?cs = "[Accrue 1 8 0 4, Settle 2 1, Accrue 2 4 5 4]"
  have r: "recount 2 ?cs = (7, 1000000000000000000)" by (simp add: recount_def unat_INDEX_SCALE)
  have "settled_below 3 2 ?cs" by (simp add: settled_below_def unat_INDEX_SCALE)
  then show ?thesis using claims_recounted[of ?cs 2 3 3] r by (simp add: unat_INDEX_SCALE)
qed

end
