(* ===== verification/Eth_Logs.thy ===== *)
theory Eth_Logs
  imports Stake_Ledger Snapshot_Store
begin

text \<open>
  What the bridge reads from the execution client: JSON values and hexadecimal numbers
  (\<open>boule-reth/src/engine.rs\<close>), the stake and slashing logs (\<open>staking.rs\<close>, \<open>slashing.rs\<close>)
  and the commands submitted to the predeployed contracts (\<open>predeploy_log.rs\<close>, \<open>rotation.rs\<close>,
  \<open>endpoint.rs\<close>, \<open>param.rs\<close>, \<open>governance.rs\<close>). The crate \<open>hex\<close> is the parameter \<open>unhex\<close>,
  its \<open>decode\<close>.
\<close>

section \<open>JSON values\<close>

datatype json = JNull | JBool bool | JNumber string | JString string | JArray "json list" | JObject "(string \<times> json) list"

text \<open>\<open>value["key"]\<close>, \<open>as_str\<close> and \<open>as_array\<close>.\<close>

fun jget :: "json \<Rightarrow> string \<Rightarrow> json" where
  "jget (JObject fs) k = (case map_of fs k of Some v \<Rightarrow> v | None \<Rightarrow> JNull)"
| "jget _ k = JNull"

fun as_str :: "json \<Rightarrow> string option" where
  "as_str (JString s) = Some s"
| "as_str _ = None"

fun as_array :: "json \<Rightarrow> json list option" where
  "as_array (JArray xs) = Some xs"
| "as_array _ = None"

definition str_or_default :: "json \<Rightarrow> string" where
  "str_or_default j = (case as_str j of Some s \<Rightarrow> s | None \<Rightarrow> [])"

section \<open>Strings and numbers\<close>

text \<open>\<open>trim_start_matches("0x")\<close> removes the prefix as often as it occurs.\<close>

fun trim_0x :: "string \<Rightarrow> string" where
  "trim_0x (a # b # s) = (if a = CHR ''0'' \<and> b = CHR ''x'' then trim_0x s else a # b # s)"
| "trim_0x s = s"

definition to_ascii_lowercase :: "string \<Rightarrow> string" where
  "to_ascii_lowercase s = map (\<lambda>c. if 65 \<le> (of_char c :: nat) \<and> (of_char c :: nat) \<le> 90 then char_of (of_char c + 32 :: nat) else c) s"

definition hex_digit :: "char \<Rightarrow> nat option" where
  "hex_digit c =
     (let n = of_char c :: nat in
      if 48 \<le> n \<and> n \<le> 57 then Some (n - 48)
      else if 97 \<le> n \<and> n \<le> 102 then Some (n - 87)
      else if 65 \<le> n \<and> n \<le> 70 then Some (n - 55)
      else None)"

fun hex_value :: "nat \<Rightarrow> string \<Rightarrow> nat option" where
  "hex_value acc [] = Some acc"
| "hex_value acc (c # s) =
     (case hex_digit c of
        None \<Rightarrow> None
      | Some d \<Rightarrow> if acc * 16 + d < 2 ^ 64 then hex_value (acc * 16 + d) s else None)"

text \<open>\<open>u64::from_str_radix(s, 16)\<close>: an optional plus sign, then at least one digit.\<close>

definition from_str_radix_16 :: "string \<Rightarrow> u64 option" where
  "from_str_radix_16 s =
     (let digits = (case s of [] \<Rightarrow> [] | c # r \<Rightarrow> if c = CHR ''+'' then r else s) in
      if digits = [] then None else map_option of_nat (hex_value 0 digits))"

definition hex_char :: "nat \<Rightarrow> char" where
  "hex_char d = (if d < 10 then char_of (d + 48) else char_of (d + 87))"

text \<open>\<open>format!("{n:x}")\<close>.\<close>

function hex_digits :: "nat \<Rightarrow> string" where
  "hex_digits n = (if n < 16 then [hex_char n] else hex_digits (n div 16) @ [hex_char (n mod 16)])"
  by pat_completeness auto
termination by (relation "measure id") auto

declare hex_digits.simps [simp del]

definition hex_u64 :: "json \<Rightarrow> u64 option" where
  "hex_u64 v = (case as_str v of None \<Rightarrow> None | Some s \<Rightarrow> from_str_radix_16 (trim_0x s))"

definition root_from_hex :: "(string \<Rightarrow> bytes option) \<Rightarrow> string \<Rightarrow> hash256 option" where
  "root_from_hex unhex s =
     (case unhex (trim_0x s) of
        None \<Rightarrow> None
      | Some bs \<Rightarrow> if length bs = 32 then Some (of_be_bytes bs) else None)"

datatype el_status = Valid | Syncing

text \<open>\<open>None\<close> is the error of an invalid payload or an unknown status.\<close>

definition payload_status :: "json \<Rightarrow> el_status option" where
  "payload_status st =
     (case as_str st of
        Some s \<Rightarrow> if s = ''VALID'' then Some Valid
                  else if s = ''SYNCING'' \<or> s = ''ACCEPTED'' then Some Syncing else None
      | None \<Rightarrow> None)"

definition expect_valid :: "json \<Rightarrow> bool" where
  "expect_valid st \<longleftrightarrow> as_str st = Some ''VALID''"

section \<open>Filters\<close>

definition logs_filter :: "string \<Rightarrow> json \<Rightarrow> string \<Rightarrow> json" where
  "logs_filter address topics block_hash =
     JArray [JObject [(''blockHash'', JString block_hash), (''address'', JString address), (''topics'', topics)]]"

definition logs_filter_by_number :: "string \<Rightarrow> json \<Rightarrow> u64 \<Rightarrow> json" where
  "logs_filter_by_number address topics number =
     (let block = ''0x'' @ hex_digits (unat number) in
      JArray [JObject [(''fromBlock'', JString block), (''toBlock'', JString block),
        (''address'', JString address), (''topics'', topics)]])"

definition STAKING_ADDRESS :: string where
  "STAKING_ADDRESS = ''0x0000000000000000000000000000000000000b0e''"

definition DEPOSIT_TOPIC :: string where
  "DEPOSIT_TOPIC = ''0x98e783c3864bbf744a057ef605a2a61701c3b62b5ed68b3745b99094497daf1f''"

definition WITHDRAW_TOPIC :: string where
  "WITHDRAW_TOPIC = ''0x4591ca0897d0d8e83f7153dfe0b2912125672084ab8d84be59ee13240a1778bc''"

definition staking_topics :: json where
  "staking_topics = JArray [JArray [JString DEPOSIT_TOPIC, JString WITHDRAW_TOPIC]]"

definition SLASHING_ADDRESS :: string where
  "SLASHING_ADDRESS = ''0x0000000000000000000000000000000000000b13''"

definition SLASHED_TOPIC :: string where
  "SLASHED_TOPIC = ''0xaa027002e2293d2bdf5dfdb36085da833212945f22a1bc33658aab00be192988''"

definition slashing_topics :: json where
  "slashing_topics = JArray [JString SLASHED_TOPIC]"

section \<open>Stake and slashing logs\<close>

definition data_str_to_u64 :: "string \<Rightarrow> u64" where
  "data_str_to_u64 data =
     (let h = trim_0x data in
      if length h \<le> 16 then (case from_str_radix_16 h of Some n \<Rightarrow> n | None \<Rightarrow> 0)
      else let high = take (length h - 16) h; low = drop (length h - 16) h in
        if list_ex (\<lambda>b. b \<noteq> CHR ''0'') high then - 1
        else (case from_str_radix_16 low of Some n \<Rightarrow> n | None \<Rightarrow> 0))"

definition parse_stake_log :: "(string \<Rightarrow> bytes option) \<Rightarrow> json \<Rightarrow> (node_id \<times> stake_op) option" where
  "parse_stake_log unhex log =
     (case as_array (jget log ''topics'') of
        Some (t0 # t1 # _) \<Rightarrow>
          (let topic0 = to_ascii_lowercase (str_or_default t0) in
           case root_from_hex unhex (str_or_default t1) of
             None \<Rightarrow> None
           | Some n \<Rightarrow>
               (let amount = data_str_to_u64 (str_or_default (jget log ''data'')) in
                if topic0 = DEPOSIT_TOPIC then Some (n, Bond amount)
                else if topic0 = WITHDRAW_TOPIC then Some (n, Unbond amount)
                else None))
      | _ \<Rightarrow> None)"

definition parse_stake_logs :: "(string \<Rightarrow> bytes option) \<Rightarrow> json \<Rightarrow> (node_id \<times> stake_op) list" where
  "parse_stake_logs unhex logs =
     (case as_array logs of None \<Rightarrow> [] | Some arr \<Rightarrow> List.map_filter (parse_stake_log unhex) arr)"

definition parse_slashed_log :: "(string \<Rightarrow> bytes option) \<Rightarrow> json \<Rightarrow> node_id option" where
  "parse_slashed_log unhex log =
     (case as_array (jget log ''topics'') of
        Some (t0 # t1 # _) \<Rightarrow>
          if to_ascii_lowercase (str_or_default t0) \<noteq> SLASHED_TOPIC then None
          else root_from_hex unhex (str_or_default t1)
      | _ \<Rightarrow> None)"

definition parse_slashed_logs :: "(string \<Rightarrow> bytes option) \<Rightarrow> json \<Rightarrow> node_id list" where
  "parse_slashed_logs unhex logs =
     (case as_array logs of None \<Rightarrow> [] | Some arr \<Rightarrow> List.map_filter (parse_slashed_log unhex) arr)"

section \<open>Commands submitted to the predeployed contracts\<close>

text \<open>A 32-byte word read as \<open>usize\<close>.\<close>

definition word_to_usize :: "bytes \<Rightarrow> nat option" where
  "word_to_usize w =
     (if list_ex (\<lambda>b. b \<noteq> 0) (take 24 w) then None
      else Some (unat (of_be_bytes (take 8 (drop 24 w)) :: u64)))"

definition decode_abi_bytes :: "(string \<Rightarrow> bytes option) \<Rightarrow> string \<Rightarrow> bytes option" where
  "decode_abi_bytes unhex data =
     do { raw \<leftarrow> unhex (trim_0x data);
          if length raw < 64 then None
          else do { off \<leftarrow> word_to_usize (take 32 raw);
            if off \<noteq> 32 then None
            else do { len \<leftarrow> word_to_usize (take 32 (drop 32 raw));
              if 64 + len < 2 ^ 64 then
                if 64 + len > length raw then None else Some (take len (drop 64 raw))
              else None } } }"

definition parse_command_log :: "(string \<Rightarrow> bytes option) \<Rightarrow> string \<Rightarrow> json \<Rightarrow> bytes option" where
  "parse_command_log unhex want log =
     (case as_array (jget log ''topics'') of
        None \<Rightarrow> None
      | Some topics \<Rightarrow>
          if (case topics of [] \<Rightarrow> None | t # _ \<Rightarrow> map_option to_ascii_lowercase (as_str t)) \<noteq> Some want then None
          else decode_abi_bytes unhex (str_or_default (jget log ''data'')))"

definition parse_command_logs :: "(string \<Rightarrow> bytes option) \<Rightarrow> json \<Rightarrow> string \<Rightarrow> bytes list" where
  "parse_command_logs unhex logs topic =
     (case as_array logs of
        None \<Rightarrow> []
      | Some arr \<Rightarrow> List.map_filter (parse_command_log unhex (to_ascii_lowercase topic)) arr)"

definition ROTATION_ADDRESS :: string where
  "ROTATION_ADDRESS = ''0x0000000000000000000000000000000000000b0f''"

definition ROTATION_TOPIC :: string where
  "ROTATION_TOPIC = ''0xde7f9466fbeb5e013694b9e04812cc106a0a764766c202e2f88a480ee27120d1''"

definition ENDPOINT_ADDRESS :: string where
  "ENDPOINT_ADDRESS = ''0x0000000000000000000000000000000000000b10''"

definition ENDPOINT_TOPIC :: string where
  "ENDPOINT_TOPIC = ''0x26a38d91fc47b4cd0e93f73c87346a4236d696ffe5a241f95c33fc2670d28349''"

definition PARAM_ADDRESS :: string where
  "PARAM_ADDRESS = ''0x0000000000000000000000000000000000000b11''"

definition PARAM_TOPIC :: string where
  "PARAM_TOPIC = ''0x27d1e5d546bb0a37e323040c28412ac11a38a95061bbe56c3f95d635f8826a0b''"

definition GOVERNANCE_ADDRESS :: string where
  "GOVERNANCE_ADDRESS = ''0x0000000000000000000000000000000000000b14''"

definition APPROVED_TOPIC :: string where
  "APPROVED_TOPIC = ''0xd686e9e9eda221dfab37aa6cae405e85e661ed8e45cbe791790ed38093d85b75''"

definition parse_rotation_logs :: "(string \<Rightarrow> bytes option) \<Rightarrow> json \<Rightarrow> bytes list" where
  "parse_rotation_logs unhex logs = parse_command_logs unhex logs ROTATION_TOPIC"

definition parse_endpoint_logs :: "(string \<Rightarrow> bytes option) \<Rightarrow> json \<Rightarrow> bytes list" where
  "parse_endpoint_logs unhex logs = parse_command_logs unhex logs ENDPOINT_TOPIC"

definition parse_param_logs :: "(string \<Rightarrow> bytes option) \<Rightarrow> json \<Rightarrow> bytes list" where
  "parse_param_logs unhex logs = parse_command_logs unhex logs PARAM_TOPIC"

definition parse_approved_logs :: "(string \<Rightarrow> bytes option) \<Rightarrow> json \<Rightarrow> bytes list" where
  "parse_approved_logs unhex logs = parse_command_logs unhex logs APPROVED_TOPIC"

section \<open>Logs of the contracts are read back\<close>

text \<open>The encoding of an event with one \<open>bytes\<close> argument, padded to words.\<close>

definition abi_bytes :: "bytes \<Rightarrow> bytes \<Rightarrow> bytes" where
  "abi_bytes cmd pad = be_bytes 32 (32 :: hash256) @ be_bytes 32 (of_nat (length cmd) :: hash256) @ cmd @ pad"

definition command_log :: "(bytes \<Rightarrow> string) \<Rightarrow> string \<Rightarrow> bytes \<Rightarrow> bytes \<Rightarrow> json" where
  "command_log enhex topic cmd pad =
     JObject [(''topics'', JArray [JString topic]), (''data'', JString (''0x'' @ enhex (abi_bytes cmd pad)))]"

text \<open>What the code relies on of the crate \<open>hex\<close>: it decodes what it encoded, and an encoding
  does not look prefixed.\<close>

definition hex_codec :: "(bytes \<Rightarrow> string) \<Rightarrow> (string \<Rightarrow> bytes option) \<Rightarrow> bool" where
  "hex_codec enhex unhex \<longleftrightarrow> (\<forall>bs. unhex (enhex bs) = Some bs \<and> trim_0x (enhex bs) = enhex bs)"

lemma trim_0x_prefix [simp]: "trim_0x (CHR ''0'' # CHR ''x'' # s) = trim_0x s"
  by simp

lemma be_bytes_append:
  "be_bytes (m + n) w = be_bytes m (drop_bit (8 * n) w) @ be_bytes n w"
proof (induction m)
  case (Suc m)
  then show ?case by (simp add: be_bytes_Suc algebra_simps)
qed (simp add: be_bytes_def)

lemma be_bytes_zero: "be_bytes n (0 :: 'a::len word) = replicate n 0"
  by (rule nth_equalityI) (simp_all add: be_bytes_def)

lemma word_to_usize_be:
  assumes "n < 2 ^ 64"
  shows "word_to_usize (be_bytes 32 (of_nat n :: hash256)) = Some n"
proof -
  have "drop_bit (8 * 8) (of_nat n :: hash256) = 0"
    using assms by (simp add: drop_bit_eq_div word_unat_eq_iff unat_div_distrib unat_of_nat_small)
  then have e: "be_bytes 32 (of_nat n :: hash256) = replicate 24 0 @ be_bytes 8 (of_nat n :: hash256)"
    using be_bytes_append[of 24 8 "of_nat n :: hash256"] by (simp add: be_bytes_zero)
  have "be_val (be_bytes 8 (of_nat n :: hash256)) = n"
    using assms by (simp add: fold_be_bytes unat_of_nat_small)
  then have "(of_be_bytes (be_bytes 8 (of_nat n :: hash256)) :: u64) = of_nat n" by (simp only: of_be_bytes_def)
  then show ?thesis
    using assms unfolding word_to_usize_def e by (simp add: unat_of_nat_small list_ex_iff)
qed

lemma decode_abi_bytes_log:
  assumes "hex_codec enhex unhex" "64 + length cmd < 2 ^ 64"
  shows "decode_abi_bytes unhex (''0x'' @ enhex (abi_bytes cmd pad)) = Some cmd"
proof -
  have h: "unhex (trim_0x (''0x'' @ enhex (abi_bytes cmd pad))) = Some (abi_bytes cmd pad)"
    using assms(1) by (simp add: hex_codec_def)
  have w: "word_to_usize (take 32 (abi_bytes cmd pad)) = Some 32"
      "word_to_usize (take 32 (drop 32 (abi_bytes cmd pad))) = Some (length cmd)"
    using word_to_usize_be[of 32] word_to_usize_be[of "length cmd"] assms(2) by (simp_all add: abi_bytes_def)
  show ?thesis
    unfolding decode_abi_bytes_def h Option.bind.simps w using assms(2) by (simp add: abi_bytes_def)
qed

text \<open>Commands submitted to a predeployed contract arrive: from the logs of a block, with
  any logs of other contracts among them, the parser returns exactly the commands
  logged under the topic, in order.\<close>

theorem command_logs_read_back:
  assumes "hex_codec enhex unhex" "list_all (\<lambda>(_, cmd, _). 64 + length cmd < 2 ^ 64) ls"
  shows "parse_command_logs unhex (JArray (map (\<lambda>(t, cmd, pad). command_log enhex t cmd pad) ls)) topic
    = map (\<lambda>(_, cmd, _). cmd) (filter (\<lambda>(t, _, _). to_ascii_lowercase t = to_ascii_lowercase topic) ls)"
proof -
  have one: "parse_command_log unhex (to_ascii_lowercase topic) (command_log enhex t cmd pad)
      = (if to_ascii_lowercase t = to_ascii_lowercase topic then Some cmd else None)"
    if "64 + length cmd < 2 ^ 64" for t cmd pad
    using decode_abi_bytes_log[OF assms(1) that, of pad]
    by (simp add: parse_command_log_def command_log_def str_or_default_def)
  show ?thesis
    using assms(2) by (induction ls) (auto simp: parse_command_logs_def map_filter_simps one)
qed

text \<open>A hexadecimal codec, for the witness.\<close>

definition demo_hex :: "bytes \<Rightarrow> string" where
  "demo_hex bs = concat (map (\<lambda>b. [CHR ''z'', char_of (unat b)]) bs)"

fun demo_unhex :: "string \<Rightarrow> bytes option" where
  "demo_unhex [] = Some []"
| "demo_unhex (a # b # s) = map_option ((#) (of_nat (of_char b))) (demo_unhex s)"
| "demo_unhex [a] = None"

lemma demo_hex_codec: "hex_codec demo_hex demo_unhex"
proof -
  have "of_nat (of_char (char_of (unat b))) = b" for b :: u8
    using unat_bound[of b] by simp
  then have "demo_unhex (demo_hex bs) = Some bs" for bs
    by (induction bs) (simp_all add: demo_hex_def)
  moreover have "trim_0x (demo_hex bs) = demo_hex bs" for bs
    by (cases bs) (simp_all add: demo_hex_def)
  ultimately show ?thesis by (simp add: hex_codec_def)
qed

theorem command_logs_read_back_witness:
  "parse_rotation_logs demo_unhex
     (JArray [command_log demo_hex ROTATION_TOPIC [1, 2, 3] [0, 0], command_log demo_hex PARAM_TOPIC [9] []]) = [[1, 2, 3]]"
  using command_logs_read_back[OF demo_hex_codec, of "[(ROTATION_TOPIC, [1, 2, 3], [0, 0]), (PARAM_TOPIC, [9], [])]" ROTATION_TOPIC]
  by (simp add: parse_rotation_logs_def ROTATION_TOPIC_def PARAM_TOPIC_def to_ascii_lowercase_def)

end
