(* ===== verification/Weight_Proof.thy ===== *)
theory Weight_Proof
  imports Eth_Logs Byte_Cursor
begin

text \<open>
  Receipt proofs for seated weights (\<open>boule-reth/src/weight_proof.rs\<close>): a proposal that
  changes a weight names a recent block and proves with a receipt of that block that a
  staking or slashing event of the validator stands behind the change. The trie, the
  receipt encoding and the hexadecimal encoding are third-party code, the fields of
  \<open>proof_env\<close>.
\<close>

section \<open>Proof sets and their encoding\<close>

definition WPR_MAGIC :: bytes where
  "WPR_MAGIC = ascii ''WPR1''"

definition MAX_WEIGHT_PROOF_ANCHOR_LAG :: u64 where
  "MAX_WEIGHT_PROOF_ANCHOR_LAG = 8"

definition WPR_VERSION :: u8 where
  "WPR_VERSION = 1"

record weight_proof =
  wp_node_id :: node_id
  wp_weight :: u64
  wp_anchor_block :: hash256
  wp_receipt_index :: u32
  wp_receipt_2718 :: bytes
  wp_proof_nodes :: "bytes list"

type_synonym weight_proof_set = "weight_proof list"

definition weight_proof_bytes :: "weight_proof \<Rightarrow> bytes" where
  "weight_proof_bytes p =
     be_bytes 32 (wp_node_id p) @ be_bytes 8 (wp_weight p) @ be_bytes 32 (wp_anchor_block p)
     @ be_bytes 4 (wp_receipt_index p) @ len_be (wp_receipt_2718 p) @ wp_receipt_2718 p
     @ len_be (wp_proof_nodes p) @ concat (map (\<lambda>n. len_be n @ n) (wp_proof_nodes p))"

definition wps_encode :: "weight_proof_set \<Rightarrow> bytes" where
  "wps_encode ps = WPR_MAGIC @ [WPR_VERSION] @ len_be ps @ concat (map weight_proof_bytes ps)"

definition is_weight_proof_command :: "bytes \<Rightarrow> bool" where
  "is_weight_proof_command bs \<longleftrightarrow> length bs \<ge> 4 \<and> take 4 bs = WPR_MAGIC"

definition read_weight_proof :: "cursor \<Rightarrow> (weight_proof \<times> cursor) option" where
  "read_weight_proof c =
     do { (n, c1) \<leftarrow> take_be 32 c;
          (w, c2) \<leftarrow> take_be 8 c1;
          (a, c3) \<leftarrow> take_be 32 c2;
          (i, c4) \<leftarrow> take_be 4 c3;
          (r, c5) \<leftarrow> take_vec c4;
          (ns, c6) \<leftarrow> take_seq take_vec c5;
          Some (\<lparr> wp_node_id = n, wp_weight = w, wp_anchor_block = a, wp_receipt_index = i,
                  wp_receipt_2718 = r, wp_proof_nodes = ns \<rparr>, c6) }"

definition wps_decode :: "bytes \<Rightarrow> weight_proof_set option" where
  "wps_decode bs =
     do { (magic, c1) \<leftarrow> cursor_take 4 (cursor_new bs);
          if magic \<noteq> WPR_MAGIC then None
          else do { (version, c2) \<leftarrow> cursor_take 1 c1;
            if version ! 0 \<noteq> WPR_VERSION then None
            else do { (ps, c3) \<leftarrow> take_seq read_weight_proof c2;
              if \<not> cursor_is_empty c3 then None else Some ps } } }"

section \<open>Receipts and logs\<close>

datatype tx_type = Legacy | Eip2930 | Eip1559 | Eip4844 | Eip7702

record eth_log =
  lg_address :: "160 word"
  lg_topics :: "hash256 list"
  lg_data :: bytes

record eth_receipt =
  er_tx_type :: tx_type
  er_success :: bool
  er_cumulative_gas_used :: u64
  er_logs :: "eth_log list"

record 'n proof_env =
  pv_enhex :: "bytes \<Rightarrow> string"
  pv_unhex :: "string \<Rightarrow> bytes option"
  pv_encode :: "eth_receipt \<Rightarrow> bytes"
  pv_decode :: "bytes \<Rightarrow> eth_receipt option"
  pv_trie_key :: "u32 \<Rightarrow> 'n"
  pv_adjust :: "nat \<Rightarrow> nat \<Rightarrow> nat"
  pv_nodes :: "('n \<times> bytes) list \<Rightarrow> 'n \<Rightarrow> bytes list"
  pv_verify :: "hash256 \<Rightarrow> 'n \<Rightarrow> bytes \<Rightarrow> bytes list \<Rightarrow> bool"

definition bytes_to_u64 :: "bytes \<Rightarrow> u64" where
  "bytes_to_u64 data =
     (if length data < 8 then of_be_bytes (replicate (8 - length data) 0 @ data)
      else let split = length data - 8 in
        if list_ex (\<lambda>b. b \<noteq> 0) (take split data) then - 1 else of_be_bytes (drop split data))"

datatype log_kind = LDeposit u64 | LWithdraw | LSlashed

definition eq_ignore_ascii_case :: "string \<Rightarrow> string \<Rightarrow> bool" where
  "eq_ignore_ascii_case a b \<longleftrightarrow> to_ascii_lowercase a = to_ascii_lowercase b"

definition classify_log :: "'n proof_env \<Rightarrow> eth_log \<Rightarrow> log_kind option" where
  "classify_log env log =
     (case lg_topics log of
        [] \<Rightarrow> None
      | t # _ \<Rightarrow>
          (let topic0 = ''0x'' @ pv_enhex env (be_bytes 32 t);
               addr = ''0x'' @ pv_enhex env (be_bytes 20 (lg_address log));
               is_staking = eq_ignore_ascii_case addr STAKING_ADDRESS;
               is_slashing = eq_ignore_ascii_case addr SLASHING_ADDRESS in
           if is_staking \<and> eq_ignore_ascii_case topic0 DEPOSIT_TOPIC then Some (LDeposit (bytes_to_u64 (lg_data log)))
           else if is_staking \<and> eq_ignore_ascii_case topic0 WITHDRAW_TOPIC then Some LWithdraw
           else if is_slashing \<and> eq_ignore_ascii_case topic0 SLASHED_TOPIC then Some LSlashed
           else None))"

definition log_node_id :: "eth_log \<Rightarrow> node_id option" where
  "log_node_id log = (case lg_topics log of _ # n # _ \<Rightarrow> Some n | _ \<Rightarrow> None)"

definition log_is_for :: "'n proof_env \<Rightarrow> eth_log \<Rightarrow> node_id \<Rightarrow> bool" where
  "log_is_for env log n \<longleftrightarrow> classify_log env log \<noteq> None \<and> log_node_id log = Some n"

definition receipt_has_log_for :: "'n proof_env \<Rightarrow> eth_receipt \<Rightarrow> node_id \<Rightarrow> bool" where
  "receipt_has_log_for env r n \<longleftrightarrow> list_ex (\<lambda>l. log_is_for env l n) (er_logs r)"

definition decode_receipt_logs :: "'n proof_env \<Rightarrow> bytes \<Rightarrow> eth_log list option" where
  "decode_receipt_logs env bs = map_option er_logs (pv_decode env bs)"

section \<open>Verification\<close>

datatype weight_error =
    NoReceiptProof node_id u64
  | WeightMismatch node_id u64 u64
  | UnknownAnchor node_id hash256
  | AnchorOutOfWindow node_id height height
  | InclusionFailed node_id u32
  | ReceiptUndecodable
  | NoLogForNode node_id
  | SlashedWeightNonzero node_id u64
  | WeightBelowDeposits node_id u128 u64

definition verify_one :: "'n proof_env \<Rightarrow> weight_proof \<Rightarrow> hash256 \<Rightarrow> weight_error + eth_log list" where
  "verify_one env p root =
     (if \<not> pv_verify env root (pv_trie_key env (wp_receipt_index p)) (wp_receipt_2718 p) (wp_proof_nodes p)
      then Inl (InclusionFailed (wp_node_id p) (wp_receipt_index p))
      else (case decode_receipt_logs env (wp_receipt_2718 p) of
              None \<Rightarrow> Inl ReceiptUndecodable
            | Some logs \<Rightarrow>
                let node_logs = filter (\<lambda>l. log_is_for env l (wp_node_id p)) logs in
                if node_logs = [] then Inl (NoLogForNode (wp_node_id p)) else Inr node_logs))"

fun scan_logs :: "'n proof_env \<Rightarrow> eth_log list \<Rightarrow> u128 \<times> bool \<times> bool \<Rightarrow> u128 \<times> bool \<times> bool" where
  "scan_logs env [] acc = acc"
| "scan_logs env (l # ls) (deposits, withdraw, slash) =
     scan_logs env ls
       (case classify_log env l of
          Some (LDeposit amount) \<Rightarrow> (deposits + ucast amount, withdraw, slash)
        | Some LWithdraw \<Rightarrow> (deposits, True, slash)
        | Some LSlashed \<Rightarrow> (deposits, withdraw, True)
        | None \<Rightarrow> (deposits, withdraw, slash))"

definition check_weight_consistent_with_logs ::
  "'n proof_env \<Rightarrow> node_id \<Rightarrow> u64 \<Rightarrow> eth_log list \<Rightarrow> weight_error + unit" where
  "check_weight_consistent_with_logs env n w logs =
     (case scan_logs env logs (0, False, False) of (deposit_sum, has_withdraw, has_slash) \<Rightarrow>
        if has_slash then (if w \<noteq> 0 then Inl (SlashedWeightNonzero n w) else Inr ())
        else if has_withdraw then Inr ()
        else if deposit_sum = 0 then Inr ()
        else if ucast w < deposit_sum then Inl (WeightBelowDeposits n deposit_sum w)
        else Inr ())"

definition verify_claim ::
  "'n proof_env \<Rightarrow> weight_proof_set \<Rightarrow> height \<Rightarrow> (hash256 \<Rightarrow> (hash256 \<times> height) option)
     \<Rightarrow> unit \<Rightarrow> node_id \<times> u64 \<Rightarrow> weight_error + unit" where
  "verify_claim env ps carrier resolve _ claim =
     (case claim of (n, w) \<Rightarrow>
      (case find (\<lambda>p. wp_node_id p = n) ps of
         None \<Rightarrow> Inl (NoReceiptProof n w)
       | Some p \<Rightarrow>
           if wp_weight p \<noteq> w then Inl (WeightMismatch n (wp_weight p) w)
           else (case resolve (wp_anchor_block p) of
                   None \<Rightarrow> Inl (UnknownAnchor n (wp_anchor_block p))
                 | Some (root, src) \<Rightarrow>
                     if src \<ge> carrier \<or> carrier - src > MAX_WEIGHT_PROOF_ANCHOR_LAG
                     then Inl (AnchorOutOfWindow n src carrier)
                     else (case verify_one env p root of
                             Inl e \<Rightarrow> Inl e
                           | Inr logs \<Rightarrow> check_weight_consistent_with_logs env n w logs))))"

definition verify_against_recent ::
  "'n proof_env \<Rightarrow> weight_proof_set \<Rightarrow> (node_id \<times> u64) list \<Rightarrow> height
     \<Rightarrow> (hash256 \<Rightarrow> (hash256 \<times> height) option) \<Rightarrow> weight_error + unit" where
  "verify_against_recent env ps claims carrier resolve = try_fold (verify_claim env ps carrier resolve) () claims"

section \<open>Generation\<close>

text \<open>\<open>None\<close> is an error of the parser.\<close>

definition parse_address :: "'n proof_env \<Rightarrow> string \<Rightarrow> 160 word option" where
  "parse_address env s =
     (case pv_unhex env (trim_0x s) of
        None \<Rightarrow> None
      | Some bs \<Rightarrow> if length bs = 20 then Some (of_be_bytes bs) else None)"

fun collect_options :: "'a option list \<Rightarrow> 'a list option" where
  "collect_options [] = Some []"
| "collect_options (None # xs) = None"
| "collect_options (Some x # xs) = map_option ((#) x) (collect_options xs)"

text \<open>\<open>LogData::new\<close> refuses more than four topics.\<close>

definition parse_one_log :: "'n proof_env \<Rightarrow> json \<Rightarrow> eth_log option" where
  "parse_one_log env l =
     do { a \<leftarrow> as_str (jget l ''address'');
          address \<leftarrow> parse_address env a;
          ts \<leftarrow> as_array (jget l ''topics'');
          topics \<leftarrow> collect_options (map (\<lambda>t. Option.bind (as_str t) (root_from_hex (pv_unhex env))) ts);
          data \<leftarrow> pv_unhex env (trim_0x (case as_str (jget l ''data'') of Some s \<Rightarrow> s | None \<Rightarrow> ''0x''));
          if length topics > 4 then None
          else Some \<lparr> lg_address = address, lg_topics = topics, lg_data = data \<rparr> }"

definition hex_or_zero :: "string \<Rightarrow> u64" where
  "hex_or_zero s = (case from_str_radix_16 (trim_0x s) of Some n \<Rightarrow> n | None \<Rightarrow> 0)"

definition tx_type_of :: "u64 \<Rightarrow> tx_type option" where
  "tx_type_of n =
     (if n = 0 then Some Legacy else if n = 1 then Some Eip2930 else if n = 2 then Some Eip1559
      else if n = 3 then Some Eip4844 else if n = 4 then Some Eip7702 else None)"

definition parse_one_receipt :: "'n proof_env \<Rightarrow> json \<Rightarrow> eth_receipt option" where
  "parse_one_receipt env r =
     do { ty \<leftarrow> (case as_str (jget r ''type'') of None \<Rightarrow> Some Legacy | Some s \<Rightarrow> tx_type_of (hex_or_zero s));
          let success = (case as_str (jget r ''status'') of Some s \<Rightarrow> hex_or_zero s \<noteq> 0 | None \<Rightarrow> True);
          gas \<leftarrow> hex_u64 (jget r ''cumulativeGasUsed'');
          logs \<leftarrow> (case as_array (jget r ''logs'') of None \<Rightarrow> Some [] | Some ls \<Rightarrow> collect_options (map (parse_one_log env) ls));
          Some \<lparr> er_tx_type = ty, er_success = success, er_cumulative_gas_used = gas, er_logs = logs \<rparr> }"

definition parse_block_receipts :: "'n proof_env \<Rightarrow> json \<Rightarrow> eth_receipt list option" where
  "parse_block_receipts env j =
     do { arr \<leftarrow> as_array j; collect_options (map (parse_one_receipt env) arr) }"

definition build_receipt_proof :: "'n proof_env \<Rightarrow> bytes list \<Rightarrow> nat \<Rightarrow> bytes list option" where
  "build_receipt_proof env encoded target =
     (let len = length encoded in
      if target \<ge> len then None
      else let leaves = map (\<lambda>i. let ix = pv_adjust env i len in (pv_trie_key env (of_nat ix), encoded ! ix)) [0..<len];
               nodes = pv_nodes env leaves (pv_trie_key env (of_nat target)) in
           if nodes = [] then None else Some nodes)"

fun position :: "('a \<Rightarrow> bool) \<Rightarrow> 'a list \<Rightarrow> nat option" where
  "position P [] = None"
| "position P (x # xs) = (if P x then Some 0 else map_option Suc (position P xs))"

text \<open>The outer \<open>None\<close> is an error, the inner one a node without a log.\<close>

definition generate_one ::
  "'n proof_env \<Rightarrow> node_id \<Rightarrow> u64 \<Rightarrow> hash256 \<Rightarrow> json \<Rightarrow> weight_proof option option" where
  "generate_one env n w anchor source =
     (case parse_block_receipts env source of
        None \<Rightarrow> None
      | Some receipts \<Rightarrow>
          (case position (\<lambda>r. receipt_has_log_for env r n) receipts of
             None \<Rightarrow> Some None
           | Some idx \<Rightarrow>
               (let encoded = map (pv_encode env) receipts in
                case build_receipt_proof env encoded idx of
                  None \<Rightarrow> None
                | Some nodes \<Rightarrow> Some (Some \<lparr> wp_node_id = n, wp_weight = w, wp_anchor_block = anchor,
                    wp_receipt_index = of_nat idx, wp_receipt_2718 = encoded ! idx, wp_proof_nodes = nodes \<rparr>))))"

fun wps_generate ::
  "'n proof_env \<Rightarrow> (node_id \<times> u64) list \<Rightarrow> hash256 \<Rightarrow> json \<Rightarrow> weight_proof_set option" where
  "wps_generate env [] anchor source = Some []"
| "wps_generate env ((n, w) # ws) anchor source =
     (case generate_one env n w anchor source of
        None \<Rightarrow> None
      | Some None \<Rightarrow> wps_generate env ws anchor source
      | Some (Some p) \<Rightarrow> map_option ((#) p) (wps_generate env ws anchor source))"

section \<open>Decoding inverts encoding\<close>

definition wp_short :: "weight_proof \<Rightarrow> bool" where
  "wp_short p \<longleftrightarrow> short (wp_receipt_2718 p) \<and> short (wp_proof_nodes p) \<and> list_all short (wp_proof_nodes p)"

interpretation nodes_field: field_codec "take_seq take_vec" "seq_bytes vec_bytes" "\<lambda>xs. short xs \<and> list_all short xs"
  by (rule vec_field.seq_codec)

interpretation proof_field: field_codec read_weight_proof weight_proof_bytes wp_short
proof -
  let ?f = "\<lambda>(n, w, a, i, r, ns). \<lparr> wp_node_id = n, wp_weight = w, wp_anchor_block = a, wp_receipt_index = i,
      wp_receipt_2718 = r, wp_proof_nodes = ns \<rparr>"
  let ?g = "\<lambda>p. (wp_node_id p, wp_weight p, wp_anchor_block p, wp_receipt_index p, wp_receipt_2718 p, wp_proof_nodes p)"
  let ?rd = "take_pair (take_be 32) (take_pair (take_be 8) (take_pair (take_be 32) (take_pair (take_be 4)
      (take_pair take_vec (take_seq take_vec)))))
      :: cursor \<Rightarrow> ((node_id \<times> u64 \<times> hash256 \<times> u32 \<times> bytes \<times> bytes list) \<times> cursor) option"
  have "field_codec ?rd
      (\<lambda>(x, y). be_bytes 32 x @ (\<lambda>(x, y). be_bytes 8 x @ (\<lambda>(x, y). be_bytes 32 x @ (\<lambda>(x, y). be_bytes 4 x
         @ (\<lambda>(x, y). vec_bytes x @ seq_bytes vec_bytes y) y) y) y) y)
      (\<lambda>(x, y). True \<and> (\<lambda>(x, y). True \<and> (\<lambda>(x, y). True \<and> (\<lambda>(x, y). True
         \<and> (\<lambda>(x, y). short x \<and> (short y \<and> list_all short y)) y) y) y) y)"
    by (intro pair_codecI) unfold_locales
  from field_codec.as_codec[OF this, of ?f ?g]
  have "field_codec (take_as ?f ?rd) weight_proof_bytes wp_short"
    by (simp add: weight_proof_bytes_def[abs_def] wp_short_def[abs_def] case_prod_unfold comp_def vec_bytes_def[abs_def]
        seq_bytes_def)
  moreover have "read_weight_proof = take_as ?f ?rd"
    by (auto simp: read_weight_proof_def take_pair_def take_as_def fun_eq_iff split: bind_splits option.splits)
  ultimately show "field_codec read_weight_proof weight_proof_bytes wp_short" by simp
qed

interpretation proofs_field: field_codec "take_seq read_weight_proof" "seq_bytes weight_proof_bytes"
    "\<lambda>ps. short ps \<and> list_all wp_short ps"
  by (rule proof_field.seq_codec)

lemma length_wpr_magic [simp]: "length WPR_MAGIC = 4"
  by (simp add: WPR_MAGIC_def ascii_def)

lemma wps_encode_seq: "wps_encode ps = WPR_MAGIC @ [WPR_VERSION] @ seq_bytes weight_proof_bytes ps"
  by (simp add: wps_encode_def seq_bytes_def)

lemma wps_decode_encode:
  assumes len: "length (wps_encode ps) < 2 ^ 64" and ok: "short ps" "list_all wp_short ps"
  shows "wps_decode (wps_encode ps) = Some ps"
proof -
  let ?b = "seq_bytes weight_proof_bytes ps"
  have w0: "cu_wf (cursor_new (wps_encode ps))" using len by simp
  obtain c1 where c1: "cursor_take 4 (cursor_new (wps_encode ps)) = Some (WPR_MAGIC, c1)" "cu_wf c1"
      "cu_rest c1 = [WPR_VERSION] @ ?b"
    by (rule cursor_take_append[OF w0, of WPR_MAGIC "[WPR_VERSION] @ ?b" 4]) (simp_all add: wps_encode_seq)
  obtain c2 where c2: "cursor_take 1 c1 = Some ([WPR_VERSION], c2)" "cu_wf c2" "cu_rest c2 = ?b"
    by (rule cursor_take_append[OF c1(2,3)]) simp_all
  obtain c3 where c3: "take_seq read_weight_proof c2 = Some (ps, c3)" "cu_wf c3" "cu_rest c3 = []"
    by (rule proofs_field.read_after[OF c2(2), of ps "[]"]) (use c2(3) ok in simp_all)
  show ?thesis
    by (simp add: wps_decode_def c1(1) c2(1) c3(1) cursor_is_empty_iff[OF c3(2)] c3(3) del: One_nat_def)
qed

lemma wps_decode_SomeD:
  assumes len: "length bs < 2 ^ 64" and d: "wps_decode bs = Some ps"
  shows "bs = wps_encode ps \<and> short ps \<and> list_all wp_short ps"
proof -
  have w0: "cu_wf (cursor_new bs)" using len by simp
  obtain c1 vs c2 c3 where
    c1: "cursor_take 4 (cursor_new bs) = Some (WPR_MAGIC, c1)" and
    c2: "cursor_take 1 c1 = Some (vs, c2)" "vs ! 0 = WPR_VERSION" and
    c3: "take_seq read_weight_proof c2 = Some (ps, c3)" "cursor_is_empty c3"
    using d unfolding wps_decode_def by (auto split: bind_splits if_split_asm simp del: split_paired_Ex)
  note r1 = cursor_take_SomeD[OF w0 c1]
  note r2 = cursor_take_SomeD[OF r1(2) c2(1)]
  note r3 = proofs_field.read_wf[OF r2(2) c3(1)] proofs_field.enc_read[OF r2(2) c3(1)]
  obtain v where v: "vs = [v]" using r2(1) by (auto simp: length_Suc_conv)
  have e: "cu_rest c3 = []" using c3(2) r3(1) by (simp add: cursor_is_empty_iff)
  have "bs = WPR_MAGIC @ cu_rest c1" using r1(3) by simp
  also have "cu_rest c1 = [WPR_VERSION] @ cu_rest c2" using r2(3) c2(2) v by simp
  also note r3(2)
  finally have "bs = wps_encode ps" by (simp add: wps_encode_seq e)
  then show ?thesis using r3(3) by blast
qed

text \<open>The encoding of weight proofs is canonical: a command decodes to a set of proofs
  exactly when it is the encoding of that set.\<close>

theorem weight_proofs_canonical:
  assumes "length bs < 2 ^ 64"
  shows "wps_decode bs = Some ps \<longleftrightarrow> bs = wps_encode ps \<and> short ps \<and> list_all wp_short ps"
  using wps_decode_encode wps_decode_SomeD[OF assms] assms by blast

definition demo_proof :: weight_proof where
  "demo_proof = \<lparr> wp_node_id = 7, wp_weight = 10, wp_anchor_block = 3, wp_receipt_index = 1,
     wp_receipt_2718 = [1, 2], wp_proof_nodes = [[5], []] \<rparr>"

theorem weight_proofs_canonical_witness: "wps_decode (wps_encode [demo_proof]) = Some [demo_proof]"
proof -
  have len: "length (wps_encode [demo_proof]) < 2 ^ 64"
    by (simp add: wps_encode_def weight_proof_bytes_def demo_proof_def WPR_MAGIC_def ascii_def)
  show ?thesis using weight_proofs_canonical[OF len, of "[demo_proof]"] by (simp add: wp_short_def short_def demo_proof_def)
qed

section \<open>What an accepted weight rests on\<close>

text \<open>The specification: a recent block known to the voter includes a receipt with a staking
  or slashing event of the validator that the weight agrees with.\<close>

definition weight_agrees :: "'n proof_env \<Rightarrow> u64 \<Rightarrow> eth_log list \<Rightarrow> bool" where
  "weight_agrees env w logs \<longleftrightarrow>
     (if LSlashed \<in> set (List.map_filter (classify_log env) logs) then w = 0
      else LWithdraw \<in> set (List.map_filter (classify_log env) logs)
        \<or> (\<Sum>l \<leftarrow> logs. case classify_log env l of Some (LDeposit a) \<Rightarrow> unat a | _ \<Rightarrow> 0) \<le> unat w)"

definition weight_backed ::
  "'n proof_env \<Rightarrow> weight_proof_set \<Rightarrow> height \<Rightarrow> (hash256 \<Rightarrow> (hash256 \<times> height) option) \<Rightarrow> node_id \<times> u64 \<Rightarrow> bool" where
  "weight_backed env ps carrier resolve = (\<lambda>(n, w). \<exists>p root src r.
     find (\<lambda>p. wp_node_id p = n) ps = Some p \<and> wp_weight p = w
     \<and> resolve (wp_anchor_block p) = Some (root, src) \<and> src < carrier \<and> carrier - src \<le> MAX_WEIGHT_PROOF_ANCHOR_LAG
     \<and> pv_verify env root (pv_trie_key env (wp_receipt_index p)) (wp_receipt_2718 p) (wp_proof_nodes p)
     \<and> pv_decode env (wp_receipt_2718 p) = Some r \<and> receipt_has_log_for env r n
     \<and> weight_agrees env w (filter (\<lambda>l. log_is_for env l n) (er_logs r)))"

abbreviation log_deposit :: "'n proof_env \<Rightarrow> eth_log \<Rightarrow> nat" where
  "log_deposit env l \<equiv> (case classify_log env l of Some (LDeposit a) \<Rightarrow> unat a | _ \<Rightarrow> 0)"

lemma log_deposit_bound: "log_deposit env l < 2 ^ 64"
  using unat_bound[where 'a = 64] by (auto split: option.splits log_kind.splits)

lemma scan_logs_spec:
  "unat d + length ls * 2 ^ 64 < 2 ^ 128 \<Longrightarrow>
     (case scan_logs env ls (d, wd, sl) of (d', wd', sl') \<Rightarrow>
        unat d' = unat d + (\<Sum>l \<leftarrow> ls. log_deposit env l)
        \<and> (wd' \<longleftrightarrow> wd \<or> LWithdraw \<in> set (List.map_filter (classify_log env) ls))
        \<and> (sl' \<longleftrightarrow> sl \<or> LSlashed \<in> set (List.map_filter (classify_log env) ls)))"
proof (induction ls arbitrary: d wd sl)
  case (Cons l ls)
  show ?case
  proof (cases "classify_log env l")
    case (Some k)
    show ?thesis
    proof (cases k)
      case (LDeposit a)
      have a: "unat a < 2 ^ 64" using unat_bound[of a] by simp
      have "unat (ucast a :: u128) = unat a" by (simp add: unat_ucast_widen)
      moreover have "unat d + unat a < 2 ^ 128" using a Cons.prems by simp
      ultimately have d: "unat (d + ucast a) = unat d + unat a" using unat_add_no_overflow[of d "ucast a"] by simp
      have "unat (d + ucast a) + length ls * 2 ^ 64 < 2 ^ 128" using a Cons.prems d by simp
      from Cons.IH[OF this, of wd sl] show ?thesis
        using Some LDeposit d by (simp add: map_filter_simps split: prod.splits)
    qed (use Cons.IH[of d True sl] Cons.IH[of d wd True] Cons.prems Some in
        \<open>simp_all add: map_filter_simps split: prod.splits\<close>)
  qed (use Cons.IH[of d wd sl] Cons.prems in \<open>simp add: map_filter_simps split: prod.splits\<close>)
qed (simp add: map_filter_simps)

lemma check_weight_iff:
  assumes "length logs < 2 ^ 64"
  shows "check_weight_consistent_with_logs env n w logs = Inr () \<longleftrightarrow> weight_agrees env w logs"
proof -
  obtain d wd sl where s: "scan_logs env logs (0, False, False) = (d, wd, sl)" by (rule prod_cases3)
  have sp: "unat d = (\<Sum>l \<leftarrow> logs. log_deposit env l)"
      "wd \<longleftrightarrow> LWithdraw \<in> set (List.map_filter (classify_log env) logs)"
      "sl \<longleftrightarrow> LSlashed \<in> set (List.map_filter (classify_log env) logs)"
    using scan_logs_spec[of 0 logs env False False] assms unfolding s by simp_all
  have "(ucast w :: u128) < d \<longleftrightarrow> unat w < unat d" by (simp add: word_less_nat_alt unat_ucast_widen)
  moreover have "d = 0 \<longleftrightarrow> unat d = 0" by (simp add: unat_eq_0)
  ultimately show ?thesis
    unfolding check_weight_consistent_with_logs_def s weight_agrees_def sp(1)[symmetric] sp(2,3)[symmetric] by auto
qed

text \<open>The law of receipts the count relies on: a receipt that was decoded fits in memory.\<close>

definition receipts_fit :: "'n proof_env \<Rightarrow> bool" where
  "receipts_fit env \<longleftrightarrow> (\<forall>bs r. pv_decode env bs = Some r \<longrightarrow> length (er_logs r) < 2 ^ 64)"

lemma verify_one_iff:
  "verify_one env p root = Inr logs \<longleftrightarrow>
     pv_verify env root (pv_trie_key env (wp_receipt_index p)) (wp_receipt_2718 p) (wp_proof_nodes p)
     \<and> (\<exists>r. pv_decode env (wp_receipt_2718 p) = Some r \<and> receipt_has_log_for env r (wp_node_id p)
          \<and> logs = filter (\<lambda>l. log_is_for env l (wp_node_id p)) (er_logs r))"
  by (cases "pv_decode env (wp_receipt_2718 p)")
    (auto simp: verify_one_def decode_receipt_logs_def receipt_has_log_for_def Let_def list_ex_iff filter_empty_conv)

lemma verify_claim_iff:
  assumes "receipts_fit env"
  shows "verify_claim env ps carrier resolve u claim = Inr () \<longleftrightarrow> weight_backed env ps carrier resolve claim"
proof -
  obtain n w where c: "claim = (n, w)" by (rule prod.exhaust)
  have chk: "check_weight_consistent_with_logs env n w (filter P (er_logs r)) = Inr ()
      \<longleftrightarrow> weight_agrees env w (filter P (er_logs r))" if "pv_decode env bs = Some r" for bs r P
  proof (rule check_weight_iff)
    have "length (er_logs r) < 2 ^ 64" using assms that by (auto simp: receipts_fit_def)
    then show "length (filter P (er_logs r)) < 2 ^ 64" using length_filter_le[of P "er_logs r"] by linarith
  qed
  show ?thesis
  proof (cases "find (\<lambda>p. wp_node_id p = n) ps")
    case None
    then show ?thesis by (simp add: verify_claim_def weight_backed_def c)
  next
    case (Some p)
    then have n: "wp_node_id p = n" by (auto simp: find_Some_iff)
    show ?thesis
    proof (cases "resolve (wp_anchor_block p)")
      case None
      then show ?thesis using Some by (simp add: verify_claim_def weight_backed_def c)
    next
      case (Some a)
      obtain root src where a: "a = (root, src)" by (rule prod.exhaust)
      show ?thesis
      proof (cases "\<exists>logs. verify_one env p root = Inr logs")
        case True
        then obtain logs where v: "verify_one env p root = Inr logs" by blast
        then obtain r where r: "pv_decode env (wp_receipt_2718 p) = Some r" "receipt_has_log_for env r n"
            "logs = filter (\<lambda>l. log_is_for env l n) (er_logs r)"
            "pv_verify env root (pv_trie_key env (wp_receipt_index p)) (wp_receipt_2718 p) (wp_proof_nodes p)"
          unfolding verify_one_iff n by blast
        show ?thesis
          using \<open>find _ ps = Some p\<close> Some a v r chk[OF r(1)]
          by (auto simp: verify_claim_def weight_backed_def c linorder_not_le linorder_not_less)
      next
        case False
        then obtain e where e: "verify_one env p root = Inl e" by (cases "verify_one env p root") auto
        have "\<not> (pv_verify env root (pv_trie_key env (wp_receipt_index p)) (wp_receipt_2718 p) (wp_proof_nodes p)
            \<and> (\<exists>r. pv_decode env (wp_receipt_2718 p) = Some r \<and> receipt_has_log_for env r n))"
          using False unfolding verify_one_iff n by blast
        then show ?thesis
          using \<open>find _ ps = Some p\<close> Some a e by (auto simp: verify_claim_def weight_backed_def c)
      qed
    qed
  qed
qed

lemma verify_recent_iff:
  assumes "receipts_fit env"
  shows "verify_against_recent env ps claims carrier resolve = Inr ()
    \<longleftrightarrow> list_all (weight_backed env ps carrier resolve) claims"
proof -
  have v: "verify_claim env ps carrier resolve u x = Inr u' \<longleftrightarrow> weight_backed env ps carrier resolve x" for u u' x
    using verify_claim_iff[OF assms, of ps carrier resolve u x] by (simp add: unit_eq)
  have "try_fold (verify_claim env ps carrier resolve) u claims = Inr ()
      \<longleftrightarrow> list_all (weight_backed env ps carrier resolve) claims" for u
  proof (induction claims arbitrary: u)
    case (Cons x xs)
    show ?case using v[of u x] Cons.IH by (cases "verify_claim env ps carrier resolve u x") (auto simp: unit_eq)
  qed (simp add: unit_eq)
  then show ?thesis by (simp add: verify_against_recent_def)
qed

text \<open>C35: a voter accepts the weights of a proposal exactly when each of them is backed: the
  proof set holds a proof of that weight whose anchor is a block the voter holds, at
  most eight blocks below the proposal, whose receipt is included in that block and
  carries an event of that validator that the weight agrees with; in particular a
  validator slashed there can only be given weight zero.\<close>

theorem weight_claims_exact:
  assumes "receipts_fit env"
  shows "verify_against_recent env ps claims carrier resolve = Inr ()
    \<longleftrightarrow> list_all (weight_backed env ps carrier resolve) claims"
  by (rule verify_recent_iff[OF assms])

section \<open>Generated proofs are accepted\<close>

lemma position_Some: "position P xs = Some i \<Longrightarrow> i < length xs \<and> P (xs ! i)"
  by (induction xs arbitrary: i) (auto split: if_splits)

text \<open>What the code relies on of the trie and of the receipt encoding: the nodes retained for a
  leaf prove that leaf under the root of the receipts, and an encoded receipt decodes.\<close>

definition receipt_laws :: "'n proof_env \<Rightarrow> hash256 \<Rightarrow> eth_receipt list \<Rightarrow> bool" where
  "receipt_laws env root receipts \<longleftrightarrow>
     (\<forall>r \<in> set receipts. pv_decode env (pv_encode env r) = Some r)
     \<and> (\<forall>i nodes. i < length receipts \<longrightarrow> build_receipt_proof env (map (pv_encode env) receipts) i = Some nodes
          \<longrightarrow> pv_verify env root (pv_trie_key env (of_nat i)) (pv_encode env (receipts ! i)) nodes)"

lemma generated_backed:
  assumes "generate_one env n w anchor source = Some (Some p)" "parse_block_receipts env source = Some receipts"
    and "receipt_laws env root receipts"
  shows "wp_node_id p = n \<and> wp_weight p = w \<and> wp_anchor_block p = anchor
    \<and> (\<exists>r. pv_verify env root (pv_trie_key env (wp_receipt_index p)) (wp_receipt_2718 p) (wp_proof_nodes p)
        \<and> r \<in> set receipts \<and> pv_decode env (wp_receipt_2718 p) = Some r \<and> receipt_has_log_for env r n)"
proof -
  obtain i nodes where i: "position (\<lambda>r. receipt_has_log_for env r n) receipts = Some i"
      "build_receipt_proof env (map (pv_encode env) receipts) i = Some nodes"
      "p = \<lparr> wp_node_id = n, wp_weight = w, wp_anchor_block = anchor, wp_receipt_index = of_nat i,
             wp_receipt_2718 = map (pv_encode env) receipts ! i, wp_proof_nodes = nodes \<rparr>"
    using assms(1,2) by (auto simp: generate_one_def Let_def split: option.splits)
  have l: "i < length receipts" "receipt_has_log_for env (receipts ! i) n" using position_Some[OF i(1)] by blast+
  show ?thesis
    using assms(3) i(2,3) l by (auto simp: receipt_laws_def intro!: exI[of _ "receipts ! i"])
qed

text \<open>The proof a proposer generates for a weight from the receipts of a recent block is
  accepted by every voter that holds this block, when the weight agrees with the events
  of the validator in the receipt it found.\<close>

theorem generated_proof_accepted:
  assumes fit: "receipts_fit env"
    and gen: "generate_one env n w anchor source = Some (Some p)"
    and src: "parse_block_receipts env source = Some receipts" "receipt_laws env root receipts"
    and voter: "resolve anchor = Some (root, h)" "h < carrier" "carrier - h \<le> MAX_WEIGHT_PROOF_ANCHOR_LAG"
    and agrees: "\<forall>r \<in> set receipts. weight_agrees env w (filter (\<lambda>l. log_is_for env l n) (er_logs r))"
  shows "verify_against_recent env [p] [(n, w)] carrier resolve = Inr ()"
proof -
  have "weight_backed env [p] carrier resolve (n, w)"
    using generated_backed[OF gen src] voter agrees by (auto simp: weight_backed_def)
  then show ?thesis unfolding verify_recent_iff[OF fit] by simp
qed

section \<open>An instance\<close>

text \<open>A table in place of the hexadecimal encoding, a trie that is one fixed node, and the
  receipts of a block with one deposit of five by validator seven.\<close>

definition table_hex :: "bytes \<Rightarrow> string" where
  "table_hex bs = (if bs = be_bytes 32 (1 :: hash256) then drop 2 DEPOSIT_TOPIC
     else if bs = be_bytes 20 (2 :: 160 word) then drop 2 STAKING_ADDRESS else [])"

definition table_unhex :: "string \<Rightarrow> bytes option" where
  "table_unhex s = (if s = drop 2 STAKING_ADDRESS then Some (be_bytes 20 (2 :: 160 word))
     else if s = drop 2 DEPOSIT_TOPIC then Some (be_bytes 32 (1 :: hash256))
     else if s = ''07'' then Some (be_bytes 32 (7 :: hash256)) else Some [5])"

definition demo_log :: eth_log where
  "demo_log = \<lparr> lg_address = 2, lg_topics = [1, 7], lg_data = [5] \<rparr>"

definition demo_receipt :: eth_receipt where
  "demo_receipt = \<lparr> er_tx_type = Eip1559, er_success = True, er_cumulative_gas_used = 1, er_logs = [demo_log] \<rparr>"

definition demo_proof_env :: "u32 proof_env" where
  "demo_proof_env = \<lparr> pv_enhex = table_hex, pv_unhex = table_unhex, pv_encode = (\<lambda>_. [9]),
     pv_decode = (\<lambda>bs. if bs = [9] then Some demo_receipt else None), pv_trie_key = id, pv_adjust = (\<lambda>i _. i),
     pv_nodes = (\<lambda>_ _. [[1]]), pv_verify = (\<lambda>root k v nodes. root = 42 \<and> nodes = [[1]]) \<rparr>"

definition demo_source :: json where
  "demo_source = JArray [JObject [(''type'', JString ''0x2''), (''cumulativeGasUsed'', JString ''0x1''), (''logs'', JArray [JObject
     [(''address'', JString STAKING_ADDRESS), (''topics'', JArray [JString DEPOSIT_TOPIC, JString ''0x07'']),
      (''data'', JString ''0x05'')]])]]"

lemma be_bytes_20_32: "be_bytes 20 (a :: 160 word) \<noteq> be_bytes 32 (b :: hash256)"
proof
  assume e: "be_bytes 20 a = be_bytes 32 b"
  have "length (be_bytes 20 a) = length (be_bytes 32 b)" by (simp only: e)
  then show False by simp
qed

lemma demo_topics [simp]:
  "trim_0x STAKING_ADDRESS = drop 2 STAKING_ADDRESS" "trim_0x DEPOSIT_TOPIC = drop 2 DEPOSIT_TOPIC"
  "''0x'' @ drop 2 STAKING_ADDRESS = STAKING_ADDRESS" "''0x'' @ drop 2 DEPOSIT_TOPIC = DEPOSIT_TOPIC"
  "drop 2 DEPOSIT_TOPIC \<noteq> drop 2 STAKING_ADDRESS"
  "''07'' \<noteq> drop 2 STAKING_ADDRESS" "''07'' \<noteq> drop 2 DEPOSIT_TOPIC" "''05'' \<noteq> drop 2 STAKING_ADDRESS" "''05'' \<noteq> drop 2 DEPOSIT_TOPIC"
  by (simp_all add: STAKING_ADDRESS_def DEPOSIT_TOPIC_def)

lemma demo_hex_values [simp]: "from_str_radix_16 ''2'' = Some 2" "from_str_radix_16 ''1'' = Some 1"
  by (simp_all add: from_str_radix_16_def hex_digit_def)

lemma demo_parse: "parse_block_receipts demo_proof_env demo_source = Some [demo_receipt]"
  by (simp add: parse_block_receipts_def demo_source_def parse_one_receipt_def parse_one_log_def parse_address_def
      root_from_hex_def hex_or_zero_def hex_u64_def tx_type_of_def demo_proof_env_def table_unhex_def
      demo_receipt_def demo_log_def)

lemma demo_amount: "bytes_to_u64 [5] = 5"
  by code_simp

lemma demo_classify: "classify_log demo_proof_env demo_log = Some (LDeposit 5)"
  using demo_topics(3,4)
  by (simp add: classify_log_def demo_log_def demo_proof_env_def table_hex_def be_bytes_20_32 Let_def eq_ignore_ascii_case_def
      demo_amount)

lemma demo_log_for: "log_is_for demo_proof_env demo_log 7"
  by (simp add: log_is_for_def demo_classify) (simp add: log_node_id_def demo_log_def)

lemma demo_fit: "receipts_fit demo_proof_env"
  by (simp add: receipts_fit_def demo_proof_env_def demo_receipt_def)

definition demo_weight_proof :: weight_proof where
  "demo_weight_proof = \<lparr> wp_node_id = 7, wp_weight = 12, wp_anchor_block = 3, wp_receipt_index = 0, wp_receipt_2718 = [9], wp_proof_nodes = [[1]] \<rparr>"

lemma demo_generate: "generate_one demo_proof_env 7 12 3 demo_source = Some (Some demo_weight_proof)"
  by (simp add: generate_one_def demo_parse receipt_has_log_for_def demo_receipt_def demo_log_for)
    (simp add: build_receipt_proof_def demo_proof_env_def demo_weight_proof_def)

lemma demo_receipt_laws: "receipt_laws demo_proof_env 42 [demo_receipt]"
  by (auto simp: receipt_laws_def demo_proof_env_def build_receipt_proof_def Let_def)

lemma demo_agrees: "weight_agrees demo_proof_env 12 (filter (\<lambda>l. log_is_for demo_proof_env l 7) (er_logs demo_receipt))"
  by (simp add: demo_receipt_def demo_log_for weight_agrees_def demo_classify map_filter_simps)

abbreviation demo_resolve :: "hash256 \<Rightarrow> (hash256 \<times> height) option" where
  "demo_resolve \<equiv> [3 \<mapsto> (42, 10)]"

theorem generated_proof_accepted_witness:
  "verify_against_recent demo_proof_env [demo_weight_proof] [(7, 12)] 15 demo_resolve = Inr ()"
  by (rule generated_proof_accepted[OF demo_fit demo_generate demo_parse demo_receipt_laws, of demo_resolve 10])
    (simp_all add: demo_agrees MAX_WEIGHT_PROOF_ANCHOR_LAG_def)

theorem weight_claims_exact_witness:
  "verify_against_recent demo_proof_env [demo_weight_proof] [(7, 13)] 15 demo_resolve \<noteq> Inr ()"
  using weight_claims_exact[OF demo_fit, of "[demo_weight_proof]" "[(7, 13)]" 15 demo_resolve]
  by (simp add: weight_backed_def demo_weight_proof_def)

end
