(* ===== verification/Reth_App.thy ===== *)
theory Reth_App
  imports El_Registry Weight_Proof Evidence Endpoint_Registry
begin

text \<open>
  The application over an Ethereum execution client (\<open>boule-reth/src/application.rs\<close> with
  the engine calls of \<open>engine.rs\<close>). The client itself, JSON text, hashing and the
  encodings are third-party code, the fields of \<open>reth_env\<close>: a call takes the state of
  the client and returns an answer, \<open>None\<close> on an error, with its next state. Errors of
  the application are \<open>None\<close> as well. Subtractions on block numbers wrap, as in a
  release build.
\<close>

section \<open>State and environment\<close>

record ('t, 'n, 'g1, 'g2) reth_env =
  rn_rpc :: "string \<Rightarrow> json \<Rightarrow> 't \<Rightarrow> json option \<times> 't"
  rn_call :: "string \<Rightarrow> json \<Rightarrow> 't \<Rightarrow> json option \<times> 't"
  rn_proof :: "'n proof_env"
  rn_rot :: "('g1, 'g2) rotation_env"
  rn_xy :: "bls_pk \<Rightarrow> (384 word \<times> 384 word) option"
  rn_from_slice :: "bytes \<Rightarrow> json option"
  rn_to_vec :: "json \<Rightarrow> bytes option"
  rn_hp :: hash_prims

record 't reth_app =
  ra_transport :: 't
  ra_self_id :: node_id
  ra_fee_recipient :: string
  ra_reth_genesis_hash :: string
  ra_committed_height :: height
  ra_committed_root :: hash256
  ra_stake_source :: bonded_stake_ledger
  ra_mempool :: in_memory_mempool
  ra_pending_weights :: "(node_id, u64) btree_map"
  ra_recent_committed :: "(hash256 \<times> string) list"

definition SYSTEM_TX_LIMIT :: nat where
  "SYSTEM_TX_LIMIT = 16"

abbreviation rn_unhex :: "('t, 'n, 'g1, 'g2) reth_env \<Rightarrow> string \<Rightarrow> bytes option" where
  "rn_unhex env \<equiv> pv_unhex (rn_proof env)"

section \<open>Engine calls\<close>

definition zero32 :: string where
  "zero32 = ''0x'' @ concat (replicate 32 ''00'')"

definition forkchoice_state :: "string \<Rightarrow> json" where
  "forkchoice_state h = JObject [(''headBlockHash'', JString h), (''safeBlockHash'', JString h), (''finalizedBlockHash'', JString h)]"

definition register_payload :: "('t, 'n, 'g1, 'g2) reth_env \<Rightarrow> json \<Rightarrow> 't \<Rightarrow> el_status option \<times> 't" where
  "register_payload env pl t =
     (case rn_call env ''engine_newPayloadV4'' (JArray [pl, JArray [], JString zero32, JArray []]) t of
        (None, t1) \<Rightarrow> (None, t1)
      | (Some executed, t1) \<Rightarrow> (payload_status (jget executed ''status''), t1))"

definition forkchoice :: "('t, 'n, 'g1, 'g2) reth_env \<Rightarrow> json \<Rightarrow> 't \<Rightarrow> el_status option \<times> 't" where
  "forkchoice env pl t =
     (case as_str (jget pl ''blockHash'') of
        None \<Rightarrow> (None, t)
      | Some h \<Rightarrow>
          (case rn_call env ''engine_forkchoiceUpdatedV3'' (JArray [forkchoice_state h, JNull]) t of
             (None, t1) \<Rightarrow> (None, t1)
           | (Some finalized, t1) \<Rightarrow> (payload_status (jget (jget finalized ''payloadStatus'') ''status''), t1)))"

text \<open>Executing a payload and making it canonical in one call; both answers must be valid.\<close>

definition engine_commit_block :: "('t, 'n, 'g1, 'g2) reth_env \<Rightarrow> json \<Rightarrow> 't \<Rightarrow> (string \<times> el_status) option \<times> 't" where
  "engine_commit_block env pl t =
     (case rn_call env ''engine_newPayloadV4'' (JArray [pl, JArray [], JString zero32, JArray []]) t of
        (None, t1) \<Rightarrow> (None, t1)
      | (Some executed, t1) \<Rightarrow>
          (case payload_status (jget executed ''status'') of
             None \<Rightarrow> (None, t1)
           | Some exec_status \<Rightarrow>
               (case as_str (jget pl ''blockHash'') of
                  None \<Rightarrow> (None, t1)
                | Some h \<Rightarrow>
                    (case rn_call env ''engine_forkchoiceUpdatedV3'' (JArray [forkchoice_state h, JNull]) t1 of
                       (None, t2) \<Rightarrow> (None, t2)
                     | (Some finalized, t2) \<Rightarrow>
                         (map_option (\<lambda>fcu_status.
                            (h, if exec_status = Valid \<and> fcu_status = Valid then Valid else Syncing))
                            (payload_status (jget (jget finalized ''payloadStatus'') ''status'')), t2)))))"

record built_block =
  bb_execution_payload :: json
  bb_block_hash :: string
  bb_state_root :: string
  bb_block_number :: u64
  bb_tx_count :: nat

definition build_attrs :: "string \<Rightarrow> u64 \<Rightarrow> string \<Rightarrow> json" where
  "build_attrs fee ts registry =
     JObject ([(''timestamp'', JString (''0x'' @ hex_digits (unat ts))), (''prevRandao'', JString zero32),
       (''suggestedFeeRecipient'', JString fee), (''withdrawals'', JArray []), (''parentBeaconBlockRoot'', JString zero32)]
       @ (if registry \<noteq> [] then [(''registryPayload'', JString registry)] else []))"

definition built_of_payload :: "json \<Rightarrow> built_block option" where
  "built_of_payload pl =
     do { h \<leftarrow> as_str (jget pl ''blockHash'');
          r \<leftarrow> as_str (jget pl ''stateRoot'');
          n \<leftarrow> hex_u64 (jget pl ''blockNumber'');
          Some \<lparr> bb_execution_payload = pl, bb_block_hash = h, bb_state_root = r, bb_block_number = n,
                 bb_tx_count = (case as_array (jget pl ''transactions'') of Some a \<Rightarrow> length a | None \<Rightarrow> 0) \<rparr> }"

definition build_block ::
  "('t, 'n, 'g1, 'g2) reth_env \<Rightarrow> string \<Rightarrow> string \<Rightarrow> u64 \<Rightarrow> string \<Rightarrow> 't \<Rightarrow> built_block option \<times> 't" where
  "build_block env fee head ts registry t =
     (case rn_call env ''engine_forkchoiceUpdatedV3'' (JArray [forkchoice_state head, build_attrs fee ts registry]) t of
        (None, t1) \<Rightarrow> (None, t1)
      | (Some started, t1) \<Rightarrow>
          if \<not> expect_valid (jget (jget started ''payloadStatus'') ''status'') then (None, t1)
          else (case as_str (jget started ''payloadId'') of
                  None \<Rightarrow> (None, t1)
                | Some pid \<Rightarrow>
                    (case rn_call env ''engine_getPayloadV4'' (JArray [JString pid]) t1 of
                       (None, t2) \<Rightarrow> (None, t2)
                     | (Some got, t2) \<Rightarrow> (built_of_payload (jget got ''executionPayload''), t2))))"

section \<open>Reading blocks\<close>

definition state_root_of :: "('t, 'n, 'g1, 'g2) reth_env \<Rightarrow> json \<Rightarrow> hash256 option" where
  "state_root_of env pl = Option.bind (as_str (jget pl ''stateRoot'')) (root_from_hex (rn_unhex env))"

definition parse_block_number :: "json \<Rightarrow> u64 option" where
  "parse_block_number v = hex_u64 v"

definition first_payload :: "('t, 'n, 'g1, 'g2) reth_env \<Rightarrow> block \<Rightarrow> json option" where
  "first_payload env b = (case commands b of [] \<Rightarrow> None | cmd # _ \<Rightarrow> rn_from_slice env cmd)"

definition block_receipts_root :: "('t, 'n, 'g1, 'g2) reth_env \<Rightarrow> block \<Rightarrow> hash256 option" where
  "block_receipts_root env b =
     do { pl \<leftarrow> first_payload env b;
          r \<leftarrow> as_str (jget pl ''receiptsRoot'');
          root_from_hex (rn_unhex env) r }"

definition extra_data_registry_payload :: "('t, 'n, 'g1, 'g2) reth_env \<Rightarrow> json \<Rightarrow> registry_payload option" where
  "extra_data_registry_payload env pl =
     do { s \<leftarrow> as_str (jget pl ''extraData'');
          bs \<leftarrow> rn_unhex env (trim_0x s);
          rp_decode bs }"

definition registry_keys_from_commands :: "('t, 'n, 'g1, 'g2) reth_env \<Rightarrow> bytes list \<Rightarrow> record_key list" where
  "registry_keys_from_commands env cmds =
     List.map_filter (\<lambda>c. case record_key_for_rotation (rn_rot env) (rn_xy env) c of Inr rk \<Rightarrow> rk | Inl _ \<Rightarrow> None) cmds"

definition evm_block_hash_of :: "('t, 'n, 'g1, 'g2) reth_env \<Rightarrow> block \<Rightarrow> string option" where
  "evm_block_hash_of env b = Option.bind (first_payload env b) (\<lambda>p. as_str (jget p ''blockHash''))"

definition parent_evm_anchor :: "('t, 'n, 'g1, 'g2) reth_env \<Rightarrow> 't reth_app \<Rightarrow> block \<Rightarrow> (string \<times> u64) option" where
  "parent_evm_anchor env s parent =
     (case commands parent of
        [] \<Rightarrow> Some (ra_reth_genesis_hash s, 0)
      | cmd # _ \<Rightarrow>
          do { pl \<leftarrow> rn_from_slice env cmd;
               h \<leftarrow> as_str (jget pl ''blockHash'');
               ts \<leftarrow> hex_u64 (jget pl ''timestamp'');
               Some (h, ts) })"

text \<open>Both walks up the pending blocks end when the committed height is reached or a parent is
  missing; on a cyclic cache they would not end. The fuel is one more than the height
  of the start, and running out of it is the outer \<open>None\<close>; \<open>walks_return\<close> below shows
  that it suffices whenever parents are lower than their children.\<close>

fun uncommitted_walk :: "nat \<Rightarrow> (hash256, block) hmap \<Rightarrow> height \<Rightarrow> block \<Rightarrow> block list option" where
  "uncommitted_walk 0 pending h cursor = None"
| "uncommitted_walk (Suc n) pending h cursor =
     (if hdr_height (header cursor) > h
      then (case hm_get pending (parent_hash (header cursor)) of
              Some p \<Rightarrow> map_option ((#) cursor) (uncommitted_walk n pending h p) | None \<Rightarrow> Some [cursor])
      else Some [])"

definition walk_fuel :: "block \<Rightarrow> nat" where
  "walk_fuel b = unat (hdr_height (header b)) + 1"

definition uncommitted_chain :: "block \<Rightarrow> (hash256, block) hmap \<Rightarrow> height \<Rightarrow> block list option" where
  "uncommitted_chain parent pending h = map_option rev (uncommitted_walk (walk_fuel parent) pending h parent)"

fun candidate_walk ::
  "('t, 'n, 'g1, 'g2) reth_env \<Rightarrow> nat \<Rightarrow> (hash256, block) hmap \<Rightarrow> height \<Rightarrow> block
     \<Rightarrow> (hash256 \<times> string) list \<Rightarrow> (hash256 \<times> string) list option" where
  "candidate_walk env 0 pending h cursor out = None"
| "candidate_walk env (Suc n) pending h cursor out =
     (if length out \<ge> unat MAX_WEIGHT_PROOF_ANCHOR_LAG \<or> hdr_height (header cursor) \<le> h then Some out
      else (case hm_get pending (parent_hash (header cursor)) of
              None \<Rightarrow> Some out
            | Some nxt \<Rightarrow>
                candidate_walk env n pending h nxt
                  (case evm_block_hash_of env nxt of
                     Some e \<Rightarrow> out @ [(block_hash_of (rn_hp env) nxt, e)] | None \<Rightarrow> out)))"

fun add_recent :: "(hash256 \<times> string) list \<Rightarrow> (hash256 \<times> string) list \<Rightarrow> (hash256 \<times> string) list" where
  "add_recent [] out = out"
| "add_recent ((h, e) # rs) out =
     (if length out \<ge> unat MAX_WEIGHT_PROOF_ANCHOR_LAG then out
      else if list_ex (\<lambda>(h', _). h' = h) out then add_recent rs out
      else add_recent rs (out @ [(h, e)]))"

definition weight_proof_source_candidates ::
  "('t, 'n, 'g1, 'g2) reth_env \<Rightarrow> block \<Rightarrow> (hash256, block) hmap \<Rightarrow> height \<Rightarrow> string
     \<Rightarrow> (hash256 \<times> string) list \<Rightarrow> (hash256 \<times> string) list option" where
  "weight_proof_source_candidates env parent pending h parent_evm recent =
     map_option (add_recent (rev recent))
       (candidate_walk env (walk_fuel parent) pending h parent [(block_hash_of (rn_hp env) parent, parent_evm)])"

section \<open>The registry payload of a proposal\<close>

text \<open>The keys a proposer announces, collected in a loop of its own; the voter derives them
  with \<open>registry_keys_from_commands\<close>.\<close>

fun keys_for_build :: "('t, 'n, 'g1, 'g2) reth_env \<Rightarrow> record_key list \<Rightarrow> bytes list \<Rightarrow> record_key list" where
  "keys_for_build env keys [] = keys"
| "keys_for_build env keys (cmd # cmds) =
     (case record_key_for_rotation (rn_rot env) (rn_xy env) cmd of
        Inr (Some rk) \<Rightarrow> keys_for_build env (keys @ [rk]) cmds
      | Inr None \<Rightarrow> keys_for_build env keys cmds
      | Inl _ \<Rightarrow> keys_for_build env keys cmds)"

definition registry_payload_for_build ::
  "('t, 'n, 'g1, 'g2) reth_env \<Rightarrow> 't reth_app \<Rightarrow> view \<Rightarrow> bytes list \<Rightarrow> registry_payload" where
  "registry_payload_for_build env s v cmds =
     (let settled = conservative_settled_view v;
          settled_view = (if settled = 0 then None else Some settled);
          keys = keys_for_build env [] cmds;
          weights = map (\<lambda>(n, w). \<lparr> vu_node_id = n, vu_weight = w \<rparr>) (ra_pending_weights s) in
      rp_new keys weights settled_view)"

text \<open>What the execution client (\<open>boule-reth-node\<close>) puts into the extra data of a block that it
  builds: the bytes of the attribute, or its default when there are none.\<close>

definition registry_extra_data :: "(string \<Rightarrow> bytes option) \<Rightarrow> string \<Rightarrow> bytes" where
  "registry_extra_data unhex attribute =
     (let s = trim_0x attribute in
      if s = [] then [] else (case unhex s of Some b \<Rightarrow> b | None \<Rightarrow> []))"

definition extra_data_for :: "(string \<Rightarrow> bytes option) \<Rightarrow> bytes \<Rightarrow> string \<Rightarrow> bytes" where
  "extra_data_for unhex default_extra_data attribute =
     (let registry = registry_extra_data unhex attribute in
      if registry = [] then default_extra_data else registry)"

definition settled_for :: "view \<Rightarrow> view option" where
  "settled_for v = (let s = conservative_settled_view v in if s = 0 then None else Some s)"

datatype validate_error =
    NotJsonPayload | KeyMismatch nat nat | SettledViewMismatch "view option" "view option" | WeightRejected weight_error

definition validate_weight_proofs ::
  "('t, 'n, 'g1, 'g2) reth_env \<Rightarrow> block \<Rightarrow> (hash256 \<Rightarrow> block option) \<Rightarrow> (node_id \<times> u64) list \<Rightarrow> weight_error + unit" where
  "validate_weight_proofs env b recent ws =
     (if ws = [] then Inr ()
      else
        let ps = (case Option.bind (find is_weight_proof_command (commands b)) wps_decode of Some s \<Rightarrow> s | None \<Rightarrow> []);
            resolve = (\<lambda>anchor. do { src \<leftarrow> recent anchor; root \<leftarrow> block_receipts_root env src; Some (root, hdr_height (header src)) }) in
        verify_against_recent (rn_proof env) ps ws (hdr_height (header b)) resolve)"

definition validate_registry_extra_data ::
  "('t, 'n, 'g1, 'g2) reth_env \<Rightarrow> block \<Rightarrow> (hash256 \<Rightarrow> block option) \<Rightarrow> validate_error + unit" where
  "validate_registry_extra_data env b recent =
     (case commands b of
        [] \<Rightarrow> Inr ()
      | cmd # _ \<Rightarrow>
          (case rn_from_slice env cmd of
             None \<Rightarrow> Inl NotJsonPayload
           | Some pl \<Rightarrow>
               (let proposed = extra_data_registry_payload env pl;
                    expected_keys = registry_keys_from_commands env (commands b);
                    expected_settled = settled_for (hdr_view (header b));
                    keys = (case proposed of Some p \<Rightarrow> rp_keys p | None \<Rightarrow> []);
                    settled = Option.bind proposed rp_settled_view in
                if keys \<noteq> expected_keys then Inl (KeyMismatch (length keys) (length expected_keys))
                else if settled \<noteq> expected_settled then Inl (SettledViewMismatch settled expected_settled)
                else (case validate_weight_proofs env b recent (case proposed of Some p \<Rightarrow> rp_weights p | None \<Rightarrow> []) of
                        Inl e \<Rightarrow> Inl (WeightRejected e)
                      | Inr _ \<Rightarrow> Inr ()))))"

section \<open>Weight proofs of a proposal\<close>

text \<open>The inner loop: the first candidate with a receipt for the node; the receipts of a
  candidate are fetched once. The outer \<open>None\<close> is an error of \<open>generate_one\<close>.\<close>

fun try_candidates ::
  "('t, 'n, 'g1, 'g2) reth_env \<Rightarrow> node_id \<Rightarrow> u64 \<Rightarrow> nat \<Rightarrow> (hash256 \<times> string) list \<Rightarrow> json option list \<Rightarrow> 't
     \<Rightarrow> weight_proof option option \<times> json option list \<times> 't" where
  "try_candidates env n w i [] cache t = (Some None, cache, t)"
| "try_candidates env n w i ((bh, eh) # cs) cache t =
     (case (case cache ! i of
              Some r \<Rightarrow> (r, t)
            | None \<Rightarrow> (case rn_rpc env ''eth_getBlockReceipts'' (JArray [JString eh]) t of
                         (Some r, t1) \<Rightarrow> (r, t1) | (None, t1) \<Rightarrow> (JArray [], t1))) of
        (receipts, t1) \<Rightarrow>
          (let cache1 = cache[i := Some receipts] in
           case generate_one (rn_proof env) n w bh receipts of
             None \<Rightarrow> (None, cache1, t1)
           | Some (Some p) \<Rightarrow> (Some (Some p), cache1, t1)
           | Some None \<Rightarrow> try_candidates env n w (i + 1) cs cache1 t1))"

fun build_proofs_loop ::
  "('t, 'n, 'g1, 'g2) reth_env \<Rightarrow> (node_id \<times> u64) list \<Rightarrow> (hash256 \<times> string) list \<Rightarrow> json option list \<Rightarrow> 't
     \<Rightarrow> weight_proof_set option \<times> 't" where
  "build_proofs_loop env [] cands cache t = (Some [], t)"
| "build_proofs_loop env ((n, w) # ws) cands cache t =
     (case try_candidates env n w 0 cands cache t of
        (None, cache1, t1) \<Rightarrow> (None, t1)
      | (Some p, cache1, t1) \<Rightarrow>
          (case build_proofs_loop env ws cands cache1 t1 of
             (None, t2) \<Rightarrow> (None, t2)
           | (Some ps, t2) \<Rightarrow> (Some (case p of Some q \<Rightarrow> q # ps | None \<Rightarrow> ps), t2)))"

definition build_weight_proofs ::
  "('t, 'n, 'g1, 'g2) reth_env \<Rightarrow> (node_id \<times> u64) list \<Rightarrow> (hash256 \<times> string) list \<Rightarrow> 't \<Rightarrow> weight_proof_set option \<times> 't" where
  "build_weight_proofs env ws cands t = build_proofs_loop env ws cands (replicate (length cands) None) t"

section \<open>Proposing\<close>

fun register_ancestors :: "('t, 'n, 'g1, 'g2) reth_env \<Rightarrow> block list \<Rightarrow> 't \<Rightarrow> unit option \<times> 't" where
  "register_ancestors env [] t = (Some (), t)"
| "register_ancestors env (b # bs) t =
     (case commands b of
        [] \<Rightarrow> register_ancestors env bs t
      | cmd # _ \<Rightarrow>
          (case rn_from_slice env cmd of
             None \<Rightarrow> (None, t)
           | Some pl \<Rightarrow>
               (case register_payload env pl t of
                  (Some Valid, t1) \<Rightarrow> register_ancestors env bs t1
                | (_, t1) \<Rightarrow> (None, t1))))"

definition is_system_command :: "bytes \<Rightarrow> bool" where
  "is_system_command c \<longleftrightarrow>
     is_reconfig_payload c \<or> is_rotation_payload c \<or> is_cancel_payload c \<or> is_operator_rotation_payload c
     \<or> is_operator_key_rotation_payload c \<or> is_evidence_payload c \<or> is_endpoint_payload c \<or> is_param_update_payload c"

text \<open>The command with the weight proofs, when there are any.\<close>

definition proof_commands ::
  "('t, 'n, 'g1, 'g2) reth_env \<Rightarrow> registry_payload \<Rightarrow> (hash256 \<times> string) list option \<Rightarrow> 't \<Rightarrow> (bytes list \<times> 't) option" where
  "proof_commands env rp cands t =
     (if rp_weights rp = [] then Some ([], t)
      else (case cands of
              None \<Rightarrow> None
            | Some cs \<Rightarrow> Some
                (case build_weight_proofs env (rp_weights rp) cs t of
                   (None, t1) \<Rightarrow> ([], t1)
                 | (Some ps, t1) \<Rightarrow> (if ps = [] then [] else [wps_encode ps], t1))))"

text \<open>Building the execution payload and registering it, the part between the walk and the
  weight proofs.\<close>

definition build_payload ::
  "('t, 'n, 'g1, 'g2) reth_env \<Rightarrow> 't reth_app \<Rightarrow> string \<Rightarrow> u64 \<Rightarrow> registry_payload \<Rightarrow> 't \<Rightarrow> (built_block \<times> bytes) option \<times> 't" where
  "build_payload env s parent_evm_hash evm_ts rp t =
     (case build_block env (ra_fee_recipient s) parent_evm_hash evm_ts (to_attribute_hex (pv_enhex (rn_proof env)) rp) t of
        (None, t1) \<Rightarrow> (None, t1)
      | (Some built, t1) \<Rightarrow>
          (case register_payload env (bb_execution_payload built) t1 of
             (None, t2) \<Rightarrow> (None, t2)
           | (Some _, t2) \<Rightarrow>
               (case rn_to_vec env (bb_execution_payload built) of
                  None \<Rightarrow> (None, t2)
                | Some evm \<Rightarrow> (Some (built, evm), t2))))"

definition proposal_block ::
  "('t, 'n, 'g1, 'g2) reth_env \<Rightarrow> 't reth_app \<Rightarrow> block \<Rightarrow> view \<Rightarrow> u64 \<Rightarrow> hash256 \<Rightarrow> bytes list \<Rightarrow> block" where
  "proposal_block env s parent v ts root cmds =
     \<lparr> header =
         \<lparr> parent_hash = block_hash_of (rn_hp env) parent, hdr_height = hdr_height (header parent) + 1,
           hdr_view = v, proposer = ra_self_id s, state_commitment = root,
           commands_commitment = commands_commitment_of (rn_hp env) cmds,
           validator_history_commitment = 0, committed_height = ra_committed_height s,
           committed_state_root = ra_committed_root s, timestamp = max ts (timestamp (header parent)) \<rparr>,
       commands = cmds \<rparr>"

definition build_proposal ::
  "('t, 'n, 'g1, 'g2) reth_env \<Rightarrow> 't reth_app \<Rightarrow> block \<Rightarrow> view \<Rightarrow> (hash256, block) hmap \<Rightarrow> u64
     \<Rightarrow> (block option \<times> 't reth_app) option" where
  "build_proposal env s parent v pending ts =
     (case parent_evm_anchor env s parent of
        None \<Rightarrow> Some (None, s)
      | Some (parent_evm_hash, parent_evm_ts) \<Rightarrow>
      (case uncommitted_chain parent pending (ra_committed_height s) of
         None \<Rightarrow> None
       | Some chain \<Rightarrow>
       (case register_ancestors env chain (ra_transport s) of
          (None, t1) \<Rightarrow> Some (None, s\<lparr> ra_transport := t1 \<rparr>)
        | (Some _, t1) \<Rightarrow>
        (let cmds = mp_propose SYSTEM_TX_LIMIT (ra_mempool s);
             rp = registry_payload_for_build env s v cmds in
         case build_payload env s parent_evm_hash (max (parent_evm_ts + 1) (ts div 1000)) rp t1 of
           (None, t2) \<Rightarrow> Some (None, s\<lparr> ra_transport := t2 \<rparr>)
         | (Some (built, evm), t2) \<Rightarrow>
         (case proof_commands env rp
                 (weight_proof_source_candidates env parent pending (ra_committed_height s) parent_evm_hash
                    (ra_recent_committed s)) t2 of
            None \<Rightarrow> None
          | Some (proofs, t3) \<Rightarrow> Some
              (map_option (\<lambda>root. proposal_block env s parent v ts root (evm # filter is_system_command cmds @ proofs))
                 (root_from_hex (rn_unhex env) (bb_state_root built)),
               s\<lparr> ra_transport := t3 \<rparr>))))))"

end
