(* ===== verification/Reth_Commit.thy ===== *)
theory Reth_Commit
  imports Reth_App
begin

text \<open>
  Committing a block on the execution client (\<open>boule-reth/src/application.rs\<close>): the
  frontier moves only when the client has executed the block, the stake ledger follows
  the logs of the block and of blocks the client synchronised itself, and the weights to
  seat are kept until a committed payload carried them.
\<close>

section \<open>Weights to seat\<close>

definition carried_weights :: "('t, 'n, 'g1, 'g2) reth_env \<Rightarrow> json \<Rightarrow> (node_id \<times> u64) list" where
  "carried_weights env pl = (case extra_data_registry_payload env pl of Some p \<Rightarrow> rp_weights p | None \<Rightarrow> [])"

definition detect_weight_extra_data_divergence :: "('t, 'n, 'g1, 'g2) reth_env \<Rightarrow> json \<Rightarrow> 't reth_app \<Rightarrow> bool" where
  "detect_weight_extra_data_divergence env pl s =
     list_ex (\<lambda>(v, w). bt_get (ra_pending_weights s) v \<noteq> Some w) (carried_weights env pl)"

fun drop_carried :: "(node_id \<times> u64) list \<Rightarrow> (node_id, u64) btree_map \<Rightarrow> (node_id, u64) btree_map" where
  "drop_carried [] m = m"
| "drop_carried ((v, w) # cs) m = drop_carried cs (if bt_get m v = Some w then bt_remove v m else m)"

definition add_updates :: "validator_update list \<Rightarrow> (node_id, u64) btree_map \<Rightarrow> (node_id, u64) btree_map" where
  "add_updates us m = fold (\<lambda>u. bt_insert (vu_node_id u) (vu_weight u)) us m"

definition reconcile_pending_weights ::
  "('t, 'n, 'g1, 'g2) reth_env \<Rightarrow> json \<Rightarrow> validator_update list \<Rightarrow> 't reth_app \<Rightarrow> 't reth_app" where
  "reconcile_pending_weights env pl us s =
     s\<lparr> ra_pending_weights := add_updates us (drop_carried (carried_weights env pl) (ra_pending_weights s)) \<rparr>"

section \<open>Logs of a block\<close>

fun get_logs_attempts :: "('t, 'n, 'g1, 'g2) reth_env \<Rightarrow> json \<Rightarrow> nat \<Rightarrow> 't \<Rightarrow> json option \<times> 't" where
  "get_logs_attempts env flt 0 t = (None, t)"
| "get_logs_attempts env flt (Suc n) t =
     (case rn_rpc env ''eth_getLogs'' flt t of
        (Some logs, t1) \<Rightarrow> (Some logs, t1)
      | (None, t1) \<Rightarrow> get_logs_attempts env flt n t1)"

definition get_logs_retry :: "('t, 'n, 'g1, 'g2) reth_env \<Rightarrow> json \<Rightarrow> 't \<Rightarrow> json option \<times> 't" where
  "get_logs_retry env flt t = get_logs_attempts env flt 4 t"

text \<open>Logs that stay unavailable are read as none.\<close>

definition fetch_parsed :: "('t, 'n, 'g1, 'g2) reth_env \<Rightarrow> json \<Rightarrow> (json \<Rightarrow> 'a list) \<Rightarrow> 't \<Rightarrow> 'a list \<times> 't" where
  "fetch_parsed env flt parse t =
     (case get_logs_retry env flt t of (Some logs, t1) \<Rightarrow> (parse logs, t1) | (None, t1) \<Rightarrow> ([], t1))"

text \<open>The events of a block for the stake source, in the order they are applied.\<close>

definition stake_events :: "height \<Rightarrow> (node_id \<times> stake_op) list \<Rightarrow> node_id list \<Rightarrow> stake_event list" where
  "stake_events h ops slashed = EAdvance h # map (\<lambda>(n, op). EApply n op) ops @ map ESlash slashed"

definition derive_validator_updates ::
  "('t, 'n, 'g1, 'g2) reth_env \<Rightarrow> json \<Rightarrow> height \<Rightarrow> 't reth_app \<Rightarrow> validator_update list \<times> 't reth_app" where
  "derive_validator_updates env pl h s =
     (case (case as_str (jget pl ''blockHash'') of
              None \<Rightarrow> ([], [], ra_transport s)
            | Some bh \<Rightarrow>
                (case fetch_parsed env (logs_filter STAKING_ADDRESS staking_topics bh) (parse_stake_logs (rn_unhex env)) (ra_transport s) of
                   (ops, t1) \<Rightarrow>
                     (case fetch_parsed env (logs_filter SLASHING_ADDRESS slashing_topics bh) (parse_slashed_logs (rn_unhex env)) t1 of
                        (slashed, t2) \<Rightarrow> (ops, slashed, t2)))) of
        (ops, slashed, t) \<Rightarrow>
          (case bl_take_updates (fold bl_event (stake_events h ops slashed) (ra_stake_source s)) of
             (us, l) \<Rightarrow> (us, s\<lparr> ra_transport := t, ra_stake_source := l \<rparr>)))"

definition derive_predeploy_effects ::
  "('t, 'n, 'g1, 'g2) reth_env \<Rightarrow> json \<Rightarrow> (json \<Rightarrow> bytes list) \<Rightarrow> (bytes \<Rightarrow> validator_effect) \<Rightarrow> 't \<Rightarrow> validator_effect list \<times> 't" where
  "derive_predeploy_effects env flt parse wrap t =
     (case fetch_parsed env flt parse t of (cmds, t1) \<Rightarrow> (map wrap cmds, t1))"

definition command_topics :: "string \<Rightarrow> json" where
  "command_topics topic = JArray [JArray [JString topic]]"

text \<open>The four predeployed contracts in turn; \<open>flt\<close> builds the filter from an address and the
  topics. A payload without a block hash has no effects.\<close>

definition derive_effects_with ::
  "('t, 'n, 'g1, 'g2) reth_env \<Rightarrow> (string \<Rightarrow> json \<Rightarrow> json) \<Rightarrow> 't \<Rightarrow> validator_effect list \<times> 't" where
  "derive_effects_with env flt t =
     (case derive_predeploy_effects env (flt ROTATION_ADDRESS (command_topics ROTATION_TOPIC)) (parse_rotation_logs (rn_unhex env)) KeyRotation t of
        (e1, t1) \<Rightarrow>
      (case derive_predeploy_effects env (flt ENDPOINT_ADDRESS (command_topics ENDPOINT_TOPIC)) (parse_endpoint_logs (rn_unhex env)) EndpointUpdate t1 of
        (e2, t2) \<Rightarrow>
      (case derive_predeploy_effects env (flt PARAM_ADDRESS (command_topics PARAM_TOPIC)) (parse_param_logs (rn_unhex env)) ParamUpdate t2 of
        (e3, t3) \<Rightarrow>
      (case derive_predeploy_effects env (flt GOVERNANCE_ADDRESS (command_topics APPROVED_TOPIC)) (parse_approved_logs (rn_unhex env)) ReconfigEffect t3 of
        (e4, t4) \<Rightarrow> (e1 @ e2 @ e3 @ e4, t4)))))"

definition derive_block_effects :: "('t, 'n, 'g1, 'g2) reth_env \<Rightarrow> json \<Rightarrow> 't \<Rightarrow> validator_effect list \<times> 't" where
  "derive_block_effects env pl t =
     (case as_str (jget pl ''blockHash'') of
        None \<Rightarrow> ([], t)
      | Some bh \<Rightarrow> derive_effects_with env (\<lambda>a ts. logs_filter a ts bh) t)"

definition derive_gap_predeploy_effects :: "('t, 'n, 'g1, 'g2) reth_env \<Rightarrow> u64 \<Rightarrow> 't \<Rightarrow> validator_effect list \<times> 't" where
  "derive_gap_predeploy_effects env n t = derive_effects_with env (\<lambda>a ts. logs_filter_by_number a ts n) t"

section \<open>Blocks the client synchronised itself\<close>

definition gap_step ::
  "('t, 'n, 'g1, 'g2) reth_env \<Rightarrow> u64 \<Rightarrow> height \<Rightarrow> height \<Rightarrow> 't reth_app \<Rightarrow> validator_effect list \<times> 't reth_app" where
  "gap_step env current height h s =
     (let n = current - (height - h) in
      case fetch_parsed env (logs_filter_by_number STAKING_ADDRESS staking_topics n) (parse_stake_logs (rn_unhex env)) (ra_transport s) of
        (ops, t1) \<Rightarrow>
      (case fetch_parsed env (logs_filter_by_number SLASHING_ADDRESS slashing_topics n) (parse_slashed_logs (rn_unhex env)) t1 of
        (slashed, t2) \<Rightarrow>
      (case derive_gap_predeploy_effects env n t2 of
        (es, t3) \<Rightarrow> (es, s\<lparr> ra_transport := t3,
           ra_stake_source := fold bl_event (stake_events h ops slashed) (ra_stake_source s) \<rparr>))))"

fun gap_loop ::
  "('t, 'n, 'g1, 'g2) reth_env \<Rightarrow> u64 \<Rightarrow> height \<Rightarrow> height list \<Rightarrow> 't reth_app \<Rightarrow> validator_effect list \<times> 't reth_app" where
  "gap_loop env current height [] s = ([], s)"
| "gap_loop env current height (h # hs) s =
     (case gap_step env current height h s of (es, s1) \<Rightarrow>
      (case gap_loop env current height hs s1 of (fs, s2) \<Rightarrow> (es @ fs, s2)))"

definition backfill_self_synced_gap ::
  "('t, 'n, 'g1, 'g2) reth_env \<Rightarrow> json \<Rightarrow> height \<Rightarrow> height \<Rightarrow> 't reth_app \<Rightarrow> validator_effect list \<times> 't reth_app" where
  "backfill_self_synced_gap env pl prev height s =
     (if height \<le> prev + 1 then ([], s)
      else (case hex_u64 (jget pl ''blockNumber'') of
              None \<Rightarrow> ([], s)
            | Some current \<Rightarrow> gap_loop env current height (map of_nat [unat (prev + 1) ..< unat height]) s))"

section \<open>Committing\<close>

definition default_commit_result :: commit_result where
  "default_commit_result = \<lparr> cr_validator_updates = [], cr_effects = [], cr_app_data = None \<rparr>"

definition RECENT_CAP :: nat where
  "RECENT_CAP = unat MAX_WEIGHT_PROOF_ANCHOR_LAG + 2"

fun trim_ring :: "'a list \<Rightarrow> 'a list" where
  "trim_ring [] = []"
| "trim_ring (x # xs) = (if length (x # xs) > RECENT_CAP then trim_ring xs else x # xs)"

definition push_recent :: "hash256 \<Rightarrow> json \<Rightarrow> 't reth_app \<Rightarrow> 't reth_app" where
  "push_recent bh pl s =
     (case as_str (jget pl ''blockHash'') of
        None \<Rightarrow> s
      | Some evm \<Rightarrow> s\<lparr> ra_recent_committed := trim_ring (ra_recent_committed s @ [(bh, evm)]) \<rparr>)"

text \<open>The status of the client for a payload: executed, then made canonical.\<close>

definition execute_payload :: "('t, 'n, 'g1, 'g2) reth_env \<Rightarrow> json \<Rightarrow> 't \<Rightarrow> el_status option \<times> 't" where
  "execute_payload env pl t =
     (case register_payload env pl t of
        (None, t1) \<Rightarrow> (None, t1)
      | (Some Valid, t1) \<Rightarrow> forkchoice env pl t1
      | (Some Syncing, t1) \<Rightarrow> (Some Syncing, t1))"

text \<open>The part of \<open>commit\<close> behind a valid status.\<close>

definition commit_valid ::
  "('t, 'n, 'g1, 'g2) reth_env \<Rightarrow> block \<Rightarrow> json \<Rightarrow> hash256 \<Rightarrow> 't reth_app \<Rightarrow> commit_result \<times> 't reth_app" where
  "commit_valid env b pl root s =
     (let prev = ra_committed_height s;
          s1 = s\<lparr> ra_committed_height := hdr_height (header b), ra_committed_root := root \<rparr> in
      case backfill_self_synced_gap env pl prev (hdr_height (header b)) s1 of
        (gap_effects, s2) \<Rightarrow>
      (let s3 = push_recent (block_hash_of (rn_hp env) b) pl s2 in
       case derive_validator_updates env pl (hdr_height (header b)) s3 of
         (us, s4) \<Rightarrow>
       (let s5 = reconcile_pending_weights env pl us s4 in
        case derive_block_effects env pl (ra_transport s5) of
          (effects, t) \<Rightarrow>
          (\<lparr> cr_validator_updates = us, cr_effects = gap_effects @ effects, cr_app_data = None \<rparr>, s5\<lparr> ra_transport := t \<rparr>))))"

definition app_commit ::
  "('t, 'n, 'g1, 'g2) reth_env \<Rightarrow> block \<Rightarrow> 't reth_app \<Rightarrow> commit_result option \<times> 't reth_app" where
  "app_commit env b s =
     (case commands b of
        [] \<Rightarrow> (Some default_commit_result, s)
      | cmd # _ \<Rightarrow>
          (case rn_from_slice env cmd of
             None \<Rightarrow> (None, s)
           | Some pl \<Rightarrow>
               (case state_root_of env pl of
                  None \<Rightarrow> (None, s)
                | Some root \<Rightarrow>
                    (case execute_payload env pl (ra_transport s) of
                       (None, t1) \<Rightarrow> (None, s\<lparr> ra_transport := t1 \<rparr>)
                     | (Some Syncing, t1) \<Rightarrow> (Some default_commit_result, s\<lparr> ra_transport := t1 \<rparr>)
                     | (Some Valid, t1) \<Rightarrow>
                         (case commit_valid env b pl root (s\<lparr> ra_transport := t1 \<rparr>) of (r, s') \<Rightarrow> (Some r, s'))))))"

section \<open>The remaining operations\<close>

definition app_new ::
  "'t \<Rightarrow> node_id \<Rightarrow> string \<Rightarrow> string \<Rightarrow> hash256 \<Rightarrow> bonded_stake_ledger \<Rightarrow> in_memory_mempool \<Rightarrow> 't reth_app" where
  "app_new t self fee reth_genesis root0 stake pool =
     \<lparr> ra_transport = t, ra_self_id = self, ra_fee_recipient = fee, ra_reth_genesis_hash = reth_genesis,
       ra_committed_height = 0, ra_committed_root = root0, ra_stake_source = stake, ra_mempool = pool,
       ra_pending_weights = [], ra_recent_committed = [] \<rparr>"

definition executed_height :: "'t reth_app \<Rightarrow> height option" where
  "executed_height s = Some (ra_committed_height s)"

definition app_state_commitment :: "'t reth_app \<Rightarrow> hash256" where
  "app_state_commitment s = ra_committed_root s"

definition validate_proposal ::
  "('t, 'n, 'g1, 'g2) reth_env \<Rightarrow> block \<Rightarrow> (hash256 \<Rightarrow> block option) \<Rightarrow> validate_error + unit" where
  "validate_proposal env b recent = validate_registry_extra_data env b recent"

definition app_check :: "('t, 'n, 'g1, 'g2) reth_env \<Rightarrow> bytes \<Rightarrow> bool" where
  "app_check env cmd =
     (is_weight_proof_command cmd
      \<or> (case rn_from_slice env cmd of None \<Rightarrow> False | Some pl \<Rightarrow> as_str (jget pl ''blockHash'') \<noteq> None))"

definition app_slash :: "node_id \<Rightarrow> 't reth_app \<Rightarrow> 't reth_app" where
  "app_slash n s = s\<lparr> ra_stake_source := bl_slash n (ra_stake_source s) \<rparr>"

definition recover_frontier :: "height \<Rightarrow> hash256 \<Rightarrow> 't reth_app \<Rightarrow> 't reth_app" where
  "recover_frontier h root s = s\<lparr> ra_committed_height := h, ra_committed_root := root \<rparr>"

definition el_head :: "('t, 'n, 'g1, 'g2) reth_env \<Rightarrow> 't reth_app \<Rightarrow> height option \<times> 't reth_app" where
  "el_head env s =
     (case rn_rpc env ''eth_blockNumber'' (JArray []) (ra_transport s) of
        (Some v, t) \<Rightarrow> (parse_block_number v, s\<lparr> ra_transport := t \<rparr>)
      | (None, t) \<Rightarrow> (None, s\<lparr> ra_transport := t \<rparr>))"

definition el_devp2p_handoff :: "('t, 'n, 'g1, 'g2) reth_env \<Rightarrow> block \<Rightarrow> 't reth_app \<Rightarrow> unit option \<times> 't reth_app" where
  "el_devp2p_handoff env tip s =
     (case commands tip of
        [] \<Rightarrow> (Some (), s)
      | cmd # _ \<Rightarrow>
          (case rn_from_slice env cmd of
             None \<Rightarrow> (None, s)
           | Some pl \<Rightarrow>
               (case register_payload env pl (ra_transport s) of
                  (None, t1) \<Rightarrow> (None, s\<lparr> ra_transport := t1 \<rparr>)
                | (Some _, t1) \<Rightarrow>
                    (case forkchoice env pl t1 of
                       (st, t2) \<Rightarrow> (map_option (\<lambda>_. ()) st, s\<lparr> ra_transport := t2 \<rparr>)))))"

definition le_bytes :: "nat \<Rightarrow> 'a::len word \<Rightarrow> bytes" where
  "le_bytes n w = rev (be_bytes n w)"

definition app_snapshot :: "'t reth_app \<Rightarrow> bytes" where
  "app_snapshot s = le_bytes 8 (ra_committed_height s) @ be_bytes 32 (ra_committed_root s)"

definition app_restore :: "bytes \<Rightarrow> 't reth_app \<Rightarrow> 't reth_app option" where
  "app_restore snap s =
     (if length snap \<noteq> 40 then None
      else Some (s\<lparr> ra_committed_height := of_be_bytes (rev (take 8 snap)), ra_committed_root := of_be_bytes (drop 8 snap) \<rparr>))"

end
