(* ===== verification/Reth_Safety.thy ===== *)
theory Reth_Safety
  imports Reth_Commit
begin

text \<open>
  What the bridge to the execution client guarantees: the committed frontier moves only
  over blocks the client executed, the weights to seat are those of the stake ledger,
  the ring of recent blocks stays bounded, an honest proposal is never refused for its
  keys or its settled view, and snapshots restore.
\<close>

section \<open>The walks end\<close>

lemma walks_return:
  assumes "\<forall>b \<in> set (map snd pending). \<forall>p. hm_get pending (parent_hash (header b)) = Some p
             \<longrightarrow> hdr_height (header p) < hdr_height (header b)"
    and "\<forall>p. hm_get pending (parent_hash (header parent)) = Some p \<longrightarrow> hdr_height (header p) < hdr_height (header parent)"
    and "unat (hdr_height (header parent)) < n"
  shows "uncommitted_walk n pending h parent \<noteq> None" "candidate_walk env n pending h parent out \<noteq> None"
proof -
  have "uncommitted_walk n pending h parent \<noteq> None \<and> (\<forall>out. candidate_walk env n pending h parent out \<noteq> None)"
    using assms(2,3)
  proof (induction n arbitrary: parent)
    case (Suc n)
    have IH: "uncommitted_walk n pending h p \<noteq> None \<and> (\<forall>out. candidate_walk env n pending h p out \<noteq> None)"
      if "hm_get pending (parent_hash (header parent)) = Some p" for p
    proof (rule Suc.IH)
      have "p \<in> set (map snd pending)" using map_of_SomeD[OF that] by force
      then show "\<forall>q. hm_get pending (parent_hash (header p)) = Some q \<longrightarrow> hdr_height (header q) < hdr_height (header p)"
        using assms(1) by blast
      have "hdr_height (header p) < hdr_height (header parent)" using Suc.prems(1) that by blast
      then show "unat (hdr_height (header p)) < n" using Suc.prems(2) by (simp add: word_less_nat_alt)
    qed
    then show ?case by (auto split: option.splits)
  qed simp
  then show "uncommitted_walk n pending h parent \<noteq> None" "candidate_walk env n pending h parent out \<noteq> None" by blast+
qed

section \<open>Weights to seat\<close>

lemma drop_carried_wf [simp]: "bt_wf m \<Longrightarrow> bt_wf (drop_carried cs m)"
  by (induction cs m rule: drop_carried.induct) auto

lemma add_updates_wf [simp]: "bt_wf m \<Longrightarrow> bt_wf (add_updates us m)"
  unfolding add_updates_def by (induction us arbitrary: m) auto

lemma drop_carried_get: "bt_get (drop_carried cs m) v = Some w \<Longrightarrow> bt_get m v = Some w"
  by (induction cs m rule: drop_carried.induct) (auto split: if_splits)

text \<open>An update table follows the updates as a client of the ledger does.\<close>

lemma add_updates_get:
  assumes "bt_wf m"
  shows "bt_get (add_updates us m) v =
    (if v \<in> vu_node_id ` set us then Some (follow us f v) else bt_get m v)"
  using assms
proof (induction us arbitrary: m f)
  case (Cons u us)
  have w: "bt_wf (bt_insert (vu_node_id u) (vu_weight u) m)" using Cons.prems by simp
  have a: "add_updates (u # us) m = add_updates us (bt_insert (vu_node_id u) (vu_weight u) m)"
    by (simp add: add_updates_def)
  have b: "follow (u # us) f = follow us (f(vu_node_id u := vu_weight u))" by (simp add: follow_def)
  have keep: "follow us g v = g v" if "v \<notin> vu_node_id ` set us" for g
    using that unfolding follow_def by (induction us arbitrary: g) auto
  show ?case
    unfolding a b Cons.IH[OF w, of "f(vu_node_id u := vu_weight u)"] using Cons.prems keep by auto
qed (simp add: add_updates_def)

lemma follow_other: "v \<notin> vu_node_id ` set us \<Longrightarrow> follow us f v = f v"
  unfolding follow_def by (induction us arbitrary: f) auto

text \<open>The invariant: before the updates still outstanding in the ledger, every weight to seat
  is the stake of its validator.\<close>

definition app_wf :: "'t reth_app \<Rightarrow> bool" where
  "app_wf s \<longleftrightarrow> bl_wf (ra_stake_source s) \<and> bt_wf (ra_pending_weights s)
     \<and> length (ra_recent_committed s) \<le> RECENT_CAP
     \<and> (\<exists>base. bl_stake_of (ra_stake_source s) = follow (bl_pending (ra_stake_source s)) base
          \<and> (\<forall>v w. bt_get (ra_pending_weights s) v = Some w \<longrightarrow> base v = w))"

text \<open>A new application is well formed when its ledger is, whatever is left to report.\<close>

lemma app_new_wf:
  assumes "bl_wf stake" "bl_pending stake = []"
  shows "app_wf (app_new t self fee gh root stake pool)"
  using assms by (auto simp: app_wf_def app_new_def bt_wf_def)

text \<open>The one-call commit of the engine agrees with the two calls the application makes: when it
  reports a valid block, they report it too, and leave the client in the same state.\<close>

lemma engine_commit_block_valid:
  assumes "engine_commit_block env pl t = (Some (h, Valid), t')"
  shows "execute_payload env pl t = (Some Valid, t') \<and> as_str (jget pl ''blockHash'') = Some h"
  using assms
  by (auto simp: engine_commit_block_def execute_payload_def register_payload_def forkchoice_def
      split: prod.splits option.splits if_splits el_status.splits)

text \<open>What a commit does to the ledger and to the weights: the events of the block, of the gap
  and of earlier slashing, drained into the table.\<close>

lemma gap_step_frame:
  "gap_step env current height h s = (es, s') \<Longrightarrow>
     \<exists>evs. s' = s\<lparr> ra_transport := ra_transport s', ra_stake_source := fold bl_event evs (ra_stake_source s) \<rparr>"
  by (auto simp: gap_step_def Let_def split: prod.splits)

lemma gap_loop_frame:
  "gap_loop env current height hs s = (es, s') \<Longrightarrow>
     \<exists>evs. s' = s\<lparr> ra_transport := ra_transport s', ra_stake_source := fold bl_event evs (ra_stake_source s) \<rparr>"
proof (induction hs arbitrary: s es)
  case Nil
  then show ?case by (auto intro!: exI[of _ "[]"])
next
  case (Cons h hs)
  obtain e1 s1 where s1: "gap_step env current height h s = (e1, s1)" by (rule prod.exhaust)
  obtain e2 where s2: "gap_loop env current height hs s1 = (e2, s')"
    using Cons.prems s1 by (auto split: prod.splits)
  obtain evs1 where 1: "s1 = s\<lparr> ra_transport := ra_transport s1, ra_stake_source := fold bl_event evs1 (ra_stake_source s) \<rparr>"
    using gap_step_frame[OF s1] by blast
  obtain evs2 where 2: "s' = s1\<lparr> ra_transport := ra_transport s', ra_stake_source := fold bl_event evs2 (ra_stake_source s1) \<rparr>"
    using Cons.IH[OF s2] by blast
  have "ra_stake_source s1 = fold bl_event evs1 (ra_stake_source s)" by (subst 1) simp
  then have "s' = s\<lparr> ra_transport := ra_transport s', ra_stake_source := fold bl_event (evs1 @ evs2) (ra_stake_source s) \<rparr>"
    by (subst 2, subst 1) simp
  then show ?case by blast
qed

lemma backfill_frame:
  assumes "backfill_self_synced_gap env pl prev height s = (es, s')"
  shows "\<exists>evs. s' = s\<lparr> ra_transport := ra_transport s', ra_stake_source := fold bl_event evs (ra_stake_source s) \<rparr>"
proof (cases "s' = s")
  case True
  then show ?thesis by (intro exI[of _ "[]"]) simp
next
  case False
  then obtain current hs where "gap_loop env current height hs s = (es, s')"
    using assms by (auto simp: backfill_self_synced_gap_def split: if_splits option.splits)
  then show ?thesis by (rule gap_loop_frame)
qed

lemma trim_ring_length: "length (trim_ring xs) \<le> RECENT_CAP"
  by (induction xs rule: trim_ring.induct) auto

lemma trim_ring_last: "trim_ring (xs @ [x]) \<noteq> [] \<and> last (trim_ring (xs @ [x])) = x"
  by (induction xs) (auto simp: RECENT_CAP_def)

lemma derive_updates_frame:
  assumes "derive_validator_updates env pl h s = (us, s')"
  shows "\<exists>evs. us = bl_pending (fold bl_event evs (ra_stake_source s))
    \<and> s' = s\<lparr> ra_transport := ra_transport s', ra_stake_source := (fold bl_event evs (ra_stake_source s))\<lparr> bl_pending := [] \<rparr> \<rparr>"
  using assms by (auto simp: derive_validator_updates_def bl_take_updates_def split: prod.splits option.splits)

text \<open>A valid commit in one equation.\<close>

lemma commit_valid_frame:
  assumes "commit_valid env b pl root s = (r, s')"
  obtains evs where
    "cr_validator_updates r = bl_pending (fold bl_event evs (ra_stake_source s))"
    "ra_stake_source s' = (fold bl_event evs (ra_stake_source s))\<lparr> bl_pending := [] \<rparr>"
    "ra_pending_weights s' = add_updates (cr_validator_updates r) (drop_carried (carried_weights env pl) (ra_pending_weights s))"
    "ra_committed_height s' = hdr_height (header b)" "ra_committed_root s' = root"
    "ra_recent_committed s' = (case as_str (jget pl ''blockHash'') of None \<Rightarrow> ra_recent_committed s
       | Some evm \<Rightarrow> trim_ring (ra_recent_committed s @ [(block_hash_of (rn_hp env) b, evm)]))"
proof -
  let ?s1 = "s\<lparr> ra_committed_height := hdr_height (header b), ra_committed_root := root \<rparr>"
  obtain ge s2 where 2: "backfill_self_synced_gap env pl (ra_committed_height s) (hdr_height (header b)) ?s1 = (ge, s2)"
    by (rule prod.exhaust)
  obtain evs1 where e1: "s2 = ?s1\<lparr> ra_transport := ra_transport s2, ra_stake_source := fold bl_event evs1 (ra_stake_source s) \<rparr>"
    using backfill_frame[OF 2] by auto
  let ?s3 = "push_recent (block_hash_of (rn_hp env) b) pl s2"
  obtain us s4 where 4: "derive_validator_updates env pl (hdr_height (header b)) ?s3 = (us, s4)" by (rule prod.exhaust)
  obtain evs2 where e2: "us = bl_pending (fold bl_event evs2 (ra_stake_source ?s3))"
      "s4 = ?s3\<lparr> ra_transport := ra_transport s4, ra_stake_source := (fold bl_event evs2 (ra_stake_source ?s3))\<lparr> bl_pending := [] \<rparr> \<rparr>"
    using derive_updates_frame[OF 4] by blast
  obtain ef t where 5: "derive_block_effects env pl (ra_transport (reconcile_pending_weights env pl us s4)) = (ef, t)"
    by (rule prod.exhaust)
  have r: "r = \<lparr> cr_validator_updates = us, cr_effects = ge @ ef, cr_app_data = None \<rparr>"
      "s' = (reconcile_pending_weights env pl us s4)\<lparr> ra_transport := t \<rparr>"
    using assms 2 4 5 by (simp_all add: commit_valid_def Let_def)
  have st: "ra_stake_source ?s3 = fold bl_event evs1 (ra_stake_source s)"
    by (subst e1) (simp add: push_recent_def split: option.splits)
  have fields: "ra_pending_weights ?s3 = ra_pending_weights s" "ra_committed_height ?s3 = hdr_height (header b)"
      "ra_committed_root ?s3 = root"
      "ra_recent_committed ?s3 = (case as_str (jget pl ''blockHash'') of None \<Rightarrow> ra_recent_committed s
         | Some evm \<Rightarrow> trim_ring (ra_recent_committed s @ [(block_hash_of (rn_hp env) b, evm)]))"
    by (subst e1, simp add: push_recent_def split: option.splits)+
  have four: "ra_pending_weights s4 = ra_pending_weights s" "ra_committed_height s4 = hdr_height (header b)"
      "ra_committed_root s4 = root" "ra_recent_committed s4 = ra_recent_committed ?s3"
      "ra_stake_source s4 = (fold bl_event evs2 (ra_stake_source ?s3))\<lparr> bl_pending := [] \<rparr>"
    by (subst e2(2), simp add: fields)+
  show ?thesis
    by (rule that[of "evs1 @ evs2"])
      (simp_all add: r reconcile_pending_weights_def four fields(4) st e2(1))
qed

text \<open>The drained updates relate the ledger before and after.\<close>

lemma commit_valid_weights:
  assumes "app_wf s" "commit_valid env b pl root s = (r, s')"
  shows "app_wf s' \<and> bl_pending (ra_stake_source s') = []
    \<and> (\<forall>v w. bt_get (ra_pending_weights s') v = Some w \<longrightarrow> bl_stake_of (ra_stake_source s') v = w)
    \<and> (\<forall>v \<in> vu_node_id ` set (cr_validator_updates r).
         bt_get (ra_pending_weights s') v = Some (bl_stake_of (ra_stake_source s') v))"
proof -
  obtain evs where f:
    "cr_validator_updates r = bl_pending (fold bl_event evs (ra_stake_source s))"
    "ra_stake_source s' = (fold bl_event evs (ra_stake_source s))\<lparr> bl_pending := [] \<rparr>"
    "ra_pending_weights s' = add_updates (cr_validator_updates r) (drop_carried (carried_weights env pl) (ra_pending_weights s))"
    "ra_recent_committed s' = (case as_str (jget pl ''blockHash'') of None \<Rightarrow> ra_recent_committed s
       | Some evm \<Rightarrow> trim_ring (ra_recent_committed s @ [(block_hash_of (rn_hp env) b, evm)]))"
    by (rule commit_valid_frame[OF assms(2)]) blast
  let ?us = "cr_validator_updates r"
  obtain base where base: "bl_stake_of (ra_stake_source s) = follow (bl_pending (ra_stake_source s)) base"
      "\<And>v w. bt_get (ra_pending_weights s) v = Some w \<Longrightarrow> base v = w"
    using assms(1) by (auto simp: app_wf_def)
  have wf: "bl_wf (ra_stake_source s)" "bt_wf (ra_pending_weights s)" "length (ra_recent_committed s) \<le> RECENT_CAP"
    using assms(1) by (simp_all add: app_wf_def)
  obtain us where us: "bl_wf (fold bl_event evs (ra_stake_source s))"
      "bl_pending (fold bl_event evs (ra_stake_source s)) = bl_pending (ra_stake_source s) @ us"
      "bl_stake_of (fold bl_event evs (ra_stake_source s)) = follow us (bl_stake_of (ra_stake_source s))"
    using bonded.events_updates[OF wf(1), of evs] by blast
  have st: "bl_stake_of (ra_stake_source s') = follow ?us base"
  proof -
    have "bl_stake_of (ra_stake_source s') = bl_stake_of (fold bl_event evs (ra_stake_source s))"
      by (simp add: f(2) bl_stake_of_def fun_eq_iff)
    then show ?thesis by (simp add: us(2,3) base(1) f(1))
  qed
  have get: "bt_get (ra_pending_weights s') v =
      (if v \<in> vu_node_id ` set ?us then Some (follow ?us base v) else bt_get (drop_carried (carried_weights env pl) (ra_pending_weights s)) v)" for v
    unfolding f(3) by (rule add_updates_get) (simp add: wf(2))
  have cur: "follow ?us base v = w" if "bt_get (ra_pending_weights s') v = Some w" for v w
    using that get[of v] drop_carried_get[of "carried_weights env pl" "ra_pending_weights s" v w] base(2)[of v w]
      follow_other[of v ?us base] by (auto split: if_splits)
  have p0: "bl_pending (ra_stake_source s') = []" by (simp add: f(2))
  have cur': "\<forall>v w. bt_get (ra_pending_weights s') v = Some w \<longrightarrow> bl_stake_of (ra_stake_source s') v = w"
    unfolding st using cur by blast
  have base': "\<exists>base. bl_stake_of (ra_stake_source s') = follow (bl_pending (ra_stake_source s')) base
      \<and> (\<forall>v w. bt_get (ra_pending_weights s') v = Some w \<longrightarrow> base v = w)"
    unfolding p0 follow_Nil using cur' by blast
  have "bl_wf (ra_stake_source s')" using us(1) by (simp add: f(2) bl_wf_def)
  moreover have "bt_wf (ra_pending_weights s')" using wf(2) by (simp add: f(3))
  moreover have "length (ra_recent_committed s') \<le> RECENT_CAP"
    using wf(3) by (simp add: f(4) trim_ring_length split: option.splits)
  ultimately have "app_wf s'" unfolding app_wf_def using base' by blast
  moreover have "\<forall>v \<in> vu_node_id ` set ?us. bt_get (ra_pending_weights s') v = Some (bl_stake_of (ra_stake_source s') v)"
    unfolding st using get by simp
  ultimately show ?thesis using p0 cur' by blast
qed

section \<open>Reachable states of the application\<close>

inductive app_reach :: "('t, 'n, 'g1, 'g2) reth_env \<Rightarrow> 't reth_app \<Rightarrow> 't reth_app \<Rightarrow> bool" for env s0 where
  init: "app_reach env s0 s0"
| commit: "app_reach env s0 s \<Longrightarrow> app_commit env b s = (r, s') \<Longrightarrow> app_reach env s0 s'"
| slash: "app_reach env s0 s \<Longrightarrow> app_reach env s0 (app_slash n s)"
| propose: "app_reach env s0 s \<Longrightarrow> build_proposal env s parent v pending ts = Some (r, s') \<Longrightarrow> app_reach env s0 s'"
| recover: "app_reach env s0 s \<Longrightarrow> app_reach env s0 (recover_frontier h root s)"
| restore: "app_reach env s0 s \<Longrightarrow> app_restore snap s = Some s' \<Longrightarrow> app_reach env s0 s'"
| head: "app_reach env s0 s \<Longrightarrow> el_head env s = (r, s') \<Longrightarrow> app_reach env s0 s'"
| handoff: "app_reach env s0 s \<Longrightarrow> el_devp2p_handoff env tip s = (r, s') \<Longrightarrow> app_reach env s0 s'"

text \<open>A commit either executes the block or leaves everything but the client alone.\<close>

lemma app_commit_cases:
  assumes "app_commit env b s = (res, s')"
  obtains (skip) "s' = s\<lparr> ra_transport := ra_transport s' \<rparr>" "res = None \<or> res = Some default_commit_result"
  | (executed) pl root t1 r where "first_payload env b = Some pl" "state_root_of env pl = Some root"
      "execute_payload env pl (ra_transport s) = (Some Valid, t1)"
      "commit_valid env b pl root (s\<lparr> ra_transport := t1 \<rparr>) = (r, s')" "res = Some r"
proof (cases "\<exists>pl root t1. first_payload env b = Some pl \<and> state_root_of env pl = Some root
    \<and> execute_payload env pl (ra_transport s) = (Some Valid, t1)")
  case True
  then obtain pl root t1 where 1: "first_payload env b = Some pl" "state_root_of env pl = Some root"
      "execute_payload env pl (ra_transport s) = (Some Valid, t1)" by blast
  obtain r s1 where 2: "commit_valid env b pl root (s\<lparr> ra_transport := t1 \<rparr>) = (r, s1)" by (rule prod.exhaust)
  have "res = Some r \<and> s' = s1"
    using assms 1 2 by (auto simp: app_commit_def first_payload_def split: list.splits)
  then show thesis using executed[OF 1] 2 by blast
next
  case False
  then show thesis
    using assms by (intro skip) (auto simp: app_commit_def first_payload_def split: list.splits option.splits prod.splits el_status.splits)
qed

lemma app_wf_transport [simp]: "app_wf (s\<lparr> ra_transport := t \<rparr>) = app_wf s"
  by (simp add: app_wf_def)

lemma app_wf_slash:
  assumes "app_wf s"
  shows "app_wf (app_slash n s)"
proof -
  let ?l = "ra_stake_source s"
  have w: "bl_wf ?l" using assms by (simp add: app_wf_def)
  obtain us where us: "bl_pending (bl_slash n ?l) = bl_pending ?l @ us" "bl_stake_of (bl_slash n ?l) = follow us (bl_stake_of ?l)"
    using bl_event_updates[OF w, of "ESlash n"] by auto
  have "bl_wf (bl_slash n ?l)" using bl_event_wf[OF w, of "ESlash n"] by simp
  then show ?thesis using assms us by (auto simp: app_wf_def app_slash_def)
qed

lemma build_proposal_frame:
  "build_proposal env s parent v pending ts = Some (r, s') \<Longrightarrow> s' = s\<lparr> ra_transport := ra_transport s' \<rparr>"
  by (auto simp: build_proposal_def Let_def split: option.splits prod.splits)

lemma app_reach_wf: "app_reach env s0 s \<Longrightarrow> app_wf s0 \<Longrightarrow> app_wf s"
proof (induction rule: app_reach.induct)
  case (commit s b r s')
  from commit.hyps(2) show ?case
  proof (cases rule: app_commit_cases)
    case skip
    have "app_wf (s\<lparr> ra_transport := ra_transport s' \<rparr>)" using commit.IH commit.prems by simp
    then show ?thesis by (subst skip(1))
  next
    case (executed pl root t1 r')
    have "app_wf (s\<lparr> ra_transport := t1 \<rparr>)" using commit.IH commit.prems by simp
    from commit_valid_weights[OF this executed(4)] show ?thesis by blast
  qed
next
  case (propose s parent v pending ts r s')
  have "app_wf (s\<lparr> ra_transport := ra_transport s' \<rparr>)" using propose.IH propose.prems by simp
  then show ?case by (subst build_proposal_frame[OF propose.hyps(2)])
next
  case (restore s snap s')
  then show ?case by (auto simp: app_restore_def app_wf_def split: if_splits)
next
  case (head s r s')
  then show ?case by (auto simp: el_head_def split: prod.splits option.splits)
next
  case (handoff s tip r s')
  then show ?case by (auto simp: el_devp2p_handoff_def split: prod.splits option.splits list.splits)
next
  case (slash s n)
  then show ?case by (simp add: app_wf_slash)
next
  case (recover s h root)
  then show ?case by (simp add: recover_frontier_def app_wf_def)
qed

text \<open>C33: whatever the node does with the application, a commit either leaves its state alone
  or the client has executed the block: then the frontier is the block with its state
  root, the weights to seat are exactly stakes of the ledger, and every validator whose
  stake the commit reports is among them. At most ten recent blocks are remembered.\<close>

theorem seated_weights_current:
  assumes "app_wf s0" "app_reach env s0 s" "app_commit env b s = (res, s')"
  shows "app_wf s' \<and> length (ra_recent_committed s') \<le> 10
    \<and> (s' = s\<lparr> ra_transport := ra_transport s' \<rparr>
       \<or> (\<exists>pl root r. first_payload env b = Some pl \<and> state_root_of env pl = Some root
            \<and> fst (execute_payload env pl (ra_transport s)) = Some Valid \<and> res = Some r
            \<and> ra_committed_height s' = hdr_height (header b) \<and> ra_committed_root s' = root
            \<and> (\<forall>v w. bt_get (ra_pending_weights s') v = Some w \<longrightarrow> bl_stake_of (ra_stake_source s') v = w)
            \<and> (\<forall>v \<in> vu_node_id ` set (cr_validator_updates r).
                 bt_get (ra_pending_weights s') v = Some (bl_stake_of (ra_stake_source s') v))))"
proof -
  have wf: "app_wf s" by (rule app_reach_wf[OF assms(2,1)])
  have wf': "app_wf s'" by (rule app_reach_wf[OF app_reach.commit[OF assms(2,3)] assms(1)])
  then have len: "length (ra_recent_committed s') \<le> 10"
    by (simp add: app_wf_def RECENT_CAP_def MAX_WEIGHT_PROOF_ANCHOR_LAG_def)
  from assms(3) show ?thesis
  proof (cases rule: app_commit_cases)
    case skip
    then show ?thesis using wf' len by blast
  next
    case (executed pl root t1 r)
    have w: "app_wf (s\<lparr> ra_transport := t1 \<rparr>)" using wf by simp
    have c: "ra_committed_height s' = hdr_height (header b)" "ra_committed_root s' = root"
      by (rule commit_valid_frame[OF executed(4)], assumption)+
    have "fst (execute_payload env pl (ra_transport s)) = Some Valid" using executed(3) by simp
    then show ?thesis using wf' len commit_valid_weights[OF w executed(4)] c executed(1,2,5) by blast
  qed
qed

section \<open>An honest proposal\<close>

lemma other_tag: "length p = length q \<Longrightarrow> p \<noteq> q \<Longrightarrow> starts_with c p \<Longrightarrow> \<not> starts_with c q"
  by (auto simp: starts_with_iff)

lemma record_key_untagged:
  "\<not> is_rotation_payload c \<Longrightarrow> \<not> is_operator_rotation_payload c \<Longrightarrow> record_key_for_rotation env xy c = Inr None"
  by (simp add: record_key_for_rotation_def)

lemma registry_keys_append:
  "registry_keys_from_commands env (xs @ ys) = registry_keys_from_commands env xs @ registry_keys_from_commands env ys"
  by (simp add: registry_keys_from_commands_def map_filter_def)

lemma registry_keys_filter:
  "registry_keys_from_commands env (filter is_system_command cmds) = registry_keys_from_commands env cmds"
proof (induction cmds)
  case (Cons c cmds)
  show ?case
  proof (cases "is_system_command c")
    case False
    then have "record_key_for_rotation (rn_rot env) (rn_xy env) c = Inr None"
      by (intro record_key_untagged) (auto simp: is_system_command_def)
    then show ?thesis using Cons False by (simp add: registry_keys_from_commands_def map_filter_simps)
  qed (use Cons in \<open>simp add: registry_keys_from_commands_def map_filter_simps split: sum.splits option.splits\<close>)
qed simp

lemma wps_encode_untagged: "\<not> is_rotation_payload (wps_encode ps)" "\<not> is_operator_rotation_payload (wps_encode ps)"
  by (simp_all add: is_rotation_payload_def is_operator_rotation_payload_def starts_with_def wps_encode_def WPR_MAGIC_def
      ROTATION_TAG_def OPERATOR_ROTATION_TAG_def ascii_def)

lemma registry_keys_single:
  "\<not> is_rotation_payload c \<Longrightarrow> \<not> is_operator_rotation_payload c \<Longrightarrow> registry_keys_from_commands env [c] = []"
  by (simp add: registry_keys_from_commands_def map_filter_simps record_key_untagged)

lemma proof_commands_keys:
  "proof_commands env rp cands t = Some (proofs, t') \<Longrightarrow> registry_keys_from_commands env proofs = []"
  by (auto simp: proof_commands_def record_key_untagged wps_encode_untagged registry_keys_from_commands_def map_filter_simps
      split: if_splits option.splits prod.splits)

text \<open>The parts of a finished proposal.\<close>

lemma build_proposal_parts:
  assumes "build_proposal env s parent v pending ts = Some (Some b, s')"
  obtains evm_hash evm_ts t1 built evm t2 cands proofs t3 where
    "build_payload env s evm_hash evm_ts (registry_payload_for_build env s v (mp_propose SYSTEM_TX_LIMIT (ra_mempool s))) t1
       = (Some (built, evm), t2)"
    "proof_commands env (registry_payload_for_build env s v (mp_propose SYSTEM_TX_LIMIT (ra_mempool s))) cands t2 = Some (proofs, t3)"
    "commands b = evm # filter is_system_command (mp_propose SYSTEM_TX_LIMIT (ra_mempool s)) @ proofs"
    "hdr_view (header b) = v"
  using assms by (auto simp: build_proposal_def Let_def proposal_block_def split: option.splits prod.splits)

text \<open>The proposer's loop collects the keys the voter derives.\<close>

lemma keys_for_build_eq: "keys_for_build env keys cmds = keys @ registry_keys_from_commands env cmds"
  by (induction cmds arbitrary: keys)
    (simp_all add: registry_keys_from_commands_def map_filter_simps split: sum.splits option.splits)

text \<open>What a proposal relies on of code outside the repository. Of the hex library: decoding
  inverts encoding, two digits per byte, and no digit is an \<open>x\<close>. Of the JSON library:
  the text of an object starts with a brace and reads back. Of the client: the block
  it builds carries, as hex in \<open>extraData\<close>, the extra data that the node configures
  for the attributes.\<close>

definition hex_ok :: "(bytes \<Rightarrow> string) \<Rightarrow> (string \<Rightarrow> bytes option) \<Rightarrow> bool" where
  "hex_ok enhex unhex \<longleftrightarrow> (\<forall>bs. unhex (enhex bs) = Some bs \<and> length (enhex bs) = 2 * length bs \<and> CHR ''x'' \<notin> set (enhex bs))"

definition json_ok :: "('t, 'n, 'g1, 'g2) reth_env \<Rightarrow> bool" where
  "json_ok env \<longleftrightarrow> (\<forall>fields bs. rn_to_vec env (JObject fields) = Some bs \<longrightarrow>
     rn_from_slice env bs = Some (JObject fields) \<and> (\<exists>rest. bs = 123 # rest))"

definition client_carries :: "('t, 'n, 'g1, 'g2) reth_env \<Rightarrow> bytes \<Rightarrow> 't reth_app \<Rightarrow> string \<Rightarrow> bool" where
  "client_carries env default_extra_data s attribute \<longleftrightarrow>
     (\<forall>head ts t built t'. build_block env (ra_fee_recipient s) head ts attribute t = (Some built, t') \<longrightarrow>
        as_str (jget (bb_execution_payload built) ''extraData'')
          = Some (''0x'' @ pv_enhex (rn_proof env) (extra_data_for (rn_unhex env) default_extra_data attribute)))"

lemma trim_hex: "hex_ok enhex unhex \<Longrightarrow> trim_0x (enhex bs) = enhex bs"
proof (cases "enhex bs" rule: trim_0x.cases)
  case (1 a b s)
  assume "hex_ok enhex unhex"
  then have "CHR ''x'' \<notin> set (enhex bs)" by (simp add: hex_ok_def)
  then have "b \<noteq> CHR ''x''" by (auto simp: 1)
  then show ?thesis by (simp add: 1)
qed simp_all

lemma trim_prefixed_hex: "hex_ok enhex unhex \<Longrightarrow> trim_0x (''0x'' @ enhex bs) = enhex bs"
  by (simp add: trim_hex)

text \<open>The extra data of an attribute is the encoding of the registry payload.\<close>

lemma extra_data_of_attribute:
  assumes "hex_ok enhex unhex"
  shows "extra_data_for unhex default_extra_data (to_attribute_hex enhex rp) = (if rp_is_empty rp then default_extra_data else rp_encode rp)"
proof -
  have "rp_encode rp \<noteq> []" by (simp add: rp_encode_def)
  moreover have "unhex (enhex (rp_encode rp)) = Some (rp_encode rp)" "length (enhex (rp_encode rp)) = 2 * length (rp_encode rp)"
    using assms by (simp_all add: hex_ok_def)
  ultimately show ?thesis
    using trim_prefixed_hex[OF assms, of "rp_encode rp"]
    by (auto simp: extra_data_for_def registry_extra_data_def to_attribute_hex_def Let_def)
qed

lemma built_is_object: "built_of_payload pl = Some built \<Longrightarrow> \<exists>fields. pl = JObject fields \<and> bb_execution_payload built = pl"
  by (cases pl) (auto simp: built_of_payload_def bind_eq_Some_conv)

lemma build_payload_parts:
  assumes "build_payload env s head ts rp t = (Some (built, evm), t')"
  obtains t1 fields where "build_block env (ra_fee_recipient s) head ts (to_attribute_hex (pv_enhex (rn_proof env)) rp) t = (Some built, t1)"
    "bb_execution_payload built = JObject fields" "rn_to_vec env (JObject fields) = Some evm"
proof -
  obtain t1 where b: "build_block env (ra_fee_recipient s) head ts (to_attribute_hex (pv_enhex (rn_proof env)) rp) t = (Some built, t1)"
    and e: "rn_to_vec env (bb_execution_payload built) = Some evm"
    using assms by (auto simp: build_payload_def split: prod.splits option.splits)
  obtain pl where "built_of_payload pl = Some built"
    using b by (auto simp: build_block_def split: prod.splits option.splits if_splits)
  then show thesis using that b e built_is_object by metis
qed

text \<open>A voter reads back from a built payload what the proposer encoded.\<close>

lemma built_payload_read:
  assumes "build_payload env s head ts rp t = (Some (built, evm), t')" "hex_ok (pv_enhex (rn_proof env)) (rn_unhex env)" "json_ok env"
    and "client_carries env default_extra_data s (to_attribute_hex (pv_enhex (rn_proof env)) rp)" "rp_decode default_extra_data = None" "rp_short rp"
  shows "extra_data_registry_payload env (bb_execution_payload built) = (if rp_is_empty rp then None else Some rp)"
    "rn_from_slice env evm = Some (bb_execution_payload built)" "\<not> is_rotation_payload evm" "\<not> is_operator_rotation_payload evm"
proof -
  obtain t1 fields where b: "build_block env (ra_fee_recipient s) head ts (to_attribute_hex (pv_enhex (rn_proof env)) rp) t = (Some built, t1)"
    "bb_execution_payload built = JObject fields" "rn_to_vec env (JObject fields) = Some evm"
    by (rule build_payload_parts[OF assms(1)])
  have x: "as_str (jget (bb_execution_payload built) ''extraData'')
      = Some (''0x'' @ pv_enhex (rn_proof env) (if rp_is_empty rp then default_extra_data else rp_encode rp))"
    using assms(4) b(1) unfolding client_carries_def extra_data_of_attribute[OF assms(2)] by blast
  have d: "rp_decode (rp_encode rp) = Some rp"
    unfolding rp_encode_layout by (rule rp_decode_layout[OF assms(6)]) simp
  show "extra_data_registry_payload env (bb_execution_payload built) = (if rp_is_empty rp then None else Some rp)"
  proof -
    let ?y = "if rp_is_empty rp then default_extra_data else rp_encode rp"
    have "rn_unhex env (pv_enhex (rn_proof env) ?y) = Some ?y" using assms(2) by (simp only: hex_ok_def)
    then have "extra_data_registry_payload env (bb_execution_payload built) = rp_decode ?y"
      unfolding extra_data_registry_payload_def x by (simp only: bind.bind_lunit trim_prefixed_hex[OF assms(2)])
    then show ?thesis using assms(5) d by simp
  qed
  obtain rest where r: "rn_from_slice env evm = Some (JObject fields)" "evm = 123 # rest"
    using assms(3) b(3) by (auto simp: json_ok_def)
  then show "rn_from_slice env evm = Some (bb_execution_payload built)" "\<not> is_rotation_payload evm"
    "\<not> is_operator_rotation_payload evm"
    by (simp_all add: b(2) is_rotation_payload_def is_operator_rotation_payload_def starts_with_def ROTATION_TAG_def
        OPERATOR_ROTATION_TAG_def ascii_def)
qed

lemma build_registry_fields:
  "rp_keys (registry_payload_for_build env s v cmds) = registry_keys_from_commands env cmds"
  "rp_weights (registry_payload_for_build env s v cmds) = ra_pending_weights s"
  "rp_settled_view (registry_payload_for_build env s v cmds) = settled_for v"
  by (simp_all add: registry_payload_for_build_def rp_new_def comp_def case_prod_unfold keys_for_build_eq settled_for_def Let_def)

lemma build_registry_short:
  assumes "short (ra_pending_weights s)"
  shows "rp_short (registry_payload_for_build env s v (mp_propose SYSTEM_TX_LIMIT m))"
proof -
  let ?cmds = "mp_propose SYSTEM_TX_LIMIT m"
  have "length (registry_keys_from_commands env ?cmds) \<le> length ?cmds"
    unfolding registry_keys_from_commands_def List.map_filter_def by (simp add: length_filter_le)
  also have "\<dots> \<le> 16" by (simp add: mp_propose_def SYSTEM_TX_LIMIT_def)
  finally have "short (registry_keys_from_commands env ?cmds)" by (simp add: short_def)
  then show ?thesis using assms by (simp add: rp_short_def build_registry_fields)
qed

text \<open>C34: a voter never refuses an honest proposal for its keys or for its settled view. The
  proposer collects the keys of its rotation commands and the settled view, encodes
  them into the attribute of the build, the client's extra data carries those bytes,
  and the voter decodes exactly them; so the verdict of the voter is its verdict on the
  weight proofs, and with no weights to seat it accepts. This rests on the laws of the
  hex and JSON libraries, on a client that puts the configured extra data into the
  block, whose default extra data is not a registry payload, and on fewer than
  \<open>2 ^ 32\<close> weights.\<close>

theorem honest_proposal_validates:
  assumes "build_proposal env s parent v pending ts = Some (Some b, s')"
    and "hex_ok (pv_enhex (rn_proof env)) (rn_unhex env)" "json_ok env" "rp_decode default_extra_data = None" "short (ra_pending_weights s)"
    and "client_carries env default_extra_data s (to_attribute_hex (pv_enhex (rn_proof env))
      (registry_payload_for_build env s v (mp_propose SYSTEM_TX_LIMIT (ra_mempool s))))"
  shows "validate_proposal env b recent =
      (case validate_weight_proofs env b recent (ra_pending_weights s) of Inl e \<Rightarrow> Inl (WeightRejected e) | Inr _ \<Rightarrow> Inr ())
    \<and> (ra_pending_weights s = [] \<longrightarrow> validate_proposal env b recent = Inr ())"
proof -
  let ?cmds = "mp_propose SYSTEM_TX_LIMIT (ra_mempool s)"
  let ?rp = "registry_payload_for_build env s v ?cmds"
  obtain evm_hash evm_ts t1 built evm t2 cands proofs t3 where
    p: "build_payload env s evm_hash evm_ts ?rp t1 = (Some (built, evm), t2)" and
    pc: "proof_commands env ?rp cands t2 = Some (proofs, t3)" and
    b: "commands b = evm # filter is_system_command ?cmds @ proofs" "hdr_view (header b) = v"
    by (rule build_proposal_parts[OF assms(1)])
  note c = built_payload_read[OF p assms(2,3,6,4) build_registry_short[OF assms(5)]]
  have keys: "registry_keys_from_commands env (commands b) = registry_keys_from_commands env ?cmds"
  proof -
    have "registry_keys_from_commands env (commands b) = registry_keys_from_commands env [evm]
        @ registry_keys_from_commands env (filter is_system_command ?cmds) @ registry_keys_from_commands env proofs"
      by (simp add: b(1) registry_keys_append[symmetric])
    then show ?thesis by (simp add: registry_keys_filter registry_keys_single[OF c(3,4)] proof_commands_keys[OF pc])
  qed
  note rp = build_registry_fields[of env s v ?cmds]
  have main: "validate_proposal env b recent =
      (case validate_weight_proofs env b recent (ra_pending_weights s) of Inl e \<Rightarrow> Inl (WeightRejected e) | Inr _ \<Rightarrow> Inr ())"
  proof (cases "rp_is_empty ?rp")
    case True
    then have "rp_keys ?rp = []" "rp_weights ?rp = []" "rp_settled_view ?rp = None" by (simp_all add: rp_is_empty_def)
    then show ?thesis
      using True c(1,2) keys b rp by (simp add: validate_proposal_def validate_registry_extra_data_def Let_def)
  next
    case False
    then show ?thesis
      using c(1,2) keys b rp by (simp add: validate_proposal_def validate_registry_extra_data_def Let_def)
  qed
  moreover have "validate_weight_proofs env b recent [] = Inr ()" by (simp add: validate_weight_proofs_def)
  ultimately show ?thesis by simp
qed

section \<open>Snapshots\<close>

text \<open>A snapshot restores the frontier it was taken from.\<close>

theorem app_snapshot_restores:
  "app_restore (app_snapshot s) s0 =
     Some (s0\<lparr> ra_committed_height := ra_committed_height s, ra_committed_root := ra_committed_root s \<rparr>)"
  by (simp add: app_restore_def app_snapshot_def le_bytes_def)

section \<open>An instance\<close>

text \<open>A client that executes everything, with one deposit of five by validator seven in the
  logs of every block. Its state is trivial.\<close>

definition demo_payload :: json where
  "demo_payload = JObject [(''blockHash'', JString ''0xaa''), (''stateRoot'', JString ''0x07''), (''blockNumber'', JString ''0x1''),
     (''timestamp'', JString ''0x1'')]"

definition demo_answer :: json where
  "demo_answer = JObject [(''status'', JString ''VALID''), (''payloadStatus'', JObject [(''status'', JString ''VALID'')]),
     (''payloadId'', JString ''0x1''), (''executionPayload'', demo_payload)]"

definition demo_logs :: json where
  "demo_logs = JArray [JObject [(''topics'', JArray [JString DEPOSIT_TOPIC, JString ''0x07'']), (''data'', JString ''0x5'')]]"

definition demo_reth_env :: "(unit, u32, bls_pk, bls_sig) reth_env" where
  "demo_reth_env = \<lparr> rn_rpc = (\<lambda>_ _ t. (Some demo_logs, t)), rn_call = (\<lambda>_ _ t. (Some demo_answer, t)), rn_proof = demo_proof_env,
     rn_rot = \<lparr> re_ed = (\<lambda>_ _ _. False), re_bls = demo_bls, re_pc_rotation = (\<lambda>_. None), re_pc_operator_key = (\<lambda>_. None),
       re_pc_cancel = (\<lambda>_. None), re_un_rotation = (\<lambda>_. None), re_un_operator = (\<lambda>_. None), re_un_operator_key = (\<lambda>_. None),
       re_un_cancel = (\<lambda>_. None) \<rparr>,
     rn_xy = (\<lambda>_. None), rn_from_slice = (\<lambda>_. Some demo_payload), rn_to_vec = (\<lambda>_. Some [1]),
     rn_hp = \<lparr> sha256 = (\<lambda>bs. of_nat (length bs)), pc_header = (\<lambda>_. []), pc_commands = concat \<rparr> \<rparr>"

definition demo_app :: "unit reth_app" where
  "demo_app = \<lparr> ra_transport = (), ra_self_id = 4, ra_fee_recipient = ''0xfe'', ra_reth_genesis_hash = ''0x00'',
     ra_committed_height = 0, ra_committed_root = 0, ra_stake_source = seeded_from [(7, 10)],
     ra_mempool = mp_new 8, ra_pending_weights = [], ra_recent_committed = [] \<rparr>"

definition demo_evm_block :: block where
  "demo_evm_block = \<lparr> header = \<lparr> parent_hash = 0, hdr_height = 1, hdr_view = 1, proposer = 4, state_commitment = 7,
     commands_commitment = 0, validator_history_commitment = 0, committed_height = 0, committed_state_root = 0, timestamp = 0 \<rparr>,
     commands = [[1]] \<rparr>"

lemma demo_app_wf: "app_wf demo_app"
  by (simp add: app_wf_def demo_app_def seeded_from_def bl_empty_def bl_wf_def bt_wf_def)

lemma demo_stake_logs: "parse_stake_logs table_unhex demo_logs = [(7, Bond 5)]"
proof -
  have "data_str_to_u64 ''0x5'' = 5" "to_ascii_lowercase DEPOSIT_TOPIC = DEPOSIT_TOPIC"
    by (simp_all add: data_str_to_u64_def from_str_radix_16_def hex_digit_def to_ascii_lowercase_def DEPOSIT_TOPIC_def)
  then show ?thesis
    by (simp add: parse_stake_logs_def demo_logs_def parse_stake_log_def str_or_default_def root_from_hex_def table_unhex_def
        map_filter_simps)
qed

lemma demo_other_logs:
  "parse_slashed_logs table_unhex demo_logs = []" "parse_rotation_logs table_unhex demo_logs = []"
  "parse_endpoint_logs table_unhex demo_logs = []" "parse_param_logs table_unhex demo_logs = []"
  "parse_approved_logs table_unhex demo_logs = []"
  by (simp_all add: parse_slashed_logs_def parse_slashed_log_def parse_rotation_logs_def parse_endpoint_logs_def parse_param_logs_def
      parse_approved_logs_def parse_command_logs_def parse_command_log_def demo_logs_def str_or_default_def map_filter_simps
      to_ascii_lowercase_def DEPOSIT_TOPIC_def SLASHED_TOPIC_def ROTATION_TOPIC_def ENDPOINT_TOPIC_def PARAM_TOPIC_def APPROVED_TOPIC_def)

lemma demo_fetch: "fetch_parsed demo_reth_env flt parse t = (parse demo_logs, t)"
  by (simp add: fetch_parsed_def get_logs_retry_def demo_reth_env_def numeral_eq_Suc)

lemma demo_execute: "execute_payload demo_reth_env demo_payload () = (Some Valid, ())"
  by (simp add: execute_payload_def register_payload_def forkchoice_def demo_reth_env_def demo_answer_def demo_payload_def payload_status_def)

lemma demo_state_root: "state_root_of demo_reth_env demo_payload = Some 7"
  by (simp add: state_root_of_def demo_payload_def root_from_hex_def demo_reth_env_def demo_proof_env_def table_unhex_def)

lemma demo_carried: "extra_data_registry_payload demo_reth_env demo_payload = None"
  by (simp add: extra_data_registry_payload_def demo_payload_def)

lemma demo_unhex_env [simp]: "rn_unhex demo_reth_env = table_unhex"
  by (simp add: demo_reth_env_def demo_proof_env_def)

lemma demo_commit:
  "\<exists>r s'. app_commit demo_reth_env demo_evm_block demo_app = (Some r, s') \<and> ra_committed_root s' = 7
     \<and> cr_validator_updates r = [\<lparr> vu_node_id = 7, vu_weight = 15 \<rparr>] \<and> ra_pending_weights s' = [(7, 15)]"
proof -
  have f: "rn_from_slice demo_reth_env c = Some demo_payload" for c by (simp add: demo_reth_env_def)
  have bh: "as_str (jget demo_payload ''blockHash'') = Some ''0xaa''" by (simp add: demo_payload_def)
  let ?s = "demo_app\<lparr> ra_transport := () \<rparr>"
  have l: "bl_take_updates (fold bl_event (stake_events 1 [(7, Bond 5)] []) (seeded_from [(7, 10)]))
      = ([\<lparr> vu_node_id = 7, vu_weight = 15 \<rparr>],
         \<lparr> bl_stake = [(7, 15)], bl_unbonding = [], bl_current_height = 1, bl_pending = [] \<rparr>)"
    by (simp add: stake_events_def seeded_from_def bl_empty_def bl_take_updates_def bl_advance_to_height_def bl_stake_of_def
        bl_push_def saturating_add_def Let_def)
  have d: "derive_validator_updates demo_reth_env demo_payload 1 s = ([\<lparr> vu_node_id = 7, vu_weight = 15 \<rparr>],
      s\<lparr> ra_transport := (), ra_stake_source := \<lparr> bl_stake = [(7, 15)], bl_unbonding = [], bl_current_height = 1, bl_pending = [] \<rparr> \<rparr>)"
    if "ra_stake_source s = seeded_from [(7, 10)]" for s
    using that l by (simp add: derive_validator_updates_def bh demo_fetch demo_stake_logs demo_other_logs)
  have e: "derive_block_effects demo_reth_env demo_payload t = ([], t)" for t
    by (simp add: derive_block_effects_def bh derive_effects_with_def derive_predeploy_effects_def demo_fetch demo_other_logs)
  have g: "backfill_self_synced_gap demo_reth_env demo_payload 0 1 s = ([], s)" for s
    by (simp add: backfill_self_synced_gap_def)
  obtain r s' where c: "commit_valid demo_reth_env demo_evm_block demo_payload 7 ?s = (r, s')" by (rule prod.exhaust)
  have "ra_committed_root s' = 7 \<and> cr_validator_updates r = [\<lparr> vu_node_id = 7, vu_weight = 15 \<rparr>] \<and> ra_pending_weights s' = [(7, 15)]"
    using c by (simp add: commit_valid_def Let_def demo_evm_block_def demo_app_def g d e push_recent_def bh
        reconcile_pending_weights_def carried_weights_def demo_carried add_updates_def) auto
  moreover have "app_commit demo_reth_env demo_evm_block demo_app = (Some r, s')"
    using c by (simp add: app_commit_def demo_evm_block_def f demo_state_root demo_app_def demo_execute)
  ultimately show ?thesis by blast
qed

theorem seated_weights_current_witness:
  "\<exists>r s'. app_commit demo_reth_env demo_evm_block demo_app = (Some r, s')
     \<and> bt_get (ra_pending_weights s') 7 = Some 15 \<and> bl_stake_of (ra_stake_source s') 7 = 15"
proof -
  obtain r s' where c: "app_commit demo_reth_env demo_evm_block demo_app = (Some r, s')" "ra_committed_root s' = 7"
      "ra_pending_weights s' = [(7, 15)]"
    using demo_commit by blast
  have "s' \<noteq> demo_app\<lparr> ra_transport := ra_transport s' \<rparr>"
  proof
    assume e: "s' = demo_app\<lparr> ra_transport := ra_transport s' \<rparr>"
    have "ra_committed_root s' = 0" by (subst e) (simp add: demo_app_def)
    with c(2) show False by simp
  qed
  then have "bl_stake_of (ra_stake_source s') 7 = 15"
    using seated_weights_current[OF demo_app_wf app_reach.init c(1)] c(3) by auto
  then show ?thesis using c by auto
qed

text \<open>A hex library with the digits \<open>a\<close> to \<open>p\<close>.\<close>

definition nibble_hex :: "bytes \<Rightarrow> string" where
  "nibble_hex bs = concat (map (\<lambda>b. [char_of (97 + unat b div 16), char_of (97 + unat b mod 16)]) bs)"

fun nibble_unhex :: "string \<Rightarrow> bytes option" where
  "nibble_unhex [] = Some []"
| "nibble_unhex [a] = None"
| "nibble_unhex (a # b # s) = map_option ((#) (of_nat ((of_char a - 97) * 16 + (of_char b - 97)))) (nibble_unhex s)"

lemma nibble_char:
  assumes "n < 16"
  shows "of_char (char_of (97 + n :: nat)) = 97 + n" "char_of (97 + n :: nat) \<noteq> CHR ''x''"
proof -
  show n: "of_char (char_of (97 + n :: nat)) = 97 + n" using assms by simp
  show "char_of (97 + n :: nat) \<noteq> CHR ''x''"
  proof
    assume "char_of (97 + n :: nat) = CHR ''x''"
    then have "97 + n = of_char (CHR ''x'')" using n by metis
    then show False using assms by simp
  qed
qed

lemma nibble_hex_ok: "hex_ok nibble_hex nibble_unhex"
  unfolding hex_ok_def
proof
  fix bs
  show "nibble_unhex (nibble_hex bs) = Some bs \<and> length (nibble_hex bs) = 2 * length bs \<and> CHR ''x'' \<notin> set (nibble_hex bs)"
  proof (induction bs)
    case (Cons b bs)
    have "unat b < 256" using unat_bound[of b] by simp
    then have n: "unat b div 16 < 16" "unat b mod 16 < 16" by auto
    have "unat b div 16 * 16 + unat b mod 16 = unat b" by simp
    then have b: "(of_nat (unat b div 16 * 16 + unat b mod 16) :: 8 word) = b" by (simp only:) simp
    have h: "nibble_hex (b # bs) = char_of (97 + unat b div 16) # char_of (97 + unat b mod 16) # nibble_hex bs"
      by (simp add: nibble_hex_def)
    have "nibble_unhex (nibble_hex (b # bs)) = Some (b # bs)"
      unfolding h nibble_unhex.simps nibble_char(1)[OF n(1)] nibble_char(1)[OF n(2)] diff_add_inverse b using Cons by simp
    moreover have "CHR ''x'' \<notin> set (nibble_hex (b # bs))"
      unfolding h using Cons nibble_char(2)[OF n(1)] nibble_char(2)[OF n(2)] by simp
    ultimately show ?case using Cons h by simp
  qed (simp add: nibble_hex_def)
qed

text \<open>A proposer with a rotation command in its pool: the proposal of view 100 announces one
  key and a settled view.\<close>

definition demo_rotation_cmd :: bytes where
  "demo_rotation_cmd = ROTATION_TAG @ [1]"

definition demo_key_rp :: registry_payload where
  "demo_key_rp = \<lparr> rp_keys = [\<lparr> rk_validator = 7, rk_v_eff = 200,
       rk_key128 = of_be_bytes (replicate 16 0 @ be_bytes 48 (1 :: 384 word) @ replicate 16 0 @ be_bytes 48 (2 :: 384 word)) \<rparr>],
     rp_weights = [], rp_settled_view = Some (conservative_settled_view 100) \<rparr>"

definition demo_key_payload :: json where
  "demo_key_payload = JObject [(''blockHash'', JString ''0xaa''), (''stateRoot'', JString (''0x'' @ nibble_hex (be_bytes 32 (7 :: hash256)))),
     (''blockNumber'', JString ''0x1''), (''timestamp'', JString ''0x1''),
     (''extraData'', JString (''0x'' @ nibble_hex (rp_encode demo_key_rp)))]"

definition demo_key_answer :: json where
  "demo_key_answer = JObject [(''status'', JString ''VALID''), (''payloadStatus'', JObject [(''status'', JString ''VALID'')]),
     (''payloadId'', JString ''0x1''), (''executionPayload'', demo_key_payload)]"

definition demo_key_env :: "(unit, u32, bls_pk, bls_sig) reth_env" where
  "demo_key_env = demo_reth_env
     \<lparr> rn_call := (\<lambda>_ _ t. (Some demo_key_answer, t)), rn_proof := demo_proof_env\<lparr> pv_enhex := nibble_hex, pv_unhex := nibble_unhex \<rparr>,
       rn_rot := (rn_rot demo_reth_env)\<lparr> re_un_rotation := (\<lambda>_. Some
         \<lparr> dsr_payload = \<lparr> vkr_validator = 7, vkr_new_pubkey = 99, vkr_v_eff = 200, vkr_new_bls_pubkey = Some 5, vkr_new_bls_pop = None \<rparr>,
           dsr_sig_old = 0, dsr_sig_new = 0 \<rparr>) \<rparr>,
       rn_xy := (\<lambda>_. Some (1, 2)), rn_from_slice := (\<lambda>bs. if bs = [123] then Some demo_key_payload else None),
       rn_to_vec := (\<lambda>pl. if pl = demo_key_payload then Some [123] else None) \<rparr>"

definition demo_key_app :: "unit reth_app" where
  "demo_key_app = demo_app\<lparr> ra_mempool := \<lparr> mp_max_size = 8, mp_order = [demo_rotation_cmd], mp_seen = {} \<rparr> \<rparr>"

definition demo_genesis :: block where
  "demo_genesis = genesis_block (rn_hp demo_key_env) 0 0"

lemma demo_key_fields:
  "pv_enhex (rn_proof demo_key_env) = nibble_hex" "rn_unhex demo_key_env = nibble_unhex"
  "rn_call demo_key_env m ps t = (Some demo_key_answer, t)" "rn_to_vec demo_key_env demo_key_payload = Some [123]"
  "ra_pending_weights demo_key_app = []" "mp_propose SYSTEM_TX_LIMIT (ra_mempool demo_key_app) = [demo_rotation_cmd]"
  by (simp_all add: demo_key_env_def demo_key_app_def demo_app_def mp_propose_def SYSTEM_TX_LIMIT_def)

lemma demo_key_registry: "registry_payload_for_build demo_key_env demo_key_app 100 [demo_rotation_cmd] = demo_key_rp"
proof -
  have "is_rotation_payload demo_rotation_cmd" by (simp add: is_rotation_payload_def demo_rotation_cmd_def starts_with_iff)
  then have "record_key_for_rotation (rn_rot demo_key_env) (rn_xy demo_key_env) demo_rotation_cmd = Inr (Some (hd (rp_keys demo_key_rp)))"
    by (simp add: record_key_for_rotation_def decode_rotation_def tagged_decode_def demo_rotation_cmd_def demo_key_env_def
        demo_reth_env_def bls_pubkey_to_eip2537_g1_def demo_key_rp_def)
  moreover have "conservative_settled_view 100 \<noteq> 0"
    by (simp add: conservative_settled_view_def SETTLED_VIEW_MARGIN_def MIN_V_EFF_DELAY_def saturating_sub_def)
  ultimately show ?thesis
    by (simp add: registry_payload_for_build_def rp_new_def demo_key_fields Let_def) (simp add: demo_key_rp_def)
qed

definition demo_built :: built_block where
  "demo_built = \<lparr> bb_execution_payload = demo_key_payload, bb_block_hash = ''0xaa'',
     bb_state_root = ''0x'' @ nibble_hex (be_bytes 32 (7 :: hash256)), bb_block_number = 1, bb_tx_count = 0 \<rparr>"

lemma demo_build_block: "build_block demo_key_env fee h ts reg t = (Some demo_built, t)"
proof -
  have "expect_valid (jget (jget demo_key_answer ''payloadStatus'') ''status'')" "as_str (jget demo_key_answer ''payloadId'') = Some ''0x1''"
      "jget demo_key_answer ''executionPayload'' = demo_key_payload"
    by (simp_all add: demo_key_answer_def expect_valid_def)
  moreover have "built_of_payload demo_key_payload = Some demo_built"
    by (simp add: built_of_payload_def demo_key_payload_def hex_u64_def demo_built_def)
  ultimately show ?thesis by (simp add: build_block_def demo_key_fields)
qed

lemma demo_build_payload: "build_payload demo_key_env s h ts rp t = (Some (demo_built, [123]), t)"
  by (simp add: build_payload_def demo_build_block demo_key_fields register_payload_def)
    (simp add: demo_key_answer_def payload_status_def demo_built_def demo_key_fields)

lemma demo_not_empty: "\<not> rp_is_empty demo_key_rp"
  by (simp add: rp_is_empty_def demo_key_rp_def)

lemma demo_client_carries:
  "client_carries demo_key_env [] demo_key_app (to_attribute_hex (pv_enhex (rn_proof demo_key_env))
     (registry_payload_for_build demo_key_env demo_key_app 100 (mp_propose SYSTEM_TX_LIMIT (ra_mempool demo_key_app))))"
  unfolding demo_key_fields demo_key_registry client_carries_def demo_build_block extra_data_of_attribute[OF nibble_hex_ok]
  by (simp add: demo_not_empty demo_built_def demo_key_payload_def)

lemma demo_json_ok: "json_ok demo_key_env"
  by (auto simp: json_ok_def demo_key_env_def split: if_splits)

lemma demo_build: "\<exists>b s'. build_proposal demo_key_env demo_key_app demo_genesis 100 [] 5000 = Some (Some b, s')"
proof -
  have g: "commands demo_genesis = []" "hdr_height (header demo_genesis) = 0" by (simp_all add: demo_genesis_def genesis_block_def)
  have h: "ra_committed_height demo_key_app = 0" by (simp add: demo_key_app_def demo_app_def)
  have "trim_0x (''0x'' @ nibble_hex (be_bytes 32 (7 :: hash256))) = nibble_hex (be_bytes 32 (7 :: hash256))"
    by (rule trim_prefixed_hex[OF nibble_hex_ok])
  then have "root_from_hex nibble_unhex (''0x'' @ nibble_hex (be_bytes 32 (7 :: hash256))) = Some 7"
    using nibble_hex_ok by (simp add: root_from_hex_def hex_ok_def)
  then have r: "\<exists>root. root_from_hex nibble_unhex (bb_state_root demo_built) = Some root" by (simp add: demo_built_def)
  have w: "rp_weights demo_key_rp = []" by (simp add: demo_key_rp_def)
  show ?thesis
    using r by (auto simp: build_proposal_def parent_evm_anchor_def g h uncommitted_chain_def walk_fuel_def demo_key_fields Let_def
        demo_key_registry demo_build_payload proof_commands_def w)
qed

theorem honest_proposal_validates_witness:
  "\<exists>b s'. build_proposal demo_key_env demo_key_app demo_genesis 100 [] 5000 = Some (Some b, s')
     \<and> registry_payload_for_build demo_key_env demo_key_app 100 (mp_propose SYSTEM_TX_LIMIT (ra_mempool demo_key_app)) = demo_key_rp
     \<and> length (rp_keys demo_key_rp) = 1 \<and> rp_settled_view demo_key_rp = Some (conservative_settled_view 100)
     \<and> validate_proposal demo_key_env b (\<lambda>_. None) = Inr ()"
proof -
  obtain b s' where b: "build_proposal demo_key_env demo_key_app demo_genesis 100 [] 5000 = Some (Some b, s')" using demo_build by blast
  have hex: "hex_ok (pv_enhex (rn_proof demo_key_env)) (rn_unhex demo_key_env)" unfolding demo_key_fields by (rule nibble_hex_ok)
  have "rp_decode [] = None" "short (ra_pending_weights demo_key_app)"
    by (simp_all add: rp_decode_def cursor_take_def cursor_new_def demo_key_fields short_def)
  note v = honest_proposal_validates[OF b hex demo_json_ok this demo_client_carries, of "\<lambda>_. None"]
  have "registry_payload_for_build demo_key_env demo_key_app 100 (mp_propose SYSTEM_TX_LIMIT (ra_mempool demo_key_app)) = demo_key_rp"
    unfolding demo_key_fields by (rule demo_key_registry)
  moreover have "length (rp_keys demo_key_rp) = 1" "rp_settled_view demo_key_rp = Some (conservative_settled_view 100)"
    by (simp_all add: demo_key_rp_def)
  ultimately show ?thesis using v b demo_key_fields(5) by blast
qed

end
