(* ===== verification/Node_Commit.thy ===== *)
theory Node_Commit
  imports Node_Histories Persistence Evidence App_Reconfig Consensus_Params Liveness_Tracker
begin

text \<open>
  The commit of a block by a node, with everything it does (\<open>consensus_node/commit.rs\<close>,
  \<open>param_apply.rs\<close>), and the snapshots it takes, serves and restores (\<open>snapshot_io.rs\<close>). The
  components meet here in one state. The application is a parameter with its own state;
  its calls and the encodings are fields of \<open>node_env\<close>. The store and the pool are those of
  the evidence component. \<open>None\<close> is a panic; log messages and the commit notifier, which
  only reports, are left out.
\<close>

section \<open>State and environment\<close>

record 'a full_node =
  fn_node :: "validator_update node"
  fn_app :: 'a
  fn_validator_set :: validator_set
  fn_effects :: "validator_effect list"
  fn_evidence :: evidence_state
  fn_params :: consensus_param_history
  fn_min_block_interval :: nat
  fn_last_height :: height
  fn_last_view :: view
  fn_checkpoint :: "(height \<times> hash256) option"
  fn_retention :: u64
  fn_policy :: snapshot_policy
  fn_recent_qcs :: recent_qc_cache
  fn_liveness :: liveness_tracker

record ('a, 'g1, 'g2) node_env =
  ne_hp :: hash_prims
  ne_persist :: persist_codec
  ne_snapshot_codec :: snapshot_codec
  ne_reconfig :: "('g1, 'g2) reconfig_env"
  ne_rotation :: "('g1, 'g2) rotation_env"
  ne_evidence :: "('g1, 'g2) evidence_env"
  ne_endpoint :: endpoint_env
  ne_param_un :: "bytes \<Rightarrow> consensus_param_update option"
  ne_digest :: "bytes \<Rightarrow> hash256"
  ne_put :: "node_put \<Rightarrow> bytes option"
  ne_put_params :: "persisted_consensus_param_history \<Rightarrow> bytes option"
  ne_chain :: chain_id
  ne_min_v_eff_delay :: view
  ne_commit :: "block \<Rightarrow> 'a \<Rightarrow> commit_result option \<times> 'a"
  ne_slash :: "validator_id \<Rightarrow> 'a \<Rightarrow> 'a"
  ne_snapshot :: "'a \<Rightarrow> bytes"
  ne_restore :: "bytes \<Rightarrow> 'a \<Rightarrow> bool \<times> 'a"
  ne_state_commitment :: "'a \<Rightarrow> hash256"
  ne_unix_secs :: u64

abbreviation fn_storage :: "'a full_node \<Rightarrow> memory_storage" where
  "fn_storage n \<equiv> ev_storage (fn_evidence n)"

definition fn_write :: "write_op list \<Rightarrow> 'a full_node \<Rightarrow> 'a full_node" where
  "fn_write ops n = n\<lparr> fn_evidence := (fn_evidence n)\<lparr> ev_storage := ms_apply_batch (fn_storage n) ops \<rparr> \<rparr>"

definition STORAGE_KEY_VALIDATOR_HISTORY :: bytes where
  "STORAGE_KEY_VALIDATOR_HISTORY = ascii ''consensus/validator_history''"

definition STORAGE_KEY_VALIDATOR_KEY_HISTORY :: bytes where
  "STORAGE_KEY_VALIDATOR_KEY_HISTORY = ascii ''consensus/validator_key_history''"

definition STORAGE_KEY_BLS_KEY_HISTORY :: bytes where
  "STORAGE_KEY_BLS_KEY_HISTORY = ascii ''consensus/bls_key_history''"

definition STORAGE_KEY_OPERATOR_KEY_HISTORY :: bytes where
  "STORAGE_KEY_OPERATOR_KEY_HISTORY = ascii ''consensus/operator_key_history''"

definition STORAGE_KEY_PARAM_HISTORY :: bytes where
  "STORAGE_KEY_PARAM_HISTORY = ascii ''consensus/param_history''"

definition STORAGE_KEY_ENDPOINT_REGISTRY :: bytes where
  "STORAGE_KEY_ENDPOINT_REGISTRY = ascii ''consensus/endpoint_registry''"

fun put_key :: "node_put \<Rightarrow> bytes" where
  "put_key (PutOperatorHistory _) = STORAGE_KEY_OPERATOR_KEY_HISTORY"
| "put_key (PutKeyHistory _) = STORAGE_KEY_VALIDATOR_KEY_HISTORY"
| "put_key (PutBlsHistory _) = STORAGE_KEY_BLS_KEY_HISTORY"
| "put_key (PutValidatorHistory _) = STORAGE_KEY_VALIDATOR_HISTORY"
| "put_key (PutEndpointRegistry _) = STORAGE_KEY_ENDPOINT_REGISTRY"

text \<open>A history that does not encode is only logged.\<close>

definition put_writes :: "('a, 'g1, 'g2) node_env \<Rightarrow> node_put list \<Rightarrow> write_op list" where
  "put_writes env ps = List.map_filter (\<lambda>p. map_option (WPut (put_key p)) (ne_put env p)) ps"

section \<open>Parameters\<close>

definition param_step ::
  "('a, 'g1, 'g2) node_env \<Rightarrow> view \<Rightarrow> bytes \<Rightarrow> consensus_param_history \<times> bool \<Rightarrow> consensus_param_history \<times> bool" where
  "param_step env v bs = (\<lambda>(h, inserted).
     (if \<not> is_param_update_payload bs then (h, inserted)
      else (case param_decode (ne_param_un env) bs of
        Inl _ \<Rightarrow> (h, inserted)
      | Inr cmd \<Rightarrow>
          (case validate_against cmd v of
             Inl _ \<Rightarrow> (h, inserted)
           | Inr _ \<Rightarrow>
               (case ph_insert_boundary h (upd_v_eff cmd) (apply_to cmd (param_latest h)) of
                  Inl _ \<Rightarrow> (h, inserted)
                | Inr h' \<Rightarrow> (h', True))))))"

definition persist_param_history :: "('a, 'g1, 'g2) node_env \<Rightarrow> 'a full_node \<Rightarrow> 'a full_node" where
  "persist_param_history env n =
     (case ne_put_params env (ph_to_persisted (fn_params n)) of
        None \<Rightarrow> n
      | Some bs \<Rightarrow> fn_write [WPut STORAGE_KEY_PARAM_HISTORY bs] n)"

definition apply_committed_param_updates :: "('a, 'g1, 'g2) node_env \<Rightarrow> block \<Rightarrow> 'a full_node \<Rightarrow> 'a full_node" where
  "apply_committed_param_updates env b n =
     (case fold (param_step env (hdr_view (header b))) (commands b) (fn_params n, False) of
        (h, inserted) \<Rightarrow>
          (let n1 = n\<lparr> fn_params := h \<rparr>;
               n2 = (if inserted then persist_param_history env n1 else n1) in
           n2\<lparr> fn_min_block_interval := min_block_interval (param_at h (hdr_view (header b))) \<rparr>))"

section \<open>Snapshots\<close>

text \<open>No certificate at hand: no snapshot, and no error.\<close>

definition try_take_snapshot ::
  "('a, 'g1, 'g2) node_env \<Rightarrow> block \<Rightarrow> 'a full_node \<Rightarrow> (store_error + 'a full_node) option" where
  "try_take_snapshot env b n =
     (case rq_get (fn_recent_qcs n) (block_hash_of (ne_hp env) b) of
        None \<Rightarrow> Some (Inr n)
      | Some qc \<Rightarrow>
     (case chunk_snapshot (sc_sha256 (ne_snapshot_codec env)) (ne_snapshot env (fn_app n)) (chunk_size_bytes (fn_policy n)) of
        None \<Rightarrow> None
      | Some cs \<Rightarrow>
     (case set_at (nd_history (fn_node n)) (hdr_view (header b)) of
        None \<Rightarrow> None
      | Some a \<Rightarrow>
     (case manifest_build (ne_hp env) b (for_view a (hdr_view (header b))) (chunk_size_bytes (fn_policy n)) (map snd cs) qc
             (ne_unix_secs env) (vh_to_persisted (nd_history (fn_node n))) (kh_to_persisted (nd_key (fn_node n)))
             (map_option bkh_to_persisted (nd_bls (fn_node n))) (Some (okh_to_persisted (nd_operator (fn_node n)))) of
        None \<Rightarrow> None
      | Some m \<Rightarrow>
     (case save (ne_snapshot_codec env) (fn_storage n) m (map fst cs) of
        None \<Rightarrow> None
      | Some (Inl e) \<Rightarrow> Some (Inl e)
      | Some (Inr st) \<Rightarrow>
          Some (Inr (n\<lparr> fn_evidence := (fn_evidence n)\<lparr> ev_storage := snd (prune_older_than st (retention_count (fn_policy n))) \<rparr> \<rparr>)))))))"

definition serve_snapshot_manifest :: "('a, 'g1, 'g2) node_env \<Rightarrow> u64 option \<Rightarrow> 'a full_node \<Rightarrow> snapshot_manifest option" where
  "serve_snapshot_manifest env height n =
     (let load = (\<lambda>h. case load_manifest (ne_snapshot_codec env) (fn_storage n) h of Inr m \<Rightarrow> m | Inl _ \<Rightarrow> None) in
      case height of
        Some h \<Rightarrow> load h
      | None \<Rightarrow>
          (case latest_height (ne_snapshot_codec env) (fn_storage n) of
             Inr (Some h) \<Rightarrow> load h
           | Inr None \<Rightarrow> None
           | Inl _ \<Rightarrow> None))"

definition serve_snapshot_chunk :: "height \<Rightarrow> u32 \<Rightarrow> 'a full_node \<Rightarrow> bytes option" where
  "serve_snapshot_chunk h idx n = load_chunk (fn_storage n) h idx"

section \<open>Restoring\<close>

datatype restore_error =
    AppRestoreFailed | StateCommitmentMismatch hash256 hash256 | NotPersistAction
  | RestoreEncode persist_error | BadValidatorHistory | BadKeyHistory | BadBlsHistory
  | ReplayBoundary view history_error

definition safety_write :: "('a, 'g1, 'g2) node_env \<Rightarrow> action \<Rightarrow> restore_error + write_op" where
  "safety_write env a =
     (case a of
        Persist (VotedInView v) \<Rightarrow>
          map_sum RestoreEncode (WPut STORAGE_KEY_LAST_VOTED_VIEW) (encoded (pe_view (ne_persist env)) v)
      | Persist (LockedUpdate l) \<Rightarrow> map_sum RestoreEncode (WPut STORAGE_KEY_LOCKED) (encoded (pe_locked (ne_persist env)) l)
      | Persist (HighQcUpdate qc) \<Rightarrow> map_sum RestoreEncode (WPut STORAGE_KEY_HIGH_QC) (encoded (pe_qc (ne_persist env)) qc)
      | _ \<Rightarrow> Inl NotPersistAction)"

fun replay_boundaries :: "(view \<times> validator_set) list \<Rightarrow> hotstuff_core \<Rightarrow> (restore_error + unit) \<times> hotstuff_core" where
  "replay_boundaries [] c = (Inr (), c)"
| "replay_boundaries ((v, vs) # bs) c =
     (if v = 0 then replay_boundaries bs c
      else (case insert_validator_boundary c v vs of
              Inl e \<Rightarrow> (Inl (ReplayBoundary v e), c)
            | Inr c' \<Rightarrow> replay_boundaries bs c'))"

text \<open>The histories of a manifest, decoded in order.\<close>

definition restored_histories ::
  "snapshot_manifest \<Rightarrow> restore_error + validator_set_history \<times> validator_key_history \<times> bls_key_history option" where
  "restored_histories m =
     (case vh_from_persisted (sm_validator_history m) of Inl _ \<Rightarrow> Inl BadValidatorHistory | Inr sh \<Rightarrow>
     (case kh_from_persisted (sm_validator_key_history m) of Inl _ \<Rightarrow> Inl BadKeyHistory | Inr kh \<Rightarrow>
     (case sm_bls_key_history m of
        None \<Rightarrow> Inr (sh, kh, None)
      | Some p \<Rightarrow> (case bkh_from_persisted p of Inl _ \<Rightarrow> Inl BadBlsHistory | Inr bls \<Rightarrow> Inr (sh, kh, Some bls)))))"

text \<open>The last part: the histories replace those of the node and are written.\<close>

definition install_histories ::
  "('a, 'g1, 'g2) node_env \<Rightarrow> snapshot_manifest \<Rightarrow> validator_set_history \<times> validator_key_history \<times> bls_key_history option
     \<Rightarrow> 'a full_node \<Rightarrow> 'a full_node option" where
  "install_histories env m hist n =
     (case hist of (sh, kh, bls) \<Rightarrow>
     (case current_set sh of None \<Rightarrow> None | Some vs \<Rightarrow>
     (case ws_new sh of None \<Rightarrow> None | Some selector \<Rightarrow>
      (let nd = (fn_node n)\<lparr> nd_history := sh, nd_key := kh, nd_bls := bls,
             nd_pacemaker := set_selector selector (nd_pacemaker (fn_node n)) \<rparr>;
           n1 = fn_write (put_writes env ([PutValidatorHistory (vh_to_persisted sh), PutKeyHistory (kh_to_persisted kh)]
                  @ (case bls of Some x \<Rightarrow> [PutBlsHistory (bkh_to_persisted x)] | None \<Rightarrow> [])))
                (n\<lparr> fn_validator_set := vs, fn_node := nd \<rparr>) in
       Some (n1\<lparr> fn_recent_qcs := rq_insert (sm_block_hash m) (sm_commit_qc m) RECENT_QC_CACHE_CAPACITY (fn_recent_qcs n1) \<rparr>)))))"

text \<open>The writes of the snapshot's block and of the adopted safety state.\<close>

definition restore_batch ::
  "('a, 'g1, 'g2) node_env \<Rightarrow> snapshot_manifest \<Rightarrow> action list \<Rightarrow> restore_error + write_op list" where
  "restore_batch env m as =
     (case try_map (safety_write env) as of Inl e \<Rightarrow> Inl e | Inr safety \<Rightarrow>
     (case encoded (pe_block (ne_persist env)) (sm_block m) of Inl e \<Rightarrow> Inl (RestoreEncode e) | Inr block_bytes \<Rightarrow>
     (case encoded (pe_last_committed (ne_persist env))
             \<lparr> lc_height = sm_height m, lc_view = sm_view m, lc_hash = sm_block_hash m \<rparr> of
        Inl e \<Rightarrow> Inl (RestoreEncode e)
      | Inr lc_bytes \<Rightarrow>
          Inr ([WPut (block_storage_key (sm_block_hash m)) block_bytes, WPut STORAGE_KEY_LAST_COMMITTED lc_bytes] @ safety))))"

definition advance_last :: "height \<Rightarrow> view \<Rightarrow> 'a full_node \<Rightarrow> 'a full_node" where
  "advance_last h v n = (if h > fn_last_height n then n\<lparr> fn_last_height := h, fn_last_view := v \<rparr> else n)"

definition restore_from_snapshot ::
  "('a, 'g1, 'g2) node_env \<Rightarrow> snapshot_manifest \<Rightarrow> bytes \<Rightarrow> 'a full_node
     \<Rightarrow> ((restore_error + unit) \<times> 'a full_node) option" where
  "restore_from_snapshot env m pl n =
     (case ne_restore env pl (fn_app n) of (ok, a) \<Rightarrow>
      (let n0 = n\<lparr> fn_app := a \<rparr> in
       if \<not> ok then Some (Inl AppRestoreFailed, n0)
       else if ne_state_commitment env a \<noteq> sm_state_commitment m
       then Some (Inl (StateCommitmentMismatch (ne_state_commitment env a) (sm_state_commitment m)), n0)
       else (case adopt_snapshot (ne_hp env) (nd_core (fn_node n)) (sm_block m) (sm_commit_qc m) (sm_view m) of
               (as, core) \<Rightarrow>
             (let n1 = n0\<lparr> fn_node := (fn_node n)\<lparr> nd_core := core \<rparr> \<rparr> in
              case restore_batch env m as of
                Inl e \<Rightarrow> Some (Inl e, n1)
              | Inr ops \<Rightarrow>
                  (let n2 = advance_last (sm_height m) (sm_view m) (fn_write ops n1) in
                   case restored_histories m of
                     Inl e \<Rightarrow> Some (Inl e, n2)
                   | Inr hist \<Rightarrow>
                       (case replay_boundaries (vh_iter (fst hist)) core of
                          (Inl e, core') \<Rightarrow> Some (Inl e, n2\<lparr> fn_node := (fn_node n2)\<lparr> nd_core := core' \<rparr> \<rparr>)
                        | (Inr _, core') \<Rightarrow>
                            map_option (\<lambda>n3. (Inr (), n3))
                              (install_histories env m hist (n2\<lparr> fn_node := (fn_node n2)\<lparr> nd_core := core' \<rparr> \<rparr>))))))))"

section \<open>Committing\<close>

definition weak_subjectivity_violation :: "(height \<times> hash256) option \<Rightarrow> height \<Rightarrow> hash256 \<Rightarrow> bool" where
  "weak_subjectivity_violation cp h bh = (case cp of None \<Rightarrow> False | Some (ch, chash) \<Rightarrow> h = ch \<and> bh \<noteq> chash)"

definition observe_commit :: "block \<Rightarrow> hash256 \<Rightarrow> 'a full_node \<Rightarrow> 'a full_node option" where
  "observe_commit b bh n =
     (case rq_get (fn_recent_qcs n) bh of
        None \<Rightarrow> Some n
      | Some qc \<Rightarrow>
          (case set_at (nd_history (fn_node n)) (hdr_view (header b)) of
             None \<Rightarrow> None
           | Some a \<Rightarrow>
               (let ms = members (for_view a (hdr_view (header b)));
                    credited = List.map_filter (\<lambda>i. if i < length ms then Some (ms ! i) else None) (signer_indices qc) in
                Some (n\<lparr> fn_liveness := observe ms credited (fn_liveness n) \<rparr>))))"

text \<open>The durable part of a commit: pool, frontier, checkpoint, block, index and pruning.\<close>

definition commit_durably :: "('a, 'g1, 'g2) node_env \<Rightarrow> block \<Rightarrow> 'a full_node \<Rightarrow> 'a full_node option" where
  "commit_durably env b n =
     (let bh = block_hash_of (ne_hp env) b;
          n0 = n\<lparr> fn_evidence := (fn_evidence n)\<lparr> ev_mempool := mp_remove_committed (ne_digest env) (commands b) (ev_mempool (fn_evidence n)) \<rparr> \<rparr>;
          n1 = advance_last (hdr_height (header b)) (hdr_view (header b)) n0 in
      if weak_subjectivity_violation (fn_checkpoint n1) (hdr_height (header b)) bh then None
      else (case commit_batch (ne_persist env) bh b
                   \<lparr> lc_height = fn_last_height n1, lc_view = fn_last_view n1, lc_hash = bh \<rparr>
                   (prune_targets_for_commit (fn_storage n1) (fn_last_height n1) (fn_retention n1)) of
              Inl _ \<Rightarrow> None
            | Inr ops \<Rightarrow> Some (fn_write ops n1)))"

definition snapshot_if_due :: "('a, 'g1, 'g2) node_env \<Rightarrow> block \<Rightarrow> 'a full_node \<Rightarrow> 'a full_node option" where
  "snapshot_if_due env b n =
     (if \<not> should_snapshot_at (fn_policy n) (hdr_height (header b)) then Some n
      else (case try_take_snapshot env b n of
              None \<Rightarrow> None
            | Some (Inl _) \<Rightarrow> Some n
            | Some (Inr n') \<Rightarrow> Some n'))"

definition with_puts :: "('a, 'g1, 'g2) node_env \<Rightarrow> (validator_update node \<times> node_put list) option \<Rightarrow> 'a full_node \<Rightarrow> 'a full_node option" where
  "with_puts env r n = map_option (\<lambda>(nd, ps). fn_write (put_writes env ps) (n\<lparr> fn_node := nd \<rparr>)) r"

definition commit_evidence :: "('a, 'g1, 'g2) node_env \<Rightarrow> block \<Rightarrow> 'a full_node \<Rightarrow> 'a full_node option" where
  "commit_evidence env b n =
     map_option (\<lambda>(slashed, ev). n\<lparr> fn_evidence := ev, fn_app := fold (ne_slash env) slashed (fn_app n) \<rparr>)
       (apply_committed_evidence (ne_evidence env) (nd_history (fn_node n)) (nd_key (fn_node n)) (ne_chain env) b (fn_evidence n))"

definition apply_commit :: "('a, 'g1, 'g2) node_env \<Rightarrow> block \<Rightarrow> 'a full_node \<Rightarrow> 'a full_node option" where
  "apply_commit env b n =
     do { n1 \<leftarrow> commit_durably env b n;
          n2 \<leftarrow> snapshot_if_due env b n1;
          n3 \<leftarrow> with_puts env (apply_committed_reconfigs (ne_reconfig env) (ne_min_v_eff_delay env) (ne_chain env) b (fn_node n2)) n2;
          n4 \<leftarrow> with_puts env (apply_committed_rotations (ne_rotation env) (ne_chain env) b (fn_node n3)) n3;
          n5 \<leftarrow> commit_evidence env b n4;
          n6 \<leftarrow> with_puts env (apply_committed_endpoints (ne_endpoint env) (ne_chain env) b (fn_node n5)) n5;
          observe_commit b (block_hash_of (ne_hp env) b) (apply_committed_param_updates env b n6) }"

definition stage_updates :: "commit_result \<Rightarrow> 'a full_node \<Rightarrow> 'a full_node" where
  "stage_updates r n =
     n\<lparr> fn_node := (fn_node n)\<lparr> nd_staged_updates := nd_staged_updates (fn_node n) @ cr_validator_updates r \<rparr>,
        fn_effects := fn_effects n @ cr_effects r \<rparr>"

definition node_commit_block :: "('a, 'g1, 'g2) node_env \<Rightarrow> block \<Rightarrow> 'a full_node \<Rightarrow> 'a full_node option" where
  "node_commit_block env b n =
     (case ne_commit env b (fn_app n) of
        (r, a) \<Rightarrow>
          (let n1 = n\<lparr> fn_app := a \<rparr> in
           apply_commit env b (case r of Some x \<Rightarrow> stage_updates x n1 | None \<Rightarrow> n1)))"

end
