(* ===== verification/Commit_Durability.thy ===== *)
theory Commit_Durability
  imports Node_Commit
begin

text \<open>
  What a commit leaves in the store: the block, its height and the frontier, whatever the
  snapshot, the histories, the evidence and the parameters write after it. And what a
  restore that fails half way leaves behind.
\<close>

section \<open>Keys of the chain\<close>

definition chain_key :: "bytes \<Rightarrow> bool" where
  "chain_key k \<longleftrightarrow> starts_with k STORAGE_KEY_BLOCK_PREFIX \<or> starts_with k STORAGE_KEY_HEIGHT_PREFIX \<or> k = STORAGE_KEY_LAST_COMMITTED"

fun op_key :: "write_op \<Rightarrow> bytes" where
  "op_key (WPut k _) = k"
| "op_key (WDelete k) = k"

lemma final_write_None: "k \<notin> op_key ` set ops \<Longrightarrow> final_write ops k = None"
proof (induction ops)
  case (Cons op ops)
  then show ?case by (cases op) auto
qed simp

lemma batch_other: "bt_wf s \<Longrightarrow> k \<notin> op_key ` set ops \<Longrightarrow> ms_get (ms_apply_batch s ops) k = ms_get s k"
  by (simp add: ms_apply_batch_def ms.batch_get final_write_None)

lemma batch_wf: "bt_wf s \<Longrightarrow> bt_wf (ms_apply_batch s ops)"
  by (simp add: ms_apply_batch_def ms.batch_ok)

lemmas key_defs = STORAGE_KEY_BLOCK_PREFIX_def STORAGE_KEY_HEIGHT_PREFIX_def STORAGE_KEY_LAST_COMMITTED_def
  STORAGE_KEY_VALIDATOR_HISTORY_def STORAGE_KEY_VALIDATOR_KEY_HISTORY_def STORAGE_KEY_BLS_KEY_HISTORY_def
  STORAGE_KEY_OPERATOR_KEY_HISTORY_def STORAGE_KEY_PARAM_HISTORY_def STORAGE_KEY_ENDPOINT_REGISTRY_def
  STORAGE_KEY_COMMITTED_EVIDENCE_def STORAGE_KEY_SNAPSHOT_MANIFEST_PREFIX_def STORAGE_KEY_SNAPSHOT_CHUNK_PREFIX_def
  STORAGE_KEY_SNAPSHOT_LATEST_def ascii_def

lemma chain_keys [simp]: "chain_key (block_storage_key h)" "chain_key (height_storage_key x)" "chain_key STORAGE_KEY_LAST_COMMITTED"
  by (simp_all add: chain_key_def block_storage_key_def height_storage_key_def starts_with_iff)

lemma chain_keys_distinct [simp]:
  "block_storage_key h \<noteq> height_storage_key x" "height_storage_key x \<noteq> block_storage_key h"
  "block_storage_key h \<noteq> STORAGE_KEY_LAST_COMMITTED" "STORAGE_KEY_LAST_COMMITTED \<noteq> block_storage_key h"
  "height_storage_key x \<noteq> STORAGE_KEY_LAST_COMMITTED" "STORAGE_KEY_LAST_COMMITTED \<noteq> height_storage_key x"
  by (simp_all add: block_storage_key_def height_storage_key_def key_defs)

lemma not_chain_keys [simp]:
  "\<not> chain_key (put_key p)" "\<not> chain_key STORAGE_KEY_PARAM_HISTORY" "\<not> chain_key STORAGE_KEY_COMMITTED_EVIDENCE"
  "\<not> chain_key (manifest_storage_key h)" "\<not> chain_key (chunk_storage_key h i)" "\<not> chain_key STORAGE_KEY_SNAPSHOT_LATEST"
  by (cases p) (simp_all add: chain_key_def key_defs starts_with_def manifest_storage_key_def chunk_storage_key_def)

lemma chunk_prefix_not_chain: "starts_with k (chunk_height_prefix h) \<Longrightarrow> \<not> chain_key k"
  by (auto simp: starts_with_iff chunk_height_prefix_def) (auto simp: chain_key_def key_defs starts_with_def)

section \<open>Later steps leave the chain alone\<close>

definition store_keeps :: "memory_storage \<Rightarrow> memory_storage \<Rightarrow> bool" where
  "store_keeps s t \<longleftrightarrow> bt_wf t \<and> (\<forall>k. chain_key k \<longrightarrow> ms_get t k = ms_get s k)"

lemma store_keeps_batch:
  assumes "bt_wf s" "\<forall>op \<in> set ops. \<not> chain_key (op_key op)"
  shows "store_keeps s (ms_apply_batch s ops)"
proof -
  have "ms_get (ms_apply_batch s ops) k = ms_get s k" if "chain_key k" for k
    by (rule batch_other[OF assms(1)]) (use assms(2) that in auto)
  then show ?thesis using batch_wf[OF assms(1)] by (simp add: store_keeps_def)
qed

definition keeps :: "'a full_node \<Rightarrow> 'a full_node \<Rightarrow> bool" where
  "keeps n n' \<longleftrightarrow> bt_wf (fn_storage n') \<and> (\<forall>k. chain_key k \<longrightarrow> ms_get (fn_storage n') k = ms_get (fn_storage n) k)
     \<and> fn_last_height n' = fn_last_height n \<and> fn_last_view n' = fn_last_view n \<and> ev_mempool (fn_evidence n') = ev_mempool (fn_evidence n)"

lemma keeps_refl: "bt_wf (fn_storage n) \<Longrightarrow> keeps n n"
  by (simp add: keeps_def)

lemma keeps_trans [trans]: "keeps n1 n2 \<Longrightarrow> keeps n2 n3 \<Longrightarrow> keeps n1 n3"
  by (simp add: keeps_def)

lemma keeps_wf: "keeps n n' \<Longrightarrow> bt_wf (fn_storage n')"
  by (simp add: keeps_def)

lemma keeps_write:
  assumes "bt_wf (fn_storage n)" "\<forall>op \<in> set ops. \<not> chain_key (op_key op)"
  shows "keeps n (fn_write ops n)"
  using store_keeps_batch[OF assms] by (simp add: keeps_def store_keeps_def fn_write_def)

lemma put_writes_keys: "op \<in> set (put_writes env ps) \<Longrightarrow> \<not> chain_key (op_key op)"
  by (auto simp: put_writes_def List.map_filter_def)

lemma keeps_with_puts: "with_puts env r n = Some n' \<Longrightarrow> bt_wf (fn_storage n) \<Longrightarrow> keeps n n'"
  using keeps_write[of "n\<lparr> fn_node := nd \<rparr>" "put_writes env ps" for nd ps] put_writes_keys
  by (fastforce simp: with_puts_def keeps_def)

lemma keeps_evidence:
  assumes "commit_evidence env b n = Some n'" "bt_wf (fn_storage n)"
  shows "keeps n n'"
proof -
  obtain slashed ev where ev: "n' = n\<lparr> fn_evidence := ev, fn_app := fold (ne_slash env) slashed (fn_app n) \<rparr>"
    "apply_committed_evidence (ne_evidence env) (nd_history (fn_node n)) (nd_key (fn_node n)) (ne_chain env) b (fn_evidence n) = Some (slashed, ev)"
    using assms(1) by (auto simp: commit_evidence_def)
  have "\<exists>m. ev = (fn_evidence n)\<lparr> committed_evidence := m \<rparr>
      \<or> ev = persist_committed_evidence (ne_evidence env) ((fn_evidence n)\<lparr> committed_evidence := m \<rparr>)"
    using ev(2) by (auto simp: apply_committed_evidence_def Let_def split: option.splits if_splits)
  then have "ev_mempool ev = ev_mempool (fn_evidence n)
      \<and> (ev_storage ev = fn_storage n \<or> (\<exists>bs. ev_storage ev = ms_write (WPut STORAGE_KEY_COMMITTED_EVIDENCE bs) (fn_storage n)))"
    by (auto simp: persist_committed_evidence_def split: option.splits) blast
  then show ?thesis
    using assms(2) ms.write_ok[OF assms(2)] ms.get_put[OF assms(2)] unfolding ev(1) keeps_def
    by (auto simp del: ms_write.simps)
qed

lemma keeps_params: "bt_wf (fn_storage n) \<Longrightarrow> keeps n (apply_committed_param_updates env b n)"
proof -
  assume wf: "bt_wf (fn_storage n)"
  have w: "keeps (n\<lparr> fn_params := h \<rparr>) (fn_write [WPut STORAGE_KEY_PARAM_HISTORY bs] (n\<lparr> fn_params := h \<rparr>))" for h bs
    by (rule keeps_write) (use wf in simp_all)
  show "keeps n (apply_committed_param_updates env b n)"
    using wf w by (auto simp: apply_committed_param_updates_def persist_param_history_def Let_def keeps_def
        split: prod.splits option.splits)
qed

lemma keeps_observe: "observe_commit b bh n = Some n' \<Longrightarrow> bt_wf (fn_storage n) \<Longrightarrow> keeps n n'"
  by (auto simp: observe_commit_def keeps_def Let_def split: option.splits)

lemma store_keeps_save:
  assumes "bt_wf s" "save sc s m cs = Some (Inr t)"
  shows "store_keeps s t"
proof -
  obtain raw where "t = ms_apply_batch s (save_batch raw m cs)"
    using assms(2) by (auto simp: save_def split: if_splits option.splits sum.splits)
  moreover have "\<forall>op \<in> set (save_batch raw m cs). \<not> chain_key (op_key op)" by (auto simp: save_batch_def)
  ultimately show ?thesis using store_keeps_batch[OF assms(1)] by blast
qed

lemma store_keeps_delete:
  assumes "bt_wf s"
  shows "store_keeps s (snap_delete s h)"
proof -
  have scan: "\<not> chain_key k" if "(k, v) \<in> set (ms_scan_prefix s (chunk_height_prefix h))" for k v
    using that ms.scan_exact[OF assms] chunk_prefix_not_chain by blast
  have "\<forall>op \<in> set (delete_batch s h). \<not> chain_key (op_key op)"
    using scan by (auto simp: delete_batch_def split: option.splits)
  then show ?thesis unfolding snap_delete_def by (rule store_keeps_batch[OF assms])
qed

lemma store_keeps_prune: "bt_wf s \<Longrightarrow> store_keeps s (snd (prune_older_than s k))"
proof -
  have fold: "bt_wf s \<Longrightarrow> store_keeps s (fold (\<lambda>h s. snap_delete s h) hs s)" for hs s
  proof (induction hs arbitrary: s)
    case (Cons h hs)
    then show ?case using Cons.IH[of "snap_delete s h"] store_keeps_delete[OF Cons.prems, of h] by (simp add: store_keeps_def)
  qed (simp add: store_keeps_def)
  assume "bt_wf s"
  then show ?thesis using fold by (simp add: prune_older_than_def Let_def) (simp add: store_keeps_def)
qed

lemma keeps_snapshot:
  assumes "snapshot_if_due env b n = Some n'" "bt_wf (fn_storage n)"
  shows "keeps n n'"
proof -
  have "n' = n \<or> (\<exists>m cs st k. save (ne_snapshot_codec env) (fn_storage n) m cs = Some (Inr st)
      \<and> n' = n\<lparr> fn_evidence := (fn_evidence n)\<lparr> ev_storage := snd (prune_older_than st k) \<rparr> \<rparr>)"
    using assms(1) unfolding snapshot_if_due_def try_take_snapshot_def
    by (auto split: if_splits option.splits sum.splits)
  then show ?thesis
  proof
    assume "\<exists>m cs st k. save (ne_snapshot_codec env) (fn_storage n) m cs = Some (Inr st)
      \<and> n' = n\<lparr> fn_evidence := (fn_evidence n)\<lparr> ev_storage := snd (prune_older_than st k) \<rparr> \<rparr>"
    then obtain m cs st k where st: "save (ne_snapshot_codec env) (fn_storage n) m cs = Some (Inr st)"
      "n' = n\<lparr> fn_evidence := (fn_evidence n)\<lparr> ev_storage := snd (prune_older_than st k) \<rparr> \<rparr>" by blast
    have "store_keeps (fn_storage n) st" by (rule store_keeps_save[OF assms(2) st(1)])
    moreover from this have "store_keeps st (snd (prune_older_than st k))"
      by (intro store_keeps_prune) (simp add: store_keeps_def)
    ultimately show ?thesis unfolding st(2) by (simp add: keeps_def store_keeps_def)
  qed (use assms(2) keeps_refl in simp)
qed

lemma keeps_apply_commit:
  assumes "apply_commit env b n = Some n'" "bt_wf (fn_storage n)"
  shows "\<exists>n1. commit_durably env b n = Some n1 \<and> (bt_wf (fn_storage n1) \<longrightarrow> keeps n1 n')"
proof -
  from assms(1) obtain n1 n2 n3 n4 n5 n6 where c: "commit_durably env b n = Some n1" "snapshot_if_due env b n1 = Some n2"
    "with_puts env (apply_committed_reconfigs (ne_reconfig env) (ne_min_v_eff_delay env) (ne_chain env) b (fn_node n2)) n2 = Some n3"
    "with_puts env (apply_committed_rotations (ne_rotation env) (ne_chain env) b (fn_node n3)) n3 = Some n4"
    "commit_evidence env b n4 = Some n5"
    "with_puts env (apply_committed_endpoints (ne_endpoint env) (ne_chain env) b (fn_node n5)) n5 = Some n6"
    "observe_commit b (block_hash_of (ne_hp env) b) (apply_committed_param_updates env b n6) = Some n'"
    unfolding apply_commit_def by (auto simp: bind_eq_Some_conv)
  have "keeps n1 n'" if wf: "bt_wf (fn_storage n1)"
  proof -
    have 2: "keeps n1 n2" by (rule keeps_snapshot[OF c(2) wf])
    also have 3: "keeps n2 n3" by (rule keeps_with_puts[OF c(3) keeps_wf[OF 2]])
    also have 4: "keeps n3 n4" by (rule keeps_with_puts[OF c(4) keeps_wf[OF 3]])
    also have 5: "keeps n4 n5" by (rule keeps_evidence[OF c(5) keeps_wf[OF 4]])
    also have 6: "keeps n5 n6" by (rule keeps_with_puts[OF c(6) keeps_wf[OF 5]])
    also have 7: "keeps n6 (apply_committed_param_updates env b n6)" by (rule keeps_params[OF keeps_wf[OF 6]])
    also have "keeps (apply_committed_param_updates env b n6) n'" by (rule keeps_observe[OF c(7) keeps_wf[OF 7]])
    finally show ?thesis .
  qed
  then show ?thesis using c(1) by blast
qed

section \<open>The block is in the store\<close>

lemma decode_height_key [simp]: "decode_height_storage_key (height_storage_key h) = Some h"
  by (simp add: decode_height_storage_key_def height_storage_key_def)

lemma block_key_inj: "block_storage_key a = block_storage_key b \<longleftrightarrow> a = b"
proof
  assume "block_storage_key a = block_storage_key b"
  then have "(of_be_bytes (be_bytes 32 a) :: hash256) = of_be_bytes (be_bytes 32 b)" by (simp add: block_storage_key_def)
  then show "a = b" by simp
qed simp

text \<open>The height index points to a block from its own height only.\<close>

definition index_sound :: "memory_storage \<Rightarrow> height \<Rightarrow> hash256 \<Rightarrow> bool" where
  "index_sound st h bh \<longleftrightarrow>
     (\<forall>k v. ms_get st k = Some v \<and> starts_with k STORAGE_KEY_HEIGHT_PREFIX \<and> length v = 32 \<and> of_be_bytes v = bh
        \<longrightarrow> k = height_storage_key h)"

lemma prune_spares:
  assumes wf: "bt_wf st" and idx: "index_sound st h bh" and t: "t \<in> set (prune_targets_for_commit st h w)"
  shows "pt_height_key t \<noteq> height_storage_key h" "pt_block_key t \<noteq> Some (block_storage_key bh)"
proof -
  have w: "w \<noteq> 0" "w \<le> h" using t by (auto simp: prune_targets_for_commit_def checked_sub_def split: if_splits)
  then have t': "t \<in> set (takeWhile (\<lambda>t. case pt_height t of Some x \<Rightarrow> x < h - w | None \<Rightarrow> True)
      (map prune_target_of (ms_scan_prefix st STORAGE_KEY_HEIGHT_PREFIX)))"
    using t by (simp add: prune_targets_for_commit_def checked_sub_def)
  have le: "h - w \<le> h" using w(2) by (simp add: word_le_nat_alt unat_sub)
  from t' have low: "pt_height t \<noteq> Some h" using le by (auto dest: set_takeWhileD)
  from t' obtain k v where kv: "t = prune_target_of (k, v)" "ms_get st k = Some v" "starts_with k STORAGE_KEY_HEIGHT_PREFIX"
    using ms.scan_exact[OF wf] by (auto dest!: set_takeWhileD)
  show key: "pt_height_key t \<noteq> height_storage_key h" using low kv(1) by (auto simp: prune_target_of_def)
  show "pt_block_key t \<noteq> Some (block_storage_key bh)"
  proof
    assume "pt_block_key t = Some (block_storage_key bh)"
    then have "length v = 32" "of_be_bytes v = bh" using kv(1) by (auto simp: prune_target_of_def block_key_inj split: if_splits)
    then have "k = height_storage_key h" using idx kv(2,3) by (simp add: index_sound_def)
    then show False using key kv(1) by (simp add: prune_target_of_def)
  qed
qed

lemma prune_not_last: "starts_with k STORAGE_KEY_HEIGHT_PREFIX \<Longrightarrow> k \<noteq> STORAGE_KEY_LAST_COMMITTED \<and> k \<noteq> block_storage_key h"
  by (auto simp: starts_with_iff block_storage_key_def key_defs)

lemma prune_ops_spare:
  assumes wf: "bt_wf st" and idx: "index_sound st h bh"
    and k: "k \<in> {block_storage_key bh, height_storage_key h, STORAGE_KEY_LAST_COMMITTED}"
  shows "final_write (concat (map prune_writes (prune_targets_for_commit st h w))) k = None"
proof (rule final_write_None)
  have "k \<notin> op_key ` set (prune_writes t)" if t: "t \<in> set (prune_targets_for_commit st h w)" for t
  proof -
    obtain k' v where kv: "t = prune_target_of (k', v)" "starts_with k' STORAGE_KEY_HEIGHT_PREFIX"
      using t ms.scan_exact[OF wf]
      by (auto simp: prune_targets_for_commit_def split: if_splits option.splits dest!: set_takeWhileD)
    have "pt_height_key t = k'" using kv(1) by (simp add: prune_target_of_def)
    then show ?thesis
      using k prune_spares[OF wf idx t] prune_not_last[OF kv(2)] kv(1)
      by (auto simp: prune_writes_def prune_target_of_def split: option.splits if_splits)
  qed
  then show "k \<notin> op_key ` set (concat (map prune_writes (prune_targets_for_commit st h w)))" by auto
qed

lemma commit_durably_stores:
  assumes com: "commit_durably env b n = Some n1" and wf: "bt_wf (fn_storage n)"
    and nxt: "fn_last_height n < hdr_height (header b)"
    and idx: "index_sound (fn_storage n) (hdr_height (header b)) (block_hash_of (ne_hp env) b)"
  shows "bt_wf (fn_storage n1) \<and> fn_last_height n1 = hdr_height (header b) \<and> fn_last_view n1 = hdr_view (header b)
    \<and> ev_mempool (fn_evidence n1) = mp_remove_committed (ne_digest env) (commands b) (ev_mempool (fn_evidence n))
    \<and> \<not> weak_subjectivity_violation (fn_checkpoint n) (hdr_height (header b)) (block_hash_of (ne_hp env) b)
    \<and> (\<exists>raw. pe_block (ne_persist env) b = Some raw
         \<and> ms_get (fn_storage n1) (block_storage_key (block_hash_of (ne_hp env) b)) = Some raw)
    \<and> ms_get (fn_storage n1) (height_storage_key (hdr_height (header b))) = Some (be_bytes 32 (block_hash_of (ne_hp env) b))
    \<and> ms_get (fn_storage n1) STORAGE_KEY_LAST_COMMITTED = pe_last_committed (ne_persist env)
         \<lparr> lc_height = hdr_height (header b), lc_view = hdr_view (header b), lc_hash = block_hash_of (ne_hp env) b \<rparr>"
proof -
  let ?bh = "block_hash_of (ne_hp env) b" and ?h = "hdr_height (header b)" and ?v = "hdr_view (header b)"
  let ?ts = "prune_targets_for_commit (fn_storage n) ?h (fn_retention n)"
  let ?ev = "(fn_evidence n)\<lparr> ev_mempool := mp_remove_committed (ne_digest env) (commands b) (ev_mempool (fn_evidence n)) \<rparr>"
  let ?n0 = "n\<lparr> fn_evidence := ?ev, fn_last_height := ?h, fn_last_view := ?v \<rparr>"
  have adv: "advance_last ?h ?v (n\<lparr> fn_evidence := ?ev \<rparr>) = ?n0" using nxt by (simp add: advance_last_def)
  obtain raw lc where ws: "\<not> weak_subjectivity_violation (fn_checkpoint n) ?h ?bh"
    "pe_block (ne_persist env) b = Some raw"
    "pe_last_committed (ne_persist env) \<lparr> lc_height = ?h, lc_view = ?v, lc_hash = ?bh \<rparr> = Some lc"
    and n1: "n1 = fn_write ([WPut (block_storage_key ?bh) raw, WPut (height_storage_key ?h) (be_bytes 32 ?bh),
        WPut STORAGE_KEY_LAST_COMMITTED lc] @ concat (map prune_writes ?ts)) ?n0"
    using com unfolding commit_durably_def Let_def adv
    by (auto simp: commit_batch_def encoded_def split: if_splits option.splits)
  note get = ms.batch_get[OF wf, unfolded ms_apply_batch_def[symmetric]]
  note fw = prune_ops_spare[OF wf idx]
  have "ms_get (fn_storage n1) (block_storage_key ?bh) = Some raw"
    "ms_get (fn_storage n1) (height_storage_key ?h) = Some (be_bytes 32 ?bh)"
    "ms_get (fn_storage n1) STORAGE_KEY_LAST_COMMITTED = Some lc"
    unfolding n1 fn_write_def by (simp_all add: get final_write_append fw)
  then show ?thesis using ws batch_wf[OF wf] n1 by (simp add: fn_write_def)
qed

text \<open>C24: a commit is durable. When a node commits the next block and does not halt, its store
  holds the block, the index entry of its height and the frontier, and its pool none of
  the committed commands, whatever snapshot, histories, evidence and parameters were
  written after the block; and a block at the height of the checkpoint is that of the
  checkpoint. The pruning of old blocks spares it.\<close>

theorem commit_is_durable:
  assumes com: "apply_commit env b n = Some n'" and wf: "bt_wf (fn_storage n)"
    and nxt: "fn_last_height n < hdr_height (header b)"
    and idx: "index_sound (fn_storage n) (hdr_height (header b)) (block_hash_of (ne_hp env) b)"
  shows "bt_wf (fn_storage n') \<and> fn_last_height n' = hdr_height (header b) \<and> fn_last_view n' = hdr_view (header b)
    \<and> (\<exists>raw. pe_block (ne_persist env) b = Some raw
         \<and> ms_get (fn_storage n') (block_storage_key (block_hash_of (ne_hp env) b)) = Some raw)
    \<and> ms_get (fn_storage n') (height_storage_key (hdr_height (header b))) = Some (be_bytes 32 (block_hash_of (ne_hp env) b))
    \<and> ms_get (fn_storage n') STORAGE_KEY_LAST_COMMITTED = pe_last_committed (ne_persist env)
         \<lparr> lc_height = hdr_height (header b), lc_view = hdr_view (header b), lc_hash = block_hash_of (ne_hp env) b \<rparr>
    \<and> ev_mempool (fn_evidence n') = mp_remove_committed (ne_digest env) (commands b) (ev_mempool (fn_evidence n))
    \<and> \<not> weak_subjectivity_violation (fn_checkpoint n) (hdr_height (header b)) (block_hash_of (ne_hp env) b)"
proof -
  obtain n1 where n1: "commit_durably env b n = Some n1" and k: "bt_wf (fn_storage n1) \<longrightarrow> keeps n1 n'"
    using keeps_apply_commit[OF com wf] by blast
  note d = commit_durably_stores[OF n1 wf nxt idx]
  then have "keeps n1 n'" using k by blast
  then show ?thesis using d by (simp add: keeps_def)
qed

section \<open>A restore over known boundaries\<close>

lemma insert_pending_history [simp]: "validator_history (insert_pending hp b s) = validator_history s"
  by (simp add: insert_pending_def Let_def)

lemma adopt_snapshot_history [simp]:
  "validator_history (state (snd (adopt_snapshot hp c b qc v))) = validator_history (state c)"
  by (simp add: adopt_snapshot_def Let_def)

lemma insert_known_boundary:
  "vh_boundaries h \<noteq> [] \<Longrightarrow> v \<le> b_v_eff (last (vh_boundaries h))
    \<Longrightarrow> vh_insert_boundary h v vs = Inl (BoundaryNotGreater v (b_v_eff (last (vh_boundaries h))))"
  by (cases "vh_boundaries h") (simp_all add: vh_insert_boundary_def)

text \<open>C38: a snapshot cannot be installed over a boundary the node already knows. When a node is
  at or past the first change of validator set that the manifest lists, the restore fails at
  that boundary, for every application, payload and store. By then the application holds
  the snapshot's state and the store its frontier, while the node still uses its old
  histories.\<close>

theorem restore_over_known_boundary:
  assumes app: "ne_restore env pl (fn_app n) = (True, a)" "ne_state_commitment env a = sm_state_commitment m"
    and enc: "restore_batch env m (fst (adopt_snapshot (ne_hp env) (nd_core (fn_node n)) (sm_block m) (sm_commit_qc m) (sm_view m))) = Inr ops"
    and hist: "restored_histories m = Inr (sh, kh, bls)" "vh_iter sh = (0, g) # (v, vs) # bs"
    and known: "vh_boundaries (validator_history (state (nd_core (fn_node n)))) \<noteq> []" "v \<noteq> 0"
      "v \<le> b_v_eff (last (vh_boundaries (validator_history (state (nd_core (fn_node n))))))"
  shows "\<exists>n'. restore_from_snapshot env m pl n
      = Some (Inl (ReplayBoundary v (BoundaryNotGreater v (b_v_eff (last (vh_boundaries (validator_history (state (nd_core (fn_node n))))))))), n')
    \<and> fn_app n' = a \<and> fn_storage n' = ms_apply_batch (fn_storage n) ops
    \<and> fn_last_height n' = max (fn_last_height n) (sm_height m)
    \<and> nd_history (fn_node n') = nd_history (fn_node n) \<and> nd_key (fn_node n') = nd_key (fn_node n)"
proof -
  let ?last = "b_v_eff (last (vh_boundaries (validator_history (state (nd_core (fn_node n))))))"
  obtain as core where ad: "adopt_snapshot (ne_hp env) (nd_core (fn_node n)) (sm_block m) (sm_commit_qc m) (sm_view m) = (as, core)"
    by fastforce
  then have "validator_history (state core) = validator_history (state (nd_core (fn_node n)))"
    by (metis adopt_snapshot_history snd_conv)
  then have "replay_boundaries (vh_iter sh) core = (Inl (ReplayBoundary v (BoundaryNotGreater v ?last)), core)"
    using known hist(2) insert_known_boundary[OF known(1,3)] by (simp add: insert_validator_boundary_def)
  moreover have "restore_batch env m as = Inr ops" using enc ad by simp
  ultimately show ?thesis
    using app hist(1) ad by (auto simp: restore_from_snapshot_def Let_def advance_last_def fn_write_def max_def)
qed

section \<open>Instance\<close>

text \<open>A node at genesis with a checkpoint at height 1, and the block it commits there.\<close>

definition demo_commit_codec :: persist_codec where
  "demo_commit_codec =
     \<lparr> pe_view = (\<lambda>_. Some []), pd_view = (\<lambda>_. None), pe_locked = (\<lambda>_. Some []), pd_locked = (\<lambda>_. None),
       pe_qc = (\<lambda>_. Some []), pd_qc = (\<lambda>_. None), pe_timeout_vote = (\<lambda>_. Some []), pd_timeout_vote = (\<lambda>_. None),
       pe_block = (\<lambda>b. Some (be_bytes 8 (hdr_view (header b)))), pd_block = (\<lambda>_. None),
       pe_last_committed = (\<lambda>l. Some (be_bytes 8 (lc_height l))), pd_last_committed = (\<lambda>_. None) \<rparr>"

definition demo_node_env :: "(unit, bls_pk, bls_sig) node_env" where
  "demo_node_env =
     \<lparr> ne_hp = demo_hash, ne_persist = demo_commit_codec, ne_snapshot_codec = demo_codec, ne_reconfig = demo_join_env,
       ne_rotation = demo_rotation_env, ne_evidence = demo_evidence_env,
       ne_endpoint = \<lparr> ee_ed = (\<lambda>_ _ _. True), ee_pc = (\<lambda>_. Some []), ee_un = (\<lambda>_. None) \<rparr>,
       ne_param_un = (\<lambda>_. None), ne_digest = demo_sha, ne_put = (\<lambda>_. Some [1]), ne_put_params = (\<lambda>_. Some [1]),
       ne_chain = 0, ne_min_v_eff_delay = 0, ne_commit = (\<lambda>_ a. (None, a)), ne_slash = (\<lambda>_ a. a), ne_snapshot = (\<lambda>_. [1]),
       ne_restore = (\<lambda>_ a. (True, a)), ne_state_commitment = (\<lambda>_. 0), ne_unix_secs = 0 \<rparr>"

definition demo_full_node :: "unit full_node" where
  "demo_full_node =
     \<lparr> fn_node =
         \<lparr> nd_history = nd_history demo_node, nd_key = nd_key demo_node, nd_bls = nd_bls demo_node,
           nd_operator = nd_operator demo_node, nd_core = nd_core demo_node, nd_pacemaker = nd_pacemaker demo_node,
           nd_endpoints = nd_endpoints demo_node, nd_staged_governance = None, nd_staged_updates = [] \<rparr>,
       fn_app = (), fn_validator_set = demo_vs, fn_effects = [], fn_evidence = demo_evidence_state,
       fn_params = \<lparr> ph_genesis = \<lparr> min_block_interval_ms = 0 \<rparr>, ph_boundaries = [] \<rparr>, fn_min_block_interval = 0,
       fn_last_height = 0, fn_last_view = 0, fn_checkpoint = Some (1, 2), fn_retention = 10,
       fn_policy = \<lparr> interval_blocks = 1, retention_count = 1, chunk_size_bytes = 1 \<rparr>,
       fn_recent_qcs = \<lparr> rq_map = [], rq_order = [] \<rparr>, fn_liveness = with_window 4 \<rparr>"

lemma demo_commits: "\<exists>n'. apply_commit demo_node_env (demo_block 1 1 1) demo_full_node = Some n'"
proof -
  obtain n1 where n1: "commit_durably demo_node_env (demo_block 1 1 1) demo_full_node = Some n1"
    by (simp add: commit_durably_def Let_def demo_node_env_def demo_full_node_def demo_block_def demo_evidence_state_def
        weak_subjectivity_violation_def commit_batch_def encoded_def demo_commit_codec_def advance_last_def
        block_hash_of_def header_hash_def demo_hash_def)
  then have q: "fn_recent_qcs n1 = \<lparr> rq_map = [], rq_order = [] \<rparr>"
    by (auto simp: commit_durably_def Let_def fn_write_def advance_last_def demo_full_node_def split: if_splits sum.splits)
  have [simp]: "commands (demo_block 1 1 1) = []" by (simp add: demo_block_def)
  show ?thesis
    by (simp add: apply_commit_def n1 snapshot_if_due_def try_take_snapshot_def q rq_get_def with_puts_def apply_committed_reconfigs_def
        apply_committed_rotations_def commit_evidence_def apply_committed_evidence_def apply_committed_endpoints_def
        observe_commit_def apply_committed_param_updates_def Let_def fn_write_def put_writes_def)
qed

theorem commit_is_durable_witness:
  "\<exists>n'. apply_commit demo_node_env (demo_block 1 1 1) demo_full_node = Some n'
    \<and> fn_last_height n' = 1 \<and> ms_get (fn_storage n') (height_storage_key 1) = Some (be_bytes 32 (2 :: hash256))
    \<and> ms_get (fn_storage n') (block_storage_key 2) = Some (be_bytes 8 (1 :: u64))"
proof -
  obtain n' where n': "apply_commit demo_node_env (demo_block 1 1 1) demo_full_node = Some n'" using demo_commits by blast
  have hash: "block_hash_of (ne_hp demo_node_env) (demo_block 1 1 1) = 2"
    by (simp add: demo_node_env_def block_hash_of_def header_hash_def demo_hash_def demo_block_def)
  have h: "hdr_height (header (demo_block 1 1 1)) = 1" "hdr_view (header (demo_block 1 1 1)) = 1" by (simp_all add: demo_block_def)
  have st: "fn_storage demo_full_node = []" "fn_last_height demo_full_node = 0"
    by (simp_all add: demo_full_node_def demo_evidence_state_def)
  have enc: "pe_block (ne_persist demo_node_env) (demo_block 1 1 1) = Some (be_bytes 8 (1 :: u64))"
    by (simp add: demo_node_env_def demo_commit_codec_def h)
  show ?thesis
    using n' commit_is_durable[OF n'] unfolding hash h st enc by (auto simp: index_sound_def ms_get_def)
qed

text \<open>The same node after a change of validator set at view 5, and a manifest that lists the change.\<close>

definition demo_changed_history :: validator_set_history where
  "demo_changed_history =
     \<lparr> vh_boundaries = [\<lparr> b_v_eff = 0, b_set = vs_new [10, 20, 30, 40] \<rparr>, \<lparr> b_v_eff = 5, b_set = vs_new [10, 20, 30] \<rparr>] \<rparr>"

definition demo_changed_node :: "unit full_node" where
  "demo_changed_node = demo_full_node
     \<lparr> fn_node := (fn_node demo_full_node)
         \<lparr> nd_history := demo_changed_history,
           nd_core := demo_core\<lparr> state := (state demo_core)\<lparr> validator_history := demo_changed_history \<rparr> \<rparr> \<rparr> \<rparr>"

definition demo_changed_manifest :: snapshot_manifest where
  "demo_changed_manifest = demo_manifest\<lparr> sm_validator_history := vh_to_persisted demo_changed_history \<rparr>"

lemma demo_changed_histories:
  "restored_histories demo_changed_manifest = Inr (demo_changed_history, kh_new [10, 20, 30, 40], None)"
proof -
  have "vh_wf demo_changed_history"
    using vs_new_wf[of "[10, 20, 30, 40]"] vs_new_wf[of "[10, 20, 30]"] by (simp add: vh_wf_def demo_changed_history_def)
  moreover have "kh_wf (kh_new [10, 20, 30, 40])"
    using demo_histories_wf by (simp add: histories_wf_def demo_histories_def)
  ultimately show ?thesis
    by (simp add: restored_histories_def demo_changed_manifest_def demo_manifest_def demo_histories_def vh_persist_roundtrip
        kh_persist_roundtrip)
qed

theorem restore_over_known_boundary_witness:
  "\<exists>n'. restore_from_snapshot demo_node_env demo_changed_manifest [] demo_changed_node
      = Some (Inl (ReplayBoundary 5 (BoundaryNotGreater 5 5)), n') \<and> fn_last_height n' = 1"
proof -
  have last: "vh_boundaries (validator_history (state (nd_core (fn_node demo_changed_node)))) = vh_boundaries demo_changed_history"
    by (simp add: demo_changed_node_def)
  have l5: "b_v_eff (last (vh_boundaries demo_changed_history)) = 5" by (simp add: demo_changed_history_def)
  have app: "ne_restore demo_node_env [] (fn_app demo_changed_node) = (True, ())"
    "ne_state_commitment demo_node_env () = sm_state_commitment demo_changed_manifest"
    by (simp_all add: demo_node_env_def demo_changed_node_def demo_changed_manifest_def demo_manifest_def)
  have it: "vh_iter demo_changed_history = (0, vs_new [10, 20, 30, 40]) # (5, vs_new [10, 20, 30]) # []"
    by (simp add: vh_iter_def demo_changed_history_def)
  obtain ops where ops: "restore_batch demo_node_env demo_changed_manifest
      (fst (adopt_snapshot (ne_hp demo_node_env) (nd_core (fn_node demo_changed_node)) (sm_block demo_changed_manifest)
        (sm_commit_qc demo_changed_manifest) (sm_view demo_changed_manifest))) = Inr ops"
    by (simp add: adopt_snapshot_def Let_def restore_batch_def safety_write_def encoded_def demo_node_env_def demo_commit_codec_def)
  have h: "fn_last_height demo_changed_node = 0" "sm_height demo_changed_manifest = 1"
    by (simp_all add: demo_changed_node_def demo_full_node_def demo_changed_manifest_def demo_manifest_def)
  show ?thesis
    using restore_over_known_boundary[OF app ops demo_changed_histories it] unfolding last l5 h
    by (auto simp: demo_changed_history_def)
qed

end
