(* ===== verification/Genesis.thy ===== *)
theory Genesis
  imports History_Commitment Snapshot_Store
begin

text \<open>
  From the configuration to the genesis block (\<open>boule-consensus/src/genesis.rs\<close>, the checks and
  tables of \<open>boule-core/src/config.rs\<close>, \<open>build_validator_set\<close> of \<open>boule-node/src/lib.rs\<close>). A
  string is its bytes. Base58 and hexadecimal decoding, hashing, the encodings and the
  environment of the process are parameters. The configuration keeps the fields these
  functions read.
\<close>

section \<open>Configuration\<close>

record weak_subjectivity_checkpoint =
  wsc_height :: u64
  wsc_hash :: string

record validator_bls_entry =
  be_node_id :: string
  be_bls_pubkey :: string
  be_bls_pop :: string

record validator_operator_key_entry =
  oe_node_id :: string
  oe_operator_pubkey :: string

record consensus_config =
  cc_validators :: "string list"
  cc_full_node :: bool
  cc_genesis_seed_hex :: "string option"
  cc_checkpoint :: "weak_subjectivity_checkpoint option"
  cc_snapshot_interval_blocks :: u64
  cc_snapshot_chunk_size_bytes :: u32
  cc_validators_bls :: "validator_bls_entry list"
  cc_validators_operator_keys :: "validator_operator_key_entry list"

datatype config_error =
    NoValidators | BadValidatorId nat | UndecodableValidator string | DuplicateValidator nat
  | BlsTableMissing | BlsTableLength nat nat
  | BlsBadNodeId nat | BlsUndeclared nat | BlsDuplicate nat | BadBlsPubkey nat | BadBlsPop nat
  | OpBadNodeId nat | OpUndeclared nat | OpDuplicate nat | OpBadPubkey nat
  | PopRejected nat bls_key_error
  | BadSeed | FullNodeInSet | NotInSet
  | ZeroChunkSize | ChunkTooLarge | ZeroCheckpointHeight | BadCheckpointHash
  | PeerFlagWithoutId nat | PeerBadId nat | PeerIsSelf nat
  | ZeroKeepalive | KeepaliveTimeout | TokenUnset string | TokenEmpty string

record genesis_env =
  ge_b58 :: "string \<Rightarrow> bytes option"
  ge_unhex :: "string \<Rightarrow> bytes option"
  ge_commit :: commit_env
  ge_hp :: hash_prims

definition base58_to_node_id :: "genesis_env \<Rightarrow> string \<Rightarrow> node_id option" where
  "base58_to_node_id env s =
     (case ge_b58 env s of
        None \<Rightarrow> None
      | Some bs \<Rightarrow> if length bs = 32 then Some (of_be_bytes bs) else None)"

definition decode_hex_array :: "genesis_env \<Rightarrow> nat \<Rightarrow> string \<Rightarrow> bytes option" where
  "decode_hex_array env n s =
     (case ge_unhex env s of None \<Rightarrow> None | Some bs \<Rightarrow> if length bs \<noteq> n then None else Some bs)"

section \<open>The key tables\<close>

definition declare_step :: "genesis_env \<Rightarrow> node_id list \<Rightarrow> nat \<times> string \<Rightarrow> config_error + node_id list" where
  "declare_step env declared ir =
     (case base58_to_node_id env (snd ir) of
        None \<Rightarrow> Inl (BadValidatorId (fst ir))
      | Some nid \<Rightarrow> if nid \<in> set declared then Inl (DuplicateValidator (fst ir)) else Inr (nid # declared))"

text \<open>The loop over the table of BLS keys: the ids seen so far and the entries, newest first.\<close>

definition bls_entry_step ::
  "genesis_env \<Rightarrow> node_id list \<Rightarrow> node_id list \<times> (node_id \<times> bls_pk \<times> bls_pop) list \<Rightarrow> nat \<times> validator_bls_entry
     \<Rightarrow> config_error + node_id list \<times> (node_id \<times> bls_pk \<times> bls_pop) list" where
  "bls_entry_step env declared acc ie =
     (case acc of (seen, out) \<Rightarrow> (case ie of (idx, e) \<Rightarrow>
      (case base58_to_node_id env (be_node_id e) of
         None \<Rightarrow> Inl (BlsBadNodeId idx)
       | Some nid \<Rightarrow>
           if nid \<notin> set declared then Inl (BlsUndeclared idx)
           else if nid \<in> set seen then Inl (BlsDuplicate idx)
           else (case decode_hex_array env 48 (be_bls_pubkey e) of
                   None \<Rightarrow> Inl (BadBlsPubkey idx)
                 | Some pk \<Rightarrow>
                     (case decode_hex_array env 96 (be_bls_pop e) of
                        None \<Rightarrow> Inl (BadBlsPop idx)
                      | Some sg \<Rightarrow>
                          Inr (nid # seen, (nid, of_be_bytes pk, \<lparr> pop_pubkey = of_be_bytes pk, pop_sig = of_be_bytes sg \<rparr>) # out))))))"

definition resolve_genesis_bls_keys :: "genesis_env \<Rightarrow> consensus_config \<Rightarrow> config_error + (node_id \<times> bls_pk \<times> bls_pop) list" where
  "resolve_genesis_bls_keys env cfg =
     (if cc_validators_bls cfg = [] then Inl BlsTableMissing
      else if length (cc_validators_bls cfg) \<noteq> length (cc_validators cfg)
      then Inl (BlsTableLength (length (cc_validators_bls cfg)) (length (cc_validators cfg)))
      else (case try_fold (declare_step env) [] (enumerate 0 (cc_validators cfg)) of
              Inl e \<Rightarrow> Inl e
            | Inr declared \<Rightarrow>
                (case try_fold (bls_entry_step env declared) ([], []) (enumerate 0 (cc_validators_bls cfg)) of
                   Inl e \<Rightarrow> Inl e
                 | Inr (seen, out) \<Rightarrow> Inr (rev out))))"

definition declare_any :: "genesis_env \<Rightarrow> node_id list \<Rightarrow> nat \<times> string \<Rightarrow> config_error + node_id list" where
  "declare_any env declared ir =
     (case base58_to_node_id env (snd ir) of
        None \<Rightarrow> Inl (BadValidatorId (fst ir))
      | Some nid \<Rightarrow> Inr (List.insert nid declared))"

definition op_entry_step ::
  "genesis_env \<Rightarrow> node_id list \<Rightarrow> node_id list \<times> (node_id \<times> node_id) list \<Rightarrow> nat \<times> validator_operator_key_entry
     \<Rightarrow> config_error + node_id list \<times> (node_id \<times> node_id) list" where
  "op_entry_step env declared acc ie =
     (case acc of (seen, out) \<Rightarrow> (case ie of (idx, e) \<Rightarrow>
      (case base58_to_node_id env (oe_node_id e) of
         None \<Rightarrow> Inl (OpBadNodeId idx)
       | Some nid \<Rightarrow>
           if nid \<notin> set declared then Inl (OpUndeclared idx)
           else if nid \<in> set seen then Inl (OpDuplicate idx)
           else (case base58_to_node_id env (oe_operator_pubkey e) of
                   None \<Rightarrow> Inl (OpBadPubkey idx)
                 | Some op \<Rightarrow> Inr (nid # seen, (nid, op) # out)))))"

definition resolve_genesis_operator_keys :: "genesis_env \<Rightarrow> consensus_config \<Rightarrow> config_error + (node_id \<times> node_id) list" where
  "resolve_genesis_operator_keys env cfg =
     (if cc_validators_operator_keys cfg = [] then Inr []
      else (case try_fold (declare_any env) [] (enumerate 0 (cc_validators cfg)) of
              Inl e \<Rightarrow> Inl e
            | Inr declared \<Rightarrow>
                (case try_fold (op_entry_step env declared) ([], []) (enumerate 0 (cc_validators_operator_keys cfg)) of
                   Inl e \<Rightarrow> Inl e
                 | Inr (seen, out) \<Rightarrow> Inr (rev out))))"

fun verify_genesis_bls_pops ::
  "('g1, 'g2) bls_prims \<Rightarrow> nat \<Rightarrow> (node_id \<times> bls_pk \<times> bls_pop) list \<Rightarrow> chain_id \<Rightarrow> config_error + unit" where
  "verify_genesis_bls_pops bp idx [] c = Inr ()"
| "verify_genesis_bls_pops bp idx ((nid, pk, pop) # es) c =
     (case verify_pop bp pop pk c of
        Inl e \<Rightarrow> Inl (PopRejected idx e)
      | Inr _ \<Rightarrow> verify_genesis_bls_pops bp (idx + 1) es c)"

section \<open>The genesis block and the chain id\<close>

definition hex_nibble :: "u8 \<Rightarrow> u8 option" where
  "hex_nibble c =
     (if 48 \<le> c \<and> c \<le> 57 then Some (c - 48)
      else if 97 \<le> c \<and> c \<le> 102 then Some (c - 97 + 10)
      else if 65 \<le> c \<and> c \<le> 70 then Some (c - 65 + 10)
      else None)"

fun hex_pairs :: "bytes \<Rightarrow> bytes option" where
  "hex_pairs (h # l # bs) =
     (case hex_nibble h of None \<Rightarrow> None | Some hi \<Rightarrow>
       (case hex_nibble l of None \<Rightarrow> None | Some lo \<Rightarrow> map_option ((#) (or (push_bit 4 hi) lo)) (hex_pairs bs)))"
| "hex_pairs _ = Some []"

definition decode_hex32 :: "string \<Rightarrow> bytes option" where
  "decode_hex32 s = (if length s \<noteq> 64 then None else hex_pairs (map of_char s))"

definition genesis_seed :: "consensus_config \<Rightarrow> config_error + hash256" where
  "genesis_seed cfg =
     (case cc_genesis_seed_hex cfg of
        None \<Rightarrow> Inr 0
      | Some s \<Rightarrow> (case decode_hex32 s of None \<Rightarrow> Inl BadSeed | Some bs \<Rightarrow> Inr (of_be_bytes bs)))"

definition genesis_operator_history :: "(node_id \<times> node_id) list \<Rightarrow> operator_key_history option" where
  "genesis_operator_history ops = (if ops = [] then None else Some (okh_with_genesis ops))"

definition compute_genesis_commitment ::
  "genesis_env \<Rightarrow> validator_set \<Rightarrow> (node_id \<times> bls_pk) list \<Rightarrow> (node_id \<times> node_id) list \<Rightarrow> hash256" where
  "compute_genesis_commitment env vs bls ops =
     validator_history_commitment_v2 (ge_commit env) (vh_from_genesis vs) (kh_new (members vs))
       (Some (bkh_with_genesis bls)) (genesis_operator_history ops)"

definition derive_chain_id_from_parts ::
  "genesis_env \<Rightarrow> node_id list \<Rightarrow> (node_id \<times> bls_pk) list \<Rightarrow> (node_id \<times> node_id) list \<Rightarrow> hash256 \<Rightarrow> chain_id" where
  "derive_chain_id_from_parts env ids bls ops gseed =
     block_hash_of (ge_hp env) (genesis_block (ge_hp env) gseed (compute_genesis_commitment env (vs_new ids) bls ops))"

definition decode_validators :: "genesis_env \<Rightarrow> consensus_config \<Rightarrow> config_error + node_id list" where
  "decode_validators env cfg =
     try_map (\<lambda>(i, raw). case base58_to_node_id env raw of None \<Rightarrow> Inl (BadValidatorId i) | Some n \<Rightarrow> Inr n)
       (enumerate 0 (cc_validators cfg))"

definition derive_chain_id :: "genesis_env \<Rightarrow> consensus_config \<Rightarrow> config_error + chain_id" where
  "derive_chain_id env cfg =
     (if cc_validators cfg = [] then Inl NoValidators
      else (case decode_validators env cfg of Inl e \<Rightarrow> Inl e | Inr ids \<Rightarrow>
           (case resolve_genesis_bls_keys env cfg of Inl e \<Rightarrow> Inl e | Inr bls \<Rightarrow>
           (case genesis_seed cfg of Inl e \<Rightarrow> Inl e | Inr gseed \<Rightarrow>
           (case resolve_genesis_operator_keys env cfg of Inl e \<Rightarrow> Inl e | Inr ops \<Rightarrow>
            Inr (derive_chain_id_from_parts env ids (map (\<lambda>(n, pk, _). (n, pk)) bls) ops gseed))))))"

definition build_genesis ::
  "genesis_env \<Rightarrow> consensus_config \<Rightarrow> validator_set \<Rightarrow> (node_id \<times> bls_pk) list \<Rightarrow> config_error + block" where
  "build_genesis env cfg vs bls =
     (case (case cc_genesis_seed_hex cfg of
              None \<Rightarrow> Inr 0
            | Some hex \<Rightarrow> (case decode_hex32 hex of None \<Rightarrow> Inl BadSeed | Some bytes \<Rightarrow> Inr (of_be_bytes bytes))) of
        Inl e \<Rightarrow> Inl e | Inr gseed \<Rightarrow>
     (case resolve_genesis_operator_keys env cfg of Inl e \<Rightarrow> Inl e | Inr ops \<Rightarrow>
      Inr (genesis_block (ge_hp env) gseed (compute_genesis_commitment env vs bls ops))))"

text \<open>The node decodes the ids in a loop of its own.\<close>

fun validator_ids :: "genesis_env \<Rightarrow> node_id list \<Rightarrow> string list \<Rightarrow> config_error + node_id list" where
  "validator_ids env ids [] = Inr ids"
| "validator_ids env ids (raw # raws) =
     (case base58_to_node_id env raw of
        None \<Rightarrow> Inl (UndecodableValidator raw)
      | Some n \<Rightarrow> validator_ids env (ids @ [n]) raws)"

definition build_validator_set :: "genesis_env \<Rightarrow> consensus_config \<Rightarrow> node_id \<Rightarrow> config_error + validator_set" where
  "build_validator_set env cfg me =
     (if cc_validators cfg = [] then Inl NoValidators
      else (case validator_ids env [] (cc_validators cfg) of Inl e \<Rightarrow> Inl e | Inr ids \<Rightarrow>
            if cc_full_node cfg \<and> me \<in> set ids then Inl FullNodeInSet
            else if \<not> cc_full_node cfg \<and> me \<notin> set ids then Inl NotInSet
            else Inr (vs_new ids)))"

section \<open>Checks of a configuration\<close>

record peer_config =
  pr_node_id :: "string option"
  pr_private :: bool
  pr_persistent :: bool

record keepalive_config =
  ka_interval_ms :: u64
  ka_timeout_ms :: u64

record admin_api_config =
  ad_listen_addr :: "string option"
  ad_auth_token :: "string option"
  ad_auth_token_env :: "string option"

record node_config =
  cf_peers :: "peer_config list"
  cf_consensus :: "consensus_config option"
  cf_keepalive :: "keepalive_config option"
  cf_admin :: admin_api_config

definition MAX_FRAME_BYTES :: nat where
  "MAX_FRAME_BYTES = 4 * 1024 * 1024"

definition validate_snapshot_policy :: "consensus_config \<Rightarrow> config_error + unit" where
  "validate_snapshot_policy cfg =
     (if cc_snapshot_interval_blocks cfg > 0 \<and> cc_snapshot_chunk_size_bytes cfg = 0 then Inl ZeroChunkSize
      else if unat (cc_snapshot_chunk_size_bytes cfg) > MAX_FRAME_BYTES - 64 * 1024 then Inl ChunkTooLarge
      else Inr ())"

definition keepalive_validate :: "keepalive_config \<Rightarrow> config_error + unit" where
  "keepalive_validate k =
     (if ka_interval_ms k = 0 then Inl ZeroKeepalive
      else if ka_timeout_ms k \<le> ka_interval_ms k then Inl KeepaliveTimeout else Inr ())"

text \<open>The environment variables of the process are the parameter \<open>vars\<close>.\<close>

definition resolve_auth_token :: "(string \<Rightarrow> string option) \<Rightarrow> admin_api_config \<Rightarrow> config_error + string option" where
  "resolve_auth_token vars a =
     (case ad_auth_token_env a of
        Some var \<Rightarrow>
          (case vars var of
             None \<Rightarrow> Inl (TokenUnset var)
           | Some val \<Rightarrow> if val = [] then Inl (TokenEmpty var) else Inr (Some val))
      | None \<Rightarrow> Inr (case ad_auth_token a of Some t \<Rightarrow> if t = [] then None else Some t | None \<Rightarrow> None))"

fun validate_peers :: "genesis_env \<Rightarrow> node_id \<Rightarrow> nat \<Rightarrow> peer_config list \<Rightarrow> config_error + unit" where
  "validate_peers env me idx [] = Inr ()"
| "validate_peers env me idx (p # ps) =
     (case pr_node_id p of
        None \<Rightarrow> if pr_private p \<or> pr_persistent p then Inl (PeerFlagWithoutId idx) else validate_peers env me (idx + 1) ps
      | Some raw \<Rightarrow>
          (case base58_to_node_id env raw of
             None \<Rightarrow> Inl (PeerBadId idx)
           | Some pid \<Rightarrow> if pid = me then Inl (PeerIsSelf idx) else validate_peers env me (idx + 1) ps))"

definition config_validate :: "genesis_env \<Rightarrow> (string \<Rightarrow> string option) \<Rightarrow> node_config \<Rightarrow> node_id \<Rightarrow> config_error + unit" where
  "config_validate env vars cfg me =
     (case validate_peers env me 0 (cf_peers cfg) of Inl e \<Rightarrow> Inl e | Inr _ \<Rightarrow>
     (case (case cf_consensus cfg of
              None \<Rightarrow> Inr ()
            | Some cons \<Rightarrow>
                (case validate_snapshot_policy cons of Inl e \<Rightarrow> Inl e | Inr _ \<Rightarrow>
                 map_sum id (\<lambda>_. ()) (resolve_genesis_bls_keys env cons))) of Inl e \<Rightarrow> Inl e | Inr _ \<Rightarrow>
     (case (case cf_keepalive cfg of None \<Rightarrow> Inr () | Some k \<Rightarrow> keepalive_validate k) of Inl e \<Rightarrow> Inl e | Inr _ \<Rightarrow>
     (case ad_listen_addr (cf_admin cfg) of
        None \<Rightarrow> Inr ()
      | Some _ \<Rightarrow> map_sum id (\<lambda>_. ()) (resolve_auth_token vars (cf_admin cfg))))))"

definition is_ascii_hexdigit :: "char \<Rightarrow> bool" where
  "is_ascii_hexdigit c \<longleftrightarrow> hex_nibble (of_char c) \<noteq> None"

definition strip_0x :: "string \<Rightarrow> string" where
  "strip_0x s = (case strip_prefix ''0x'' s of Some r \<Rightarrow> r | None \<Rightarrow> s)"

definition preflight_validate :: "genesis_env \<Rightarrow> node_config \<Rightarrow> config_error + unit" where
  "preflight_validate env cfg =
     (case cf_consensus cfg of
        None \<Rightarrow> Inr ()
      | Some cons \<Rightarrow>
          (case decode_validators env cons of Inl e \<Rightarrow> Inl e | Inr _ \<Rightarrow>
           if (case cc_genesis_seed_hex cons of None \<Rightarrow> False
               | Some s \<Rightarrow> length s \<noteq> 64 \<or> \<not> list_all is_ascii_hexdigit s) then Inl BadSeed
           else (case cc_checkpoint cons of
                   None \<Rightarrow> Inr ()
                 | Some cp \<Rightarrow>
                     if wsc_height cp = 0 then Inl ZeroCheckpointHeight
                     else (let h = strip_0x (wsc_hash cp) in
                           if length h \<noteq> 64 \<or> \<not> list_all is_ascii_hexdigit h then Inl BadCheckpointHash else Inr ()))))"

section \<open>Preflight accepts exactly the seeds that decode\<close>

lemma hex_pairs_Some:
  "even (length bs) \<Longrightarrow> hex_pairs bs \<noteq> None \<longleftrightarrow> list_all (\<lambda>b. hex_nibble b \<noteq> None) bs"
  by (induction bs rule: hex_pairs.induct) (auto split: option.splits)

lemma decode_hex32_Some: "decode_hex32 s \<noteq> None \<longleftrightarrow> length s = 64 \<and> list_all is_ascii_hexdigit s"
  using hex_pairs_Some[of "map of_char s"]
  by (auto simp: decode_hex32_def is_ascii_hexdigit_def list_all_iff simp del: hex_pairs.simps)

lemma preflight_seed:
  assumes "preflight_validate env cfg = Inr ()" "cf_consensus cfg = Some cons"
  shows "\<exists>sd. genesis_seed cons = Inr sd" "\<exists>ids. decode_validators env cons = Inr ids"
proof -
  show "\<exists>ids. decode_validators env cons = Inr ids"
    using assms by (auto simp: preflight_validate_def split: sum.splits)
  have "case cc_genesis_seed_hex cons of None \<Rightarrow> True | Some s \<Rightarrow> length s = 64 \<and> list_all is_ascii_hexdigit s"
    using assms by (auto simp: preflight_validate_def split: sum.splits option.splits if_splits)
  then show "\<exists>sd. genesis_seed cons = Inr sd"
    by (auto simp: genesis_seed_def decode_hex32_Some[symmetric] split: option.splits)
qed

section \<open>The key table is complete\<close>

lemma declared_ids:
  "try_fold (declare_step env) acc (enumerate i raws) = Inr declared \<Longrightarrow> distinct acc
   \<Longrightarrow> \<exists>ids. map (base58_to_node_id env) raws = map Some ids \<and> declared = rev ids @ acc \<and> distinct declared"
proof (induction raws arbitrary: acc i)
  case (Cons raw raws)
  then obtain a where a: "declare_step env acc (i, raw) = Inr a" "try_fold (declare_step env) a (enumerate (Suc i) raws) = Inr declared"
    by (auto split: sum.splits)
  from a(1) obtain nid where n: "base58_to_node_id env raw = Some nid" "nid \<notin> set acc" and [simp]: "a = nid # acc"
    by (auto simp: declare_step_def split: option.splits if_splits)
  note rest = a(2)[simplified]
  from Cons.IH[OF rest] Cons.prems(2) n(2) obtain ids where
    "map (base58_to_node_id env) raws = map Some ids" "declared = rev ids @ nid # acc" "distinct declared" by auto
  then show ?case using n(1) by (intro exI[of _ "nid # ids"]) simp
qed simp

definition entries_ok :: "node_id list \<Rightarrow> node_id list \<times> (node_id \<times> bls_pk \<times> bls_pop) list \<Rightarrow> bool" where
  "entries_ok declared acc \<longleftrightarrow> fst acc = map fst (snd acc) \<and> distinct (fst acc) \<and> set (fst acc) \<subseteq> set declared
     \<and> list_all (\<lambda>(n, pk, pop). pop_pubkey pop = pk) (snd acc)"

lemma bls_entry_step_ok:
  assumes "bls_entry_step env declared acc ie = Inr acc'" "entries_ok declared acc"
  shows "entries_ok declared acc' \<and> length (snd acc') = Suc (length (snd acc))"
  using assms by (force simp: bls_entry_step_def entries_ok_def split: prod.splits option.splits if_splits)

lemma bls_entries_ok:
  "try_fold (bls_entry_step env declared) acc ies = Inr acc' \<Longrightarrow> entries_ok declared acc
   \<Longrightarrow> entries_ok declared acc' \<and> length (snd acc') = length (snd acc) + length ies"
proof (induction ies arbitrary: acc)
  case (Cons ie ies)
  then obtain a where a: "bls_entry_step env declared acc ie = Inr a" "try_fold (bls_entry_step env declared) a ies = Inr acc'"
    by (auto split: sum.splits)
  from bls_entry_step_ok[OF a(1) Cons.prems(2)] Cons.IH[OF a(2)] show ?case by simp
qed simp

lemma genesis_bls_keys:
  assumes "resolve_genesis_bls_keys env cfg = Inr out"
  obtains ids where "map (base58_to_node_id env) (cc_validators cfg) = map Some ids" "distinct ids"
    "distinct (map fst out)" "set (map fst out) = set ids" "list_all (\<lambda>(n, pk, pop). pop_pubkey pop = pk) out"
proof -
  from assms obtain declared acc where
    d: "try_fold (declare_step env) [] (enumerate 0 (cc_validators cfg)) = Inr declared" and
    a: "try_fold (bls_entry_step env declared) ([], []) (enumerate 0 (cc_validators_bls cfg)) = Inr acc" and
    out: "out = rev (snd acc)" and len: "length (cc_validators_bls cfg) = length (cc_validators cfg)"
    by (auto simp: resolve_genesis_bls_keys_def split: sum.splits if_splits)
  from declared_ids[OF d] obtain ids where ids: "map (base58_to_node_id env) (cc_validators cfg) = map Some ids"
    "declared = rev ids" "distinct ids" by auto
  have "entries_ok declared ([], [])" by (simp add: entries_ok_def)
  then have ok: "entries_ok declared acc" "length (snd acc) = length (cc_validators cfg)"
    using bls_entries_ok[OF a] len by simp_all
  have dist: "distinct (map fst (snd acc))" and "set (map fst (snd acc)) \<subseteq> set ids"
    using ok(1) ids(2) unfolding entries_ok_def by (metis, metis set_rev)
  moreover have "length (map fst (snd acc)) = length ids"
    using ok(2) arg_cong[OF ids(1), of length] by simp
  ultimately have "set (map fst (snd acc)) = set ids"
    using dist ids(3) card_subset_eq[of "set ids"] by (metis List.finite_set distinct_card)
  then show ?thesis
    using that ids(1,3) ok(1) out dist by (simp add: entries_ok_def rev_map[symmetric] list_all_rev)
qed

lemma decode_validators_Some:
  "map (base58_to_node_id env) (cc_validators cfg) = map Some ids \<Longrightarrow> decode_validators env cfg = Inr ids"
proof -
  have "map (base58_to_node_id env) raws = map Some ids \<Longrightarrow>
      try_map (\<lambda>(i, raw). case base58_to_node_id env raw of None \<Rightarrow> Inl (BadValidatorId i) | Some n \<Rightarrow> Inr n) (enumerate i raws) = Inr ids"
    for raws i by (induction raws arbitrary: i ids) auto
  then show "map (base58_to_node_id env) (cc_validators cfg) = map Some ids \<Longrightarrow> decode_validators env cfg = Inr ids"
    by (simp add: decode_validators_def)
qed

lemma validator_ids_Some:
  "map (base58_to_node_id env) raws = map Some ids \<Longrightarrow> validator_ids env acc raws = Inr (acc @ ids)"
  by (induction raws arbitrary: ids acc) auto

text \<open>C25: nodes and tools agree on the chain. When a node builds its genesis block from a
  configuration, every tool derives the hash of that block as the chain id from it, the
  BLS table has exactly one key for every configured validator, and these are the members
  of the genesis set.\<close>

theorem genesis_agreed:
  assumes "build_validator_set env cfg me = Inr vs" "resolve_genesis_bls_keys env cfg = Inr full"
    and "build_genesis env cfg vs (map (\<lambda>(n, pk, _). (n, pk)) full) = Inr g"
  shows "derive_chain_id env cfg = Inr (block_hash_of (ge_hp env) g)
    \<and> distinct (map fst full) \<and> set (map fst full) = set (members vs) \<and> length full = vs_len vs
    \<and> (me \<in> set (members vs) \<longleftrightarrow> \<not> cc_full_node cfg)"
proof -
  from genesis_bls_keys[OF assms(2)] obtain ids where
    ids: "map (base58_to_node_id env) (cc_validators cfg) = map Some ids" "distinct ids"
      "distinct (map fst full)" "set (map fst full) = set ids" by blast
  have d: "decode_validators env cfg = Inr ids" by (rule decode_validators_Some[OF ids(1)])
  have "validator_ids env [] (cc_validators cfg) = Inr ids" using validator_ids_Some[OF ids(1), of "[]"] by simp
  then have vs: "vs = vs_new ids" "me \<in> set ids \<longleftrightarrow> \<not> cc_full_node cfg" "cc_validators cfg \<noteq> []"
    using assms(1) by (auto simp: build_validator_set_def split: if_splits)
  have m: "set (members vs) = set ids" unfolding vs(1) by (rule vs_new_members)
  have "derive_chain_id env cfg = Inr (block_hash_of (ge_hp env) g)"
    using assms(2,3) d vs(1,3)
    by (auto simp: build_genesis_def derive_chain_id_def derive_chain_id_from_parts_def genesis_seed_def
        split: sum.splits option.splits)
  moreover have "length full = vs_len vs"
    using ids(3,4) m vs_wf_distinct[OF vs_new_wf[of ids]] unfolding vs(1)
    by (metis distinct_card length_map vs_len_def)
  ultimately show ?thesis using ids(3,4) m vs(2) by simp
qed

section \<open>The chain id binds the genesis\<close>

definition genesis_histories :: "node_id list \<Rightarrow> (node_id \<times> bls_pk) list \<Rightarrow> (node_id \<times> node_id) list \<Rightarrow> histories" where
  "genesis_histories ids bls ops =
     \<lparr> hs_set = vh_from_genesis (vs_new ids), hs_key = kh_new (members (vs_new ids)),
       hs_operator = genesis_operator_history ops, hs_bls = Some (bkh_with_genesis bls) \<rparr>"

lemma genesis_commitment_of:
  "compute_genesis_commitment env (vs_new ids) bls ops = commitment_of (ge_commit env) (genesis_histories ids bls ops)"
  by (simp add: compute_genesis_commitment_def commitment_of_def genesis_histories_def)

lemma genesis_preimage_inj:
  assumes "encoders_distinguish ce (genesis_histories ids bls ops) (genesis_histories ids' bls' ops')"
    and "commitment_of ce (genesis_histories ids bls ops) = commitment_of ce (genesis_histories ids' bls' ops')"
    and nocoll: "\<not> collides (ce_sha256 ce) (preimage_of ce (genesis_histories ids bls ops)) (preimage_of ce (genesis_histories ids' bls' ops'))"
  shows "vs_new ids = vs_new ids'" "bkh_with_genesis bls = bkh_with_genesis bls'"
    "persisted_op (genesis_operator_history ops) = persisted_op (genesis_operator_history ops')"
proof -
  let ?h = "genesis_histories ids bls ops" and ?h' = "genesis_histories ids' bls' ops'"
  have "preimage_of ce ?h = preimage_of ce ?h'"
    using assms(2) nocoll unfolding commitment_of_def validator_history_commitment_v2_def collides_def by blast
  note p = commitment_preimage_inj[OF assms(1) this, unfolded genesis_histories_def, simplified]
  have "vh_from_genesis (vs_new ids) = vh_from_genesis (vs_new ids')"
    using vh_persist_roundtrip[OF vh_from_genesis_wf[OF vs_new_wf]] vh_persist_roundtrip[OF vh_from_genesis_wf[OF vs_new_wf]] p(1)
    by (rule roundtrip_inj)
  then show "vs_new ids = vs_new ids'" by (simp add: vh_from_genesis_def)
  show "bkh_with_genesis bls = bkh_with_genesis bls'"
    using bkh_persist_roundtrip[OF bkh_with_genesis_wf] bkh_persist_roundtrip[OF bkh_with_genesis_wf] p(3) by (rule roundtrip_inj)
  show "persisted_op (genesis_operator_history ops) = persisted_op (genesis_operator_history ops')" by (rule p(4))
qed

text \<open>Two genesis descriptions with the same chain id have the same validators, BLS keys, operator
  keys and seed, unless the encodings of their headers or the preimages of their histories
  collide.\<close>

theorem chain_id_binds_genesis:
  assumes eq: "derive_chain_id_from_parts env ids bls ops sd = derive_chain_id_from_parts env ids' bls' ops' sd'"
    and hist: "encoders_distinguish (ge_commit env) (genesis_histories ids bls ops) (genesis_histories ids' bls' ops')"
    and hdr: "inj (pc_header (ge_hp env))"
  shows "(set ids = set ids' \<and> bkh_with_genesis bls = bkh_with_genesis bls' \<and> sd = sd'
      \<and> persisted_op (genesis_operator_history ops) = persisted_op (genesis_operator_history ops'))
    \<or> collides (sha256 (ge_hp env))
        (pc_header (ge_hp env) (header (genesis_block (ge_hp env) sd (compute_genesis_commitment env (vs_new ids) bls ops))))
        (pc_header (ge_hp env) (header (genesis_block (ge_hp env) sd' (compute_genesis_commitment env (vs_new ids') bls' ops'))))
    \<or> collides (ce_sha256 (ge_commit env)) (preimage_of (ge_commit env) (genesis_histories ids bls ops))
        (preimage_of (ge_commit env) (genesis_histories ids' bls' ops'))"
proof (rule ccontr)
  assume n: "\<not> ?thesis"
  let ?g = "\<lambda>ids bls ops sd. genesis_block (ge_hp env) sd (compute_genesis_commitment env (vs_new ids) bls ops)"
  have "pc_header (ge_hp env) (header (?g ids bls ops sd)) = pc_header (ge_hp env) (header (?g ids' bls' ops' sd'))"
    using eq n by (auto simp: derive_chain_id_from_parts_def block_hash_of_def header_hash_def collides_def)
  then have h: "header (?g ids bls ops sd) = header (?g ids' bls' ops' sd')" using hdr by (simp add: inj_eq)
  then have "sd = sd'" and c: "commitment_of (ge_commit env) (genesis_histories ids bls ops)
      = commitment_of (ge_commit env) (genesis_histories ids' bls' ops')"
    by (simp_all add: genesis_block_def genesis_commitment_of)
  moreover have "\<not> collides (ce_sha256 (ge_commit env)) (preimage_of (ge_commit env) (genesis_histories ids bls ops))
      (preimage_of (ge_commit env) (genesis_histories ids' bls' ops'))" using n by blast
  note g = genesis_preimage_inj[OF hist c this]
  have "set ids = set ids'" using g(1) vs_new_members[of ids] vs_new_members[of ids'] by simp
  ultimately show False using n g(2,3) by blast
qed

text \<open>Four validators whose ids are written as one letter, with keys of one repeated byte.\<close>

definition demo_genesis_env :: genesis_env where
  "demo_genesis_env =
     \<lparr> ge_b58 = (\<lambda>s. if length s = 1 then Some (replicate 31 0 @ map of_char s) else None),
       ge_unhex = (\<lambda>s. Some (concat (map (\<lambda>c. replicate 48 (of_char c)) s))),
       ge_commit = demo_commit,
       ge_hp = \<lparr> sha256 = (\<lambda>bs. case bs of [] \<Rightarrow> 0 | b # _ \<Rightarrow> ucast b), pc_header = (\<lambda>h. [ucast (hdr_view h) + 1]),
         pc_commands = (\<lambda>cs. [of_nat (length cs)]) \<rparr> \<rparr>"

definition demo_genesis_config :: consensus_config where
  "demo_genesis_config =
     \<lparr> cc_validators = [''a'', ''b'', ''c'', ''d''], cc_full_node = False, cc_genesis_seed_hex = None, cc_checkpoint = None,
       cc_snapshot_interval_blocks = 0, cc_snapshot_chunk_size_bytes = 1024,
       cc_validators_bls = map (\<lambda>c. \<lparr> be_node_id = [c], be_bls_pubkey = [c], be_bls_pop = [c, c] \<rparr>) ''dcba'',
       cc_validators_operator_keys = [] \<rparr>"

lemma zeros_fold: "((\<lambda>acc :: nat. acc * 256) ^^ n) 0 = 0"
  by (induction n) simp_all

lemma demo_genesis_ids:
  "base58_to_node_id demo_genesis_env ''a'' = Some 97" "base58_to_node_id demo_genesis_env ''b'' = Some 98"
  "base58_to_node_id demo_genesis_env ''c'' = Some 99" "base58_to_node_id demo_genesis_env ''d'' = Some 100"
  by (simp_all add: base58_to_node_id_def demo_genesis_env_def of_be_bytes_def zeros_fold)

lemma demo_genesis_array:
  "decode_hex_array demo_genesis_env 48 [c] = Some (replicate 48 (of_char c))"
  "decode_hex_array demo_genesis_env 96 [c, c] = Some (replicate 96 (of_char c))"
  by (simp_all add: decode_hex_array_def demo_genesis_env_def flip: replicate_add)

theorem genesis_agreed_witness:
  "\<exists>vs full g. build_validator_set demo_genesis_env demo_genesis_config 97 = Inr vs
     \<and> resolve_genesis_bls_keys demo_genesis_env demo_genesis_config = Inr full \<and> length full = 4
     \<and> derive_chain_id demo_genesis_env demo_genesis_config = Inr (block_hash_of (ge_hp demo_genesis_env) g)
     \<and> set (map fst full) = {97, 98, 99, 100}"
proof -
  have v: "build_validator_set demo_genesis_env demo_genesis_config 97 = Inr (vs_new [97, 98, 99, 100])"
    by (simp add: build_validator_set_def demo_genesis_config_def demo_genesis_ids)
  obtain full where f: "resolve_genesis_bls_keys demo_genesis_env demo_genesis_config = Inr full" "length full = 4"
    by (simp add: resolve_genesis_bls_keys_def declare_step_def bls_entry_step_def demo_genesis_config_def demo_genesis_ids
        demo_genesis_array)
  obtain g where g: "build_genesis demo_genesis_env demo_genesis_config (vs_new [97, 98, 99, 100]) (map (\<lambda>(n, pk, _). (n, pk)) full) = Inr g"
    by (simp add: build_genesis_def genesis_seed_def resolve_genesis_operator_keys_def demo_genesis_config_def)
  show ?thesis using v f genesis_agreed[OF v f(1) g] vs_new_members[of "[97, 98, 99, 100]"] by auto
qed

end
