(* ===== verification/Conn_Limits.thy ===== *)
theory Conn_Limits
  imports Prelude "HOL-Library.Multiset"
begin

text \<open>
  Limits on connections and on handshakes in progress
  (\<open>boule-core/src/transport/limits.rs\<close>). The counters are atomics; admission holds the lock
  of the table per address, while a release decrements the global counter before it takes
  that lock. The step relations below interleave the two: they keep the connections that
  are open and those that are half released, and show that the counters never drift and
  that the limits hold at every moment.
\<close>

section \<open>Connection limiter\<close>

datatype ip_addr = V4 u32 | V6 u128

datatype direction = Inbound | Outbound

datatype reject_reason = TotalInbound | TotalOutbound | PerIp | Total

record connection_limits_config =
  max_inbound :: u64
  max_outbound :: u64
  max_per_ip :: u64
  max_total :: u64

definition cl_production_defaults :: connection_limits_config where
  "cl_production_defaults = \<lparr> max_inbound = 512, max_outbound = 64, max_per_ip = 8, max_total = - 1 \<rparr>"

definition cl_unbounded_for_tests :: connection_limits_config where
  "cl_unbounded_for_tests = \<lparr> max_inbound = - 1, max_outbound = - 1, max_per_ip = - 1, max_total = - 1 \<rparr>"

fun reject_label :: "reject_reason \<Rightarrow> string" where
  "reject_label TotalInbound = ''max_inbound''"
| "reject_label TotalOutbound = ''max_outbound''"
| "reject_label PerIp = ''max_per_ip''"
| "reject_label Total = ''max_total''"

type_synonym ip_table = "(ip_addr, u64) hmap"

record connection_limiter =
  cl_config :: connection_limits_config
  cl_inbound :: u64
  cl_outbound :: u64
  cl_per_ip :: ip_table
  cl_rejects :: u64

definition cl_new :: "connection_limits_config \<Rightarrow> connection_limiter" where
  "cl_new cfg = \<lparr> cl_config = cfg, cl_inbound = 0, cl_outbound = 0, cl_per_ip = [], cl_rejects = 0 \<rparr>"

definition ip_count :: "ip_table \<Rightarrow> ip_addr \<Rightarrow> u64" where
  "ip_count m ip = (case hm_get m ip of Some c \<Rightarrow> c | None \<Rightarrow> 0)"

definition ip_bump :: "ip_addr \<Rightarrow> ip_table \<Rightarrow> ip_table" where
  "ip_bump ip m = hm_insert ip (ip_count m ip + 1) m"

definition ip_drop :: "ip_addr \<Rightarrow> ip_table \<Rightarrow> ip_table" where
  "ip_drop ip m =
     (case hm_get m ip of
        None \<Rightarrow> m
      | Some c \<Rightarrow> (let c' = saturating_sub c 1 in if c' = 0 then hm_remove ip m else hm_insert ip c' m))"

text \<open>The decision under the lock, from the counters as they were read, and its effect.\<close>

definition admit_check :: "connection_limits_config \<Rightarrow> direction \<Rightarrow> u64 \<Rightarrow> u64 \<Rightarrow> u64 \<Rightarrow> reject_reason option" where
  "admit_check cfg d ips inbound_cur outbound_cur =
     (if ips \<ge> max_per_ip cfg then Some PerIp
      else if saturating_add inbound_cur outbound_cur \<ge> max_total cfg then Some Total
      else (case d of
              Inbound \<Rightarrow> if inbound_cur \<ge> max_inbound cfg then Some TotalInbound else None
            | Outbound \<Rightarrow> if outbound_cur \<ge> max_outbound cfg then Some TotalOutbound else None))"

fun admit_apply :: "direction \<Rightarrow> ip_addr \<Rightarrow> connection_limiter \<Rightarrow> connection_limiter" where
  "admit_apply Inbound ip l = l\<lparr> cl_inbound := cl_inbound l + 1, cl_per_ip := ip_bump ip (cl_per_ip l) \<rparr>"
| "admit_apply Outbound ip l = l\<lparr> cl_outbound := cl_outbound l + 1, cl_per_ip := ip_bump ip (cl_per_ip l) \<rparr>"

definition try_admit :: "direction \<Rightarrow> ip_addr \<Rightarrow> connection_limiter \<Rightarrow> (reject_reason + unit) \<times> connection_limiter" where
  "try_admit d ip l =
     (case admit_check (cl_config l) d (ip_count (cl_per_ip l) ip) (cl_inbound l) (cl_outbound l) of
        Some r \<Rightarrow> (Inl r, l\<lparr> cl_rejects := cl_rejects l + 1 \<rparr>)
      | None \<Rightarrow> (Inr (), admit_apply d ip l))"

definition try_admit_peer ::
  "direction \<Rightarrow> ip_addr \<Rightarrow> node_id option \<Rightarrow> node_id set \<Rightarrow> connection_limiter \<Rightarrow> (reject_reason + unit) \<times> connection_limiter" where
  "try_admit_peer d ip node unconditional l =
     (if d = Inbound \<and> (case node of Some n \<Rightarrow> n \<in> unconditional | None \<Rightarrow> False)
      then (Inr (), admit_apply Inbound ip l)
      else try_admit d ip l)"

text \<open>A release in two steps, as other threads see it.\<close>

fun release_total :: "direction \<Rightarrow> connection_limiter \<Rightarrow> connection_limiter" where
  "release_total Inbound l = l\<lparr> cl_inbound := saturating_sub (cl_inbound l) 1 \<rparr>"
| "release_total Outbound l = l\<lparr> cl_outbound := saturating_sub (cl_outbound l) 1 \<rparr>"

definition release_ip :: "ip_addr \<Rightarrow> connection_limiter \<Rightarrow> connection_limiter" where
  "release_ip ip l = l\<lparr> cl_per_ip := ip_drop ip (cl_per_ip l) \<rparr>"

definition conn_release :: "direction \<Rightarrow> ip_addr \<Rightarrow> connection_limiter \<Rightarrow> connection_limiter" where
  "conn_release d ip l = release_ip ip (release_total d l)"

definition cl_total :: "connection_limiter \<Rightarrow> u64" where
  "cl_total l = saturating_add (cl_inbound l) (cl_outbound l)"

section \<open>Handshake limiter\<close>

datatype handshake_reject = TotalInflight | PerIpInflight

record handshake_limits_config =
  max_inflight :: u64
  max_inflight_per_ip :: u64
  hs_timeout :: nat

text \<open>The timeout is in nanoseconds.\<close>

definition hs_production_defaults :: handshake_limits_config where
  "hs_production_defaults = \<lparr> max_inflight = 256, max_inflight_per_ip = 4, hs_timeout = 10 * 10 ^ 9 \<rparr>"

definition hs_unbounded_for_tests :: handshake_limits_config where
  "hs_unbounded_for_tests = \<lparr> max_inflight = - 1, max_inflight_per_ip = - 1, hs_timeout = 3600 * 10 ^ 9 \<rparr>"

fun handshake_label :: "handshake_reject \<Rightarrow> string" where
  "handshake_label TotalInflight = ''max_inflight''"
| "handshake_label PerIpInflight = ''max_inflight_per_ip''"

record handshake_limiter =
  hs_config :: handshake_limits_config
  hs_inflight :: u64
  hs_per_ip :: ip_table
  hs_rejects :: u64

definition handshake_new :: "handshake_limits_config \<Rightarrow> handshake_limiter" where
  "handshake_new cfg = \<lparr> hs_config = cfg, hs_inflight = 0, hs_per_ip = [], hs_rejects = 0 \<rparr>"

definition acquire_check :: "handshake_limits_config \<Rightarrow> u64 \<Rightarrow> u64 \<Rightarrow> handshake_reject option" where
  "acquire_check cfg ips inflight =
     (if ips \<ge> max_inflight_per_ip cfg then Some PerIpInflight
      else if inflight \<ge> max_inflight cfg then Some TotalInflight else None)"

definition acquire_apply :: "ip_addr \<Rightarrow> handshake_limiter \<Rightarrow> handshake_limiter" where
  "acquire_apply ip l = l\<lparr> hs_inflight := hs_inflight l + 1, hs_per_ip := ip_bump ip (hs_per_ip l) \<rparr>"

text \<open>A permit is the address it was given for.\<close>

definition acquire_permit :: "ip_addr \<Rightarrow> handshake_limiter \<Rightarrow> (handshake_reject + ip_addr) \<times> handshake_limiter" where
  "acquire_permit ip l =
     (case acquire_check (hs_config l) (ip_count (hs_per_ip l) ip) (hs_inflight l) of
        Some r \<Rightarrow> (Inl r, l\<lparr> hs_rejects := hs_rejects l + 1 \<rparr>)
      | None \<Rightarrow> (Inr ip, acquire_apply ip l))"

definition hs_release_total :: "handshake_limiter \<Rightarrow> handshake_limiter" where
  "hs_release_total l = l\<lparr> hs_inflight := saturating_sub (hs_inflight l) 1 \<rparr>"

definition hs_release_ip :: "ip_addr \<Rightarrow> handshake_limiter \<Rightarrow> handshake_limiter" where
  "hs_release_ip ip l = l\<lparr> hs_per_ip := ip_drop ip (hs_per_ip l) \<rparr>"

definition hs_release :: "ip_addr \<Rightarrow> handshake_limiter \<Rightarrow> handshake_limiter" where
  "hs_release ip l = hs_release_ip ip (hs_release_total l)"

text \<open>Dropping a permit releases it.\<close>

definition drop_permit :: "ip_addr \<Rightarrow> handshake_limiter \<Rightarrow> handshake_limiter" where
  "drop_permit permit l = hs_release permit l"

section \<open>The table per address counts\<close>

text \<open>The table holds exactly the addresses of \<open>M\<close>, each with its multiplicity.\<close>

definition ip_counts :: "ip_table \<Rightarrow> ip_addr multiset \<Rightarrow> bool" where
  "ip_counts m M \<longleftrightarrow>
     (\<forall>ip. count M ip < 2 ^ 64 \<and> hm_get m ip = (if ip \<in># M then Some (of_nat (count M ip)) else None))"

lemma ip_counts_empty [simp]: "ip_counts [] {#}"
  by (simp add: ip_counts_def)

lemma ip_counts_less: "ip_counts m M \<Longrightarrow> count M ip < 2 ^ 64"
  by (simp add: ip_counts_def)

lemma ip_counts_count:
  assumes "ip_counts m M"
  shows "unat (ip_count m ip) = count M ip"
proof -
  have "ip_count m ip = of_nat (count M ip)"
    using assms by (simp add: ip_counts_def ip_count_def not_in_iff)
  then show ?thesis using ip_counts_less[OF assms, of ip] by (simp add: unat_of_nat take_bit_eq_mod)
qed

lemma ip_counts_bump:
  assumes "ip_counts m M" "count M ip + 1 < 2 ^ 64"
  shows "ip_counts (ip_bump ip m) (add_mset ip M)"
  using assms by (auto simp: ip_counts_def ip_bump_def ip_count_def not_in_iff)

lemma sat_sub_one:
  assumes "0 < n" "n < 2 ^ 64"
  shows "saturating_sub (of_nat n) 1 = (of_nat (n - 1) :: u64)"
proof -
  have "unat (of_nat n :: u64) = n" using assms by (simp add: unat_of_nat take_bit_eq_mod)
  then have "(1 :: u64) \<le> of_nat n" using assms by (simp add: word_le_nat_alt)
  then show ?thesis using assms by (simp add: saturating_sub_def of_nat_diff)
qed

lemma ip_counts_drop:
  assumes "ip_counts m (add_mset ip M)"
  shows "ip_counts (ip_drop ip m) M"
proof -
  have lt: "count M ip + 1 < 2 ^ 64" using ip_counts_less[OF assms, of ip] by simp
  have get: "hm_get m y = (if y \<in># add_mset ip M then Some (of_nat (count (add_mset ip M) y)) else None)" for y
    using assms by (simp add: ip_counts_def)
  have s: "saturating_sub (of_nat (count M ip + 1)) 1 = (of_nat (count M ip) :: u64)"
    using sat_sub_one[of "count M ip + 1"] lt by simp
  have z: "(of_nat (count M ip) :: u64) = 0 \<longleftrightarrow> ip \<notin># M"
    using lt by (simp add: word_unat_eq_iff unat_of_nat take_bit_eq_mod not_in_iff)
  have "hm_get (ip_drop ip m) y = (if y \<in># M then Some (of_nat (count M y)) else None)" for y
    using s z by (simp add: ip_drop_def get Let_def not_in_iff)
  moreover have "count M y < 2 ^ 64" for y
    using ip_counts_less[OF assms, of y] by (simp split: if_splits)
  ultimately show ?thesis by (simp add: ip_counts_def)
qed

section \<open>Interleaved admissions and releases\<close>

text \<open>A connection is its direction, its address and whether it bypassed the limits.\<close>

type_synonym conn = "direction \<times> ip_addr \<times> bool"

abbreviation conn_ip :: "conn \<Rightarrow> ip_addr" where
  "conn_ip c \<equiv> fst (snd c)"

definition in_dir :: "direction \<Rightarrow> conn \<Rightarrow> bool" where
  "in_dir d c \<longleftrightarrow> fst c = d"

definition limited :: "conn \<Rightarrow> bool" where
  "limited c \<longleftrightarrow> \<not> snd (snd c)"

text \<open>The threads around one limiter: the lock is free or held by an admission that passed its
  check, \<open>os\<close> are the open connections and \<open>hs\<close> those whose release has not yet reached the
  table. The counters an admission compares may be older than the check, when a release
  ran in between; they are then too large.\<close>

inductive conn_reach ::
  "connection_limits_config \<Rightarrow> connection_limiter \<Rightarrow> (direction \<times> ip_addr) option \<Rightarrow> conn multiset \<Rightarrow> conn multiset \<Rightarrow> bool"
  for cfg where
  start: "conn_reach cfg (cl_new cfg) None {#} {#}"
| check: "conn_reach cfg l None os hs \<Longrightarrow> cl_inbound l \<le> i \<Longrightarrow> cl_outbound l \<le> j
    \<Longrightarrow> admit_check (cl_config l) d (ip_count (cl_per_ip l) ip) i j = None \<Longrightarrow> conn_reach cfg l (Some (d, ip)) os hs"
| reject: "conn_reach cfg l None os hs \<Longrightarrow> conn_reach cfg (l\<lparr> cl_rejects := cl_rejects l + 1 \<rparr>) None os hs"
| admit: "conn_reach cfg l (Some (d, ip)) os hs \<Longrightarrow> conn_reach cfg (admit_apply d ip l) None (add_mset (d, ip, False) os) hs"
| bypass: "conn_reach cfg l None os hs \<Longrightarrow> size os + size hs + 1 < 2 ^ 64
    \<Longrightarrow> conn_reach cfg (admit_apply Inbound ip l) None (add_mset (Inbound, ip, True) os) hs"
| release_total: "conn_reach cfg l lock (add_mset c os) hs \<Longrightarrow> conn_reach cfg (release_total (fst c) l) lock os (add_mset c hs)"
| release_ip: "conn_reach cfg l None os (add_mset c hs) \<Longrightarrow> conn_reach cfg (release_ip (conn_ip c) l) None os hs"

text \<open>The calls of the source are sequences of these steps.\<close>

lemma conn_reach_try_admit:
  assumes "conn_reach cfg l None os hs" "try_admit d ip l = (res, l')"
  shows "conn_reach cfg l' None (if res = Inr () then add_mset (d, ip, False) os else os) hs"
proof (cases "admit_check (cl_config l) d (ip_count (cl_per_ip l) ip) (cl_inbound l) (cl_outbound l)")
  case None
  then have "conn_reach cfg (admit_apply d ip l) None (add_mset (d, ip, False) os) hs"
    using conn_reach.check[OF assms(1) order_refl order_refl] conn_reach.admit by blast
  with None assms(2) show ?thesis by (auto simp: try_admit_def)
qed (use assms conn_reach.reject in \<open>auto simp: try_admit_def\<close>)

lemma conn_reach_release:
  assumes "conn_reach cfg l None (add_mset c os) hs"
  shows "conn_reach cfg (conn_release (fst c) (conn_ip c) l) None os hs"
  unfolding conn_release_def by (rule conn_reach.release_ip[OF conn_reach.release_total[OF assms]])

section \<open>The counters are exact and the limits hold\<close>

definition conn_inv ::
  "connection_limits_config \<Rightarrow> connection_limiter \<Rightarrow> (direction \<times> ip_addr) option \<Rightarrow> conn multiset \<Rightarrow> conn multiset \<Rightarrow> bool" where
  "conn_inv cfg l lock os hs \<longleftrightarrow> cl_config l = cfg
     \<and> unat (cl_inbound l) = size (filter_mset (in_dir Inbound) os)
     \<and> unat (cl_outbound l) = size (filter_mset (in_dir Outbound) os)
     \<and> ip_counts (cl_per_ip l) (image_mset conn_ip (os + hs))
     \<and> (\<forall>d ip. lock = Some (d, ip) \<longrightarrow>
          admit_check cfg d (ip_count (cl_per_ip l) ip) (cl_inbound l) (cl_outbound l) = None)"

definition conn_bounds :: "connection_limits_config \<Rightarrow> conn multiset \<Rightarrow> conn multiset \<Rightarrow> bool" where
  "conn_bounds cfg os hs \<longleftrightarrow>
     size {#c \<in># os. in_dir Inbound c \<and> limited c#} \<le> unat (max_inbound cfg)
     \<and> size {#c \<in># os. in_dir Outbound c \<and> limited c#} \<le> unat (max_outbound cfg)
     \<and> size (filter_mset limited os) \<le> unat (max_total cfg)
     \<and> (\<forall>ip. size {#c \<in># os + hs. conn_ip c = ip \<and> limited c#} \<le> unat (max_per_ip cfg))"

lemma size_filter_le: "(\<And>c. P c \<Longrightarrow> Q c) \<Longrightarrow> size (filter_mset P M) \<le> size (filter_mset Q M)"
  by (induction M) auto

lemma size_directions: "size (filter_mset (in_dir Inbound) M) + size (filter_mset (in_dir Outbound) M) = size M"
  by (induction M) (auto simp: in_dir_def, metis direction.exhaust)

lemma count_ips: "count (image_mset conn_ip M) ip = size {#c \<in># M. conn_ip c = ip#}"
  by (induction M) auto

lemma admit_check_mono:
  assumes "admit_check cfg d ips i j = None" "i' \<le> i" "j' \<le> j"
  shows "admit_check cfg d ips i' j' = None"
proof -
  have "saturating_add i' j' \<le> saturating_add i j"
    using assms(2,3) by (simp add: word_le_nat_alt unat_saturating_add)
  then show ?thesis
    using assms by (auto simp: admit_check_def not_le split: if_splits direction.splits)
qed

lemma admit_check_None:
  assumes "admit_check cfg d ips i j = None"
  shows "unat ips < unat (max_per_ip cfg)" "unat i + unat j < unat (max_total cfg)"
    "d = Inbound \<Longrightarrow> unat i < unat (max_inbound cfg)" "d = Outbound \<Longrightarrow> unat j < unat (max_outbound cfg)"
  using assms unat_bound[of "max_total cfg"]
  by (auto simp: admit_check_def not_le word_less_nat_alt unat_saturating_add split: if_splits)

lemma unat_plus_one: "unat x + 1 < 2 ^ 64 \<Longrightarrow> unat (x + 1 :: u64) = unat x + 1"
  by (simp add: unat_word_ariths)

lemma conn_inv_ip:
  assumes "conn_inv cfg l lock os hs"
  shows "unat (ip_count (cl_per_ip l) ip) = size {#c \<in># os + hs. conn_ip c = ip#}"
  using assms ip_counts_count[of "cl_per_ip l" "image_mset conn_ip (os + hs)" ip] count_ips[of "os + hs" ip]
  by (simp only: conn_inv_def)

lemma conn_inv_admit:
  assumes inv: "conn_inv cfg l lock os hs"
    and room: "unat (cl_inbound l) + unat (cl_outbound l) + 1 < 2 ^ 64" "unat (ip_count (cl_per_ip l) ip) + 1 < 2 ^ 64"
  shows "conn_inv cfg (admit_apply d ip l) None (add_mset (d, ip, u) os) hs"
proof -
  have c: "ip_counts (cl_per_ip l) (image_mset conn_ip (os + hs))" using inv by (simp add: conn_inv_def)
  have b: "ip_counts (ip_bump ip (cl_per_ip l)) (add_mset ip (image_mset conn_ip (os + hs)))"
    by (rule ip_counts_bump[OF c]) (use room(2) ip_counts_count[OF c, of ip] in simp)
  then show ?thesis
    using inv room(1) by (cases d) (simp_all add: conn_inv_def in_dir_def unat_plus_one)
qed

lemma conn_bounds_admit:
  assumes inv: "conn_inv cfg l (Some (d, ip)) os hs" and "conn_bounds cfg os hs"
  shows "conn_bounds cfg (add_mset (d, ip, False) os) hs"
proof -
  have ck: "admit_check cfg d (ip_count (cl_per_ip l) ip) (cl_inbound l) (cl_outbound l) = None"
    using inv by (simp add: conn_inv_def)
  note n = admit_check_None[OF ck]
  have i: "size {#c \<in># os. in_dir Inbound c \<and> limited c#} \<le> unat (cl_inbound l)"
    using inv size_filter_le[of "\<lambda>c. in_dir Inbound c \<and> limited c" "in_dir Inbound" os] by (simp add: conn_inv_def)
  have j: "size {#c \<in># os. in_dir Outbound c \<and> limited c#} \<le> unat (cl_outbound l)"
    using inv size_filter_le[of "\<lambda>c. in_dir Outbound c \<and> limited c" "in_dir Outbound" os] by (simp add: conn_inv_def)
  have t: "size (filter_mset limited os) \<le> unat (cl_inbound l) + unat (cl_outbound l)"
    using inv size_directions[of os] size_filter_mset_lesseq[of limited os] by (simp add: conn_inv_def)
  have p: "size {#c \<in># os + hs. conn_ip c = ip \<and> limited c#} < unat (max_per_ip cfg)"
    using n(1) conn_inv_ip[OF inv, of ip]
      size_filter_le[of "\<lambda>c. conn_ip c = ip \<and> limited c" "\<lambda>c. conn_ip c = ip" "os + hs"] by linarith
  show ?thesis
    using assms(2) n(2-) i j t p
    by (cases d) (auto simp: conn_bounds_def in_dir_def limited_def)
qed

lemma unat_sat_sub_one: "unat (saturating_sub x 1 :: u64) = unat x - 1"
  by (simp add: unat_saturating_sub)

lemma conn_inv_release_total:
  assumes "conn_inv cfg l lock (add_mset c os) hs"
  shows "conn_inv cfg (release_total (fst c) l) lock os (add_mset c hs)"
proof (cases "fst c")
  case Inbound
  then show ?thesis
    using assms admit_check_mono[of cfg _ _ "cl_inbound l" "cl_outbound l" "saturating_sub (cl_inbound l) 1" "cl_outbound l"]
    by (simp add: conn_inv_def in_dir_def unat_sat_sub_one)
next
  case Outbound
  then show ?thesis
    using assms admit_check_mono[of cfg _ _ "cl_inbound l" "cl_outbound l" "cl_inbound l" "saturating_sub (cl_outbound l) 1"]
    by (simp add: conn_inv_def in_dir_def unat_sat_sub_one)
qed

lemma conn_inv_release_ip:
  assumes "conn_inv cfg l None os (add_mset c hs)"
  shows "conn_inv cfg (release_ip (conn_ip c) l) None os hs"
  using assms by (auto simp: conn_inv_def release_ip_def intro: ip_counts_drop)

lemma conn_bounds_less:
  assumes "conn_bounds cfg (add_mset c os) hs"
  shows "conn_bounds cfg os (add_mset c hs)"
  using assms by (auto simp: conn_bounds_def split: if_splits)

lemma conn_bounds_drop:
  assumes "conn_bounds cfg os (add_mset c hs)"
  shows "conn_bounds cfg os hs"
proof -
  have "size {#d \<in># os + hs. conn_ip d = ip \<and> limited d#} \<le> size {#d \<in># os + add_mset c hs. conn_ip d = ip \<and> limited d#}" for ip
    by simp
  then show ?thesis using assms unfolding conn_bounds_def by (meson le_trans)
qed

lemma conn_reach_inv: "conn_reach cfg l lock os hs \<Longrightarrow> conn_inv cfg l lock os hs \<and> conn_bounds cfg os hs"
proof (induction rule: conn_reach.induct)
  case start
  then show ?case by (simp add: conn_inv_def conn_bounds_def cl_new_def)
next
  case (check l os hs i j d ip)
  then show ?case using admit_check_mono[OF check(4) check(2,3)] by (simp add: conn_inv_def)
next
  case (reject l os hs)
  then show ?case by (simp add: conn_inv_def)
next
  case (admit l d ip os hs)
  have ck: "admit_check cfg d (ip_count (cl_per_ip l) ip) (cl_inbound l) (cl_outbound l) = None"
    using admit.IH by (simp add: conn_inv_def)
  show ?case
    using admit.IH conn_bounds_admit admit_check_None(1,2)[OF ck] unat_bound[of "max_total cfg"] unat_bound[of "max_per_ip cfg"]
    by (auto intro!: conn_inv_admit)
next
  case (bypass l os hs ip)
  have "conn_bounds cfg (add_mset (Inbound, ip, True) os) hs"
    using bypass.IH by (simp add: conn_bounds_def limited_def)
  moreover have "unat (cl_inbound l) + unat (cl_outbound l) = size os"
    using bypass.IH size_directions[of os] by (simp add: conn_inv_def)
  moreover have "unat (ip_count (cl_per_ip l) ip) \<le> size os + size hs"
    using bypass.IH conn_inv_ip[of cfg l None os hs ip] size_filter_mset_lesseq[of "\<lambda>c. conn_ip c = ip" "os + hs"] by simp
  ultimately show ?case
    using conn_inv_admit[of cfg l None os hs ip Inbound True] bypass.IH bypass.hyps by linarith
qed (use conn_inv_release_total conn_inv_release_ip conn_bounds_less conn_bounds_drop in blast)+

text \<open>C39: the connection limiter neither leaks nor overcommits: however admissions and releases
  interleave, its counters are the numbers of open connections, the table per address also
  counts those whose release is half done, and the connections that did not bypass the
  limits stay within each of them. With nothing open all counters are back at zero.\<close>

theorem connection_limits_hold:
  assumes "conn_reach cfg l lock os hs"
  shows "unat (cl_inbound l) = size (filter_mset (in_dir Inbound) os)
    \<and> unat (cl_outbound l) = size (filter_mset (in_dir Outbound) os)
    \<and> unat (ip_count (cl_per_ip l) ip) = size {#c \<in># os + hs. conn_ip c = ip#}
    \<and> size {#c \<in># os. in_dir Inbound c \<and> limited c#} \<le> unat (max_inbound cfg)
    \<and> size {#c \<in># os. in_dir Outbound c \<and> limited c#} \<le> unat (max_outbound cfg)
    \<and> size (filter_mset limited os) \<le> unat (max_total cfg)
    \<and> size {#c \<in># os + hs. conn_ip c = ip \<and> limited c#} \<le> unat (max_per_ip cfg)
    \<and> (os + hs = {#} \<longrightarrow> l = (cl_new cfg)\<lparr> cl_rejects := cl_rejects l \<rparr>)"
proof -
  have inv: "conn_inv cfg l lock os hs" and b: "conn_bounds cfg os hs" using conn_reach_inv[OF assms] by blast+
  have empty: "l = (cl_new cfg)\<lparr> cl_rejects := cl_rejects l \<rparr>" if "os + hs = {#}"
  proof -
    have "os = {#}" "hs = {#}" using that by simp_all
    then have z: "unat (cl_inbound l) = 0" "unat (cl_outbound l) = 0" "cl_config l = cfg"
      "\<forall>ip. hm_get (cl_per_ip l) ip = None"
      using inv by (simp_all add: conn_inv_def ip_counts_def)
    then have "cl_per_ip l = []" by (metis map_of_eq_empty_iff ext)
    then show ?thesis using z by (simp add: cl_new_def unat_eq_zero)
  qed
  show ?thesis
    using inv b conn_inv_ip[OF inv, of ip] empty unfolding conn_inv_def conn_bounds_def by blast
qed

text \<open>With one connection allowed per address, a second one from the same address waits until
  the release of the first has reached the table.\<close>

definition demo_conn_config :: connection_limits_config where
  "demo_conn_config = \<lparr> max_inbound = 2, max_outbound = 2, max_per_ip = 1, max_total = 3 \<rparr>"

definition demo_conn :: connection_limiter where
  "demo_conn = release_total Inbound (admit_apply Inbound (V4 1) (cl_new demo_conn_config))"

theorem connection_limits_hold_witness:
  "conn_reach demo_conn_config demo_conn None {#} {#(Inbound, V4 1, False)#}
   \<and> unat (ip_count (cl_per_ip demo_conn) (V4 1)) = 1
   \<and> size {#c \<in># {#(Inbound, V4 1, False)#}. conn_ip c = V4 1 \<and> limited c#} \<le> unat (max_per_ip demo_conn_config)
   \<and> fst (try_admit Inbound (V4 1) demo_conn) = Inl PerIp"
proof -
  have "fst (try_admit Inbound (V4 1) (cl_new demo_conn_config)) = Inr ()"
    by (simp add: try_admit_def admit_check_def cl_new_def demo_conn_config_def ip_count_def saturating_add_def)
  then have "conn_reach demo_conn_config (admit_apply Inbound (V4 1) (cl_new demo_conn_config)) None
      {#(Inbound, V4 1, False)#} {#}"
    using conn_reach_try_admit[OF conn_reach.start[of demo_conn_config], of Inbound "V4 1"]
    by (auto simp: try_admit_def split: option.splits)
  then have r: "conn_reach demo_conn_config demo_conn None {#} {#(Inbound, V4 1, False)#}"
    unfolding demo_conn_def using conn_reach.release_total[of demo_conn_config _ None "(Inbound, V4 1, False)" "{#}" "{#}"]
    by (simp del: admit_apply.simps release_total.simps)
  have "fst (try_admit Inbound (V4 1) demo_conn) = Inl PerIp"
    by (simp add: try_admit_def admit_check_def cl_new_def demo_conn_def demo_conn_config_def ip_count_def ip_bump_def)
  then show ?thesis using r connection_limits_hold[OF r, of "V4 1"] by simp
qed

section \<open>Handshakes\<close>

text \<open>The same interleaving for handshakes: \<open>ps\<close> are the addresses of live permits, \<open>hs\<close> those of
  dropped permits whose release has not yet reached the table.\<close>

inductive hs_reach ::
  "handshake_limits_config \<Rightarrow> handshake_limiter \<Rightarrow> ip_addr option \<Rightarrow> ip_addr multiset \<Rightarrow> ip_addr multiset \<Rightarrow> bool"
  for cfg where
  start: "hs_reach cfg (handshake_new cfg) None {#} {#}"
| check: "hs_reach cfg l None ps hs \<Longrightarrow> hs_inflight l \<le> i
    \<Longrightarrow> acquire_check (hs_config l) (ip_count (hs_per_ip l) ip) i = None \<Longrightarrow> hs_reach cfg l (Some ip) ps hs"
| reject: "hs_reach cfg l None ps hs \<Longrightarrow> hs_reach cfg (l\<lparr> hs_rejects := hs_rejects l + 1 \<rparr>) None ps hs"
| acquire: "hs_reach cfg l (Some ip) ps hs \<Longrightarrow> hs_reach cfg (acquire_apply ip l) None (add_mset ip ps) hs"
| release_total: "hs_reach cfg l lock (add_mset ip ps) hs \<Longrightarrow> hs_reach cfg (hs_release_total l) lock ps (add_mset ip hs)"
| release_ip: "hs_reach cfg l None ps (add_mset ip hs) \<Longrightarrow> hs_reach cfg (hs_release_ip ip l) None ps hs"

lemma hs_reach_try_acquire:
  assumes "hs_reach cfg l None ps hs" "acquire_permit ip l = (res, l')"
  shows "hs_reach cfg l' None (case res of Inr permit \<Rightarrow> add_mset permit ps | Inl _ \<Rightarrow> ps) hs"
proof (cases "acquire_check (hs_config l) (ip_count (hs_per_ip l) ip) (hs_inflight l)")
  case None
  then show ?thesis
    using hs_reach.acquire[OF hs_reach.check[OF assms(1) order_refl None]] assms(2) by (auto simp: acquire_permit_def)
qed (use assms hs_reach.reject in \<open>auto simp: acquire_permit_def\<close>)

lemma hs_reach_drop_permit: "hs_reach cfg l None (add_mset ip ps) hs \<Longrightarrow> hs_reach cfg (drop_permit ip l) None ps hs"
  unfolding drop_permit_def hs_release_def using hs_reach.release_ip[OF hs_reach.release_total] .

definition hs_inv ::
  "handshake_limits_config \<Rightarrow> handshake_limiter \<Rightarrow> ip_addr option \<Rightarrow> ip_addr multiset \<Rightarrow> ip_addr multiset \<Rightarrow> bool" where
  "hs_inv cfg l lock ps hs \<longleftrightarrow> hs_config l = cfg \<and> unat (hs_inflight l) = size ps
     \<and> ip_counts (hs_per_ip l) (ps + hs)
     \<and> size ps \<le> unat (max_inflight cfg) \<and> (\<forall>ip. count (ps + hs) ip \<le> unat (max_inflight_per_ip cfg))
     \<and> (\<forall>ip. lock = Some ip \<longrightarrow> size ps < unat (max_inflight cfg) \<and> count (ps + hs) ip < unat (max_inflight_per_ip cfg))"

lemma hs_inv_acquire:
  assumes inv: "hs_inv cfg l (Some ip) ps hs"
  shows "hs_inv cfg (acquire_apply ip l) None (add_mset ip ps) hs"
proof -
  have r: "size ps < unat (max_inflight cfg)" "count (ps + hs) ip < unat (max_inflight_per_ip cfg)"
    using inv by (simp_all add: hs_inv_def)
  have c: "ip_counts (hs_per_ip l) (ps + hs)" using inv by (simp add: hs_inv_def)
  have "ip_counts (ip_bump ip (hs_per_ip l)) (add_mset ip (ps + hs))"
    by (rule ip_counts_bump[OF c]) (use r(2) unat_bound[of "max_inflight_per_ip cfg"] in simp)
  then show ?thesis
    using inv r unat_bound[of "max_inflight cfg"] unat_plus_one[of "hs_inflight l"]
    by (simp add: hs_inv_def acquire_apply_def Suc_le_eq)
qed

lemma hs_reach_inv: "hs_reach cfg l lock ps hs \<Longrightarrow> hs_inv cfg l lock ps hs"
proof (induction rule: hs_reach.induct)
  case start
  then show ?case by (simp add: hs_inv_def handshake_new_def)
next
  case (check l ps hs i ip)
  have "unat (ip_count (hs_per_ip l) ip) = count (ps + hs) ip"
    by (rule ip_counts_count) (use check.IH in \<open>simp add: hs_inv_def\<close>)
  then show ?case
    using check.IH check.hyps
    by (auto simp: hs_inv_def acquire_check_def not_le word_less_nat_alt word_le_nat_alt split: if_splits)
next
  case (release_total l lock ip ps hs)
  then show ?case by (auto simp: hs_inv_def hs_release_total_def unat_sat_sub_one)
next
  case (release_ip l ps ip hs)
  have c: "ip_counts (hs_per_ip l) (add_mset ip (ps + hs))" using release_ip.IH by (simp add: hs_inv_def)
  have "count (ps + hs) ip' \<le> count (ps + add_mset ip hs) ip'" for ip' by simp
  then have "\<forall>ip'. count (ps + hs) ip' \<le> unat (max_inflight_per_ip cfg)"
    using release_ip.IH unfolding hs_inv_def by (meson le_trans)
  then show ?case using release_ip.IH ip_counts_drop[OF c] by (simp add: hs_inv_def hs_release_ip_def)
qed (auto simp: hs_inv_acquire, auto simp: hs_inv_def)

text \<open>Handshakes in progress stay within their limits, in total and per address, and the counters
  are exact.\<close>

theorem handshake_limits_hold:
  assumes "hs_reach cfg l lock ps hs"
  shows "unat (hs_inflight l) = size ps \<and> size ps \<le> unat (max_inflight cfg)
    \<and> unat (ip_count (hs_per_ip l) ip) = count (ps + hs) ip \<and> count (ps + hs) ip \<le> unat (max_inflight_per_ip cfg)"
  using hs_reach_inv[OF assms] ip_counts_count[of "hs_per_ip l" "ps + hs" ip] unfolding hs_inv_def by blast

end
