(* ===== verification/Rate_Limits.thy ===== *)
theory Rate_Limits
  imports Prelude
begin

text \<open>
  Rate limits on messages (\<open>RateLimiter\<close> of \<open>boule-core/src/transport/limits.rs\<close> with the message
  kinds of \<open>boule-consensus/src/rate_limit.rs\<close>): token buckets per peer and kind, a window of
  violations, and the decision to disconnect. Bucket levels are floating-point numbers;
  their arithmetic is the record \<open>f64_ops\<close>, since what is shown here holds whatever it
  computes. Times are nanoseconds of a monotonic clock.
\<close>

section \<open>Token buckets\<close>

text \<open>The operations the source uses: conversion of integers and of a duration to seconds,
  addition, subtraction, multiplication, \<open>min\<close>, \<open>max\<close> and \<open>>=\<close>.\<close>

record 'f f64_ops =
  fo_nat :: "nat \<Rightarrow> 'f"
  fo_secs :: "nat \<Rightarrow> 'f"
  fo_add :: "'f \<Rightarrow> 'f \<Rightarrow> 'f"
  fo_sub :: "'f \<Rightarrow> 'f \<Rightarrow> 'f"
  fo_mul :: "'f \<Rightarrow> 'f \<Rightarrow> 'f"
  fo_min :: "'f \<Rightarrow> 'f \<Rightarrow> 'f"
  fo_max :: "'f \<Rightarrow> 'f \<Rightarrow> 'f"
  fo_ge :: "'f \<Rightarrow> 'f \<Rightarrow> bool"

record 'f token_bucket =
  tk_capacity :: 'f
  tk_tokens :: 'f
  tk_rate_per_sec :: 'f
  tk_last_refill :: nat

definition tk_new :: "'f \<Rightarrow> 'f \<Rightarrow> nat \<Rightarrow> 'f token_bucket" where
  "tk_new rate capacity now = \<lparr> tk_capacity = capacity, tk_tokens = capacity, tk_rate_per_sec = rate, tk_last_refill = now \<rparr>"

definition try_take :: "'f f64_ops \<Rightarrow> nat \<Rightarrow> 'f \<Rightarrow> 'f token_bucket \<Rightarrow> bool \<times> 'f token_bucket" where
  "try_take ops now n b =
     (let elapsed = fo_secs ops (now - tk_last_refill b);
          refilled = fo_min ops (fo_add ops (tk_tokens b) (fo_mul ops elapsed (tk_rate_per_sec b))) (tk_capacity b);
          b1 = b\<lparr> tk_tokens := refilled, tk_last_refill := now \<rparr> in
      if fo_ge ops refilled n then (True, b1\<lparr> tk_tokens := fo_sub ops refilled n \<rparr>) else (False, b1))"

definition tk_refund :: "'f f64_ops \<Rightarrow> 'f \<Rightarrow> 'f token_bucket \<Rightarrow> 'f token_bucket" where
  "tk_refund ops n b = b\<lparr> tk_tokens := fo_add ops (tk_tokens b) n \<rparr>"

section \<open>Configuration and counters\<close>

record 'f rate_limits_config =
  per_kind_per_sec :: "'f list"
  bytes_per_sec :: 'f
  outbound_bytes_per_sec :: 'f
  burst_seconds :: 'f
  violation_window :: nat
  max_violations :: u32

definition bucket_capacity :: "'f f64_ops \<Rightarrow> 'f rate_limits_config \<Rightarrow> 'f \<Rightarrow> 'f" where
  "bucket_capacity ops cfg rate = fo_max ops (fo_mul ops rate (burst_seconds cfg)) (fo_nat ops 1)"

definition bytes_capacity :: "'f f64_ops \<Rightarrow> 'f rate_limits_config \<Rightarrow> 'f" where
  "bytes_capacity ops cfg = fo_max ops (fo_mul ops (bytes_per_sec cfg) (burst_seconds cfg)) (fo_nat ops 1)"

definition outbound_bytes_capacity :: "'f f64_ops \<Rightarrow> 'f rate_limits_config \<Rightarrow> 'f" where
  "outbound_bytes_capacity ops cfg = fo_max ops (fo_mul ops (outbound_bytes_per_sec cfg) (burst_seconds cfg)) (fo_nat ops 1)"

datatype decision = Allow | Drop | Disconnect

record rate_limit_counters =
  rc_by_kind :: "u64 list"
  rc_bytes :: u64
  rc_outbound_bytes :: u64
  rc_disconnects :: u64

definition with_kinds :: "nat \<Rightarrow> rate_limit_counters" where
  "with_kinds n = \<lparr> rc_by_kind = replicate n 0, rc_bytes = 0, rc_outbound_bytes = 0, rc_disconnects = 0 \<rparr>"

definition drops :: "rate_limit_counters \<Rightarrow> nat \<Rightarrow> u64" where
  "drops c k = (if k < length (rc_by_kind c) then rc_by_kind c ! k else 0)"

definition total_drops :: "rate_limit_counters \<Rightarrow> u64" where
  "total_drops c = saturating_add (sum_list (rc_by_kind c)) (rc_bytes c)"

definition inc_drops :: "nat \<Rightarrow> rate_limit_counters \<Rightarrow> rate_limit_counters" where
  "inc_drops k c =
     (if k < length (rc_by_kind c) then c\<lparr> rc_by_kind := (rc_by_kind c)[k := rc_by_kind c ! k + 1] \<rparr> else c)"

definition inc_bytes :: "rate_limit_counters \<Rightarrow> rate_limit_counters" where
  "inc_bytes c = c\<lparr> rc_bytes := rc_bytes c + 1 \<rparr>"

definition inc_outbound_bytes :: "rate_limit_counters \<Rightarrow> rate_limit_counters" where
  "inc_outbound_bytes c = c\<lparr> rc_outbound_bytes := rc_outbound_bytes c + 1 \<rparr>"

definition inc_disconnects :: "rate_limit_counters \<Rightarrow> rate_limit_counters" where
  "inc_disconnects c = c\<lparr> rc_disconnects := rc_disconnects c + 1 \<rparr>"

section \<open>The limiter\<close>

record 'f peer_state =
  ps_buckets :: "'f token_bucket list"
  ps_bytes_bucket :: "'f token_bucket"
  ps_outbound_bucket :: "'f token_bucket"
  ps_violations :: "nat list"
  ps_disconnect_dispatched :: bool

definition ps_new :: "'f f64_ops \<Rightarrow> 'f rate_limits_config \<Rightarrow> nat \<Rightarrow> 'f peer_state" where
  "ps_new ops cfg now =
     \<lparr> ps_buckets = map (\<lambda>rate. tk_new rate (bucket_capacity ops cfg rate) now) (per_kind_per_sec cfg),
       ps_bytes_bucket = tk_new (bytes_per_sec cfg) (bytes_capacity ops cfg) now,
       ps_outbound_bucket = tk_new (outbound_bytes_per_sec cfg) (outbound_bytes_capacity ops cfg) now,
       ps_violations = [], ps_disconnect_dispatched = False \<rparr>"

record 'f rate_limiter =
  lm_config :: "'f rate_limits_config"
  lm_state :: "(node_id, 'f peer_state) hmap"
  lm_counters :: rate_limit_counters

definition lm_new :: "nat \<Rightarrow> 'f rate_limits_config \<Rightarrow> 'f rate_limiter option" where
  "lm_new kinds cfg =
     (if length (per_kind_per_sec cfg) \<noteq> kinds then None
      else Some \<lparr> lm_config = cfg, lm_state = [], lm_counters = with_kinds kinds \<rparr>)"

definition lm_peer :: "'f f64_ops \<Rightarrow> nat \<Rightarrow> node_id \<Rightarrow> 'f rate_limiter \<Rightarrow> 'f peer_state" where
  "lm_peer ops now p lm = (case hm_get (lm_state lm) p of Some st \<Rightarrow> st | None \<Rightarrow> ps_new ops (lm_config lm) now)"

text \<open>Violations that left the window are forgotten; with none left, a new disconnect may be
  decided.\<close>

definition trim_violations :: "nat \<Rightarrow> 'f peer_state \<Rightarrow> 'f peer_state" where
  "trim_violations window_start st =
     (let vs = dropWhile (\<lambda>t. t < window_start) (ps_violations st) in
      st\<lparr> ps_violations := vs, ps_disconnect_dispatched := (vs \<noteq> [] \<and> ps_disconnect_dispatched st) \<rparr>)"

text \<open>The part behind a refusal: tokens already taken are given back, the violation is recorded
  and counted, and the first time there are too many the peer is disconnected.\<close>

definition refuse ::
  "'f f64_ops \<Rightarrow> 'f rate_limits_config \<Rightarrow> nat \<Rightarrow> nat \<Rightarrow> nat \<Rightarrow> bool \<Rightarrow> bool \<Rightarrow> 'f peer_state \<Rightarrow> rate_limit_counters
     \<Rightarrow> decision \<times> 'f peer_state \<times> rate_limit_counters" where
  "refuse ops cfg now kind len kind_admitted bytes_admitted st cs =
     (let st1 = (if kind_admitted \<and> \<not> bytes_admitted
                 then st\<lparr> ps_buckets := (ps_buckets st)[kind := tk_refund ops (fo_nat ops 1) (ps_buckets st ! kind)] \<rparr> else st);
          st2 = (if bytes_admitted \<and> \<not> kind_admitted
                 then st1\<lparr> ps_bytes_bucket := tk_refund ops (fo_nat ops len) (ps_bytes_bucket st1) \<rparr> else st1);
          st3 = st2\<lparr> ps_violations := ps_violations st2 @ [now] \<rparr>;
          cs1 = (if \<not> kind_admitted then inc_drops kind cs else inc_bytes cs) in
      if length (ps_violations st3) \<ge> unat (max_violations cfg) \<and> \<not> ps_disconnect_dispatched st3
      then (Disconnect, st3\<lparr> ps_disconnect_dispatched := True \<rparr>, inc_disconnects cs1)
      else (Drop, st3, cs1))"

text \<open>\<open>None\<close> is the panic of an index beyond the buckets.\<close>

definition admit ::
  "'f f64_ops \<Rightarrow> nat \<Rightarrow> node_id \<Rightarrow> nat \<Rightarrow> nat \<Rightarrow> 'f rate_limiter \<Rightarrow> (decision \<times> 'f rate_limiter) option" where
  "admit ops now peer kind len lm =
     (let st = trim_violations (now - violation_window (lm_config lm)) (lm_peer ops now peer lm) in
      if kind \<ge> length (ps_buckets st) then None
      else (case try_take ops now (fo_nat ops 1) (ps_buckets st ! kind) of (kind_admitted, kb) \<Rightarrow>
           (case try_take ops now (fo_nat ops len) (ps_bytes_bucket st) of (bytes_admitted, bb) \<Rightarrow>
            (let st1 = st\<lparr> ps_buckets := (ps_buckets st)[kind := kb], ps_bytes_bucket := bb \<rparr> in
             if kind_admitted \<and> bytes_admitted
             then Some (Allow, lm\<lparr> lm_state := hm_insert peer st1 (lm_state lm) \<rparr>)
             else (case refuse ops (lm_config lm) now kind len kind_admitted bytes_admitted st1 (lm_counters lm) of
                     (d, st2, cs) \<Rightarrow>
                       Some (d, lm\<lparr> lm_state := hm_insert peer st2 (lm_state lm), lm_counters := cs \<rparr>))))))"

definition admit_outbound :: "'f f64_ops \<Rightarrow> nat \<Rightarrow> node_id \<Rightarrow> nat \<Rightarrow> 'f rate_limiter \<Rightarrow> decision \<times> 'f rate_limiter" where
  "admit_outbound ops now peer len lm =
     (let st = lm_peer ops now peer lm in
      case try_take ops now (fo_nat ops len) (ps_outbound_bucket st) of (taken, b) \<Rightarrow>
        (let lm1 = lm\<lparr> lm_state := hm_insert peer (st\<lparr> ps_outbound_bucket := b \<rparr>) (lm_state lm) \<rparr> in
         if taken then (Allow, lm1) else (Drop, lm1\<lparr> lm_counters := inc_outbound_bytes (lm_counters lm1) \<rparr>)))"

definition forget_peer :: "node_id \<Rightarrow> 'f rate_limiter \<Rightarrow> 'f rate_limiter" where
  "forget_peer peer lm = lm\<lparr> lm_state := hm_remove peer (lm_state lm) \<rparr>"

section \<open>Message kinds\<close>

datatype message_kind = KProposal | KVote | KNewView | KTimeoutVote | KRequestBlock | KReceiveBlock
  | KSnapshotManifestRequest | KSnapshotManifestResponse | KSnapshotChunkRequest | KSnapshotChunkResponse
  | KBlockRangeRequest | KBlockRangeResponse | KEquivocationEvidence | KStatus

definition all_kinds :: "message_kind list" where
  "all_kinds = [KProposal, KVote, KNewView, KTimeoutVote, KRequestBlock, KReceiveBlock,
     KSnapshotManifestRequest, KSnapshotManifestResponse, KSnapshotChunkRequest, KSnapshotChunkResponse,
     KBlockRangeRequest, KBlockRangeResponse, KEquivocationEvidence, KStatus]"

definition from_wire_tag :: "u8 \<Rightarrow> message_kind option" where
  "from_wire_tag tag =
     (if tag = 0 then Some KProposal else if tag = 1 then Some KVote else if tag = 2 then Some KNewView
      else if tag = 3 then Some KTimeoutVote else if tag = 4 then Some KRequestBlock
      else if tag = 5 then Some KReceiveBlock else if tag = 6 then Some KSnapshotManifestRequest
      else if tag = 7 then Some KSnapshotManifestResponse else if tag = 8 then Some KSnapshotChunkRequest
      else if tag = 9 then Some KSnapshotChunkResponse else if tag = 10 then Some KBlockRangeRequest
      else if tag = 11 then Some KBlockRangeResponse else if tag = 12 then Some KEquivocationEvidence
      else if tag = 13 then Some KStatus else None)"

fun kind_index :: "message_kind \<Rightarrow> nat" where
  "kind_index KProposal = 0"
| "kind_index KVote = 1"
| "kind_index KNewView = 2"
| "kind_index KTimeoutVote = 3"
| "kind_index KRequestBlock = 4"
| "kind_index KReceiveBlock = 5"
| "kind_index KSnapshotManifestRequest = 6"
| "kind_index KSnapshotManifestResponse = 7"
| "kind_index KSnapshotChunkRequest = 8"
| "kind_index KSnapshotChunkResponse = 9"
| "kind_index KBlockRangeRequest = 10"
| "kind_index KBlockRangeResponse = 11"
| "kind_index KEquivocationEvidence = 12"
| "kind_index KStatus = 13"

definition per_kind_vec :: "'f f64_ops \<Rightarrow> (message_kind \<Rightarrow> 'f) \<Rightarrow> 'f list" where
  "per_kind_vec ops f = fold (\<lambda>k v. v[kind_index k := f k]) all_kinds (replicate (length all_kinds) (fo_nat ops 0))"

definition unbounded_message_rate_limits :: "'f f64_ops \<Rightarrow> 'f rate_limits_config" where
  "unbounded_message_rate_limits ops =
     (let huge = fo_nat ops (10 ^ 12) in
      \<lparr> per_kind_per_sec = replicate (length all_kinds) huge, bytes_per_sec = huge, outbound_bytes_per_sec = huge,
        burst_seconds = fo_nat ops 1, violation_window = 10 * 10 ^ 9, max_violations = - 1 \<rparr>)"

fun production_rate :: "message_kind \<Rightarrow> nat" where
  "production_rate KProposal = 16"
| "production_rate KVote = 256"
| "production_rate KNewView = 64"
| "production_rate KTimeoutVote = 64"
| "production_rate KRequestBlock = 8"
| "production_rate KReceiveBlock = 8"
| "production_rate KSnapshotManifestRequest = 4"
| "production_rate KSnapshotManifestResponse = 4"
| "production_rate KSnapshotChunkRequest = 32"
| "production_rate KSnapshotChunkResponse = 32"
| "production_rate KBlockRangeRequest = 8"
| "production_rate KBlockRangeResponse = 8"
| "production_rate KEquivocationEvidence = 8"
| "production_rate KStatus = 64"

definition production_message_rate_limits :: "'f f64_ops \<Rightarrow> 'f rate_limits_config" where
  "production_message_rate_limits ops =
     \<lparr> per_kind_per_sec = per_kind_vec ops (\<lambda>k. fo_nat ops (production_rate k)),
       bytes_per_sec = fo_mul ops (fo_nat ops 1024) (fo_nat ops 1024),
       outbound_bytes_per_sec = fo_mul ops (fo_nat ops 1024) (fo_nat ops 1024),
       burst_seconds = fo_nat ops 1, violation_window = 10 * 10 ^ 9, max_violations = 100 \<rparr>"

text \<open>The tag of a message on the wire is the index of its bucket, and every kind has one.\<close>

lemma kind_roundtrip: "from_wire_tag (of_nat (kind_index k)) = Some k"
  by (cases k) (simp_all add: from_wire_tag_def)

lemma from_wire_tag_index: "from_wire_tag t = Some k \<Longrightarrow> unat t = kind_index k"
  by (auto simp: from_wire_tag_def split: if_splits)

lemma per_kind_vec_nth: "length (per_kind_vec ops f) = 14 \<and> per_kind_vec ops f ! kind_index k = f k"
  by (cases k) (simp_all add: per_kind_vec_def all_kinds_def)

section \<open>Disconnects are justified and rare\<close>

text \<open>A limiter in use: the log holds every decision on an inbound message with its time, and
  every time a peer is forgotten, which the node does when its connection closes. The clock
  does not go back.\<close>

datatype log_entry = Decided nat node_id decision | Forgot node_id

type_synonym decision_log = "log_entry list"

inductive lim_reach :: "'f f64_ops \<Rightarrow> nat \<Rightarrow> 'f rate_limits_config \<Rightarrow> nat \<Rightarrow> decision_log \<Rightarrow> 'f rate_limiter \<Rightarrow> bool"
  for ops kinds cfg where
  start: "lm_new kinds cfg = Some lm \<Longrightarrow> lim_reach ops kinds cfg 0 [] lm"
| admit: "lim_reach ops kinds cfg t log lm \<Longrightarrow> t \<le> now \<Longrightarrow> admit ops now p k len lm = Some (d, lm')
    \<Longrightarrow> lim_reach ops kinds cfg now (log @ [Decided now p d]) lm'"
| outbound: "lim_reach ops kinds cfg t log lm \<Longrightarrow> t \<le> now \<Longrightarrow> admit_outbound ops now p len lm = (d, lm')
    \<Longrightarrow> lim_reach ops kinds cfg now log lm'"
| forget: "lim_reach ops kinds cfg t log lm \<Longrightarrow> lim_reach ops kinds cfg t (log @ [Forgot p]) (forget_peer p lm)"

text \<open>The part of the log after the peer was last forgotten, and the refusals and disconnects of
  the peer in it.\<close>

definition since_forgotten :: "node_id \<Rightarrow> decision_log \<Rightarrow> decision_log" where
  "since_forgotten p log = rev (takeWhile (\<lambda>e. e \<noteq> Forgot p) (rev log))"

definition refusals :: "node_id \<Rightarrow> decision_log \<Rightarrow> nat list" where
  "refusals p log = List.map_filter (\<lambda>e. case e of Decided t q d \<Rightarrow> if q = p \<and> d \<noteq> Allow then Some t else None | _ \<Rightarrow> None)
     (since_forgotten p log)"

definition disconnects :: "node_id \<Rightarrow> decision_log \<Rightarrow> nat list" where
  "disconnects p log = List.map_filter (\<lambda>e. case e of Decided t q d \<Rightarrow> if q = p \<and> d = Disconnect then Some t else None | _ \<Rightarrow> None)
     (since_forgotten p log)"

lemma since_forgotten_append [simp]:
  "since_forgotten p [] = []"
  "since_forgotten p (log @ [e]) = (if e = Forgot p then [] else since_forgotten p log @ [e])"
  by (simp_all add: since_forgotten_def)

lemma map_filter_append: "List.map_filter f (xs @ ys) = List.map_filter f xs @ List.map_filter f ys"
  by (simp add: List.map_filter_def)

lemma log_append [simp]:
  "refusals p [] = []" "disconnects p [] = []"
  "refusals p (log @ [Decided t q d]) = refusals p log @ (if q = p \<and> d \<noteq> Allow then [t] else [])"
  "disconnects p (log @ [Decided t q d]) = disconnects p log @ (if q = p \<and> d = Disconnect then [t] else [])"
  by (simp_all add: refusals_def disconnects_def map_filter_append)

lemma log_forget:
  "refusals q (log @ [Forgot p]) = (if q = p then [] else refusals q log)"
  "disconnects q (log @ [Forgot p]) = (if q = p then [] else disconnects q log)"
  by (simp_all add: refusals_def disconnects_def map_filter_append)

lemma disconnects_refusals: "set (disconnects p log) \<subseteq> set (refusals p log)"
proof (induction log rule: rev_induct)
  case (snoc e log)
  then show ?case by (cases e) (auto simp: log_forget)
qed simp

text \<open>What a peer's state knows of the log: the violations are the refusals from some moment
  \<open>w\<close> on, and every disconnect since then is marked as dispatched.\<close>

definition peer_ok :: "nat \<Rightarrow> decision_log \<Rightarrow> node_id \<Rightarrow> nat \<Rightarrow> 'f peer_state \<Rightarrow> bool" where
  "peer_ok w log p t st \<longleftrightarrow>
     ps_violations st = filter (\<lambda>v. w \<le> v) (refusals p log) \<and> sorted (refusals p log) \<and> (\<forall>v \<in> set (refusals p log). v \<le> t)
     \<and> (\<forall>v \<in> set (disconnects p log). w \<le> v \<longrightarrow> ps_disconnect_dispatched st)"

definition lim_inv :: "'f rate_limits_config \<Rightarrow> nat \<Rightarrow> decision_log \<Rightarrow> 'f rate_limiter \<Rightarrow> bool" where
  "lim_inv cfg t log lm \<longleftrightarrow> lm_config lm = cfg
     \<and> (\<forall>p. case hm_get (lm_state lm) p of
              None \<Rightarrow> refusals p log = []
            | Some st \<Rightarrow> \<exists>w \<le> t - violation_window cfg. peer_ok w log p t st)"

lemma lim_inv_at:
  assumes "lim_inv cfg t log lm"
  shows "hm_get (lm_state lm) p = None \<Longrightarrow> refusals p log = []"
    and "hm_get (lm_state lm) p = Some st \<Longrightarrow> \<exists>w \<le> t - violation_window cfg. peer_ok w log p t st"
proof -
  have "case hm_get (lm_state lm) p of None \<Rightarrow> refusals p log = []
      | Some st \<Rightarrow> \<exists>w \<le> t - violation_window cfg. peer_ok w log p t st"
    using assms unfolding lim_inv_def by blast
  then show "hm_get (lm_state lm) p = None \<Longrightarrow> refusals p log = []"
    and "hm_get (lm_state lm) p = Some st \<Longrightarrow> \<exists>w \<le> t - violation_window cfg. peer_ok w log p t st"
    by simp_all
qed

lemma dropWhile_filter_sorted:
  "sorted xs \<Longrightarrow> w \<le> w' \<Longrightarrow> dropWhile (\<lambda>t. t < w') (filter (\<lambda>t. w \<le> t) xs) = filter (\<lambda>t. w' \<le> (t :: nat)) xs"
proof (induction xs)
  case (Cons x xs)
  have "filter (\<lambda>t. w' \<le> t) xs = filter (\<lambda>t. w \<le> t) xs" if "w' \<le> x"
    using Cons.prems that by (intro filter_cong) auto
  then show ?case using Cons by (auto simp: not_less)
qed simp

lemma trim_ok:
  assumes "peer_ok w log p t st" "w \<le> w'"
  shows "peer_ok w' log p t (trim_violations w' st)"
proof -
  have v: "ps_violations (trim_violations w' st) = filter (\<lambda>v. w' \<le> v) (refusals p log)"
    using assms dropWhile_filter_sorted[of "refusals p log" w w'] by (simp add: peer_ok_def trim_violations_def Let_def)
  have "ps_disconnect_dispatched (trim_violations w' st)" if "x \<in> set (disconnects p log)" "w' \<le> x" for x
  proof -
    have "x \<in> set (ps_violations (trim_violations w' st))" using that v disconnects_refusals by fastforce
    then have "dropWhile (\<lambda>t. t < w') (ps_violations st) \<noteq> []"
      by (auto simp: trim_violations_def Let_def simp del: dropWhile_eq_Nil_conv)
    moreover have "ps_disconnect_dispatched st" using that assms le_trans[OF assms(2)] unfolding peer_ok_def by blast
    ultimately show ?thesis by (simp add: trim_violations_def Let_def)
  qed
  then show ?thesis using v assms(1) by (auto simp: peer_ok_def)
qed

lemma peer_ok_lm_peer:
  assumes "lim_inv cfg t log lm"
  shows "\<exists>w \<le> t - violation_window cfg. peer_ok w log p t (lm_peer ops now p lm)"
proof (cases "hm_get (lm_state lm) p")
  case None
  then have "refusals p log = []" by (rule lim_inv_at(1)[OF assms])
  then have "peer_ok 0 log p t (lm_peer ops now p lm)"
    using None disconnects_refusals[of p log] by (simp add: peer_ok_def lm_peer_def ps_new_def)
  then show ?thesis by blast
next
  case (Some st)
  then show ?thesis using lim_inv_at(2)[OF assms Some] by (simp add: lm_peer_def)
qed

text \<open>One admission, on every branch.\<close>

lemma admit_result:
  assumes "admit ops now p k len lm = Some (d, lm')"
  obtains st where "lm_config lm' = lm_config lm" "lm_state lm' = hm_insert p st (lm_state lm)"
    "ps_violations st = ps_violations (trim_violations (now - violation_window (lm_config lm)) (lm_peer ops now p lm))
       @ (if d = Allow then [] else [now])"
    "ps_disconnect_dispatched st \<longleftrightarrow> d = Disconnect \<or>
       ps_disconnect_dispatched (trim_violations (now - violation_window (lm_config lm)) (lm_peer ops now p lm))"
    "d = Disconnect \<longleftrightarrow> d \<noteq> Allow
       \<and> \<not> ps_disconnect_dispatched (trim_violations (now - violation_window (lm_config lm)) (lm_peer ops now p lm))
       \<and> unat (max_violations (lm_config lm)) \<le> length (ps_violations st)"
proof -
  let ?s = "trim_violations (now - violation_window (lm_config lm)) (lm_peer ops now p lm)"
  obtain ka kb where k: "try_take ops now (fo_nat ops 1) (ps_buckets ?s ! k) = (ka, kb)" by (rule prod.exhaust)
  obtain ba bb where b: "try_take ops now (fo_nat ops len) (ps_bytes_bucket ?s) = (ba, bb)" by (rule prod.exhaust)
  let ?s1 = "?s\<lparr> ps_buckets := (ps_buckets ?s)[k := kb], ps_bytes_bucket := bb \<rparr>"
  obtain d' st' cs where r: "refuse ops (lm_config lm) now k len ka ba ?s1 (lm_counters lm) = (d', st', cs)"
    by (rule prod_cases3)
  have st': "ps_violations st' = ps_violations ?s @ [now]" "d' \<noteq> Allow"
      "ps_disconnect_dispatched st' \<longleftrightarrow> d' = Disconnect \<or> ps_disconnect_dispatched ?s"
      "d' = Disconnect \<longleftrightarrow> \<not> ps_disconnect_dispatched ?s \<and> unat (max_violations (lm_config lm)) \<le> length (ps_violations ?s) + 1"
    using r by (auto simp: refuse_def Let_def split: if_splits)
  show ?thesis
  proof (cases "ka \<and> ba")
    case True
    then have "d = Allow" "lm' = lm\<lparr> lm_state := hm_insert p ?s1 (lm_state lm) \<rparr>"
      using assms k b by (auto simp: admit_def Let_def split: if_splits)
    then show ?thesis using that[of ?s1] by simp
  next
    case False
    then have "d = d'" "lm' = lm\<lparr> lm_state := hm_insert p st' (lm_state lm), lm_counters := cs \<rparr>"
      using assms k b r by (auto simp: admit_def Let_def split: if_splits)
    then show ?thesis using that[of st'] st' by auto
  qed
qed

lemma peer_ok_later:
  assumes "peer_ok w log q t st" "t \<le> now" "q \<noteq> p"
  shows "peer_ok w (log @ [Decided now p d]) q now st"
  using assms by (auto simp: peer_ok_def intro: le_trans)

lemma peer_ok_admit:
  assumes ok: "peer_ok w log p t s" and t: "t \<le> now" "w \<le> now"
    and st: "ps_violations st = ps_violations s @ (if d = Allow then [] else [now])"
      "ps_disconnect_dispatched st \<longleftrightarrow> d = Disconnect \<or> ps_disconnect_dispatched s"
  shows "peer_ok w (log @ [Decided now p d]) p now st"
proof -
  have "\<forall>v \<in> set (refusals p log). v \<le> now" using ok t by (auto simp: peer_ok_def)
  then show ?thesis using ok t st by (auto simp: peer_ok_def sorted_append)
qed

lemma lim_inv_admit:
  assumes inv: "lim_inv cfg t log lm" and t: "t \<le> now" and adm: "admit ops now p k len lm = Some (d, lm')"
  shows "lim_inv cfg now (log @ [Decided now p d]) lm'"
proof -
  have cfg: "lm_config lm = cfg" using inv by (simp add: lim_inv_def)
  obtain st where st: "lm_config lm' = lm_config lm" "lm_state lm' = hm_insert p st (lm_state lm)"
    "ps_violations st = ps_violations (trim_violations (now - violation_window cfg) (lm_peer ops now p lm)) @ (if d = Allow then [] else [now])"
    "ps_disconnect_dispatched st \<longleftrightarrow> d = Disconnect \<or> ps_disconnect_dispatched (trim_violations (now - violation_window cfg) (lm_peer ops now p lm))"
    using admit_result[OF adm] unfolding cfg by metis
  obtain w where w: "w \<le> t - violation_window cfg" "peer_ok w log p t (lm_peer ops now p lm)"
    using peer_ok_lm_peer[OF inv] by blast
  have "peer_ok (now - violation_window cfg) log p t (trim_violations (now - violation_window cfg) (lm_peer ops now p lm))"
    by (rule trim_ok[OF w(2)]) (use w(1) t in linarith)
  then have mine: "peer_ok (now - violation_window cfg) (log @ [Decided now p d]) p now st"
    by (rule peer_ok_admit[OF _ t _ st(3,4)]) simp
  have other: "case hm_get (lm_state lm) q of None \<Rightarrow> refusals q (log @ [Decided now p d]) = []
      | Some s \<Rightarrow> \<exists>w \<le> now - violation_window cfg. peer_ok w (log @ [Decided now p d]) q now s" if "q \<noteq> p" for q
  proof (cases "hm_get (lm_state lm) q")
    case None
    then show ?thesis using lim_inv_at(1)[OF inv None] that by simp
  next
    case (Some s)
    then obtain w where "w \<le> t - violation_window cfg" "peer_ok w log q t s"
      using lim_inv_at(2)[OF inv Some] by blast
    then show ?thesis using Some t that peer_ok_later[of w log q t s now p d] by (auto intro!: exI[of _ w])
  qed
  show ?thesis using mine other cfg unfolding lim_inv_def st(1,2) by auto
qed

lemma lim_inv_outbound:
  assumes inv: "lim_inv cfg t log lm" and t: "t \<le> now" and out: "admit_outbound ops now p len lm = (d, lm')"
  shows "lim_inv cfg now log lm'"
proof -
  obtain st where st: "lm_config lm' = lm_config lm" "lm_state lm' = hm_insert p st (lm_state lm)"
    "ps_violations st = ps_violations (lm_peer ops now p lm)"
    "ps_disconnect_dispatched st = ps_disconnect_dispatched (lm_peer ops now p lm)"
    using out that by (fastforce simp: admit_outbound_def Let_def split: prod.splits if_splits)
  have later: "\<exists>w \<le> now - violation_window cfg. peer_ok w log q now s"
    if ex: "\<exists>w \<le> t - violation_window cfg. peer_ok w log q t s" for q and s :: "'a peer_state"
  proof -
    obtain w where "w \<le> t - violation_window cfg" "peer_ok w log q t s" using ex by blast
    then have "w \<le> now - violation_window cfg" "peer_ok w log q now s" using t by (auto simp: peer_ok_def)
    then show ?thesis by blast
  qed
  have "\<exists>w \<le> t - violation_window cfg. peer_ok w log p t st"
    using peer_ok_lm_peer[OF inv, of p ops now] st(3,4) by (simp add: peer_ok_def)
  then have mine: "\<exists>w \<le> now - violation_window cfg. peer_ok w log p now st" by (rule later)
  have "case hm_get (lm_state lm') q of None \<Rightarrow> refusals q log = []
      | Some s \<Rightarrow> \<exists>w \<le> now - violation_window cfg. peer_ok w log q now s" for q
  proof (cases "q = p")
    case False
    then have g: "hm_get (lm_state lm') q = hm_get (lm_state lm) q" by (simp add: st(2))
    show ?thesis
    proof (cases "hm_get (lm_state lm) q")
      case None
      then show ?thesis using lim_inv_at(1)[OF inv None] by (simp add: g)
    next
      case (Some s)
      then show ?thesis using later[OF lim_inv_at(2)[OF inv Some]] by (simp add: g)
    qed
  qed (use mine in \<open>simp add: st(2)\<close>)
  then show ?thesis using inv st(1) by (simp add: lim_inv_def)
qed

lemma lim_reach_inv: "lim_reach ops kinds cfg t log lm \<Longrightarrow> lim_inv cfg t log lm"
proof (induction rule: lim_reach.induct)
  case (start lm)
  then show ?case by (auto simp: lim_inv_def lm_new_def split: if_splits)
next
  case (admit t log lm now p k len d lm')
  then show ?case by (blast intro: lim_inv_admit)
next
  case (outbound t log lm now p len d lm')
  then show ?case by (blast intro: lim_inv_outbound)
next
  case (forget t log lm p)
  have "case hm_get (lm_state (forget_peer p lm)) q of None \<Rightarrow> refusals q (log @ [Forgot p]) = []
      | Some s \<Rightarrow> \<exists>w \<le> t - violation_window cfg. peer_ok w (log @ [Forgot p]) q t s" for q
  proof (cases "hm_get (lm_state (forget_peer p lm)) q")
    case None
    then show ?thesis using lim_inv_at(1)[OF forget.IH, of q] by (simp add: forget_peer_def log_forget split: if_splits)
  next
    case (Some s)
    then have "q \<noteq> p" "hm_get (lm_state lm) q = Some s" by (simp_all add: forget_peer_def split: if_splits)
    then show ?thesis using lim_inv_at(2)[OF forget.IH, of q s] Some by (simp add: log_forget peer_ok_def)
  qed
  then show ?case using forget.IH by (simp add: lim_inv_def forget_peer_def)
qed

text \<open>C40: a disconnect is justified and not repeated within a connection: since the node last
  forgot the peer, which it does when the connection closes, the peer had with this message
  at least the configured number of refusals within the window, and its last disconnect is
  more than a window ago. A refusal below that number only drops the message, and the
  state of other peers does not change. Forgetting clears the record: the next
  connection of the peer is judged afresh.\<close>

theorem disconnects_justified:
  assumes "lim_reach ops kinds cfg t log lm" "t \<le> now" "admit ops now p k len lm = Some (d, lm')"
  shows "(d = Disconnect \<longrightarrow>
        unat (max_violations cfg) \<le> Suc (length (filter (\<lambda>v. now \<le> v + violation_window cfg) (refusals p log)))
        \<and> (\<forall>v \<in> set (disconnects p log). v + violation_window cfg < now))
    \<and> (Suc (length (filter (\<lambda>v. now \<le> v + violation_window cfg) (refusals p log))) < unat (max_violations cfg)
        \<longrightarrow> d \<noteq> Disconnect)
    \<and> (q \<noteq> p \<longrightarrow> hm_get (lm_state lm') q = hm_get (lm_state lm) q)
    \<and> hm_get (lm_state (forget_peer p lm')) p = None \<and> refusals p (log @ [Decided now p d, Forgot p]) = []"
proof -
  let ?w = "now - violation_window cfg"
  have inv: "lim_inv cfg t log lm" by (rule lim_reach_inv[OF assms(1)])
  then have cfg: "lm_config lm = cfg" by (simp add: lim_inv_def)
  obtain w where w: "w \<le> t - violation_window cfg" "peer_ok w log p t (lm_peer ops now p lm)"
    using peer_ok_lm_peer[OF inv] by blast
  have ok: "peer_ok ?w log p t (trim_violations ?w (lm_peer ops now p lm))"
    by (rule trim_ok[OF w(2)]) (use w(1) assms(2) in linarith)
  have f: "filter (\<lambda>v. now \<le> v + violation_window cfg) (refusals p log) = filter (\<lambda>v. ?w \<le> v) (refusals p log)"
    by (intro filter_cong) auto
  have n: "\<And>v. v < ?w \<longleftrightarrow> v + violation_window cfg < now" by linarith
  from admit_result[OF assms(3)] obtain st where st:
    "lm_state lm' = hm_insert p st (lm_state lm)"
    "ps_violations st = filter (\<lambda>v. ?w \<le> v) (refusals p log) @ (if d = Allow then [] else [now])"
    "d = Disconnect \<longleftrightarrow> d \<noteq> Allow \<and> \<not> ps_disconnect_dispatched (trim_violations ?w (lm_peer ops now p lm))
       \<and> unat (max_violations cfg) \<le> length (ps_violations st)"
    using ok unfolding cfg peer_ok_def by metis
  have "v < ?w" if "d = Disconnect" "v \<in> set (disconnects p log)" for v
    using st(3) that ok not_less unfolding peer_ok_def by blast
  moreover have "refusals p (log @ [Decided now p d, Forgot p]) = []"
    using log_forget(1)[of p "log @ [Decided now p d]" p] by simp
  ultimately show ?thesis using st unfolding f n by (auto simp: forget_peer_def)
qed

text \<open>Exact integers in place of floating point: a bucket of one message per second, where the
  third message in the same instant disconnects the peer.\<close>

definition demo_f64 :: "int f64_ops" where
  "demo_f64 = \<lparr> fo_nat = int, fo_secs = (\<lambda>d. int (d div 10 ^ 9)), fo_add = (+), fo_sub = (-), fo_mul = (*),
     fo_min = min, fo_max = max, fo_ge = (\<lambda>x y. x \<ge> y) \<rparr>"

definition demo_rate_config :: "int rate_limits_config" where
  "demo_rate_config = \<lparr> per_kind_per_sec = [1], bytes_per_sec = 100, outbound_bytes_per_sec = 100,
     burst_seconds = 1, violation_window = 5, max_violations = 2 \<rparr>"

definition demo_rate_limiter :: "int rate_limiter" where
  "demo_rate_limiter = \<lparr> lm_config = demo_rate_config, lm_state = [], lm_counters = with_kinds 1 \<rparr>"

lemmas demo_rate_simps = admit_def refuse_def trim_violations_def lm_peer_def ps_new_def tk_new_def try_take_def
  tk_refund_def bucket_capacity_def bytes_capacity_def outbound_bytes_capacity_def demo_f64_def demo_rate_config_def
  demo_rate_limiter_def Let_def

theorem disconnects_justified_witness:
  "\<exists>lm1 lm2 lm3. admit demo_f64 7 1 0 10 demo_rate_limiter = Some (Allow, lm1) \<and> admit demo_f64 7 1 0 10 lm1 = Some (Drop, lm2)
     \<and> admit demo_f64 7 1 0 10 lm2 = Some (Disconnect, lm3)
     \<and> unat (max_violations demo_rate_config)
         \<le> Suc (length (filter (\<lambda>v. 7 \<le> v + violation_window demo_rate_config) (refusals 1 [Decided 7 1 Allow, Decided 7 1 Drop])))"
proof -
  obtain lm1 where 1: "admit demo_f64 7 1 0 10 demo_rate_limiter = Some (Allow, lm1)"
    by (simp add: demo_rate_simps)
  then have l1: "lm1 = the (map_option snd (admit demo_f64 7 1 0 10 demo_rate_limiter))" by simp
  obtain lm2 where 2: "admit demo_f64 7 1 0 10 lm1 = Some (Drop, lm2)"
    unfolding l1 by (simp add: demo_rate_simps)
  then have l2: "lm2 = the (map_option snd (admit demo_f64 7 1 0 10 lm1))" by simp
  obtain lm3 where 3: "admit demo_f64 7 1 0 10 lm2 = Some (Disconnect, lm3)"
    unfolding l2 l1 by (simp add: demo_rate_simps)
  have "lim_reach demo_f64 1 demo_rate_config 0 [] demo_rate_limiter"
    by (rule lim_reach.start) (simp add: lm_new_def demo_rate_limiter_def demo_rate_config_def)
  from lim_reach.admit[OF lim_reach.admit[OF this _ 1] _ 2]
  have r: "lim_reach demo_f64 1 demo_rate_config 7 ([] @ [Decided 7 1 Allow] @ [Decided 7 1 Drop]) lm2" by simp
  show ?thesis using 1 2 3 disconnects_justified[OF r le_refl 3] by auto
qed

end
