(* ===== verification/Spec2Isabelle.thy ===== *)
theory Spec2Isabelle
  imports Consensus_Params Hotstuff_Quorum Node_Histories Snapshot_Sync Ingress_Safety Crash_Recovery
    Evidence App_Reconfig Timeout_Bucket Block_Range_Sync Liveness_Tracker Registry_Payload Reth_Safety
    Commit_Durability Genesis Conn_Limits Rate_Limits
begin

text \<open>
  A model of the Boule consensus node and the theorems that make it correct.

  \<^bold>\<open>The program.\<close> Boule replicates blocks with chained HotStuff. A node receives signed
  messages, verifies them against the histories of validator sets and keys, feeds them
  to a deterministic core, writes what the core asks to persist, and only then performs
  the other actions. A pacemaker moves the views forward; timeout votes are counted
  beside the core; committed blocks change the validator set, the keys, the endpoints
  and the parameters; nodes that fell behind fetch ranges of blocks or a snapshot. The
  application behind the node is a reference ledger or the bridge to an Ethereum execution
  client, which builds and executes the payload of a block, and whose contracts report
  stake, slashing and commands through logs.

  \<^bold>\<open>Conventions.\<close> Structs are records, enums datatypes with the constructors of the source,
  \<open>u8\<close> to \<open>u128\<close> and hashes are words of their width, where addition wraps; the checked and
  saturating operations of Rust are in \<open>Prelude\<close>. A \<open>HashMap\<close> is an association list whose
  order is a parameter where it can be observed, a \<open>BTreeMap\<close> a sorted one
  (\<open>Key_Timeline\<close>). A \<open>Result\<close> is a sum with the error on the left, or an option where no
  caller tells the errors apart; a panic is \<open>None\<close> around the result. Operations take the
  state and return it updated. Paths below are under \<open>src/crates\<close>.

  \<^bold>\<open>Shared theories.\<close>
  \<^item> \<open>Prelude\<close>: words, slices, maps, tagged encodings. \<open>Byte_Cursor\<close>: reading binary payloads,
    with the codec interface \<open>field_codec\<close>.
  \<^item> \<open>Step_Machine\<close>: sequences of events through a step function; the locales \<open>progress\<close> and
    \<open>total_machine\<close> lift a fact about one step to all runs. They are interpreted for the core
    and the snapshot client.
  \<^item> \<open>View_History\<close>, \<open>Key_Timeline\<close>: the interfaces of the structures indexed by views.
  \<^item> \<open>Instance\<close>: a concrete hash, encoding, pairing library and network of four validators on
    which the definitions evaluate.

  \<^bold>\<open>Validators, keys and parameters\<close> (\<open>boule-consensus/src\<close>).
  \<^item> \<open>Validator_Set\<close>, \<open>Validator_History\<close> (\<open>validator_set.rs\<close>, \<open>validator_history.rs\<close>),
    \<open>Validator_Key_History\<close>, \<open>Bls_Key_History\<close>, \<open>Operator_Key_History\<close> (the files of those names)
    and \<open>Consensus_Params\<close> (\<open>consensus_params.rs\<close>): well-formedness is kept, lookups return
    the value in force, persisted forms read back.
  \<^item> \<open>Validator_Rotation\<close>, \<open>Reconfig\<close>, \<open>Endpoint_Registry\<close> (\<open>validator_rotation.rs\<close>, \<open>reconfig.rs\<close>
    with \<open>reconfig_consent.rs\<close>, \<open>endpoint_registry.rs\<close>): the commands with every branch of
    their validation. A validated reconfiguration yields a well-formed set of at least four
    members; endpoint commands cannot be replayed.
  \<^item> \<open>History_Commitment\<close> (\<open>history_commitment.rs\<close>): the commitment binds the histories. \<open>Node_Histories\<close>
    (\<open>boule-node/src/consensus_node/rotation_apply.rs\<close>, \<open>reconfig_apply.rs\<close>, \<open>endpoint_apply.rs\<close>):
    what a node applies refines the rebuild from the chain. \<open>App_Reconfig\<close> (\<open>app_reconfig.rs\<close>,
    with the staging of \<open>commit.rs\<close>): minted reconfigurations are valid and keep the floor of the set.

  \<^bold>\<open>The protocol core\<close> (\<open>boule-consensus/src/hotstuff\<close>, \<open>pacemaker\<close>, \<open>limits.rs\<close>).
  \<^item> \<open>Sig_Scheme\<close>, \<open>Signed_Msg\<close> (\<open>boule-core/src/crypto\<close>), \<open>Block\<close>, \<open>Qc\<close>: bitmaps, envelopes, blocks,
    certificates. The signing preimage is injective, quorums of one set intersect
    (locale \<open>weighted_quorums\<close>).
  \<^item> \<open>Limits\<close>, \<open>Hotstuff_State\<close>, \<open>Hotstuff_Step\<close>: the replica state, the safety rules and all handlers
    of \<open>hotstuff/step\<close>.
  \<^item> \<open>Hotstuff_Safety\<close>, \<open>Hotstuff_Rules\<close>, \<open>Hotstuff_Quorum\<close>: over any run votes increase and are
    persisted first, locks and certificates never go back; a commit is a three-chain; the
    tally holds no two conflicting quorums and the core never panics.
  \<^item> \<open>Leader\<close>, \<open>Pacemaker\<close>: the cached weighted selector refines the schedule computed from
    scratch and is proportional; views advance and timers stay in bounds.

  \<^bold>\<open>The boundary and the node\<close> (\<open>boule-consensus/src\<close>, \<open>boule-node/src/consensus_node\<close>).
  \<^item> \<open>Dispatch\<close>, \<open>Ingress_Safety\<close> (\<open>dispatch\<close>, \<open>wire.rs\<close>): accepted messages are authentic, proofs of
    equivocation exact, honest broadcasts accepted, and no accepted message panics the core.
    The composition with the core shows too that certificates without signers are accepted.
  \<^item> \<open>Storage\<close> (\<open>boule-core/src/storage\<close>), \<open>Persistence\<close>, \<open>Crash_Recovery\<close> (\<open>persistence.rs\<close>, parts of \<open>mod.rs\<close>
    and \<open>action_interpreter.rs\<close>): no double vote over any number of crashes between any two
    writes.
  \<^item> \<open>Timeout_Bucket\<close>, \<open>Block_Range_Sync\<close>, \<open>Snapshot\<close>, \<open>Snapshot_Store\<close>, \<open>Snapshot_Sync\<close>, \<open>Mempool\<close>,
    \<open>Evidence\<close>, \<open>Liveness_Tracker\<close> (the files of those names): timeout certificates rest on a
    quorum, ranges end and are bounded, only verified snapshots are restored, the pool is fair,
    slashing is justified and happens once, the counters of participation are exact.
  \<^item> \<open>Node_Commit\<close>, \<open>Commit_Durability\<close> (\<open>commit.rs\<close>, \<open>param_apply.rs\<close>, \<open>snapshot_io.rs\<close>): the commit of a
    block runs the components above in the order of the code on one state. What was
    committed is in the store whatever follows; a restore over a known change of the validator
    set fails half way.
  \<^item> \<open>Genesis\<close> (\<open>genesis.rs\<close>, \<open>boule-core/src/config.rs\<close>, \<open>build_validator_set\<close> of \<open>boule-node/src/lib.rs\<close>): node
    and tools derive one chain id from a configuration, and it binds the genesis tables.
  \<^item> \<open>Conn_Limits\<close>, \<open>Rate_Limits\<close> (\<open>boule-core/src/transport/limits.rs\<close>, \<open>rate_limit.rs\<close>): connections and
    handshakes stay within their limits under every interleaving of the lock and the
    counters; a disconnect is justified by refusals within the window.

  \<^bold>\<open>Ledgers and the execution layer\<close> (\<open>boule-consensus/src/replication\<close>, \<open>boule-reth/src\<close>).
  \<^item> \<open>Stake_Ledger\<close> (\<open>stake_source.rs\<close>, \<open>reward_ledger.rs\<close>): followers of the drained updates have the
    stake exactly (locale \<open>stake_source\<close>), rewards are solvent.
  \<^item> \<open>Eth_Logs\<close> (\<open>predeploy_log.rs\<close>, \<open>staking.rs\<close>, \<open>slashing.rs\<close>, \<open>rotation.rs\<close>, \<open>endpoint.rs\<close>, \<open>param.rs\<close>,
    \<open>governance.rs\<close>), \<open>Registry_Payload\<close>, \<open>El_Registry\<close>, \<open>Weight_Proof\<close> (\<open>registry_payload.rs\<close>,
    \<open>registry.rs\<close>, \<open>weight_proof.rs\<close>): logs and payloads read back, slot arithmetic is exact, and a
    weight is accepted exactly when a receipt of a recent block backs it.
  \<^item> \<open>Reth_App\<close>, \<open>Reth_Commit\<close>, \<open>Reth_Safety\<close> (\<open>application.rs\<close>, \<open>engine.rs\<close>): proposing, validating and
    committing. The frontier moves only over executed blocks, the weights to seat are the
    current stakes, an honest proposal is not refused.

  \<^bold>\<open>Loops and fuel.\<close> Loops over data are structural or have a termination proof. The ancestry
  walk of the core keeps the hashes it has seen and ends on cyclic caches too. The two walks of
  \<open>Reth_App\<close> take one unit of fuel per height, \<open>walk_fuel\<close>; \<open>walks_return\<close> shows that this suffices
  when parents are lower than their children. The walk that serves a range is a
  \<open>partial_function\<close>, and is shown to return on a finite stored chain.

  \<^bold>\<open>Parameters.\<close> Hash functions, postcard and JSON encodings, Ed25519 and the pairing library,
  hexadecimal text, the receipt trie, the iteration order of hash maps, floating-point arithmetic, the
  application and the execution client are fields of environment records. The theorems name the laws they need of them (a
  codec decodes what it encodes, a signature verifies what was signed); each has an instance on
  which the laws hold.

  \<^bold>\<open>Not modelled.\<close> The asynchronous run loop and the constructor of the node, timers, metrics and
  status reports; disk storage and key files; the parsing of configuration files, genesis files
  and the command line; the libp2p overlay, HTTP transport, faucet and
  proxies; the test network; the customised execution node. These are I/O, operating-system
  services or glue around libraries.
\<close>

end
